(* ===== verification/Nile_Prelude.thy ===== *)
theory Nile_Prelude
  imports Main "HOL-Library.Word" "HOL-Library.Monad_Syntax" "HOL-Library.Signed_Division"
    "HOL-Library.While_Combinator"
begin

text \<open>
  Shared vocabulary of the NileOS development: the C integer types as words,
  the conversions C performs between them, byte regions, the interface of a
  bitmap, and the generic lemmas on words and lists the component theories use.
\<close>

unbundle bit_operations_syntax

section \<open>Machine integers\<close>

type_synonym u8 = "8 word"
type_synonym u16 = "16 word"
type_synonym u32 = "32 word"
type_synonym u64 = "64 word"

text \<open>
  Collections the components extend: \<open>nile_defs\<close> holds the unfoldings that
  evaluate an operation, \<open>nile_words\<close> the facts that turn word arithmetic into
  arithmetic on \<^typ>\<open>nat\<close>.
\<close>

named_theorems nile_defs
named_theorems nile_words

text \<open>
  The value of a C expression of type \<open>int\<close> (32 bits, two's complement) whose
  mathematical value is \<open>i\<close>, and its conversion to \<open>uint64_t\<close>. An overflow of
  the \<open>int\<close> is undefined in C; the model takes the wrap-around the target
  machine performs.
\<close>

definition c_int :: "int \<Rightarrow> int" where
  "c_int i = signed_take_bit 31 i"

definition int_to_u64 :: "int \<Rightarrow> u64" where
  "int_to_u64 i = word_of_int (c_int i)"

lemma c_int_id [simp]:
  assumes "- (2 ^ 31) \<le> i" and "i < 2 ^ 31"
  shows "c_int i = i"
  using assms by (simp add: c_int_def signed_take_bit_int_eq_self)

lemma c_int_uint: "uint x < 2 ^ 31 \<Longrightarrow> c_int (uint x) = uint x"
  by (rule c_int_id) (rule order_trans [OF _ uint_ge_0], simp_all)

lemma int_to_u64_nonneg:
  assumes "0 \<le> i" and "i < 2 ^ 31"
  shows "int_to_u64 i = word_of_int i" and "uint (int_to_u64 i) = i"
proof -
  from assms have c: "c_int i = i" by simp
  then show "int_to_u64 i = word_of_int i" by (simp add: int_to_u64_def)
  from assms c show "uint (int_to_u64 i) = i"
    by (simp add: int_to_u64_def uint_word_of_int)
qed

lemma unat_add_no_wrap:
  fixes a b :: "'a::len word"
  assumes "unat a + unat b < 2 ^ LENGTH('a)"
  shows "unat (a + b) = unat a + unat b"
  using assms by (simp add: unat_word_ariths)

lemma unat_of_nat_small: "n < 2 ^ LENGTH('a) \<Longrightarrow> unat (of_nat n :: 'a::len word) = n"
  by (simp add: unat_of_nat)

lemma unat_less_uint: "unat x < n \<longleftrightarrow> uint x < int n"
  by (simp flip: of_nat_less_iff [where 'a = int])

lemma unat_sub_no_wrap:
  fixes a b :: "'a::len word"
  assumes "b \<le> a"
  shows "unat (a - b) = unat a - unat b"
  using assms by (rule unat_sub)

section \<open>Masks\<close>

lemma and_mask_split: "(w AND mask n) + (w AND NOT (mask n)) = (w :: 'a::len word)"
proof -
  have "(w AND mask n) + (w AND NOT (mask n)) = (w AND mask n) OR (w AND NOT (mask n))"
    by (rule disjunctive_add_eq_or) (simp add: bit_eq_iff bit_simps)
  also have "\<dots> = w" by (auto simp: bit_eq_iff bit_simps)
  finally show ?thesis .
qed
lemma unat_and_mask [nile_words]: "unat (w AND mask n) = unat (w :: 'a::len word) mod 2 ^ n"
  by (simp flip: take_bit_eq_mask take_bit_eq_mod unsigned_take_bit_eq)

lemma unat_and_not_mask [nile_words]:
  "unat (w AND NOT (mask n)) = unat (w :: 'a::len word) div 2 ^ n * 2 ^ n"
proof -
  have le: "w AND mask n \<le> w" by (simp add: word_and_le2)
  have "w AND NOT (mask n) = w - (w AND mask n)"
    using and_mask_split [of w n] by (metis add_diff_cancel_left')
  then have "unat (w AND NOT (mask n)) = unat w - unat w mod 2 ^ n"
    by (simp add: unat_sub [OF le] unat_and_mask)
  then show ?thesis by (simp add: minus_mod_eq_div_mult)
qed

lemma page_mask: "(0xFFFFFFFFFFFFF000 :: u64) = NOT (mask 12)"
  by (simp add: mask_eq_exp_minus_1)

lemma unat_and_page_mask: "unat (w AND (0xFFFFFFFFFFFFF000 :: u64)) = unat w div 4096 * 4096"
  unfolding page_mask by (simp add: unat_and_not_mask)

lemma bit_byte_masks:
  "n < 8 \<Longrightarrow> bit (0xFF :: u8) n" "bit (0x7F :: u8) n \<longleftrightarrow> n < 7"
proof -
  have m: "(0xFF :: u8) = mask 8" "(0x7F :: u8) = mask 7" by (simp_all add: mask_eq_exp_minus_1)
  show "n < 8 \<Longrightarrow> bit (0xFF :: u8) n" and "bit (0x7F :: u8) n \<longleftrightarrow> n < 7"
    unfolding m by (auto simp: bit_mask_iff)
qed

lemma or_eq_add_disjoint: "(a :: 'a::len word) AND b = 0 \<Longrightarrow> a OR b = a + b"
  by (simp add: disjunctive_add_eq_or)


section \<open>Rounding up to a multiple\<close>

lemma align_up_nat:
  fixes x k :: nat
  assumes "0 < k" and "x div k * k < x"
  shows "(x + (k - 1)) div k * k = x div k * k + k"
proof -
  have "(x + (k - 1)) div k = Suc (x div k)"
  proof (rule div_nat_eqI)
    show "k * Suc (x div k) \<le> x + (k - 1)" using assms by (simp add: mult.commute)
    have "x < k * Suc (x div k)" using assms(1) by (metis dividend_less_times_div mult.commute mult_Suc_right)
    then show "x + (k - 1) < k * Suc (Suc (x div k))" using assms(1) by simp
  qed
  then show ?thesis by simp
qed

lemma align_up_nat_id:
  fixes x k :: nat
  assumes "0 < k" and "k dvd x"
  shows "(x + (k - 1)) div k * k = x"
proof -
  from assms obtain q where x: "x = k * q" by blast
  have "(x + (k - 1)) div k = q" using assms(1) by (simp add: x div_nat_eqI)
  then show ?thesis by (simp add: x mult.commute)
qed

text \<open>The addresses \<open>s, s + 1, \<dots>\<close> below \<open>e\<close>, by their offset from \<open>s\<close>.\<close>

lemma word_offset_less_iff:
  fixes a s e :: "'a::len word"
  assumes "s \<le> e"
  shows "a - s < e - s \<longleftrightarrow> s \<le> a \<and> a < e"
  using assms by uint_arith


section \<open>Lists\<close>

lemma find_append: "find P (xs @ ys) = (case find P xs of None \<Rightarrow> find P ys | Some x \<Rightarrow> Some x)"
  by (induction xs) auto

section \<open>Errors and arrays\<close>

text \<open>
  A C access the program must not make: an index outside an array, a null or
  uninitialised pointer, a division by zero.
\<close>

datatype c_error = Out_of_bounds | Null_pointer | Division_by_zero

type_synonym 'a result = "c_error + 'a"

definition and_then :: "'a result \<Rightarrow> ('a \<Rightarrow> 'b result) \<Rightarrow> 'b result" where
  "and_then r f = (case r of Inl e \<Rightarrow> Inl e | Inr x \<Rightarrow> f x)"

lemma and_then_simps [simp]:
  "and_then (Inl e) f = Inl e" "and_then (Inr x) f = f x"
  by (simp_all add: and_then_def)

lemma and_then_assoc: "and_then (and_then r f) g = and_then r (\<lambda>x. and_then (f x) g)"
  by (simp add: and_then_def split: sum.splits)

lemma and_then_eq_Inr: "and_then r f = Inr y \<longleftrightarrow> (\<exists>x. r = Inr x \<and> f x = Inr y)"
  by (cases r) auto

text \<open>Sequencing of operations that may fail or not return.\<close>

definition then_do :: "'a result option \<Rightarrow> ('a \<Rightarrow> 'b result option) \<Rightarrow> 'b result option" where
  "then_do r f = (case r of None \<Rightarrow> None | Some (Inl e) \<Rightarrow> Some (Inl e) | Some (Inr x) \<Rightarrow> f x)"

lemma then_do_simps [simp]:
  "then_do None f = None" "then_do (Some (Inl e)) f = Some (Inl e)" "then_do (Some (Inr x)) f = f x"
  by (simp_all add: then_do_def)

lemma then_do_eq_Inr: "then_do r f = Some (Inr y) \<longleftrightarrow> (\<exists>x. r = Some (Inr x) \<and> f x = Some (Inr y))"
  by (auto simp: then_do_def split: option.splits sum.splits)

definition in_array :: "'a list \<Rightarrow> int \<Rightarrow> bool" where
  "in_array xs i \<longleftrightarrow> 0 \<le> i \<and> i < int (length xs)"

definition arr_get :: "'a list \<Rightarrow> int \<Rightarrow> 'a result" where
  "arr_get xs i = (if in_array xs i then Inr (xs ! nat i) else Inl Out_of_bounds)"

definition arr_set :: "'a list \<Rightarrow> int \<Rightarrow> 'a \<Rightarrow> 'a list result" where
  "arr_set xs i v = (if in_array xs i then Inr (xs[nat i := v]) else Inl Out_of_bounds)"

lemma arr_set_nat: "n < length xs \<Longrightarrow> arr_set xs (int n) v = Inr (xs[n := v])"
  by (simp add: arr_set_def in_array_def)

lemma arr_get_set:
  "arr_set xs i v = Inr ys \<Longrightarrow> arr_get ys j = (if i = j then Inr v else arr_get xs j)"
  by (auto simp: arr_get_def arr_set_def in_array_def nth_list_update split: if_splits)

lemma arr_set_length: "arr_set xs i v = Inr ys \<Longrightarrow> length ys = length xs"
  by (auto simp: arr_set_def split: if_splits)

lemma arr_set_ok: "in_array xs i \<Longrightarrow> arr_set xs i v = Inr (xs[nat i := v])"
  by (simp add: arr_set_def)

section \<open>Loops\<close>

text \<open>
  A C \<open>for\<close> loop over a 64-bit counter: condition, step, body. The counter may wrap
  around, so the loop may never end; then its value is \<open>None\<close>.
\<close>

definition for_loop :: "(u64 \<Rightarrow> bool) \<Rightarrow> (u64 \<Rightarrow> u64) \<Rightarrow> (u64 \<Rightarrow> 's \<Rightarrow> 's) \<Rightarrow> u64 \<Rightarrow> 's \<Rightarrow> 's option" where
  "for_loop c nxt body i s =
     map_option snd (while_option (\<lambda>(i, s). c i) (\<lambda>(i, s). (nxt i, body i s)) (i, s))"

lemma for_loop_unfold:
  "for_loop c nxt body i s = (if c i then for_loop c nxt body (nxt i) (body i s) else Some s)"
  unfolding for_loop_def by (subst while_option_unfold) simp

lemma for_loop_steps:
  assumes "\<And>k. k < n \<Longrightarrow> c (i + of_nat k * d)" and "\<not> c (i + of_nat n * d)"
  shows "for_loop c (\<lambda>i. i + d) body i s = Some (fold body (map (\<lambda>k. i + of_nat k * d) [0..<n]) s)"
  using assms
proof (induction n arbitrary: i s)
  case 0
  then show ?case by (subst for_loop_unfold) simp
next
  case (Suc n)
  have "c i" using Suc.prems(1) [of 0] by simp
  then have "for_loop c (\<lambda>i. i + d) body i s = for_loop c (\<lambda>i. i + d) body (i + d) (body i s)"
    by (subst for_loop_unfold) simp
  also have "\<dots> = Some (fold body (map (\<lambda>k. i + d + of_nat k * d) [0..<n]) (body i s))"
    by (rule Suc.IH) (use Suc.prems(1) [of "Suc _"] Suc.prems(2) in \<open>simp_all add: algebra_simps\<close>)
  also have "map (\<lambda>k. i + d + of_nat k * d) [0..<n] = map (\<lambda>k. i + of_nat k * d) [Suc 0..<Suc n]"
    unfolding map_Suc_upt [symmetric] by (simp add: algebra_simps)
  also have "fold body \<dots> (body i s) = fold body (map (\<lambda>k. i + of_nat k * d) [0..<Suc n]) s"
    by (subst (2) upt_conv_Cons) simp_all
  finally show ?case .
qed

section \<open>Bitmaps\<close>

text \<open>
  The interface the allocators use of a bitmap: bits numbered by a C \<open>int\<close>, set,
  cleared and read independently of each other. \<open>valid\<close> are the bit numbers the
  laws hold for.
\<close>

locale bitmap =
  fixes get :: "'m \<Rightarrow> int \<Rightarrow> bool"
    and set1 clear1 :: "'m \<Rightarrow> int \<Rightarrow> 'm"
    and valid :: "int \<Rightarrow> bool"
  assumes get_set1: "valid i \<Longrightarrow> valid j \<Longrightarrow> get (set1 m i) j = (i = j \<or> get m j)"
    and get_clear1: "valid i \<Longrightarrow> valid j \<Longrightarrow> get (clear1 m i) j = (i \<noteq> j \<and> get m j)"
begin

text \<open>The bits set in a range.\<close>

definition bits :: "'m \<Rightarrow> int set \<Rightarrow> int set" where
  "bits m R = {j \<in> R. get m j}"

lemma bits_set1: "valid i \<Longrightarrow> \<forall>j\<in>R. valid j \<Longrightarrow>
    bits (set1 m i) R = (if i \<in> R then insert i (bits m R) else bits m R)"
  by (auto simp: bits_def get_set1)

lemma bits_clear1: "valid i \<Longrightarrow> \<forall>j\<in>R. valid j \<Longrightarrow> bits (clear1 m i) R = bits m R - {i}"
  by (auto simp: bits_def get_clear1)

lemma card_bits_clear1:
  assumes "finite R" and "\<forall>j\<in>R. valid j" and "i \<in> R" and "get m i"
  shows "Suc (card (bits (clear1 m i) R)) = card (bits m R)"
proof -
  from assms have i: "i \<in> bits m R" "finite (bits m R)" by (auto simp: bits_def)
  from assms have "bits (clear1 m i) R = bits m R - {i}" by (intro bits_clear1) auto
  with i show ?thesis by (metis card_Suc_Diff1)
qed

lemma card_bits_set1:
  assumes "finite R" and "\<forall>j\<in>R. valid j" and "i \<in> R" and "\<not> get m i"
  shows "card (bits (set1 m i) R) = Suc (card (bits m R))"
proof -
  from assms have i: "i \<notin> bits m R" "finite (bits m R)" by (auto simp: bits_def)
  from assms have "bits (set1 m i) R = insert i (bits m R)" by (subst bits_set1) auto
  with i show ?thesis by simp
qed

end

end
