(* ===== verification/Spinlock.thy ===== *)
theory Spinlock
  imports Nile_Prelude
begin

text \<open>
  The spinlock of \<open>stage2/sources/sync/Spinlock.c\<close>. The sequential operations
  are functions on the lock record, as one core executes them with no other core
  interfering; the concurrent behaviour is a step relation in which every memory
  access of \<open>spinlock_lock\<close> and \<open>spinlock_unlock\<close> is one step.
\<close>

section \<open>The lock and its sequential operations\<close>

definition SL_EBUSY :: u64 where
  "SL_EBUSY = 1"

record spinlock_t =
  lapic :: u64
  stack :: u16
  core_id :: u16
  spin_lock :: u64

text \<open>
  \<open>xchg\<close> stores the register in memory and returns what memory held. The
  32-bit form reads and replaces the low half of the 64-bit lock word; the 16-bit
  form its low quarter.
\<close>

definition spinlock_xchg_64 :: "u64 \<Rightarrow> u64 \<Rightarrow> u64 \<times> u64" where
  "spinlock_xchg_64 mem x = (mem, x)"

definition spinlock_xchg_32 :: "u64 \<Rightarrow> u32 \<Rightarrow> u32 \<times> u64" where
  "spinlock_xchg_32 mem x = (ucast mem, (mem AND 0xFFFFFFFF00000000) OR ucast x)"

definition spinlock_xchg_16 :: "u64 \<Rightarrow> u16 \<Rightarrow> u16 \<times> u64" where
  "spinlock_xchg_16 mem x = (ucast mem, (mem AND 0xFFFFFFFFFFFF0000) OR ucast x)"

definition spinlock_init :: "spinlock_t \<Rightarrow> spinlock_t" where
  "spinlock_init l = l\<lparr>core_id := 0, lapic := 0, stack := 0, spin_lock := 0\<rparr>"

text \<open>
  \<open>core_id\<close> is a 16-bit field; the comparison \<open>core_id == getAPICId(lapic)+1\<close>
  is made on 32 bits, while the assignment truncates. The argument \<open>apic\<close> is
  the value \<open>getAPICId\<close> reads on the executing core.
\<close>

definition owned_by :: "u32 \<Rightarrow> spinlock_t \<Rightarrow> bool" where
  "owned_by apic l \<longleftrightarrow> lapic l > 0 \<and> (ucast (core_id l) :: u32) = apic + 1"

text \<open>
  A core that finds the lock taken spins until another core stores 0; with no
  other core acting it spins forever, which is \<open>None\<close>.
\<close>

definition spinlock_lock :: "u32 \<Rightarrow> spinlock_t \<Rightarrow> spinlock_t option" where
  "spinlock_lock apic l =
     (if owned_by apic l then Some (l\<lparr>stack := stack l + 1\<rparr>)
      else (case spinlock_xchg_32 (spin_lock l) (ucast SL_EBUSY) of (old, w) \<Rightarrow>
        if old = 0
        then (let l1 = l\<lparr>spin_lock := w, stack := stack l + 1\<rparr>
              in Some (if lapic l > 0 then l1\<lparr>core_id := ucast (apic + 1)\<rparr> else l1))
        else None))"

definition spinlock_unlock :: "u32 \<Rightarrow> spinlock_t \<Rightarrow> spinlock_t" where
  "spinlock_unlock apic l =
     (if lapic l > 0 \<and> (ucast (core_id l) :: u32) \<noteq> apic + 1 then l
      else let l1 = l\<lparr>stack := stack l - 1\<rparr>
           in if stack l1 = 0 then l1\<lparr>spin_lock := 0, core_id := 0\<rparr> else l1)"

definition spinlock_trylock :: "u32 \<Rightarrow> spinlock_t \<Rightarrow> u16 \<times> spinlock_t" where
  "spinlock_trylock apic l =
     (if owned_by apic l then (core_id l, l)
      else (case spinlock_xchg_64 (spin_lock l) SL_EBUSY of (old, w) \<Rightarrow>
              (ucast old, l\<lparr>spin_lock := w\<rparr>)))"

text \<open>The lock as \<open>spinlock_init\<close> leaves it, and while held by one client.\<close>

definition lock_free :: "spinlock_t \<Rightarrow> bool" where
  "lock_free l \<longleftrightarrow> spin_lock l = 0 \<and> stack l = 0 \<and> lapic l = 0 \<and> core_id l = 0"

lemma spinlock_init_free [simp]: "lock_free (spinlock_init l)"
  by (simp add: lock_free_def spinlock_init_def)

lemma lock_of_free:
  "lock_free l \<Longrightarrow> spinlock_lock apic l = Some (l\<lparr>spin_lock := 1, stack := 1\<rparr>)"
  by (simp add: lock_free_def spinlock_lock_def owned_by_def spinlock_xchg_32_def
      SL_EBUSY_def)

lemma unlock_of_held:
  "lock_free l \<Longrightarrow> spinlock_unlock apic (l\<lparr>spin_lock := 1, stack := 1\<rparr>) = l"
  by (simp add: lock_free_def spinlock_unlock_def)

lemma lock_held_spins:
  "lapic l = 0 \<Longrightarrow> spin_lock l = 1 \<Longrightarrow> spinlock_lock apic l = None"
  by (simp add: spinlock_lock_def owned_by_def spinlock_xchg_32_def)


section \<open>Concurrent execution\<close>

text \<open>
  Control points of the two routines. \<open>LEnter\<close> is the ownership test of
  \<open>spinlock_lock\<close>, \<open>LTry\<close> the \<open>xchg\<close>, \<open>LSpin\<close> the inner read loop,
  \<open>LInc\<close> and \<open>LOwn\<close> the two stores after a successful \<open>xchg\<close>,
  \<open>LReenter\<close> the increment of an owner; \<open>UEnter\<close> to \<open>UClr\<close> are the
  statements of \<open>spinlock_unlock\<close> in order.
\<close>

datatype pc = Idle | LEnter | LTry | LSpin | LInc | LOwn | LReenter | Critical
  | UEnter | UDec | UTest | URel | UClr

record sl_state =
  lk :: spinlock_t
  pcs :: "nat \<Rightarrow> pc"

definition goto :: "nat \<Rightarrow> pc \<Rightarrow> sl_state \<Rightarrow> sl_state" where
  "goto i p s = s\<lparr>pcs := (pcs s)(i := p)\<rparr>"

definition apic_of :: "nat \<Rightarrow> u32" where
  "apic_of i = of_nat i"

inductive sl_step :: "sl_state \<Rightarrow> sl_state \<Rightarrow> bool" where
  call_lock: "pcs s i = Idle \<Longrightarrow> sl_step s (goto i LEnter s)"
| lock_owned: "pcs s i = LEnter \<Longrightarrow> owned_by (apic_of i) (lk s) \<Longrightarrow>
     sl_step s (goto i LReenter s)"
| lock_not_owned: "pcs s i = LEnter \<Longrightarrow> \<not> owned_by (apic_of i) (lk s) \<Longrightarrow>
     sl_step s (goto i LTry s)"
| lock_reenter: "pcs s i = LReenter \<Longrightarrow>
     sl_step s (goto i Critical (s\<lparr>lk := (lk s)\<lparr>stack := stack (lk s) + 1\<rparr>\<rparr>))"
| lock_xchg_taken: "pcs s i = LTry \<Longrightarrow>
     spinlock_xchg_32 (spin_lock (lk s)) (ucast SL_EBUSY) = (old, w) \<Longrightarrow> old \<noteq> 0 \<Longrightarrow>
     sl_step s (goto i LSpin (s\<lparr>lk := (lk s)\<lparr>spin_lock := w\<rparr>\<rparr>))"
| lock_xchg_got: "pcs s i = LTry \<Longrightarrow>
     spinlock_xchg_32 (spin_lock (lk s)) (ucast SL_EBUSY) = (old, w) \<Longrightarrow> old = 0 \<Longrightarrow>
     sl_step s (goto i LInc (s\<lparr>lk := (lk s)\<lparr>spin_lock := w\<rparr>\<rparr>))"
| lock_spin_free: "pcs s i = LSpin \<Longrightarrow> spin_lock (lk s) = 0 \<Longrightarrow> sl_step s (goto i LTry s)"
| lock_inc: "pcs s i = LInc \<Longrightarrow>
     sl_step s (goto i (if lapic (lk s) > 0 then LOwn else Critical)
                  (s\<lparr>lk := (lk s)\<lparr>stack := stack (lk s) + 1\<rparr>\<rparr>))"
| lock_own: "pcs s i = LOwn \<Longrightarrow>
     sl_step s (goto i Critical (s\<lparr>lk := (lk s)\<lparr>core_id := ucast (apic_of i + 1)\<rparr>\<rparr>))"
| call_unlock: "pcs s i = Critical \<Longrightarrow> sl_step s (goto i UEnter s)"
| unlock_not_owner: "pcs s i = UEnter \<Longrightarrow>
     lapic (lk s) > 0 \<and> (ucast (core_id (lk s)) :: u32) \<noteq> apic_of i + 1 \<Longrightarrow>
     sl_step s (goto i Idle s)"
| unlock_owner: "pcs s i = UEnter \<Longrightarrow>
     \<not> (lapic (lk s) > 0 \<and> (ucast (core_id (lk s)) :: u32) \<noteq> apic_of i + 1) \<Longrightarrow>
     sl_step s (goto i UDec s)"
| unlock_dec: "pcs s i = UDec \<Longrightarrow>
     sl_step s (goto i UTest (s\<lparr>lk := (lk s)\<lparr>stack := stack (lk s) - 1\<rparr>\<rparr>))"
| unlock_nested: "pcs s i = UTest \<Longrightarrow> stack (lk s) \<noteq> 0 \<Longrightarrow> sl_step s (goto i Critical s)"
| unlock_last: "pcs s i = UTest \<Longrightarrow> stack (lk s) = 0 \<Longrightarrow> sl_step s (goto i URel s)"
| unlock_release: "pcs s i = URel \<Longrightarrow>
     sl_step s (goto i UClr (s\<lparr>lk := (lk s)\<lparr>spin_lock := 0\<rparr>\<rparr>))"
| unlock_clear: "pcs s i = UClr \<Longrightarrow>
     sl_step s (goto i Idle (s\<lparr>lk := (lk s)\<lparr>core_id := 0\<rparr>\<rparr>))"

text \<open>
  The states reachable from a lock whose \<open>lapic\<close> field is \<open>a\<close>:
  \<open>spinlock_init\<close> gives 0; a positive value would switch the re-entrant
  behaviour on.
\<close>

inductive sl_reachable :: "u64 \<Rightarrow> sl_state \<Rightarrow> bool" for a where
  start: "sl_reachable a
     \<lparr>lk = \<lparr>lapic = a, stack = 0, core_id = 0, spin_lock = 0\<rparr>, pcs = (\<lambda>_. Idle)\<rparr>"
| step: "sl_reachable a s \<Longrightarrow> sl_step s t \<Longrightarrow> sl_reachable a t"

subsection \<open>The invariant of a lock as \<open>spinlock_init\<close> leaves it\<close>

fun holding :: "pc \<Rightarrow> bool" where
  "holding LInc = True"
| "holding Critical = True"
| "holding UEnter = True"
| "holding UDec = True"
| "holding UTest = True"
| "holding URel = True"
| "holding _ = False"

fun counted :: "pc \<Rightarrow> bool" where
  "counted Critical = True"
| "counted UEnter = True"
| "counted UDec = True"
| "counted _ = False"

definition sl_inv_of :: "nat option \<Rightarrow> sl_state \<Rightarrow> bool" where
  "sl_inv_of h s \<longleftrightarrow> lapic (lk s) = 0 \<and>
     (\<forall>i. pcs s i \<noteq> LOwn \<and> pcs s i \<noteq> LReenter) \<and>
     (\<forall>i. holding (pcs s i) \<longleftrightarrow> h = Some i) \<and>
     spin_lock (lk s) = (if h = None then 0 else 1) \<and>
     stack (lk s) = (case h of None \<Rightarrow> 0 | Some i \<Rightarrow> if counted (pcs s i) then 1 else 0)"

definition sl_inv :: "sl_state \<Rightarrow> bool" where
  "sl_inv s \<longleftrightarrow> (\<exists>h. sl_inv_of h s)"

lemma sl_inv_of_holder:
  assumes "sl_inv_of h s" and "pcs s i = p" and "holding p"
  shows "h = Some i" and "stack (lk s) = (if counted p then 1 else 0)"
proof -
  from assms show h: "h = Some i" unfolding sl_inv_of_def by metis
  with assms show "stack (lk s) = (if counted p then 1 else 0)"
    by (simp add: sl_inv_of_def)
qed

text \<open>A core that moves between two control points outside the lock.\<close>

lemma sl_inv_of_move_outside:
  assumes "sl_inv_of h s" and "\<not> holding (pcs s i)" and "\<not> holding p"
    and "p \<noteq> LOwn" and "p \<noteq> LReenter"
    and "lk t = (lk s)\<lparr>core_id := c\<rparr>" and "pcs t = (pcs s)(i := p)"
  shows "sl_inv_of h t"
proof -
  from assms have "h \<noteq> Some i" by (auto simp: sl_inv_of_def)
  with assms show ?thesis by (auto simp: sl_inv_of_def split: option.splits)
qed

text \<open>The holder moves between two control points inside the lock.\<close>

lemma sl_inv_of_move_inside:
  assumes "sl_inv_of h s" and "holding (pcs s i)" and "holding p"
    and "lk t = (lk s)\<lparr>stack := (if counted p then 1 else 0)\<rparr>" and "pcs t = (pcs s)(i := p)"
  shows "sl_inv_of h t"
proof -
  from assms(1,2) have "h = Some i" by (auto simp: sl_inv_of_def)
  with assms show ?thesis by (auto simp: sl_inv_of_def)
qed

lemma xchg_32_lock_word:
  assumes "spinlock_xchg_32 w0 (ucast SL_EBUSY) = (old, w)" and "w0 = 0 \<or> w0 = 1"
  shows "old = ucast w0" and "w = 1"
  using assms by (auto simp: spinlock_xchg_32_def SL_EBUSY_def)

lemma sl_inv_of_word: "sl_inv_of h s \<Longrightarrow> spin_lock (lk s) = 0 \<or> spin_lock (lk s) = 1"
  by (simp add: sl_inv_of_def)

lemma sl_inv_of_xchg_got:
  assumes "sl_inv_of h s" and "pcs s i = LTry"
    and "spinlock_xchg_32 (spin_lock (lk s)) (ucast SL_EBUSY) = (0, w)"
  shows "sl_inv_of (Some i) (goto i LInc (s\<lparr>lk := (lk s)\<lparr>spin_lock := w\<rparr>\<rparr>))"
proof -
  from xchg_32_lock_word [OF assms(3) sl_inv_of_word [OF assms(1)]] sl_inv_of_word [OF assms(1)]
  have "w = 1" and "spin_lock (lk s) = 0" by auto
  moreover from this(2) assms(1) have "h = None" by (simp add: sl_inv_of_def split: if_splits)
  ultimately show ?thesis using assms(1,2) by (auto simp: sl_inv_of_def goto_def)
qed

lemma sl_inv_of_xchg_taken:
  assumes "sl_inv_of h s" and "pcs s i = LTry"
    and "spinlock_xchg_32 (spin_lock (lk s)) (ucast SL_EBUSY) = (old, w)" and "old \<noteq> 0"
  shows "sl_inv_of h (goto i LSpin (s\<lparr>lk := (lk s)\<lparr>spin_lock := w\<rparr>\<rparr>))"
proof -
  from xchg_32_lock_word [OF assms(3) sl_inv_of_word [OF assms(1)]] assms(4)
    sl_inv_of_word [OF assms(1)] have "w = spin_lock (lk s)" by auto
  then show ?thesis
    by (intro sl_inv_of_move_outside [OF assms(1), where i = i and p = LSpin
          and c = "core_id (lk s)"]) (simp_all add: assms(2) goto_def)
qed

lemma sl_step_inv_of:
  assumes "sl_step s t" and "sl_inv_of h s"
  shows "\<exists>h'. sl_inv_of h' t"
  using assms
proof (cases rule: sl_step.cases)
  case (lock_xchg_got i old w)
  with sl_inv_of_xchg_got [OF assms(2)] show ?thesis by blast
next
  case (lock_xchg_taken i old w)
  with sl_inv_of_xchg_taken [OF assms(2)] show ?thesis by blast
next
  case (unlock_release i)
  with assms(2) have "h = Some i" by (auto simp: sl_inv_of_def)
  with assms(2) unlock_release have "sl_inv_of None t"
    by (auto simp: sl_inv_of_def goto_def)
  then show ?thesis ..
next
  case (lock_inc i)
  with sl_inv_of_holder [OF assms(2), of i LInc] assms(2) have "sl_inv_of h t"
    by - (rule sl_inv_of_move_inside [where s = s and i = i and p = Critical],
      auto simp: goto_def sl_inv_of_def)
  then show ?thesis ..
next
  case (unlock_dec i)
  with sl_inv_of_holder [OF assms(2), of i UDec] assms(2) have "sl_inv_of h t"
    by - (rule sl_inv_of_move_inside [where s = s and i = i and p = UTest],
      auto simp: goto_def)
  then show ?thesis ..
next
  case (call_unlock i)
  with sl_inv_of_holder [OF assms(2), of i Critical] assms(2) have "sl_inv_of h t"
    by - (rule sl_inv_of_move_inside [where s = s and i = i and p = UEnter],
      auto simp: goto_def)
  then show ?thesis ..
next
  case (unlock_owner i)
  with sl_inv_of_holder [OF assms(2), of i UEnter] assms(2) have "sl_inv_of h t"
    by - (rule sl_inv_of_move_inside [where s = s and i = i and p = UDec],
      auto simp: goto_def)
  then show ?thesis ..
next
  case (unlock_last i)
  with sl_inv_of_holder [OF assms(2), of i UTest] assms(2) have "sl_inv_of h t"
    by - (rule sl_inv_of_move_inside [where s = s and i = i and p = URel],
      auto simp: goto_def)
  then show ?thesis ..
next
  case (unlock_nested i)
  with sl_inv_of_holder [OF assms(2), of i UTest] show ?thesis by simp
next
  case (unlock_clear i)
  with assms(2) have "sl_inv_of h t"
    by - (rule sl_inv_of_move_outside [where s = s and i = i and p = Idle and c = 0],
      auto simp: goto_def)
  then show ?thesis ..
next
  case (call_lock i)
  with assms(2) have "sl_inv_of h t"
    by - (rule sl_inv_of_move_outside [where s = s and i = i and p = LEnter
          and c = "core_id (lk s)"],
      auto simp: goto_def)
  then show ?thesis ..
next
  case (lock_not_owned i)
  with assms(2) have "sl_inv_of h t"
    by - (rule sl_inv_of_move_outside [where s = s and i = i and p = LTry
          and c = "core_id (lk s)"],
      auto simp: goto_def)
  then show ?thesis ..
next
  case (lock_spin_free i)
  with assms(2) have "sl_inv_of h t"
    by - (rule sl_inv_of_move_outside [where s = s and i = i and p = LTry
          and c = "core_id (lk s)"],
      auto simp: goto_def)
  then show ?thesis ..
qed (auto simp: sl_inv_of_def owned_by_def)

lemma sl_step_inv: "sl_step s t \<Longrightarrow> sl_inv s \<Longrightarrow> sl_inv t"
  unfolding sl_inv_def using sl_step_inv_of by blast

lemma sl_reachable_inv: "sl_reachable 0 s \<Longrightarrow> sl_inv s"
proof (induction rule: sl_reachable.induct)
  case start
  have "sl_inv_of None \<lparr>lk = \<lparr>lapic = 0, stack = 0, core_id = 0, spin_lock = 0\<rparr>, pcs = (\<lambda>_. Idle)\<rparr>"
    by (simp add: sl_inv_of_def)
  then show ?case unfolding sl_inv_def by blast
next
  case (step s t)
  then show ?case by (blast intro: sl_step_inv)
qed


section \<open>Properties\<close>

text \<open>C1: in every reachable state of any interleaving of memory accesses, two cores are never both
  between the return of \<open>spinlock_lock\<close> and the call of \<open>spinlock_unlock\<close> of the same
  initialised lock; while a core is there the lock word is set and the count of entries is 1, and
  when no core holds the lock both are 0.\<close>

theorem spinlock_mutual_exclusion:
  assumes "sl_reachable 0 s"
  shows "(\<forall>i j. pcs s i = Critical \<longrightarrow> pcs s j = Critical \<longrightarrow> i = j) \<and>
    (\<forall>i. pcs s i = Critical \<longrightarrow> spin_lock (lk s) = 1 \<and> stack (lk s) = 1) \<and>
    ((\<forall>i. \<not> holding (pcs s i)) \<longrightarrow> spin_lock (lk s) = 0 \<and> stack (lk s) = 0)"
proof -
  from sl_reachable_inv [OF assms] obtain h where h: "sl_inv_of h s"
    unfolding sl_inv_def by blast
  have holder: "h = Some i" if "pcs s i = Critical" for i
    using sl_inv_of_holder(1) [OF h that] by simp
  moreover have "spin_lock (lk s) = 1 \<and> stack (lk s) = 1" if "pcs s i = Critical" for i
    using h holder [OF that] sl_inv_of_holder(2) [OF h that] by (simp add: sl_inv_of_def)
  moreover have "h = None" if "\<forall>i. \<not> holding (pcs s i)"
    using h that by (cases h) (auto simp: sl_inv_of_def)
  ultimately show ?thesis using h by (auto simp: sl_inv_of_def)
qed

lemma sl_reachable_own_lock:
  "sl_reachable 0
     \<lparr>lk = \<lparr>lapic = 0, stack = 1, core_id = 0, spin_lock = 1\<rparr>, pcs = (\<lambda>_. Idle)(2 := Critical)\<rparr>"
proof -
  let ?l = "\<lambda>n w. \<lparr>lapic = 0, stack = n, core_id = 0, spin_lock = w\<rparr>"
  let ?s = "\<lambda>n w p. \<lparr>lk = ?l n w, pcs = (\<lambda>_. Idle)(2 := p)\<rparr>"
  have "sl_reachable 0 (?s 0 0 LEnter)"
    using sl_reachable.step [OF sl_reachable.start call_lock [where i = 2]] by (simp add: goto_def)
  from sl_reachable.step [OF this lock_not_owned [where i = 2]]
  have "sl_reachable 0 (?s 0 0 LTry)" by (simp add: goto_def owned_by_def)
  from sl_reachable.step [OF this lock_xchg_got [where i = 2 and old = 0 and w = 1]]
  have "sl_reachable 0 (?s 0 1 LInc)"
    by (simp add: goto_def spinlock_xchg_32_def SL_EBUSY_def)
  from sl_reachable.step [OF this lock_inc [where i = 2]]
  show ?thesis by (simp add: goto_def)
qed

theorem spinlock_mutual_exclusion_witness:
  "\<exists>s. sl_reachable 0 s \<and> pcs s 2 = Critical \<and> (\<forall>j. pcs s j = Critical \<longrightarrow> 2 = j) \<and> spin_lock (lk s) = 1"
proof -
  let ?s = "\<lparr>lk = \<lparr>lapic = 0, stack = 1, core_id = 0, spin_lock = 1\<rparr>,
             pcs = (\<lambda>_. Idle)(2 := Critical)\<rparr>"
  have "pcs ?s 2 = Critical" by simp
  with sl_reachable_own_lock spinlock_mutual_exclusion [OF sl_reachable_own_lock]
  show ?thesis by blast
qed

text \<open>C17: the lock word is never lost: in every reachable state in which no core
  holds the lock, the next \<open>xchg\<close> of any waiting core acquires it.\<close>

theorem spinlock_acquirable_when_unheld:
  assumes "sl_reachable 0 s" and "\<forall>i. \<not> holding (pcs s i)" and "pcs s k = LTry"
  shows "\<exists>t. sl_step s t \<and> pcs t k = LInc \<and> spin_lock (lk t) = 1"
proof -
  from sl_reachable_inv [OF assms(1)] obtain h where h: "sl_inv_of h s"
    unfolding sl_inv_def by blast
  with assms(2) have "h = None" by (cases h) (auto simp: sl_inv_of_def)
  with h have "spin_lock (lk s) = 0" by (simp add: sl_inv_of_def)
  then have "spinlock_xchg_32 (spin_lock (lk s)) (ucast SL_EBUSY) = (0, 1)"
    by (simp add: spinlock_xchg_32_def SL_EBUSY_def)
  from lock_xchg_got [OF assms(3) this refl] show ?thesis
    by (intro exI conjI) (auto simp: goto_def)
qed

theorem spinlock_acquirable_when_unheld_witness:
  "\<exists>s t. sl_reachable 0 s \<and> pcs s 0 = LTry \<and> sl_step s t \<and> pcs t 0 = LInc"
proof -
  let ?s = "\<lambda>p. \<lparr>lk = \<lparr>lapic = 0, stack = 0, core_id = 0, spin_lock = 0\<rparr>,
             pcs = (\<lambda>_. Idle)(0 := p)\<rparr>"
  have "sl_reachable 0 (?s LEnter)"
    using sl_reachable.step [OF sl_reachable.start call_lock [where i = 0]] by (simp add: goto_def)
  from sl_reachable.step [OF this lock_not_owned [where i = 0]]
  have r: "sl_reachable 0 (?s LTry)" by (simp add: goto_def owned_by_def)
  have "\<forall>i. \<not> holding (pcs (?s LTry) i)" and "pcs (?s LTry) 0 = LTry" by simp_all
  from spinlock_acquirable_when_unheld [OF r this] r show ?thesis by fastforce
qed

text \<open>Seen from one core, \<open>spinlock_unlock\<close> undoes \<open>spinlock_lock\<close> on a
  free lock, and while the lock is held a second \<open>spinlock_lock\<close>, from any core
  (the holder included, since \<open>spinlock_init\<close> leaves \<open>lapic\<close> at 0), does
  not return.\<close>

theorem spinlock_lock_unlock:
  assumes "lock_free l"
  shows "\<exists>l'. spinlock_lock a l = Some l' \<and> spinlock_lock b l' = None \<and> spinlock_unlock a l' = l"
  using lock_of_free [OF assms, of a] unlock_of_held [OF assms, of a]
    lock_held_spins [of "l\<lparr>spin_lock := 1, stack := 1\<rparr>" b] assms
  by (simp add: lock_free_def)

theorem spinlock_lock_unlock_witness:
  "\<exists>l'. spinlock_lock 0 \<lparr>lapic = 0, stack = 0, core_id = 0, spin_lock = 0\<rparr> = Some l' \<and>
        spinlock_lock 3 l' = None"
  using spinlock_lock_unlock [of "\<lparr>lapic = 0, stack = 0, core_id = 0, spin_lock = 0\<rparr>" 0 3]
  by (auto simp: lock_free_def)

text \<open>\<open>spinlock_trylock\<close> takes the lock word without counting the
  acquisition in \<open>stack\<close>, so the \<open>spinlock_unlock\<close> that follows wraps the
  counter and leaves the lock taken: every later \<open>spinlock_lock\<close> spins.\<close>

theorem trylock_never_released:
  assumes "lock_free l" and "spinlock_trylock a l = (r, l')"
  shows "r = 0 \<and> stack (spinlock_unlock a l') = 0xFFFF \<and>
         spinlock_lock b (spinlock_unlock a l') = None"
  using assms
  by (auto simp: lock_free_def spinlock_trylock_def owned_by_def spinlock_xchg_64_def
      SL_EBUSY_def spinlock_unlock_def spinlock_lock_def spinlock_xchg_32_def Let_def)

theorem trylock_never_released_witness:
  "stack (spinlock_unlock 0 \<lparr>lapic = 0, stack = 0, core_id = 0, spin_lock = 1\<rparr>) = 0xFFFF"
  using trylock_never_released [of "\<lparr>lapic = 0, stack = 0, core_id = 0, spin_lock = 0\<rparr>" 0 0
      "\<lparr>lapic = 0, stack = 0, core_id = 0, spin_lock = 1\<rparr>"]
  by (simp add: lock_free_def spinlock_trylock_def owned_by_def spinlock_xchg_64_def SL_EBUSY_def)

subsection \<open>The re-entrant mode\<close>

text \<open>
  With \<open>lapic\<close> set, \<open>spinlock_unlock\<close> clears \<open>core_id\<close> after it has
  released the lock word, so it can erase the ownership a second core has just
  recorded.
\<close>

definition race_state :: "u16 \<Rightarrow> u16 \<Rightarrow> u64 \<Rightarrow> pc \<Rightarrow> pc \<Rightarrow> sl_state" where
  "race_state n c w p q =
     \<lparr>lk = \<lparr>lapic = 1, stack = n, core_id = c, spin_lock = w\<rparr>,
      pcs = (\<lambda>_. Idle)(0 := p, 1 := q)\<rparr>"

lemma race_goto:
  "goto 0 p' (race_state n c w p q) = race_state n c w p' q"
  "goto (Suc 0) q' (race_state n c w p q) = race_state n c w p q'"
  "pcs (race_state n c w p q) 0 = p" "pcs (race_state n c w p q) (Suc 0) = q"
  "lk (race_state n c w p q) = \<lparr>lapic = 1, stack = n, core_id = c, spin_lock = w\<rparr>"
  "(race_state n c w p q)\<lparr>lk := \<lparr>lapic = 1, stack = n', core_id = c', spin_lock = w'\<rparr>\<rparr> =
     race_state n' c' w' p q"
  by (auto simp: race_state_def goto_def fun_upd_twist)

lemmas race_simps = race_goto owned_by_def apic_of_def spinlock_xchg_32_def SL_EBUSY_def

lemma race_release:
  "sl_reachable 1 (race_state 0 1 0 UClr Idle)"
proof -
  have "sl_reachable 1 (race_state 0 0 0 Idle Idle)"
    using sl_reachable.start [of 1] by (simp add: race_state_def fun_upd_idem)
  from sl_reachable.step [OF this call_lock [where i = 0]]
  have "sl_reachable 1 (race_state 0 0 0 LEnter Idle)" by (simp add: race_simps)
  from sl_reachable.step [OF this lock_not_owned [where i = 0]]
  have "sl_reachable 1 (race_state 0 0 0 LTry Idle)" by (simp add: race_simps)
  from sl_reachable.step [OF this lock_xchg_got [where i = 0 and old = 0 and w = 1]]
  have "sl_reachable 1 (race_state 0 0 1 LInc Idle)" by (simp add: race_simps)
  from sl_reachable.step [OF this lock_inc [where i = 0]]
  have "sl_reachable 1 (race_state 1 0 1 LOwn Idle)" by (simp add: race_simps)
  from sl_reachable.step [OF this lock_own [where i = 0]]
  have "sl_reachable 1 (race_state 1 1 1 Critical Idle)" by (simp add: race_simps)
  from sl_reachable.step [OF this call_unlock [where i = 0]]
  have "sl_reachable 1 (race_state 1 1 1 UEnter Idle)" by (simp add: race_simps)
  from sl_reachable.step [OF this unlock_owner [where i = 0]]
  have "sl_reachable 1 (race_state 1 1 1 UDec Idle)" by (simp add: race_simps)
  from sl_reachable.step [OF this unlock_dec [where i = 0]]
  have "sl_reachable 1 (race_state 0 1 1 UTest Idle)" by (simp add: race_simps)
  from sl_reachable.step [OF this unlock_last [where i = 0]]
  have "sl_reachable 1 (race_state 0 1 1 URel Idle)" by (simp add: race_simps)
  from sl_reachable.step [OF this unlock_release [where i = 0]]
  show ?thesis by (simp add: race_simps)
qed

text \<open>In the re-entrant mode a core can be inside its critical section with
  its ownership erased by the core that unlocked before it; its own
  \<open>spinlock_unlock\<close> then returns at once and the lock stays taken.\<close>

theorem reentrant_unlock_race:
  "\<exists>s. sl_reachable 1 s \<and> pcs s 1 = Critical \<and> spin_lock (lk s) = 1 \<and> core_id (lk s) = 0 \<and>
       spinlock_unlock (apic_of 1) (lk s) = lk s"
proof -
  from sl_reachable.step [OF race_release call_lock [where i = 1]]
  have "sl_reachable 1 (race_state 0 1 0 UClr LEnter)" by (simp add: race_simps)
  from sl_reachable.step [OF this lock_not_owned [where i = 1]]
  have "sl_reachable 1 (race_state 0 1 0 UClr LTry)" by (simp add: race_simps)
  from sl_reachable.step [OF this lock_xchg_got [where i = 1 and old = 0 and w = 1]]
  have "sl_reachable 1 (race_state 0 1 1 UClr LInc)" by (simp add: race_simps)
  from sl_reachable.step [OF this lock_inc [where i = 1]]
  have "sl_reachable 1 (race_state 1 1 1 UClr LOwn)" by (simp add: race_simps)
  from sl_reachable.step [OF this lock_own [where i = 1]]
  have "sl_reachable 1 (race_state 1 2 1 UClr Critical)" by (simp add: race_simps)
  from sl_reachable.step [OF this unlock_clear [where i = 0]]
  have "sl_reachable 1 (race_state 1 0 1 Idle Critical)" by (simp add: race_simps)
  then show ?thesis
    by (intro exI [of _ "race_state 1 0 1 Idle Critical"])
      (simp add: race_simps spinlock_unlock_def)
qed

end
