(* ===== verification/KMalloc.thy ===== *)
theory KMalloc
  imports Spinlock
begin

text \<open>
  The kernel and user bump allocators of \<open>stage2/sources/memory/KMalloc.c\<close>.
  Every operation takes the allocator's spinlock, does its work and releases it;
  an operation that would spin forever is \<open>None\<close>. The argument \<open>apic\<close>
  is the id of the executing core. The diagnostics printed on failure and by
  \<open>memoryAllocatorDump\<close> are not part of the result.
\<close>

section \<open>The allocator\<close>

record MemoryAllocator =
  kernel_memory_start_address :: u64
  kernel_memory_current_address :: u64
  kernel_memory_end_address :: u64
  user_memory_start_address :: u64
  user_memory_current_address :: u64
  user_memory_end_address :: u64
  touch :: u16
  spinlock :: spinlock_t

text \<open>Run a critical section under the allocator's lock.\<close>

definition ma_locked :: "u32 \<Rightarrow> (MemoryAllocator \<Rightarrow> 'a \<times> MemoryAllocator) \<Rightarrow>
    MemoryAllocator \<Rightarrow> ('a \<times> MemoryAllocator) option" where
  "ma_locked apic body m =
     (case spinlock_lock apic (spinlock m) of
        None \<Rightarrow> None
      | Some l \<Rightarrow> (case body (m\<lparr>spinlock := l\<rparr>) of (r, m1) \<Rightarrow>
          Some (r, m1\<lparr>spinlock := spinlock_unlock apic (spinlock m1)\<rparr>)))"

definition page_align_up :: "u64 \<Rightarrow> u64" where
  "page_align_up cur =
     (if cur AND 0xFFFFFFFFFFFFF000 < cur then (cur AND 0xFFFFFFFFFFFFF000) + 0x1000 else cur)"

definition kmalloc :: "u32 \<Rightarrow> MemoryAllocator \<Rightarrow> u64 \<Rightarrow> (u64 \<times> MemoryAllocator) option" where
  "kmalloc apic m0 p_size = ma_locked apic (\<lambda>m.
     if kernel_memory_current_address m + p_size < kernel_memory_end_address m
     then (kernel_memory_current_address m,
           m\<lparr>kernel_memory_current_address := kernel_memory_current_address m + p_size\<rparr>)
     else (0, m)) m0"

definition kvalloc :: "u32 \<Rightarrow> MemoryAllocator \<Rightarrow> u64 \<Rightarrow> (u64 \<times> MemoryAllocator) option" where
  "kvalloc apic m0 p_size = ma_locked apic (\<lambda>m.
     let cur = page_align_up (kernel_memory_current_address m)
     in if cur + p_size < kernel_memory_end_address m
        then (cur, m\<lparr>kernel_memory_current_address := cur + p_size\<rparr>)
        else (0, m)) m0"

definition malloc :: "u32 \<Rightarrow> MemoryAllocator \<Rightarrow> u64 \<Rightarrow> (u64 \<times> MemoryAllocator) option" where
  "malloc apic m0 p_size = ma_locked apic (\<lambda>m.
     if user_memory_current_address m + p_size < user_memory_end_address m
     then (user_memory_current_address m,
           m\<lparr>user_memory_current_address := user_memory_current_address m + p_size\<rparr>)
     else (0, m)) m0"

definition valloc :: "u32 \<Rightarrow> MemoryAllocator \<Rightarrow> u64 \<Rightarrow> (u64 \<times> MemoryAllocator) option" where
  "valloc apic m0 p_size = ma_locked apic (\<lambda>m.
     let cur = page_align_up (user_memory_current_address m)
     in if cur + p_size < user_memory_end_address m
        then (cur, m\<lparr>user_memory_current_address := cur + p_size\<rparr>)
        else (0, m)) m0"

text \<open>
  \<open>memset\<close> of \<open>len\<close> bytes from \<open>base\<close>: the addresses
  \<open>base, base + 1, \<dots>\<close> modulo \<open>2 ^ 64\<close>.
\<close>

type_synonym memory = "u64 \<Rightarrow> u8"

definition mem_fill :: "u64 \<Rightarrow> u8 \<Rightarrow> u64 \<Rightarrow> memory \<Rightarrow> memory" where
  "mem_fill base v len mem = (\<lambda>a. if a - base < len then v else mem a)"

definition memset_user_memory :: "MemoryAllocator \<Rightarrow> memory \<Rightarrow> memory" where
  "memset_user_memory m mem =
     mem_fill (user_memory_start_address m) 0
       (user_memory_end_address m - user_memory_start_address m) mem"

definition memoryAllocatorTouch :: "u32 \<Rightarrow> MemoryAllocator \<Rightarrow> (unit \<times> MemoryAllocator) option" where
  "memoryAllocatorTouch apic m0 = ma_locked apic (\<lambda>m. ((), m\<lparr>touch := touch m + 1\<rparr>)) m0"

definition memoryAllocatorUntouch ::
  "u32 \<Rightarrow> MemoryAllocator \<Rightarrow> memory \<Rightarrow> (memory \<times> MemoryAllocator) option" where
  "memoryAllocatorUntouch apic m0 mem = ma_locked apic (\<lambda>m.
     let m1 = (if touch m > 0 then m\<lparr>touch := touch m - 1\<rparr> else m)
     in if touch m1 = 0
        then (let m2 = m1\<lparr>user_memory_current_address := user_memory_start_address m1\<rparr>
              in (memset_user_memory m2 mem, m2))
        else (mem, m1)) m0"

text \<open>
  \<open>kernel_used_memory * 1.1\<close> is computed in IEEE double precision: the integer
  and the product are each rounded to 53 significant bits (to nearest, ties to
  even), and the conversion back to \<open>uint64_t\<close> truncates. The double nearest
  to 1.1 is \<open>4953959590107546 / 2 ^ 52\<close>. \<open>round53 n\<close> rounds a natural
  number to 53 significant bits.
\<close>

fun bit_len :: "nat \<Rightarrow> nat" where
  "bit_len n = (if n = 0 then 0 else Suc (bit_len (n div 2)))"

declare bit_len.simps [simp del]

definition round53 :: "nat \<Rightarrow> nat" where
  "round53 n =
     (let e = bit_len n - 53; q = n div 2 ^ e; r = n mod 2 ^ e
      in (if 2 * r > 2 ^ e \<or> (2 * r = 2 ^ e \<and> odd q) then q + 1 else q) * 2 ^ e)"

definition mul_1_1 :: "u64 \<Rightarrow> u64" where
  "mul_1_1 x = of_nat (round53 (round53 (unat x) * 4953959590107546) div 2 ^ 52)"

definition memoryAllocatorAdjust :: "u32 \<Rightarrow> MemoryAllocator \<Rightarrow> (unit \<times> MemoryAllocator) option" where
  "memoryAllocatorAdjust apic m0 = ma_locked apic (\<lambda>m.
     let kernel_used_memory = mul_1_1 (kernel_memory_current_address m - kernel_memory_start_address m);
         kend = kernel_used_memory + kernel_memory_start_address m;
         ustart = page_align_up (kend + 1)
     in ((), m\<lparr>kernel_memory_end_address := kend, user_memory_start_address := ustart,
               user_memory_current_address := ustart\<rparr>)) m0"

section \<open>Critical sections\<close>

lemma ma_locked_free:
  assumes "lock_free (spinlock m)"
    and "body (m\<lparr>spinlock := (spinlock m)\<lparr>spin_lock := 1, stack := 1\<rparr>\<rparr>) = (r, m1)"
    and "spinlock m1 = (spinlock m)\<lparr>spin_lock := 1, stack := 1\<rparr>"
  shows "ma_locked apic body m = Some (r, m1\<lparr>spinlock := spinlock m\<rparr>)"
  using assms by (simp add: ma_locked_def lock_of_free unlock_of_held)

lemma kmalloc_free:
  assumes "lock_free (spinlock m)"
  shows "kmalloc apic m n =
     Some (if kernel_memory_current_address m + n < kernel_memory_end_address m
           then (kernel_memory_current_address m,
                 m\<lparr>kernel_memory_current_address := kernel_memory_current_address m + n\<rparr>)
           else (0, m))"
  by (simp add: kmalloc_def ma_locked_def lock_of_free unlock_of_held assms Let_def)

lemma kvalloc_free:
  assumes "lock_free (spinlock m)"
  shows "kvalloc apic m n =
     Some (if page_align_up (kernel_memory_current_address m) + n < kernel_memory_end_address m
           then (page_align_up (kernel_memory_current_address m),
                 m\<lparr>kernel_memory_current_address := page_align_up (kernel_memory_current_address m) + n\<rparr>)
           else (0, m))"
  by (simp add: kvalloc_def ma_locked_def lock_of_free unlock_of_held assms Let_def)

lemma malloc_free:
  assumes "lock_free (spinlock m)"
  shows "malloc apic m n =
     Some (if user_memory_current_address m + n < user_memory_end_address m
           then (user_memory_current_address m,
                 m\<lparr>user_memory_current_address := user_memory_current_address m + n\<rparr>)
           else (0, m))"
  by (simp add: malloc_def ma_locked_def lock_of_free unlock_of_held assms Let_def)

lemma valloc_free:
  assumes "lock_free (spinlock m)"
  shows "valloc apic m n =
     Some (if page_align_up (user_memory_current_address m) + n < user_memory_end_address m
           then (page_align_up (user_memory_current_address m),
                 m\<lparr>user_memory_current_address := page_align_up (user_memory_current_address m) + n\<rparr>)
           else (0, m))"
  by (simp add: valloc_def ma_locked_def lock_of_free unlock_of_held assms Let_def)


section \<open>The contract of a bump allocator\<close>

text \<open>
  The successes of a sequence of requests, as pairs of address and size; a request
  answered with 0 has failed.
\<close>

fun alloc_all :: "('s \<Rightarrow> u64 \<Rightarrow> (u64 \<times> 's) option) \<Rightarrow> 's \<Rightarrow> u64 list \<Rightarrow>
    ((u64 \<times> u64) list \<times> 's) option" where
  "alloc_all alloc s [] = Some ([], s)"
| "alloc_all alloc s (n # ns) =
     (case alloc s n of
        None \<Rightarrow> None
      | Some (r, s') \<Rightarrow>
          (case alloc_all alloc s' ns of
             None \<Rightarrow> None
           | Some (bs, t) \<Rightarrow> Some (if r = 0 then bs else (r, n) # bs, t)))"

text \<open>Blocks in increasing order, each ending before the next one starts.\<close>

definition blocks_disjoint :: "(u64 \<times> u64) list \<Rightarrow> bool" where
  "blocks_disjoint = sorted_wrt (\<lambda>(a, n) (b, m). unat a + unat n \<le> unat b)"

locale bump_allocator =
  fixes alloc :: "'s \<Rightarrow> u64 \<Rightarrow> (u64 \<times> 's) option"
    and cur lim :: "'s \<Rightarrow> u64"
    and ok :: "'s \<Rightarrow> bool"
  assumes returns: "ok s \<Longrightarrow> \<exists>r s'. alloc s n = Some (r, s')"
    and keeps_ok: "ok s \<Longrightarrow> n < 2 ^ 62 \<Longrightarrow> alloc s n = Some (r, s') \<Longrightarrow> ok s' \<and> lim s' = lim s"
    and failed: "ok s \<Longrightarrow> alloc s n = Some (0, s') \<Longrightarrow> s' = s"
    and granted: "ok s \<Longrightarrow> n < 2 ^ 62 \<Longrightarrow> alloc s n = Some (r, s') \<Longrightarrow> r \<noteq> 0 \<Longrightarrow>
      unat (cur s) \<le> unat r \<and> unat (cur s') = unat r + unat n \<and> unat r + unat n < unat (lim s)"
begin

lemma run_returns: "ok s \<Longrightarrow> \<forall>n\<in>set ns. n < 2 ^ 62 \<Longrightarrow> \<exists>bs t. alloc_all alloc s ns = Some (bs, t)"
proof (induction ns arbitrary: s)
  case Nil
  then show ?case by simp
next
  case (Cons n ns)
  from returns [OF Cons.prems(1)] obtain r s' where a: "alloc s n = Some (r, s')" by blast
  with keeps_ok [OF Cons.prems(1) _ a] Cons.prems(2) have "ok s'" by simp
  from Cons.IH [OF this] Cons.prems(2) obtain bs t where "alloc_all alloc s' ns = Some (bs, t)"
    by auto
  with a show ?case by simp
qed

lemma run_blocks:
  "ok s \<Longrightarrow> \<forall>n\<in>set ns. n < 2 ^ 62 \<Longrightarrow> alloc_all alloc s ns = Some (bs, t) \<Longrightarrow>
   blocks_disjoint bs \<and>
   (\<forall>(a, n)\<in>set bs. unat (cur s) \<le> unat a \<and> unat a + unat n < unat (lim s))"
proof (induction ns arbitrary: s bs)
  case Nil
  then show ?case by (simp add: blocks_disjoint_def)
next
  case (Cons n ns)
  from Cons.prems(3) obtain r s' bs' where a: "alloc s n = Some (r, s')"
    and rest: "alloc_all alloc s' ns = Some (bs', t)"
    and bs: "bs = (if r = 0 then bs' else (r, n) # bs')"
    by (auto split: option.splits prod.splits)
  have n: "n < 2 ^ 62" using Cons.prems(2) by simp
  from keeps_ok [OF Cons.prems(1) n a] have "ok s'" and lim: "lim s' = lim s" by auto
  from Cons.IH [OF this(1) _ rest] Cons.prems(2)
  have IH: "blocks_disjoint bs'"
    "\<forall>(a, n)\<in>set bs'. unat (cur s') \<le> unat a \<and> unat a + unat n < unat (lim s)"
    by (auto simp: lim)
  show ?case
  proof (cases "r = 0")
    case True
    with failed [OF Cons.prems(1), of n s'] a have "s' = s" by simp
    with IH bs True show ?thesis by simp
  next
    case False
    from granted [OF Cons.prems(1) n a False] IH bs False show ?thesis
      by (fastforce simp: blocks_disjoint_def)
  qed
qed

end

section \<open>The four allocators keep the contract\<close>

definition kernel_ok :: "MemoryAllocator \<Rightarrow> bool" where
  "kernel_ok m \<longleftrightarrow> lock_free (spinlock m) \<and> 0 < kernel_memory_current_address m \<and>
     kernel_memory_current_address m \<le> kernel_memory_end_address m \<and>
     kernel_memory_end_address m < 2 ^ 62"

definition user_ok :: "MemoryAllocator \<Rightarrow> bool" where
  "user_ok m \<longleftrightarrow> lock_free (spinlock m) \<and> 0 < user_memory_current_address m \<and>
     user_memory_current_address m \<le> user_memory_end_address m \<and>
     user_memory_end_address m < 2 ^ 62"

lemma page_align_up_unat:
  assumes "unat c < 2 ^ 62"
  shows "unat (page_align_up c) = (unat c + 4095) div 4096 * 4096"
proof (cases "c AND 0xFFFFFFFFFFFFF000 < c")
  case True
  then have "unat c div 4096 * 4096 < unat c"
    by (simp add: word_less_nat_alt unat_and_page_mask)
  moreover have "unat ((c AND 0xFFFFFFFFFFFFF000) + 0x1000) = unat c div 4096 * 4096 + 4096"
    by (subst unat_add_no_wrap) (use assms in \<open>auto simp: unat_and_page_mask\<close>)
  ultimately show ?thesis using True align_up_nat [of 4096 "unat c"]
    by (simp add: page_align_up_def)
next
  case False
  then have "unat c \<le> unat c div 4096 * 4096"
    by (simp add: word_less_nat_alt unat_and_page_mask)
  then have "4096 dvd unat c" by (metis div_times_less_eq_dividend dvd_triv_right le_antisym)
  from align_up_nat_id [OF _ this] False show ?thesis by (simp add: page_align_up_def)
qed

lemma page_align_up_props:
  assumes "c < (2 ^ 62 :: u64)" and "0 < c"
  shows "unat c \<le> unat (page_align_up c)" and "unat (page_align_up c) < unat c + 4096"
    and "4096 dvd unat (page_align_up c)" and "page_align_up c \<noteq> 0"
proof -
  from assms(1) have c: "unat c < 2 ^ 62" by (simp add: word_less_nat_alt)
  from assms(2) have pos: "0 < unat c" by (simp add: word_less_nat_alt)
  show le: "unat c \<le> unat (page_align_up c)" and "unat (page_align_up c) < unat c + 4096"
    and "4096 dvd unat (page_align_up c)"
    using page_align_up_unat [OF c] by simp_all
  from le pos show "page_align_up c \<noteq> 0" by auto
qed

lemma bump_no_wrap:
  fixes c n e :: u64
  assumes "c < 2 ^ 63" and "n < 2 ^ 62" and "e < 2 ^ 62"
  shows "unat (c + n) = unat c + unat n" and "c + n < e \<longleftrightarrow> unat c + unat n < unat e"
proof -
  show *: "unat (c + n) = unat c + unat n"
    by (rule unat_add_no_wrap) (use assms in \<open>simp add: word_less_nat_alt\<close>)
  then show "c + n < e \<longleftrightarrow> unat c + unat n < unat e" by (simp add: word_less_nat_alt)
qed


lemma kernel_ok_bounds:
  assumes "kernel_ok m"
  shows "lock_free (spinlock m)" and "0 < kernel_memory_current_address m"
    and "unat (kernel_memory_current_address m) \<le> unat (kernel_memory_end_address m)"
    and "kernel_memory_current_address m < 2 ^ 62" and "kernel_memory_end_address m < 2 ^ 62"
  using assms by (auto simp: kernel_ok_def word_le_nat_alt word_less_nat_alt)

lemma user_ok_bounds:
  assumes "user_ok m"
  shows "lock_free (spinlock m)" and "0 < user_memory_current_address m"
    and "unat (user_memory_current_address m) \<le> unat (user_memory_end_address m)"
    and "user_memory_current_address m < 2 ^ 62" and "user_memory_end_address m < 2 ^ 62"
  using assms by (auto simp: user_ok_def word_le_nat_alt word_less_nat_alt)

text \<open>
  What one grant does, for the two shapes of request: at an address \<open>a\<close> at or
  above the current one.
\<close>

lemma bump_grant:
  fixes a c n e :: u64
  assumes "0 < c" and "c < 2 ^ 62" and "unat c \<le> unat a" and "unat a < unat c + 4096"
    and "n < 2 ^ 62" and "e < 2 ^ 62" and "a + n < e"
  shows "unat (a + n) = unat a + unat n" and "unat a + unat n < unat e"
    and "0 < a + n" and "a + n \<le> e" and "a \<noteq> 0"
proof -
  have a: "a < 2 ^ 63" using assms(2,4) by (simp add: word_less_nat_alt)
  show eq: "unat (a + n) = unat a + unat n" by (rule bump_no_wrap [OF a assms(5,6)])
  show "unat a + unat n < unat e" using bump_no_wrap [OF a assms(5,6)] assms(7) by simp
  from assms(1,3) have "0 < unat a" by (simp add: word_less_nat_alt)
  with eq show "0 < a + n" and "a \<noteq> 0" by (auto simp: word_less_nat_alt)
  from assms(7) show "a + n \<le> e" by simp
qed

interpretation kmalloc: bump_allocator "kmalloc apic" kernel_memory_current_address
    kernel_memory_end_address kernel_ok for apic
proof (unfold_locales, goal_cases)
  case (1 s n)
  then show ?case by (simp add: kmalloc_free kernel_ok_bounds)
next
  case (2 s n r s')
  note b = kernel_ok_bounds [OF 2(1)]
  from 2 b show ?case
    using bump_grant(3,4) [OF b(2,4) _ _ 2(2) b(5), of "kernel_memory_current_address s"]
    by (auto simp: kmalloc_free kernel_ok_def split: if_splits)
next
  case (3 s n s')
  then show ?case by (auto simp: kmalloc_free kernel_ok_def split: if_splits)
next
  case (4 s n r s')
  note b = kernel_ok_bounds [OF 4(1)]
  from 4 b show ?case
    using bump_grant(1,2) [OF b(2,4) _ _ 4(2) b(5), of "kernel_memory_current_address s"]
    by (auto simp: kmalloc_free split: if_splits)
qed

interpretation kvalloc: bump_allocator "kvalloc apic" kernel_memory_current_address
    kernel_memory_end_address kernel_ok for apic
proof (unfold_locales, goal_cases)
  case (1 s n)
  then show ?case by (simp add: kvalloc_free kernel_ok_bounds)
next
  case (2 s n r s')
  note b = kernel_ok_bounds [OF 2(1)]
  from 2 b show ?case
    using bump_grant(3,4) [OF b(2,4) page_align_up_props(1,2) [OF b(4,2)] 2(2) b(5)]
    by (auto simp: kvalloc_free kernel_ok_def split: if_splits)
next
  case (3 s n s')
  note b = kernel_ok_bounds [OF 3(1)]
  from 3 b page_align_up_props(4) [OF b(4,2)] show ?case
    by (auto simp: kvalloc_free split: if_splits)
next
  case (4 s n r s')
  note b = kernel_ok_bounds [OF 4(1)]
  from 4 b show ?case
    using bump_grant(1,2) [OF b(2,4) page_align_up_props(1,2) [OF b(4,2)] 4(2) b(5)]
      page_align_up_props(1) [OF b(4,2)]
    by (auto simp: kvalloc_free split: if_splits)
qed

interpretation malloc: bump_allocator "malloc apic" user_memory_current_address
    user_memory_end_address user_ok for apic
proof (unfold_locales, goal_cases)
  case (1 s n)
  then show ?case by (simp add: malloc_free user_ok_bounds)
next
  case (2 s n r s')
  note b = user_ok_bounds [OF 2(1)]
  from 2 b show ?case
    using bump_grant(3,4) [OF b(2,4) _ _ 2(2) b(5), of "user_memory_current_address s"]
    by (auto simp: malloc_free user_ok_def split: if_splits)
next
  case (3 s n s')
  then show ?case by (auto simp: malloc_free user_ok_def split: if_splits)
next
  case (4 s n r s')
  note b = user_ok_bounds [OF 4(1)]
  from 4 b show ?case
    using bump_grant(1,2) [OF b(2,4) _ _ 4(2) b(5), of "user_memory_current_address s"]
    by (auto simp: malloc_free split: if_splits)
qed

interpretation valloc: bump_allocator "valloc apic" user_memory_current_address
    user_memory_end_address user_ok for apic
proof (unfold_locales, goal_cases)
  case (1 s n)
  then show ?case by (simp add: valloc_free user_ok_bounds)
next
  case (2 s n r s')
  note b = user_ok_bounds [OF 2(1)]
  from 2 b show ?case
    using bump_grant(3,4) [OF b(2,4) page_align_up_props(1,2) [OF b(4,2)] 2(2) b(5)]
    by (auto simp: valloc_free user_ok_def split: if_splits)
next
  case (3 s n s')
  note b = user_ok_bounds [OF 3(1)]
  from 3 b page_align_up_props(4) [OF b(4,2)] show ?case
    by (auto simp: valloc_free split: if_splits)
next
  case (4 s n r s')
  note b = user_ok_bounds [OF 4(1)]
  from 4 b show ?case
    using bump_grant(1,2) [OF b(2,4) page_align_up_props(1,2) [OF b(4,2)] 4(2) b(5)]
      page_align_up_props(1) [OF b(4,2)]
    by (auto simp: valloc_free split: if_splits)
qed


section \<open>The kernel's headroom\<close>

lemma bit_len_0 [simp]: "bit_len 0 = 0"
  by (simp add: bit_len.simps [of 0])

lemma bit_len_bounds: "0 < n \<Longrightarrow> 2 ^ (bit_len n - 1) \<le> n \<and> n < 2 ^ bit_len n"
proof (induction n rule: bit_len.induct)
  case (1 n)
  show ?case
  proof (cases "n div 2 = 0")
    case True
    with "1.prems" have "n = 1" by simp
    then show ?thesis by (simp add: bit_len.simps)
  next
    case False
    with "1.IH" "1.prems" have IH: "2 ^ (bit_len (n div 2) - 1) \<le> n div 2" "n div 2 < 2 ^ bit_len (n div 2)"
      by auto
    have "0 < bit_len (n div 2)" using False by (subst bit_len.simps) simp
    then have "(2::nat) ^ bit_len (n div 2) = 2 * 2 ^ (bit_len (n div 2) - 1)"
      by (cases "bit_len (n div 2)") auto
    with IH have "2 ^ bit_len (n div 2) \<le> n" "n < 2 * 2 ^ bit_len (n div 2)" by linarith+
    with "1.prems" show ?thesis by (subst (1 2) bit_len.simps) simp
  qed
qed

lemma bit_len_le: "n < 2 ^ k \<Longrightarrow> bit_len n \<le> k"
proof (rule ccontr)
  assume n: "n < 2 ^ k" and "\<not> bit_len n \<le> k"
  then have "k \<le> bit_len n - 1" by simp
  then have "(2::nat) ^ k \<le> 2 ^ (bit_len n - 1)" by (simp add: power_increasing)
  moreover from \<open>\<not> bit_len n \<le> k\<close> have "0 < n" by (cases "n = 0") auto
  ultimately show False using bit_len_bounds [of n] n by linarith
qed

lemma round53_exact: "n < 2 ^ 53 \<Longrightarrow> round53 n = n"
  using bit_len_le [of n 53] by (simp add: round53_def)

text \<open>Rounding moves a value by less than one part in \<open>2 ^ 52\<close>.\<close>

lemma round53_near:
  assumes "n div 2 ^ 52 \<le> d"
  shows "n \<le> round53 n + d" and "round53 n \<le> n + d"
proof -
  define e where "e = bit_len n - 53"
  have q: "n = n div 2 ^ e * 2 ^ e + n mod 2 ^ e" and r: "n mod 2 ^ e < 2 ^ e"
    by (simp_all only: div_mult_mod_eq) simp
  have e: "2 ^ e \<le> d \<or> n mod 2 ^ e = 0"
  proof (cases "e = 0")
    case False
    then have "0 < n" and b: "bit_len n - 1 = e + 52"
      unfolding e_def by (cases "n = 0", auto)
    with bit_len_bounds [of n] have "2 ^ (e + 52) \<le> n" by simp
    then have "2 ^ e \<le> n div 2 ^ 52" by (simp add: power_add less_eq_div_iff_mult_less_eq)
    with assms show ?thesis by simp
  qed simp
  have rd: "round53 n = n div 2 ^ e * 2 ^ e \<or>
      (round53 n = n div 2 ^ e * 2 ^ e + 2 ^ e \<and> 0 < n mod 2 ^ e)"
    unfolding round53_def Let_def e_def [symmetric]
    by (auto simp: algebra_simps intro!: gr0I)
  show "n \<le> round53 n + d" using rd q r e by linarith
  show "round53 n \<le> n + d" using rd q r e by linarith
qed

lemma mul_1_1_bounds:
  assumes "unat x < 2 ^ 52"
  shows "unat x \<le> unat (mul_1_1 x)" and "unat (mul_1_1 x) \<le> 2 * unat x"
proof -
  define n where "n = unat x"
  have p: "n * 4953959590107546 div 2 ^ 52 \<le> 2 * n" by simp
  have n53: "round53 n = n" using assms by (intro round53_exact) (simp add: n_def)
  let ?r = "round53 (n * 4953959590107546)"
  from round53_near [OF p] have "n * 2 ^ 52 \<le> ?r" and "?r \<le> 2 * n * 2 ^ 52" by simp_all
  then have b: "n \<le> ?r div 2 ^ 52" "?r div 2 ^ 52 \<le> 2 * n"
    by (simp_all add: less_eq_div_iff_mult_less_eq div_le_mono)
  then have "?r div 2 ^ 52 < 2 ^ 64" using assms by (simp add: n_def)
  then have "unat (mul_1_1 x) = ?r div 2 ^ 52"
    by (simp add: mul_1_1_def n53 flip: n_def add: unat_of_nat)
  with b show "unat x \<le> unat (mul_1_1 x)" "unat (mul_1_1 x) \<le> 2 * unat x"
    by (simp_all add: n_def)
qed

section \<open>Properties\<close>

text \<open>C10: any sequence of \<open>kmalloc\<close> requests of less than \<open>2 ^ 62\<close> bytes each returns, and
  the blocks granted are pairwise disjoint and lie between the allocator's current address and
  the end of the kernel memory. The bound on the sizes is needed: \<open>kmalloc_size_wraps\<close> is a
  request of nearly \<open>2 ^ 64\<close> bytes that moves the heap backwards.\<close>

theorem kmalloc_blocks_disjoint:
  assumes "kernel_ok m" and "\<forall>n\<in>set ns. n < 2 ^ 62"
  shows "\<exists>bs m'. alloc_all (kmalloc apic) m ns = Some (bs, m') \<and> blocks_disjoint bs \<and>
    (\<forall>(a, n)\<in>set bs. unat (kernel_memory_current_address m) \<le> unat a \<and>
       unat a + unat n < unat (kernel_memory_end_address m))"
  using kmalloc.run_returns [OF assms] kmalloc.run_blocks [OF assms] by fastforce

definition demo_allocator :: MemoryAllocator where
  "demo_allocator = \<lparr>kernel_memory_start_address = 0x2E00000, kernel_memory_current_address = 0x2E00010,
     kernel_memory_end_address = 0x285FFFFF, user_memory_start_address = 0x30000000,
     user_memory_current_address = 0x30000000, user_memory_end_address = 0x40000000, touch = 1,
     spinlock = \<lparr>lapic = 0, stack = 0, core_id = 0, spin_lock = 0\<rparr>\<rparr>"

lemma demo_allocator_ok: "kernel_ok demo_allocator" "user_ok demo_allocator"
  by (simp_all add: demo_allocator_def kernel_ok_def user_ok_def lock_free_def)

theorem kmalloc_blocks_disjoint_witness:
  "\<exists>bs m'. alloc_all (kmalloc 0) demo_allocator [16, 0x3000, 2 ^ 61, 40] = Some (bs, m') \<and>
     blocks_disjoint bs"
  using kmalloc_blocks_disjoint [OF demo_allocator_ok(1), of "[16, 0x3000, 2 ^ 61, 40]" 0]
  by fastforce

text \<open>A \<open>kvalloc\<close> that does not fail returns a page-aligned block inside the
  kernel memory that starts less than a page above the current address, and leaves the
  current address right behind the block.\<close>

theorem kvalloc_page_aligned:
  assumes "kernel_ok m" and "n < 2 ^ 62" and "kvalloc apic m n = Some (r, m')" and "r \<noteq> 0"
  shows "4096 dvd unat r \<and> unat (kernel_memory_current_address m) \<le> unat r \<and>
    unat r < unat (kernel_memory_current_address m) + 4096 \<and>
    unat (kernel_memory_current_address m') = unat r + unat n \<and>
    unat r + unat n < unat (kernel_memory_end_address m)"
proof -
  note b = kernel_ok_bounds [OF assms(1)]
  from assms(3,4) b(1) have "r = page_align_up (kernel_memory_current_address m)"
    by (auto simp: kvalloc_free split: if_splits)
  with page_align_up_props [OF b(4,2)] kvalloc.granted [OF assms] show ?thesis by simp
qed

theorem kvalloc_page_aligned_witness:
  "fst (the (kvalloc 0 demo_allocator 0x1000)) = 0x2E01000 \<and> 4096 dvd unat (0x2E01000 :: u64)"
proof -
  have "kvalloc 0 demo_allocator 0x1000 =
      Some (0x2E01000, demo_allocator\<lparr>kernel_memory_current_address := 0x2E02000\<rparr>)"
    by (simp add: kvalloc_free demo_allocator_def lock_free_def page_align_up_def)
  with kvalloc_page_aligned [OF demo_allocator_ok(1) _ this] show ?thesis by simp
qed

text \<open>The bound check of \<open>kmalloc\<close> is made on the wrapped sum: a request
  close to \<open>2 ^ 64\<close> bytes is granted and moves the current address backwards,
  so the next block overlaps memory already handed out.\<close>

theorem kmalloc_size_wraps:
  assumes "lock_free (spinlock m)" and "0 < d" and "d \<le> kernel_memory_current_address m"
    and "kernel_memory_current_address m \<le> kernel_memory_end_address m"
  shows "kmalloc apic m (- d) = Some (kernel_memory_current_address m,
    m\<lparr>kernel_memory_current_address := kernel_memory_current_address m - d\<rparr>)"
proof -
  have "unat (kernel_memory_current_address m - d) < unat (kernel_memory_end_address m)"
    using assms(2-4) by (auto simp: unat_sub_no_wrap word_le_nat_alt word_less_nat_alt)
  then show ?thesis using assms(1) by (simp add: kmalloc_free word_less_nat_alt)
qed

theorem kmalloc_size_wraps_witness:
  "kmalloc 0 demo_allocator (- 16) = Some (0x2E00010,
     demo_allocator\<lparr>kernel_memory_current_address := 0x2E00000\<rparr>)"
  using kmalloc_size_wraps [of demo_allocator 16 0]
  by (simp add: demo_allocator_def lock_free_def)

text \<open>When the last user leaves, \<open>memoryAllocatorUntouch\<close> hands the whole
  user memory back: the current address is the start address, every byte of the user
  memory is zero, and no other byte changes.\<close>

theorem untouch_resets_user_memory:
  assumes "lock_free (spinlock m)" and "touch m \<le> 1"
    and "user_memory_start_address m \<le> user_memory_end_address m"
  shows "\<exists>mem' m'. memoryAllocatorUntouch apic m mem = Some (mem', m') \<and> touch m' = 0 \<and>
    user_memory_current_address m' = user_memory_start_address m \<and>
    (\<forall>a. mem' a = (if user_memory_start_address m \<le> a \<and> a < user_memory_end_address m
                    then 0 else mem a))"
proof -
  from assms(2) have t: "touch m = 0 \<or> touch m = 1"
    by (auto simp: word_le_nat_alt word_unat_eq_iff)
  let ?m = "m\<lparr>touch := 0, user_memory_current_address := user_memory_start_address m\<rparr>"
  from t have "memoryAllocatorUntouch apic m mem = Some (memset_user_memory ?m mem, ?m)"
    by (auto simp: memoryAllocatorUntouch_def ma_locked_def lock_of_free unlock_of_held assms(1)
        Let_def memset_user_memory_def)
  then show ?thesis
    by (simp add: memset_user_memory_def mem_fill_def word_offset_less_iff [OF assms(3)])
qed

theorem untouch_resets_user_memory_witness:
  "\<exists>mem' m'. memoryAllocatorUntouch 0 demo_allocator (\<lambda>_. 7) = Some (mem', m') \<and>
     mem' 0x30000005 = 0 \<and> mem' 0x40000000 = 7"
proof -
  from untouch_resets_user_memory [of demo_allocator 0 "\<lambda>_. 7"] obtain mem' m' where
    *: "memoryAllocatorUntouch 0 demo_allocator (\<lambda>_. 7) = Some (mem', m')"
      "\<forall>a. mem' a = (if user_memory_start_address demo_allocator \<le> a \<and>
         a < user_memory_end_address demo_allocator then 0 else 7)"
    by (auto simp: demo_allocator_def lock_free_def)
  then have "mem' 0x30000005 = 0" and "mem' 0x40000000 = 7" by (simp_all add: demo_allocator_def)
  with * show ?thesis by blast
qed

lemma adjust_free:
  assumes "lock_free (spinlock m)"
  shows "memoryAllocatorAdjust apic m =
    (let kend = mul_1_1 (kernel_memory_current_address m - kernel_memory_start_address m) +
           kernel_memory_start_address m
     in Some ((), m\<lparr>kernel_memory_end_address := kend, user_memory_start_address := page_align_up (kend + 1),
          user_memory_current_address := page_align_up (kend + 1)\<rparr>))"
  by (simp add: memoryAllocatorAdjust_def ma_locked_def lock_of_free unlock_of_held assms Let_def)

text \<open>\<open>memoryAllocatorAdjust\<close> puts the end of the kernel memory at or above the
  memory in use and the user memory above that end: the user memory starts page aligned,
  less than a page and a byte behind the kernel's end, and is empty, and the kernel's
  blocks are left where they are.\<close>

theorem adjust_separates_kernel_and_user:
  assumes "lock_free (spinlock m)" and "kernel_memory_start_address m \<le> kernel_memory_current_address m"
    and "kernel_memory_current_address m < 2 ^ 48"
  shows "\<exists>m'. memoryAllocatorAdjust apic m = Some ((), m') \<and>
    kernel_memory_current_address m' = kernel_memory_current_address m \<and>
    unat (kernel_memory_current_address m) \<le> unat (kernel_memory_end_address m') \<and>
    unat (kernel_memory_end_address m') < unat (user_memory_start_address m') \<and>
    unat (user_memory_start_address m') \<le> unat (kernel_memory_end_address m') + 4096 \<and>
    4096 dvd unat (user_memory_start_address m') \<and>
    user_memory_current_address m' = user_memory_start_address m'"
proof -
  let ?s = "kernel_memory_start_address m" and ?c = "kernel_memory_current_address m"
  let ?e = "mul_1_1 (?c - ?s) + ?s"
  have d: "unat (?c - ?s) = unat ?c - unat ?s" and sc: "unat ?s \<le> unat ?c" and c: "unat ?c < 2 ^ 48"
    using assms(2,3) by (simp_all add: unat_sub_no_wrap word_le_nat_alt word_less_nat_alt)
  have "unat (?c - ?s) < 2 ^ 52" using d c by simp
  note mul = mul_1_1_bounds [OF this]
  have e: "unat ?e = unat (mul_1_1 (?c - ?s)) + unat ?s"
    by (rule unat_add_no_wrap) (use mul d c sc in simp)
  have e1: "unat (?e + 1) = unat ?e + 1"
    by (subst unat_add_no_wrap) (use e mul d c sc in simp_all)
  have "unat (?e + 1) < 2 ^ 62" using e1 e mul d c sc by simp
  then have "?e + 1 < 2 ^ 62" and "0 < ?e + 1" using e1 by (simp_all add: word_less_nat_alt)
  from page_align_up_props [OF this] e1
  have "unat ?e < unat (page_align_up (?e + 1))" "unat (page_align_up (?e + 1)) \<le> unat ?e + 4096"
    "4096 dvd unat (page_align_up (?e + 1))" by simp_all
  moreover have "unat ?c \<le> unat ?e" using e mul(1) d by simp
  ultimately show ?thesis by (simp add: adjust_free [OF assms(1)] Let_def)
qed

theorem adjust_separates_kernel_and_user_witness:
  "\<exists>m'. memoryAllocatorAdjust 0 demo_allocator = Some ((), m') \<and>
     unat (kernel_memory_end_address m') < unat (user_memory_start_address m')"
  using adjust_separates_kernel_and_user [of demo_allocator 0]
  by (auto simp: demo_allocator_def lock_free_def)

end
