(* ===== verification/Services.thy ===== *)
theory Services
  imports Nile_Prelude
begin

text \<open>
  The service layer: \<open>stage2/sources/devices/service/service.c\<close> (a service and its
  method tables) and \<open>stage2/sources/devices/service_transport_layer/service_transport_layer.c\<close>
  (the kernel's table of services and the dispatch of a call). A function pointer is a
  value of a type parameter, \<open>None\<close> being \<open>NULL\<close>; what a method does when called is an
  argument of the dispatch functions.
\<close>

section \<open>Services\<close>

datatype service_enum = console_t | physical_memory_t | pci_t | virtual_memory_t | apic_t
  | interruptManager_t | ipi_t | sharedMemory_t | xmlService_t | ackermannFunctionService_t

definition MAX_FUNCTIONS :: int where
  "MAX_FUNCTIONS = 255"

record Parameter =
  tag :: string
  type_name :: string
  encrypted :: bool
  base64Encoded :: bool
  variableSize :: bool
  sizeOfParameter :: u64

record 'f MethodStructure =
  methodPtr :: "'f option"
  parameters :: "Parameter list"
  parametersCount :: int
  returns_of :: "Parameter list"
  returnsCount :: int

text \<open>
  The three registration hooks of a service are pointers to fixed functions; the
  model records whether they have been installed.
\<close>

record 'f Service =
  service_data :: u64
  service_method :: "'f option list"
  parserMethod :: "'f option"
  testMethod :: "'f MethodStructure list"
  service_name :: service_enum
  service_method_count :: int
  serviceString :: string
  add_service_hook :: bool
  add_serviceTest_hook :: bool
  serviceTestParameterDescription_hook :: bool

text \<open>The declared sizes of the arrays of a \<open>Service\<close>.\<close>

definition service_wf :: "'f Service \<Rightarrow> bool" where
  "service_wf s \<longleftrightarrow> length (service_method s) = 255 \<and> length (testMethod s) = 10 \<and>
     (\<forall>t\<in>set (testMethod s). length (parameters t) = 15 \<and> length (returns_of t) = 15)"

fun reset_counts :: "nat \<Rightarrow> 'f MethodStructure list \<Rightarrow> int \<Rightarrow> 'f MethodStructure list result" where
  "reset_counts 0 ts i = Inr ts"
| "reset_counts (Suc n) ts i =
     and_then (arr_get ts i) (\<lambda>t.
     and_then (arr_set ts i (t\<lparr>parametersCount := 0, returnsCount := 0\<rparr>)) (\<lambda>ts'.
     reset_counts n ts' (i + 1)))"

definition service_init :: "'f Service \<Rightarrow> u64 \<Rightarrow> service_enum \<Rightarrow> (int \<times> 'f Service) result" where
  "service_init service service_to_point_at sname =
     (let s1 = service\<lparr>service_name := sname, service_data := service_to_point_at\<rparr>;
          s2 = (if sname \<noteq> sharedMemory_t \<and> sname \<noteq> ackermannFunctionService_t
                then s1\<lparr>add_service_hook := True\<rparr>
                else s1\<lparr>add_serviceTest_hook := True, serviceTestParameterDescription_hook := True\<rparr>)
      in and_then (reset_counts (nat (service_method_count s2)) (testMethod s2) 0) (\<lambda>ts.
           Inr (1, s2\<lparr>testMethod := ts\<rparr>)))"

definition add_service :: "'f Service \<Rightarrow> 'f option \<Rightarrow> int \<Rightarrow> (int \<times> 'f Service) result" where
  "add_service service fnptr location =
     (if location \<ge> MAX_FUNCTIONS \<or> fnptr = None then Inr (0, service)
      else and_then (arr_set (service_method service) location fnptr) (\<lambda>ms.
        Inr (1, service\<lparr>service_method := ms\<rparr>)))"

text \<open>\<open>strcpy\<close> into an array of \<open>n\<close> bytes stays inside it when the terminating
  zero does.\<close>

definition strcpy_into :: "nat \<Rightarrow> string \<Rightarrow> string result" where
  "strcpy_into n src = (if length src < n then Inr src else Inl Out_of_bounds)"

definition add_service_test ::
  "'f Service \<Rightarrow> 'f option \<Rightarrow> int \<Rightarrow> string \<Rightarrow> (int \<times> 'f Service) result" where
  "add_service_test service fnptr location name =
     and_then (strcpy_into 100 name) (\<lambda>nm.
       let s1 = service\<lparr>serviceString := nm\<rparr>
       in if location \<ge> MAX_FUNCTIONS \<or> fnptr = None then Inr (0, s1)
          else and_then (arr_get (testMethod s1) location) (\<lambda>t.
               and_then (arr_set (testMethod s1) location (t\<lparr>methodPtr := fnptr\<rparr>)) (\<lambda>ts.
                 Inr (1, s1\<lparr>testMethod := ts\<rparr>))))"

text \<open>
  \<open>memcpy\<close> of \<open>strlen(src)\<close> bytes over the string held in an array of \<open>n\<close> bytes:
  the terminating zero is not copied, so a longer old string keeps its tail.
\<close>

definition memcpy_string :: "nat \<Rightarrow> string \<Rightarrow> string \<Rightarrow> string result" where
  "memcpy_string n old src =
     (if length src \<le> n then Inr (src @ drop (length src) old) else Inl Out_of_bounds)"

definition describe :: "Parameter \<Rightarrow> string \<Rightarrow> string \<Rightarrow> u64 \<Rightarrow> bool \<Rightarrow> bool \<Rightarrow> bool \<Rightarrow> Parameter result" where
  "describe p tg ty sz vs en b64 =
     and_then (memcpy_string 50 (tag p) tg) (\<lambda>tg'.
     and_then (memcpy_string 20 (type_name p) ty) (\<lambda>ty'.
       Inr (p\<lparr>tag := tg', type_name := ty', sizeOfParameter := sz, variableSize := vs,
             encrypted := en, base64Encoded := b64\<rparr>)))"

definition add_serviceTestParameterDescription ::
  "'f Service \<Rightarrow> int \<Rightarrow> string \<Rightarrow> string \<Rightarrow> u64 \<Rightarrow> bool \<Rightarrow> bool \<Rightarrow> bool \<Rightarrow> bool \<Rightarrow> 'f Service result" where
  "add_serviceTestParameterDescription service location tg ty sz vs en b64 isReturn =
     and_then (arr_get (testMethod service) location) (\<lambda>t.
     and_then
       (if \<not> isReturn
        then and_then (arr_get (parameters t) (parametersCount t)) (\<lambda>p.
             and_then (describe p tg ty sz vs en b64) (\<lambda>p'.
             and_then (arr_set (parameters t) (parametersCount t) p') (\<lambda>ps.
               Inr (t\<lparr>parameters := ps, parametersCount := parametersCount t + 1\<rparr>))))
        else and_then (arr_get (returns_of t) (returnsCount t)) (\<lambda>p.
             and_then (describe p tg ty sz vs en b64) (\<lambda>p'.
             and_then (arr_set (returns_of t) (returnsCount t) p') (\<lambda>ps.
               Inr (t\<lparr>returns_of := ps, returnsCount := returnsCount t + 1\<rparr>))))) (\<lambda>t'.
     and_then (arr_set (testMethod service) location t') (\<lambda>ts.
       Inr (service\<lparr>testMethod := ts\<rparr>))))"

section \<open>The transport layer\<close>

text \<open>The table holds pointers to services; \<open>store\<close> below maps a pointer to the service
  it points to.\<close>

record service_transport_kernel =
  max_services :: int
  curr_count :: int
  kernel_services :: "u64 list"

definition InitServiceTransportLayer :: "service_transport_kernel \<Rightarrow> bool \<times> service_transport_kernel" where
  "InitServiceTransportLayer k = (True, k\<lparr>max_services := 256, curr_count := 0\<rparr>)"

definition RegisterServiceToKernel ::
  "service_transport_kernel \<Rightarrow> u64 \<Rightarrow> int \<Rightarrow> (bool \<times> service_transport_kernel) result" where
  "RegisterServiceToKernel k service_to_register location =
     (if curr_count k = max_services k then Inr (False, k)
      else and_then (arr_set (kernel_services k) location service_to_register) (\<lambda>ss.
        Inr (True, k\<lparr>curr_count := curr_count k + 1, kernel_services := ss\<rparr>)))"

definition lookup_service ::
  "service_transport_kernel \<Rightarrow> (u64 \<rightharpoonup> 'f Service) \<Rightarrow> int \<Rightarrow> 'f Service result" where
  "lookup_service k store service =
     and_then (arr_get (kernel_services k) service) (\<lambda>p.
       case store p of None \<Rightarrow> Inl Null_pointer | Some s \<Rightarrow> Inr s)"

definition DispatchKernel ::
  "('f \<Rightarrow> u64 \<Rightarrow> 'w \<Rightarrow> 'w) \<Rightarrow> service_transport_kernel \<Rightarrow> (u64 \<rightharpoonup> 'f Service) \<Rightarrow> int \<Rightarrow> int \<Rightarrow>
   'w \<Rightarrow> (bool \<times> 'w) result" where
  "DispatchKernel call k store service method_num w =
     and_then (lookup_service k store service) (\<lambda>s.
     and_then (arr_get (service_method s) method_num) (\<lambda>m.
       case m of None \<Rightarrow> Inl Null_pointer
       | Some f \<Rightarrow> Inr (True, call f (service_data s) w)))"

definition DispatchKernelTest ::
  "('f \<Rightarrow> 'f Service \<Rightarrow> 'msg \<Rightarrow> int \<Rightarrow> 'w \<Rightarrow> 'p \<times> 'w) \<Rightarrow> ('f \<Rightarrow> u64 \<Rightarrow> 'p \<Rightarrow> 'w \<Rightarrow> 'r \<times> 'w) \<Rightarrow>
   service_transport_kernel \<Rightarrow> (u64 \<rightharpoonup> 'f Service) \<Rightarrow> int \<Rightarrow> int \<Rightarrow> 'msg \<Rightarrow> 'w \<Rightarrow> ('r \<times> 'w) result" where
  "DispatchKernelTest parse call k store service method_num location_of_message w =
     and_then (lookup_service k store service) (\<lambda>s.
       case parserMethod s of None \<Rightarrow> Inl Null_pointer
       | Some pf \<Rightarrow>
           (case parse pf s location_of_message method_num w of (params, w1) \<Rightarrow>
              and_then (arr_get (testMethod s) method_num) (\<lambda>t.
                case methodPtr t of None \<Rightarrow> Inl Null_pointer
                | Some f \<Rightarrow> Inr (call f (service_data s) params w1))))"


section \<open>Registration sequences\<close>

text \<open>The \<open>add_service\<close> calls an initialisation routine makes, in order.\<close>

fun add_services :: "'f Service \<Rightarrow> ('f \<times> int) list \<Rightarrow> 'f Service result" where
  "add_services s [] = Inr s"
| "add_services s ((f, l) # fs) = and_then (add_service s (Some f) l) (\<lambda>(_, s'). add_services s' fs)"

text \<open>The calls go through the \<open>add_service\<close> pointer that \<open>service_init\<close> installs.\<close>

definition call_add_services :: "'f Service \<Rightarrow> ('f \<times> int) list \<Rightarrow> 'f Service result" where
  "call_add_services s fs = (if add_service_hook s then add_services s fs else Inl Null_pointer)"

lemma add_service_ok:
  assumes "length (service_method s) = 255" and "0 \<le> l" and "l < 255"
  shows "add_service s (Some f) l = Inr (1, s\<lparr>service_method := (service_method s)[nat l := Some f]\<rparr>)"
  using assms by (simp add: add_service_def MAX_FUNCTIONS_def arr_set_def in_array_def)

lemma add_services_ok:
  assumes "length (service_method s) = 255" and "\<forall>(f, l)\<in>set fs. 0 \<le> l \<and> l < 255"
  shows "\<exists>ms. add_services s fs = Inr (s\<lparr>service_method := ms\<rparr>) \<and> length ms = 255 \<and>
    (\<forall>j<255. int j \<notin> snd ` set fs \<longrightarrow> ms ! j = service_method s ! j) \<and>
    (distinct (map snd fs) \<longrightarrow> (\<forall>(f, l)\<in>set fs. ms ! nat l = Some f))"
  using assms
proof (induction fs arbitrary: s)
  case Nil
  then show ?case by (intro exI [of _ "service_method s"]) simp
next
  case (Cons g fs)
  obtain f l where g: "g = (f, l)" by (cases g)
  from Cons.prems g have l: "0 \<le> l" "l < 255" by auto
  let ?s = "s\<lparr>service_method := (service_method s)[nat l := Some f]\<rparr>"
  from Cons.prems have "length (service_method ?s) = 255" "\<forall>(f, l)\<in>set fs. 0 \<le> l \<and> l < 255" by auto
  from Cons.IH [OF this] obtain ms where ms: "add_services ?s fs = Inr (?s\<lparr>service_method := ms\<rparr>)"
    "length ms = 255" "\<forall>j<255. int j \<notin> snd ` set fs \<longrightarrow> ms ! j = service_method ?s ! j"
    "distinct (map snd fs) \<longrightarrow> (\<forall>(f, l)\<in>set fs. ms ! nat l = Some f)" by blast
  have "ms ! nat l = Some f" if "l \<notin> snd ` set fs"
    using ms(3) [rule_format, of "nat l"] that l Cons.prems(1) by simp
  moreover have "ms ! j = service_method s ! j" if "j < 255" "int j \<notin> snd ` set (g # fs)" for j
    using ms(3) [rule_format, of j] that l Cons.prems(1) by (auto simp: g nth_list_update)
  ultimately show ?case using ms(1,2,4) add_service_ok [OF Cons.prems(1) l]
    by (intro exI [of _ ms]) (auto simp: g)
qed

lemma reset_counts_ok:
  "0 \<le> i \<Longrightarrow> i + int n \<le> int (length ts) \<Longrightarrow>
   \<exists>ts'. reset_counts n ts i = Inr ts' \<and> length ts' = length ts \<and>
     (\<forall>j<length ts. ts' ! j = (if i \<le> int j \<and> int j < i + int n
        then (ts ! j)\<lparr>parametersCount := 0, returnsCount := 0\<rparr> else ts ! j))"
proof (induction n arbitrary: ts i)
  case (Suc n)
  let ?ts = "ts[nat i := (ts ! nat i)\<lparr>parametersCount := 0, returnsCount := 0\<rparr>]"
  from Suc.prems have i: "in_array ts i" by (simp add: in_array_def)
  from Suc.IH [of "i + 1" ?ts] Suc.prems obtain ts' where "reset_counts n ?ts (i + 1) = Inr ts'"
    "length ts' = length ts" "\<forall>j<length ts. ts' ! j = (if i + 1 \<le> int j \<and> int j < i + 1 + int n
        then (?ts ! j)\<lparr>parametersCount := 0, returnsCount := 0\<rparr> else ?ts ! j)" by auto
  with i Suc.prems show ?case
    by (intro exI [of _ ts']) (auto simp: arr_get_def arr_set_def nth_list_update)
qed simp

lemma service_init_ok:
  assumes "service_wf s" and "service_method_count s \<le> 10"
  shows "\<exists>s'. service_init s d n = Inr (1, s') \<and> service_data s' = d \<and> service_name s' = n \<and>
    service_method s' = service_method s \<and>
    (\<forall>j<10. int j < service_method_count s \<longrightarrow> parametersCount (testMethod s' ! j) = 0 \<and>
       returnsCount (testMethod s' ! j) = 0)"
proof -
  from assms have l: "length (testMethod s) = 10" by (simp add: service_wf_def)
  define n' where "n' = nat (service_method_count s)"
  with assms(2) have n': "n' \<le> 10" "\<And>j. int j < service_method_count s \<longleftrightarrow> j < n'" by auto
  from reset_counts_ok [of 0 n' "testMethod s"] n'(1) l
  obtain ts where "reset_counts n' (testMethod s) 0 = Inr ts"
    "\<forall>j<10. ts ! j = (if j < n' then (testMethod s ! j)\<lparr>parametersCount := 0, returnsCount := 0\<rparr>
       else testMethod s ! j)" by auto
  then show ?thesis by (simp add: service_init_def Let_def n'(2) flip: n'_def)
qed

section \<open>Properties\<close>

text \<open>C15: the path of a service from its initialisation to a call. A service whose methods
  are registered at distinct locations and which is then registered with the kernel answers a
  dispatch of any of these methods by running that method on the service's data; dispatches to
  services at other locations are unaffected by the registration.\<close>

theorem dispatch_runs_registered_method:
  assumes "service_wf s" and "service_method_count s \<le> 10"
    and "\<forall>(f, l)\<in>set fs. 0 \<le> l \<and> l < 255" and "distinct (map snd fs)"
    and "length (kernel_services k) = 256" and "curr_count k \<noteq> max_services k"
    and "0 \<le> loc" and "loc < 256"
  shows "\<exists>s1 s2 k'. service_init s d n = Inr (1, s1) \<and> add_services s1 fs = Inr s2 \<and>
    RegisterServiceToKernel k p loc = Inr (True, k') \<and>
    (\<forall>(f, l)\<in>set fs. DispatchKernel call k' (store(p \<mapsto> s2)) loc l w = Inr (True, call f d w)) \<and>
    (\<forall>loc' l. loc' \<noteq> loc \<longrightarrow> DispatchKernel call k' store loc' l w = DispatchKernel call k store loc' l w)"
proof -
  from service_init_ok [OF assms(1,2)] obtain s1 where s1: "service_init s d n = Inr (1, s1)"
    "service_data s1 = d" "service_method s1 = service_method s" by blast
  with assms(1) have "length (service_method s1) = 255" by (simp add: service_wf_def)
  from add_services_ok [OF this assms(3)] assms(4) obtain ms where
    ms: "add_services s1 fs = Inr (s1\<lparr>service_method := ms\<rparr>)" "length ms = 255"
      "\<forall>(f, l)\<in>set fs. ms ! nat l = Some f" by blast
  let ?k = "k\<lparr>curr_count := curr_count k + 1, kernel_services := (kernel_services k)[nat loc := p]\<rparr>"
  from assms(5-8) have set: "arr_set (kernel_services k) loc p = Inr ((kernel_services k)[nat loc := p])"
    by (simp add: arr_set_def in_array_def)
  with assms(6) have reg: "RegisterServiceToKernel k p loc = Inr (True, ?k)"
    by (simp add: RegisterServiceToKernel_def)
  note get = arr_get_set [OF set]
  have "DispatchKernel call ?k (store(p \<mapsto> s1\<lparr>service_method := ms\<rparr>)) loc l w = Inr (True, call f d w)"
    if "(f, l) \<in> set fs" for f l
  proof -
    from that ms(2,3) assms(3) have "arr_get ms l = Inr (Some f)"
      by (auto simp: arr_get_def in_array_def)
    then show ?thesis by (simp add: DispatchKernel_def lookup_service_def get s1(2))
  qed
  moreover have "DispatchKernel call ?k store loc' l w = DispatchKernel call k store loc' l w"
    if "loc' \<noteq> loc" for loc' l
    using that by (simp add: DispatchKernel_def lookup_service_def get)
  ultimately show ?thesis using s1(1) ms(1) reg by blast
qed

definition blank_service :: "string Service" where
  "blank_service = \<lparr>service_data = 0, service_method = replicate 255 None, parserMethod = None,
     testMethod = replicate 10 \<lparr>methodPtr = None,
       parameters = replicate 15 \<lparr>tag = [], type_name = [], encrypted = False, base64Encoded = False,
         variableSize = False, sizeOfParameter = 0\<rparr>, parametersCount = 0,
       returns_of = replicate 15 \<lparr>tag = [], type_name = [], encrypted = False, base64Encoded = False,
         variableSize = False, sizeOfParameter = 0\<rparr>, returnsCount = 0\<rparr>,
     service_name = console_t, service_method_count = 0, serviceString = [],
     add_service_hook = False, add_serviceTest_hook = False,
     serviceTestParameterDescription_hook = False\<rparr>"

lemma blank_service_wf: "service_wf blank_service" "service_method_count blank_service = 0"
  by (simp_all add: service_wf_def blank_service_def)

theorem dispatch_runs_registered_method_witness:
  "\<exists>s2 k'. DispatchKernel (\<lambda>f d w. (f, d) # w) k' [0x5000 \<mapsto> s2] 2 1 [] = Inr (True, [(''scan'', 0x77)])"
proof -
  let ?k = "\<lparr>max_services = 256, curr_count = 0, kernel_services = replicate 256 0\<rparr>"
  from dispatch_runs_registered_method [OF blank_service_wf(1), where
      fs = "[(''probe'', 0), (''scan'', 1)]" and k = ?k and loc = 2 and d = "0x77" and n = pci_t and
      p = "0x5000" and call = "\<lambda>f d w. (f, d) # w" and store = "\<lambda>_. None" and w = "[]"]
  show ?thesis by (fastforce simp: blank_service_wf(2))
qed

text \<open>The guard of \<open>add_service_test\<close> is the size of the other table: a location
  from 10 to 254 passes it and the store goes beyond the ten entries of \<open>testMethod\<close>.\<close>

theorem add_service_test_beyond_table:
  assumes "service_wf s" and "10 \<le> location" and "location < 255" and "length name < 100"
  shows "add_service_test s (Some f) location name = Inl Out_of_bounds"
  using assms
  by (simp add: add_service_test_def strcpy_into_def MAX_FUNCTIONS_def arr_get_def in_array_def
      service_wf_def)

theorem add_service_test_beyond_table_witness:
  "add_service_test blank_service (Some ''f'') 10 ''Allocate'' = Inl Out_of_bounds"
  using add_service_test_beyond_table [OF blank_service_wf(1), of 10 "''Allocate''" "''f''"] by simp

text \<open>\<open>add_serviceTestParameterDescription\<close> appends: while fewer than fifteen
  parameters are described and the strings fit, the call succeeds, the description lands in the
  next free entry of the method it names, the count grows by one, and every other method and
  every earlier description is unchanged; the sixteenth description is a store beyond the
  array.\<close>

theorem parameter_description_appends:
  assumes "service_wf s" and "0 \<le> loc" and "loc < 10" and "t = testMethod s ! nat loc"
    and "0 \<le> parametersCount t" and "length tg \<le> 50" and "length ty \<le> 20"
  shows "(parametersCount t < 15 \<longrightarrow> (\<exists>s' t'.
      add_serviceTestParameterDescription s loc tg ty sz vs en b64 False = Inr s' \<and>
      t' = testMethod s' ! nat loc \<and> parametersCount t' = parametersCount t + 1 \<and>
      sizeOfParameter (parameters t' ! nat (parametersCount t)) = sz \<and>
      take (length tg) (tag (parameters t' ! nat (parametersCount t))) = tg \<and>
      (\<forall>j<nat (parametersCount t). parameters t' ! j = parameters t ! j) \<and>
      (\<forall>j<10. j \<noteq> nat loc \<longrightarrow> testMethod s' ! j = testMethod s ! j))) \<and>
    (parametersCount t = 15 \<longrightarrow>
      add_serviceTestParameterDescription s loc tg ty sz vs en b64 False = Inl Out_of_bounds)"
proof -
  from assms(1-4) have t: "arr_get (testMethod s) loc = Inr t" and "in_array (testMethod s) loc"
    and l: "length (parameters t) = 15" "length (testMethod s) = 10"
    by (auto simp: service_wf_def arr_get_def in_array_def)
  then show ?thesis using assms(2,3,5-7)
    by (auto simp: add_serviceTestParameterDescription_def describe_def memcpy_string_def
        arr_get_def arr_set_def in_array_def split: if_splits)
qed

theorem parameter_description_appends_witness:
  "\<exists>s'. add_serviceTestParameterDescription blank_service 0 ''numberOfBytes'' ''uint64_t'' 8 False False
      True False = Inr s' \<and> parametersCount (testMethod s' ! 0) = 1"
  using parameter_description_appends [OF blank_service_wf(1), of 0 "testMethod blank_service ! 0"
      "''numberOfBytes''" "''uint64_t''" 8 False False True]
  by (auto simp: blank_service_def)

end
