(* ===== verification/MemUtils.thy ===== *)
theory MemUtils
  imports Nile_Prelude
begin

text \<open>
  The searches and comparisons of \<open>stage2/sources/misc/MemoryUtilities.c\<close>. A region of
  memory is read through its byte function (offset from the pointer to byte); a string constant
  is the list of its bytes, without the terminating zero. A pointer returned by a search is its
  offset, \<open>None\<close> is \<open>NULL\<close>.

  \<open>rmemcmp\<close>, \<open>memcmp\<close> and \<open>rscanc\<close> are assembler routines
  (\<open>asm/stage2/misc/MemoryUtilities.asm\<close>); they are modelled by what their comments
  specify: the last (first) position at which two regions differ, and the last occurrence of a
  byte. \<open>rmemcmp\<close> compares eight bytes at a time and keeps to its comment when the length
  is at most eight or a multiple of eight; for other lengths it compares the remaining bytes at
  the wrong place, so the properties below are stated for the former.
\<close>

section \<open>The primitives\<close>

type_synonym region = "nat \<Rightarrow> u8"

fun rmemcmp :: "region \<Rightarrow> u8 list \<Rightarrow> nat \<Rightarrow> nat option" where
  "rmemcmp h nd 0 = None"
| "rmemcmp h nd (Suc n) = (if h n \<noteq> nd ! n then Some n else rmemcmp h nd n)"

fun memcmp :: "u8 list \<Rightarrow> u8 list \<Rightarrow> nat \<Rightarrow> nat option" where
  "memcmp (a # as) (b # bs) (Suc n) =
     (if a \<noteq> b then Some 0 else map_option Suc (memcmp as bs n))"
| "memcmp as bs n = None"

fun rscanc :: "u8 list \<Rightarrow> u8 \<Rightarrow> nat \<Rightarrow> nat option" where
  "rscanc nd c 0 = None"
| "rscanc nd c (Suc n) = (if nd ! n = c then Some n else rscanc nd c n)"

lemma rmemcmp_None: "rmemcmp h nd n = None \<longleftrightarrow> (\<forall>i<n. h i = nd ! i)"
  by (induction n) (auto simp: less_Suc_eq)

lemma rmemcmp_Some: "rmemcmp h nd n = Some k \<Longrightarrow>
    k < n \<and> h k \<noteq> nd ! k \<and> (\<forall>i. k < i \<and> i < n \<longrightarrow> h i = nd ! i)"
  by (induction n) (auto simp: less_Suc_eq split: if_splits)

lemma rscanc_None: "rscanc nd c n = None \<longleftrightarrow> (\<forall>i<n. nd ! i \<noteq> c)"
  by (induction n) (auto simp: less_Suc_eq)

lemma rscanc_Some: "rscanc nd c n = Some p \<Longrightarrow>
    p < n \<and> nd ! p = c \<and> (\<forall>i. p < i \<and> i < n \<longrightarrow> nd ! i \<noteq> c)"
  by (induction n) (auto simp: less_Suc_eq split: if_splits)

lemma memcmp_None: "memcmp as bs n = None \<longleftrightarrow>
    (\<forall>i. i < n \<and> i < length as \<and> i < length bs \<longrightarrow> as ! i = bs ! i)"
proof (induction as bs n rule: memcmp.induct)
  case (1 a as b bs n)
  then show ?case by (auto simp: nth_Cons split: nat.splits)
qed auto

section \<open>Searching\<close>

text \<open>
  The loops of \<open>scanmem\<close> and \<open>strstr\<close> from position \<open>temp\<close>. They differ in the
  step after a byte that does not occur in the part of the needle before the mismatch.
\<close>

function scanmem_loop :: "region \<Rightarrow> u8 list \<Rightarrow> nat \<Rightarrow> nat \<Rightarrow> nat option" where
  "scanmem_loop h nd hlen temp =
     (if temp + length nd \<le> hlen
      then (case rmemcmp (\<lambda>i. h (temp + i)) nd (length nd) of
              None \<Rightarrow> Some temp
            | Some k \<Rightarrow>
                if k = 0 then scanmem_loop h nd hlen (temp + 1)
                else (case rscanc nd (h (temp + k)) k of
                        None \<Rightarrow> scanmem_loop h nd hlen (temp + 1)
                      | Some p \<Rightarrow> scanmem_loop h nd hlen (temp + (length nd - p - 1))))
      else None)"
  by pat_completeness auto

termination
proof (relation "measure (\<lambda>(h, nd, hlen, temp). hlen + 1 - temp)", goal_cases)
  case (4 h nd hlen temp k p)
  from rmemcmp_Some [OF 4(2)] rscanc_Some [OF 4(4)] 4(1) show ?case by auto
qed auto

function strstr_loop :: "region \<Rightarrow> u8 list \<Rightarrow> nat \<Rightarrow> nat \<Rightarrow> nat option" where
  "strstr_loop h nd hlen temp =
     (if temp + length nd \<le> hlen
      then (case rmemcmp (\<lambda>i. h (temp + i)) nd (length nd) of
              None \<Rightarrow> Some temp
            | Some k \<Rightarrow>
                if k = 0 then strstr_loop h nd hlen (temp + 1)
                else (case rscanc nd (h (temp + k)) k of
                        None \<Rightarrow> strstr_loop h nd hlen (temp + length nd)
                      | Some p \<Rightarrow> strstr_loop h nd hlen (temp + (length nd - p - 1))))
      else None)"
  by pat_completeness auto

termination
proof (relation "measure (\<lambda>(h, nd, hlen, temp). hlen + 1 - temp)", goal_cases)
  case (3 h nd hlen temp k)
  from rmemcmp_Some [OF 3(2)] 3(1) show ?case by auto
next
  case (4 h nd hlen temp k p)
  from rmemcmp_Some [OF 4(2)] rscanc_Some [OF 4(4)] 4(1) show ?case by auto
qed auto

declare scanmem_loop.simps [simp del] strstr_loop.simps [simp del]

definition scanmem :: "region \<Rightarrow> u8 list \<Rightarrow> nat \<Rightarrow> nat option" where
  "scanmem p_haystack p_needle p_haystack_len =
     (if p_haystack_len < length p_needle then None
      else scanmem_loop p_haystack p_needle p_haystack_len 0)"

definition strstr :: "u8 list \<Rightarrow> u8 list \<Rightarrow> nat option" where
  "strstr p_haystack p_needle =
     (if length p_haystack < length p_needle then None
      else strstr_loop (\<lambda>i. p_haystack ! i) p_needle (length p_haystack) 0)"

section \<open>Comparing and copying strings\<close>

text \<open>
  \<open>strcmp\<close> returns a pointer into one of the two strings: \<open>Inl i\<close> into the first,
  \<open>Inr i\<close> into the second; the offset is an \<open>int\<close>, because \<open>len - 1\<close> is \<open>-1\<close>
  when one of the strings is empty.
\<close>

definition strcmp :: "u8 list \<Rightarrow> u8 list \<Rightarrow> (int + int) option" where
  "strcmp p_dest p_src =
     (let l_dest = length p_dest; l_src = length p_src;
          len = (if l_src < l_dest then l_src else l_dest)
      in case memcmp p_dest p_src len of
           Some i \<Rightarrow> Some (Inl (int i))
         | None \<Rightarrow> if l_src < l_dest then Some (Inl (int len - 1))
                   else if l_src > l_dest then Some (Inr (int len - 1))
                   else None)"

text \<open>\<open>char\<close> is signed: the bytes are compared as such.\<close>

definition lstrcmp :: "u8 list \<Rightarrow> u8 list \<Rightarrow> int" where
  "lstrcmp p_dest p_src =
     (let l_dest = length p_dest; l_src = length p_src
      in if l_dest > l_src then 1
         else if l_dest < l_src then -1
         else case memcmp p_dest p_src l_dest of
                None \<Rightarrow> 0
              | Some d \<Rightarrow> if sint (p_dest ! d) > sint (p_src ! d) then 1 else -1)"

text \<open>
  The copies act on a byte memory: \<open>mem_copy d s n\<close> is \<open>memcpy\<close>, for regions that do
  not overlap; \<open>strlen\<close> of a memory is bounded by \<open>fuel\<close>, the size of the address space.
\<close>

definition mem_copy :: "nat \<Rightarrow> nat \<Rightarrow> nat \<Rightarrow> region \<Rightarrow> region" where
  "mem_copy d s n mem = (\<lambda>a. if d \<le> a \<and> a < d + n then mem (s + (a - d)) else mem a)"

fun strlen_fuel :: "nat \<Rightarrow> region \<Rightarrow> nat \<Rightarrow> nat" where
  "strlen_fuel 0 mem a = 0"
| "strlen_fuel (Suc n) mem a = (if mem a = 0 then 0 else Suc (strlen_fuel n mem (a + 1)))"

definition strncat :: "nat \<Rightarrow> nat \<Rightarrow> nat \<Rightarrow> nat \<Rightarrow> region \<Rightarrow> region" where
  "strncat fuel p_dest p_src p_len mem =
     mem_copy (p_dest + strlen_fuel fuel mem p_dest) p_src p_len mem"

definition strcat :: "nat \<Rightarrow> nat \<Rightarrow> nat \<Rightarrow> region \<Rightarrow> region" where
  "strcat fuel p_dest p_src mem =
     mem_copy (p_dest + strlen_fuel fuel mem p_dest) p_src (strlen_fuel fuel mem p_src + 1) mem"

definition strncpy :: "nat \<Rightarrow> nat \<Rightarrow> nat \<Rightarrow> region \<Rightarrow> region" where
  "strncpy p_dest p_src p_len mem = mem_copy p_dest p_src p_len mem"

definition strcpy :: "nat \<Rightarrow> nat \<Rightarrow> nat \<Rightarrow> region \<Rightarrow> region" where
  "strcpy fuel p_dest p_src mem = mem_copy p_dest p_src (strlen_fuel fuel mem p_src + 1) mem"

section \<open>Occurrences\<close>

definition occurs_at :: "region \<Rightarrow> u8 list \<Rightarrow> nat \<Rightarrow> bool" where
  "occurs_at h nd t \<longleftrightarrow> (\<forall>i<length nd. h (t + i) = nd ! i)"

lemma scanmem_loop_sound:
  "scanmem_loop h nd hlen temp = Some t \<Longrightarrow> occurs_at h nd t \<and> temp \<le> t \<and> t + length nd \<le> hlen"
proof (induction h nd hlen temp rule: scanmem_loop.induct)
  case (1 h nd hlen temp)
  from "1.prems" show ?case
    by (subst (asm) scanmem_loop.simps)
      (force simp: rmemcmp_None occurs_at_def dest: "1.IH" split: if_splits option.splits)
qed

text \<open>
  A step of the search passes over no occurrence, when the last byte of the needle occurs
  nowhere else in it.
\<close>

lemma scan_step_safe:
  assumes nd: "\<forall>i < length nd - 1. nd ! i \<noteq> nd ! (length nd - 1)"
    and k: "rmemcmp (\<lambda>i. h (temp + i)) nd (length nd) = Some k"
    and p: "rscanc nd (h (temp + k)) k = Some p"
    and occ: "occurs_at h nd t0" and t0: "temp \<le> t0"
  shows "temp + (length nd - p - 1) \<le> t0"
proof (rule ccontr)
  assume "\<not> ?thesis"
  then have lt: "t0 - temp < length nd - p - 1" and le: "t0 - temp < length nd" using t0 by auto
  define s where "s = t0 - temp"
  note k = rmemcmp_Some [OF k] and p = rscanc_Some [OF p]
  have at: "h (temp + j) = nd ! (j - s)" if "s \<le> j" "j < length nd" for j
    using occ [unfolded occurs_at_def, rule_format, of "j - s"] that t0 by (simp add: s_def add.commute)
  have "s \<noteq> 0" using k at [of k] by (cases s) auto
  show False
  proof (cases "k = length nd - 1")
    case True
    with lt \<open>s \<noteq> 0\<close> have "p < k - s" "k - s < k" by (auto simp: s_def)
    moreover have "nd ! (k - s) = h (temp + k)" using at [of k] True le by (simp add: s_def)
    ultimately show False using p by blast
  next
    case False
    with k have "k < length nd - 1 \<and> length nd - 1 < length nd" by auto
    with k have "h (temp + (length nd - 1)) = nd ! (length nd - 1)" by blast
    moreover have "h (temp + (length nd - 1)) = nd ! (length nd - 1 - s)"
      using at [of "length nd - 1"] le by (simp add: s_def)
    moreover have "length nd - 1 - s < length nd - 1" using \<open>s \<noteq> 0\<close> le by (simp add: s_def)
    ultimately show False using nd by metis
  qed
qed

lemma scanmem_loop_first:
  assumes nd: "\<forall>i < length nd - 1. nd ! i \<noteq> nd ! (length nd - 1)"
    and occ: "occurs_at h nd t0" and fits: "t0 + length nd \<le> hlen"
  shows "temp \<le> t0 \<Longrightarrow> \<exists>t\<le>t0. scanmem_loop h nd hlen temp = Some t"
  using nd occ fits
proof (induction h nd hlen temp rule: scanmem_loop.induct)
  case (1 h nd hlen temp)
  show ?case
  proof (cases "rmemcmp (\<lambda>i. h (temp + i)) nd (length nd)")
    case None
    with "1.prems" show ?thesis by (subst scanmem_loop.simps) auto
  next
    case k: (Some k)
    have inb: "temp + length nd \<le> hlen" using "1.prems" by simp
    have "temp \<noteq> t0" using k "1.prems"(3) by (auto simp: occurs_at_def dest: rmemcmp_Some)
    with "1.prems"(1) have t1: "temp + 1 \<le> t0" by simp
    show ?thesis
    proof (cases "rscanc nd (h (temp + k)) k")
      case None
      with "1.IH"(1,2) [OF inb k] t1 "1.prems" inb k show ?thesis
        by (subst scanmem_loop.simps) auto
    next
      case p: (Some p)
      then have "k \<noteq> 0" by (cases k) auto
      with "1.IH"(3) [OF inb k _ p] scan_step_safe [OF "1.prems"(2) k p "1.prems"(3,1)]
        "1.prems" inb k p show ?thesis by (subst scanmem_loop.simps) auto
    qed
  qed
qed

section \<open>Properties\<close>

text \<open>For a needle of a length \<open>rmemcmp\<close> supports, \<open>scanmem\<close> always
  returns, and what it returns is an occurrence of the needle
  inside the haystack; if the last byte of the needle occurs nowhere else in the needle, it is
  the first occurrence, and it is found whenever there is one.\<close>

theorem scanmem_correct:
  assumes "nd \<noteq> []" and "length nd \<le> 8 \<or> 8 dvd length nd"
  shows "(\<forall>t. scanmem h nd hlen = Some t \<longrightarrow> occurs_at h nd t \<and> t + length nd \<le> hlen) \<and>
    (last nd \<notin> set (butlast nd) \<longrightarrow>
      (\<forall>t0. occurs_at h nd t0 \<and> t0 + length nd \<le> hlen \<and>
             (\<forall>t<t0. \<not> occurs_at h nd t) \<longrightarrow> scanmem h nd hlen = Some t0))"
proof (intro conjI impI allI)
  fix t assume "scanmem h nd hlen = Some t"
  then show "occurs_at h nd t" and "t + length nd \<le> hlen"
    by (auto simp: scanmem_def dest: scanmem_loop_sound split: if_splits)
next
  fix t0 assume "last nd \<notin> set (butlast nd)" and t0: "occurs_at h nd t0 \<and> t0 + length nd \<le> hlen \<and>
    (\<forall>t<t0. \<not> occurs_at h nd t)"
  then have "\<forall>i < length nd - 1. nd ! i \<noteq> nd ! (length nd - 1)"
    using assms(1) by (metis in_set_conv_nth last_conv_nth length_butlast nth_butlast)
  from scanmem_loop_first [OF this] t0 obtain t where "t \<le> t0" "scanmem_loop h nd hlen 0 = Some t"
    by blast
  moreover from scanmem_loop_sound [OF this(2)] t0 \<open>t \<le> t0\<close> have "t = t0"
    by (metis le_neq_implies_less)
  ultimately show "scanmem h nd hlen = Some t0" using t0 by (simp add: scanmem_def)
qed

text \<open>The bytes of the needle \<open>E820_MEMORY_INDICATOR\<close>.\<close>

definition bytes_of :: "string \<Rightarrow> u8 list" where
  "bytes_of s = map of_char s"

definition E820_MEMORY_INDICATOR :: "u8 list" where
  "E820_MEMORY_INDICATOR = bytes_of ''MEMORY_INDICATOR''"

theorem scanmem_correct_witness:
  "scanmem (\<lambda>i. [0, 0, 65, 66, 67] ! i) [65, 66, 67] 5 = Some 2"
proof -
  let ?h = "\<lambda>i. [0, 0, 65, 66, 67 :: u8] ! i" and ?nd = "[65, 66, 67 :: u8]"
  have "\<not> occurs_at ?h ?nd t" if "t < 2" for t
    using that by (auto simp: occurs_at_def less_2_cases_iff intro!: exI [of _ 0])
  moreover have "occurs_at ?h ?nd 2" by (simp add: occurs_at_def numeral_3_eq_3 All_less_Suc)
  moreover have "?nd \<noteq> []" "length ?nd \<le> 8" "last ?nd \<notin> set (butlast ?nd)"
    "2 + length ?nd \<le> 5" by simp_all
  ultimately show ?thesis using scanmem_correct [of ?nd ?h 5] by blast
qed

text \<open>Without that condition \<open>scanmem\<close> can miss its needle: the step after a
  mismatch inside the needle is computed as if the mismatch were at its end. The boot loader's
  memory indicator is not found eleven bytes into a region of zeros, although it is there.\<close>

theorem scanmem_misses_indicator:
  "occurs_at (\<lambda>i. (replicate 11 0 @ E820_MEMORY_INDICATOR) ! i) E820_MEMORY_INDICATOR 11 \<and>
   scanmem (\<lambda>i. (replicate 11 0 @ E820_MEMORY_INDICATOR) ! i) E820_MEMORY_INDICATOR 27 = None"
proof
  let ?h = "\<lambda>i. (replicate 11 0 @ E820_MEMORY_INDICATOR) ! i"
  show "occurs_at ?h E820_MEMORY_INDICATOR 11" by (simp add: occurs_at_def nth_append)
  have len: "length E820_MEMORY_INDICATOR = 16" by code_simp
  have 0: "rmemcmp (\<lambda>i. ?h (0 + i)) E820_MEMORY_INDICATOR 16 = Some 13" by code_simp
  have 1: "rscanc E820_MEMORY_INDICATOR (?h (0 + 13)) 13 = Some 2" by code_simp
  show "scanmem ?h E820_MEMORY_INDICATOR 27 = None"
    by (simp add: scanmem_def len scanmem_loop.simps [of _ _ _ 0] scanmem_loop.simps [of _ _ _ 13]
        0 [simplified] 1 [simplified])
qed

end
