(* ===== verification/PhysicalMemory.thy ===== *)
theory PhysicalMemory
  imports KMalloc Services MemUtils
begin

text \<open>
  The physical frame allocator of \<open>stage2/sources/memory/PhysicalMemory.c\<close>: the table of
  memory entries left by the boot loader, the bitmap of 4 KiB frames (a set bit is a free frame),
  and the collections of 512 frames (2 MiB) with their counts of free frames.

  Every routine of the file receives a pointer to the one \<open>kernel.physicalMemoryManager\<close>, so
  the manager is one record. The bitmap lives in the byte memory at the address held in
  \<open>physical_memory_bitmap\<close>; the entry table and the array of collections are kept as values.
\<close>

section \<open>Bit operations\<close>

text \<open>
  The bit number is a C \<open>int\<close>: division and remainder truncate towards zero, the shift
  amount is \<open>7 - bit_number % 8\<close>. \<open>GetBit\<close> shifts a signed \<open>char\<close>.
\<close>

definition bit_addr :: "u64 \<Rightarrow> int \<Rightarrow> u64" where
  "bit_addr base i = base + word_of_int (i sdiv 8)"

definition SetBit :: "u64 \<Rightarrow> memory \<Rightarrow> int \<Rightarrow> memory" where
  "SetBit base mem i =
     mem(bit_addr base i := mem (bit_addr base i) OR push_bit (nat (7 - i smod 8)) 1)"

definition ClearBit :: "u64 \<Rightarrow> memory \<Rightarrow> int \<Rightarrow> memory" where
  "ClearBit base mem i =
     mem(bit_addr base i := mem (bit_addr base i) AND NOT (push_bit (nat (7 - i smod 8)) 1))"

definition GetBit :: "u64 \<Rightarrow> memory \<Rightarrow> int \<Rightarrow> bool" where
  "GetBit base mem i \<longleftrightarrow> bit (scast (mem (bit_addr base i)) :: u32) (nat (7 - i smod 8))"

definition valid_bit :: "int \<Rightarrow> bool" where
  "valid_bit i \<longleftrightarrow> 0 \<le> i \<and> i < 2 ^ 31"

text \<open>The position in its byte of a bit that is not negative.\<close>

definition bit_pos :: "int \<Rightarrow> nat" where
  "bit_pos i = nat (7 - i mod 8)"

lemma sdiv_smod_8: "valid_bit i \<Longrightarrow> i sdiv 8 = i div 8" "valid_bit i \<Longrightarrow> i smod 8 = i mod 8"
  by (auto simp: valid_bit_def signed_divide_int_def signed_modulo_int_def sgn_if)

lemma bit_addr_eq_iff:
  assumes "valid_bit i" and "valid_bit j"
  shows "bit_addr base i = bit_addr base j \<longleftrightarrow> i div 8 = j div 8"
proof -
  have "word_of_int (i div 8) = (word_of_int (j div 8) :: u64) \<longleftrightarrow> i div 8 = j div 8"
    using assms by (auto simp: valid_bit_def word_of_int_eq_iff take_bit_int_eq_self)
  then show ?thesis using assms by (simp add: bit_addr_def sdiv_smod_8)
qed

lemma bit_pos_less: "bit_pos i < 8"
proof -
  have "0 \<le> i mod 8" by simp
  then show ?thesis unfolding bit_pos_def by linarith
qed

lemma bit_pos_eq_iff: "i div 8 = j div 8 \<Longrightarrow> bit_pos i = bit_pos j \<longleftrightarrow> i = j"
proof -
  assume d: "i div 8 = j div 8"
  have "i mod 8 < 8" "j mod 8 < 8" by simp_all
  then have "bit_pos i = bit_pos j \<longleftrightarrow> i mod 8 = j mod 8" unfolding bit_pos_def by linarith
  also have "\<dots> \<longleftrightarrow> i = j" using d by (metis div_mult_mod_eq)
  finally show ?thesis .
qed

lemma byte_bits:
  fixes w :: u8
  assumes "m < 8" and "n < 8"
  shows "bit (w OR push_bit n 1) m \<longleftrightarrow> m = n \<or> bit w m"
    and "bit (w AND NOT (push_bit n 1)) m \<longleftrightarrow> m \<noteq> n \<and> bit w m"
  using assms by (auto simp: bit_simps)

lemma GetBit_valid:
  assumes "valid_bit i"
  shows "GetBit base mem i \<longleftrightarrow> bit (mem (bit_addr base i)) (bit_pos i)"
proof -
  have "min 7 (bit_pos i) = bit_pos i" using bit_pos_less [of i] by simp
  then show ?thesis using assms bit_pos_less [of i]
    by (simp add: GetBit_def sdiv_smod_8 bit_signed_iff flip: bit_pos_def)
qed

lemma SetBit_valid: "valid_bit i \<Longrightarrow> SetBit base mem i =
    mem(bit_addr base i := mem (bit_addr base i) OR push_bit (bit_pos i) 1)"
  by (simp add: SetBit_def sdiv_smod_8 bit_pos_def)

lemma ClearBit_valid: "valid_bit i \<Longrightarrow> ClearBit base mem i =
    mem(bit_addr base i := mem (bit_addr base i) AND NOT (push_bit (bit_pos i) 1))"
  by (simp add: ClearBit_def sdiv_smod_8 bit_pos_def)

interpretation frames: bitmap "GetBit base" "SetBit base" "ClearBit base" valid_bit for base
proof (unfold_locales, goal_cases)
  case (1 i j m)
  then show ?case
    using byte_bits(1) [OF bit_pos_less bit_pos_less] bit_pos_eq_iff [of j i] bit_addr_eq_iff [of j i base]
    by (cases "j div 8 = i div 8") (auto simp: GetBit_valid SetBit_valid)
next
  case (2 i j m)
  then show ?case
    using byte_bits(2) [OF bit_pos_less bit_pos_less] bit_pos_eq_iff [of j i] bit_addr_eq_iff [of j i base]
    by (cases "j div 8 = i div 8") (auto simp: GetBit_valid ClearBit_valid)
qed


section \<open>The manager\<close>

record PhysicalMemoryEntry =
  start :: u64
  esize :: u64
  etype :: u32
  unused :: u32
  vstart :: u64
  eend :: u64

record PhysicalMemoryFrameCollection =
  available_frames :: u16
  initial_physical_address :: u64

record pm_params =
  p_physical_address :: u64
  p_size :: u64
  number_of_frames_to_allocate :: u64

record pm_returns =
  is_address :: bool
  is_usable_address :: bool
  virtualAddress :: u64

record PhysicalMemoryManager =
  physicalMemoryEntry :: "nat \<Rightarrow> PhysicalMemoryEntry"
  physical_memory_bitmap :: u64
  memory_entries :: u16
  usable_memory_size :: u64
  reserved_memory_size :: u64
  hole_memory_size :: u64
  maximum_address :: u64
  reserved_plus_usable_size :: u64
  available_frame :: u64
  frame_collections :: "PhysicalMemoryFrameCollection list"
  number_physical_memory_frame_collection :: u16
  params :: pm_params
  returns :: pm_returns

type_synonym pm_state = "PhysicalMemoryManager \<times> memory"

definition E820_MEMORY_ENTRY_TYPE_USABLE :: u32 where "E820_MEMORY_ENTRY_TYPE_USABLE = 1"
definition E820_MEMORY_ENTRY_TYPE_RESEARVED :: u32 where "E820_MEMORY_ENTRY_TYPE_RESEARVED = 2"
definition E820_MEMORY_ENTRY_TYPE_ACPI_RECLAINMED :: u32 where
  "E820_MEMORY_ENTRY_TYPE_ACPI_RECLAINMED = 3"
definition E820_MEMORY_ENTRY_TYPE_ACPI_NVS :: u32 where "E820_MEMORY_ENTRY_TYPE_ACPI_NVS = 4"

definition FOUR_KiB_MEMORY_PAGE_SIZE :: int where "FOUR_KiB_MEMORY_PAGE_SIZE = 4096"
definition TWO_MiB_MEMORY_PAGE_SIZE :: int where "TWO_MiB_MEMORY_PAGE_SIZE = 2097152"
definition FIRST_MEMORY_1_MiB :: u64 where "FIRST_MEMORY_1_MiB = 0x100000"
definition KERNEL_MEMORY_SIZE :: int where "KERNEL_MEMORY_SIZE = 0x2EE00000"

lemmas pm_constants [nile_defs] = E820_MEMORY_ENTRY_TYPE_USABLE_def
  E820_MEMORY_ENTRY_TYPE_RESEARVED_def E820_MEMORY_ENTRY_TYPE_ACPI_RECLAINMED_def
  E820_MEMORY_ENTRY_TYPE_ACPI_NVS_def FOUR_KiB_MEMORY_PAGE_SIZE_def TWO_MiB_MEMORY_PAGE_SIZE_def
  FIRST_MEMORY_1_MiB_def KERNEL_MEMORY_SIZE_def

section \<open>Initialisation from the boot loader's table\<close>

text \<open>Little-endian reads, and the layout of a 40-byte entry.\<close>

definition mem_u16 :: "memory \<Rightarrow> u64 \<Rightarrow> u16" where
  "mem_u16 mem a = ucast (mem a) OR push_bit 8 (ucast (mem (a + 1)))"

definition mem_u32 :: "memory \<Rightarrow> u64 \<Rightarrow> u32" where
  "mem_u32 mem a = ucast (mem_u16 mem a) OR push_bit 16 (ucast (mem_u16 mem (a + 2)))"

definition mem_u64 :: "memory \<Rightarrow> u64 \<Rightarrow> u64" where
  "mem_u64 mem a = ucast (mem_u32 mem a) OR push_bit 32 (ucast (mem_u32 mem (a + 4)))"

definition entry_at :: "memory \<Rightarrow> u64 \<Rightarrow> nat \<Rightarrow> PhysicalMemoryEntry" where
  "entry_at mem table i =
     (let a = table + of_nat (40 * i)
      in \<lparr>start = mem_u64 mem a, esize = mem_u64 mem (a + 8), etype = mem_u32 mem (a + 16),
          unused = mem_u32 mem (a + 20), vstart = mem_u64 mem (a + 24), eend = mem_u64 mem (a + 32)\<rparr>)"

text \<open>One round of the accounting loop.\<close>

definition account_entry :: "nat \<Rightarrow> PhysicalMemoryManager \<Rightarrow> PhysicalMemoryManager" where
  "account_entry i pm =
     (let e = (physicalMemoryEntry pm i)\<lparr>eend := start (physicalMemoryEntry pm i) + esize (physicalMemoryEntry pm i)\<rparr>;
          pm1 = pm\<lparr>physicalMemoryEntry := (physicalMemoryEntry pm)(i := e)\<rparr>
      in if etype e = E820_MEMORY_ENTRY_TYPE_USABLE
         then (let pm2 = pm1\<lparr>usable_memory_size := usable_memory_size pm1 + esize e\<rparr>
               in if start e + esize e > maximum_address pm2
                  then pm2\<lparr>maximum_address := start e + esize e\<rparr> else pm2)
         else if etype e = E820_MEMORY_ENTRY_TYPE_RESEARVED \<or> etype e = E820_MEMORY_ENTRY_TYPE_ACPI_NVS \<or>
                 etype e = E820_MEMORY_ENTRY_TYPE_ACPI_RECLAINMED
         then pm1\<lparr>reserved_memory_size := reserved_memory_size pm1 + esize e\<rparr>
         else pm1)"

text \<open>The functions the service exposes, and their slots in its method table.\<close>

datatype pm_method = PrintPhysicalMemory_f | AddPhysicalMemoryEntry_f | GetVirtualAddress_f
  | IsUsableAddress_f | IsAddress_f | CreatePhysicalPagesBitMap_f | InitializePhysicalMemoryFrames_f
  | AllocatePhysicalFrames_f | DeallocatePhysicalFrame_f

definition pm_methods :: "(pm_method \<times> int) list" where
  "pm_methods = [(PrintPhysicalMemory_f, 1), (AddPhysicalMemoryEntry_f, 2), (GetVirtualAddress_f, 3),
     (IsUsableAddress_f, 4), (IsAddress_f, 5), (CreatePhysicalPagesBitMap_f, 0),
     (InitializePhysicalMemoryFrames_f, 6), (AllocatePhysicalFrames_f, 7), (DeallocatePhysicalFrame_f, 8)]"

text \<open>
  \<open>scanmem\<close> is started at address 0, so an indicator at offset 0 would be returned as the
  null pointer. The table starts behind the indicator and its terminating zero, the number of
  entries behind the 1024 bytes of the table.
\<close>

definition InitializePhysicalMemory ::
  "memory \<Rightarrow> PhysicalMemoryManager \<Rightarrow> pm_method Service \<Rightarrow>
   (bool \<times> PhysicalMemoryManager \<times> pm_method Service) result" where
  "InitializePhysicalMemory mem pm p_service =
     (let pm0 = pm\<lparr>memory_entries := 0, usable_memory_size := 0, reserved_memory_size := 0,
                   maximum_address := 0, hole_memory_size := 0\<rparr>
      in case scanmem (\<lambda>i. mem (of_nat i)) E820_MEMORY_INDICATOR (1024 * 1024) of
           None \<Rightarrow> Inr (False, pm0, p_service)
         | Some temp \<Rightarrow>
             if temp = 0 then Inr (False, pm0, p_service)
             else (let table = of_nat temp + 17;
                       n = mem_u16 mem (table + 1024);
                       pm1 = pm0\<lparr>physicalMemoryEntry := entry_at mem table, memory_entries := n\<rparr>;
                       pm2 = fold account_entry [0..<unat n] pm1
                   in and_then (call_add_services p_service pm_methods) (\<lambda>s.
                        Inr (True, pm2\<lparr>reserved_plus_usable_size :=
                               reserved_memory_size pm2 + usable_memory_size pm2\<rparr>, s))))"

section \<open>Queries on the entry table\<close>

text \<open>The loops return at the first entry that satisfies their condition.\<close>

definition first_entry :: "(PhysicalMemoryEntry \<Rightarrow> bool) \<Rightarrow> PhysicalMemoryManager \<Rightarrow> PhysicalMemoryEntry option" where
  "first_entry P pm = find P (map (physicalMemoryEntry pm) [0..<unat (memory_entries pm)])"

definition set_returns :: "(pm_returns \<Rightarrow> pm_returns) \<Rightarrow> PhysicalMemoryManager \<Rightarrow> PhysicalMemoryManager" where
  "set_returns f pm = pm\<lparr>returns := f (returns pm)\<rparr>"

definition IsAddress :: "PhysicalMemoryManager \<Rightarrow> PhysicalMemoryManager" where
  "IsAddress pm =
     (let a = p_physical_address (params pm)
      in case first_entry (\<lambda>e. a \<ge> start e \<and> a < start e + esize e) pm of
           Some _ \<Rightarrow> set_returns (is_address_update (\<lambda>_. True)) pm
         | None \<Rightarrow> set_returns (is_address_update (\<lambda>_. False)) pm)"

definition usable_condition :: "pm_params \<Rightarrow> PhysicalMemoryEntry \<Rightarrow> bool" where
  "usable_condition ps e \<longleftrightarrow>
     (p_physical_address ps \<ge> start e \<and> p_physical_address ps + p_size ps < eend e \<and>
        etype e = E820_MEMORY_ENTRY_TYPE_USABLE) \<or>
     p_physical_address ps < FIRST_MEMORY_1_MiB"

definition IsUsableAddress :: "PhysicalMemoryManager \<Rightarrow> PhysicalMemoryManager" where
  "IsUsableAddress pm =
     (case first_entry (usable_condition (params pm)) pm of
        Some _ \<Rightarrow> set_returns (is_usable_address_update (\<lambda>_. True)) pm
      | None \<Rightarrow> set_returns (is_usable_address_update (\<lambda>_. False)) pm)"

definition GetVirtualAddress :: "PhysicalMemoryManager \<Rightarrow> PhysicalMemoryManager" where
  "GetVirtualAddress pm =
     (let a = p_physical_address (params pm)
      in case first_entry (\<lambda>e. a \<ge> start e \<and> a < eend e) pm of
           Some e \<Rightarrow> set_returns (virtualAddress_update (\<lambda>_. vstart e + (a - start e))) pm
         | None \<Rightarrow> set_returns (virtualAddress_update (\<lambda>_. 0)) pm)"

definition AddPhysicalMemoryEntry :: "PhysicalMemoryManager \<Rightarrow> PhysicalMemoryManager" where
  "AddPhysicalMemoryEntry pm0 =
     (let pm = IsAddress pm0; n = unat (memory_entries pm)
      in if \<not> is_address (returns pm)
         then (let e = (physicalMemoryEntry pm n)
                    \<lparr>start := p_physical_address (params pm), esize := p_size (params pm),
                     etype := E820_MEMORY_ENTRY_TYPE_RESEARVED,
                     eend := p_physical_address (params pm) + p_size (params pm)\<rparr>
               in pm\<lparr>physicalMemoryEntry := (physicalMemoryEntry pm)(n := e),
                     memory_entries := memory_entries pm + 1\<rparr>)
         else pm)"

definition GetReservedAndUsableMemorySize :: "PhysicalMemoryManager \<Rightarrow> u64" where
  "GetReservedAndUsableMemorySize pm = usable_memory_size pm + reserved_memory_size pm"


section \<open>Building the bitmap and the collections\<close>

text \<open>\<open>page_frame_number * FOUR_KiB_MEMORY_PAGE_SIZE\<close> is a product of two \<open>int\<close>s.\<close>

definition frame_address :: "int \<Rightarrow> u64" where
  "frame_address page = int_to_u64 (page * FOUR_KiB_MEMORY_PAGE_SIZE)"

definition kernelFrames :: int where
  "kernelFrames = KERNEL_MEMORY_SIZE sdiv FOUR_KiB_MEMORY_PAGE_SIZE"

definition mark_frame :: "int \<Rightarrow> pm_state \<Rightarrow> pm_state" where
  "mark_frame page st = (case st of (pm, mem) \<Rightarrow>
     let pm1 = IsUsableAddress (pm\<lparr>params := (params pm)\<lparr>p_physical_address := frame_address page,
                 p_size := word_of_int FOUR_KiB_MEMORY_PAGE_SIZE\<rparr>\<rparr>)
     in (pm1, if is_usable_address (returns pm1) \<and> page \<ge> kernelFrames
              then SetBit (physical_memory_bitmap pm1) mem page
              else ClearBit (physical_memory_bitmap pm1) mem page))"

definition count_free :: "u64 \<Rightarrow> memory \<Rightarrow> int list \<Rightarrow> nat" where
  "count_free base mem pages = length (filter (GetBit base mem) pages)"

definition CreatePhysicalPagesBitMap ::
  "u32 \<Rightarrow> pm_state \<Rightarrow> MemoryAllocator \<Rightarrow> (pm_state \<times> MemoryAllocator) option" where
  "CreatePhysicalPagesBitMap apic st ma = (case st of (pm, mem) \<Rightarrow>
     let total_memory = GetReservedAndUsableMemorySize pm;
         number_of_page_frames = c_int (uint (total_memory div word_of_int FOUR_KiB_MEMORY_PAGE_SIZE))
     in do {
       (bm, ma1) \<leftarrow> kmalloc apic ma (int_to_u64 (number_of_page_frames sdiv 8));
       let frames = [0..number_of_page_frames - 1];
       let (pm2, mem2) = fold mark_frame frames (pm\<lparr>physical_memory_bitmap := bm\<rparr>, mem);
       Some ((pm2\<lparr>available_frame := int_to_u64 (int (count_free bm mem2 frames))\<rparr>, mem2), ma1)
     })"

text \<open>\<open>sizeof(PhysicalMemoryFrameCollection)\<close> is 16; the count of collections is truncated to
  16 bits before the loop reads it back.\<close>

definition build_collection :: "u64 \<Rightarrow> memory \<Rightarrow> nat \<Rightarrow> PhysicalMemoryFrameCollection" where
  "build_collection base mem i =
     \<lparr>available_frames = of_nat (count_free base mem [int i * 512..int i * 512 + 511]),
      initial_physical_address = int_to_u64 (int i * 512 * FOUR_KiB_MEMORY_PAGE_SIZE)\<rparr>"

definition InitializePhysicalMemoryFrames ::
  "u32 \<Rightarrow> pm_state \<Rightarrow> MemoryAllocator \<Rightarrow> (pm_state \<times> MemoryAllocator) option" where
  "InitializePhysicalMemoryFrames apic st ma = (case st of (pm, mem) \<Rightarrow> do {
     (cp, ma1) \<leftarrow> kmalloc apic ma (16 * (available_frame pm div 512));
     let n = (word_of_int (c_int (uint (available_frame pm)) sdiv 512) :: u16);
     Some ((pm\<lparr>number_physical_memory_frame_collection := n,
               frame_collections := map (build_collection (physical_memory_bitmap pm) mem) [0..<unat n]\<rparr>,
            mem), ma1)
   })"

section \<open>Allocation and deallocation\<close>

definition collection_pages :: "PhysicalMemoryFrameCollection \<Rightarrow> int list" where
  "collection_pages c =
     (let start_bit_index = c_int (uint (initial_physical_address c div 512 div
              word_of_int FOUR_KiB_MEMORY_PAGE_SIZE * 512));
          end_bit_address = c_int (start_bit_index + 512)
      in [start_bit_index..end_bit_address - 1])"

fun alloc_frame_loop :: "nat list \<Rightarrow> pm_state \<Rightarrow> u64 \<times> pm_state" where
  "alloc_frame_loop [] st = (- 1, st)"
| "alloc_frame_loop (i # is) (pm, mem) =
     (let c = frame_collections pm ! i; bm = physical_memory_bitmap pm
      in if available_frames c > 0
         then (case find (GetBit bm mem) (collection_pages c) of
                 Some page \<Rightarrow>
                   (frame_address page,
                    pm\<lparr>frame_collections := (frame_collections pm)
                         [i := c\<lparr>available_frames := available_frames c - 1\<rparr>]\<rparr>,
                    ClearBit bm mem page)
               | None \<Rightarrow> alloc_frame_loop is (pm, mem))
         else alloc_frame_loop is (pm, mem))"

definition AllocateOnePhysicalFrame :: "pm_state \<Rightarrow> u64 \<times> pm_state" where
  "AllocateOnePhysicalFrame st =
     alloc_frame_loop [0..<unat (number_physical_memory_frame_collection (fst st))] st"

definition AllocatePhysicalFrames :: "pm_state \<Rightarrow> pm_state" where
  "AllocatePhysicalFrames st =
     ((\<lambda>s. snd (AllocateOnePhysicalFrame s)) ^^
        nat (c_int (uint (number_of_frames_to_allocate (params (fst st)))))) st"

definition DeallocatePhysicalFrame :: "pm_state \<Rightarrow> pm_state" where
  "DeallocatePhysicalFrame st = (case st of (pm, mem) \<Rightarrow>
     let frame_to_deall = p_physical_address (params pm) div 4096;
         n = c_int (uint frame_to_deall); bm = physical_memory_bitmap pm
     in if GetBit bm mem n then (pm, mem)
        else (let address_of_collection = frame_to_deall div 512 * word_of_int TWO_MiB_MEMORY_PAGE_SIZE
              in (pm\<lparr>frame_collections := map (\<lambda>c.
                       if initial_physical_address c = address_of_collection
                       then c\<lparr>available_frames := available_frames c + 1\<rparr> else c)
                     (frame_collections pm)\<rparr>,
                  SetBit bm mem n)))"

text \<open>The loop runs over the 512 frame addresses, or not at all when the end of the range
  wraps around.\<close>

definition DeallocateOnePhysicalFrameCollection :: "pm_state \<Rightarrow> pm_state" where
  "DeallocateOnePhysicalFrameCollection st =
     (let f = p_physical_address (params (fst st));
          addresses = (if f < f + word_of_int TWO_MiB_MEMORY_PAGE_SIZE
                       then map (\<lambda>k. f + of_nat k * word_of_int FOUR_KiB_MEMORY_PAGE_SIZE) [0..<512] else [])
      in fold (\<lambda>a (pm, mem). DeallocatePhysicalFrame
                 (pm\<lparr>params := (params pm)\<lparr>p_physical_address := a\<rparr>\<rparr>, mem)) addresses st)"

definition take_frame :: "nat \<Rightarrow> int \<Rightarrow> pm_state \<Rightarrow> pm_state" where
  "take_frame i page st = (case st of (pm, mem) \<Rightarrow>
     if GetBit (physical_memory_bitmap pm) mem page
     then (pm\<lparr>frame_collections := (frame_collections pm)
             [i := (frame_collections pm ! i)
                     \<lparr>available_frames := available_frames (frame_collections pm ! i) - 1\<rparr>]\<rparr>,
           ClearBit (physical_memory_bitmap pm) mem page)
     else (pm, mem))"

fun alloc_collection_loop :: "nat list \<Rightarrow> pm_state \<Rightarrow> u64 \<times> pm_state" where
  "alloc_collection_loop [] st = (- 1, st)"
| "alloc_collection_loop (i # is) (pm, mem) =
     (let c = frame_collections pm ! i
      in if available_frames c = 512
         then (initial_physical_address c, fold (take_frame i) (collection_pages c) (pm, mem))
         else alloc_collection_loop is (pm, mem))"

definition AllocateOnePhysicalFrameCollection :: "pm_state \<Rightarrow> u64 \<times> pm_state" where
  "AllocateOnePhysicalFrameCollection st =
     alloc_collection_loop [0..<unat (number_physical_memory_frame_collection (fst st))] st"

definition AllocateUsableCollection :: "pm_state \<Rightarrow> u64 \<times> pm_state" where
  "AllocateUsableCollection st = AllocateOnePhysicalFrameCollection st"

end
