(* ===== verification/FrameAllocator.thy ===== *)
theory FrameAllocator
  imports PhysicalMemory
begin

text \<open>
  Correctness of the physical frame allocator: the manager with its bitmap and its collections
  implements a set of free frames. \<open>free_frames\<close> is the abstraction, \<open>pm_inv\<close> the
  invariant that ties the counts of the collections to the bitmap, for machines whose collections
  cover at most 2 GiB (the frame addresses are computed in \<open>int\<close>).
\<close>

section \<open>Invariant and abstraction\<close>

definition free_at :: "pm_state \<Rightarrow> int \<Rightarrow> bool" where
  "free_at st j \<longleftrightarrow> GetBit (physical_memory_bitmap (fst st)) (snd st) j"

definition span :: "nat \<Rightarrow> int set" where
  "span i = {int i * 512..int i * 512 + 511}"

definition free_in :: "pm_state \<Rightarrow> nat \<Rightarrow> int set" where
  "free_in st i = {j \<in> span i. free_at st j}"

definition free_frames :: "pm_state \<Rightarrow> int set" where
  "free_frames st = (\<Union>i<length (frame_collections (fst st)). free_in st i)"

definition pm_inv :: "pm_state \<Rightarrow> bool" where
  "pm_inv st \<longleftrightarrow> (let cs = frame_collections (fst st) in
     length cs = unat (number_physical_memory_frame_collection (fst st)) \<and> length cs \<le> 1024 \<and>
     (\<forall>i<length cs. initial_physical_address (cs ! i) = of_nat (i * 2097152) \<and>
        available_frames (cs ! i) = of_nat (card (free_in st i))))"

lemma pm_invD:
  assumes "pm_inv st"
  shows "length (frame_collections (fst st)) = unat (number_physical_memory_frame_collection (fst st))"
    and "length (frame_collections (fst st)) \<le> 1024"
    and "i < length (frame_collections (fst st)) \<Longrightarrow>
      initial_physical_address (frame_collections (fst st) ! i) = of_nat (i * 2097152)"
    and "i < length (frame_collections (fst st)) \<Longrightarrow>
      available_frames (frame_collections (fst st) ! i) = of_nat (card (free_in st i))"
  using assms by (auto simp: pm_inv_def Let_def)

lemma span_finite [simp]: "finite (span i)" and card_span [simp]: "card (span i) = 512"
  by (simp_all add: span_def)

lemma mem_span: "j \<in> span i \<longleftrightarrow> 0 \<le> j \<and> nat (j div 512) = i"
proof -
  have "0 \<le> j \<Longrightarrow> nat (j div 512) = i \<longleftrightarrow> j div 512 = int i" by (auto simp: nat_eq_iff pos_imp_zdiv_nonneg_iff)
  moreover have "j div 512 = int i \<longleftrightarrow> int i * 512 \<le> j \<and> j \<le> int i * 512 + 511" by linarith
  ultimately show ?thesis by (auto simp: span_def)
qed

lemma span_valid: "i < 1024 \<Longrightarrow> j \<in> span i \<Longrightarrow> valid_bit j"
  by (auto simp: span_def valid_bit_def)

lemma free_in_finite [simp]: "finite (free_in st i)"
  by (simp add: free_in_def)

lemma card_free_in: "card (free_in st i) \<le> 512"
  using card_mono [of "span i" "free_in st i"] by (simp add: free_in_def)

lemma available_eq_0:
  assumes "pm_inv st" and "i < length (frame_collections (fst st))"
  shows "available_frames (frame_collections (fst st) ! i) > 0 \<longleftrightarrow> free_in st i \<noteq> {}"
    and "available_frames (frame_collections (fst st) ! i) = 512 \<longleftrightarrow> free_in st i = span i"
proof -
  let ?c = "card (free_in st i)"
  have u: "unat (of_nat ?c :: u16) = ?c" using card_free_in [of st i] by (simp add: unat_of_nat)
  have "?c = 512 \<longleftrightarrow> free_in st i = span i"
    using card_seteq [of "span i" "free_in st i"] by (auto simp: free_in_def)
  then show "available_frames (frame_collections (fst st) ! i) = 512 \<longleftrightarrow> free_in st i = span i"
    using u by (simp add: pm_invD(4) [OF assms] word_unat_eq_iff)
  show "available_frames (frame_collections (fst st) ! i) > 0 \<longleftrightarrow> free_in st i \<noteq> {}"
    using u by (auto simp: pm_invD(4) [OF assms] word_less_nat_alt)
qed

lemma collection_pages_inv:
  assumes "pm_inv st" and "i < length (frame_collections (fst st))"
  shows "collection_pages (frame_collections (fst st) ! i) = [int i * 512..int i * 512 + 511]"
proof -
  have i: "i < 1024" using assms pm_invD(2) by fastforce
  have "unat (of_nat (i * 2097152) div 512 div 4096 * 512 :: u64) = i * 512"
    using i by (simp add: unat_div unat_word_ariths unat_of_nat)
  then have "uint (of_nat (i * 2097152) div 512 div 4096 * 512 :: u64) = int i * 512"
    by (simp only: uint_nat)
  then show ?thesis using i
    by (simp add: collection_pages_def pm_invD(3) [OF assms] Let_def pm_constants add.commute)
qed

section \<open>Taking and giving back one frame\<close>

lemma take_frame_simps:
  "free_at st page \<Longrightarrow> take_frame i page st =
     ((fst st)\<lparr>frame_collections := (frame_collections (fst st))
        [i := (frame_collections (fst st) ! i)
           \<lparr>available_frames := available_frames (frame_collections (fst st) ! i) - 1\<rparr>]\<rparr>,
      ClearBit (physical_memory_bitmap (fst st)) (snd st) page)"
  "\<not> free_at st page \<Longrightarrow> take_frame i page st = st"
  by (cases st, simp add: take_frame_def free_at_def)+

lemma take_frame_free_in:
  assumes "valid_bit page" and "k < 1024"
  shows "free_in (take_frame i page st) k = free_in st k - {page}"
proof (cases "free_at st page")
  case True
  then show ?thesis using assms span_valid [OF assms(2)]
    by (auto simp: take_frame_simps(1) free_in_def free_at_def frames.get_clear1)
qed (auto simp: take_frame_simps(2) free_in_def)

lemma take_frame_inv:
  assumes "pm_inv st" and "i < length (frame_collections (fst st))" and "page \<in> span i"
  shows "pm_inv (take_frame i page st)"
    and "free_frames (take_frame i page st) = free_frames st - {page}"
    and "length (frame_collections (fst (take_frame i page st))) = length (frame_collections (fst st))"
proof -
  let ?st = "take_frame i page st" and ?cs = "frame_collections (fst st)"
  note inv = pm_invD [OF assms(1)]
  have v: "valid_bit page" using assms(2,3) inv(2) span_valid [of i page] by simp
  show len: "length (frame_collections (fst ?st)) = length ?cs"
    by (cases "free_at st page") (simp_all add: take_frame_simps)
  have fi: "free_in ?st k = free_in st k - {page}" if "k < length ?cs" for k
    using that inv(2) by (intro take_frame_free_in v) simp
  then show "free_frames ?st = free_frames st - {page}" by (auto simp: free_frames_def len)
  show "pm_inv ?st"
  proof (cases "free_at st page")
    case False
    then show ?thesis using assms(1) by (simp add: take_frame_simps)
  next
    case True
    have "of_nat (card (free_in st i)) - 1 = (of_nat (card (free_in st i - {page})) :: u16)"
      using True assms(3) card_Suc_Diff1 [of "free_in st i" page]
      by (metis (mono_tags, lifting) add_diff_cancel_left' free_in_def free_in_finite mem_Collect_eq
          of_nat_Suc)
    moreover have "free_in ?st k = free_in st k" if "k < length ?cs" "k \<noteq> i" for k
      using fi [OF that(1)] assms(3) that(2) by (auto simp: free_in_def mem_span)
    ultimately show ?thesis using inv assms(2) fi [OF assms(2)] True
      by (auto simp: pm_inv_def Let_def take_frame_simps(1) nth_list_update)
  qed
qed


text \<open>\<open>DeallocatePhysicalFrame\<close> on a frame of collection \<open>i\<close>.\<close>

lemma frame_of_address:
  fixes a :: u64
  assumes "uint a div 4096 < 2 ^ 19"
  shows "c_int (uint (a div 4096)) = uint a div 4096" and "valid_bit (uint a div 4096)"
    and "k < 1024 \<Longrightarrow> of_nat (k * 2097152) = a div 4096 div 512 * 2097152 \<longleftrightarrow>
      k = nat (uint a div 4096 div 512)"
proof -
  have u: "uint (a div 4096) = uint a div 4096" by (simp add: uint_div)
  have nn: "0 \<le> uint a div 4096" by (simp add: pos_imp_zdiv_nonneg_iff)
  show "c_int (uint (a div 4096)) = uint a div 4096" using assms nn u by simp
  show "valid_bit (uint a div 4096)" using assms nn by (simp add: valid_bit_def)
  let ?q = "unat a div 4096 div 512"
  have d: "uint a div 4096 = int (unat a div 4096)" unfolding uint_nat zdiv_int by simp
  have q: "nat (uint a div 4096 div 512) = ?q" unfolding d by (metis nat_int of_nat_numeral zdiv_int)
  have "?q < 1024" using assms by (simp add: d)
  then have m: "unat (a div 4096 div 512 * 2097152) = ?q * 2097152"
    by (simp add: unat_word_ariths unat_div)
  show "of_nat (k * 2097152) = a div 4096 div 512 * 2097152 \<longleftrightarrow>
      k = nat (uint a div 4096 div 512)" if "k < 1024"
  proof -
    have "unat (of_nat (k * 2097152) :: u64) = k * 2097152"
      using that by (simp only: unat_of_nat) simp
    then show ?thesis using m q by (metis mult_right_cancel word_unat_eq_iff zero_neq_numeral)
  qed
qed

lemma span_unique: "j \<in> span i \<Longrightarrow> j \<in> span k \<Longrightarrow> i = k"
  by (simp add: mem_span)

text \<open>The effect of a deallocation, by collection and frame.\<close>

definition put_frame :: "nat \<Rightarrow> int \<Rightarrow> pm_state \<Rightarrow> pm_state" where
  "put_frame i page st =
     (if free_at st page then st
      else ((fst st)\<lparr>frame_collections := (frame_collections (fst st))
              [i := (frame_collections (fst st) ! i)
                 \<lparr>available_frames := available_frames (frame_collections (fst st) ! i) + 1\<rparr>]\<rparr>,
            SetBit (physical_memory_bitmap (fst st)) (snd st) page))"

lemma put_frame_free_in:
  assumes "valid_bit page" and "k < 1024" and "page \<in> span i"
  shows "free_in (put_frame i page st) k = (if k = i then insert page (free_in st k) else free_in st k)"
proof (cases "free_at st page")
  case True
  then show ?thesis using assms by (auto simp: put_frame_def free_in_def)
next
  case False
  then have "free_at (put_frame i page st) j = (j = page \<or> free_at st j)" if "j \<in> span k" for j
    using assms span_valid [OF assms(2) that] by (auto simp: put_frame_def free_at_def frames.get_set1)
  then show ?thesis using assms(3) by (auto simp: free_in_def dest: span_unique)
qed

lemma put_frame_inv:
  assumes "pm_inv st" and "i < length (frame_collections (fst st))" and "page \<in> span i"
  shows "pm_inv (put_frame i page st)"
    and "free_frames (put_frame i page st) = insert page (free_frames st)"
    and "length (frame_collections (fst (put_frame i page st))) = length (frame_collections (fst st))"
proof -
  let ?st = "put_frame i page st" and ?cs = "frame_collections (fst st)"
  note inv = pm_invD [OF assms(1)]
  have v: "valid_bit page" using assms(2,3) inv(2) span_valid [of i page] by simp
  show len: "length (frame_collections (fst ?st)) = length ?cs" by (simp add: put_frame_def)
  have fi: "free_in ?st k = (if k = i then insert page (free_in st k) else free_in st k)"
    if "k < length ?cs" for k
    using that inv(2) by (intro put_frame_free_in v assms(3)) simp
  then show "free_frames ?st = insert page (free_frames st)" using assms(2)
    by (auto simp: free_frames_def len split: if_splits)
  show "pm_inv ?st"
  proof (cases "free_at st page")
    case True
    then show ?thesis using assms(1) by (simp add: put_frame_def)
  next
    case False
    then have "page \<notin> free_in st i" by (simp add: free_in_def)
    then have "of_nat (card (free_in st i)) + 1 = (of_nat (card (insert page (free_in st i))) :: u16)"
      by simp
    with inv assms(2) fi False show ?thesis
      by (auto simp: pm_inv_def Let_def put_frame_def nth_list_update)
  qed
qed

lemma deallocate_is_put_frame:
  assumes "pm_inv st" and "a = p_physical_address (params (fst st))"
    and "uint a div 4096 < 512 * int (length (frame_collections (fst st)))"
  defines "i \<equiv> nat (uint a div 4096 div 512)"
  shows "DeallocatePhysicalFrame st = put_frame i (uint a div 4096) st"
    and "i < length (frame_collections (fst st))" and "uint a div 4096 \<in> span i"
proof -
  let ?cs = "frame_collections (fst st)" and ?j = "uint a div 4096"
  note inv = pm_invD [OF assms(1)]
  have j0: "0 \<le> ?j" by (simp add: pos_imp_zdiv_nonneg_iff)
  show i: "i < length ?cs" and "?j \<in> span i" using assms(3) j0 by (auto simp: i_def mem_span)
  have "?j < 2 ^ 19" using assms(3) inv(2) by simp
  note fa = frame_of_address [OF this]
  have "map (\<lambda>c. if initial_physical_address c = a div 4096 div 512 * 2097152
        then c\<lparr>available_frames := available_frames c + 1\<rparr> else c) ?cs =
      ?cs[i := (?cs ! i)\<lparr>available_frames := available_frames (?cs ! i) + 1\<rparr>]"
  proof (rule nth_equalityI)
    fix k assume "k < length (map (\<lambda>c. if initial_physical_address c = a div 4096 div 512 * 2097152
        then c\<lparr>available_frames := available_frames c + 1\<rparr> else c) ?cs)"
    then have k: "k < length ?cs" by simp
    then have "initial_physical_address (?cs ! k) = a div 4096 div 512 * 2097152 \<longleftrightarrow> k = i"
      using inv(2) fa(3) [of k] by (simp only: inv(3) i_def)
    with k i show "map (\<lambda>c. if initial_physical_address c = a div 4096 div 512 * 2097152
        then c\<lparr>available_frames := available_frames c + 1\<rparr> else c) ?cs ! k =
      ?cs[i := (?cs ! i)\<lparr>available_frames := available_frames (?cs ! i) + 1\<rparr>] ! k"
      by (simp add: nth_list_update)
  qed simp
  then show "DeallocatePhysicalFrame st = put_frame i ?j st" using fa(1)
    by (cases st) (simp add: put_frame_def DeallocatePhysicalFrame_def Let_def free_at_def
        assms(2) pm_constants)
qed


section \<open>The allocation loops\<close>

lemma free_frames_iff:
  "j \<in> free_frames st \<longleftrightarrow> (\<exists>i<length (frame_collections (fst st)). j \<in> free_in st i)"
  by (auto simp: free_frames_def)

lemma free_frames_finite [simp]: "finite (free_frames st)"
  by (simp add: free_frames_def)

lemma find_in_span:
  assumes "free_in st i \<noteq> {}"
  shows "find (free_at st) [int i * 512..int i * 512 + 511] = Some (Min (free_in st i))"
proof -
  let ?m = "Min (free_in st i)" and ?s = "int i * 512"
  have m: "?m \<in> free_in st i" using assms by (intro Min_in) auto
  then have "[?s..?s + 511] = [?s..?m - 1] @ ?m # [?m + 1..?s + 511]"
    by (intro upto_split3) (auto simp: free_in_def span_def)
  moreover have "find (free_at st) [?s..?m - 1] = None"
  proof -
    have "\<not> free_at st j" if "?s \<le> j" "j < ?m" for j
    proof
      assume "free_at st j"
      with that m have "j \<in> free_in st i" by (auto simp: free_in_def span_def)
      then have "?m \<le> j" by (intro Min_le) auto
      with that show False by simp
    qed
    then show ?thesis by (auto simp: find_None_iff)
  qed
  moreover have "free_at st ?m" using m by (simp add: free_in_def)
  ultimately show ?thesis by (simp add: find_append)
qed

lemma alloc_frame_loop_step:
  assumes "pm_inv st" and "i < length (frame_collections (fst st))"
  shows "alloc_frame_loop (i # is) st =
    (if free_in st i = {} then alloc_frame_loop is st
     else (frame_address (Min (free_in st i)), take_frame i (Min (free_in st i)) st))"
proof (cases "free_in st i = {}")
  case True
  then show ?thesis using available_eq_0(1) [OF assms] by (cases st) (simp add: Let_def)
next
  case False
  then have f: "free_at st (Min (free_in st i))" using Min_in [of "free_in st i"]
    by (auto simp: free_in_def)
  have "find (GetBit (physical_memory_bitmap (fst st)) (snd st))
      (collection_pages (frame_collections (fst st) ! i)) = Some (Min (free_in st i))"
    using find_in_span [OF False] collection_pages_inv [OF assms] by (simp add: free_at_def [abs_def])
  then show ?thesis using False available_eq_0(1) [OF assms] take_frame_simps(1) [OF f]
    by (cases st) (simp add: Let_def)
qed

lemma Min_free_frames:
  assumes "\<forall>k<i. free_in st k = {}" and "free_in st i \<noteq> {}" and "i < length (frame_collections (fst st))"
  shows "Min (free_frames st) = Min (free_in st i)"
proof (rule Min_eqI)
  show "Min (free_in st i) \<in> free_frames st"
    using Min_in [OF free_in_finite assms(2)] assms(3) by (auto simp: free_frames_iff)
  fix j assume "j \<in> free_frames st"
  then obtain k where k: "j \<in> free_in st k" by (auto simp: free_frames_iff)
  with assms(1) have "i \<le> k" by (metis empty_iff linorder_not_less)
  show "Min (free_in st i) \<le> j"
  proof (cases "i = k")
    case True
    with k show ?thesis by simp
  next
    case False
    have "Min (free_in st i) \<in> span i" using Min_in [of "free_in st i"] assms(2) by (auto simp: free_in_def)
    with False \<open>i \<le> k\<close> k show ?thesis by (auto simp: free_in_def span_def)
  qed
qed simp

lemma alloc_frame_loop_spec:
  assumes "pm_inv st" and "n = length (frame_collections (fst st))" and "i \<le> n"
    and "\<forall>k<i. free_in st k = {}"
  shows "alloc_frame_loop [i..<n] st =
    (if free_frames st = {} then (- 1, st)
     else (frame_address (Min (free_frames st)),
           take_frame (nat (Min (free_frames st) div 512)) (Min (free_frames st)) st))"
  using assms(3,4)
proof (induction "n - i" arbitrary: i)
  case 0
  then have "free_frames st = {}" using assms(2) by (auto simp: free_frames_def)
  with 0 show ?case by simp
next
  case (Suc x)
  then have i: "i < length (frame_collections (fst st))" using assms(2) by simp
  with assms(2) have "[i..<n] = i # [Suc i..<n]" by (simp add: upt_conv_Cons)
  show ?case
  proof (cases "free_in st i = {}")
    case True
    with Suc.prems have "\<forall>k<Suc i. free_in st k = {}" by (simp add: less_Suc_eq)
    with Suc.hyps(1) [of "Suc i"] Suc.hyps(2) alloc_frame_loop_step [OF assms(1) i] True
      \<open>[i..<n] = _\<close> show ?thesis by simp
  next
    case False
    note m = Min_free_frames [OF Suc.prems(2) False i]
    have "Min (free_in st i) \<in> free_in st i" using False by (intro Min_in) auto
    then have "Min (free_in st i) \<in> span i" by (simp add: free_in_def)
    then have "nat (Min (free_in st i) div 512) = i" by (simp add: mem_span)
    moreover have "free_frames st \<noteq> {}" using False i by (auto simp: free_frames_def)
    ultimately show ?thesis using alloc_frame_loop_step [OF assms(1) i] False \<open>[i..<n] = _\<close> m by simp
  qed
qed


lemma take_all_inv:
  assumes "pm_inv st" and "i < length (frame_collections (fst st))" and "set pages \<subseteq> span i"
  shows "pm_inv (fold (take_frame i) pages st) \<and>
    free_frames (fold (take_frame i) pages st) = free_frames st - set pages"
  using assms
proof (induction pages arbitrary: st)
  case (Cons page pages)
  then have p: "page \<in> span i" by simp
  note t = take_frame_inv [OF Cons.prems(1,2) p]
  from Cons.IH [OF t(1)] Cons.prems t(2,3) show ?case by auto
qed simp

definition full_collections :: "pm_state \<Rightarrow> nat set" where
  "full_collections st = {i. i < length (frame_collections (fst st)) \<and> span i \<subseteq> free_frames st}"

lemma full_collections_iff:
  assumes "i < length (frame_collections (fst st))"
  shows "i \<in> full_collections st \<longleftrightarrow> free_in st i = span i"
proof
  assume f: "i \<in> full_collections st"
  have "j \<in> free_in st i" if "j \<in> span i" for j
  proof -
    from f that obtain k where "j \<in> free_in st k" by (auto simp: full_collections_def free_frames_def)
    with that span_unique [of j i k] show ?thesis by (auto simp: free_in_def)
  qed
  then show "free_in st i = span i" by (auto simp: free_in_def)
next
  assume "free_in st i = span i"
  then show "i \<in> full_collections st" using assms by (auto simp: full_collections_def free_frames_def)
qed

lemma alloc_collection_loop_spec:
  assumes "pm_inv st" and "n = length (frame_collections (fst st))" and "i \<le> n"
    and "\<forall>k<i. k \<notin> full_collections st"
  shows "alloc_collection_loop [i..<n] st =
    (if full_collections st = {} then (- 1, st)
     else (of_nat (Min (full_collections st) * 2097152),
           fold (take_frame (Min (full_collections st)))
             [int (Min (full_collections st)) * 512..int (Min (full_collections st)) * 512 + 511] st))"
  using assms(3,4)
proof (induction "n - i" arbitrary: i)
  case 0
  then have "full_collections st = {}" using assms(2) by (auto simp: full_collections_def)
  with 0 show ?case by simp
next
  case (Suc x)
  then have i: "i < length (frame_collections (fst st))" using assms(2) by simp
  with assms(2) have upt: "[i..<n] = i # [Suc i..<n]" by (simp add: upt_conv_Cons)
  have full: "available_frames (frame_collections (fst st) ! i) = 512 \<longleftrightarrow> i \<in> full_collections st"
    using available_eq_0(2) [OF assms(1) i] full_collections_iff [OF i] by simp
  show ?case
  proof (cases "i \<in> full_collections st")
    case False
    with Suc.prems have "\<forall>k<Suc i. k \<notin> full_collections st" by (simp add: less_Suc_eq)
    with Suc.hyps(1) [of "Suc i"] Suc.hyps(2) False full upt show ?thesis
      by (cases st) (simp add: Let_def)
  next
    case True
    have "finite (full_collections st)" by (simp add: full_collections_def)
    with True Suc.prems(2) have "Min (full_collections st) = i"
      by (intro Min_eqI) (auto simp: linorder_not_less [symmetric])
    with True full upt collection_pages_inv [OF assms(1) i] pm_invD(3) [OF assms(1) i] show ?thesis
      by (cases st) (auto simp: Let_def)
  qed
qed

lemma take_all_length:
  assumes "pm_inv st" and "i < length (frame_collections (fst st))" and "set pages \<subseteq> span i"
  shows "length (frame_collections (fst (fold (take_frame i) pages st))) = length (frame_collections (fst st))"
  using assms
proof (induction pages arbitrary: st)
  case (Cons page pages)
  then have p: "page \<in> span i" by simp
  note t = take_frame_inv [OF Cons.prems(1,2) p]
  from Cons.IH [OF t(1)] Cons.prems t(2,3) show ?case by auto
qed simp

lemma collection_taken:
  assumes "pm_inv st" and "full_collections st \<noteq> {}" and "m = Min (full_collections st)"
  shows "\<exists>st'. AllocateOnePhysicalFrameCollection st = (of_nat (m * 2097152), st') \<and> m < 1024 \<and>
    m \<in> full_collections st \<and> pm_inv st' \<and> full_collections st' = full_collections st - {m}"
proof -
  have "finite (full_collections st)" by (simp add: full_collections_def)
  with assms have m: "m \<in> full_collections st" by simp
  then have i: "m < length (frame_collections (fst st))" by (simp add: full_collections_def)
  let ?p = "[int m * 512..int m * 512 + 511]"
  have sp: "set ?p = span m" by (simp add: span_def)
  note t = take_all_inv [OF assms(1) i, of ?p, unfolded sp, OF order_refl]
    take_all_length [OF assms(1) i, of ?p, unfolded sp, OF order_refl]
  have "span k \<inter> span m = {}" if "k \<noteq> m" for k using that span_unique [of _ k m] by auto
  moreover have "int k * 512 \<in> span k" for k by (simp add: span_def)
  ultimately have "full_collections (fold (take_frame m) ?p st) = full_collections st - {m}"
    using t by (auto simp: full_collections_def)
  moreover have "AllocateOnePhysicalFrameCollection st = (of_nat (m * 2097152), fold (take_frame m) ?p st)"
    using alloc_collection_loop_spec [OF assms(1) refl le0] assms(2,3)
    by (simp add: AllocateOnePhysicalFrameCollection_def pm_invD(1) [OF assms(1)])
  ultimately show ?thesis using t m i pm_invD(2) [OF assms(1)] by auto
qed

lemma frame_address_uint:
  assumes "0 \<le> j" and "j < 2 ^ 19"
  shows "uint (frame_address j) = j * 4096"
  using assms int_to_u64_nonneg(2) [of "j * 4096"] by (simp add: frame_address_def pm_constants)

lemma free_frames_bounds:
  assumes "pm_inv st" and "j \<in> free_frames st"
  shows "0 \<le> j" and "j < 2 ^ 19" and "j < 512 * int (length (frame_collections (fst st)))"
proof -
  from assms(2) obtain i where "i < length (frame_collections (fst st))" "j \<in> span i"
    by (auto simp: free_frames_iff free_in_def)
  then show "0 \<le> j" and "j < 512 * int (length (frame_collections (fst st)))" by (auto simp: span_def)
  then show "j < 2 ^ 19" using pm_invD(2) [OF assms(1)] by simp
qed

section \<open>Initialisation\<close>

text \<open>What the first loop of \<open>CreatePhysicalPagesBitMap\<close> decides for a frame.\<close>

definition frame_usable :: "PhysicalMemoryManager \<Rightarrow> int \<Rightarrow> bool" where
  "frame_usable pm page \<longleftrightarrow> (\<exists>i<unat (memory_entries pm). usable_condition
     \<lparr>p_physical_address = frame_address page, p_size = 4096, number_of_frames_to_allocate = 0\<rparr>
     (physicalMemoryEntry pm i))"

definition same_table :: "PhysicalMemoryManager \<Rightarrow> PhysicalMemoryManager \<Rightarrow> bool" where
  "same_table pm pm' \<longleftrightarrow> physicalMemoryEntry pm' = physicalMemoryEntry pm \<and>
     memory_entries pm' = memory_entries pm \<and> physical_memory_bitmap pm' = physical_memory_bitmap pm"

lemma first_entry_None: "first_entry P pm = None \<longleftrightarrow>
    (\<forall>i<unat (memory_entries pm). \<not> P (physicalMemoryEntry pm i))"
  by (auto simp: first_entry_def find_None_iff)

lemma is_usable_after:
  "is_usable_address (returns (IsUsableAddress pm)) \<longleftrightarrow>
     (\<exists>i<unat (memory_entries pm). usable_condition (params pm) (physicalMemoryEntry pm i))"
  "same_table pm (IsUsableAddress pm)"
  using first_entry_None [of "usable_condition (params pm)" pm]
  by (auto simp: IsUsableAddress_def set_returns_def same_table_def split: option.splits)

lemma mark_frame_spec:
  "\<exists>pm'. same_table pm pm' \<and> mark_frame page (pm, mem) =
     (pm', if frame_usable pm page \<and> page \<ge> kernelFrames
           then SetBit (physical_memory_bitmap pm) mem page
           else ClearBit (physical_memory_bitmap pm) mem page)"
proof -
  let ?pm = "pm\<lparr>params := (params pm)\<lparr>p_physical_address := frame_address page,
                 p_size := word_of_int FOUR_KiB_MEMORY_PAGE_SIZE\<rparr>\<rparr>"
  have "is_usable_address (returns (IsUsableAddress ?pm)) = frame_usable pm page"
    by (simp add: is_usable_after(1) frame_usable_def usable_condition_def pm_constants)
  moreover have "same_table pm (IsUsableAddress ?pm)" using is_usable_after(2) [of ?pm]
    by (simp add: same_table_def)
  ultimately show ?thesis
    by (intro exI [of _ "IsUsableAddress ?pm"]) (simp add: mark_frame_def Let_def same_table_def)
qed

lemma mark_frames_spec:
  "\<forall>p\<in>set pages. valid_bit p \<Longrightarrow>
   \<exists>pm' mem'. same_table pm pm' \<and> fold mark_frame pages (pm, mem) = (pm', mem') \<and>
     (\<forall>j. valid_bit j \<longrightarrow> GetBit (physical_memory_bitmap pm) mem' j =
        (if j \<in> set pages then frame_usable pm j \<and> j \<ge> kernelFrames
         else GetBit (physical_memory_bitmap pm) mem j))"
proof (induction pages arbitrary: pm mem)
  case Nil
  then show ?case by (simp add: same_table_def)
next
  case (Cons p pages)
  then have v: "valid_bit p" by simp
  from mark_frame_spec [of pm p mem] obtain pm1 mem1 where 1: "same_table pm pm1"
    "mark_frame p (pm, mem) = (pm1, mem1)"
    "mem1 = (if frame_usable pm p \<and> p \<ge> kernelFrames then SetBit (physical_memory_bitmap pm) mem p
             else ClearBit (physical_memory_bitmap pm) mem p)" by auto
  have u: "frame_usable pm1 = frame_usable pm" using 1(1) by (auto simp: frame_usable_def same_table_def)
  from Cons.IH [of pm1 mem1] Cons.prems obtain pm' mem' where 2: "same_table pm1 pm'"
    "fold mark_frame pages (pm1, mem1) = (pm', mem')"
    "\<forall>j. valid_bit j \<longrightarrow> GetBit (physical_memory_bitmap pm1) mem' j =
        (if j \<in> set pages then frame_usable pm1 j \<and> j \<ge> kernelFrames
         else GetBit (physical_memory_bitmap pm1) mem1 j)" by auto
  have "GetBit (physical_memory_bitmap pm) mem1 j =
      (if j = p then frame_usable pm p \<and> p \<ge> kernelFrames else GetBit (physical_memory_bitmap pm) mem j)"
    if "valid_bit j" for j
    using that v 1(3) by (auto simp: frames.get_set1 frames.get_clear1)
  with 1 2 u show ?case by (auto simp: same_table_def)
qed

lemma count_free_card: "distinct pages \<Longrightarrow> count_free base mem pages = card {j \<in> set pages. GetBit base mem j}"
proof -
  assume "distinct pages"
  then have "card (set (filter (GetBit base mem) pages)) = length (filter (GetBit base mem) pages)"
    by (intro distinct_card) simp
  then show ?thesis by (simp add: count_free_def)
qed

lemma kmalloc_returns:
  assumes "lock_free (spinlock ma)"
  shows "\<exists>r ma'. kmalloc apic ma n = Some (r, ma') \<and> spinlock ma' = spinlock ma"
  by (simp add: kmalloc_free [OF assms])

lemma below_whole_collections:
  "j < 512 * int (a div 512) \<Longrightarrow> a < 2 ^ 19 \<Longrightarrow> j < int a \<and> j < 2 ^ 19"
  by auto

lemma build_collection_spec:
  assumes "i < 1024"
  shows "initial_physical_address (build_collection bm mem i) = of_nat (i * 2097152)"
    and "available_frames (build_collection bm mem i) = of_nat (card {j \<in> span i. GetBit bm mem j})"
proof -
  have "int i * 512 * 4096 < 2 ^ 31" using assms by simp
  then have "int_to_u64 (int i * 512 * 4096) = word_of_int (int i * 512 * 4096)"
    by (intro int_to_u64_nonneg(1)) simp_all
  also have "\<dots> = of_nat (i * 2097152)" by simp
  finally show "initial_physical_address (build_collection bm mem i) = of_nat (i * 2097152)"
    by (simp add: build_collection_def pm_constants)
  show "available_frames (build_collection bm mem i) = of_nat (card {j \<in> span i. GetBit bm mem j})"
    by (simp add: build_collection_def count_free_card span_def)
qed

lemma init_frames_inv:
  assumes "lock_free (spinlock ma)" and "unat (available_frame pm) div 512 \<le> 1024"
  shows "\<exists>st ma'. InitializePhysicalMemoryFrames apic (pm, mem) ma = Some (st, ma') \<and> pm_inv st \<and>
    length (frame_collections (fst st)) = unat (available_frame pm) div 512 \<and>
    (\<forall>j. free_at st j = GetBit (physical_memory_bitmap pm) mem j)"
proof -
  obtain cp ma' where k: "kmalloc apic ma (16 * (available_frame pm div 512)) = Some (cp, ma')"
    using kmalloc_returns [OF assms(1)] by metis
  let ?n = "unat (available_frame pm) div 512" and ?a = "uint (available_frame pm)"
  have "unat (available_frame pm) < 2 ^ 20" using assms(2) by simp
  then have "int (unat (available_frame pm)) < int (2 ^ 20)" by (simp only: of_nat_less_iff)
  then have "?a < 2 ^ 20" by simp
  then have c: "c_int ?a = ?a" by (intro c_int_uint) simp
  have "?a sdiv 512 = ?a div 512" by (auto simp: signed_divide_int_def sgn_if)
  also have "\<dots> = int ?n" by (simp add: zdiv_int)
  finally have n: "unat (word_of_int (c_int ?a sdiv 512) :: u16) = ?n"
    using assms(2) unfolding c by (simp add: unat_of_nat)
  let ?st = "(pm\<lparr>number_physical_memory_frame_collection :=
        word_of_int (c_int (uint (available_frame pm)) sdiv 512),
      frame_collections := map (build_collection (physical_memory_bitmap pm) mem) [0..<?n]\<rparr>, mem)"
  have "InitializePhysicalMemoryFrames apic (pm, mem) ma = Some (?st, ma')"
    by (simp add: InitializePhysicalMemoryFrames_def k n Let_def)
  moreover have "pm_inv ?st" using assms(2)
    by (auto simp: pm_inv_def n build_collection_spec free_in_def free_at_def)
  moreover have "\<forall>j. free_at ?st j = GetBit (physical_memory_bitmap pm) mem j"
    by (simp add: free_at_def)
  ultimately show ?thesis by (intro exI [of _ ?st] exI [of _ ma']) simp
qed

lemma free_frames_eq: "free_frames st =
    {j. 0 \<le> j \<and> j < 512 * int (length (frame_collections (fst st))) \<and> free_at st j}"
proof -
  have "(\<exists>i<length (frame_collections (fst st)). j \<in> span i) \<longleftrightarrow>
      0 \<le> j \<and> j < 512 * int (length (frame_collections (fst st)))" for j
    by (auto simp: mem_span)
  then show ?thesis by (auto simp: free_frames_def free_in_def)
qed

text \<open>Above the kernel the low-memory alternative of the usability test is irrelevant.\<close>

lemma frame_usable_above_kernel:
  assumes "kernelFrames \<le> j" and "j < 2 ^ 19"
  shows "frame_usable pm j \<longleftrightarrow> (\<exists>i<unat (memory_entries pm). let e = physicalMemoryEntry pm i in
     start e \<le> frame_address j \<and> frame_address j + 4096 < eend e \<and>
     etype e = E820_MEMORY_ENTRY_TYPE_USABLE)"
proof -
  have k: "kernelFrames = 192000" by (simp add: kernelFrames_def pm_constants signed_divide_int_def)
  have "uint (frame_address j) = j * 4096" using assms k by (intro frame_address_uint) simp_all
  then have "\<not> frame_address j < FIRST_MEMORY_1_MiB"
    using assms(1) k by (simp add: pm_constants word_less_def)
  then show ?thesis by (simp add: frame_usable_def usable_condition_def Let_def)
qed

lemma create_bitmap_spec:
  assumes "lock_free (spinlock ma)" and "uint (GetReservedAndUsableMemorySize pm) div 4096 < 2 ^ 19"
  shows "\<exists>pm1 mem1 ma1. CreatePhysicalPagesBitMap apic (pm, mem) ma = Some ((pm1, mem1), ma1) \<and>
    lock_free (spinlock ma1) \<and> unat (available_frame pm1) < 2 ^ 19 \<and>
    (\<forall>j. 0 \<le> j \<longrightarrow> j < int (unat (available_frame pm1)) \<longrightarrow>
      GetBit (physical_memory_bitmap pm1) mem1 j = (frame_usable pm j \<and> kernelFrames \<le> j))"
proof -
  define n where "n = uint (GetReservedAndUsableMemorySize pm) div 4096"
  have n: "0 \<le> n" "n < 2 ^ 19" using assms(2) by (simp_all add: n_def pos_imp_zdiv_nonneg_iff)
  have c: "c_int (uint (GetReservedAndUsableMemorySize pm div 4096)) = n"
    using n by (simp add: n_def uint_div)
  obtain bm ma1 where k: "kmalloc apic ma (int_to_u64 (n sdiv 8)) = Some (bm, ma1)" "lock_free (spinlock ma1)"
    using kmalloc_returns [OF assms(1)] assms(1) by metis
  have "\<forall>p\<in>set [0..n - 1]. valid_bit p" using n by (simp add: valid_bit_def)
  from mark_frames_spec [OF this, of "pm\<lparr>physical_memory_bitmap := bm\<rparr>" mem] obtain pm1 mem1 where
    m: "same_table (pm\<lparr>physical_memory_bitmap := bm\<rparr>) pm1"
      "fold mark_frame [0..n - 1] (pm\<lparr>physical_memory_bitmap := bm\<rparr>, mem) = (pm1, mem1)"
      "\<And>j. 0 \<le> j \<Longrightarrow> j < n \<Longrightarrow> GetBit bm mem1 j = (frame_usable pm j \<and> kernelFrames \<le> j)"
    using n by (auto simp: valid_bit_def frame_usable_def)
  let ?k = "count_free bm mem1 [0..n - 1]"
  have "?k \<le> length [0..n - 1]" unfolding count_free_def by (rule length_filter_le)
  then have kn: "int ?k \<le> n" using n by simp
  then have "uint (int_to_u64 (int ?k)) = int ?k" using n by (intro int_to_u64_nonneg(2)) simp_all
  then have u: "unat (int_to_u64 (int ?k)) = ?k" by (simp add: unat_eq_nat_uint)
  let ?pm = "pm1\<lparr>available_frame := int_to_u64 (int ?k)\<rparr>"
  have "CreatePhysicalPagesBitMap apic (pm, mem) ma = Some ((?pm, mem1), ma1)"
    by (simp add: CreatePhysicalPagesBitMap_def Let_def pm_constants c k m(2))
  moreover have "physical_memory_bitmap ?pm = bm" using m(1) by (simp add: same_table_def)
  ultimately show ?thesis using k(2) kn n u m(3)
    by (intro exI [of _ ?pm] exI [of _ mem1] exI [of _ ma1]) simp
qed

lemma alloc_one_spec:
  assumes "pm_inv st"
  shows "case AllocateOnePhysicalFrame st of (r, st') \<Rightarrow>
    (if free_frames st = {} then r = - 1 \<and> st' = st
     else r \<noteq> - 1 \<and> uint r = 4096 * Min (free_frames st) \<and> pm_inv st' \<and>
          free_frames st' = free_frames st - {Min (free_frames st)})"
proof -
  let ?m = "Min (free_frames st)"
  note run = alloc_frame_loop_spec [OF assms refl le0]
  have AllocateOne: "AllocateOnePhysicalFrame st = alloc_frame_loop [0..<length (frame_collections (fst st))] st"
    by (simp add: AllocateOnePhysicalFrame_def pm_invD(1) [OF assms])
  show ?thesis
  proof (cases "free_frames st = {}")
    case True
    with run show ?thesis by (simp add: AllocateOne)
  next
    case False
    then have m: "?m \<in> free_frames st" by simp
    then obtain i where i: "i < length (frame_collections (fst st))" "?m \<in> span i"
      by (auto simp: free_frames_iff free_in_def)
    then have "nat (?m div 512) = i" by (simp add: mem_span)
    moreover have u: "uint (frame_address ?m) = ?m * 4096"
      using free_frames_bounds [OF assms m] by (intro frame_address_uint)
    moreover have "frame_address ?m \<noteq> - 1"
    proof
      assume "frame_address ?m = - 1"
      with u have "?m * 4096 = uint (- 1 :: u64)" by simp
      also have "\<dots> = 2 ^ 64 - 1" by (simp add: unsigned_minus_1_eq_mask mask_eq_exp_minus_1)
      finally show False using free_frames_bounds(2) [OF assms m] by simp
    qed
    ultimately show ?thesis using run False take_frame_inv [OF assms i] by (simp add: AllocateOne)
  qed
qed


text \<open>A sequence of \<open>n\<close> allocations, with the addresses it returns.\<close>

fun alloc_run :: "nat \<Rightarrow> pm_state \<Rightarrow> u64 list \<times> pm_state" where
  "alloc_run 0 st = ([], st)"
| "alloc_run (Suc n) st =
     (case AllocateOnePhysicalFrame st of (a, st1) \<Rightarrow>
        (case alloc_run n st1 of (as, st2) \<Rightarrow> (a # as, st2)))"

lemma AllocatePhysicalFrames_run:
  "AllocatePhysicalFrames st =
     snd (alloc_run (nat (c_int (uint (number_of_frames_to_allocate (params (fst st)))))) st)"
proof -
  have "((\<lambda>s. snd (AllocateOnePhysicalFrame s)) ^^ n) s = snd (alloc_run n s)" for n s
    by (induction n arbitrary: s) (simp_all add: funpow_Suc_right del: funpow.simps(2) split: prod.splits)
  then show ?thesis by (simp add: AllocatePhysicalFrames_def)
qed

lemma alloc_run_spec:
  assumes "pm_inv st" and "n \<le> card (free_frames st)"
  shows "case alloc_run n st of (as, st') \<Rightarrow> pm_inv st' \<and> distinct as \<and> length as = n \<and>
    (\<forall>a\<in>set as. \<exists>j\<in>free_frames st. uint a = 4096 * j) \<and>
    free_frames st' = free_frames st - {j. \<exists>a\<in>set as. uint a = 4096 * j}"
  using assms
proof (induction n arbitrary: st)
  case (Suc n)
  let ?F = "free_frames st" and ?m = "Min (free_frames st)"
  from Suc.prems(2) have ne: "?F \<noteq> {}" by auto
  then have m: "?m \<in> ?F" by simp
  obtain a st1 where a: "AllocateOnePhysicalFrame st = (a, st1)" by (metis surj_pair)
  with alloc_one_spec [OF Suc.prems(1)] ne have 1: "uint a = 4096 * ?m" "pm_inv st1"
    "free_frames st1 = ?F - {?m}" by auto
  have "n \<le> card (free_frames st1)" using Suc.prems(2) m 1(3) by simp
  from Suc.IH [OF 1(2) this] obtain as st2 where 2: "alloc_run n st1 = (as, st2)" "pm_inv st2"
    "distinct as" "length as = n" "\<forall>a\<in>set as. \<exists>j\<in>?F - {?m}. uint a = 4096 * j"
    "free_frames st2 = ?F - {?m} - {j. \<exists>a\<in>set as. uint a = 4096 * j}"
    unfolding 1(3) by (auto split: prod.splits)
  have "a \<notin> set as" using 2(5) 1(1) by auto
  with a 1 2 m show ?case by auto
qed simp

section \<open>Properties\<close>

text \<open>C4: \<open>AllocateOnePhysicalFrame\<close> implements "take the least element of the set of free
  frames": with no free frame it returns \<open>-1\<close> and changes nothing; otherwise it returns the
  address of the lowest free frame, that frame and no other leaves the set, and the counts of
  the collections stay in step with the bitmap.\<close>

theorem allocate_frame_refines:
  assumes "pm_inv st"
  shows "case AllocateOnePhysicalFrame st of (r, st') \<Rightarrow>
    (if free_frames st = {} then r = - 1 \<and> st' = st
     else r \<noteq> - 1 \<and> uint r = 4096 * Min (free_frames st) \<and> pm_inv st' \<and>
          free_frames st' = free_frames st - {Min (free_frames st)})"
  using assms by (rule alloc_one_spec)

text \<open>C2: the frames handed out are never handed out twice: as many allocations as there are
  free frames all succeed, return the addresses of pairwise distinct free frames, and remove
  exactly these frames from the free set. This is what \<open>AllocatePhysicalFrames\<close> does for its
  count.\<close>

theorem frames_allocated_once:
  assumes "pm_inv st" and "n \<le> card (free_frames st)"
    and "n = nat (c_int (uint (number_of_frames_to_allocate (params (fst st)))))"
  shows "\<exists>as. alloc_run n st = (as, AllocatePhysicalFrames st) \<and> distinct as \<and> length as = n \<and>
    (\<forall>a\<in>set as. \<exists>j\<in>free_frames st. uint a = 4096 * j) \<and> pm_inv (AllocatePhysicalFrames st) \<and>
    free_frames (AllocatePhysicalFrames st) = free_frames st - {j. \<exists>a\<in>set as. uint a = 4096 * j}"
  using alloc_run_spec [OF assms(1,2)]
  by (simp add: AllocatePhysicalFrames_run flip: assms(3) split: prod.splits)

text \<open>The address of a frame at or above 2 GiB is wrong: the product
  \<open>page_number * FOUR_KiB_MEMORY_PAGE_SIZE\<close> overflows the \<open>int\<close> and is sign extended, so
  the frames of the second 2 GiB get addresses in the last 2 GiB of the address space.\<close>

theorem frame_address_sign_extends:
  assumes "2 ^ 19 \<le> j" and "j < 2 ^ 20"
  shows "uint (frame_address j) = 2 ^ 64 - 2 ^ 32 + j * 4096"
proof -
  have "(j * 4096 + 2147483648) mod 4294967296 = (j * 4096 - 2147483648 + 4294967296) mod 4294967296"
    by (simp add: add.commute)
  also have "\<dots> = j * 4096 - 2147483648"
    using assms by (simp only: mod_add_self2) (intro mod_pos_pos_trivial, simp_all)
  finally have "c_int (j * 4096) = j * 4096 - 2 ^ 32"
    unfolding c_int_def signed_take_bit_eq_take_bit_shift by (simp add: take_bit_eq_mod)
  then have "uint (frame_address j) = (j * 4096 - 2 ^ 32) mod 2 ^ 64"
    by (simp only: frame_address_def int_to_u64_def pm_constants uint_word_of_int) simp
  also have "\<dots> = (j * 4096 - 2 ^ 32 + 2 ^ 64) mod 2 ^ 64" by (simp only: mod_add_self2)
  also have "\<dots> = j * 4096 - 2 ^ 32 + 2 ^ 64" using assms by (intro mod_pos_pos_trivial) simp_all
  finally show ?thesis by simp
qed

text \<open>C6: \<open>DeallocatePhysicalFrame\<close> implements "add the frame to the set of free frames"
  for every address inside the collections: the counts stay in step, and giving back a frame that
  is free changes nothing.\<close>

theorem deallocate_frame_refines:
  assumes "pm_inv st" and "a = p_physical_address (params (fst st))"
    and "uint a div 4096 < 512 * int (length (frame_collections (fst st)))"
  shows "pm_inv (DeallocatePhysicalFrame st) \<and>
    free_frames (DeallocatePhysicalFrame st) = insert (uint a div 4096) (free_frames st) \<and>
    (uint a div 4096 \<in> free_frames st \<longrightarrow> DeallocatePhysicalFrame st = st)"
proof -
  note d = deallocate_is_put_frame [OF assms]
  have "put_frame i j st = st" if "j \<in> free_frames st" for i j
    using that by (auto simp: put_frame_def free_frames_def free_in_def)
  with put_frame_inv [OF assms(1) d(2,3)] show ?thesis by (simp add: d(1))
qed

text \<open>C7: \<open>AllocateOnePhysicalFrameCollection\<close> returns \<open>-1\<close> exactly when no collection
  has all its 512 frames free; otherwise it returns the base address of the first such collection
  and takes exactly its 512 frames.\<close>

theorem allocate_collection_refines:
  assumes "pm_inv st"
  shows "case AllocateOnePhysicalFrameCollection st of (r, st') \<Rightarrow>
    (if full_collections st = {} then r = - 1 \<and> st' = st
     else r \<noteq> - 1 \<and> uint r = 2097152 * int (Min (full_collections st)) \<and> pm_inv st' \<and>
          span (Min (full_collections st)) \<subseteq> free_frames st \<and>
          free_frames st' = free_frames st - span (Min (full_collections st)))"
proof -
  let ?m = "Min (full_collections st)"
  note run = alloc_collection_loop_spec [OF assms refl le0]
  have unf: "AllocateOnePhysicalFrameCollection st =
      alloc_collection_loop [0..<length (frame_collections (fst st))] st"
    by (simp add: AllocateOnePhysicalFrameCollection_def pm_invD(1) [OF assms])
  show ?thesis
  proof (cases "full_collections st = {}")
    case True
    with run show ?thesis by (simp add: unf)
  next
    case False
    have "finite (full_collections st)" by (simp add: full_collections_def)
    with False have m: "?m \<in> full_collections st" by simp
    then have i: "?m < length (frame_collections (fst st))" by (simp add: full_collections_def)
    with pm_invD(2) [OF assms] have lt: "?m < 1024" by simp
    then have un: "unat (of_nat (?m * 2097152) :: u64) = ?m * 2097152"
      by (simp only: unat_of_nat) simp
    have ne: "of_nat (?m * 2097152) \<noteq> (- 1 :: u64)"
    proof
      assume "of_nat (?m * 2097152) = (- 1 :: u64)"
      with un have "unat (- 1 :: u64) = ?m * 2097152" by simp
      moreover have "unat (- 1 :: u64) = 2 ^ 64 - 1" by (simp add: unsigned_minus_1_eq_mask mask_eq_exp_minus_1)
      ultimately show False using lt by simp
    qed
    have uu: "uint (of_nat (?m * 2097152) :: u64) = 2097152 * int ?m"
      using un by (simp only: uint_nat)
    have "set [int ?m * 512..int ?m * 512 + 511] = span ?m" by (simp add: span_def)
    with take_all_inv [OF assms i, of "[int ?m * 512..int ?m * 512 + 511]"] False m run ne uu
    show ?thesis by (simp add: unf full_collections_def)
  qed
qed


text \<open>C5: the boot sequence \<open>CreatePhysicalPagesBitMap\<close>, \<open>InitializePhysicalMemoryFrames\<close>
  returns and establishes the invariant, and the free frames are then exactly the frames of the
  collections that lie above the kernel's 750 MiB and whose page is inside a usable memory
  entry.\<close>

theorem boot_establishes_frames:
  assumes "lock_free (spinlock ma)" and "uint (GetReservedAndUsableMemorySize pm) div 4096 < 2 ^ 19"
  shows "\<exists>st1 ma1 st2 ma2. CreatePhysicalPagesBitMap apic (pm, mem) ma = Some (st1, ma1) \<and>
    InitializePhysicalMemoryFrames apic st1 ma1 = Some (st2, ma2) \<and> pm_inv st2 \<and>
    free_frames st2 = {j. kernelFrames \<le> j \<and> j < 512 * int (length (frame_collections (fst st2))) \<and>
       (\<exists>i<unat (memory_entries pm). let e = physicalMemoryEntry pm i in
          start e \<le> frame_address j \<and> frame_address j + 4096 < eend e \<and>
          etype e = E820_MEMORY_ENTRY_TYPE_USABLE)}"
proof -
  from create_bitmap_spec [OF assms] obtain pm1 mem1 ma1 where
    c: "CreatePhysicalPagesBitMap apic (pm, mem) ma = Some ((pm1, mem1), ma1)"
      "lock_free (spinlock ma1)" "unat (available_frame pm1) < 2 ^ 19"
      "\<And>j. 0 \<le> j \<Longrightarrow> j < int (unat (available_frame pm1)) \<Longrightarrow>
        GetBit (physical_memory_bitmap pm1) mem1 j = (frame_usable pm j \<and> kernelFrames \<le> j)" by blast
  have "unat (available_frame pm1) div 512 \<le> 1024" using c(3) by simp
  from init_frames_inv [OF c(2) this] obtain st2 ma2 where
    i: "InitializePhysicalMemoryFrames apic (pm1, mem1) ma1 = Some (st2, ma2)" "pm_inv st2"
      "length (frame_collections (fst st2)) = unat (available_frame pm1) div 512"
      "\<And>j. free_at st2 j = GetBit (physical_memory_bitmap pm1) mem1 j" by blast
  have lim: "j < int (unat (available_frame pm1)) \<and> j < 2 ^ 19"
    if "j < 512 * int (length (frame_collections (fst st2)))" for j
    using that c(3) unfolding i(3) by (rule below_whole_collections)
  have k: "0 \<le> kernelFrames" by (simp add: kernelFrames_def pm_constants signed_divide_int_def)
  have "free_frames st2 = {j. kernelFrames \<le> j \<and> j < 512 * int (length (frame_collections (fst st2))) \<and>
      frame_usable pm j}"
    unfolding free_frames_eq using lim c(4) i(4) k by fastforce
  also have "\<dots> = {j. kernelFrames \<le> j \<and> j < 512 * int (length (frame_collections (fst st2))) \<and>
       (\<exists>i<unat (memory_entries pm). let e = physicalMemoryEntry pm i in
          start e \<le> frame_address j \<and> frame_address j + 4096 < eend e \<and>
          etype e = E820_MEMORY_ENTRY_TYPE_USABLE)}"
    using lim frame_usable_above_kernel [of _ pm] by (intro Collect_cong) blast
  finally show ?thesis using c(1) i(1,2) by blast
qed


section \<open>A machine to try the properties on\<close>

text \<open>One collection, all of whose frames are free but the first.\<close>

definition demo_pm :: PhysicalMemoryManager where
  "demo_pm = \<lparr>physicalMemoryEntry = (\<lambda>_. \<lparr>start = 0, esize = 0x40000000, etype = 1, unused = 0,
       vstart = 0, eend = 0x40000000\<rparr>),
     physical_memory_bitmap = 0x2E00000, memory_entries = 1, usable_memory_size = 0x40000000,
     reserved_memory_size = 0, hole_memory_size = 0, maximum_address = 0x40000000,
     reserved_plus_usable_size = 0x40000000, available_frame = 512,
     frame_collections = [\<lparr>available_frames = 511, initial_physical_address = 0\<rparr>],
     number_physical_memory_frame_collection = 1,
     params = \<lparr>p_physical_address = 0, p_size = 0, number_of_frames_to_allocate = 0\<rparr>,
     returns = \<lparr>is_address = False, is_usable_address = False, virtualAddress = 0\<rparr>\<rparr>"

definition demo_bits :: memory where
  "demo_bits = (\<lambda>a. if a = 0x2E00000 then 0x7F else 0xFF)"

lemma demo_free_at:
  assumes "j \<in> span 0"
  shows "free_at (demo_pm, demo_bits) j \<longleftrightarrow> j \<noteq> 0"
proof -
  have v: "valid_bit j" "valid_bit 0" using assms by (auto simp: span_def valid_bit_def)
  have a: "bit_addr 0x2E00000 0 = 0x2E00000" by (simp add: bit_addr_def signed_divide_int_def)
  have f: "bit (0xFF :: u8) (bit_pos j)" by (rule bit_byte_masks(1) [OF bit_pos_less])
  show ?thesis
  proof (cases "j div 8 = 0")
    case True
    then have b: "bit_addr 0x2E00000 j = 0x2E00000" using bit_addr_eq_iff [OF v, of "0x2E00000"] a by simp
    have "j = 0 \<longleftrightarrow> bit_pos j = 7" using bit_pos_eq_iff [of j 0] True by (simp add: bit_pos_def)
    moreover have "bit (0x7F :: u8) (bit_pos j) \<longleftrightarrow> bit_pos j \<noteq> 7" using bit_pos_less [of j]
      unfolding bit_byte_masks(2) by linarith
    ultimately show ?thesis using v(1) b by (simp add: free_at_def GetBit_valid demo_bits_def demo_pm_def)
  next
    case False
    then have "bit_addr 0x2E00000 j \<noteq> 0x2E00000" using bit_addr_eq_iff [OF v, of "0x2E00000"] a by simp
    with f v(1) False show ?thesis by (auto simp: free_at_def GetBit_valid demo_bits_def demo_pm_def)
  qed
qed

lemma demo_free: "free_frames (demo_pm, demo_bits) = {1..511}" "free_in (demo_pm, demo_bits) 0 = {1..511}"
proof -
  show "free_in (demo_pm, demo_bits) 0 = {1..511}"
    using demo_free_at by (auto simp: free_in_def) (auto simp: span_def)
  moreover have "length (frame_collections demo_pm) = 1" by (simp add: demo_pm_def)
  ultimately show "free_frames (demo_pm, demo_bits) = {1..511}"
    by (simp add: free_frames_def lessThan_Suc)
qed

lemma demo_inv: "pm_inv (demo_pm, demo_bits)"
proof -
  have "card (free_in (demo_pm, demo_bits) 0) = 511" by (simp add: demo_free(2))
  then show ?thesis by (simp add: pm_inv_def demo_pm_def)
qed

text \<open>The same machine with every frame free.\<close>

definition demo_pm_full :: PhysicalMemoryManager where
  "demo_pm_full = demo_pm\<lparr>frame_collections := [\<lparr>available_frames = 512, initial_physical_address = 0\<rparr>]\<rparr>"

lemma demo_full: "free_in (demo_pm_full, \<lambda>_. 0xFF) 0 = span 0"
  "full_collections (demo_pm_full, \<lambda>_. 0xFF) = {0}" "pm_inv (demo_pm_full, \<lambda>_. 0xFF)"
proof -
  have "bit (0xFF :: u8) (bit_pos j)" for j by (rule bit_byte_masks(1) [OF bit_pos_less])
  then show fi: "free_in (demo_pm_full, \<lambda>_. 0xFF) 0 = span 0"
    using span_valid [of 0] by (auto simp: free_in_def free_at_def GetBit_valid)
  have len: "length (frame_collections (fst (demo_pm_full, \<lambda>_. 0xFF))) = 1"
    by (simp add: demo_pm_full_def)
  have "0 \<in> full_collections (demo_pm_full, \<lambda>_. 0xFF)"
    using fi len by (subst full_collections_iff) simp_all
  moreover have "full_collections (demo_pm_full, \<lambda>_. 0xFF) \<subseteq> {0}"
    using len by (auto simp: full_collections_def)
  ultimately show "full_collections (demo_pm_full, \<lambda>_. 0xFF) = {0}" by blast
  show "pm_inv (demo_pm_full, \<lambda>_. 0xFF)" using arg_cong [OF fi, of card]
    by (simp add: pm_inv_def demo_pm_full_def demo_pm_def)
qed

section \<open>Witnesses\<close>

theorem allocate_frame_refines_witness:
  "\<exists>st'. AllocateOnePhysicalFrame (demo_pm, demo_bits) = (4096, st') \<and> free_frames st' = {2..511}"
proof -
  have m: "Min {1..511 :: int} = 1" by (intro Min_eqI) auto
  have d: "{1..511 :: int} - {1} = {2..511}" by auto
  obtain r st' where run: "AllocateOnePhysicalFrame (demo_pm, demo_bits) = (r, st')" by (metis surj_pair)
  with allocate_frame_refines [OF demo_inv] have "uint r = 4096" "free_frames st' = {2..511}"
    by (simp_all add: demo_free(1) m d)
  moreover from this(1) have "r = 4096" by (simp add: word_uint_eq_iff)
  ultimately show ?thesis using run by simp
qed

theorem deallocate_frame_refines_witness:
  "free_frames (DeallocatePhysicalFrame (demo_pm, demo_bits)) = {0..511}"
proof -
  have "p_physical_address (params demo_pm) = 0" "length (frame_collections demo_pm) = 1"
    by (simp_all add: demo_pm_def)
  then have "0 = p_physical_address (params (fst (demo_pm, demo_bits)))"
    "uint (0 :: u64) div 4096 < 512 * int (length (frame_collections (fst (demo_pm, demo_bits))))" by simp_all
  from deallocate_frame_refines [OF demo_inv this]
  have "free_frames (DeallocatePhysicalFrame (demo_pm, demo_bits)) = insert (uint (0 :: u64) div 4096) {1..511}"
    unfolding demo_free(1) by blast
  also have "\<dots> = {0..511}" by auto
  finally show ?thesis .
qed

theorem allocate_collection_refines_witness:
  "\<exists>st'. AllocateOnePhysicalFrameCollection (demo_pm_full, \<lambda>_. 0xFF) = (0, st') \<and> free_frames st' = {}"
proof -
  obtain r st' where run: "AllocateOnePhysicalFrameCollection (demo_pm_full, \<lambda>_. 0xFF) = (r, st')" by (metis surj_pair)
  have "free_frames (demo_pm_full, \<lambda>_. 0xFF) = span 0"
    using demo_full(1) by (simp add: free_frames_def demo_pm_full_def lessThan_Suc)
  with run allocate_collection_refines [OF demo_full(3)] have "uint r = 0" "free_frames st' = {}"
    by (simp_all add: demo_full(2))
  with run show ?thesis by (simp add: word_uint_eq_iff)
qed

theorem boot_establishes_frames_witness:
  "\<exists>st1 ma1 st2 ma2. CreatePhysicalPagesBitMap 0 (demo_pm, demo_bits) demo_allocator = Some (st1, ma1) \<and>
     InitializePhysicalMemoryFrames 0 st1 ma1 = Some (st2, ma2) \<and> pm_inv st2"
proof -
  have "lock_free (spinlock demo_allocator)" by (simp add: demo_allocator_def lock_free_def)
  moreover have "uint (GetReservedAndUsableMemorySize demo_pm) div 4096 < 2 ^ 19"
    by (simp add: GetReservedAndUsableMemorySize_def demo_pm_def)
  ultimately show ?thesis using boot_establishes_frames [of demo_allocator demo_pm 0 demo_bits] by blast
qed


theorem frame_address_sign_extends_witness: "uint (frame_address 524288) = 0xFFFFFFFF80000000"
  using frame_address_sign_extends [of 524288] by simp

theorem frames_allocated_once_witness:
  "\<exists>as. alloc_run 3 (demo_pm\<lparr>params := (params demo_pm)\<lparr>number_of_frames_to_allocate := 3\<rparr>\<rparr>, demo_bits) =
     (as, AllocatePhysicalFrames (demo_pm\<lparr>params := (params demo_pm)\<lparr>number_of_frames_to_allocate := 3\<rparr>\<rparr>,
       demo_bits)) \<and> distinct as"
proof -
  let ?pm = "demo_pm\<lparr>params := (params demo_pm)\<lparr>number_of_frames_to_allocate := 3\<rparr>\<rparr>"
  have f: "free_in (?pm, demo_bits) = free_in (demo_pm, demo_bits)"
    by (simp add: free_in_def free_at_def fun_eq_iff)
  then have "pm_inv (?pm, demo_bits)" using demo_inv by (simp add: pm_inv_def)
  moreover have "free_frames (?pm, demo_bits) = {1..511}"
    using f demo_free(1) by (simp add: free_frames_def)
  then have "3 \<le> card (free_frames (?pm, demo_bits))" by simp
  moreover have "3 = nat (c_int (uint (number_of_frames_to_allocate (params (fst (?pm, demo_bits))))))" by simp
  ultimately show ?thesis using frames_allocated_once [of "(?pm, demo_bits)" 3] by blast
qed

end
