(* ===== verification/PageTables.thy ===== *)
theory PageTables
  imports FrameAllocator
begin

text \<open>
  The page tables of \<open>stage2/sources/memory/MemoryPageMap.c\<close>: the four-level tables of a core,
  the pool of last-level tables (\<open>Level_4\<close>) and the routines that link a virtual address to a
  2 MiB collection or a 4 KiB frame.

  The tables are 64-bit words, in a memory of words addressed by byte address (\<open>vm_words\<close>);
  the bitmap of the \<open>Level_4\<close> pool is in the byte memory, like the bitmap of the frames.
  A \<open>MemoryPageTable\<close> is known by its address: its array \<open>PGD\<close> is at offset 0, \<open>PUD\<close>
  at offset 4096.
\<close>

section \<open>State\<close>

record Level_4 =
  numBlocks :: u64
  PTE_ptr :: u64
  bit_map :: u64

record MemoryPageTable =
  table_address :: u64
  PMD_ptr :: u64
  map_start_address :: u64
  map_size :: u64
  mapped_pages :: u64
  last_virtual_address :: u64
  start_address :: u64
  physical_address :: u64

record vm_state =
  vm_pm :: PhysicalMemoryManager
  vm_mem :: memory
  vm_words :: "u64 \<Rightarrow> u64"
  vm_l4 :: Level_4

definition PAGE_TABLE_UNIT_SIZE :: u64 where "PAGE_TABLE_UNIT_SIZE = 512"
definition PGD_ENTRIES_LIMIT :: u64 where "PGD_ENTRIES_LIMIT = 4"
definition ONE_GIG_VALUE :: u64 where "ONE_GIG_VALUE = 0x40000000"
definition ENTRY_UNMAPPED :: u64 where "ENTRY_UNMAPPED = 0xFFFFFFFFFFFFFFFF"

text \<open>The flags \<open>PRESENT | RW | USER\<close> of a table, and those with \<open>2MIB\<close> of a page.\<close>

definition table_flags :: u64 where "table_flags = 0x1 OR 0x2 OR 0x4"
definition page_flags :: u64 where "page_flags = 0x80 OR 0x1 OR 0x2 OR 0x4"
definition clr_offset4 :: u64 where "clr_offset4 = 0xFFFFFFFFFFFFF000"
definition set_offset :: u64 where "set_offset = 0x1FFFFF"

definition pgd_index :: "u64 \<Rightarrow> u64" where "pgd_index va = drop_bit 39 va"
definition pud_index :: "u64 \<Rightarrow> u64" where "pud_index va = drop_bit 30 va AND 0x1FF"
definition pmd_index :: "u64 \<Rightarrow> u64" where "pmd_index va = drop_bit 21 va AND 0x1FF"
definition pte_index :: "u64 \<Rightarrow> u64" where "pte_index va = drop_bit 12 va AND 0x1FF"

text \<open>Addresses of table entries.\<close>

definition PGD_cell :: "MemoryPageTable \<Rightarrow> u64 \<Rightarrow> u64" where
  "PGD_cell t i = table_address t + 8 * i"

definition PUD_cell :: "MemoryPageTable \<Rightarrow> u64 \<Rightarrow> u64 \<Rightarrow> u64" where
  "PUD_cell t g i = table_address t + 4096 + 4096 * g + 8 * i"

definition PMD_cell :: "MemoryPageTable \<Rightarrow> u64 \<Rightarrow> u64 \<Rightarrow> u64" where
  "PMD_cell t idx i = PMD_ptr t + 4096 * idx + 8 * i"

definition pmd_cell_of :: "MemoryPageTable \<Rightarrow> u64 \<Rightarrow> u64" where
  "pmd_cell_of t va = PMD_cell t (pgd_index va * PAGE_TABLE_UNIT_SIZE + pud_index va) (pmd_index va)"

section \<open>Translation\<close>

definition v2p :: "(u64 \<Rightarrow> u64) \<Rightarrow> u64 \<Rightarrow> u64 \<Rightarrow> u64" where
  "v2p words v_address PGD =
     (let ptl1_index = drop_bit 39 (v_address AND 0x0000FF8000000000);
          ptl2_index = drop_bit 30 (v_address AND 0x0000007FC0000000);
          ptl3_index = drop_bit 21 (v_address AND 0x000000003FE00000);
          ptl4_index = drop_bit 12 (v_address AND 0x00000000001FF000);
          pud = words (PGD + 8 * ptl1_index) AND clr_offset4;
          pmd = words (pud + 8 * ptl2_index) AND clr_offset4;
          pte = words (pmd + 8 * ptl3_index) AND clr_offset4
      in words (pte + 8 * ptl4_index))"

definition v2p2m :: "(u64 \<Rightarrow> u64) \<Rightarrow> u64 \<Rightarrow> u64 \<Rightarrow> u64" where
  "v2p2m words v_address PGD =
     (let ptl1_index = drop_bit 39 (v_address AND 0x0000FF8000000000);
          ptl2_index = drop_bit 30 (v_address AND 0x0000007FC0000000);
          ptl3_index = drop_bit 21 (v_address AND 0x000000003FE00000);
          pud = words (PGD + 8 * ptl1_index) AND 0xFFFFFFFFFFFFF000;
          pmd = words (pud + 8 * ptl2_index) AND 0xFFFFFFFFFFFFF000;
          p_address = words (pmd + 8 * ptl3_index)
      in (p_address AND 0xFFFFFFFFFFFFF000) + (set_offset AND v_address))"

section \<open>The pool of last-level tables\<close>

text \<open>The chain of range tests that finds the first set bit of a byte, from the most
  significant one.\<close>

definition first_bit_index :: "u8 \<Rightarrow> int" where
  "first_bit_index bt =
     (if bt \<le> 255 \<and> bt \<ge> 128 then 0
      else if bt \<le> 127 \<and> bt \<ge> 64 then 1
      else if bt \<le> 63 \<and> bt \<ge> 32 then 2
      else if bt \<le> 31 \<and> bt \<ge> 16 then 3
      else if bt \<le> 15 \<and> bt \<ge> 8 then 4
      else if bt \<le> 7 \<and> bt \<ge> 4 then 5
      else if bt \<le> 3 \<and> bt \<ge> 2 then 6
      else if bt \<le> 1 \<and> bt \<ge> 0 then 7 else - 1)"

fun alloc_block_loop :: "nat \<Rightarrow> nat \<Rightarrow> Level_4 \<Rightarrow> memory \<Rightarrow> u64 \<times> memory" where
  "alloc_block_loop 0 i l4 mem = (- 1, mem)"
| "alloc_block_loop (Suc n) i l4 mem =
     (let a = bit_map l4 + of_nat i; bt = mem a
      in if bt = 0 then alloc_block_loop n (Suc i) l4 mem
         else (let idx = first_bit_index bt
               in (PTE_ptr l4 + 4096 * (of_nat i * 8 + word_of_int idx),
                   mem(a := bt AND NOT (push_bit (nat (7 - idx)) 1)))))"

definition AllocateVirtualMemoryBlock :: "Level_4 \<Rightarrow> memory \<Rightarrow> u64 \<times> memory" where
  "AllocateVirtualMemoryBlock l4 mem = alloc_block_loop (unat (numBlocks l4 div 8)) 0 l4 mem"

definition DeallocateVirtualMemoryBlock :: "Level_4 \<Rightarrow> u64 \<Rightarrow> memory \<Rightarrow> bool \<times> memory" where
  "DeallocateVirtualMemoryBlock l4 address mem =
     (let block_index = c_int (uint ((address - PTE_ptr l4) div word_of_int FOUR_KiB_MEMORY_PAGE_SIZE));
          idx1 = block_index sdiv 8; idx2 = block_index smod 8;
          a = bit_map l4 + word_of_int idx1
      in if bit (ucast (mem a) :: u32) (nat (7 - idx2)) then (False, mem)
         else (True, mem(a := mem a OR push_bit (nat (7 - idx2)) 1)))"

section \<open>Linking\<close>

definition vm_set_word :: "u64 \<Rightarrow> u64 \<Rightarrow> vm_state \<Rightarrow> vm_state" where
  "vm_set_word a v s = s\<lparr>vm_words := (vm_words s)(a := v)\<rparr>"

definition LinkThirdStageToCollection :: "MemoryPageTable \<Rightarrow> u64 \<Rightarrow> vm_state \<Rightarrow> u64 \<times> vm_state" where
  "LinkThirdStageToCollection t va s =
     (case AllocateOnePhysicalFrameCollection (vm_pm s, vm_mem s) of
        (pa, (pm, mem)) \<Rightarrow>
          (pa, vm_set_word (pmd_cell_of t va) (pa OR page_flags) (s\<lparr>vm_pm := pm, vm_mem := mem\<rparr>)))"

definition LinkThirdStageToCollectionPhysical ::
  "MemoryPageTable \<Rightarrow> u64 \<Rightarrow> u64 \<Rightarrow> vm_state \<Rightarrow> bool \<times> vm_state" where
  "LinkThirdStageToCollectionPhysical t va pa s =
     (True, vm_set_word (pmd_cell_of t va) (pa OR page_flags) s)"

text \<open>The last-level table of an address, taken from the pool when the entry is unmapped.\<close>

definition ensure_pte :: "MemoryPageTable \<Rightarrow> u64 \<Rightarrow> vm_state \<Rightarrow> vm_state" where
  "ensure_pte t va s =
     (if vm_words s (pmd_cell_of t va) = ENTRY_UNMAPPED
      then (case AllocateVirtualMemoryBlock (vm_l4 s) (vm_mem s) of
              (returned_pte, mem) \<Rightarrow>
                vm_set_word (pmd_cell_of t va) (returned_pte OR table_flags) (s\<lparr>vm_mem := mem\<rparr>))
      else s)"

definition pte_cell_of :: "MemoryPageTable \<Rightarrow> u64 \<Rightarrow> vm_state \<Rightarrow> u64" where
  "pte_cell_of t va s = (vm_words s (pmd_cell_of t va) AND clr_offset4) + 8 * pte_index va"

definition LinkFourthStageToFrame :: "MemoryPageTable \<Rightarrow> u64 \<Rightarrow> vm_state \<Rightarrow> bool \<times> vm_state" where
  "LinkFourthStageToFrame t va s =
     (let s1 = ensure_pte t va s
      in case AllocateOnePhysicalFrame (vm_pm s1, vm_mem s1) of
           (pa, (pm, mem)) \<Rightarrow>
             (True, vm_set_word (pte_cell_of t va s1) (pa OR page_flags) (s1\<lparr>vm_pm := pm, vm_mem := mem\<rparr>)))"

definition LinkFourthStageToFramePhysical ::
  "MemoryPageTable \<Rightarrow> u64 \<Rightarrow> u64 \<Rightarrow> vm_state \<Rightarrow> bool \<times> vm_state" where
  "LinkFourthStageToFramePhysical t va pa s =
     (let s1 = ensure_pte t va s
      in (True, vm_set_word (pte_cell_of t va s1) (pa OR page_flags) s1))"

text \<open>The service wrappers take their arguments from the table's parameter block.\<close>

definition LinkThirdStageToCollectionWrapper :: "MemoryPageTable \<Rightarrow> vm_state \<Rightarrow> vm_state" where
  "LinkThirdStageToCollectionWrapper t s = snd (LinkThirdStageToCollection t (start_address t) s)"

definition LinkThirdStageToCollectionPhysicalWrapper :: "MemoryPageTable \<Rightarrow> vm_state \<Rightarrow> vm_state" where
  "LinkThirdStageToCollectionPhysicalWrapper t s =
     snd (LinkThirdStageToCollectionPhysical t (start_address t) (physical_address t) s)"

definition LinkFourthStageToFrameWrapper :: "MemoryPageTable \<Rightarrow> vm_state \<Rightarrow> vm_state" where
  "LinkFourthStageToFrameWrapper t s = snd (LinkFourthStageToFrame t (start_address t) s)"

definition LinkFourthStageToFramePhysicalWrapper :: "MemoryPageTable \<Rightarrow> vm_state \<Rightarrow> vm_state" where
  "LinkFourthStageToFramePhysicalWrapper t s =
     snd (LinkFourthStageToFramePhysical t (start_address t) (physical_address t) s)"

text \<open>The two stores at the end of \<open>DeallocateVirtualMemoryCollection\<close> are to the same entry.\<close>

definition DeallocateVirtualMemoryCollection :: "MemoryPageTable \<Rightarrow> u64 \<Rightarrow> vm_state \<Rightarrow> vm_state" where
  "DeallocateVirtualMemoryCollection t va s =
     (let cell = pmd_cell_of t va;
          pm1 = (vm_pm s)\<lparr>params := (params (vm_pm s))\<lparr>p_physical_address := vm_words s cell\<rparr>\<rparr>
      in case DeallocateOnePhysicalFrameCollection (pm1, vm_mem s) of
           (pm, mem) \<Rightarrow> vm_set_word cell 0xFFFFFFFFFFFFFFF0
             (vm_set_word cell ENTRY_UNMAPPED (s\<lparr>vm_pm := pm, vm_mem := mem\<rparr>)))"


section \<open>Building the tables of a core\<close>

text \<open>The end of the mapped virtual space: \<open>(4 * 512 * 512 * 512 - 1) * 4096\<close>.\<close>

definition last_available_vaddress :: u64 where
  "last_available_vaddress =
     (PGD_ENTRIES_LIMIT * PAGE_TABLE_UNIT_SIZE * PAGE_TABLE_UNIT_SIZE * PAGE_TABLE_UNIT_SIZE - 1) * 4096"

definition link_gig :: "u64 \<Rightarrow> MemoryPageTable \<times> vm_state \<Rightarrow> MemoryPageTable \<times> vm_state" where
  "link_gig pa st = (case st of (t, s) \<Rightarrow>
     let g = pgd_index pa; u = pud_index pa
     in (t\<lparr>last_virtual_address := pa + ONE_GIG_VALUE - 1, mapped_pages := mapped_pages t + 1\<rparr>,
         vm_set_word (PUD_cell t g u) (PMD_cell t (g * PAGE_TABLE_UNIT_SIZE + u) 0 OR table_flags)
           (vm_set_word (PGD_cell t g) (PUD_cell t g 0 OR table_flags) s)))"

definition BspLinkFirst3Levels :: "MemoryPageTable \<Rightarrow> vm_state \<Rightarrow> (MemoryPageTable \<times> vm_state) option" where
  "BspLinkFirst3Levels t s =
     for_loop (\<lambda>pa. pa \<le> last_available_vaddress) (\<lambda>pa. pa + ONE_GIG_VALUE) link_gig 0
       (t\<lparr>mapped_pages := 0, last_virtual_address := 0\<rparr>, s)"

definition MapKernelUsableMemory :: "MemoryPageTable \<Rightarrow> vm_state \<Rightarrow> vm_state" where
  "MapKernelUsableMemory t s =
     fold (\<lambda>i s. snd (LinkFourthStageToFramePhysical t (int_to_u64 (int i * FOUR_KiB_MEMORY_PAGE_SIZE))
                        (int_to_u64 (int i * FOUR_KiB_MEMORY_PAGE_SIZE)) s))
       [0..<nat (KERNEL_MEMORY_SIZE sdiv FOUR_KiB_MEMORY_PAGE_SIZE)] s"

definition isReservedMemory :: "PhysicalMemoryEntry \<Rightarrow> bool" where
  "isReservedMemory e \<longleftrightarrow> start e > 0x100000 \<and>
     (etype e = E820_MEMORY_ENTRY_TYPE_RESEARVED \<or> etype e = E820_MEMORY_ENTRY_TYPE_ACPI_RECLAINMED \<or>
      etype e = E820_MEMORY_ENTRY_TYPE_ACPI_NVS)"

definition E820_MEMORY_ENTRY_TYPE_HOLE :: u32 where "E820_MEMORY_ENTRY_TYPE_HOLE = 6"

definition set_vstart :: "nat \<Rightarrow> u64 \<Rightarrow> vm_state \<Rightarrow> vm_state" where
  "set_vstart i v s = s\<lparr>vm_pm := (vm_pm s)\<lparr>physicalMemoryEntry := (physicalMemoryEntry (vm_pm s))
     (i := (physicalMemoryEntry (vm_pm s) i)\<lparr>vstart := v\<rparr>)\<rparr>\<rparr>"

text \<open>One round of \<open>MapReservedMemory\<close>: the entry gets virtual addresses below
  \<open>last_available_vaddress\<close> and its pages are linked one by one.\<close>

definition map_reserved_entry :: "MemoryPageTable \<Rightarrow> nat \<Rightarrow> u64 \<times> vm_state \<Rightarrow> (u64 \<times> vm_state) option" where
  "map_reserved_entry t i st = (case st of (lastv, s) \<Rightarrow>
     let e = physicalMemoryEntry (vm_pm s) i
     in if isReservedMemory e
        then (let num_frames_needed = esize e div 4096;
                  start_vaddress = lastv - num_frames_needed * 4096
              in map_option (\<lambda>(va, s'). (start_vaddress - 4096, s'))
                   (for_loop (\<lambda>pa. pa < start e + esize e) (\<lambda>pa. pa + 4096)
                     (\<lambda>pa (va, s). (va + 4096, snd (LinkFourthStageToFramePhysical t va pa s)))
                     (start e) (start_vaddress, set_vstart i start_vaddress s)))
        else if etype e \<noteq> E820_MEMORY_ENTRY_TYPE_HOLE then Some (lastv, set_vstart i (start e) s)
        else Some (lastv, s))"

fun map_reserved_entries :: "MemoryPageTable \<Rightarrow> nat list \<Rightarrow> u64 \<times> vm_state \<Rightarrow> (u64 \<times> vm_state) option" where
  "map_reserved_entries t [] st = Some st"
| "map_reserved_entries t (i # is) st =
     (case map_reserved_entry t i st of None \<Rightarrow> None | Some st' \<Rightarrow> map_reserved_entries t is st')"

definition MapReservedMemory :: "MemoryPageTable \<Rightarrow> vm_state \<Rightarrow> vm_state option" where
  "MapReservedMemory t s =
     map_option snd (map_reserved_entries t [0..<unat (memory_entries (vm_pm s))] (last_available_vaddress, s))"

text \<open>\<open>memset\<close> of whole words.\<close>

definition fill_words :: "u64 \<Rightarrow> u64 \<Rightarrow> u64 \<Rightarrow> vm_state \<Rightarrow> vm_state" where
  "fill_words base len v s = s\<lparr>vm_words := (\<lambda>a. if a - base < len then v else vm_words s a)\<rparr>"

text \<open>The preparation of one core's tables, shared by \<open>InitVirtualMemoryService\<close> and
  \<open>BuildApCoresPageTables\<close>: \<open>sizeof(MemoryPageTable)\<close> is \<open>20480\<close> bytes of tables and nine
  words, the tables of the third level take \<open>4096 * 4 * 512\<close> bytes.\<close>

definition clear_core_tables :: "MemoryPageTable \<Rightarrow> vm_state \<Rightarrow> vm_state" where
  "clear_core_tables t s0 =
     (let s1 = fill_words (table_address t) 4096 0 s0;
          s2 = fill_words (table_address t + 4096) (4 * 4096) 0 s1
      in fill_words (PMD_ptr t) (4096 * 4 * 512) ENTRY_UNMAPPED s2)"

definition prepare_core_tables :: "MemoryPageTable \<Rightarrow> vm_state \<Rightarrow> (MemoryPageTable \<times> vm_state) option" where
  "prepare_core_tables t0 s0 =
     (let t = t0\<lparr>map_start_address := 0, map_size := maximum_address (vm_pm s0)\<rparr>
      in do {
        (t', s4) \<leftarrow> BspLinkFirst3Levels t (clear_core_tables t s0);
        s5 \<leftarrow> MapReservedMemory t' (MapKernelUsableMemory t' s4);
        Some (t', s5)
      })"

definition init_pool :: "u32 \<Rightarrow> vm_state \<Rightarrow> MemoryAllocator \<Rightarrow> (vm_state \<times> MemoryAllocator) option" where
  "init_pool apic s ma =
     (let total_memory_size = usable_memory_size (vm_pm s) + reserved_memory_size (vm_pm s);
          total_number_of_frames = total_memory_size div word_of_int FOUR_KiB_MEMORY_PAGE_SIZE;
          blocks = (total_number_of_frames + 512 - 1) div 512
      in do {
        (pte, ma1) \<leftarrow> kvalloc apic ma (4096 * blocks);
        (bm, ma2) \<leftarrow> kvalloc apic ma1 blocks;
        let s1 = s\<lparr>vm_l4 := \<lparr>numBlocks = blocks, PTE_ptr = pte, bit_map = bm\<rparr>\<rparr>;
        let s2 = fill_words pte (blocks * 4096) 0 s1;
        Some (s2\<lparr>vm_mem := mem_fill bm 255 blocks (vm_mem s2)\<rparr>, ma2)
      })"

datatype vm_method = LinkThirdStageToCollectionWrapper_f | LinkThirdStageToCollectionPhysicalWrapper_f
  | LinkFourthStageToFrameWrapper_f | LinkFourthStageToFramePhysicalWrapper_f

definition vm_methods :: "(vm_method \<times> int) list" where
  "vm_methods = [(LinkThirdStageToCollectionWrapper_f, 0), (LinkThirdStageToCollectionPhysicalWrapper_f, 1),
     (LinkFourthStageToFrameWrapper_f, 2), (LinkFourthStageToFramePhysicalWrapper_f, 3)]"

definition InitVirtualMemoryService ::
  "u32 \<Rightarrow> MemoryPageTable \<Rightarrow> vm_state \<Rightarrow> MemoryAllocator \<Rightarrow> vm_method Service \<Rightarrow>
   (MemoryPageTable \<times> vm_state \<times> MemoryAllocator \<times> vm_method Service result) option" where
  "InitVirtualMemoryService apic t s ma p_service = do {
     (s1, ma1) \<leftarrow> init_pool apic s ma;
     (pmd, ma2) \<leftarrow> kvalloc apic ma1 (4096 * 4 * 512);
     (t', s2) \<leftarrow> prepare_core_tables (t\<lparr>PMD_ptr := pmd\<rparr>) s1;
     Some (t', s2, ma2, call_add_services p_service vm_methods)
   }"

text \<open>\<open>BuildApCoresPageTables\<close>: the first core keeps its tables, the others get new ones.\<close>

fun build_core_tables :: "u32 \<Rightarrow> nat \<Rightarrow> vm_state \<Rightarrow> MemoryAllocator \<Rightarrow>
    (MemoryPageTable list \<times> vm_state \<times> MemoryAllocator) option" where
  "build_core_tables apic 0 s ma = Some ([], s, ma)"
| "build_core_tables apic (Suc n) s ma = do {
     (ta, ma1) \<leftarrow> kvalloc apic ma 20552;
     (pmd, ma2) \<leftarrow> kvalloc apic ma1 (4096 * 4 * 512);
     (t, s1) \<leftarrow> prepare_core_tables \<lparr>table_address = ta, PMD_ptr = pmd, map_start_address = 0, map_size = 0,
        mapped_pages = 0, last_virtual_address = 0, start_address = 0, physical_address = 0\<rparr> s;
     (ts, s2, ma3) \<leftarrow> build_core_tables apic n s1 ma2;
     Some (t # ts, s2, ma3)
   }"

definition BuildApCoresPageTables :: "u32 \<Rightarrow> int \<Rightarrow> MemoryPageTable \<Rightarrow> vm_state \<Rightarrow> MemoryAllocator \<Rightarrow>
    (MemoryPageTable list \<times> vm_state \<times> MemoryAllocator) option" where
  "BuildApCoresPageTables apic cores_count bsp s ma = do {
     (cp, ma1) \<leftarrow> kvalloc apic ma (8 * word_of_int cores_count);
     (ts, s1, ma2) \<leftarrow> build_core_tables apic (nat (cores_count - 1)) s ma1;
     Some (bsp # ts, s1, ma2)
   }"

fun refresh_tables :: "MemoryPageTable list \<Rightarrow> vm_state \<Rightarrow> vm_state option" where
  "refresh_tables [] s = Some s"
| "refresh_tables (t # ts) s = (case MapReservedMemory t s of None \<Rightarrow> None | Some s' \<Rightarrow> refresh_tables ts s')"

text \<open>\<open>RefreshReserved\<close> also reloads \<open>CR3\<close> with the table of the executing core; the
  result names the address loaded.\<close>

definition RefreshReserved :: "nat \<Rightarrow> MemoryPageTable list \<Rightarrow> vm_state \<Rightarrow> (u64 option \<times> vm_state) option" where
  "RefreshReserved core ts s =
     map_option (\<lambda>s'. (if core < length ts then Some (table_address (ts ! core)) else None, s'))
       (refresh_tables ts s)"

section \<open>Shared memory mappings\<close>

fun link_shared_page :: "MemoryPageTable list \<Rightarrow> u64 \<Rightarrow> vm_state \<Rightarrow> vm_state" where
  "link_shared_page [] va s = s"
| "link_shared_page (t # ts) va s =
     (case LinkThirdStageToCollection t va s of (address, s1) \<Rightarrow>
        fold (\<lambda>t s. snd (LinkThirdStageToCollectionPhysical t va address s)) ts s1)"

definition AllocateSharedMemoryTwoMb :: "MemoryPageTable list \<Rightarrow> u64 \<Rightarrow> u64 \<Rightarrow> vm_state \<Rightarrow> vm_state option" where
  "AllocateSharedMemoryTwoMb cores virtualAddressStart sz s =
     for_loop (\<lambda>va. va \<le> virtualAddressStart + sz) (\<lambda>va. va + 0x200000) (link_shared_page cores)
       virtualAddressStart s"

fun dealloc_shared_cores :: "MemoryPageTable list \<Rightarrow> u64 \<Rightarrow> u64 \<Rightarrow> vm_state \<Rightarrow> vm_state option" where
  "dealloc_shared_cores [] virtualAddressStart sz s = Some s"
| "dealloc_shared_cores (t # ts) virtualAddressStart sz s =
     (case for_loop (\<lambda>va. va \<le> virtualAddressStart + sz) (\<lambda>va. va + 0x200000)
             (DeallocateVirtualMemoryCollection t) virtualAddressStart s of
        None \<Rightarrow> None
      | Some s' \<Rightarrow> dealloc_shared_cores ts virtualAddressStart sz s')"

definition DeallocateSharedMemoryTwoMb :: "MemoryPageTable list \<Rightarrow> u64 \<Rightarrow> u64 \<Rightarrow> vm_state \<Rightarrow> vm_state option" where
  "DeallocateSharedMemoryTwoMb cores virtualAddressStart sz s =
     dealloc_shared_cores cores virtualAddressStart sz s"


section \<open>The boot map\<close>

text \<open>
  \<open>PageMapStage1\<close> builds a first map of usable memory with 2 MiB pages in the
  \<open>LimitedMemoryPageMap\<close> at \<open>0x80000\<close>: \<open>PGD\<close> at offset 0, \<open>PUD\<close> behind the
  five pages of \<open>PGD\<close>, \<open>PUD4\<close>, \<open>PMD4\<close> and \<open>PTE\<close>, and the third level at the
  next page boundary behind the structure (\<open>36912\<close> bytes).
\<close>

record LimitedMemoryPageMap =
  lm_address :: u64
  lm_PMD :: u64
  lm_map_start_address :: u64
  lm_map_size :: u64
  lm_mapped_pages :: u64
  lm_last_virtual_address :: u64

definition limited_link :: "LimitedMemoryPageMap \<Rightarrow> u64 \<Rightarrow> u64 \<Rightarrow> vm_state \<Rightarrow> vm_state" where
  "limited_link m va pa s =
     (let g = pgd_index va; u = pud_index va; i = pmd_index va;
          pud = lm_address m + 20480 + 4096 * g; pmd = lm_PMD m + 4096 * (g * PAGE_TABLE_UNIT_SIZE + u)
      in vm_set_word (pmd + 8 * i) (pa OR page_flags)
           (vm_set_word (pud + 8 * u) (pmd OR table_flags)
             (vm_set_word (lm_address m + 8 * g) (pud OR table_flags) s)))"

record limited_loop =
  ll_pa :: u64
  ll_va :: u64
  ll_map :: LimitedMemoryPageMap
  ll_vm :: vm_state

definition limited_step :: "limited_loop \<Rightarrow> limited_loop" where
  "limited_step l =
     (let s = ll_vm l;
          pm = IsUsableAddress ((vm_pm s)\<lparr>params := (params (vm_pm s))
                 \<lparr>p_physical_address := ll_pa l, p_size := 0x200000\<rparr>\<rparr>);
          s1 = s\<lparr>vm_pm := pm\<rparr>; m = ll_map l
      in if is_usable_address (returns pm)
         then l\<lparr>ll_vm := limited_link m (ll_va l) (ll_pa l) s1,
                ll_map := m\<lparr>lm_last_virtual_address := ll_va l + 0x200000 - 1,
                            lm_mapped_pages := lm_mapped_pages m + 1\<rparr>,
                ll_va := ll_va l + 0x200000, ll_pa := ll_pa l + 0x200000\<rparr>
         else l\<lparr>ll_vm := s1, ll_pa := ll_pa l + 0x1000\<rparr>)"

definition mapLimitedUsableMemory ::
  "LimitedMemoryPageMap \<Rightarrow> u64 \<Rightarrow> u64 \<Rightarrow> vm_state \<Rightarrow> (LimitedMemoryPageMap \<times> vm_state) option" where
  "mapLimitedUsableMemory m p_start_address sz s =
     map_option (\<lambda>l. (ll_map l, ll_vm l))
       (while_option (\<lambda>l. ll_pa l < p_start_address + sz) limited_step
         \<lparr>ll_pa = p_start_address, ll_va = 0,
          ll_map = m\<lparr>lm_mapped_pages := 0, lm_last_virtual_address := 0\<rparr>, ll_vm = s\<rparr>)"

text \<open>\<open>enablePageDirectory\<close> loads \<open>CR3\<close>: the result is the address loaded, if any.\<close>

definition mapLimitedPages ::
  "LimitedMemoryPageMap \<Rightarrow> bool \<Rightarrow> vm_state \<Rightarrow> (u64 option \<times> LimitedMemoryPageMap \<times> vm_state) option" where
  "mapLimitedPages m p_enable_dir s =
     map_option (\<lambda>(m', s'). (if p_enable_dir then Some (lm_address m') else None, m', s'))
       (mapLimitedUsableMemory m (lm_map_start_address m) (lm_map_size m) s)"

definition KERNEL_MEMORY_MAP_ADDRESS :: u64 where "KERNEL_MEMORY_MAP_ADDRESS = 0x80000"
definition KERNELKMALLOC_INITIAL_MEMORY_ADDRESS :: u64 where
  "KERNELKMALLOC_INITIAL_MEMORY_ADDRESS = 0x200000 + 0x200000 * 0x8 + 0x1E00000"
definition KERNELKMALLOC_INITIAL_MEMORY_SIZE :: u64 where
  "KERNELKMALLOC_INITIAL_MEMORY_SIZE = 0x25800000"

definition PageMapStage1 :: "vm_state \<Rightarrow> MemoryAllocator \<Rightarrow>
    (u64 option \<times> LimitedMemoryPageMap \<times> vm_state \<times> MemoryAllocator) option" where
  "PageMapStage1 s ma =
     (let base = KERNEL_MEMORY_MAP_ADDRESS;
          m = \<lparr>lm_address = base, lm_PMD = page_align_up (base + 36912), lm_map_start_address = 0,
               lm_map_size = KERNELKMALLOC_INITIAL_MEMORY_ADDRESS + KERNELKMALLOC_INITIAL_MEMORY_SIZE,
               lm_mapped_pages = 0, lm_last_virtual_address = 0\<rparr>;
          s1 = fill_words base 4096 0 s;
          s2 = fill_words (base + 20480) (4 * 4096) 0 s1;
          s3 = fill_words (lm_PMD m) (16 * 4096) 0 s2;
          s4 = fill_words (base + 12288) (2 * 4096) 0 s3;
          s5 = fill_words (base + 4096) 4096 0 s4;
          s6 = fill_words (base + 8192) 4096 0 s5
      in map_option (\<lambda>(cr3, m', s'). (cr3, m', s',
             ma\<lparr>spinlock := spinlock_init (spinlock ma),
                kernel_memory_start_address := KERNELKMALLOC_INITIAL_MEMORY_ADDRESS,
                kernel_memory_current_address := KERNELKMALLOC_INITIAL_MEMORY_ADDRESS,
                kernel_memory_end_address :=
                  KERNELKMALLOC_INITIAL_MEMORY_ADDRESS + KERNELKMALLOC_INITIAL_MEMORY_SIZE - 1\<rparr>))
           (mapLimitedPages m True s6))"

end
