(* ===== verification/PageTableProofs.thy ===== *)
theory PageTableProofs
  imports PageTables
begin

text \<open>
  Correctness of the page tables: the pool of last-level tables is a first-fit allocator on its
  bitmap, linking a page makes the four-level walk \<open>v2p\<close> return it and disturbs no other
  mapping, and the kernel's memory is mapped to itself.
\<close>

section \<open>The pool allocates the first free block\<close>

lemma bit_of_range:
  fixes w :: u8
  assumes "2 ^ n \<le> unat w" and "unat w < 2 ^ Suc n"
  shows "bit w n" and "m > n \<Longrightarrow> \<not> bit w m"
proof -
  have b: "bit w k \<longleftrightarrow> odd (unat w div 2 ^ k)" for k
    by (metis bit_iff_odd bit_unsigned_iff possible_bit_nat)
  have "unat w div 2 ^ n = 1" using assms by (intro div_nat_eqI) simp_all
  then show "bit w n" by (simp add: b)
  assume "m > n"
  then have "(2::nat) ^ Suc n \<le> 2 ^ m" by (intro power_increasing) simp_all
  with assms(2) have "unat w div 2 ^ m = 0" by simp
  then show "\<not> bit w m" by (simp add: b)
qed

lemma first_bit_index_spec:
  assumes "bt \<noteq> 0"
  shows "0 \<le> first_bit_index bt \<and> first_bit_index bt < 8 \<and> bit bt (nat (7 - first_bit_index bt)) \<and>
    (\<forall>k. 0 \<le> k \<and> k < first_bit_index bt \<longrightarrow> \<not> bit bt (nat (7 - k)))"
proof -
  define n where "n = nat (7 - first_bit_index bt)"
  have pos: "0 < unat bt" using assms by (simp add: unat_gt_0)
  have lt: "unat bt < 256" by (rule order_less_le_trans [OF unsigned_less]) simp
  have r: "0 \<le> first_bit_index bt \<and> first_bit_index bt < 8 \<and> 2 ^ n \<le> unat bt \<and> unat bt < 2 ^ Suc n"
    using pos lt unfolding n_def first_bit_index_def word_le_nat_alt by simp
  with bit_of_range [of n bt] show ?thesis unfolding n_def by auto
qed

lemma byte_bit:
  assumes "8 * int i + k < 2 ^ 31" and "0 \<le> k" and "k < 8"
  shows "bit_addr base (8 * int i + k) = base + of_nat i" and "bit_pos (8 * int i + k) = nat (7 - k)"
    and "valid_bit (8 * int i + k)"
proof -
  show v: "valid_bit (8 * int i + k)" using assms by (simp add: valid_bit_def)
  have d: "(8 * int i + k) div 8 = int i" using assms(2,3) by auto
  have m: "k mod 8 = k" using assms(2,3) by simp
  show "bit_addr base (8 * int i + k) = base + of_nat i" using v by (simp add: bit_addr_def sdiv_smod_8 d)
  show "bit_pos (8 * int i + k) = nat (7 - k)" by (simp add: bit_pos_def m)
qed

lemma find_upto_first:
  assumes "P m" and "a \<le> m" and "m \<le> b" and "\<forall>k. a \<le> k \<and> k < m \<longrightarrow> \<not> P k"
  shows "find P [a..b] = Some (m :: int)"
proof -
  have "[a..b] = [a..m - 1] @ m # [m + 1..b]" using assms(2,3) by (rule upto_split3)
  moreover have "find P [a..m - 1] = None" using assms(4) by (auto simp: find_None_iff)
  ultimately show ?thesis using assms(1) by (simp add: find_append)
qed

lemma alloc_block_loop_spec:
  assumes "8 * (i + n) < 2 ^ 31"
  shows "alloc_block_loop n i l4 mem =
    (case find (GetBit (bit_map l4) mem) [8 * int i..8 * int (i + n) - 1] of
       None \<Rightarrow> (- 1, mem)
     | Some b \<Rightarrow> (PTE_ptr l4 + 4096 * word_of_int b, ClearBit (bit_map l4) mem b))"
  using assms
proof (induction n arbitrary: i)
  case (Suc n)
  let ?bm = "bit_map l4" and ?bt = "mem (bit_map l4 + of_nat i)"
  have "8 * int i + 8 < 2 ^ 31" using Suc.prems by simp
  then have bb: "bit_addr ?bm (8 * int i + k) = ?bm + of_nat i" "bit_pos (8 * int i + k) = nat (7 - k)"
    "valid_bit (8 * int i + k)" if "0 \<le> k" "k < 8" for k
    using that byte_bit [of i k] by simp_all
  have get: "GetBit ?bm mem (8 * int i + k) \<longleftrightarrow> bit ?bt (nat (7 - k))" if "0 \<le> k" "k < 8" for k
    using GetBit_valid [OF bb(3) [OF that]] bb [OF that] by simp
  show ?case
  proof (cases "?bt = 0")
    case True
    have "\<not> GetBit ?bm mem j" if "8 * int i \<le> j" "j < 8 * int i + 8" for j
      using get [of "j - 8 * int i"] that True by simp
    then have "find (GetBit ?bm mem) [8 * int i..8 * int i + 7] = None" by (auto simp: find_None_iff)
    moreover have "[8 * int i..8 * int (i + Suc n) - 1] =
        [8 * int i..8 * int i + 7] @ [8 * int (Suc i)..8 * int (Suc i + n) - 1]"
      using upto_split2 [of "8 * int i" "8 * int i + 7" "8 * int (i + Suc n) - 1"]
      by (simp add: algebra_simps)
    ultimately show ?thesis using Suc.IH [of "Suc i"] Suc.prems True by (simp add: find_append)
  next
    case False
    define k where "k = first_bit_index ?bt"
    have k: "0 \<le> k" "k < 8" "bit ?bt (nat (7 - k))" "\<And>l. 0 \<le> l \<Longrightarrow> l < k \<Longrightarrow> \<not> bit ?bt (nat (7 - l))"
      using first_bit_index_spec [OF False] by (auto simp: k_def)
    have "find (GetBit ?bm mem) [8 * int i..8 * int (i + Suc n) - 1] = Some (8 * int i + k)"
    proof (rule find_upto_first)
      show "GetBit ?bm mem (8 * int i + k)" using get k by simp
      show "\<forall>j. 8 * int i \<le> j \<and> j < 8 * int i + k \<longrightarrow> \<not> GetBit ?bm mem j"
        using get [of "_ - 8 * int i"] k(2,4) by fastforce
    qed (use k in simp_all)
    moreover have "ClearBit ?bm mem (8 * int i + k) = mem(?bm + of_nat i := ?bt AND NOT (push_bit (nat (7 - k)) 1))"
      using ClearBit_valid [OF bb(3) [OF k(1,2)]] bb [OF k(1,2)] by simp
    ultimately show ?thesis using False
      by (simp add: Let_def k_def [symmetric] mult.commute)
  qed
qed simp


section \<open>Addresses and indices\<close>

definition aligned :: "u64 \<Rightarrow> bool" where
  "aligned x \<longleftrightarrow> take_bit 12 x = 0"

definition page_region :: "u64 \<Rightarrow> u64 \<Rightarrow> u64 set" where
  "page_region base len = {a. a - base < len}"

lemma aligned_unat: "aligned x \<longleftrightarrow> unat x mod 4096 = 0"
proof -
  have "unat (take_bit 12 x) = unat x mod 2 ^ 12" by (simp add: take_bit_eq_mod unat_mod)
  then show ?thesis by (simp add: aligned_def word_unat_eq_iff)
qed

lemma aligned_add: "aligned a \<Longrightarrow> aligned (a + 4096 * b)"
proof -
  have cancel: "x mod 2 ^ 64 mod 4096 = x mod 4096" for x :: nat
    by (rule mod_mod_cancel) (simp add: dvd_def exI [of _ "2 ^ 52"])
  have "unat (a + 4096 * b) mod 4096 = (unat a + (4096 * unat b) mod 2 ^ 64) mod 2 ^ 64 mod 4096"
    by (simp add: unat_word_ariths)
  also have "\<dots> = (unat a + (4096 * unat b) mod 2 ^ 64) mod 4096" by (rule cancel)
  also have "\<dots> = (unat a mod 4096 + (4096 * unat b) mod 2 ^ 64 mod 4096) mod 4096"
    by (simp only: mod_add_eq)
  also have "(4096 * unat b) mod 2 ^ 64 mod 4096 = 0" unfolding cancel by simp
  finally show "aligned a \<Longrightarrow> ?thesis" by (simp add: aligned_unat)
qed

lemma aligned_bit: "aligned x \<Longrightarrow> bit x n \<Longrightarrow> 12 \<le> n"
  by (metis aligned_def bit_0_eq bit_take_bit_iff bot_apply bot_bool_def linorder_not_less)

lemma clr_flags:
  assumes "aligned x" and "take_bit 12 f = f"
  shows "(x OR f) AND clr_offset4 = x"
proof -
  have x: "12 \<le> n" if "bit x n" for n
    using assms(1) that by (rule aligned_bit)
  have f: "n < 12" if "bit f n" for n
    using assms(2) that by (metis bit_take_bit_iff)
  show ?thesis unfolding clr_offset4_def page_mask
    by (rule bit_word_eqI) (use x f in \<open>fastforce simp: bit_simps\<close>)
qed

lemma flags_low: "take_bit 12 table_flags = table_flags" "take_bit 12 page_flags = page_flags"
  by (simp_all add: table_flags_def page_flags_def)

lemma mask9: "(0x1FF :: u64) = mask 9"
  by (simp add: mask_eq_exp_minus_1)

lemma mask_index:
  fixes va :: u64
  shows "drop_bit 39 (va AND 0x0000FF8000000000) = drop_bit 39 va AND 0x1FF"
    and "drop_bit 30 (va AND 0x0000007FC0000000) = drop_bit 30 va AND 0x1FF"
    and "drop_bit 21 (va AND 0x000000003FE00000) = drop_bit 21 va AND 0x1FF"
    and "drop_bit 12 (va AND 0x00000000001FF000) = drop_bit 12 va AND 0x1FF"
proof -
  have "drop_bit n (va AND push_bit n (mask 9)) = drop_bit n va AND mask 9" if "n < 55" for n
    by (rule bit_word_eqI) (use that in \<open>auto simp: bit_simps\<close>)
  note gen = this [unfolded mask9 [symmetric]]
  from gen [of 39] gen [of 30] gen [of 21] gen [of 12]
  show "drop_bit 39 (va AND 0x0000FF8000000000) = drop_bit 39 va AND 0x1FF"
    and "drop_bit 30 (va AND 0x0000007FC0000000) = drop_bit 30 va AND 0x1FF"
    and "drop_bit 21 (va AND 0x000000003FE00000) = drop_bit 21 va AND 0x1FF"
    and "drop_bit 12 (va AND 0x00000000001FF000) = drop_bit 12 va AND 0x1FF"
    by (simp_all add: push_bit_eq_mult)
qed

lemma index_bounds:
  "pud_index va < 512" "pmd_index va < 512" "pte_index va < 512"
  "va < 2 ^ 41 \<Longrightarrow> pgd_index va < 4"
proof -
  have "x AND 0x1FF < (512 :: u64)" for x
    unfolding mask9 by (simp add: word_less_nat_alt unat_and_mask)
  then show "pud_index va < 512" "pmd_index va < 512" "pte_index va < 512"
    by (simp_all add: pud_index_def pmd_index_def pte_index_def)
  assume "va < 2 ^ 41"
  then have "unat va div 2 ^ 39 < 4" by (simp add: word_less_nat_alt less_mult_imp_div_less)
  then show "pgd_index va < 4" by (simp add: pgd_index_def word_less_nat_alt drop_bit_eq_div unat_div)
qed

lemma pgd_index_mask: "va < 2 ^ 41 \<Longrightarrow> pgd_index va AND mask 9 = pgd_index va"
proof -
  assume "va < 2 ^ 41"
  then have "unat (pgd_index va) < 4" using index_bounds(4) by (simp add: word_less_nat_alt)
  then have "unat (pgd_index va AND mask 9) = unat (pgd_index va)" by (simp add: unat_and_mask)
  then show ?thesis by (simp only: word_unat_eq_iff)
qed

text \<open>The four indices determine the page.\<close>

lemma indices_determine_page:
  assumes "pgd_index va = pgd_index va'" and "pud_index va = pud_index va'"
    and "pmd_index va = pmd_index va'" and "pte_index va = pte_index va'"
  shows "drop_bit 12 va = drop_bit 12 va'"
proof (rule bit_word_eqI)
  fix n assume "n < LENGTH(64)"
  have b: "bit (drop_bit k w AND mask 9) m \<longleftrightarrow> bit w (k + m) \<and> m < 9" for w :: u64 and k m
    by (auto simp: bit_simps)
  note * = assms [unfolded pud_index_def pmd_index_def pte_index_def mask9]
  consider "n < 9" | "9 \<le> n" "n < 18" | "18 \<le> n" "n < 27" | "27 \<le> n" by linarith
  then show "bit (drop_bit 12 va) n = bit (drop_bit 12 va') n"
  proof cases
    case 1
    then show ?thesis using arg_cong [OF *(4), of "\<lambda>w. bit w n"] by (simp add: b bit_simps)
  next
    case 2
    then have "n - 9 < 9" by simp
    with 2 show ?thesis using arg_cong [OF *(3), of "\<lambda>w. bit w (n - 9)"] by (simp add: b bit_simps)
  next
    case 3
    then have "n - 18 < 9" by simp
    with 3 show ?thesis using arg_cong [OF *(2), of "\<lambda>w. bit w (n - 18)"] by (simp add: b bit_simps)
  next
    case 4
    then show ?thesis using arg_cong [OF *(1) [unfolded pgd_index_def], of "\<lambda>w. bit w (n - 27)"]
      by (simp add: bit_simps)
  qed
qed


section \<open>The tables of a core\<close>

definition pool_size :: "Level_4 \<Rightarrow> int" where
  "pool_size l4 = 8 * int (unat (numBlocks l4 div 8))"

definition block :: "Level_4 \<Rightarrow> int \<Rightarrow> u64" where
  "block l4 b = PTE_ptr l4 + 4096 * word_of_int b"

text \<open>The three memory areas: the structure with its first two levels, the third level, and
  the pool.\<close>

definition layout :: "MemoryPageTable \<Rightarrow> Level_4 \<Rightarrow> bool" where
  "layout t l4 \<longleftrightarrow> aligned (table_address t) \<and> aligned (PMD_ptr t) \<and> aligned (PTE_ptr l4) \<and>
     pool_size l4 < 2 ^ 31 \<and>
     (let A = page_region (table_address t) 20480; B = page_region (PMD_ptr t) 8388608;
          C = page_region (PTE_ptr l4) (4096 * word_of_int (pool_size l4))
      in A \<inter> B = {} \<and> A \<inter> C = {} \<and> B \<inter> C = {})"

definition linked :: "MemoryPageTable \<Rightarrow> (u64 \<Rightarrow> u64) \<Rightarrow> bool" where
  "linked t words \<longleftrightarrow>
     (\<forall>g<4. words (PGD_cell t g) = PUD_cell t g 0 OR table_flags) \<and>
     (\<forall>g<4. \<forall>u<512. words (PUD_cell t g u) = PMD_cell t (g * 512 + u) 0 OR table_flags)"

definition entry_ok :: "MemoryPageTable \<Rightarrow> vm_state \<Rightarrow> u64 \<Rightarrow> bool" where
  "entry_ok t s e \<longleftrightarrow> e = ENTRY_UNMAPPED \<or> bit e 7 \<or>
     (\<exists>b. 0 \<le> b \<and> b < pool_size (vm_l4 s) \<and> \<not> GetBit (bit_map (vm_l4 s)) (vm_mem s) b \<and>
          e = block (vm_l4 s) b OR table_flags)"

definition points_to :: "MemoryPageTable \<Rightarrow> vm_state \<Rightarrow> u64 \<Rightarrow> int \<Rightarrow> bool" where
  "points_to t s cell b \<longleftrightarrow> 0 \<le> b \<and> b < pool_size (vm_l4 s) \<and>
     vm_words s cell = block (vm_l4 s) b OR table_flags"

definition pmd_cells :: "MemoryPageTable \<Rightarrow> u64 set" where
  "pmd_cells t = {PMD_cell t idx i | idx i. idx < 2048 \<and> i < 512}"

definition pt_inv :: "MemoryPageTable \<Rightarrow> vm_state \<Rightarrow> bool" where
  "pt_inv t s \<longleftrightarrow> layout t (vm_l4 s) \<and> linked t (vm_words s) \<and>
     (\<forall>c\<in>pmd_cells t. entry_ok t s (vm_words s c)) \<and>
     (\<forall>c\<in>pmd_cells t. \<forall>c'\<in>pmd_cells t. \<forall>b. points_to t s c b \<and> points_to t s c' b \<longrightarrow> c = c')"

lemma pmd_cell_of_in:
  assumes "va < 2 ^ 41"
  shows "pmd_cell_of t va \<in> pmd_cells t"
proof -
  have g: "unat (pgd_index va) < 4" and u: "unat (pud_index va) < 512"
    using index_bounds(1) index_bounds(4) [OF assms] by (simp_all add: word_less_nat_alt)
  have "unat (pgd_index va * 512 + pud_index va) = unat (pgd_index va) * 512 + unat (pud_index va)"
    using g u by (simp add: unat_word_ariths)
  then have "pgd_index va * 512 + pud_index va < 2048" using g u by (simp add: word_less_nat_alt)
  then show ?thesis using index_bounds(2) [of va]
    by (auto simp: pmd_cells_def pmd_cell_of_def PAGE_TABLE_UNIT_SIZE_def)
qed

lemma cell_offsets:
  assumes "i < 512"
  shows "g < 512 \<Longrightarrow> PGD_cell t g \<in> page_region (table_address t) 20480"
    and "g < 4 \<Longrightarrow> PUD_cell t g i \<in> page_region (table_address t) 20480"
    and "idx < 2048 \<Longrightarrow> PMD_cell t idx i \<in> page_region (PMD_ptr t) 8388608"
  using assms
  by (auto simp: page_region_def PGD_cell_def PUD_cell_def PMD_cell_def word_less_nat_alt
      unat_word_ariths)

lemma linked_cong:
  assumes "\<And>a. a \<in> page_region (table_address t) 20480 \<Longrightarrow> words a = words' a"
  shows "linked t words = linked t words'"
proof -
  have "words (PGD_cell t g) = words' (PGD_cell t g)" if "g < 4" for g
    using cell_offsets(1) [of 0 g t] that assms by (simp add: word_less_nat_alt)
  moreover have "words (PUD_cell t g u) = words' (PUD_cell t g u)" if "g < 4" "u < 512" for g u
    using cell_offsets(2) [of u g t] that assms by simp
  ultimately show ?thesis by (simp add: linked_def)
qed

lemma pmd_cells_region: "c \<in> pmd_cells t \<Longrightarrow> c \<in> page_region (PMD_ptr t) 8388608"
  using cell_offsets(3) by (auto simp: pmd_cells_def)

lemma table_offset_inj:
  fixes a b i j :: nat
  assumes "4096 * a + 8 * i = 4096 * b + 8 * j" and "i < 512" and "j < 512"
  shows "a = b \<and> i = j"
proof -
  have "512 * a + i = 512 * b + j" using assms(1) by simp
  moreover have "(512 * a + i) div 512 = a" "(512 * b + j) div 512 = b" using assms(2,3) by simp_all
  ultimately show ?thesis by (metis add_left_cancel)
qed

lemma PMD_cell_inj:
  assumes "idx < 2048" and "idx' < 2048" and "i < 512" and "i' < 512"
    and "PMD_cell t idx i = PMD_cell t idx' i'"
  shows "idx = idx' \<and> i = i'"
proof -
  have "unat (4096 * idx + 8 * i) = 4096 * unat idx + 8 * unat i"
    "unat (4096 * idx' + 8 * i') = 4096 * unat idx' + 8 * unat i'"
    using assms(1-4) by (simp_all add: unat_word_ariths word_less_nat_alt)
  moreover have "4096 * idx + 8 * i = 4096 * idx' + 8 * i'"
    using assms(5) by (simp add: PMD_cell_def add.assoc)
  ultimately have "4096 * unat idx + 8 * unat i = 4096 * unat idx' + 8 * unat i'" by metis
  moreover have "unat i < 512" "unat i' < 512" using assms(3,4) by (simp_all add: word_less_nat_alt)
  ultimately have "unat idx = unat idx' \<and> unat i = unat i'" by (rule table_offset_inj)
  then show ?thesis by (simp add: word_unat_eq_iff)
qed

lemma block_offset:
  assumes "0 \<le> b" and "b < 2 ^ 31" and "j < 512"
  shows "unat (4096 * word_of_int b + 8 * j :: u64) = 4096 * nat b + 8 * unat j"
proof -
  have "unat (word_of_int b :: u64) = nat b" using assms(1,2) by (simp add: unat_eq_nat_uint uint_word_of_int)
  then show ?thesis using assms by (simp add: unat_word_ariths word_less_nat_alt)
qed

lemma block_cell_region:
  assumes "0 \<le> b" and "b < pool_size l4" and "pool_size l4 < 2 ^ 31" and "j < 512"
  shows "block l4 b + 8 * j \<in> page_region (PTE_ptr l4) (4096 * word_of_int (pool_size l4))"
proof -
  have "unat (4096 * word_of_int (pool_size l4) :: u64) = 4096 * nat (pool_size l4)"
    using block_offset [of "pool_size l4" 0] assms by simp
  moreover have "unat j < 512" using assms(4) by (simp add: word_less_nat_alt)
  ultimately show ?thesis using assms block_offset [of b j]
    by (simp add: page_region_def block_def word_less_nat_alt add.assoc)
qed

lemma block_cell_inj:
  assumes "0 \<le> b" and "b < 2 ^ 31" and "j < 512" and "0 \<le> b'" and "b' < 2 ^ 31" and "j' < 512"
    and "block l4 b + 8 * j = block l4 b' + 8 * j'"
  shows "b = b' \<and> j = j'"
proof -
  have "4096 * word_of_int b + 8 * j = (4096 * word_of_int b' + 8 * j' :: u64)"
    using assms(7) by (simp add: block_def add.assoc)
  then have "4096 * nat b + 8 * unat j = 4096 * nat b' + 8 * unat j'"
    using block_offset [OF assms(1-3)] block_offset [OF assms(4-6)] by metis
  moreover have "unat j < 512" "unat j' < 512" using assms(3,6) by (simp_all add: word_less_nat_alt)
  ultimately have "nat b = nat b' \<and> unat j = unat j'" by (rule table_offset_inj)
  then have "int (nat b) = int (nat b')" and "j = j'" by (simp_all add: word_unat_eq_iff)
  then show ?thesis using assms(1,4) by simp
qed


section \<open>The walk\<close>

lemma v2p_walk:
  assumes "pt_inv t s" and "va < 2 ^ 41"
  shows "v2p (vm_words s) va (table_address t) = vm_words s (pte_cell_of t va s)"
proof -
  let ?g = "pgd_index va" and ?u = "pud_index va"
  have l: "layout t (vm_l4 s)" "linked t (vm_words s)" using assms(1) by (simp_all add: pt_inv_def)
  then have al: "aligned (table_address t)" "aligned (PMD_ptr t)" by (simp_all add: layout_def)
  have g: "?g < 4" and u: "?u < 512" using index_bounds assms(2) by simp_all
  have "aligned (PUD_cell t ?g 0)"
    using aligned_add [OF al(1), of "1 + ?g"] by (simp add: PUD_cell_def algebra_simps)
  from clr_flags [OF this flags_low(1)] l(2) g
  have 1: "vm_words s (table_address t + 8 * ?g) AND clr_offset4 = PUD_cell t ?g 0"
    by (simp add: linked_def PGD_cell_def)
  have "aligned (PMD_cell t (?g * 512 + ?u) 0)"
    using aligned_add [OF al(2), of "?g * 512 + ?u"] by (simp add: PMD_cell_def)
  from clr_flags [OF this flags_low(1)] l(2) g u
  have 2: "vm_words s (PUD_cell t ?g 0 + 8 * ?u) AND clr_offset4 = PMD_cell t (?g * 512 + ?u) 0"
    by (simp add: linked_def PUD_cell_def)
  have i: "drop_bit 39 va AND 0x1FF = ?g" "drop_bit 30 va AND 0x1FF = ?u"
    "drop_bit 21 va AND 0x1FF = pmd_index va" "drop_bit 12 va AND 0x1FF = pte_index va"
    using pgd_index_mask [OF assms(2), unfolded mask9 [symmetric]]
    by (simp_all only: pgd_index_def pud_index_def pmd_index_def pte_index_def)
  show ?thesis
    by (simp add: v2p_def Let_def mask_index i 1 2 pte_cell_of_def pmd_cell_of_def PMD_cell_def
        PAGE_TABLE_UNIT_SIZE_def)
qed

lemma v2p2m_walk:
  assumes "linked t words" and "aligned (table_address t)" and "aligned (PMD_ptr t)" and "va < 2 ^ 41"
  shows "v2p2m words va (table_address t) = (words (pmd_cell_of t va) AND clr_offset4) + (set_offset AND va)"
proof -
  let ?g = "pgd_index va" and ?u = "pud_index va"
  have g: "?g < 4" and u: "?u < 512" using index_bounds assms(4) by simp_all
  have "aligned (PUD_cell t ?g 0)"
    using aligned_add [OF assms(2), of "1 + ?g"] by (simp add: PUD_cell_def algebra_simps)
  from clr_flags [OF this flags_low(1)] assms(1) g
  have 1: "words (table_address t + 8 * ?g) AND clr_offset4 = PUD_cell t ?g 0"
    by (simp add: linked_def PGD_cell_def)
  have "aligned (PMD_cell t (?g * 512 + ?u) 0)"
    using aligned_add [OF assms(3), of "?g * 512 + ?u"] by (simp add: PMD_cell_def)
  from clr_flags [OF this flags_low(1)] assms(1) g u
  have 2: "words (PUD_cell t ?g 0 + 8 * ?u) AND clr_offset4 = PMD_cell t (?g * 512 + ?u) 0"
    by (simp add: linked_def PUD_cell_def)
  have i: "drop_bit 39 va AND 0x1FF = ?g" "drop_bit 30 va AND 0x1FF = ?u"
    "drop_bit 21 va AND 0x1FF = pmd_index va"
    using pgd_index_mask [OF assms(4), unfolded mask9 [symmetric]]
    by (simp_all only: pgd_index_def pud_index_def pmd_index_def)
  show ?thesis unfolding v2p2m_def Let_def mask_index i clr_offset4_def [symmetric] 1 2
    by (simp add: pmd_cell_of_def PMD_cell_def PAGE_TABLE_UNIT_SIZE_def)
qed

text \<open>A page is mapped when its third-level entry points to a table of the pool.\<close>

definition mapped :: "MemoryPageTable \<Rightarrow> vm_state \<Rightarrow> u64 \<Rightarrow> bool" where
  "mapped t s va \<longleftrightarrow> (\<exists>b. points_to t s (pmd_cell_of t va) b)"

lemma pte_cell_of_block:
  assumes "layout t (vm_l4 s)" and "points_to t s (pmd_cell_of t va) b"
  shows "pte_cell_of t va s = block (vm_l4 s) b + 8 * pte_index va"
proof -
  have "aligned (block (vm_l4 s) b)" using assms(1) by (simp add: layout_def block_def aligned_add)
  from clr_flags [OF this flags_low(1)] assms(2) show ?thesis
    by (simp add: points_to_def pte_cell_of_def)
qed

text \<open>A store into a table of the pool leaves the invariant, and every entry of the upper levels,
  as they are.\<close>

lemma store_in_pool:
  fixes v :: u64
  assumes "pt_inv t s" and "0 \<le> b" and "b < pool_size (vm_l4 s)" and "j < 512"
  defines "s' \<equiv> vm_set_word (block (vm_l4 s) b + 8 * j) v s"
  shows "pt_inv t s'" and "\<And>c. c \<in> pmd_cells t \<Longrightarrow> vm_words s' c = vm_words s c"
proof -
  let ?a = "block (vm_l4 s) b + 8 * j"
  have lay: "layout t (vm_l4 s)" using assms(1) by (simp add: pt_inv_def)
  have a: "?a \<in> page_region (PTE_ptr (vm_l4 s)) (4096 * word_of_int (pool_size (vm_l4 s)))"
    using lay assms(2-4) by (intro block_cell_region) (simp_all add: layout_def)
  have notA: "c \<noteq> ?a" if "c \<in> page_region (table_address t) 20480 \<or> c \<in> page_region (PMD_ptr t) 8388608" for c
    using lay a that by (auto simp: layout_def Let_def)
  have "linked t (vm_words s') = linked t (vm_words s)"
    by (rule linked_cong) (use notA in \<open>auto simp: s'_def vm_set_word_def\<close>)
  moreover
  show C: "vm_words s' c = vm_words s c" if "c \<in> pmd_cells t" for c
    using notA [of c] pmd_cells_region [OF that] by (auto simp: s'_def vm_set_word_def)
  moreover have same: "vm_l4 s' = vm_l4 s" "vm_mem s' = vm_mem s" by (simp_all add: s'_def vm_set_word_def)
  ultimately show "pt_inv t s'" using assms(1)
    by (simp add: pt_inv_def entry_ok_def points_to_def same)
qed


lemma block_entry:
  assumes "layout t l4"
  shows "\<not> bit (block l4 b OR table_flags) 7" and "block l4 b OR table_flags \<noteq> ENTRY_UNMAPPED"
    and "0 \<le> b \<Longrightarrow> b < pool_size l4 \<Longrightarrow> 0 \<le> b' \<Longrightarrow> b' < pool_size l4 \<Longrightarrow>
      block l4 b OR table_flags = block l4 b' OR table_flags \<Longrightarrow> b = b'"
proof -
  have al: "aligned (block l4 k)" for k using assms by (simp add: layout_def block_def aligned_add)
  have "\<not> bit (block l4 b) 7"
    using aligned_bit [OF al, of b 7] by auto
  then show n: "\<not> bit (block l4 b OR table_flags) 7" by (simp add: table_flags_def bit_simps)
  have "bit ENTRY_UNMAPPED 7" by (simp add: ENTRY_UNMAPPED_def)
  with n show "block l4 b OR table_flags \<noteq> ENTRY_UNMAPPED" by metis
  assume b: "0 \<le> b" "b < pool_size l4" "0 \<le> b'" "b' < pool_size l4"
    and eq: "block l4 b OR table_flags = block l4 b' OR table_flags"
  have "block l4 b = block l4 b'"
    by (metis clr_flags [OF al flags_low(1)] eq)
  then have e: "block l4 b + 8 * 0 = block l4 b' + 8 * 0" by simp
  have p: "pool_size l4 < 2 ^ 31" using assms by (simp add: layout_def)
  have "b < 2 ^ 31" "b' < 2 ^ 31" using b(2,4) p by (blast intro: order_less_trans)+
  from block_cell_inj [OF b(1) this(1) _ b(3) this(2) _ e] show "b = b'" by simp
qed

lemma allocate_block_spec:
  assumes "pool_size l4 < 2 ^ 31"
  shows "AllocateVirtualMemoryBlock l4 mem =
    (case find (GetBit (bit_map l4) mem) [0..pool_size l4 - 1] of
       None \<Rightarrow> (- 1, mem)
     | Some b \<Rightarrow> (block l4 b, ClearBit (bit_map l4) mem b))"
proof -
  define n where "n = unat (numBlocks l4 div 8)"
  have p: "pool_size l4 = 8 * int n" unfolding pool_size_def n_def ..
  with assms have "8 * (0 + n) < 2 ^ 31" by simp
  from alloc_block_loop_spec [OF this, of l4 mem] show ?thesis
    unfolding AllocateVirtualMemoryBlock_def n_def [symmetric] p block_def by simp
qed

lemma take_block:
  assumes inv: "pt_inv t s" and c: "c \<in> pmd_cells t"
    and b: "0 \<le> b" "b < pool_size (vm_l4 s)" "GetBit (bit_map (vm_l4 s)) (vm_mem s) b"
  defines "s' \<equiv> vm_set_word c (block (vm_l4 s) b OR table_flags)
    (s\<lparr>vm_mem := ClearBit (bit_map (vm_l4 s)) (vm_mem s) b\<rparr>)"
  shows "pt_inv t s'" and "points_to t s' c b"
proof -
  let ?l = "vm_l4 s"
  have lay: "layout t ?l" using inv by (simp add: pt_inv_def)
  then have pool: "pool_size ?l < 2 ^ 31" by (simp add: layout_def)
  have same: "vm_l4 s' = ?l" by (simp add: s'_def vm_set_word_def)
  show pt: "points_to t s' c b" using b by (simp add: points_to_def s'_def vm_set_word_def)
  have w: "vm_words s' a = vm_words s a" if "a \<noteq> c" for a using that by (simp add: s'_def vm_set_word_def)
  have "c \<notin> page_region (table_address t) 20480"
    using lay pmd_cells_region [OF c] by (auto simp: layout_def Let_def)
  then have w_linked: "linked t (vm_words s') = linked t (vm_words s)"
    using linked_cong [of t "vm_words s'" "vm_words s"] w by metis
  then have "linked t (vm_words s')"
    using inv w_linked by (simp add: pt_inv_def)
  moreover have get: "GetBit (bit_map ?l) (vm_mem s') k \<longleftrightarrow> k \<noteq> b \<and> GetBit (bit_map ?l) (vm_mem s) k"
    if "0 \<le> k" "k < pool_size ?l" for k
    using that b pool frames.get_clear1 [of b k "bit_map ?l" "vm_mem s"]
    by (auto simp: s'_def vm_set_word_def valid_bit_def)
  then have "entry_ok t s' (vm_words s' d)" if "d \<in> pmd_cells t" for d
  proof (cases "d = c")
    case True
    with pt b get show ?thesis by (auto simp: entry_ok_def points_to_def same)
  next
    case False
    from inv that have "entry_ok t s (vm_words s d)" by (simp add: pt_inv_def)
    with get show ?thesis unfolding entry_ok_def same w [OF False] by blast
  qed
  moreover have old: "k \<noteq> b" if "d \<in> pmd_cells t" "points_to t s d k" for d k
  proof
    assume "k = b"
    with that(2) have e: "vm_words s d = block ?l b OR table_flags" by (simp add: points_to_def)
    moreover have "entry_ok t s (vm_words s d)" using inv that(1) by (simp add: pt_inv_def)
    ultimately obtain b' where "0 \<le> b'" "b' < pool_size ?l" "\<not> GetBit (bit_map ?l) (vm_mem s) b'"
      "block ?l b OR table_flags = block ?l b' OR table_flags"
      using block_entry(1,2) [OF lay, of b] by (auto simp: entry_ok_def)
    with block_entry(3) [OF lay b(1,2)] b(3) show False by blast
  qed
  have new: "k = b" if "points_to t s' c k" for k
  proof -
    from that pt have "0 \<le> k" "k < pool_size ?l" "block ?l b OR table_flags = block ?l k OR table_flags"
      unfolding points_to_def same by metis+
    with block_entry(3) [OF lay b(1,2)] show ?thesis by metis
  qed
  have keep: "points_to t s' d k = points_to t s d k" if "d \<noteq> c" for d k
    unfolding points_to_def same w [OF that] ..
  have "d = d'" if "d \<in> pmd_cells t" "d' \<in> pmd_cells t" "points_to t s' d k" "points_to t s' d' k" for d d' k
  proof (cases "d = c \<or> d' = c")
    case True
    with that new old keep show ?thesis by metis
  next
    case False
    with that keep inv show ?thesis unfolding pt_inv_def by metis
  qed
  ultimately show "pt_inv t s'" using lay by (auto simp: pt_inv_def same)
qed


lemma ensure_pte_spec:
  assumes inv: "pt_inv t s" and va: "va < 2 ^ 41"
    and e: "vm_words s (pmd_cell_of t va) \<noteq> ENTRY_UNMAPPED \<longrightarrow> \<not> bit (vm_words s (pmd_cell_of t va)) 7"
    and free: "vm_words s (pmd_cell_of t va) = ENTRY_UNMAPPED \<longrightarrow>
      (\<exists>b. 0 \<le> b \<and> b < pool_size (vm_l4 s) \<and> GetBit (bit_map (vm_l4 s)) (vm_mem s) b)"
  shows "pt_inv t (ensure_pte t va s)" and "mapped t (ensure_pte t va s) va"
    and "vm_l4 (ensure_pte t va s) = vm_l4 s"
    and "a \<noteq> pmd_cell_of t va \<Longrightarrow> vm_words (ensure_pte t va s) a = vm_words s a"
    and "mapped t s va \<Longrightarrow> ensure_pte t va s = s"
proof -
  let ?c = "pmd_cell_of t va" and ?l = "vm_l4 s"
  have lay: "layout t ?l" using inv by (simp add: pt_inv_def)
  have c: "?c \<in> pmd_cells t" by (rule pmd_cell_of_in [OF va])
  have "pt_inv t (ensure_pte t va s) \<and> mapped t (ensure_pte t va s) va \<and>
    vm_l4 (ensure_pte t va s) = vm_l4 s \<and>
    (a \<noteq> ?c \<longrightarrow> vm_words (ensure_pte t va s) a = vm_words s a)"
  proof (cases "vm_words s ?c = ENTRY_UNMAPPED")
    case True
    from lay have "pool_size ?l < 2 ^ 31" by (simp add: layout_def)
    note alloc = allocate_block_spec [OF this, of "vm_mem s"]
    from free True have "find (GetBit (bit_map ?l) (vm_mem s)) [0..pool_size ?l - 1] \<noteq> None"
      by (auto simp: find_None_iff)
    then obtain b where f: "find (GetBit (bit_map ?l) (vm_mem s)) [0..pool_size ?l - 1] = Some b" by auto
    then have b: "0 \<le> b" "b < pool_size ?l" "GetBit (bit_map ?l) (vm_mem s) b"
      by (auto simp: find_Some_iff)
    note tb = take_block [OF inv c b]
    have "ensure_pte t va s = vm_set_word ?c (block ?l b OR table_flags)
        (s\<lparr>vm_mem := ClearBit (bit_map ?l) (vm_mem s) b\<rparr>)"
      using True alloc f by (simp add: ensure_pte_def)
    with tb show ?thesis by (auto simp: mapped_def vm_set_word_def)
  next
    case False
    have "entry_ok t s (vm_words s ?c)" using inv c by (simp add: pt_inv_def)
    with False e have "mapped t s va" by (auto simp: entry_ok_def mapped_def points_to_def)
    with False inv show ?thesis by (simp add: ensure_pte_def)
  qed
  then show "pt_inv t (ensure_pte t va s)" "mapped t (ensure_pte t va s) va"
    "vm_l4 (ensure_pte t va s) = vm_l4 s"
    "a \<noteq> ?c \<Longrightarrow> vm_words (ensure_pte t va s) a = vm_words s a" by blast+
  show "ensure_pte t va s = s" if "mapped t s va"
  proof -
    from that have "vm_words s ?c \<noteq> ENTRY_UNMAPPED"
      unfolding mapped_def points_to_def using block_entry(2) [OF lay] by metis
    then show ?thesis by (simp add: ensure_pte_def)
  qed
qed

text \<open>Linking one page: the walk returns it, and every other mapped page translates as before.\<close>

lemma pmd_cell_of_inj:
  assumes "va < 2 ^ 41" and "va' < 2 ^ 41" and "pmd_cell_of t va = pmd_cell_of t va'"
  shows "pgd_index va = pgd_index va' \<and> pud_index va = pud_index va' \<and> pmd_index va = pmd_index va'"
proof -
  have row: "unat (pgd_index v * 512 + pud_index v) = unat (pgd_index v) * 512 + unat (pud_index v) \<and>
      pgd_index v * 512 + pud_index v < 2048 \<and> unat (pud_index v) < 512" if "v < 2 ^ 41" for v
  proof -
    have "unat (pgd_index v) < 4" "unat (pud_index v) < 512"
      using index_bounds(1) index_bounds(4) [OF that] by (simp_all add: word_less_nat_alt)
    then show ?thesis by (simp add: unat_word_ariths word_less_nat_alt)
  qed
  from PMD_cell_inj [of "pgd_index va * 512 + pud_index va" "pgd_index va' * 512 + pud_index va'"
      "pmd_index va" "pmd_index va'" t] row [OF assms(1)] row [OF assms(2)] assms(3) index_bounds(2)
  have eq: "pgd_index va * 512 + pud_index va = pgd_index va' * 512 + pud_index va'"
    and p: "pmd_index va = pmd_index va'"
    by (simp_all add: pmd_cell_of_def PAGE_TABLE_UNIT_SIZE_def)
  have "4096 * unat (pgd_index va) + 8 * unat (pud_index va) =
      4096 * unat (pgd_index va') + 8 * unat (pud_index va')"
    using row [OF assms(1)] row [OF assms(2)] arg_cong [OF eq, of unat] by simp
  from table_offset_inj [OF this] row [OF assms(1)] row [OF assms(2)] p
  show ?thesis by (simp add: word_unat_eq_iff)
qed

lemma link_page:
  fixes pa :: u64
  assumes inv: "pt_inv t s" and va: "va < 2 ^ 41"
    and e: "vm_words s (pmd_cell_of t va) \<noteq> ENTRY_UNMAPPED \<longrightarrow> \<not> bit (vm_words s (pmd_cell_of t va)) 7"
    and free: "vm_words s (pmd_cell_of t va) = ENTRY_UNMAPPED \<longrightarrow>
      (\<exists>b. 0 \<le> b \<and> b < pool_size (vm_l4 s) \<and> GetBit (bit_map (vm_l4 s)) (vm_mem s) b)"
  defines "s' \<equiv> snd (LinkFourthStageToFramePhysical t va pa s)"
  shows "pt_inv t s'" and "mapped t s' va"
    and "v2p (vm_words s') va (table_address t) = pa OR page_flags"
    and "va' < 2 ^ 41 \<Longrightarrow> mapped t s va' \<Longrightarrow> drop_bit 12 va' \<noteq> drop_bit 12 va \<Longrightarrow>
      mapped t s' va' \<and> v2p (vm_words s') va' (table_address t) = v2p (vm_words s) va' (table_address t)"
    and "vm_mem s' = vm_mem (ensure_pte t va s)" and "vm_l4 s' = vm_l4 s"
    and "c \<in> pmd_cells t \<Longrightarrow> c \<noteq> pmd_cell_of t va \<Longrightarrow> vm_words s' c = vm_words s c"
proof -
  let ?s = "ensure_pte t va s" and ?l = "vm_l4 s"
  note en = ensure_pte_spec [OF inv va e free]
  from en(2) obtain b where p: "points_to t ?s (pmd_cell_of t va) b" by (auto simp: mapped_def)
  then have b: "0 \<le> b" "b < pool_size (vm_l4 ?s)" by (simp_all add: points_to_def)
  have lay: "layout t (vm_l4 ?s)" using en(1) by (simp add: pt_inv_def)
  note cell = pte_cell_of_block [OF lay p]
  have s': "s' = vm_set_word (block (vm_l4 ?s) b + 8 * pte_index va) (pa OR page_flags) ?s"
    by (simp add: s'_def LinkFourthStageToFramePhysical_def Let_def cell)
  note st = store_in_pool [OF en(1) b index_bounds(3) [of va], where v = "pa OR page_flags", folded s']
  show l4: "vm_l4 s' = ?l" "vm_mem s' = vm_mem ?s" using en(3) by (simp_all add: s' vm_set_word_def)
  show "pt_inv t s'" by (rule st(1))
  show "c \<in> pmd_cells t \<Longrightarrow> c \<noteq> pmd_cell_of t va \<Longrightarrow> vm_words s' c = vm_words s c"
    using st(2) en(4) by simp
  have pts: "points_to t s' c k = points_to t ?s c k" if "c \<in> pmd_cells t" for c k
    using st(2) [OF that] l4(1) en(3) by (simp add: points_to_def)
  show "mapped t s' va" using p pts [OF pmd_cell_of_in [OF va]] by (auto simp: mapped_def)
  have walk: "v2p (vm_words s') va2 (table_address t) = vm_words s' (block ?l k + 8 * pte_index va2)"
    if "va2 < 2 ^ 41" "points_to t ?s (pmd_cell_of t va2) k" for va2 k
    using that v2p_walk [OF st(1) that(1)] pts [OF pmd_cell_of_in [OF that(1)]] st(1) l4(1)
      pte_cell_of_block [of t s' va2 k] by (simp add: pt_inv_def)
  show "v2p (vm_words s') va (table_address t) = pa OR page_flags"
    using walk [OF va p] en(3) by (simp add: s' vm_set_word_def)
  assume va': "va' < 2 ^ 41" and m: "mapped t s va'" and ne: "drop_bit 12 va' \<noteq> drop_bit 12 va"
  from m obtain k where k: "points_to t s (pmd_cell_of t va') k" by (auto simp: mapped_def)
  have same: "vm_words ?s (pmd_cell_of t va') = vm_words s (pmd_cell_of t va')"
    using en(4) [of "pmd_cell_of t va'"] en(5) m by (cases "pmd_cell_of t va' = pmd_cell_of t va") (auto simp: mapped_def)
  then have k': "points_to t ?s (pmd_cell_of t va') k" using k en(3) by (simp add: points_to_def)
  have m': "mapped t s' va'" using k' pts [OF pmd_cell_of_in [OF va']] by (auto simp: mapped_def)
  have kb: "0 \<le> k" "k < 2 ^ 31" "b < 2 ^ 31" "k < pool_size ?l"
    using k b en(3) lay by (auto simp: points_to_def layout_def)
  have neq: "block ?l k + 8 * pte_index va' \<noteq> block ?l b + 8 * pte_index va"
  proof
    assume "block ?l k + 8 * pte_index va' = block ?l b + 8 * pte_index va"
    from block_cell_inj [OF kb(1,2) index_bounds(3) b(1) kb(3) index_bounds(3) this]
    have kb': "k = b" and pte: "pte_index va' = pte_index va" by simp_all
    from en(1) k' p pmd_cell_of_in [OF va] pmd_cell_of_in [OF va'] kb'
    have "pmd_cell_of t va' = pmd_cell_of t va" unfolding pt_inv_def by blast
    from pmd_cell_of_inj [OF va' va this] pte ne indices_determine_page [of va' va] show False by blast
  qed
  have "v2p (vm_words s') va' (table_address t) = vm_words ?s (block ?l k + 8 * pte_index va')"
    using walk [OF va' k'] neq en(3) by (simp add: s' vm_set_word_def)
  also have "\<dots> = vm_words s (block ?l k + 8 * pte_index va')"
  proof (rule en(4))
    have "block ?l k + 8 * pte_index va' \<in> page_region (PTE_ptr ?l) (4096 * word_of_int (pool_size ?l))"
      using lay en(3) kb index_bounds(3) by (intro block_cell_region) (auto simp: layout_def)
    with lay en(3) pmd_cells_region [OF pmd_cell_of_in [OF va], of t]
    show "block ?l k + 8 * pte_index va' \<noteq> pmd_cell_of t va" by (auto simp: layout_def Let_def)
  qed
  also have "\<dots> = v2p (vm_words s) va' (table_address t)"
    using v2p_walk [OF inv va'] pte_cell_of_block [OF _ k] inv by (simp add: pt_inv_def)
  finally show "mapped t s' va' \<and>
    v2p (vm_words s') va' (table_address t) = v2p (vm_words s) va' (table_address t)" using m' by blast
qed


section \<open>The identity map of the kernel\<close>

definition kva :: "nat \<Rightarrow> u64" where
  "kva k = of_nat (k * 4096)"

lemma kva_facts:
  assumes "k < 192000"
  shows "kva k < 2 ^ 41" and "drop_bit 21 (kva k) = of_nat (k div 512)" and "drop_bit 12 (kva k) = of_nat k"
    and "int_to_u64 (int k * FOUR_KiB_MEMORY_PAGE_SIZE) = kva k"
proof -
  have u: "unat (kva k) = k * 4096" unfolding kva_def using assms by (simp only: unat_of_nat) simp
  then show "kva k < 2 ^ 41" using assms by (simp add: word_less_nat_alt)
  have n: "unat (of_nat (k div 512) :: u64) = k div 512" "unat (of_nat k :: u64) = k"
    using assms by (simp_all only: unat_of_nat) simp_all
  have "unat (drop_bit 21 (kva k)) = k div 512" "unat (drop_bit 12 (kva k)) = k"
    by (simp_all add: drop_bit_eq_div unat_div u)
  with n show "drop_bit 21 (kva k) = of_nat (k div 512)" "drop_bit 12 (kva k) = of_nat k"
    by (simp_all only: word_unat_eq_iff)
  have "int k * 4096 < 2 ^ 31" using assms by simp
  then have "int_to_u64 (int k * 4096) = word_of_int (int k * 4096)"
    by (intro int_to_u64_nonneg(1)) simp_all
  then show "int_to_u64 (int k * FOUR_KiB_MEMORY_PAGE_SIZE) = kva k"
    by (simp add: pm_constants kva_def)
qed

lemma region_cell: "drop_bit 21 va = drop_bit 21 va' \<Longrightarrow> pmd_cell_of t va = pmd_cell_of t va'"
proof -
  assume eq: "drop_bit 21 va = drop_bit 21 va'"
  have "drop_bit 30 w = drop_bit 9 (drop_bit 21 w)" "drop_bit 39 w = drop_bit 18 (drop_bit 21 w)" for w :: u64
    by (simp_all add: drop_bit_drop_bit)
  with eq have "drop_bit 30 va = drop_bit 30 va'" "drop_bit 39 va = drop_bit 39 va'" by metis+
  with eq show ?thesis by (simp add: pmd_cell_of_def pgd_index_def pud_index_def pmd_index_def)
qed

lemma region_cell_inj:
  assumes "va < 2 ^ 41" and "va' < 2 ^ 41" and "pmd_cell_of t va = pmd_cell_of t va'"
  shows "drop_bit 21 va = drop_bit 21 va'"
proof -
  note i = pmd_cell_of_inj [OF assms]
  let ?a = "push_bit 21 (drop_bit 21 va)" and ?b = "push_bit 21 (drop_bit 21 va')"
  have d: "drop_bit n (push_bit 21 (drop_bit 21 w)) = drop_bit n w" if "21 \<le> n" for n and w :: u64
    by (rule bit_word_eqI) (use that in \<open>auto simp: bit_simps dest: bit_imp_le_length\<close>)
  have z: "pte_index (push_bit 21 (drop_bit 21 w)) = 0" for w
    unfolding pte_index_def mask9 by (rule bit_word_eqI) (auto simp: bit_simps)
  have "drop_bit 12 ?a = drop_bit 12 ?b"
    by (rule indices_determine_page) (use i in \<open>simp_all add: z pgd_index_def pud_index_def pmd_index_def d\<close>)
  then have "drop_bit 9 (drop_bit 12 ?a) = drop_bit 9 (drop_bit 12 ?b)" by simp
  then show ?thesis by (simp add: drop_bit_drop_bit d)
qed

definition free_blocks :: "vm_state \<Rightarrow> int set" where
  "free_blocks s = {b \<in> {0..<pool_size (vm_l4 s)}. GetBit (bit_map (vm_l4 s)) (vm_mem s) b}"

lemma free_blocks_bits: "free_blocks s = frames.bits (bit_map (vm_l4 s)) (vm_mem s) {0..<pool_size (vm_l4 s)}"
  by (simp add: free_blocks_def frames.bits_def)

lemma ensure_pte_free_blocks:
  assumes "layout t (vm_l4 s)"
  shows "card (free_blocks s) \<le> Suc (card (free_blocks (ensure_pte t va s)))"
    and "vm_words s (pmd_cell_of t va) \<noteq> ENTRY_UNMAPPED \<Longrightarrow> free_blocks (ensure_pte t va s) = free_blocks s"
proof -
  let ?l = "vm_l4 s"
  show "free_blocks (ensure_pte t va s) = free_blocks s" if "vm_words s (pmd_cell_of t va) \<noteq> ENTRY_UNMAPPED"
    using that by (simp add: ensure_pte_def)
  from assms have p: "pool_size ?l < 2 ^ 31" by (simp add: layout_def)
  note alloc = allocate_block_spec [OF p, of "vm_mem s"]
  show "card (free_blocks s) \<le> Suc (card (free_blocks (ensure_pte t va s)))"
  proof (cases "find (GetBit (bit_map ?l) (vm_mem s)) [0..pool_size ?l - 1]")
    case None
    with alloc have "free_blocks (ensure_pte t va s) = free_blocks s"
      by (simp add: ensure_pte_def free_blocks_def vm_set_word_def)
    then show ?thesis by simp
  next
    case (Some b)
    then have b: "b \<in> {0..<pool_size ?l}" "GetBit (bit_map ?l) (vm_mem s) b" by (auto simp: find_Some_iff)
    have "free_blocks (ensure_pte t va s) = (if vm_words s (pmd_cell_of t va) = ENTRY_UNMAPPED
        then frames.bits (bit_map ?l) (ClearBit (bit_map ?l) (vm_mem s) b) {0..<pool_size ?l}
        else free_blocks s)"
      using alloc Some by (simp add: ensure_pte_def free_blocks_bits vm_set_word_def)
    moreover have "\<forall>j\<in>{0..<pool_size ?l}. valid_bit j" using p by (auto simp: valid_bit_def)
    ultimately show ?thesis
      using frames.card_bits_clear1 [of "{0..<pool_size ?l}" b "bit_map ?l" "vm_mem s"] b
      by (simp add: free_blocks_bits)
  qed
qed

text \<open>The state of the loop of \<open>MapKernelUsableMemory\<close> after \<open>k\<close> rounds.\<close>

definition kernel_mapped :: "MemoryPageTable \<Rightarrow> nat \<Rightarrow> nat \<Rightarrow> vm_state \<Rightarrow> bool" where
  "kernel_mapped t F k s \<longleftrightarrow> pt_inv t s \<and>
     (\<forall>i<k. mapped t s (kva i) \<and> v2p (vm_words s) (kva i) (table_address t) = kva i OR page_flags) \<and>
     (\<forall>i. k \<le> i \<and> i < 192000 \<and> i mod 512 = 0 \<longrightarrow> vm_words s (pmd_cell_of t (kva i)) = ENTRY_UNMAPPED) \<and>
     F \<le> card (free_blocks s) + (k + 511) div 512"

lemma pred_div_512: "k mod 512 \<noteq> 0 \<Longrightarrow> (k - 1) div 512 = k div (512 :: nat)"
  by (cases k) (simp_all add: div_Suc)

lemma blocks_left: "k mod 512 = 0 \<Longrightarrow> k < 192000 \<Longrightarrow> (k + 511) div 512 < (375 :: nat)"
  by (auto elim!: dvdE simp: mod_eq_0_iff_dvd)

lemma region_before: "k < i \<Longrightarrow> i mod 512 = 0 \<Longrightarrow> k div 512 < i div (512 :: nat)"
  by (auto elim!: dvdE simp: mod_eq_0_iff_dvd)

lemma rounds_used: "(Suc k + 511) div 512 = (k + 511) div 512 + (if k mod 512 = 0 then 1 else (0 :: nat))"
proof -
  have "(Suc k + 511) div 512 = Suc (k div 512)" by simp
  moreover have "(k + 511) div 512 = (if k mod 512 = 0 then k div 512 else Suc (k div 512))"
  proof (cases "k mod 512 = 0")
    case True
    then show ?thesis by (auto elim!: dvdE simp: mod_eq_0_iff_dvd)
  next
    case False
    then have "(k + 511) div 512 = (k - 1 + 512) div 512" by (cases k) simp_all
    with pred_div_512 [OF False] False show ?thesis by simp
  qed
  ultimately show ?thesis by simp
qed

lemma kernel_mapped_step:
  assumes st: "kernel_mapped t 375 k s" and k: "k < 192000"
  shows "kernel_mapped t 375 (Suc k) (snd (LinkFourthStageToFramePhysical t (kva k) (kva k) s))"
proof -
  let ?va = "kva k" and ?c = "pmd_cell_of t (kva k)"
  let ?s = "snd (LinkFourthStageToFramePhysical t ?va ?va s)"
  note kf = kva_facts [OF k]
  have inv: "pt_inv t s" using st by (simp add: kernel_mapped_def)
  then have lay: "layout t (vm_l4 s)" by (simp add: pt_inv_def)
  have um: "mapped t s ?va" if "k mod 512 \<noteq> 0"
  proof -
    from that have "(k - 1) div 512 = k div 512" by (rule pred_div_512)
    moreover have "k - 1 < k" using that by (cases k) simp_all
    ultimately have k1: "(k - 1) div 512 = k div 512" "k - 1 < k" "k - 1 < 192000" using k by simp_all
    have "pmd_cell_of t (kva (k - 1)) = ?c"
      using kva_facts(2) [OF k1(3)] kf(2) k1(1) by (intro region_cell) simp
    with st k1(2) show ?thesis unfolding kernel_mapped_def mapped_def by metis
  qed
  have pe: "vm_words s ?c \<noteq> ENTRY_UNMAPPED \<and> \<not> bit (vm_words s ?c) 7" if m: "mapped t s ?va"
  proof -
    from m obtain b where "vm_words s ?c = block (vm_l4 s) b OR table_flags"
      by (auto simp: mapped_def points_to_def)
    with block_entry(1,2) [OF lay, of b] show ?thesis by metis
  qed
  have e1: "vm_words s ?c = ENTRY_UNMAPPED \<longleftrightarrow> k mod 512 = 0"
    using um pe st k by (auto simp: kernel_mapped_def)
  then have e2: "vm_words s ?c \<noteq> ENTRY_UNMAPPED \<longrightarrow> \<not> bit (vm_words s ?c) 7" using um pe by blast
  have F: "375 \<le> card (free_blocks s) + (k + 511) div 512" using st by (simp add: kernel_mapped_def)
  have fr: "vm_words s ?c = ENTRY_UNMAPPED \<longrightarrow> 
      (\<exists>b. 0 \<le> b \<and> b < pool_size (vm_l4 s) \<and> GetBit (bit_map (vm_l4 s)) (vm_mem s) b)"
  proof
    assume "vm_words s ?c = ENTRY_UNMAPPED"
    then have "k mod 512 = 0" using e1 by simp
    then have "(k + 511) div 512 < 375" using k by (rule blocks_left)
    with F have "free_blocks s \<noteq> {}" by auto
    then show "\<exists>b. 0 \<le> b \<and> b < pool_size (vm_l4 s) \<and> GetBit (bit_map (vm_l4 s)) (vm_mem s) b"
      by (auto simp: free_blocks_def)
  qed
  note lp = link_page [OF inv kf(1) e2 fr, where pa = "kva k"]
  have old: "mapped t ?s (kva i) \<and> v2p (vm_words ?s) (kva i) (table_address t) = kva i OR page_flags"
    if "i < Suc k" for i
  proof (cases "i = k")
    case True
    with lp(2,3) show ?thesis by simp
  next
    case False
    with that have i: "i < k" "i < 192000" using k by simp_all
    have "unat (of_nat i :: u64) = i" "unat (of_nat k :: u64) = k"
      using i(2) k by (simp_all only: unat_of_nat) simp_all
    with False have "of_nat i \<noteq> (of_nat k :: u64)" by metis
    with lp(4) [of "kva i"] st i kva_facts(1,3) [OF i(2)] kf(3) show ?thesis
      by (simp add: kernel_mapped_def)
  qed
  have future: "vm_words ?s (pmd_cell_of t (kva i)) = ENTRY_UNMAPPED"
    if i: "Suc k \<le> i" "i < 192000" "i mod 512 = 0" for i
  proof -
    have "k div 512 < i div 512" using i(1,3) by (intro region_before) simp_all
    moreover have "unat (of_nat (i div 512) :: u64) = i div 512" "unat (of_nat (k div 512) :: u64) = k div 512"
      using i(2) k by (simp_all only: unat_of_nat) simp_all
    ultimately have "drop_bit 21 (kva i) \<noteq> drop_bit 21 ?va"
      using kva_facts(2) [OF i(2)] kf(2) by (metis less_irrefl)
    then have "pmd_cell_of t (kva i) \<noteq> ?c" using region_cell_inj [OF kva_facts(1) [OF i(2)] kf(1)] by blast
    from lp(7) [OF pmd_cell_of_in [OF kva_facts(1) [OF i(2)]] this] st i show ?thesis
      by (simp add: kernel_mapped_def)
  qed
  have "free_blocks ?s = free_blocks (ensure_pte t ?va s)"
    using lp(5,6) ensure_pte_spec(3) [OF inv kf(1) e2 fr] by (simp add: free_blocks_def)
  then have "375 \<le> card (free_blocks ?s) + (Suc k + 511) div 512"
    using F ensure_pte_free_blocks [OF lay, of ?va] e1 rounds_used [of k] by (cases "k mod 512 = 0") auto
  with lp(1) old future show ?thesis by (auto simp: kernel_mapped_def)
qed

lemma kernel_mapped_run:
  assumes "kernel_mapped t 375 0 s" and "n \<le> 192000"
  shows "kernel_mapped t 375 n (fold (\<lambda>i s. snd (LinkFourthStageToFramePhysical t
      (int_to_u64 (int i * FOUR_KiB_MEMORY_PAGE_SIZE)) (int_to_u64 (int i * FOUR_KiB_MEMORY_PAGE_SIZE)) s))
      [0..<n] s)"
  using assms(2)
proof (induction n)
  case 0
  then show ?case using assms(1) by simp
next
  case (Suc n)
  then have "n < 192000" by simp
  from kernel_mapped_step [OF _ this] kva_facts(4) [OF this] Suc show ?case by simp
qed

section \<open>The first three levels\<close>

definition gig :: "nat \<Rightarrow> u64" where
  "gig k = of_nat k * ONE_GIG_VALUE"

lemma gig_index:
  assumes "k < 2048"
  shows "pgd_index (gig k) = of_nat (k div 512)" and "pud_index (gig k) = of_nat (k mod 512)"
proof -
  have u: "unat (gig k) = k * 2 ^ 30"
    using assms by (simp add: gig_def ONE_GIG_VALUE_def unat_word_ariths unat_of_nat)
  have "k * 2 ^ 30 div 2 ^ 39 = k div (512 :: nat)"
    using div_mult_mult1 [of "2 ^ 30" k 512] by (simp add: mult.commute)
  moreover have "k div 512 < 2 ^ 64" using assms by simp
  ultimately show "pgd_index (gig k) = of_nat (k div 512)"
    by (simp add: pgd_index_def word_unat_eq_iff drop_bit_eq_div unat_div u unat_of_nat)
  have "k mod 512 < 2 ^ 64" using assms by simp
  then show "pud_index (gig k) = of_nat (k mod 512)"
    by (simp add: pud_index_def word_unat_eq_iff mask9 unat_and_mask drop_bit_eq_div unat_div u unat_of_nat)
qed

lemma first_cell_offset:
  assumes "k < 2048"
  shows "unat (PGD_cell t (of_nat (k div 512)) - table_address t) = 8 * (k div 512)"
    and "unat (PUD_cell t (of_nat (k div 512)) (of_nat (k mod 512)) - table_address t) = 4096 + 8 * k"
proof -
  have "k div 512 < 4" using assms by simp
  then show "unat (PGD_cell t (of_nat (k div 512)) - table_address t) = 8 * (k div 512)"
    by (simp add: PGD_cell_def unat_word_ariths unat_of_nat)
  have r: "unat (4096 + 4096 * of_nat a + 8 * of_nat b :: u64) = 4096 + 4096 * a + 8 * b"
    if "a < 4" "b < 512" for a b
    using that by (simp add: unat_word_ariths unat_of_nat)
  have "4096 * x + 8 * y = 8 * (512 * x + y)" for x y :: nat by simp
  from this [of "k div 512" "k mod 512"]
  have "4096 * (k div 512) + 8 * (k mod 512) = 8 * k" by (simp only: mult_div_mod_eq)
  moreover have "PUD_cell t a b - table_address t = 4096 + 4096 * a + 8 * b" for a b
    by (simp add: PUD_cell_def)
  ultimately show "unat (PUD_cell t (of_nat (k div 512)) (of_nat (k mod 512)) - table_address t) = 4096 + 8 * k"
    using r [OF \<open>k div 512 < 4\<close>, of "k mod 512"] by simp
qed

text \<open>The tables after the first \<open>n\<close> rounds of the loop of \<open>BspLinkFirst3Levels\<close>.\<close>

definition gigs_linked :: "MemoryPageTable \<Rightarrow> vm_state \<Rightarrow> nat \<Rightarrow> MemoryPageTable \<Rightarrow> vm_state \<Rightarrow> bool" where
  "gigs_linked t s n t' s' \<longleftrightarrow> table_address t' = table_address t \<and> PMD_ptr t' = PMD_ptr t \<and>
     vm_mem s' = vm_mem s \<and> vm_l4 s' = vm_l4 s \<and> vm_pm s' = vm_pm s \<and>
     (\<forall>a. a \<notin> page_region (table_address t) 20480 \<longrightarrow> vm_words s' a = vm_words s a) \<and>
     (\<forall>k<n. vm_words s' (PGD_cell t (of_nat (k div 512))) = PUD_cell t (of_nat (k div 512)) 0 OR table_flags \<and>
        vm_words s' (PUD_cell t (of_nat (k div 512)) (of_nat (k mod 512))) = PMD_cell t (of_nat k) 0 OR table_flags)"

lemma gigs_linked_step:
  assumes st: "gigs_linked t s n t' s'" and n: "n < 2048"
  shows "case link_gig (gig n) (t', s') of (t'', s'') \<Rightarrow> gigs_linked t s (Suc n) t'' s''"
proof -
  let ?g = "\<lambda>k. of_nat (k div 512) :: u64" and ?u = "\<lambda>k. of_nat (k mod 512) :: u64"
  note ix = gig_index [OF n]
  have cells: "PGD_cell t' = PGD_cell t" "PUD_cell t' = PUD_cell t" "PMD_cell t' = PMD_cell t"
    using st by (simp_all add: gigs_linked_def PGD_cell_def PUD_cell_def PMD_cell_def fun_eq_iff)
  have d: "(of_nat (n div 512) * 512 + of_nat (n mod 512) :: u64) = of_nat n"
    by (metis div_mult_mod_eq of_nat_add of_nat_mult of_nat_numeral)
  have "?g n < 512" "?g n < 4" "?u n < 512" using n by (simp_all add: word_less_nat_alt unat_of_nat)
  then have out: "a \<noteq> PGD_cell t (?g n) \<and> a \<noteq> PUD_cell t (?g n) (?u n)"
    if "a \<notin> page_region (table_address t) 20480" for a
    using that cell_offsets(1) [of "?u n" "?g n" t] cell_offsets(2) [of "?u n" "?g n" t] by auto
  have ne: "PGD_cell t (?g k) \<noteq> PUD_cell t (?g m) (?u m)" if "k < 2048" "m < 2048" for k m
  proof
    assume "PGD_cell t (?g k) = PUD_cell t (?g m) (?u m)"
    with first_cell_offset [OF that(1), of t] first_cell_offset [OF that(2), of t]
    have "8 * (k div 512) = 4096 + 8 * m" by simp
    with that show False by simp
  qed
  have inj: "PUD_cell t (?g k) (?u k) \<noteq> PUD_cell t (?g n) (?u n)" if "k < n" for k
    using first_cell_offset(2) [of k t] first_cell_offset(2) [OF n, of t] that n by auto
  let ?w = "(vm_words s')(PGD_cell t (?g n) := PUD_cell t (?g n) 0 OR table_flags,
       PUD_cell t (?g n) (?u n) := PMD_cell t (of_nat n) 0 OR table_flags)"
  have "?w (PGD_cell t (?g k)) = PUD_cell t (?g k) 0 OR table_flags \<and>
      ?w (PUD_cell t (?g k) (?u k)) = PMD_cell t (of_nat k) 0 OR table_flags" if k: "k < Suc n" for k
  proof (cases "k = n")
    case True
    with ne [OF n n] show ?thesis by simp
  next
    case False
    with k have "k < n" by simp
    moreover have "k < 2048" using k n by simp
    moreover have "?g k = ?g n" if "PGD_cell t (?g k) = PGD_cell t (?g n)"
    proof -
      have "8 * (k div 512) = 8 * (n div 512)"
        unfolding first_cell_offset(1) [OF \<open>k < 2048\<close>, of t, symmetric] that first_cell_offset(1) [OF n] ..
      then have "k div 512 = n div 512" by (simp only: mult_cancel1) simp
      then show ?thesis by simp
    qed
    moreover have "vm_words s' (PGD_cell t (?g k)) = PUD_cell t (?g k) 0 OR table_flags"
      "vm_words s' (PUD_cell t (?g k) (?u k)) = PMD_cell t (of_nat k) 0 OR table_flags"
      using st \<open>k < n\<close> by (simp_all add: gigs_linked_def)
    ultimately show ?thesis using inj [of k] ne [of k n] ne [of n k] n
      by (simp only: fun_upd_apply) metis
  qed
  moreover have "\<forall>a. a \<notin> page_region (table_address t) 20480 \<longrightarrow> ?w a = vm_words s a"
    using st out by (simp add: gigs_linked_def)
  moreover have "vm_words (snd (link_gig (gig n) (t', s'))) = ?w"
    by (simp add: link_gig_def Let_def ix cells vm_set_word_def PAGE_TABLE_UNIT_SIZE_def d)
  ultimately show ?thesis using st unfolding gigs_linked_def
    by (simp add: link_gig_def Let_def vm_set_word_def)
qed
lemma gigs_linked_run:
  assumes "n \<le> 2048" and "table_address t' = table_address t" and "PMD_ptr t' = PMD_ptr t"
  shows "case fold link_gig (map gig [0..<n]) (t', s) of (t'', s'') \<Rightarrow> gigs_linked t s n t'' s''"
  using assms(1)
proof (induction n)
  case 0
  then show ?case using assms(2,3) by (simp add: gigs_linked_def)
next
  case (Suc n)
  then have "n < 2048" "n \<le> 2048" by simp_all
  with gigs_linked_step [of t s n] Suc.IH show ?case by (fastforce split: prod.splits)
qed

lemma first_levels_linked:
  "\<exists>t' s'. BspLinkFirst3Levels t s = Some (t', s') \<and> gigs_linked t s 2048 t' s'"
proof -
  let ?t = "t\<lparr>mapped_pages := 0, last_virtual_address := 0\<rparr>"
  have last: "unat last_available_vaddress = 2 ^ 41 - 4096"
    by (simp add: last_available_vaddress_def PGD_ENTRIES_LIMIT_def PAGE_TABLE_UNIT_SIZE_def)
  have u: "unat (gig k) = k * 2 ^ 30" if "k \<le> 2048" for k
    using that by (simp add: gig_def ONE_GIG_VALUE_def unat_word_ariths unat_of_nat)
  have "BspLinkFirst3Levels t s = Some (fold link_gig (map (\<lambda>k. 0 + of_nat k * ONE_GIG_VALUE) [0..<2048]) (?t, s))"
    unfolding BspLinkFirst3Levels_def
  proof (rule for_loop_steps)
    show "0 + of_nat k * ONE_GIG_VALUE \<le> last_available_vaddress" if "k < 2048" for k
      using u [of k] last that by (simp add: word_le_nat_alt gig_def)
    show "\<not> 0 + of_nat 2048 * ONE_GIG_VALUE \<le> last_available_vaddress"
      using u [of 2048] last by (simp add: word_le_nat_alt gig_def)
  qed
  moreover have "(\<lambda>k. 0 + of_nat k * ONE_GIG_VALUE) = gig" by (simp add: gig_def fun_eq_iff)
  ultimately show ?thesis using gigs_linked_run [of 2048 ?t t s] by (auto split: prod.splits)
qed

lemma gigs_linked_all: "gigs_linked t s 2048 t' s' \<Longrightarrow> linked t' (vm_words s')"
proof -
  assume l: "gigs_linked t s 2048 t' s'"
  then have cells: "PGD_cell t' = PGD_cell t" "PUD_cell t' = PUD_cell t" "PMD_cell t' = PMD_cell t"
    by (simp_all add: gigs_linked_def PGD_cell_def PUD_cell_def PMD_cell_def fun_eq_iff)
  have "vm_words s' (PGD_cell t g) = PUD_cell t g 0 OR table_flags \<and>
      vm_words s' (PUD_cell t g u) = PMD_cell t (g * 512 + u) 0 OR table_flags" if "g < 4" "u < 512" for g u
  proof -
    let ?k = "unat g * 512 + unat u"
    have gu: "unat g < 4" "unat u < 512" using that by (simp_all add: word_less_nat_alt)
    then have "?k < 2048" "?k div 512 = unat g" "?k mod 512 = unat u" by simp_all
    moreover have "(of_nat ?k :: u64) = g * 512 + u" by simp
    ultimately show ?thesis using l by (auto simp: gigs_linked_def dest!: spec [of _ ?k])
  qed
  from this [of _ 0] this show ?thesis by (simp add: linked_def cells)
qed

lemma fresh_tables:
  assumes lay: "layout t (vm_l4 s)"
  shows "\<exists>t' s'. BspLinkFirst3Levels t (clear_core_tables t s) = Some (t', s') \<and>
    table_address t' = table_address t \<and> vm_l4 s' = vm_l4 s \<and> vm_mem s' = vm_mem s \<and>
    pt_inv t' s' \<and> (\<forall>c\<in>pmd_cells t'. vm_words s' c = ENTRY_UNMAPPED)"
proof -
  obtain t' s' where b: "BspLinkFirst3Levels t (clear_core_tables t s) = Some (t', s')"
    and g: "gigs_linked t (clear_core_tables t s) 2048 t' s'"
    using first_levels_linked by blast
  have lay': "layout t' (vm_l4 s')"
    using lay g by (simp add: gigs_linked_def layout_def clear_core_tables_def fill_words_def Let_def)
  have cells: "pmd_cells t' = pmd_cells t"
    using g by (simp add: gigs_linked_def pmd_cells_def PMD_cell_def)
  have un: "vm_words s' c = ENTRY_UNMAPPED" if "c \<in> pmd_cells t'" for c
  proof -
    from that have "c \<in> page_region (PMD_ptr t) 8388608" using pmd_cells_region [of c t] by (simp add: cells)
    moreover from this lay have "c \<notin> page_region (table_address t) 20480" by (auto simp: layout_def Let_def)
    ultimately show ?thesis using g
      by (simp add: gigs_linked_def clear_core_tables_def fill_words_def Let_def page_region_def)
  qed
  have "\<not> points_to t' s' c b" if "c \<in> pmd_cells t'" for c b
    using un [OF that] block_entry(2) [OF lay', of b] by (auto simp: points_to_def)
  then have "pt_inv t' s'"
    using lay' gigs_linked_all [OF g] un by (auto simp: pt_inv_def entry_ok_def)
  moreover have "table_address t' = table_address t" "vm_l4 s' = vm_l4 s" "vm_mem s' = vm_mem s"
    using g by (simp_all add: gigs_linked_def clear_core_tables_def fill_words_def Let_def)
  ultimately show ?thesis using b un by blast
qed

lemma fresh_kernel_mapped:
  assumes "pt_inv t s" and "\<forall>i<192000. vm_words s (pmd_cell_of t (of_nat (i * 4096))) = ENTRY_UNMAPPED"
    and "375 \<le> card {b \<in> {0..<pool_size (vm_l4 s)}. GetBit (bit_map (vm_l4 s)) (vm_mem s) b}"
  shows "pt_inv t (MapKernelUsableMemory t s) \<and>
    (\<forall>a. a < 0x2EE00000 \<and> aligned a \<longrightarrow>
       v2p (vm_words (MapKernelUsableMemory t s)) a (table_address t) = a OR page_flags)"
proof -
  have "kernel_mapped t 375 0 s" using assms by (auto simp: kernel_mapped_def kva_def free_blocks_def)
  from kernel_mapped_run [OF this order_refl]
  have r: "kernel_mapped t 375 192000 (MapKernelUsableMemory t s)"
    by (simp add: MapKernelUsableMemory_def pm_constants signed_divide_int_def)
  moreover have "v2p (vm_words (MapKernelUsableMemory t s)) a (table_address t) = a OR page_flags"
    if "a < 0x2EE00000" "aligned a" for a
  proof -
    have "unat a div 4096 < 192000" "unat a div 4096 * 4096 = unat a"
      using that by (simp_all add: word_less_nat_alt aligned_unat less_mult_imp_div_less mod_eq_0_iff_dvd)
    moreover from this(2) have "kva (unat a div 4096) = a" by (simp add: kva_def)
    ultimately show ?thesis using r by (auto simp: kernel_mapped_def)
  qed
  ultimately show ?thesis by (simp add: kernel_mapped_def)
qed

section \<open>Properties\<close>

text \<open>C3: linking a page is the inverse of the walk. In tables that satisfy the invariant,
  \<open>LinkFourthStageToFramePhysical\<close> makes \<open>v2p\<close> of the address return the frame with its
  flags, keeps the invariant, and leaves the translation of every other mapped page as it was,
  whether the last-level table was there already or had to be taken from the pool.\<close>

theorem link_then_translate:
  assumes "pt_inv t s" and "va < 2 ^ 41"
    and "vm_words s (pmd_cell_of t va) \<noteq> ENTRY_UNMAPPED \<longrightarrow> \<not> bit (vm_words s (pmd_cell_of t va)) 7"
    and "vm_words s (pmd_cell_of t va) = ENTRY_UNMAPPED \<longrightarrow>
      (\<exists>b. 0 \<le> b \<and> b < pool_size (vm_l4 s) \<and> GetBit (bit_map (vm_l4 s)) (vm_mem s) b)"
  shows "\<exists>s'. LinkFourthStageToFramePhysical t va pa s = (True, s') \<and> pt_inv t s' \<and>
    v2p (vm_words s') va (table_address t) = pa OR page_flags \<and>
    (\<forall>va'. va' < 2 ^ 41 \<and> mapped t s va' \<and> drop_bit 12 va' \<noteq> drop_bit 12 va \<longrightarrow>
       mapped t s' va' \<and> v2p (vm_words s') va' (table_address t) = v2p (vm_words s) va' (table_address t))"
proof -
  have "LinkFourthStageToFramePhysical t va pa s = (True, snd (LinkFourthStageToFramePhysical t va pa s))"
    by (simp add: LinkFourthStageToFramePhysical_def Let_def)
  with link_page(1,3,4) [OF assms, where pa = pa] show ?thesis by blast
qed

text \<open>The pool hands out the first free block of its bitmap: the cascade of range tests of
  \<open>AllocateVirtualMemoryBlock\<close> computes the least block whose bit is set, clears that bit and
  returns the block's address; it fails exactly when no bit of the whole bytes of the bitmap is
  set.\<close>

theorem allocate_block_first_fit:
  assumes "pool_size l4 < 2 ^ 31"
  shows "AllocateVirtualMemoryBlock l4 mem =
    (case find (GetBit (bit_map l4) mem) [0..pool_size l4 - 1] of
       None \<Rightarrow> (- 1, mem)
     | Some b \<Rightarrow> (PTE_ptr l4 + 4096 * word_of_int b, ClearBit (bit_map l4) mem b))"
  by (rule allocate_block_spec [OF assms, unfolded block_def])

text \<open>\<open>DeallocateVirtualMemoryCollection\<close> stores the unmapped marker and then
  overwrites it with \<open>0xFFFFFFFFFFFFFFF0\<close>: the entry does not count as unmapped, and the next
  4 KiB link of an address of that collection stores into the last page of the address space
  instead of a table of the pool.\<close>

theorem unmapped_collection_is_not_unmapped:
  "vm_words (DeallocateVirtualMemoryCollection t va s) (pmd_cell_of t va) \<noteq> ENTRY_UNMAPPED \<and>
   pte_cell_of t va (ensure_pte t va (DeallocateVirtualMemoryCollection t va s)) =
     0xFFFFFFFFFFFFF000 + 8 * pte_index va"
  by (simp add: DeallocateVirtualMemoryCollection_def Let_def vm_set_word_def ENTRY_UNMAPPED_def
      pte_cell_of_def ensure_pte_def clr_offset4_def split: prod.splits)


text \<open>C8: building a core's tables maps the kernel's memory to itself. From cleared first two
  levels and a third level of unmapped markers, \<open>BspLinkFirst3Levels\<close> ends with tables that
  satisfy the invariant, and \<open>MapKernelUsableMemory\<close> then makes every page below 750 MiB
  translate to its own address with the flags and keeps the invariant. The three areas (the
  core's structure, its third level, the pool) are aligned and disjoint, and the pool has the 375
  free blocks that 750 MiB take.\<close>

theorem kernel_identity_map:
  assumes "layout t (vm_l4 s)"
    and "375 \<le> card {b \<in> {0..<pool_size (vm_l4 s)}. GetBit (bit_map (vm_l4 s)) (vm_mem s) b}"
  shows "\<exists>t' s'. BspLinkFirst3Levels t (clear_core_tables t s) = Some (t', s') \<and>
    table_address t' = table_address t \<and> pt_inv t' s' \<and> pt_inv t' (MapKernelUsableMemory t' s') \<and>
    (\<forall>a. a < 0x2EE00000 \<and> aligned a \<longrightarrow>
       v2p (vm_words (MapKernelUsableMemory t' s')) a (table_address t) = a OR page_flags)"
proof -
  obtain t' s' where b: "BspLinkFirst3Levels t (clear_core_tables t s) = Some (t', s')"
    and k: "table_address t' = table_address t" "vm_l4 s' = vm_l4 s" "vm_mem s' = vm_mem s"
    and inv: "pt_inv t' s'" and un: "\<forall>c\<in>pmd_cells t'. vm_words s' c = ENTRY_UNMAPPED"
    using fresh_tables [OF assms(1)] by blast
  have "\<forall>i<192000. vm_words s' (pmd_cell_of t' (of_nat (i * 4096))) = ENTRY_UNMAPPED"
    using un pmd_cell_of_in kva_facts(1) by (simp add: kva_def)
  from fresh_kernel_mapped [OF inv this] assms(2) b k inv show ?thesis by auto
qed

section \<open>Tables to try the properties on\<close>

definition demo_table :: MemoryPageTable where
  "demo_table = \<lparr>table_address = 0x10000000, PMD_ptr = 0x11000000, map_start_address = 0, map_size = 0,
     mapped_pages = 0, last_virtual_address = 0, start_address = 0, physical_address = 0\<rparr>"

definition demo_l4 :: Level_4 where
  "demo_l4 = \<lparr>numBlocks = 376, PTE_ptr = 0x12000000, bit_map = 0x13000000\<rparr>"

definition demo_words :: "u64 \<Rightarrow> u64" where
  "demo_words a = (let off = a - 0x10000000 in
     if off < 4096 then (0x10001000 + 4096 * (off div 8)) OR table_flags
     else if off < 20480 then (0x11000000 + 4096 * ((off - 4096) div 8)) OR table_flags
     else ENTRY_UNMAPPED)"

definition demo_vm :: vm_state where
  "demo_vm = \<lparr>vm_pm = demo_pm, vm_mem = (\<lambda>_. 0xFF), vm_words = demo_words, vm_l4 = demo_l4\<rparr>"

lemma page_region_disjoint:
  assumes "unat b + unat l \<le> unat b'" and "unat b' + unat l' < 2 ^ 64"
  shows "page_region b l \<inter> page_region b' l' = {}"
proof -
  have b: "a \<in> page_region c m \<Longrightarrow> unat c + unat m < 2 ^ 64 \<Longrightarrow> unat c \<le> unat a \<and> unat a < unat c + unat m"
    for a c m :: u64
  proof -
    assume a: "a \<in> page_region c m" and n: "unat c + unat m < 2 ^ 64"
    have s: "unat (c + m) = unat c + unat m" using n by (intro unat_add_no_wrap) simp
    then have "c \<le> c + m" by (simp add: word_le_nat_alt)
    from word_offset_less_iff [OF this, of a] a show ?thesis
      by (simp add: page_region_def word_le_nat_alt word_less_nat_alt s)
  qed
  show ?thesis using b [of _ b l] b [of _ b' l'] assms by fastforce
qed

lemma demo_layout: "layout demo_table demo_l4"
proof -
  have "pool_size demo_l4 = 376" by (simp add: pool_size_def demo_l4_def unat_div)
  then show ?thesis
    by (simp add: layout_def demo_table_def demo_l4_def aligned_unat Let_def page_region_disjoint)
qed

lemma demo_linked: "linked demo_table demo_words"
proof -
  have off: "(8 * x) div 8 = x" if "x < 2048" for x :: u64
  proof -
    have "unat (8 * x) = 8 * unat x" using that by (simp add: unat_word_ariths word_less_nat_alt)
    then show ?thesis by (simp add: word_unat_eq_iff unat_div)
  qed
  have "demo_words (PGD_cell demo_table g) = PUD_cell demo_table g 0 OR table_flags" if "g < 4" for g
  proof -
    have "8 * g < 4096" "g < 2048" using that by (simp_all add: word_less_nat_alt unat_word_ariths)
    then show ?thesis using off [of g] by (simp add: demo_words_def PGD_cell_def PUD_cell_def demo_table_def)
  qed
  moreover have "demo_words (PUD_cell demo_table g u) = PMD_cell demo_table (g * 512 + u) 0 OR table_flags"
    if "g < 4" "u < 512" for g u
  proof -
    have n: "unat (4096 + 4096 * g + 8 * u) = 4096 + 4096 * unat g + 8 * unat u" "unat g < 4" "unat u < 512"
      using that by (simp_all add: word_less_nat_alt unat_word_ariths)
    then have "\<not> 4096 + 4096 * g + 8 * u < 4096" "4096 + 4096 * g + 8 * u < 20480"
      by (simp_all add: word_less_nat_alt)
    moreover have "g * 512 + u < 2048" using n(2,3) by (simp add: word_less_nat_alt unat_word_ariths)
    moreover have "4096 + 4096 * g + 8 * u - 4096 = 8 * (g * 512 + u)" by (simp add: algebra_simps)
    ultimately show ?thesis using off [of "g * 512 + u"]
      by (simp add: demo_words_def PUD_cell_def PMD_cell_def demo_table_def add.assoc)
  qed
  ultimately show ?thesis by (simp add: linked_def)
qed


lemma demo_unmapped: "c \<in> pmd_cells demo_table \<Longrightarrow> demo_words c = ENTRY_UNMAPPED"
proof -
  assume "c \<in> pmd_cells demo_table"
  from pmd_cells_region [OF this] demo_layout have "c \<notin> page_region (table_address demo_table) 20480"
    by (auto simp: layout_def Let_def)
  then have "\<not> c - 0x10000000 < 20480" by (simp add: page_region_def demo_table_def)
  moreover from this have "\<not> c - 0x10000000 < 4096" by (auto simp: word_less_nat_alt)
  ultimately show ?thesis by (simp add: demo_words_def Let_def)
qed

lemma demo_pt_inv: "pt_inv demo_table demo_vm"
proof -
  have "\<not> points_to demo_table demo_vm c b" if "c \<in> pmd_cells demo_table" for c b
    using demo_unmapped [OF that] block_entry(2) [OF demo_layout, of b]
    by (auto simp: points_to_def demo_vm_def)
  then show ?thesis
    using demo_layout demo_linked demo_unmapped by (auto simp: pt_inv_def demo_vm_def entry_ok_def)
qed

lemma demo_blocks_free: "GetBit (bit_map demo_l4) (\<lambda>_. 0xFF) b" if "0 \<le> b" "b < 376"
  using that bit_byte_masks(1) [OF bit_pos_less] by (subst GetBit_valid) (simp_all add: valid_bit_def)

lemma demo_pool: "pool_size demo_l4 = 376"
  by (simp add: pool_size_def demo_l4_def unat_div)

theorem link_then_translate_witness:
  "\<exists>s'. LinkFourthStageToFramePhysical demo_table 0x40001000 0x7000 demo_vm = (True, s') \<and>
     v2p (vm_words s') 0x40001000 0x10000000 = 0x7087"
proof -
  have "\<exists>b. 0 \<le> b \<and> b < pool_size (vm_l4 demo_vm) \<and> GetBit (bit_map (vm_l4 demo_vm)) (vm_mem demo_vm) b"
    using demo_blocks_free [of 0] by (auto simp: demo_vm_def demo_pool intro!: exI [of _ 0])
  moreover have "vm_words demo_vm (pmd_cell_of demo_table 0x40001000) = ENTRY_UNMAPPED"
    using demo_unmapped [OF pmd_cell_of_in, of "0x40001000"] by (simp add: demo_vm_def)
  ultimately show ?thesis
    using link_then_translate [OF demo_pt_inv, of "0x40001000" "0x7000"]
    by (auto simp: demo_table_def page_flags_def)
qed

theorem allocate_block_first_fit_witness:
  "fst (AllocateVirtualMemoryBlock demo_l4 (\<lambda>_. 0xFF)) = 0x12000000"
proof -
  have "find (GetBit (bit_map demo_l4) (\<lambda>_. 0xFF)) [0..375] = Some 0"
    using demo_blocks_free [of 0] by (intro find_upto_first) auto
  with allocate_block_first_fit [of demo_l4 "\<lambda>_. 0xFF"]
  have "AllocateVirtualMemoryBlock demo_l4 (\<lambda>_. 0xFF) =
      (PTE_ptr demo_l4, ClearBit (bit_map demo_l4) (\<lambda>_. 0xFF) 0)" by (simp add: demo_pool)
  then show ?thesis by (simp add: demo_l4_def)
qed

theorem kernel_identity_map_witness:
  "\<exists>t' s'. BspLinkFirst3Levels demo_table (clear_core_tables demo_table demo_vm) = Some (t', s') \<and>
     v2p (vm_words (MapKernelUsableMemory t' s')) 0x12345000 0x10000000 = 0x12345087"
proof -
  have "{b \<in> {0..<pool_size (vm_l4 demo_vm)}. GetBit (bit_map (vm_l4 demo_vm)) (vm_mem demo_vm) b} = {0..<376}"
    using demo_blocks_free by (auto simp: demo_vm_def demo_pool)
  then have "375 \<le> card {b \<in> {0..<pool_size (vm_l4 demo_vm)}. GetBit (bit_map (vm_l4 demo_vm)) (vm_mem demo_vm) b}"
    by simp
  moreover have "layout demo_table (vm_l4 demo_vm)" using demo_layout by (simp add: demo_vm_def)
  moreover have "aligned 0x12345000" by (simp add: aligned_unat)
  moreover have "table_address demo_table = 0x10000000" "(0x12345000 :: u64) OR page_flags = 0x12345087"
    by (simp_all add: demo_table_def page_flags_def)
  ultimately show ?thesis using kernel_identity_map [of demo_table demo_vm] by fastforce
qed

end
