(* ===== verification/SharedMemory.thy ===== *)
theory SharedMemory
  imports PageTableProofs
begin

text \<open>
  The shared memory service of \<open>stage2/sources/memory/SharedMemory.c\<close>: a bitmap of the 1024
  pages of 2 MiB of the shared window (a set bit is a page in use), the search for consecutive free
  pages, and the mapping of the pages in the tables of every core. The reply of an operation is
  modelled by the address handed to \<open>ConvertTagToXML\<close>.
\<close>

section \<open>The bitmap of pages\<close>

definition page_bit :: "u8 list \<Rightarrow> int \<Rightarrow> bool" where
  "page_bit bm p \<longleftrightarrow> bit (bm ! nat (p div 8)) (nat (7 - p mod 8))"

text \<open>
  The two nested loops of \<open>AllocateConsecutivePages\<close> visit the bits in order; \<open>n\<close> is the
  number of bits left, \<open>p\<close> the current one.
\<close>

fun consecutive_loop :: "nat \<Rightarrow> int \<Rightarrow> int \<Rightarrow> u8 list \<Rightarrow> int \<Rightarrow> int" where
  "consecutive_loop 0 p c bm k = - 1"
| "consecutive_loop (Suc n) p c bm k =
     (let c' = (if page_bit bm p then 0 else c + 1)
      in if c' = k then p + 1 - c' else consecutive_loop n (p + 1) c' bm k)"

definition AllocateConsecutivePages :: "u8 list \<Rightarrow> int \<Rightarrow> int" where
  "AllocateConsecutivePages bm numberOfConsecutivePages =
     consecutive_loop (8 * length bm) 0 0 bm numberOfConsecutivePages"

definition put_bit :: "u8 \<Rightarrow> u64 \<Rightarrow> bool \<Rightarrow> u8" where
  "put_bit b bitIndex v =
     (if v then b OR push_bit (unat (7 - bitIndex)) 1 else b AND NOT (push_bit (unat (7 - bitIndex)) 1))"

fun set_bits_loop :: "nat \<Rightarrow> u64 \<Rightarrow> u64 \<Rightarrow> bool \<Rightarrow> u8 list \<Rightarrow> (bool \<times> u8 list) result" where
  "set_bits_loop 0 charIndex bitIndex v bm = Inr (True, bm)"
| "set_bits_loop (Suc n) charIndex bitIndex v bm =
     and_then (arr_get bm (uint charIndex)) (\<lambda>b.
     and_then (arr_set bm (uint charIndex) (put_bit b bitIndex v)) (\<lambda>bm'.
       if bitIndex + 1 = 8
       then (if charIndex + 1 = of_nat (length bm) then Inr (False, bm')
             else set_bits_loop n (charIndex + 1) 0 v bm')
       else set_bits_loop n charIndex (bitIndex + 1) v bm'))"

text \<open>The number of pages is an \<open>int\<close> converted to \<open>uint64_t\<close>: a negative one is huge, and
  the loop runs until it leaves the bitmap.\<close>

definition SetBitsToValue :: "u8 list \<Rightarrow> int \<Rightarrow> int \<Rightarrow> bool \<Rightarrow> (bool \<times> u8 list) result" where
  "SetBitsToValue bm returnIndexInBitMap numberOfPagesToSet v =
     set_bits_loop (unat (word_of_int numberOfPagesToSet :: u64))
       (word_of_int (returnIndexInBitMap sdiv 8)) (word_of_int (returnIndexInBitMap smod 8)) v bm"

section \<open>The service\<close>

record SharedMemory =
  bitMap :: "u8 list"
  sm_spinlock :: spinlock_t

record params_t =
  numberOfBytes :: u64
  sm_virtualAddress :: u64

definition START_OFFSET :: u64 where "START_OFFSET = 2 * 1024 * 1024 * 1024"

definition pages_for :: "u64 \<Rightarrow> u64" where
  "pages_for bytes = (bytes + 2 * 1024 * 1024 - 1) div (2 * 1024 * 1024)"

definition page_va :: "int \<Rightarrow> u64" where
  "page_va i = START_OFFSET + word_of_int i * word_of_int TWO_MiB_MEMORY_PAGE_SIZE"

definition initSharedMemory :: "SharedMemory \<Rightarrow> SharedMemory" where
  "initSharedMemory sm = sm\<lparr>bitMap := replicate 128 0, sm_spinlock := spinlock_init (sm_spinlock sm)\<rparr>"

datatype sm_method = AllocateSharedMemory_f | DeallocateSharedMemory_f | ParseSharedMemoryXML_f

text \<open>The registrations of \<open>initSharedMemoryService\<close> in its order.\<close>

definition initSharedMemoryService ::
  "SharedMemory \<Rightarrow> sm_method Service \<Rightarrow> (SharedMemory \<times> sm_method Service) result" where
  "initSharedMemoryService sm p_service =
     (let s0 = p_service\<lparr>service_method_count := 2\<rparr>;
          u = ''uint64_t''; n = ''numberOfBytes''; v = ''virtualAddress''
      in if \<not> add_serviceTest_hook s0 \<or> \<not> serviceTestParameterDescription_hook s0 then Inl Null_pointer
         else
          and_then (add_service_test s0 (Some AllocateSharedMemory_f) 0 ''Allocate Shared Memory'') (\<lambda>(_, s1).
          and_then (add_serviceTestParameterDescription s1 0 n u 8 False False True False) (\<lambda>s2.
          and_then (add_serviceTestParameterDescription s2 0 v u 8 False False True True) (\<lambda>s3.
          and_then (add_service_test s3 (Some DeallocateSharedMemory_f) 1 ''Deallocate Shared Memory'') (\<lambda>(_, s4).
          and_then (add_serviceTestParameterDescription s4 1 n u 8 False False True False) (\<lambda>s5.
          and_then (add_serviceTestParameterDescription s5 1 v u 8 False False True False) (\<lambda>s6.
          and_then (add_serviceTestParameterDescription s6 1 ''DeallocationStatus'' ''bool'' 1 False False True True) (\<lambda>s7.
            Inr (initSharedMemory sm, s7\<lparr>parserMethod := Some ParseSharedMemoryXML_f\<rparr>)))))))))"

text \<open>
  An operation ends with its reply, spins forever on the lock (\<open>SM_spin\<close>), makes an
  out-of-bounds access (\<open>SM_fault\<close>) or loops forever (\<open>SM_loop\<close>).
\<close>

datatype 'r sm_outcome = SM_reply 'r SharedMemory vm_state | SM_spin | SM_fault | SM_loop

definition AllocateSharedMemory ::
  "u32 \<Rightarrow> MemoryPageTable list \<Rightarrow> SharedMemory \<Rightarrow> vm_state \<Rightarrow> params_t \<Rightarrow> u64 sm_outcome" where
  "AllocateSharedMemory apic cores sm0 vm ps =
     (let n = c_int (uint (pages_for (numberOfBytes ps)))
      in case spinlock_lock apic (sm_spinlock sm0) of
           None \<Rightarrow> SM_spin
         | Some l \<Rightarrow>
             (let sm = sm0\<lparr>sm_spinlock := l\<rparr>; i = AllocateConsecutivePages (bitMap sm) n;
                  va = page_va i; unlock = (\<lambda>m. m\<lparr>sm_spinlock := spinlock_unlock apic (sm_spinlock m)\<rparr>)
              in if i \<ge> 0
                 then (case SetBitsToValue (bitMap sm) i n True of
                         Inl _ \<Rightarrow> SM_fault
                       | Inr (status, bm) \<Rightarrow>
                           (let sm1 = sm\<lparr>bitMap := bm\<rparr>
                            in if \<not> status then SM_reply (- 1) sm1 vm
                               else (case AllocateSharedMemoryTwoMb cores va (numberOfBytes ps) vm of
                                       None \<Rightarrow> SM_loop
                                     | Some vm' \<Rightarrow> SM_reply va (unlock sm1) vm')))
                 else SM_reply (- 1) (unlock sm) vm))"

definition dealloc_index :: "u64 \<Rightarrow> u64" where
  "dealloc_index va = (va - START_OFFSET) div word_of_int TWO_MiB_MEMORY_PAGE_SIZE div 8"

definition DeallocateSharedMemory ::
  "u32 \<Rightarrow> MemoryPageTable list \<Rightarrow> SharedMemory \<Rightarrow> vm_state \<Rightarrow> params_t \<Rightarrow> bool sm_outcome" where
  "DeallocateSharedMemory apic cores sm0 vm ps =
     (let n = c_int (uint (pages_for (numberOfBytes ps)))
      in case spinlock_lock apic (sm_spinlock sm0) of
           None \<Rightarrow> SM_spin
         | Some l \<Rightarrow>
             (let sm = sm0\<lparr>sm_spinlock := l\<rparr>;
                  unlock = (\<lambda>m. m\<lparr>sm_spinlock := spinlock_unlock apic (sm_spinlock m)\<rparr>)
              in case SetBitsToValue (bitMap sm) (sint (dealloc_index (sm_virtualAddress ps))) n False of
                   Inl _ \<Rightarrow> SM_fault
                 | Inr (status, bm) \<Rightarrow>
                     (let sm1 = sm\<lparr>bitMap := bm\<rparr>
                      in if \<not> status then SM_reply False (unlock sm1) vm
                         else (case DeallocateSharedMemoryTwoMb cores (sm_virtualAddress ps) (numberOfBytes ps) vm of
                                 None \<Rightarrow> SM_loop
                               | Some vm' \<Rightarrow> SM_reply True (unlock sm1) vm'))))"


section \<open>Runs of free pages\<close>

definition free_run :: "u8 list \<Rightarrow> int \<Rightarrow> int \<Rightarrow> bool" where
  "free_run bm s k \<longleftrightarrow> 0 \<le> s \<and> s + k \<le> 8 * int (length bm) \<and> (\<forall>p. s \<le> p \<and> p < s + k \<longrightarrow> \<not> page_bit bm p)"

lemma consecutive_loop_spec:
  assumes "0 < k" and "0 \<le> c" and "c < k" and "c \<le> p" and "p + int n = 8 * int (length bm)"
    and "\<forall>q. p - c \<le> q \<and> q < p \<longrightarrow> \<not> page_bit bm q"
    and "c = p \<or> page_bit bm (p - c - 1)"
    and "\<forall>s. free_run bm s k \<longrightarrow> p < s + k"
  shows "case consecutive_loop n p c bm k of r \<Rightarrow>
    (if r = - 1 then \<forall>s. \<not> free_run bm s k else free_run bm r k \<and> (\<forall>s. free_run bm s k \<longrightarrow> r \<le> s))"
  using assms(2-)
proof (induction n arbitrary: p c)
  case 0
  have "\<not> free_run bm s k" for s
  proof
    assume "free_run bm s k"
    with 0 have "p < s + k" "s + k \<le> 8 * int (length bm)" by (auto simp: free_run_def)
    with 0 show False by simp
  qed
  then show ?case by simp
next
  case (Suc n)
  show ?case
  proof (cases "page_bit bm p")
    case True
    have "p + 1 < s + k" if "free_run bm s k" for s
    proof (rule ccontr)
      assume "\<not> p + 1 < s + k"
      with Suc.prems(7) [rule_format, OF that] have "s + k = p + 1" by linarith
      with that assms(1) have "\<not> page_bit bm p" by (auto simp: free_run_def)
      with True show False by simp
    qed
    with Suc.IH [of 0 "p + 1"] Suc.prems assms(1) True show ?thesis by (simp add: Let_def)
  next
    case False
    have ext: "\<forall>q. p - c \<le> q \<and> q < p + 1 \<longrightarrow> \<not> page_bit bm q"
      using Suc.prems(5) False by (metis add1_zle_eq linorder_cases linorder_not_less zle_iff_zadd)
    have first: "p - c \<le> s" if "free_run bm s k" "s + k = p + 1" for s
    proof (rule ccontr)
      assume "\<not> p - c \<le> s"
      with that Suc.prems(2,6) have "page_bit bm (p - c - 1)" "s \<le> p - c - 1" by (auto simp: free_run_def)
      with that Suc.prems(1) show False by (auto simp: free_run_def)
    qed
    show ?thesis
    proof (cases "c + 1 = k")
      case True
      have "free_run bm (p - c) k" using ext True Suc.prems by (auto simp: free_run_def)
      moreover have "p - c \<le> s" if "free_run bm s k" for s
        using Suc.prems(7) [rule_format, OF that] True by linarith
      moreover have "consecutive_loop (Suc n) p c bm k = p - c" using True False by (auto simp: Let_def)
      moreover have "p - c \<noteq> - 1" using Suc.prems(3) by simp
      ultimately show ?thesis by (simp del: consecutive_loop.simps)
    next
      case neq: False
      have "p + 1 < s + k" if "free_run bm s k" for s
        using Suc.prems(7) [rule_format, OF that] first [OF that] neq Suc.prems(2) by linarith
      with Suc.IH [of "c + 1" "p + 1"] Suc.prems ext neq False show ?thesis by (simp add: Let_def)
    qed
  qed
qed

lemma AllocateConsecutivePages_spec:
  assumes "0 < k"
  shows "case AllocateConsecutivePages bm k of r \<Rightarrow>
    (if r = - 1 then \<forall>s. \<not> free_run bm s k else free_run bm r k \<and> (\<forall>s. free_run bm s k \<longrightarrow> r \<le> s))"
  unfolding AllocateConsecutivePages_def
  by (rule consecutive_loop_spec) (use assms in \<open>auto simp: free_run_def\<close>)


section \<open>Marking pages\<close>

lemma put_bit_bit:
  assumes "i < 8" and "j < 8"
  shows "bit (put_bit b (of_nat i) v) (7 - j) \<longleftrightarrow> (if i = j then v else bit b (7 - j))"
proof -
  have "unat (7 - of_nat i :: u64) = 7 - i"
  proof -
    have u: "unat (of_nat i :: u64) = i" using assms(1) by (simp only: unat_of_nat) simp
    then have "of_nat i \<le> (7 :: u64)" using assms(1) by (simp add: word_le_nat_alt)
    from unat_sub_no_wrap [OF this] u show ?thesis by simp
  qed
  moreover have "7 - i = 7 - j \<longleftrightarrow> i = j" using assms by auto
  ultimately show ?thesis using byte_bits [of "7 - j" "7 - i" b] assms by (auto simp: put_bit_def)
qed

lemma page_bit_nat: "page_bit bm (int p) = bit (bm ! (p div 8)) (7 - p mod 8)"
proof -
  have "nat (int p div 8) = p div 8" "nat (7 - int p mod 8) = 7 - p mod 8" 
    by (simp_all add: nat_div_distrib nat_diff_distrib nat_mod_distrib)
  then show ?thesis by (simp add: page_bit_def)
qed

lemma put_page:
  fixes v :: bool
  assumes "s < 8 * length bm"
  defines "bm' \<equiv> bm[s div 8 := put_bit (bm ! (s div 8)) (of_nat (s mod 8)) v]"
  shows "page_bit bm' (int p) = (if p = s then v else page_bit bm (int p))"
proof (cases "p div 8 = s div 8")
  case True
  have "s div 8 < length bm" using assms(1) by (simp add: less_mult_imp_div_less)
  moreover have "p = s \<longleftrightarrow> s mod 8 = p mod 8" using True by (metis div_mult_mod_eq)
  ultimately show ?thesis using True put_bit_bit [of "s mod 8" "p mod 8" "bm ! (s div 8)" v]
    by (simp add: page_bit_nat bm'_def)
next
  case False
  then have "p \<noteq> s" by auto
  with False show ?thesis by (simp add: page_bit_nat bm'_def)
qed

lemma set_bits_loop_spec:
  assumes "s + n \<le> 8 * length bm" and "0 < n" and "length bm < 2 ^ 20"
  shows "\<exists>bm'. set_bits_loop n (of_nat (s div 8)) (of_nat (s mod 8)) v bm =
      Inr (s + n < 8 * length bm, bm') \<and> length bm' = length bm \<and>
      (\<forall>p. page_bit bm' (int p) = (if s \<le> p \<and> p < s + n then v else page_bit bm (int p)))"
  using assms
proof (induction n arbitrary: s bm)
  case (Suc n)
  let ?bm = "bm[s div 8 := put_bit (bm ! (s div 8)) (of_nat (s mod 8)) v]"
  have s: "s < 8 * length bm" "s div 8 < length bm" using Suc.prems(1) by (simp_all add: less_mult_imp_div_less)
  have u: "unat (of_nat (s div 8) :: u64) = s div 8"
    using s(2) Suc.prems(3) by (simp only: unat_of_nat) simp
  then have ui: "uint (of_nat (s div 8) :: u64) = int (s div 8)" by (simp only: uint_nat)
  have g: "arr_get bm (int (s div 8)) = Inr (bm ! (s div 8))"
    "\<And>x. arr_set bm (int (s div 8)) x = Inr (bm[s div 8 := x])"
    using s(2) by (simp_all only: arr_get_def arr_set_def in_array_def) simp_all
  have last: "of_nat (s mod 8) + 1 = (8 :: u64) \<longleftrightarrow> s mod 8 = 7"
  proof -
    have "unat (of_nat (s mod 8) + 1 :: u64) = s mod 8 + 1"
      by (subst unat_add_no_wrap) (simp_all add: unat_of_nat)
    then show ?thesis by (auto simp: word_unat_eq_iff)
  qed
  have wrap: "of_nat (s div 8) + 1 = (of_nat (length bm) :: u64) \<longleftrightarrow> s div 8 + 1 = length bm"
  proof -
    have "unat (of_nat (s div 8) + 1 :: u64) = s div 8 + 1"
      using u s(2) Suc.prems(3) by (subst unat_add_no_wrap) simp_all
    moreover have "unat (of_nat (length bm) :: u64) = length bm"
      using Suc.prems(3) by (simp only: unat_of_nat) simp
    ultimately show ?thesis by (simp add: word_unat_eq_iff)
  qed
  have next_pos: "Suc s div 8 = (if s mod 8 = 7 then s div 8 + 1 else s div 8)"
    "Suc s mod 8 = (if s mod 8 = 7 then 0 else s mod 8 + 1)"
    by (simp_all add: div_Suc mod_Suc)
  have step: "set_bits_loop (Suc n) (of_nat (s div 8)) (of_nat (s mod 8)) v bm =
      (if s mod 8 = 7 \<and> s div 8 + 1 = length bm then Inr (False, ?bm)
       else set_bits_loop n (of_nat (Suc s div 8)) (of_nat (Suc s mod 8)) v ?bm)"
    unfolding set_bits_loop.simps ui g and_then_simps last wrap next_pos by (simp add: add.commute)
  have full: "s mod 8 = 7 \<and> s div 8 + 1 = length bm \<longleftrightarrow> s + 1 = 8 * length bm"
  proof -
    have "s = 8 * (s div 8) + s mod 8" "s mod 8 < 8" by simp_all
    then show ?thesis using s(2) by linarith
  qed
  note put = put_page [OF s(1), where v = v]
  show ?case
  proof (cases "n = 0 \<or> s + 1 = 8 * length bm")
    case True
    then have n: "n = 0" using Suc.prems(1) by auto
    have "set_bits_loop (Suc n) (of_nat (s div 8)) (of_nat (s mod 8)) v bm =
        Inr (s + Suc n < 8 * length bm, ?bm)"
      unfolding step full using n Suc.prems(1) by simp
    then show ?thesis using put n by (intro exI [of _ ?bm]) auto
  next
    case False
    then have "Suc s + n \<le> 8 * length ?bm" "0 < n" "length ?bm < 2 ^ 20" using Suc.prems by simp_all
    from Suc.IH [OF this] obtain bm' where
      "set_bits_loop n (of_nat (Suc s div 8)) (of_nat (Suc s mod 8)) v ?bm =
        Inr (Suc s + n < 8 * length ?bm, bm')" "length bm' = length ?bm"
      "\<forall>p. page_bit bm' (int p) = (if Suc s \<le> p \<and> p < Suc s + n then v else page_bit ?bm (int p))" by blast
    moreover have "set_bits_loop (Suc n) (of_nat (s div 8)) (of_nat (s mod 8)) v bm =
        set_bits_loop n (of_nat (Suc s div 8)) (of_nat (Suc s mod 8)) v ?bm"
      unfolding step full using False by simp
    ultimately show ?thesis using put by (intro exI [of _ bm']) auto
  qed
qed simp

lemma SetBitsToValue_spec:
  assumes "0 \<le> i" and "0 < k" and "i + k \<le> 8 * int (length bm)" and "length bm < 2 ^ 20"
  shows "\<exists>bm'. SetBitsToValue bm i k v = Inr (i + k < 8 * int (length bm), bm') \<and> length bm' = length bm \<and>
    (\<forall>p\<ge>0. page_bit bm' p = (if i \<le> p \<and> p < i + k then v else page_bit bm p))"
proof -
  obtain s n where sn: "i = int s" "k = int n" using assms(1,2) by (metis nonneg_int_cases order_less_imp_le)
  have "s + n \<le> 8 * length bm" "0 < n" using assms(2,3) by (simp_all add: sn)
  from set_bits_loop_spec [OF this assms(4), of v] obtain bm' where
    r: "set_bits_loop n (of_nat (s div 8)) (of_nat (s mod 8)) v bm = Inr (s + n < 8 * length bm, bm')"
      "length bm' = length bm"
      "\<forall>p. page_bit bm' (int p) = (if s \<le> p \<and> p < s + n then v else page_bit bm (int p))" by blast
  have "unat (word_of_int k :: u64) = n"
    using assms(3,4) by (simp add: sn unat_of_nat)
  moreover have "i sdiv 8 = int (s div 8)" "i smod 8 = int (s mod 8)"
    by (auto simp: sn signed_divide_int_def signed_modulo_int_def sgn_if zdiv_int zmod_int)
  ultimately have "SetBitsToValue bm i k v = Inr (s + n < 8 * length bm, bm')"
    using r(1) by (simp add: SetBitsToValue_def)
  moreover have "page_bit bm' p = (if i \<le> p \<and> p < i + k then v else page_bit bm p)" if "0 \<le> p" for p
    using r(3) [rule_format, of "nat p"] that by (auto simp: sn split: if_splits)
  moreover have "(s + n < 8 * length bm) = (i + k < 8 * int (length bm))" by (simp add: sn) linarith
  ultimately show ?thesis using r(2) by auto
qed


section \<open>The mapping loop\<close>



lemma pages_for_unat:
  assumes "unat b < 2 ^ 31"
  shows "unat (pages_for b) = (unat b + 2097151) div 2097152"
proof -
  have "unat (2097151 + b) = unat b + 2097151" by (subst unat_add_no_wrap) (use assms in simp_all)
  then show ?thesis by (simp add: pages_for_def unat_div)
qed

lemma pages_for_bounds:
  assumes "0 < b" and "b < 2 ^ 31"
  shows "0 < uint (pages_for b)" and "c_int (uint (pages_for b)) = uint (pages_for b)"
    and "uint (pages_for b) \<le> 1024"
proof -
  have b: "0 < unat b" "unat b < 2 ^ 31" using assms by (simp_all add: word_less_nat_alt)
  from pages_for_unat [OF b(2)] have "0 < unat (pages_for b)" "unat (pages_for b) \<le> 1024" using b by simp_all
  moreover have u: "uint (pages_for b) = int (unat (pages_for b))" by (simp only: uint_nat)
  ultimately show "0 < uint (pages_for b)" "uint (pages_for b) \<le> 1024" by linarith+
  then show "c_int (uint (pages_for b)) = uint (pages_for b)" by (intro c_int_uint) simp
qed

section \<open>The same page in every core\<close>











definition sm_ok :: "SharedMemory \<Rightarrow> bool" where
  "sm_ok sm \<longleftrightarrow> length (bitMap sm) = 128 \<and> lock_free (sm_spinlock sm)"


section \<open>Properties\<close>

text \<open>\<open>AllocateConsecutivePages\<close> returns the lowest page at which the requested number of
  consecutive pages is free, and \<open>-1\<close> exactly when there is no such run.\<close>

theorem consecutive_pages_first_run:
  assumes "0 < k"
  shows "(AllocateConsecutivePages bm k = - 1 \<longleftrightarrow> (\<forall>s. \<not> free_run bm s k)) \<and>
    (\<forall>s. free_run bm s k \<longrightarrow> free_run bm (AllocateConsecutivePages bm k) k \<and> AllocateConsecutivePages bm k \<le> s)"
proof -
  have "free_run bm (- 1) k \<Longrightarrow> False" by (simp add: free_run_def)
  then show ?thesis using AllocateConsecutivePages_spec [OF assms, of bm] by (auto split: if_splits)
qed



text \<open>A run that ends with the last page of the window is marked but answered with a
  failure, and the early return keeps the lock: every later allocation, on any core, spins
  forever.\<close>

theorem last_page_request_keeps_lock:
  assumes "sm_ok sm" and "0 < numberOfBytes ps" and "numberOfBytes ps < 2 ^ 31"
    and "n = uint (pages_for (numberOfBytes ps))"
    and "AllocateConsecutivePages (bitMap sm) n = 1024 - n"
  shows "\<exists>sm'. AllocateSharedMemory apic cores sm vm ps = SM_reply (- 1) sm' vm \<and>
    page_bit (bitMap sm') 1023 \<and>
    (\<forall>apic' cores' vm' ps'. AllocateSharedMemory apic' cores' sm' vm' ps' = SM_spin)"
proof -
  have len: "length (bitMap sm) = 128" and free: "lock_free (sm_spinlock sm)"
    using assms(1) by (simp_all add: sm_ok_def)
  note n = pages_for_bounds [OF assms(2,3), folded assms(4)]
  from SetBitsToValue_spec [of "1024 - n" n "bitMap sm" True] n len obtain bm where
    set: "SetBitsToValue (bitMap sm) (1024 - n) n True = Inr (False, bm)"
      "\<forall>p\<ge>0. page_bit bm p = (if 1024 - n \<le> p \<and> p < 1024 then True else page_bit (bitMap sm) p)"
    by auto
  let ?sm = "sm\<lparr>sm_spinlock := (sm_spinlock sm)\<lparr>spin_lock := 1, stack := 1\<rparr>, bitMap := bm\<rparr>"
  have "AllocateSharedMemory apic cores sm vm ps = SM_reply (- 1) ?sm vm"
    using n set(1) unfolding AllocateSharedMemory_def assms(4) [symmetric] n(2)
    by (simp add: Let_def lock_of_free [OF free] assms(5))
  moreover have "spinlock_lock a (sm_spinlock ?sm) = None" for a
    using free by (intro lock_held_spins) (simp_all add: lock_free_def)
  ultimately show ?thesis using set(2) n(1)
    by (intro exI [of _ ?sm]) (simp add: AllocateSharedMemory_def)
qed

text \<open>\<open>DeallocateSharedMemory\<close> divides the page index by 8 before it uses it as a bit
  index: giving back page \<open>k \<ge> 1\<close> clears the bit of page \<open>k div 8\<close> and leaves page
  \<open>k\<close> marked as used.\<close>

theorem deallocate_clears_wrong_page:
  assumes "sm_ok sm" and "0 < numberOfBytes ps" and "numberOfBytes ps \<le> 0x200000"
    and "0 < k" and "k < 1024" and "sm_virtualAddress ps = page_va k" and "page_bit (bitMap sm) k"
    and "DeallocateSharedMemory apic cores sm vm ps = SM_reply r sm' vm'"
  shows "r \<and> page_bit (bitMap sm') k \<and> \<not> page_bit (bitMap sm') (k div 8)"
proof -
  have len: "length (bitMap sm) = 128" and free: "lock_free (sm_spinlock sm)"
    using assms(1) by (simp_all add: sm_ok_def)
  have b: "0 < unat (numberOfBytes ps)" "unat (numberOfBytes ps) \<le> 2097152"
    using assms(2,3) by (simp_all add: word_less_nat_alt word_le_nat_alt)
  moreover have "(unat (numberOfBytes ps) + 2097151) div 2097152 = 1" using b by (intro div_nat_eqI) simp_all
  ultimately have "unat (pages_for (numberOfBytes ps)) = 1" using pages_for_unat [of "numberOfBytes ps"] by simp
  then have pg: "pages_for (numberOfBytes ps) = 1" by (simp add: word_unat_eq_iff)
  have wk: "unat (word_of_int k :: u64) = nat k" using assms(4,5) by (simp add: unat_eq_nat_uint uint_word_of_int)
  have "page_va k - START_OFFSET = word_of_int k * 0x200000" by (simp add: page_va_def pm_constants)
  moreover have "unat (word_of_int k * 0x200000 :: u64) = nat k * 0x200000"
    using wk assms(4,5) by (simp add: unat_word_ariths)
  ultimately have "unat (dealloc_index (page_va k)) = nat k div 8"
    by (simp add: dealloc_index_def pm_constants unat_div)
  then have "uint (dealloc_index (page_va k)) = k div 8"
    using assms(4) by (simp only: uint_nat)
  then have idx: "sint (dealloc_index (page_va k)) = k div 8"
    using assms(4,5) by (simp add: sint_uint signed_take_bit_int_eq_self)
  have "0 \<le> k div 8" "k div 8 < 1023" using assms(4,5) by auto
  with SetBitsToValue_spec [of "k div 8" 1 "bitMap sm" False] len obtain bm where
    set: "SetBitsToValue (bitMap sm) (k div 8) 1 False = Inr (True, bm)"
      "\<forall>p\<ge>0. page_bit bm p = (if k div 8 \<le> p \<and> p < k div 8 + 1 then False else page_bit (bitMap sm) p)"
    by auto
  have "r \<and> bitMap sm' = bm"
    using assms(8) set(1) idx
    by (auto simp: DeallocateSharedMemory_def Let_def pg lock_of_free [OF free] assms(6) split: option.splits)
  moreover have "k div 8 < k" using assms(4) by simp
  ultimately show ?thesis using set(2) assms(4,7) by auto
qed

section \<open>Witnesses\<close>

text \<open>A window whose last page only is free, and an empty window.\<close>

definition demo_sm :: SharedMemory where
  "demo_sm = \<lparr>bitMap = replicate 127 0xFF @ [0xFE], sm_spinlock = \<lparr>lapic = 0, stack = 0, core_id = 0, spin_lock = 0\<rparr>\<rparr>"

lemma demo_sm_bits:
  assumes "0 \<le> p" and "p < 1024"
  shows "page_bit (bitMap demo_sm) p \<longleftrightarrow> p \<noteq> 1023"
proof -
  obtain n where n: "p = int n" "n < 1024" using assms by (metis nonneg_int_cases of_nat_less_iff of_nat_numeral)
  show ?thesis
  proof (cases "n div 8 < 127")
    case True
    then have "page_bit (bitMap demo_sm) p"
      using bit_byte_masks(1) [of "7 - n mod 8"] by (simp add: n page_bit_nat demo_sm_def nth_append)
    with True show ?thesis using n by auto
  next
    case False
    with n(2) have q: "n div 8 = 127" by auto
    have "n = 8 * (n div 8) + n mod 8" "n mod 8 < 8" by simp_all
    with q have "n = 1023 \<longleftrightarrow> n mod 8 = 7" "n mod 8 \<le> 7" by linarith+
    moreover have "bit (0xFE :: u8) m \<longleftrightarrow> m \<noteq> 0" if "m < 8" for m
    proof -
      have "(0xFE :: u8) = NOT 1" by simp
      then show ?thesis using that by (simp only: bit_not_iff) (auto simp: bit_1_iff)
    qed
    ultimately show ?thesis using q by (auto simp: n(1) page_bit_nat demo_sm_def nth_append)
  qed
qed

lemma demo_sm_ok: "sm_ok demo_sm"
  by (simp add: sm_ok_def demo_sm_def lock_free_def)

lemma demo_sm_run: "AllocateConsecutivePages (bitMap demo_sm) 1 = 1023"
proof -
  have len: "length (bitMap demo_sm) = 128" by (simp add: demo_sm_def)
  have "free_run (bitMap demo_sm) s 1 \<longleftrightarrow> s = 1023" for s
    using demo_sm_bits [of s] demo_sm_bits [of 1023] by (auto simp: free_run_def len)
  with AllocateConsecutivePages_spec [of 1 "bitMap demo_sm"] show ?thesis by (auto split: if_splits)
qed


theorem consecutive_pages_first_run_witness:
  "AllocateConsecutivePages (bitMap (initSharedMemory demo_sm)) 3 = 0"
proof -
  have "free_run (bitMap (initSharedMemory demo_sm)) 0 3" by (simp add: free_run_def page_bit_def initSharedMemory_def)
  with consecutive_pages_first_run [of 3 "bitMap (initSharedMemory demo_sm)"]
  have "free_run (bitMap (initSharedMemory demo_sm)) (AllocateConsecutivePages (bitMap (initSharedMemory demo_sm)) 3) 3"
    "AllocateConsecutivePages (bitMap (initSharedMemory demo_sm)) 3 \<le> 0" by simp_all
  then show ?thesis by (simp add: free_run_def)
qed





theorem last_page_request_keeps_lock_witness:
  "\<exists>sm'. AllocateSharedMemory 0 [] demo_sm demo_vm \<lparr>numberOfBytes = 1, sm_virtualAddress = 0\<rparr> =
       SM_reply (- 1) sm' demo_vm \<and>
     AllocateSharedMemory 1 [] sm' demo_vm \<lparr>numberOfBytes = 1, sm_virtualAddress = 0\<rparr> = SM_spin"
proof -
  let ?ps = "\<lparr>numberOfBytes = 1, sm_virtualAddress = 0\<rparr> :: params_t"
  have p: "1 = uint (pages_for (numberOfBytes ?ps))" by (simp add: pages_for_def)
  from last_page_request_keeps_lock [OF demo_sm_ok _ _ p, of 0 "[]" demo_vm] demo_sm_run
  show ?thesis by auto
qed

theorem deallocate_clears_wrong_page_witness:
  "\<exists>r sm' vm'. DeallocateSharedMemory 0 [] demo_sm demo_vm
      \<lparr>numberOfBytes = 0x1000, sm_virtualAddress = 0x81200000\<rparr> = SM_reply r sm' vm' \<and> page_bit (bitMap sm') 9"
proof -
  let ?ps = "\<lparr>numberOfBytes = 0x1000, sm_virtualAddress = 0x81200000\<rparr> :: params_t"
  have idx: "sint (dealloc_index 0x81200000) = 1" by (simp add: dealloc_index_def START_OFFSET_def pm_constants)
  have pg: "pages_for 0x1000 = 1" by (simp add: pages_for_def)
  have "length (bitMap demo_sm) = 128" "lock_free (sm_spinlock demo_sm)" using demo_sm_ok by (simp_all add: sm_ok_def)
  with SetBitsToValue_spec [of 1 1 "bitMap demo_sm" False] idx pg
  obtain sm' where run: "DeallocateSharedMemory 0 [] demo_sm demo_vm ?ps = SM_reply True sm' demo_vm"
    by (auto simp: DeallocateSharedMemory_def DeallocateSharedMemoryTwoMb_def lock_of_free)
  have "sm_virtualAddress ?ps = page_va 9" by (simp add: page_va_def START_OFFSET_def pm_constants)
  with deallocate_clears_wrong_page [OF demo_sm_ok _ _ _ _ _ _ run, of 9] demo_sm_bits [of 9] run
  show ?thesis by auto
qed

end
