(* ===== verification/Base64.thy ===== *)
theory Base64
  imports KMalloc "HOL-Library.Char_ord"
begin

text \<open>
  The Base64 codec of \<open>misc/Base64Encoding.c\<close>. The input of an operation is the list of
  the \<open>len\<close> bytes at \<open>src\<close>; its result is \<open>None\<close> for \<open>NULL\<close> and
  otherwise the address of the buffer \<^const>\<open>kmalloc\<close> gave together with the
  \<open>*out_len\<close> bytes written there. The lemmas show that the writes stay inside that
  buffer and that decoding undoes encoding.
\<close>

section \<open>Tables\<close>

definition base64_table :: "u8 list" where
  "base64_table = map of_char ''ABCDEFGHIJKLMNOPQRSTUVWXYZabcdefghijklmnopqrstuvwxyz0123456789+/''"

definition dtable :: "u8 list" where
  "dtable = (foldl (\<lambda>d i. d[unat (base64_table ! i) := of_nat i]) (replicate 256 0x80) [0..<64])
     [unat (of_char CHR ''='' :: u8) := 0]"

section \<open>Encoding\<close>

definition enc1 :: "u8 \<Rightarrow> u8" where
  "enc1 w = base64_table ! unat w"

fun encode_loop :: "u8 list \<Rightarrow> u8 list" where
  "encode_loop (a # b # c # rest) =
     [enc1 (drop_bit 2 a),
      enc1 (push_bit 4 (a AND 0x03) OR drop_bit 4 b),
      enc1 (push_bit 2 (b AND 0x0F) OR drop_bit 6 c),
      enc1 (c AND 0x3F)] @ encode_loop rest"
| "encode_loop [a, b] =
     [enc1 (drop_bit 2 a),
      enc1 (push_bit 4 (a AND 0x03) OR drop_bit 4 b),
      enc1 (push_bit 2 (b AND 0x0F)),
      of_char CHR ''='']"
| "encode_loop [a] =
     [enc1 (drop_bit 2 a), enc1 (push_bit 4 (a AND 0x03)), of_char CHR ''='', of_char CHR ''='']"
| "encode_loop [] = []"

definition base64_encode ::
    "u32 \<Rightarrow> MemoryAllocator \<Rightarrow> u8 list \<Rightarrow> ((u64 \<times> u8 list) option \<times> MemoryAllocator) option" where
  "base64_encode apic m src =
     (let len = of_nat (length src) :: u64;
          olen = len * 4 div 3 + 4
      in if olen < len then Some (None, m)
         else do {
           (out, m) \<leftarrow> kmalloc apic m olen;
           if out = 0 then Some (None, m) else Some (Some (out, encode_loop src), m)
         })"

section \<open>Decoding\<close>

text \<open>
  The second loop of \<open>base64_decode\<close>: \<open>block\<close> holds the \<open>count\<close> filled entries
  of the C array, \<open>out\<close> the bytes below \<open>pos\<close>. \<open>None\<close> is the return
  of \<open>NULL\<close> on invalid padding.
\<close>

definition dec1 :: "u8 \<Rightarrow> u8" where
  "dec1 c = dtable ! unat c"

definition decode_block :: "u8 list \<Rightarrow> u8 list" where
  "decode_block block =
     [push_bit 2 (block ! 0) OR drop_bit 4 (block ! 1),
      push_bit 4 (block ! 1) OR drop_bit 2 (block ! 2),
      push_bit 6 (block ! 2) OR block ! 3]"

fun decode_loop :: "u8 list \<Rightarrow> int \<Rightarrow> u8 list \<Rightarrow> u8 list \<Rightarrow> u8 list option" where
  "decode_loop [] pad block out = Some out"
| "decode_loop (c # cs) pad block out =
     (let tmp = dec1 c
      in if tmp = 0x80 then decode_loop cs pad block out
         else
           let pad = (if c = of_char CHR ''='' then pad + 1 else pad);
               block = block @ [tmp]
           in if length block = 4
              then let out = out @ decode_block block
                   in if pad \<noteq> 0
                      then if pad = 1 then Some (take (length out - 1) out)
                           else if pad = 2 then Some (take (length out - 2) out)
                           else None
                      else decode_loop cs pad [] out
              else decode_loop cs pad block out)"

definition base64_decode ::
    "u32 \<Rightarrow> MemoryAllocator \<Rightarrow> u8 list \<Rightarrow> ((u64 \<times> u8 list) option \<times> MemoryAllocator) option" where
  "base64_decode apic m src =
     (let count = of_nat (length (filter (\<lambda>c. dec1 c \<noteq> 0x80) src)) :: u64
      in if count = 0 \<or> count mod 4 \<noteq> 0 then Some (None, m)
         else do {
           (out, m) \<leftarrow> kmalloc apic m (count div 4 * 3);
           if out = 0 then Some (None, m)
           else Some (map_option (Pair out) (decode_loop src 0 [] []), m)
         })"

section \<open>Lemmas\<close>

lemma dtable_of_table: "map ((!) dtable) (map unat base64_table) = map of_nat [0..<64]"
  by code_simp

lemma base64_table_no_pad: "(of_char CHR ''='' :: u8) \<notin> set base64_table" "length base64_table = 64"
  by (simp_all add: base64_table_def)

lemma dtable_inverts_table:
  "\<forall>i\<in>set [0..<64]. dtable ! unat (base64_table ! i) = of_nat i \<and> base64_table ! i \<noteq> of_char CHR ''=''"
proof
  fix i :: nat assume "i \<in> set [0..<64]"
  then have i: "i < 64" by simp
  have "map ((!) dtable) (map unat base64_table) ! i = map of_nat [0..<64] ! i"
    by (simp only: dtable_of_table)
  with i have "dtable ! unat (base64_table ! i) = of_nat i" by (simp add: base64_table_no_pad(2))
  moreover from i have "base64_table ! i \<in> set base64_table"
    by (simp add: base64_table_no_pad(2))
  ultimately show "dtable ! unat (base64_table ! i) = of_nat i \<and> base64_table ! i \<noteq> of_char CHR ''=''"
    using base64_table_no_pad(1) by metis
qed

lemma dec1_pad: "dec1 (of_char CHR ''='') = 0"
  by code_simp

lemma unat_less_64: "w < (64 :: u8) \<Longrightarrow> unat w < 64"
  by (simp add: word_less_nat_alt)

lemma dec1_enc1:
  assumes "w < 64"
  shows "dec1 (enc1 w) = w" and "enc1 w \<noteq> of_char CHR ''=''" and "w \<noteq> 0x80"
proof -
  from assms have "unat w \<in> set [0..<64]" by (simp add: unat_less_64)
  with dtable_inverts_table show "dec1 (enc1 w) = w" and "enc1 w \<noteq> of_char CHR ''=''"
    unfolding dec1_def enc1_def by fastforce+
  show "w \<noteq> 0x80" using assms by auto
qed

lemma byte_eqI:
  fixes x y :: u8
  assumes "bit x 0 = bit y 0" "bit x 1 = bit y 1" "bit x 2 = bit y 2" "bit x 3 = bit y 3"
    "bit x 4 = bit y 4" "bit x 5 = bit y 5" "bit x 6 = bit y 6" "bit x 7 = bit y 7"
  shows "x = y"
proof (rule bit_word_eqI)
  fix n assume "n < LENGTH(8)"
  then have "n \<in> {0, 1, 2, 3, 4, 5, 6, 7}" by (auto simp: less_Suc_eq numeral_eq_Suc)
  with assms show "bit x n = bit y n" by blast
qed

lemma byte_bits_end:
  "\<not> bit (x :: u8) 8" "\<not> bit (x :: u8) 9" "\<not> bit (x :: u8) 10" "\<not> bit (x :: u8) 11"
  "\<not> bit (x :: u8) 12" "\<not> bit (x :: u8) 13"
  by (auto dest: bit_imp_le_length)

lemma byte_less_64:
  fixes x :: u8
  assumes "\<not> bit x 6" "\<not> bit x 7"
  shows "x < 64"
proof -
  have "take_bit 6 x = x" using assms by (intro byte_eqI) (simp_all add: bit_simps)
  then have "take_bit 6 (unat x) = unat x" by (metis unsigned_take_bit_eq)
  then have "unat x = unat x mod 64" by (simp add: take_bit_eq_mod)
  then have "unat x < 64" by (metis mod_less_divisor zero_less_numeral)
  then show ?thesis by (simp add: word_less_nat_alt)
qed

lemma byte_masks:
  "(0x03 :: u8) = mask 2" "(0x0F :: u8) = mask 4" "(0x3F :: u8) = mask 6"
  by (simp_all add: mask_eq_exp_minus_1)

lemma sextets:
  fixes a b c :: u8
  shows "drop_bit 2 a < 64" "push_bit 4 (a AND 0x03) OR drop_bit 4 b < 64"
    "push_bit 2 (b AND 0x0F) OR drop_bit 6 c < 64" "c AND 0x3F < 64"
    "push_bit 4 (a AND 0x03) < 64" "push_bit 2 (b AND 0x0F) < 64" "(0 :: u8) < 64"
proof -
  show "drop_bit 2 a < 64" "push_bit 4 (a AND 0x03) OR drop_bit 4 b < 64"
    "push_bit 2 (b AND 0x0F) OR drop_bit 6 c < 64" "c AND 0x3F < 64"
    "push_bit 4 (a AND 0x03) < 64" "push_bit 2 (b AND 0x0F) < 64"
    unfolding byte_masks by (rule byte_less_64; simp add: bit_simps byte_bits_end)+
qed simp

lemma reassembled:
  fixes a b c :: u8
  shows "push_bit 2 (drop_bit 2 a) OR drop_bit 4 (push_bit 4 (a AND 0x03) OR drop_bit 4 b) = a"
    and "push_bit 4 (push_bit 4 (a AND 0x03) OR drop_bit 4 b) OR
      drop_bit 2 (push_bit 2 (b AND 0x0F) OR drop_bit 6 c) = b"
    and "push_bit 6 (push_bit 2 (b AND 0x0F) OR drop_bit 6 c) OR (c AND 0x3F) = c"
    and "push_bit 2 (drop_bit 2 a) OR drop_bit 4 (push_bit 4 (a AND 0x03)) = a"
    and "push_bit 4 (push_bit 4 (a AND 0x03) OR drop_bit 4 b) OR
      drop_bit 2 (push_bit 2 (b AND 0x0F)) = b"
  unfolding byte_masks by (rule byte_eqI; simp add: bit_simps byte_bits_end)+

text \<open>Four characters that carry data, three and a pad, two and two pads.\<close>

lemma decode_group:
  assumes "w < 64" "x < 64" "y < 64" "z < 64"
  shows "decode_loop (enc1 w # enc1 x # enc1 y # enc1 z # cs) 0 [] out =
      decode_loop cs 0 [] (out @ decode_block [w, x, y, z])"
    and "decode_loop (enc1 w # enc1 x # enc1 y # of_char CHR ''='' # cs) 0 [] out =
      Some (out @ take 2 (decode_block [w, x, y, 0]))"
    and "decode_loop (enc1 w # enc1 x # of_char CHR ''='' # of_char CHR ''='' # cs) 0 [] out =
      Some (out @ take 1 (decode_block [w, x, 0, 0]))"
proof -
  note d = dec1_enc1 [OF assms(1)] dec1_enc1 [OF assms(2)] dec1_enc1 [OF assms(3)]
    dec1_enc1 [OF assms(4)] dec1_pad
  have z: "(0 :: u8) \<noteq> 0x80" by simp
  show "decode_loop (enc1 w # enc1 x # enc1 y # enc1 z # cs) 0 [] out =
      decode_loop cs 0 [] (out @ decode_block [w, x, y, z])"
    by (simp only: decode_loop.simps Let_def d if_False) simp
  show "decode_loop (enc1 w # enc1 x # enc1 y # of_char CHR ''='' # cs) 0 [] out =
      Some (out @ take 2 (decode_block [w, x, y, 0]))"
    by (simp only: decode_loop.simps Let_def d z if_False) (simp add: decode_block_def)
  show "decode_loop (enc1 w # enc1 x # of_char CHR ''='' # of_char CHR ''='' # cs) 0 [] out =
      Some (out @ take 1 (decode_block [w, x, 0, 0]))"
    by (simp only: decode_loop.simps Let_def d z if_False) (simp add: decode_block_def)
qed

lemma block_bytes: "decode_block [w, x, y, z] =
    [push_bit 2 w OR drop_bit 4 x, push_bit 4 x OR drop_bit 2 y, push_bit 6 y OR z]"
  by (simp add: decode_block_def)

lemma decode_invalid: "\<forall>c\<in>set tail. dec1 c = 0x80 \<Longrightarrow> decode_loop tail 0 [] out = Some out"
  by (induction tail) simp_all

lemma decode_encode_tail:
  assumes "\<forall>c\<in>set tail. dec1 c = 0x80"
  shows "decode_loop (encode_loop src @ tail) 0 [] out = Some (out @ src)"
proof (induction src arbitrary: out rule: encode_loop.induct)
  case (1 a b c rest)
  then show ?case
    by (simp only: encode_loop.simps append.simps append_assoc decode_group(1) sextets block_bytes reassembled)
next
  case (2 a b)
  show ?case
    by (simp only: encode_loop.simps append.simps decode_group(2) [where z = 0] sextets block_bytes reassembled)
      simp
next
  case (3 a)
  show ?case
    by (simp only: encode_loop.simps append.simps decode_group(3) [where y = 0 and z = 0] sextets block_bytes reassembled)
      simp
next
  case 4
  show ?case by (simp add: decode_invalid assms)
qed

lemma decode_encode_loop: "decode_loop (encode_loop src) 0 [] out = Some (out @ src)"
  using decode_encode_tail [of "[]" src out] by simp

text \<open>Every character the encoder writes is accepted by the decoder.\<close>

lemma enc1_valid: "w < 64 \<Longrightarrow> dec1 (enc1 w) \<noteq> 0x80"
  by (simp add: dec1_enc1)

lemma encode_loop_valid: "filter (\<lambda>c. dec1 c \<noteq> 0x80) (encode_loop src) = encode_loop src"
proof -
  have "\<forall>c\<in>set (encode_loop src). dec1 c \<noteq> 0x80"
    by (induction src rule: encode_loop.induct)
      (simp_all only: encode_loop.simps append.simps list.set ball_simps sextets enc1_valid dec1_pad, simp_all)
  then show ?thesis by (simp add: filter_id_conv)
qed

lemma encode_loop_length: "length (encode_loop src) = (length src + 2) div 3 * 4"
  by (induction src rule: encode_loop.induct) (simp_all, presburger)

lemma decode_loop_length:
  "length block < 4 \<Longrightarrow> decode_loop src pad block out = Some r \<Longrightarrow>
     length r \<le> length out + (length block + length (filter (\<lambda>c. dec1 c \<noteq> 0x80) src)) div 4 * 3"
proof (induction src pad block out rule: decode_loop.induct)
  case (1 pad block out)
  then show ?case by simp
next
  case (2 c cs pad block out)
  show ?case
  proof (cases "dec1 c = 0x80")
    case True
    with 2 show ?thesis by simp
  next
    case valid: False
    let ?pad = "if c = of_char CHR ''='' then pad + 1 else pad"
    let ?out = "out @ decode_block (block @ [dec1 c])"
    show ?thesis
    proof (cases "length (block @ [dec1 c]) = 4")
      case False
      with 2(4) have b: "length (block @ [dec1 c]) < 4" by simp
      from 2(5) valid False have "decode_loop cs ?pad (block @ [dec1 c]) out = Some r"
        by (simp add: Let_def)
      from 2(3) [OF refl valid refl refl False b this] valid show ?thesis by simp
    next
      case True
      have len: "length ?out = length out + 3" by (simp add: decode_block_def)
      have n: "(length block + length (filter (\<lambda>c. dec1 c \<noteq> 0x80) (c # cs))) div 4 =
          Suc (length (filter (\<lambda>c. dec1 c \<noteq> 0x80) cs) div 4)"
        using True valid by simp
      show ?thesis
      proof (cases "?pad = 0")
        case False
        with 2(5) valid True have "length r \<le> length ?out"
          by (auto simp only: decode_loop.simps Let_def if_True if_False split: if_splits) simp_all
        with len n show ?thesis by linarith
      next
        case pad0: True
        with 2(5) valid True have "decode_loop cs ?pad [] ?out = Some r"
          by (simp only: decode_loop.simps Let_def if_True if_False) simp
        from 2(2) [OF refl valid refl refl True refl _ _ this] pad0 len n show ?thesis by simp
      qed
    qed
  qed
qed

lemma encode_size:
  assumes "length (src :: u8 list) < 2 ^ 61"
  shows "unat ((of_nat (length src) :: u64) * 4 div 3 + 4) = length src * 4 div 3 + 4"
proof -
  have l: "unat (of_nat (length src) :: u64) = length src"
    using assms by (simp add: unat_of_nat_small)
  have m: "unat ((of_nat (length src) :: u64) * 4) = length src * 4"
    using assms by (subst unat_mult_lem [THEN iffD1]) (simp_all add: l)
  then have d: "unat ((of_nat (length src) :: u64) * 4 div 3) = length src * 4 div 3"
    by (simp add: unat_div)
  show ?thesis using assms d by (subst unat_add_no_wrap) (simp_all add: d)
qed

lemma decode_size:
  assumes "n < 2 ^ 63"
  shows "unat ((of_nat n :: u64) div 4 * 3) = n div 4 * 3"
proof -
  have d: "unat ((of_nat n :: u64) div 4) = n div 4"
    using assms by (simp add: unat_div unat_of_nat_small)
  show ?thesis using assms by (subst unat_mult_lem [THEN iffD1]) (simp_all add: d)
qed

lemma base64_encode_some:
  assumes "base64_encode apic m src = Some (Some (a, bs), m')"
  shows "kmalloc apic m (of_nat (length src) * 4 div 3 + 4) = Some (a, m')" "a \<noteq> 0"
    "bs = encode_loop src"
  using assms by (auto simp: base64_encode_def Let_def bind_eq_Some_conv split: if_splits)

lemma base64_decode_some:
  assumes "base64_decode apic m src = Some (Some (a, bs), m')"
  shows "kmalloc apic m (of_nat (length (filter (\<lambda>c. dec1 c \<noteq> 0x80) src)) div 4 * 3) = Some (a, m')"
    "a \<noteq> 0" "decode_loop src 0 [] [] = Some bs"
  using assms by (auto simp: base64_decode_def Let_def bind_eq_Some_conv split: if_splits)

lemma encode_fits: "(n + 2) div 3 * 4 \<le> n * 4 div 3 + (4 :: nat)"
  by presburger

text \<open>Characters outside the table before and after the code do not matter.\<close>

lemma decode_prefix: "\<forall>c\<in>set pre. dec1 c = 0x80 \<Longrightarrow> decode_loop (pre @ cs) 0 [] out = decode_loop cs 0 [] out"
  by (induction pre) simp_all

lemma decode_of_encode:
  assumes "src \<noteq> []" "length src < 2 ^ 61" "\<forall>c\<in>set pre \<union> set tail. dec1 c = 0x80"
  shows "base64_decode apic m (pre @ encode_loop src @ tail) =
    map_option (\<lambda>(r, m2). (if r = 0 then None else Some (r, src), m2)) (kmalloc apic m (of_nat ((length src + 2) div 3 * 3)))"
proof -
  define g where "g = (length src + 2) div 3"
  have "0 < length src" using assms(1) by simp
  with assms(2) have g: "0 < g" "g < 2 ^ 60" unfolding g_def by (presburger, simp)
  have "filter (\<lambda>c. dec1 c \<noteq> 0x80) pre = []" "filter (\<lambda>c. dec1 c \<noteq> 0x80) tail = []" using assms(3) by auto
  then have count: "length (filter (\<lambda>c. dec1 c \<noteq> 0x80) (pre @ encode_loop src @ tail)) = g * 4"
    by (simp add: encode_loop_valid encode_loop_length g_def)
  have u: "unat (of_nat (g * 4) :: u64) = g * 4" using g by (intro unat_of_nat_small) simp
  have c: "(of_nat (g * 4) :: u64) \<noteq> 0" "(of_nat (g * 4) :: u64) mod 4 = 0"
    using g u by (simp_all add: word_unat_eq_iff unat_mod del: of_nat_mult)
  have "unat ((of_nat (g * 4) :: u64) div 4 * 3) = unat (of_nat (g * 3) :: u64)"
    using g by (simp add: decode_size unat_of_nat_small del: of_nat_mult)
  then have d: "(of_nat (g * 4) :: u64) div 4 * 3 = of_nat (g * 3)" by (simp only: word_unat_eq_iff)
  have loop: "decode_loop (pre @ encode_loop src @ tail) 0 [] [] = Some src"
    using assms(3) by (simp add: decode_prefix decode_encode_tail)
  show ?thesis
    unfolding base64_decode_def count Let_def d g_def [symmetric] loop using c
    by (cases "kmalloc apic m (of_nat (g * 3))") (auto simp del: of_nat_mult)
qed

section \<open>Properties\<close>

text \<open>C14: decoding what \<open>base64_encode\<close> wrote for at least one and less than \<open>2 ^ 61\<close> bytes
  gives the encoded bytes back, in a buffer of exactly the size the groups need, unless
  \<open>kmalloc\<close> has no memory left for it. The empty input does not come back: its encoding is
  empty, and \<open>base64_decode\<close> returns \<open>NULL\<close> for it.\<close>

theorem base64_roundtrip:
  assumes "length src < 2 ^ 61" and "base64_encode apic m src = Some (Some (a, enc), m1)"
  shows "base64_decode apic m1 enc =
    (if src = [] then Some (None, m1)
     else map_option (\<lambda>(r, m2). (if r = 0 then None else Some (r, src), m2))
       (kmalloc apic m1 (of_nat ((length src + 2) div 3 * 3))))"
proof (cases "src = []")
  case True
  then show ?thesis using base64_encode_some(3) [OF assms(2)] by (simp add: base64_decode_def)
next
  case False
  from decode_of_encode [OF this assms(1), of "[]" "[]" apic m1] base64_encode_some(3) [OF assms(2)] False
  show ?thesis by simp
qed

definition demo_text :: "u8 list" where
  "demo_text = map of_char ''Nile OS''"

lemma demo_encode: "base64_encode 0 demo_allocator demo_text =
    Some (Some (0x2E00010, map of_char ''TmlsZSBPUw==''),
      demo_allocator\<lparr>kernel_memory_current_address := 0x2E0001D\<rparr>)"
  by code_simp

theorem base64_roundtrip_witness:
  "base64_decode 0 (demo_allocator\<lparr>kernel_memory_current_address := 0x2E0001D\<rparr>)
     (map of_char ''TmlsZSBPUw=='') =
   map_option (\<lambda>(r, m2). (if r = 0 then None else Some (r, demo_text), m2))
     (kmalloc 0 (demo_allocator\<lparr>kernel_memory_current_address := 0x2E0001D\<rparr>) 9)"
  using base64_roundtrip [OF _ demo_encode] by (simp add: demo_text_def)

text \<open>The bytes either operation writes lie inside the block it allocated: at or above
  the old current address of the kernel heap and below the new one.\<close>

theorem base64_output_inside_block:
  assumes "kernel_ok m" and "length src < 2 ^ 61"
    and "base64_encode apic m src = Some (Some (a, bs), m') \<or>
         base64_decode apic m src = Some (Some (a, bs), m')"
  shows "unat (kernel_memory_current_address m) \<le> unat a \<and>
    unat a + length bs \<le> unat (kernel_memory_current_address m') \<and>
    kernel_memory_current_address m' < kernel_memory_end_address m \<and> kernel_ok m'"
proof -
  have "\<exists>n. kmalloc apic m n = Some (a, m') \<and> a \<noteq> 0 \<and> n < 2 ^ 62 \<and> length bs \<le> unat n"
    using assms(3)
  proof
    assume e: "base64_encode apic m src = Some (Some (a, bs), m')"
    note s = base64_encode_some [OF e]
    have "length bs \<le> unat ((of_nat (length src) :: u64) * 4 div 3 + 4)"
      using encode_fits [of "length src"] by (simp only: encode_size [OF assms(2)] s encode_loop_length)
    moreover have "(of_nat (length src) :: u64) * 4 div 3 + 4 < 2 ^ 62"
      using assms(2) unfolding word_less_nat_alt encode_size [OF assms(2)] by simp
    ultimately show ?thesis using s by blast
  next
    assume d: "base64_decode apic m src = Some (Some (a, bs), m')"
    note s = base64_decode_some [OF d]
    define k where "k = length (filter (\<lambda>c. dec1 c \<noteq> 0x80) src)"
    have k: "k < 2 ^ 61" using assms(2) length_filter_le le_less_trans unfolding k_def by blast
    then have u: "unat ((of_nat k :: u64) div 4 * 3) = k div 4 * 3" by (simp add: decode_size)
    have "length bs \<le> k div 4 * 3"
      using decode_loop_length [OF _ s(3)] by (simp add: k_def)
    moreover have "(of_nat k :: u64) div 4 * 3 < 2 ^ 62"
      unfolding word_less_nat_alt u using k by simp
    ultimately show ?thesis using s(1,2) u unfolding k_def [symmetric] by metis
  qed
  then obtain n where n: "kmalloc apic m n = Some (a, m')" "a \<noteq> 0" "n < 2 ^ 62" "length bs \<le> unat n"
    by blast
  from kmalloc.granted [OF assms(1) n(3,1,2)] kmalloc.keeps_ok [OF assms(1) n(3,1)] n(4)
  show ?thesis by (auto simp: word_less_nat_alt)
qed

theorem base64_output_inside_block_witness:
  "unat (0x2E00010 :: u64) + length (map of_char ''TmlsZSBPUw=='' :: u8 list) \<le> unat (0x2E0001D :: u64)"
  using base64_output_inside_block [OF demo_allocator_ok(1) _ disjI1 [OF demo_encode]]
  by (simp add: demo_text_def)

end
