(* ===== verification/MemCopy.thy ===== *)
theory MemCopy
  imports KMalloc
begin

text \<open>
  The table-driven block copy and block exchange of \<open>misc/memcpy.c\<close> and
  \<open>misc/memswap.c\<close>. Slot \<open>i\<close> of a table holds the assembler routine that handles
  \<open>i\<close> bytes (\<open>256\<close> in slot 0) and returns that number; a routine is represented by
  its number and acts as \<open>copy_bytes\<close> or \<open>swap_bytes\<close> on blocks that do not overlap
  (\<open>asm/stage2/misc/memcpy.asm\<close>, \<open>asm/stage2/misc/memswap.asm\<close>). The two loops
  share one contract, the locale \<open>chunked\<close>: a block operation that splits into chunks.
\<close>

section \<open>The routines and their tables\<close>

definition copy_bytes :: "nat \<Rightarrow> u64 \<Rightarrow> u64 \<Rightarrow> memory \<Rightarrow> memory" where
  "copy_bytes n dest src mem = (\<lambda>a. if unat (a - dest) < n then mem (src + (a - dest)) else mem a)"

definition swap_bytes :: "nat \<Rightarrow> u64 \<Rightarrow> u64 \<Rightarrow> memory \<Rightarrow> memory" where
  "swap_bytes n dest src mem =
     (\<lambda>a. if unat (a - dest) < n then mem (src + (a - dest))
           else if unat (a - src) < n then mem (dest + (a - src)) else mem a)"

definition init_fast_memcpy_handlers :: "nat list" where
  "init_fast_memcpy_handlers = 256 # [1..<256]"

definition init_fast_memswap_handlers :: "nat list" where
  "init_fast_memswap_handlers = 256 # [1..<256]"

lemma table_entry:
  fixes l :: u64
  assumes "l \<noteq> 0" and b: "b = (256 # [1..<256]) ! unat (ucast l :: u8)"
  shows "0 < b" "b \<le> 256" "b \<le> unat l"
proof -
  have u: "unat (ucast l :: u8) = unat l mod 256" by (simp add: unsigned_ucast_eq take_bit_eq_mod)
  have l: "0 < unat l" using assms(1) by (simp add: unat_gt_0)
  have *: "b = (if unat l mod 256 = 0 then 256 else unat l mod 256)"
    unfolding b u by (simp add: nth_Cons split: nat.splits)
  show "0 < b" "b \<le> 256" unfolding * by (simp_all add: less_imp_le)
  show "b \<le> unat l" unfolding * using l by (simp add: mod_eq_0_iff_dvd dvd_imp_le)
qed

lemma take_chunk:
  fixes l :: u64
  assumes "l \<noteq> 0" and "b = (256 # [1..<256]) ! unat (ucast l :: u8)"
  shows "unat (l - of_nat b) = unat l - b" "unat (l - of_nat b) < unat l"
proof -
  note t = table_entry [OF assms]
  have b: "unat (of_nat b :: u64) = b" using t(2) by (intro unat_of_nat_small) simp
  have "of_nat b \<le> l" using t(3) b by (simp add: word_le_nat_alt)
  then show "unat (l - of_nat b) = unat l - b" by (simp add: unat_sub b)
  then show "unat (l - of_nat b) < unat l" using t by simp
qed

section \<open>The loops\<close>

function memcpy_loop :: "u64 \<Rightarrow> u64 \<Rightarrow> u64 \<Rightarrow> u64 \<Rightarrow> memory \<Rightarrow> memory" where
  "memcpy_loop dest src ab l mem =
     (if l = 0 then mem
      else let b = init_fast_memcpy_handlers ! unat (ucast l :: u8)
           in memcpy_loop dest src (ab + of_nat b) (l - of_nat b)
                (copy_bytes b (dest + ab) (src + ab) mem))"
  by pat_completeness auto

termination
  by (relation "measure (\<lambda>(dest, src, ab, l, mem). unat l)")
    (auto simp: init_fast_memcpy_handlers_def take_chunk(2))

text \<open>The running offset of the exchange is a \<open>uint16_t\<close>.\<close>

function memswap_loop :: "u64 \<Rightarrow> u64 \<Rightarrow> u16 \<Rightarrow> u64 \<Rightarrow> memory \<Rightarrow> memory" where
  "memswap_loop dest src ab l mem =
     (if l = 0 then mem
      else let b = init_fast_memswap_handlers ! unat (ucast l :: u8)
           in memswap_loop dest src (ab + of_nat b) (l - of_nat b)
                (swap_bytes b (dest + ucast ab) (src + ucast ab) mem))"
  by pat_completeness auto

termination
  by (relation "measure (\<lambda>(dest, src, ab, l, mem). unat l)")
    (auto simp: init_fast_memswap_handlers_def take_chunk(2))

declare memcpy_loop.simps [simp del] memswap_loop.simps [simp del]

definition fast_memcpy :: "u64 \<Rightarrow> u64 \<Rightarrow> u64 \<Rightarrow> memory \<Rightarrow> memory" where
  "fast_memcpy dest src l mem = memcpy_loop dest src 0 l mem"

definition fast_memswap :: "u64 \<Rightarrow> u64 \<Rightarrow> u64 \<Rightarrow> memory \<Rightarrow> memory" where
  "fast_memswap dest src l mem = memswap_loop dest src 0 l mem"

section \<open>Operations that split into chunks\<close>

locale chunked =
  fixes loop :: "'w::len word \<Rightarrow> u64 \<Rightarrow> 's \<Rightarrow> 's"
    and chunk :: "nat \<Rightarrow> 'w word \<Rightarrow> 's \<Rightarrow> 's"
    and block :: "nat \<Rightarrow> nat \<Rightarrow> 's \<Rightarrow> 's"
    and total :: nat
  assumes loop_unfold: "loop ab l s =
      (if l = 0 then s
       else let b = (256 # [1..<256]) ! unat (ucast l :: u8)
            in loop (ab + of_nat b) (l - of_nat b) (chunk b ab s))"
    and total_fits: "total \<le> 2 ^ LENGTH('w)" "total \<le> 2 ^ 64"
    and chunk_block: "unat ab + b \<le> total \<Longrightarrow> chunk b ab s = block (unat ab) b s"
    and block_none: "block n 0 s = s"
    and block_split: "n + m + k \<le> total \<Longrightarrow> block (n + m) k (block n m s) = block n (m + k) s"
begin

lemma loop_block: "unat ab + unat l \<le> total \<Longrightarrow> loop ab l s = block (unat ab) (unat l) s"
proof (induction "unat l" arbitrary: ab l s rule: less_induct)
  case less
  show ?case
  proof (cases "l = 0")
    case True
    then show ?thesis by (subst loop_unfold) (simp add: block_none)
  next
    case False
    define b where "b = (256 # [1..<256]) ! unat (ucast l :: u8)"
    note t = table_entry [OF False b_def] and c = take_chunk [OF False b_def]
    have step: "loop ab l s = loop (ab + of_nat b) (l - of_nat b) (block (unat ab) b s)"
      using chunk_block [of ab b s] less.prems t(3)
      by (subst loop_unfold) (simp add: False Let_def b_def [simplified, symmetric])
    show ?thesis
    proof (cases "unat l = b")
      case True
      with c(1) have z: "l - of_nat b = 0" by (simp add: unat_eq_0)
      have "loop (ab + of_nat b) 0 t = t" for t by (subst loop_unfold) simp
      then show ?thesis by (simp only: step z True)
    next
      case rest: False
      with t(3) have lt: "b < unat l" by simp
      then have "unat ab + b < 2 ^ LENGTH('w)" using less.prems total_fits(1) by linarith
      then have u: "unat (ab + of_nat b) = unat ab + b"
        by (simp add: unat_add_no_wrap unat_of_nat_small)
      have "loop (ab + of_nat b) (l - of_nat b) (block (unat ab) b s) =
          block (unat (ab + of_nat b)) (unat (l - of_nat b)) (block (unat ab) b s)"
        by (rule less.hyps) (use c u less.prems lt in auto)
      also have "\<dots> = block (unat ab) (b + (unat l - b)) s"
        unfolding u c(1) by (rule block_split) (use less.prems lt in simp)
      finally show ?thesis unfolding step using lt by simp
    qed
  qed
qed

end

text \<open>The length up to which blocks at \<open>dest\<close> and \<open>src\<close> have no address in
  common.\<close>

definition gap :: "u64 \<Rightarrow> u64 \<Rightarrow> nat" where
  "gap dest src = min (unat (dest - src)) (unat (src - dest))"

lemma gap_le: "gap dest src \<le> 2 ^ 64"
proof -
  have "unat (dest - src) < 2 ^ 64" using unsigned_less [where 'b = 64] by fastforce
  then show ?thesis by (simp add: gap_def)
qed

lemma gap_apart:
  assumes "unat (a - dest) < gap dest src" and "unat (a - src) < gap dest src"
  shows False
proof -
  have "a - dest < src - dest" "a - src < dest - src"
    using assms by (simp_all add: gap_def word_less_nat_alt)
  then show False by uint_arith
qed

text \<open>\<open>block_copy n m\<close> copies the bytes with offsets \<open>n, \<dots>, n + m - 1\<close>.\<close>

definition block_copy :: "u64 \<Rightarrow> u64 \<Rightarrow> nat \<Rightarrow> nat \<Rightarrow> memory \<Rightarrow> memory" where
  "block_copy dest src n m mem =
     (\<lambda>a. if n \<le> unat (a - dest) \<and> unat (a - dest) < n + m then mem (src + (a - dest)) else mem a)"

definition block_swap :: "u64 \<Rightarrow> u64 \<Rightarrow> nat \<Rightarrow> nat \<Rightarrow> memory \<Rightarrow> memory" where
  "block_swap dest src n m mem =
     (\<lambda>a. if n \<le> unat (a - dest) \<and> unat (a - dest) < n + m then mem (src + (a - dest))
           else if n \<le> unat (a - src) \<and> unat (a - src) < n + m then mem (dest + (a - src)) else mem a)"

lemma unat_shifted:
  fixes x ab :: u64
  assumes "unat ab + b \<le> 2 ^ 64"
  shows "unat (x - ab) < b \<longleftrightarrow> unat ab \<le> unat x \<and> unat x < unat ab + b"
proof (cases "ab \<le> x")
  case True
  then show ?thesis by (auto simp: unat_sub word_le_nat_alt)
next
  case False
  then have lt: "unat x < unat ab" by (simp add: word_less_nat_alt not_le)
  have "unat (x - ab) = 2 ^ 64 + unat x - unat ab"
    using lt by (simp add: unat_sub_if')
  with lt assms show ?thesis by auto
qed

lemma block_copy_split:
  assumes "n + m + k \<le> gap dest src"
  shows "block_copy dest src (n + m) k (block_copy dest src n m mem) = block_copy dest src n (m + k) mem"
proof
  fix a
  have "\<not> unat (src + (a - dest) - dest) < n + m + k" if "unat (a - dest) < n + m + k"
    using gap_apart [of "src + (a - dest)" dest src] that assms by auto
  then show "block_copy dest src (n + m) k (block_copy dest src n m mem) a =
      block_copy dest src n (m + k) mem a"
    by (auto simp: block_copy_def)
qed

lemma block_swap_split:
  assumes "n + m + k \<le> gap dest src"
  shows "block_swap dest src (n + m) k (block_swap dest src n m mem) = block_swap dest src n (m + k) mem"
proof
  fix a
  have x: "\<not> unat (src + (a - dest) - dest) < n + m + k" if "unat (a - dest) < n + m + k"
    using gap_apart [of "src + (a - dest)" dest src] that assms by auto
  have y: "\<not> unat (dest + (a - src) - src) < n + m + k" if "unat (a - src) < n + m + k"
    using gap_apart [of "dest + (a - src)" dest src] that assms by auto
  have z: "\<not> (unat (a - dest) < n + m + k \<and> unat (a - src) < n + m + k)"
    using gap_apart [of a dest src] assms by auto
  show "block_swap dest src (n + m) k (block_swap dest src n m mem) a =
      block_swap dest src n (m + k) mem a"
    using x y z by (auto simp: block_swap_def)
qed

interpretation cp: chunked "memcpy_loop dest src" "\<lambda>b ab. copy_bytes b (dest + ab) (src + ab)"
    "block_copy dest src" "gap dest src" for dest src
proof (unfold_locales, goal_cases)
  case (1 ab l s)
  show ?case by (subst memcpy_loop.simps) (simp add: init_fast_memcpy_handlers_def)
next
  case 2
  show ?case using gap_le by simp
next
  case 3
  show ?case using gap_le by simp
next
  case (4 ab b s)
  then have "unat ab + b \<le> 2 ^ 64" using gap_le order_trans by blast
  from unat_shifted [OF this] show ?case
    by (simp add: copy_bytes_def block_copy_def fun_eq_iff diff_diff_add [symmetric] add.assoc)
next
  case (5 n s)
  show ?case by (auto simp: block_copy_def fun_eq_iff)
next
  case (6 n m k s)
  then show ?case by (rule block_copy_split)
qed

interpretation sw: chunked "memswap_loop dest src"
    "\<lambda>b ab. swap_bytes b (dest + ucast ab) (src + ucast ab)"
    "block_swap dest src" "min (gap dest src) 65536" for dest src
proof (unfold_locales, goal_cases)
  case (1 ab l s)
  show ?case by (subst memswap_loop.simps) (simp add: init_fast_memswap_handlers_def)
next
  case 2
  show ?case by simp
next
  case 3
  show ?case using gap_le by simp
next
  case (4 ab b s)
  have u: "unat (ucast ab :: u64) = unat ab" 
  proof -
    have "unat ab < 2 ^ 16" using unsigned_less [of ab] by simp
    then show ?thesis by (simp add: unsigned_ucast_eq take_bit_nat_eq_self)
  qed
  from 4 have "unat (ucast ab :: u64) + b \<le> 2 ^ 64" unfolding u by simp
  from unat_shifted [OF this] show ?case
    by (simp add: u swap_bytes_def block_swap_def fun_eq_iff diff_diff_add [symmetric] add.assoc)
next
  case (5 n s)
  show ?case by (auto simp: block_swap_def fun_eq_iff)
next
  case (6 n m k s)
  then show ?case by (intro block_swap_split) simp
qed

lemma whole_block:
  "block_copy dest src 0 (unat l) mem = (\<lambda>a. if a - dest < l then mem (src + (a - dest)) else mem a)"
  "block_swap dest src 0 (unat l) mem =
     (\<lambda>a. if a - dest < l then mem (src + (a - dest))
           else if a - src < l then mem (dest + (a - src)) else mem a)"
  by (simp_all add: block_copy_def block_swap_def word_less_nat_alt fun_eq_iff)

section \<open>Properties\<close>

text \<open>C16: on blocks that do not overlap, \<open>fast_memcpy\<close> ends and has copied exactly the
  \<open>l\<close> bytes from \<open>src\<close> to \<open>dest\<close>, whatever the length, and \<open>fast_memswap\<close>
  has exchanged the two blocks if they are not longer than the range of its 16-bit offset.\<close>

theorem fast_copy_and_swap_correct:
  assumes "unat l \<le> gap dest src"
  shows "fast_memcpy dest src l mem = (\<lambda>a. if a - dest < l then mem (src + (a - dest)) else mem a) \<and>
    (unat l \<le> 65536 \<longrightarrow> fast_memswap dest src l mem =
       (\<lambda>a. if a - dest < l then mem (src + (a - dest))
             else if a - src < l then mem (dest + (a - src)) else mem a))"
proof -
  have "fast_memcpy dest src l mem = block_copy dest src 0 (unat l) mem"
    using cp.loop_block [of 0 l dest src mem] assms by (simp add: fast_memcpy_def)
  moreover have "fast_memswap dest src l mem = block_swap dest src 0 (unat l) mem"
    if "unat l \<le> 65536"
    using sw.loop_block [of 0 l dest src mem] assms that by (simp add: fast_memswap_def)
  ultimately show ?thesis by (simp add: whole_block)
qed

theorem fast_copy_and_swap_correct_witness:
  "fast_memswap 0x1000 0x2000 6 (\<lambda>a. ucast (a div 256)) 0x1005 = 0x20 \<and>
   fast_memcpy 0x1000 0x2000 6 (\<lambda>a. ucast (a div 256)) 0x1005 = 0x20"
  using fast_copy_and_swap_correct [of 6 "0x1000" "0x2000" "\<lambda>a. ucast (a div 256)"]
  by (simp add: gap_def)

end
