(* ===== verification/Apic.thy ===== *)
theory Apic
  imports PhysicalMemory MemCopy
begin

text \<open>
  The local and IO interrupt controllers (\<open>devices/apic/APIC.c\<close>,
  \<open>devices/apic/APICManager.c\<close>), inter-processor interrupts (\<open>ipi/ipi.c\<close>) and the
  register access they use (\<open>misc/CoreUtils.c\<close>).

  A device register is accessed through a bus: the writes made so far, in order, and the number of
  reads. What a read returns is up to the hardware: a \<open>device\<close> is a function of the writes, the
  number of reads and the address. Waiting for a register uses \<^const>\<open>while_option\<close>, so a
  device that never becomes ready is the value \<open>None\<close>.
\<close>

section \<open>Registers\<close>

type_synonym device = "(u64 \<times> u32) list \<Rightarrow> nat \<Rightarrow> u64 \<Rightarrow> u32"

record bus =
  bus_writes :: "(u64 \<times> u32) list"
  bus_reads :: nat

definition writeLocalAPIC :: "u64 \<Rightarrow> u32 \<Rightarrow> bus \<Rightarrow> bus" where
  "writeLocalAPIC p_reg p_val b = b\<lparr>bus_writes := bus_writes b @ [(p_reg, p_val)]\<rparr>"

definition readLocalAPIC :: "device \<Rightarrow> u64 \<Rightarrow> bus \<Rightarrow> u32 \<times> bus" where
  "readLocalAPIC dev p_reg b = (dev (bus_writes b) (bus_reads b) p_reg, b\<lparr>bus_reads := bus_reads b + 1\<rparr>)"

text \<open>\<open>MID(k, m, n)\<close> keeps \<open>n - m\<close> bits from bit \<open>m\<close> on.\<close>

definition createMask :: "u32 \<Rightarrow> nat \<Rightarrow> nat \<Rightarrow> u32" where
  "createMask p_value p_start p_end = drop_bit p_start p_value AND (push_bit (p_end - p_start) 1 - 1)"

definition getAPICId :: "device \<Rightarrow> u64 \<Rightarrow> bus \<Rightarrow> u32 \<times> bus" where
  "getAPICId dev p_reg b = (let (cpuid, b) = readLocalAPIC dev p_reg b in (createMask cpuid 24 31, b))"

section \<open>State\<close>

text \<open>The queue of network requests of a core (\<open>IPIoE.h\<close>) is part of its controller.\<close>

record IPIOE_Packet =
  version :: u8
  IHL :: u8
  opcode :: u8
  dataLength :: u16
  messageID :: u16
  ip_checksum :: u16
  sourceCore :: u16
  destinationCore :: u16
  ip_flags :: u16
  serviceNumber :: u8
  methodNumber :: u8

record IPIoE_Queue_Entry =
  smac :: "u8 list"
  dmac :: "u8 list"
  ipioe_p :: IPIOE_Packet
  ipdata :: "u8 list"

record Worker =
  ipioe_queue :: "IPIoE_Queue_Entry list"
  queue_size :: u16
  queue_index :: u16
  queue_end :: u16
  wlock :: spinlock_t
  is_running :: bool

record APIC =
  apic_id :: u16
  apicio_base :: u64
  lapic_base :: u64
  lapic_reg :: u64
  lapic_apicver :: u64
  lapic_taskprior :: u64
  lapic_eoi :: u64
  lapic_ldr :: u64
  lapic_dfr :: u64
  lapic_svr :: u64
  lapic_esr :: u64
  lapic_icr0 :: u64
  lapic_icr1 :: u64
  lapic_lvt_tmr :: u64
  lapic_lvt_perf :: u64
  lapic_lvt_lint0 :: u64
  lapic_lvt_lint1 :: u64
  lapic_lvt_err :: u64
  lapic_tmr_init_cnt :: u64
  lapic_tmr_curr_cnt :: u64
  lapic_tmr_div :: u64
  lapic_last :: u64
  lapic_disable :: u64
  lapic_sw_enable :: u64
  lapic_cpufocus :: u64
  lapic_nmi :: u64
  tmr_periodic :: u64
  tmr_basediv :: u64
  bsp :: bool
  timer_enabled :: bool
  touch_flag :: bool
  stack_ptr :: u64
  kstack_ptr :: u64
  pit_counter :: u64
  wakeup_counter :: u64
  wakeup_apic_id :: u16
  wakeup_interrupt :: u16
  ipioe_spinlock :: spinlock_t
  ipioe_auto_replies :: bool
  ipioe_raised :: bool
  worker :: Worker
  fired_interrupts :: "u8 list"
  role :: "u8 list"

text \<open>The parts of the kernel the controllers use: \<open>core_id\<close> is \<open>apicManager.returns\<close>,
  \<open>local_apic_addr\<close> and \<open>local_apicio_addr\<close> are found by ACPI.\<close>

record apic_state =
  apics :: "APIC list"
  apics_count :: u8
  core_id_ret :: u32
  local_apic_addr :: u64
  local_apicio_addr :: u64
  ap_pm :: PhysicalMemoryManager
  ap_alloc :: MemoryAllocator
  ap_mem :: memory
  ap_bus :: bus

definition on_bus :: "(bus \<Rightarrow> bus) \<Rightarrow> apic_state \<Rightarrow> apic_state" where
  "on_bus f st = st\<lparr>ap_bus := f (ap_bus st)\<rparr>"

definition set_apic :: "nat \<Rightarrow> APIC \<Rightarrow> apic_state \<Rightarrow> apic_state" where
  "set_apic i a st = st\<lparr>apics := (apics st)[i := a]\<rparr>"

text \<open>A call of \<open>get_virtual_address\<close> of the physical memory service.\<close>

definition virtual_of :: "u64 \<Rightarrow> apic_state \<Rightarrow> u64 \<times> apic_state" where
  "virtual_of pa st =
     (let pm = GetVirtualAddress ((ap_pm st)\<lparr>params := (params (ap_pm st))\<lparr>p_physical_address := pa\<rparr>\<rparr>)
      in (virtualAddress (returns pm), st\<lparr>ap_pm := pm\<rparr>))"

definition getCurrentCoreId :: "device \<Rightarrow> apic_state \<Rightarrow> apic_state" where
  "getCurrentCoreId dev st =
     (let (reg, st) = virtual_of (local_apic_addr st) st;
          (c, b) = getAPICId dev (reg + 0x20) (ap_bus st)
      in st\<lparr>core_id_ret := c, ap_bus := b\<rparr>)"

section \<open>The IO controller\<close>

definition ioapicRead :: "device \<Rightarrow> APIC \<Rightarrow> u8 \<Rightarrow> bus \<Rightarrow> u32 \<times> bus" where
  "ioapicRead dev a p_index b =
     readLocalAPIC dev (apicio_base a + 0x10) (writeLocalAPIC (apicio_base a + 0x00) (ucast p_index) b)"

definition ioapicWrite :: "APIC \<Rightarrow> u8 \<Rightarrow> u32 \<Rightarrow> bus \<Rightarrow> bus" where
  "ioapicWrite a p_index p_value b =
     writeLocalAPIC (apicio_base a + 0x10) p_value (writeLocalAPIC (apicio_base a + 0x00) (ucast p_index) b)"

definition irq_high :: "u16 \<Rightarrow> u32 \<Rightarrow> u32" where
  "irq_high i high = (high AND NOT 0xFF000000) OR push_bit 24 (ucast i)"

definition irq_low :: "u8 \<Rightarrow> u32 \<Rightarrow> u32" where
  "irq_low p_vector low =
     ((((low AND NOT (push_bit 16 1)) AND NOT (push_bit 11 1)) AND NOT 0x700) AND NOT 0xFF) OR ucast p_vector"

definition mapAPICIRQ :: "device \<Rightarrow> APIC \<Rightarrow> u8 \<Rightarrow> u8 \<Rightarrow> bus \<Rightarrow> bus" where
  "mapAPICIRQ dev a p_irq p_vector b =
     (let low_index = 0x10 + p_irq * 2;
          high_index = 0x10 + p_irq * 2 + 1;
          (high, b) = ioapicRead dev a high_index b;
          b = ioapicWrite a high_index (irq_high (apic_id a) high) b;
          (low, b) = ioapicRead dev a low_index b
      in ioapicWrite a low_index (irq_low p_vector low) b)"

section \<open>The local controller\<close>

definition initAPICIO :: "APIC \<Rightarrow> bus \<Rightarrow> bus" where
  "initAPICIO a b =
     (let b = writeLocalAPIC (lapic_taskprior a) 0 b;
          b = writeLocalAPIC (lapic_dfr a) 0xFFFFFFFF b;
          b = writeLocalAPIC (lapic_ldr a) 0x01000000 b
      in writeLocalAPIC (lapic_svr a) (0x100 OR 0xFF) b)"

definition disableAPICTimer :: "APIC \<Rightarrow> bus \<Rightarrow> bus" where
  "disableAPICTimer a b = writeLocalAPIC (lapic_lvt_tmr a) 0x010000 b"

text \<open>\<open>enableAPICTimer\<close> without the registration of its handler (\<open>Interrupts\<close>): it counts
  for five seconds of the real-time clock and sets the period from the count.\<close>

definition enableAPICTimer :: "device \<Rightarrow> APIC \<Rightarrow> bus \<Rightarrow> APIC \<times> bus" where
  "enableAPICTimer dev a b =
     (let a = a\<lparr>pit_counter := 0\<rparr>;
          b = writeLocalAPIC (lapic_tmr_div a) 0x3 b;
          b = writeLocalAPIC (lapic_tmr_init_cnt a) 0xFFFFFFFF b;
          (current_timer, b) = readLocalAPIC dev (lapic_tmr_curr_cnt a) b;
          b = writeLocalAPIC (lapic_lvt_tmr a) 0x010000 b;
          (svr, b) = readLocalAPIC dev (lapic_svr a) b;
          b = writeLocalAPIC (lapic_svr a) (svr OR 0x100 OR 0xFF) b;
          b = writeLocalAPIC (lapic_lvt_tmr a) (ucast (32 OR tmr_periodic a)) b;
          b = writeLocalAPIC (lapic_tmr_div a) 0x3 b;
          b = writeLocalAPIC (lapic_tmr_init_cnt a)
                (ucast ((0xFFFFFFFF - (ucast current_timer :: u64)) div (5 * 30))) b
      in (a\<lparr>timer_enabled := True\<rparr>, b))"

definition sendAPICEOI :: "APIC \<Rightarrow> bus \<Rightarrow> bus" where
  "sendAPICEOI a b = writeLocalAPIC (lapic_eoi a) 0 b"

text \<open>The two start-up commands of an application processor, up to the wait for its
  \<open>touch_flag\<close>, which another core sets.\<close>

definition startup :: "APIC \<Rightarrow> bus \<Rightarrow> bool \<times> bus" where
  "startup a b =
     (if bsp a then (True, b)
      else let core = push_bit 24 (ucast (apic_id a));
               b = writeLocalAPIC (lapic_icr1 a) core b;
               b = writeLocalAPIC (lapic_icr0 a) (0x4500 OR 0x0A) b;
               b = writeLocalAPIC (lapic_icr1 a) core b;
               b = writeLocalAPIC (lapic_icr0 a) (0x4600 OR 0x0A) b;
               b = writeLocalAPIC (lapic_icr0 a) (0x4600 OR 0x0A) b
           in (True, b))"

section \<open>Inter-processor interrupts\<close>

text \<open>The loop \<open>for (; readLocalAPIC(icr0) & 0x1000;)\<close>: one read per test.\<close>

definition wait_delivered :: "device \<Rightarrow> u64 \<Rightarrow> bus \<Rightarrow> bus option" where
  "wait_delivered dev icr0 b =
     map_option snd (while_option (\<lambda>(v, b). v AND 0x1000 \<noteq> 0) (\<lambda>(v, b). readLocalAPIC dev icr0 b)
       (readLocalAPIC dev icr0 b))"

definition SendFixedIPI :: "device \<Rightarrow> APIC \<Rightarrow> u8 \<Rightarrow> bus \<Rightarrow> bus option" where
  "SendFixedIPI dev a p_irq b =
     (let b = writeLocalAPIC (lapic_icr1 a) (push_bit 24 (ucast (apic_id a))) b;
          b = writeLocalAPIC (lapic_icr0 a) (0x4000 OR ucast p_irq) b
      in wait_delivered dev (lapic_icr0 a) b)"

definition sendIPI :: "device \<Rightarrow> u16 \<Rightarrow> u8 \<Rightarrow> apic_state \<Rightarrow> apic_state result option" where
  "sendIPI dev receiverCore_id p_irq st =
     (if unat receiverCore_id < length (apics st)
      then map_option (\<lambda>b. Inr (st\<lparr>ap_bus := b\<rparr>))
             (SendFixedIPI dev (apics st ! unat receiverCore_id) p_irq (ap_bus st))
      else Some (Inl Out_of_bounds))"

datatype ipi_method = sendIPI_f

definition InitializeIPI :: "ipi_method Service \<Rightarrow> (bool \<times> ipi_method Service) result" where
  "InitializeIPI p_service = and_then (call_add_services p_service [(sendIPI_f, 0)]) (\<lambda>srv. Inr (True, srv))"

section \<open>Initialisation\<close>

definition KERNEL_STACK_SIZE :: u64 where "KERNEL_STACK_SIZE = 0x24 * 0x1000"
definition USER_STACK_SIZE :: u64 where "USER_STACK_SIZE = 0x100 * 0x1000"

definition register_addresses :: "u64 \<Rightarrow> APIC \<Rightarrow> APIC" where
  "register_addresses base a = a\<lparr>
     lapic_reg := base + 0x20, lapic_apicver := base + 0x30, lapic_taskprior := base + 0x80,
     lapic_eoi := base + 0xB0, lapic_ldr := base + 0xD0, lapic_dfr := base + 0xE0,
     lapic_svr := base + 0xF0, lapic_esr := base + 0x280, lapic_icr0 := base + 0x300,
     lapic_icr1 := base + 0x310, lapic_lvt_tmr := base + 0x320, lapic_lvt_perf := base + 0x340,
     lapic_lvt_lint0 := base + 0x350, lapic_lvt_lint1 := base + 0x360, lapic_lvt_err := base + 0x370,
     lapic_tmr_init_cnt := base + 0x380, lapic_tmr_curr_cnt := base + 0x390,
     lapic_tmr_div := base + 0x3E0, lapic_last := base + 0x38F, lapic_disable := 0x10000,
     lapic_sw_enable := 0x100, lapic_cpufocus := 0x200, lapic_nmi := push_bit 8 4,
     tmr_periodic := 0x20000, tmr_basediv := push_bit 20 1\<rparr>"

definition init_worker :: "Worker \<Rightarrow> Worker" where
  "init_worker w = w\<lparr>is_running := True, queue_index := 0, queue_size := 0, queue_end := 0,
     wlock := spinlock_init (wlock w)\<rparr>"

text \<open>Storing a zero word on top of the user stack.\<close>

definition zero_word :: "u64 \<Rightarrow> memory \<Rightarrow> memory" where
  "zero_word a = mem_fill a 0 8"

definition initialize_apic :: "u32 \<Rightarrow> APIC \<Rightarrow> u16 \<Rightarrow> u64 \<Rightarrow> bool \<Rightarrow> apic_state \<Rightarrow>
    (APIC \<times> apic_state) option" where
  "initialize_apic self a p_apic_id p_local_apic p_bsp st =
     (let a = a\<lparr>apic_id := p_apic_id, lapic_base := p_local_apic\<rparr>;
          (io, st) = virtual_of (local_apicio_addr st) st;
          a = a\<lparr>apicio_base := io, fired_interrupts := replicate 256 0\<rparr>;
          a = register_addresses (lapic_base a) a;
          a = a\<lparr>bsp := p_bsp, touch_flag := p_bsp, timer_enabled := False\<rparr>
      in do {
        (sp, m) \<leftarrow> kvalloc self (ap_alloc st) USER_STACK_SIZE;
        (ksp, m) \<leftarrow> kvalloc self m KERNEL_STACK_SIZE;
        let a = a\<lparr>kstack_ptr := ksp + KERNEL_STACK_SIZE, stack_ptr := sp + USER_STACK_SIZE - 0x10\<rparr>;
        let mem = zero_word (stack_ptr a) (ap_mem st);
        let a = a\<lparr>pit_counter := 0, wakeup_counter := 0, wakeup_apic_id := 0\<rparr>;
        let (a, mem) = (if p_bsp then (a, mem)
             else (a\<lparr>worker := init_worker (worker a)\<rparr>,
                   fast_memcpy (0x200000 + ucast p_apic_id * 0x200000) 0x200000 0x100000 mem));
        Some (a\<lparr>role := replicate 5 0\<rparr>, st\<lparr>ap_alloc := m, ap_mem := mem\<rparr>)
      })"

fun initialize_apics :: "u32 \<Rightarrow> nat list \<Rightarrow> apic_state \<Rightarrow> apic_state option" where
  "initialize_apics self [] st = Some st"
| "initialize_apics self (i # is) st =
     (let (va, st) = virtual_of (local_apic_addr st) st
      in do {
        (a, st) \<leftarrow> initialize_apic self (apics st ! i) (of_nat i) va (i = 0) st;
        initialize_apics self is (set_apic i a st)
      })"

text \<open>The array of controllers is not cleared: \<open>raw\<close> is what its memory held. \<open>sz\<close> is
  \<open>sizeof(APIC)\<close>. Without a controller the access to element 0 is out of bounds.\<close>

datatype apic_method = startupAPIC_f | getCurrentCoreId_f | touchCore_f | moveInitialKernelStack_f

definition apic_methods :: "(apic_method \<times> int) list" where
  "apic_methods = [(startupAPIC_f, 0), (getCurrentCoreId_f, 1), (touchCore_f, 3), (moveInitialKernelStack_f, 2)]"

definition initAPICManager :: "u32 \<Rightarrow> u64 \<Rightarrow> (nat \<Rightarrow> APIC) \<Rightarrow> u8 \<Rightarrow> apic_state \<Rightarrow> apic_method Service \<Rightarrow>
    (apic_state \<times> apic_method Service) result option" where
  "initAPICManager self sz raw p_apics_count st p_service = do {
     let st = st\<lparr>apics_count := p_apics_count\<rparr>;
     (p, m) \<leftarrow> kmalloc self (ap_alloc st) (sz * ucast p_apics_count);
     let st = st\<lparr>ap_alloc := m, apics := map raw [0..<unat p_apics_count]\<rparr>;
     st \<leftarrow> initialize_apics self [0..<unat p_apics_count] st;
     Some (if p = 0 then Inl Null_pointer
           else if p_apics_count = 0 then Inl Out_of_bounds
           else and_then (call_add_services p_service apic_methods) (\<lambda>srv.
             Inr (on_bus (initAPICIO (apics st ! 0)) st, srv)))
   }"

definition startupAPIC :: "apic_state \<Rightarrow> apic_state" where
  "startupAPIC st = fold (\<lambda>i st. on_bus (\<lambda>b. snd (startup (apics st ! i) b)) st) [1..<unat (apics_count st)] st"

definition touchCore :: "device \<Rightarrow> apic_state \<Rightarrow> bool \<times> apic_state" where
  "touchCore dev st =
     (let st = getCurrentCoreId dev st; i = unat (core_id_ret st)
      in if i < unat (apics_count st)
         then (True, set_apic i ((apics st ! i)\<lparr>touch_flag := True\<rparr>) (on_bus (initAPICIO (apics st ! i)) st))
         else (False, st))"

section \<open>Moving the boot stack\<close>

text \<open>
  \<open>moveInitialKernelStack\<close> copies the words between the stack pointer (an argument here) and
  the start of the boot stack to the core's own stack, from the highest word down, and relocates
  the words that point into the old stack. The stack is a memory of words addressed by byte
  address. The result is the answer and, when the stack was moved, the new stack pointer. With
  no word to copy the loop would count down from \<open>2 ^ 64 - 1\<close>.
\<close>

definition move_word :: "u64 \<Rightarrow> u64 \<Rightarrow> u64 \<Rightarrow> nat \<Rightarrow> (u64 \<Rightarrow> u64) \<Rightarrow> u64 \<Rightarrow> u64" where
  "move_word p_start_stack old_sp diff i w =
     (let v = w (old_sp + of_nat i * 8)
      in w(old_sp + diff + of_nat i * 8 := (if v \<le> p_start_stack \<and> v \<ge> old_sp then v + diff else v)))"

definition moveInitialKernelStack :: "device \<Rightarrow> u64 \<Rightarrow> u64 \<Rightarrow> u64 \<Rightarrow> apic_state \<Rightarrow> (u64 \<Rightarrow> u64) \<Rightarrow>
    (u64 option \<times> apic_state \<times> (u64 \<Rightarrow> u64)) result" where
  "moveInitialKernelStack dev p_start_stack p_end_stack old_sp st w =
     (let st = getCurrentCoreId dev st; c = unat (core_id_ret st)
      in if c \<ge> length (apics st) then Inl Out_of_bounds
         else if p_start_stack - p_end_stack > KERNEL_STACK_SIZE then Inr (None, st, w)
         else let diff = stack_ptr (apics st ! c) - p_start_stack;
                  n = unat ((p_start_stack - old_sp) div 8)
              in if n = 0 then Inl Out_of_bounds
                 else Inr (Some (old_sp + diff), st,
                        fold (move_word p_start_stack old_sp diff) (rev [0..<n]) w))"

lemma move_words:
  assumes "\<forall>i<n. \<forall>j<n. old_sp + of_nat i * 8 \<noteq> old_sp + diff + of_nat j * 8"
    and "\<forall>i<n. \<forall>j<n. i \<noteq> j \<longrightarrow> (of_nat i * 8 :: u64) \<noteq> of_nat j * 8"
    and "set js \<subseteq> {..<n}" and "distinct js" and "k < n"
  shows "fold (move_word p old_sp diff) js w (old_sp + diff + of_nat k * 8) =
      (if k \<in> set js
       then let v = w (old_sp + of_nat k * 8) in if v \<le> p \<and> v \<ge> old_sp then v + diff else v
       else w (old_sp + diff + of_nat k * 8)) \<and>
    fold (move_word p old_sp diff) js w (old_sp + of_nat k * 8) = w (old_sp + of_nat k * 8)"
  using assms(3-5)
proof (induction js arbitrary: w k)
  case (Cons i js)
  let ?w = "move_word p old_sp diff i w"
  have i: "i < n" "i \<notin> set js" using Cons.prems by auto
  have src: "?w (old_sp + of_nat k * 8) = w (old_sp + of_nat k * 8)"
    using assms(1) i Cons.prems(3) by (simp add: move_word_def Let_def)
  have dst: "?w (old_sp + diff + of_nat k * 8) =
      (if k = i then let v = w (old_sp + of_nat k * 8) in if v \<le> p \<and> v \<ge> old_sp then v + diff else v
       else w (old_sp + diff + of_nat k * 8))"
    using assms(2) i Cons.prems(3) by (auto simp: move_word_def Let_def)
  note IH = Cons.IH [of k ?w]
  show ?case by (cases "k = i") (use IH Cons.prems i src dst in \<open>simp_all add: Let_def\<close>)
qed simp

section \<open>Lemmas\<close>

lemma wait_delivered_returns:
  "dev (bus_writes b) (bus_reads b + k) icr0 AND 0x1000 = 0 \<Longrightarrow>
     \<exists>b'. wait_delivered dev icr0 b = Some b' \<and> bus_writes b' = bus_writes b"
proof (induction k arbitrary: b)
  case 0
  then show ?case
    unfolding wait_delivered_def by (subst while_option_unfold) (simp add: readLocalAPIC_def)
next
  case (Suc k)
  let ?b = "b\<lparr>bus_reads := bus_reads b + 1\<rparr>"
  show ?case
  proof (cases "dev (bus_writes b) (bus_reads b) icr0 AND 0x1000 = 0")
    case True
    then show ?thesis
      unfolding wait_delivered_def by (subst while_option_unfold) (simp add: readLocalAPIC_def)
  next
    case False
    then have "wait_delivered dev icr0 b = wait_delivered dev icr0 ?b"
      unfolding wait_delivered_def by (subst while_option_unfold) (simp add: readLocalAPIC_def)
    with Suc.IH [of ?b] Suc.prems show ?thesis by simp
  qed
qed

lemma bit_irq_low:
  "n < 32 \<Longrightarrow> bit (irq_low v low) n \<longleftrightarrow> (if n < 8 then bit v n else n \<notin> {8, 9, 10, 11, 16} \<and> bit low n)"
proof -
  have m: "(0x700 :: u32) = push_bit 8 (mask 3)" "(0xFF :: u32) = mask 8"
    by (simp_all add: mask_eq_exp_minus_1)
  define p q :: u32 where "p = push_bit 16 1" and "q = push_bit 11 1"
  have e: "bit p k \<longleftrightarrow> k = 16" "bit q k \<longleftrightarrow> k = 11" if "k < 32" for k
    using that unfolding p_def q_def by (auto simp only: bit_push_bit_iff bit_1_iff; simp)+
  show "n < 32 \<Longrightarrow> ?thesis" unfolding irq_low_def m p_def [symmetric] q_def [symmetric]
    by (auto simp: bit_simps e dest: bit_imp_le_length)
qed

lemma bit_irq_high: "n < 32 \<Longrightarrow> bit (irq_high i high) n \<longleftrightarrow> (if n < 24 then bit high n else bit i (n - 24))"
proof -
  have m: "(0xFF000000 :: u32) = push_bit 24 (mask 8)" by (simp add: mask_eq_exp_minus_1)
  show "n < 32 \<Longrightarrow> ?thesis" unfolding irq_high_def m
    by (auto simp: bit_simps dest: bit_imp_le_length)
qed

text \<open>A \<open>kvalloc\<close> of whole pages takes them from the next page boundary on.\<close>

lemma kvalloc_pages:
  assumes "kernel_ok m" and "n = of_nat (k * 4096)" and "c = page_align_up (kernel_memory_current_address m)"
    and "unat c + k * 4096 < unat (kernel_memory_end_address m)"
  shows "\<exists>m'. kvalloc apic m n = Some (c, m') \<and> kernel_ok m' \<and>
      unat (page_align_up (kernel_memory_current_address m')) = unat c + k * 4096 \<and>
      kernel_memory_end_address m' = kernel_memory_end_address m"
proof -
  note b = kernel_ok_bounds [OF assms(1)]
  have e: "unat (kernel_memory_end_address m) < 2 ^ 62"
    using assms(1) by (simp add: kernel_ok_def word_less_nat_alt)
  have un: "unat n = k * 4096" using assms(2,4) e by (simp add: unat_of_nat_small del: of_nat_mult)
  have uc: "unat (c + n) = unat c + k * 4096" using assms(4) e un by (simp add: unat_add_no_wrap)
  have cur: "unat (kernel_memory_current_address m) < 2 ^ 62"
    using assms(1) e by (simp add: kernel_ok_def word_le_nat_alt)
  have dvd: "unat c = (unat (kernel_memory_current_address m) + 4095) div 4096 * 4096"
    unfolding assms(3) using cur by (rule page_align_up_unat)
  let ?m = "m\<lparr>kernel_memory_current_address := c + n\<rparr>"
  have "kvalloc apic m n = Some (c, ?m)"
    using assms(1,3,4) uc by (simp add: kvalloc_free kernel_ok_def word_less_nat_alt)
  moreover have "0 < unat c"
  proof -
    have "0 < unat (kernel_memory_current_address m)" using assms(1) by (auto simp: kernel_ok_def unat_gt_0)
    then show ?thesis unfolding dvd by simp
  qed
  then have "kernel_ok ?m"
    using assms(1,4) uc by (simp add: kernel_ok_def word_less_nat_alt word_le_nat_alt)
  moreover have "unat (page_align_up (c + n)) = unat c + k * 4096"
  proof -
    have "unat (page_align_up (c + n)) = (unat (c + n) + 4095) div 4096 * 4096"
      using uc assms(4) e by (intro page_align_up_unat) simp
    also have "\<dots> = unat (c + n)"
      using align_up_nat_id [of 4096 "unat (c + n)"] uc dvd by simp
    finally show ?thesis using uc by simp
  qed
  ultimately show ?thesis by simp
qed

lemma le_align_up: "x \<le> (x + 4095) div 4096 * (4096 :: nat)"
proof -
  have "(x + 4095) div 4096 * 4096 + (x + 4095) mod 4096 = x + 4095" "(x + 4095) mod 4096 < 4096" by simp_all
  then show ?thesis by linarith
qed

text \<open>The next page boundary of the kernel heap.\<close>

definition heap_top :: "apic_state \<Rightarrow> nat" where
  "heap_top st = unat (page_align_up (kernel_memory_current_address (ap_alloc st)))"

definition heap_room :: "apic_state \<Rightarrow> nat \<Rightarrow> bool" where
  "heap_room st n \<longleftrightarrow> kernel_ok (ap_alloc st) \<and>
     heap_top st + n * 1196032 < unat (kernel_memory_end_address (ap_alloc st))"

lemma virtual_of_frame:
  assumes "virtual_of pa st = (va, st')"
  shows "ap_alloc st' = ap_alloc st" "apics st' = apics st" "heap_top st' = heap_top st"
    "heap_room st' = heap_room st"
  using assms by (auto simp: virtual_of_def Let_def heap_top_def heap_room_def)

lemma initialize_apic_stacks:
  assumes "heap_room st (Suc n)"
  shows "\<exists>a' st'. initialize_apic self a i va b st = Some (a', st') \<and> apics st' = apics st \<and>
    unat (stack_ptr a') = heap_top st + 0x100000 - 0x10 \<and> unat (kstack_ptr a') = heap_top st + 1196032 \<and>
    heap_top st' = heap_top st + 1196032 \<and> heap_room st' n"
proof -
  obtain io st1 where v: "virtual_of (local_apicio_addr st) st = (io, st1)" by (metis surj_pair)
  note f = virtual_of_frame [OF v]
  let ?m = "ap_alloc st" and ?c = "page_align_up (kernel_memory_current_address (ap_alloc st))"
  have ok: "kernel_ok ?m" and room: "unat ?c + Suc n * 1196032 < unat (kernel_memory_end_address ?m)"
    using assms by (simp_all add: heap_room_def heap_top_def)
  have e: "unat (kernel_memory_end_address ?m) < 2 ^ 62" using ok by (simp add: kernel_ok_def word_less_nat_alt)
  obtain m1 where m1: "kvalloc self ?m USER_STACK_SIZE = Some (?c, m1)" "kernel_ok m1"
    "unat (page_align_up (kernel_memory_current_address m1)) = unat ?c + 256 * 4096"
    "kernel_memory_end_address m1 = kernel_memory_end_address ?m"
    using kvalloc_pages [OF ok, of USER_STACK_SIZE 256 ?c self] room by (auto simp: USER_STACK_SIZE_def)
  let ?c1 = "page_align_up (kernel_memory_current_address m1)"
  obtain m2 where m2: "kvalloc self m1 KERNEL_STACK_SIZE = Some (?c1, m2)" "kernel_ok m2"
    "unat (page_align_up (kernel_memory_current_address m2)) = unat ?c1 + 36 * 4096"
    "kernel_memory_end_address m2 = kernel_memory_end_address ?m"
    using kvalloc_pages [OF m1(2), of KERNEL_STACK_SIZE 36 ?c1 self] room m1(3,4)
    by (auto simp: KERNEL_STACK_SIZE_def)
  have sp: "unat (?c + USER_STACK_SIZE - 0x10) = unat ?c + 0x100000 - 0x10"
  proof -
    have "unat (?c + USER_STACK_SIZE) = unat ?c + 0x100000"
      using room e by (simp add: unat_add_no_wrap USER_STACK_SIZE_def)
    then show ?thesis by (subst unat_sub) (simp_all add: word_le_nat_alt)
  qed
  have ksp: "unat (?c1 + KERNEL_STACK_SIZE) = unat ?c + 1196032"
    using room e m1(3) by (simp add: unat_add_no_wrap KERNEL_STACK_SIZE_def)
  show ?thesis
    using m1 m2 sp ksp room
    by (auto simp: initialize_apic_def v f Let_def heap_top_def heap_room_def)
qed

lemma initialize_apics_stacks:
  assumes "heap_room st (n - k)" and "k \<le> n" and "length (apics st) = n"
  shows "\<exists>st'. initialize_apics self [k..<n] st = Some st' \<and> length (apics st') = n \<and>
    (\<forall>i<k. apics st' ! i = apics st ! i) \<and>
    (\<forall>i. k \<le> i \<and> i < n \<longrightarrow>
       unat (stack_ptr (apics st' ! i)) = heap_top st + (i - k) * 1196032 + 0x100000 - 0x10 \<and>
       unat (kstack_ptr (apics st' ! i)) = heap_top st + (i - k) * 1196032 + 1196032)"
  using assms
proof (induction "n - k" arbitrary: k st)
  case 0
  then show ?case by simp
next
  case (Suc r)
  then have k: "k < n" and r: "n - k = Suc r" "r = n - Suc k" by auto
  obtain va st1 where v: "virtual_of (local_apic_addr st) st = (va, st1)" by (metis surj_pair)
  note f = virtual_of_frame [OF v]
  have "heap_room st1 (Suc r)" using Suc.prems(1) by (simp add: f r(1))
  from initialize_apic_stacks [OF this, of self "apics st ! k" "of_nat k" va "k = 0"]
  obtain a st2 where a: "initialize_apic self (apics st ! k) (of_nat k) va (k = 0) st1 = Some (a, st2)"
    and st2: "apics st2 = apics st" "unat (stack_ptr a) = heap_top st + 0x100000 - 0x10"
      "unat (kstack_ptr a) = heap_top st + 1196032" "heap_top st2 = heap_top st + 1196032" "heap_room st2 r"
    by (auto simp: f)
  let ?st = "set_apic k a st2"
  have s: "heap_room ?st (n - Suc k)" "heap_top ?st = heap_top st + 1196032" "length (apics ?st) = n"
    using st2 Suc.prems(3) r(2) by (simp_all add: set_apic_def heap_room_def heap_top_def)
  from Suc.hyps(1) [OF r(2) s(1) _ s(3)] k obtain st' where st': "initialize_apics self [Suc k..<n] ?st = Some st'"
    "length (apics st') = n" "\<forall>i<Suc k. apics st' ! i = apics ?st ! i"
    "\<forall>i. Suc k \<le> i \<and> i < n \<longrightarrow>
       unat (stack_ptr (apics st' ! i)) = heap_top ?st + (i - Suc k) * 1196032 + 0x100000 - 0x10 \<and>
       unat (kstack_ptr (apics st' ! i)) = heap_top ?st + (i - Suc k) * 1196032 + 1196032"
    by auto
  have "initialize_apics self [k..<n] st = Some st'"
    using k st'(1) by (simp add: upt_conv_Cons v f a)
  moreover have "\<forall>i<k. apics st' ! i = apics st ! i" using st'(3) st2(1) by (simp add: set_apic_def)
  moreover have "unat (stack_ptr (apics st' ! i)) = heap_top st + (i - k) * 1196032 + 0x100000 - 0x10 \<and>
       unat (kstack_ptr (apics st' ! i)) = heap_top st + (i - k) * 1196032 + 1196032" if "k \<le> i" "i < n" for i
  proof (cases "i = k")
    case True
    then have "apics st' ! i = a" using st'(3) st2(1) k Suc.prems(3) by (simp add: set_apic_def)
    with True st2 show ?thesis by simp
  next
    case False
    with that have "Suc k \<le> i" "i - k = Suc (i - Suc k)" by auto
    with st'(4) that(2) s(2) show ?thesis by auto
  qed
  ultimately show ?case using st'(2) by blast
qed

lemma ipi_returns:
  assumes "ws = bus_writes b @ [(lapic_icr1 a, push_bit 24 (ucast (apic_id a))), (lapic_icr0 a, 0x4000 OR ucast p_irq)]"
    and "dev ws (bus_reads b + k) (lapic_icr0 a) AND 0x1000 = 0"
  shows "\<exists>b'. SendFixedIPI dev a p_irq b = Some b' \<and> bus_writes b' = ws"
  using wait_delivered_returns [of dev "b\<lparr>bus_writes := ws\<rparr>" k "lapic_icr0 a"] assms
  by (simp add: SendFixedIPI_def writeLocalAPIC_def Let_def)

section \<open>Properties\<close>

definition user_stack :: "APIC \<Rightarrow> nat set" where
  "user_stack a = {unat (stack_ptr a) + 0x10 - 0x100000 ..< unat (stack_ptr a) + 0x10}"

definition kernel_stack :: "APIC \<Rightarrow> nat set" where
  "kernel_stack a = {unat (kstack_ptr a) - 0x24000 ..< unat (kstack_ptr a)}"

text \<open>C36: when the kernel heap has room for them, initialising the controllers of all cores
  succeeds and gives every core a user and a kernel stack; no two of all these stacks overlap,
  and they lie in the heap above what was allocated before.\<close>

theorem core_stacks_disjoint:
  assumes "heap_room st n" and "length (apics st) = n"
  shows "\<exists>st'. initialize_apics self [0..<n] st = Some st' \<and>
    (\<forall>i<n. user_stack (apics st' ! i) \<inter> kernel_stack (apics st' ! i) = {} \<and>
       user_stack (apics st' ! i) \<union> kernel_stack (apics st' ! i) \<subseteq>
         {unat (kernel_memory_current_address (ap_alloc st)) ..< unat (kernel_memory_end_address (ap_alloc st))}) \<and>
    (\<forall>i<n. \<forall>j<n. i \<noteq> j \<longrightarrow>
       (user_stack (apics st' ! i) \<union> kernel_stack (apics st' ! i)) \<inter>
       (user_stack (apics st' ! j) \<union> kernel_stack (apics st' ! j)) = {})"
proof -
  let ?h = "heap_top st" and ?e = "unat (kernel_memory_end_address (ap_alloc st))"
  from initialize_apics_stacks [of st n 0 self] assms obtain st' where
    st': "initialize_apics self [0..<n] st = Some st'" and
    sp: "\<forall>i<n. unat (stack_ptr (apics st' ! i)) = ?h + i * 1196032 + 0x100000 - 0x10 \<and>
       unat (kstack_ptr (apics st' ! i)) = ?h + i * 1196032 + 1196032"
    by auto
  have us: "user_stack (apics st' ! i) = {?h + i * 1196032 ..< ?h + i * 1196032 + 0x100000}"
    "kernel_stack (apics st' ! i) = {?h + i * 1196032 + 0x100000 ..< ?h + i * 1196032 + 1196032}"
    if "i < n" for i
    using sp that by (auto simp: user_stack_def kernel_stack_def)
  have un: "user_stack (apics st' ! i) \<union> kernel_stack (apics st' ! i) =
      {?h + i * 1196032 ..< ?h + Suc i * 1196032}" if "i < n" for i
    using us [OF that] by auto
  have cur: "unat (kernel_memory_current_address (ap_alloc st)) \<le> ?h" and top: "?h + n * 1196032 < ?e"
  proof -
    from assms(1) have ok: "kernel_ok (ap_alloc st)" and "?h + n * 1196032 < ?e" by (simp_all add: heap_room_def)
    then show "?h + n * 1196032 < ?e" by simp
    have "unat (kernel_memory_current_address (ap_alloc st)) < 2 ^ 62"
      using ok by (auto simp: kernel_ok_def word_less_nat_alt word_le_nat_alt)
    from page_align_up_unat [OF this] show "unat (kernel_memory_current_address (ap_alloc st)) \<le> ?h"
      unfolding heap_top_def by (simp only: le_align_up)
  qed
  have mono: "Suc i * 1196032 \<le> j * 1196032" if "i < j" for i j :: nat
    using that by (intro mult_le_mono1) simp
  show ?thesis
  proof (intro exI conjI allI impI)
    show "initialize_apics self [0..<n] st = Some st'" by (rule st')
  next
    fix i assume i: "i < n"
    show "user_stack (apics st' ! i) \<inter> kernel_stack (apics st' ! i) = {}" by (auto simp: us [OF i])
    show "user_stack (apics st' ! i) \<union> kernel_stack (apics st' ! i) \<subseteq>
        {unat (kernel_memory_current_address (ap_alloc st)) ..< ?e}"
      unfolding un [OF i] using cur top mono [OF i] by auto
  next
    fix i j assume i: "i < n" "j < n" "i \<noteq> j"
    then show "(user_stack (apics st' ! i) \<union> kernel_stack (apics st' ! i)) \<inter>
        (user_stack (apics st' ! j) \<union> kernel_stack (apics st' ! j)) = {}"
      unfolding un [OF i(1)] un [OF i(2)] using mono [of i j] mono [of j i] by (auto simp: nat_neq_iff)
  qed
qed

text \<open>\<open>SendFixedIPI\<close> addresses the receiving controller, issues a fixed interrupt with the
  given vector, and returns as soon as the controller reports its delivery.\<close>

theorem send_ipi_returns:
  assumes "ws = bus_writes b @ [(lapic_icr1 a, push_bit 24 (ucast (apic_id a))), (lapic_icr0 a, 0x4000 OR ucast p_irq)]"
    and "dev ws (bus_reads b + k) (lapic_icr0 a) AND 0x1000 = 0"
  shows "\<exists>b'. SendFixedIPI dev a p_irq b = Some b' \<and> bus_writes b' = ws"
  using ipi_returns [OF assms(1), of dev k] assms(2) by blast

text \<open>\<open>mapAPICIRQ\<close> reprograms the redirection entry of an interrupt line: the vector and
  the destination are set, the line is unmasked with fixed delivery to a physical destination, and
  every other bit is written back as it was read.\<close>

theorem map_irq_programs_entry:
  "\<exists>high low. bus_writes (mapAPICIRQ dev a p_irq p_vector b) = bus_writes b @
      [(apicio_base a, ucast (0x11 + 2 * p_irq)), (apicio_base a, ucast (0x11 + 2 * p_irq)),
       (apicio_base a + 0x10, irq_high (apic_id a) high),
       (apicio_base a, ucast (0x10 + 2 * p_irq)), (apicio_base a, ucast (0x10 + 2 * p_irq)),
       (apicio_base a + 0x10, irq_low p_vector low)] \<and>
    high = dev (bus_writes b @ [(apicio_base a, ucast (0x11 + 2 * p_irq))]) (bus_reads b) (apicio_base a + 0x10) \<and>
    (\<forall>n. n < 32 \<longrightarrow> bit (irq_low p_vector low) n =
       (if n < 8 then bit p_vector n else n \<notin> {8, 9, 10, 11, 16} \<and> bit low n)) \<and>
    (\<forall>n. n < 32 \<longrightarrow> bit (irq_high (apic_id a) high) n =
       (if n < 24 then bit high n else bit (apic_id a) (n - 24)))"
  by (simp add: mapAPICIRQ_def ioapicRead_def ioapicWrite_def readLocalAPIC_def writeLocalAPIC_def
      Let_def bit_irq_low bit_irq_high ac_simps) (rule exI, rule refl)

text \<open>\<open>moveInitialKernelStack\<close> leaves on the new stack what was on the old one, with every
  word that pointed into the old stack moved by the distance of the two stacks; it fails when the
  stack to move is larger than a kernel stack.\<close>

theorem boot_stack_relocated:
  assumes "moveInitialKernelStack dev ps pe sp st w = Inr (Some nsp, st', w')"
    and "n = unat ((ps - sp) div 8)" and "n * 8 \<le> gap nsp sp"
  shows "ps - pe \<le> KERNEL_STACK_SIZE \<and> nsp - sp = stack_ptr (apics st' ! unat (core_id_ret st')) - ps \<and>
    (\<forall>k<n. w' (nsp + of_nat k * 8) =
       (let v = w (sp + of_nat k * 8) in if v \<le> ps \<and> v \<ge> sp then v + (nsp - sp) else v))"
proof -
  define st1 where "st1 = getCurrentCoreId dev st"
  define d where "d = stack_ptr (apics st1 ! unat (core_id_ret st1)) - ps"
  have r: "st' = st1" "nsp = sp + d" "ps - pe \<le> KERNEL_STACK_SIZE"
    "w' = fold (move_word ps sp d) (rev [0..<n]) w"
    using assms(1) unfolding assms(2)
    by (auto simp: moveInitialKernelStack_def Let_def not_less d_def st1_def split: if_splits)
  have n: "n * 8 \<le> 2 ^ 64" using assms(3) gap_le order_trans by blast
  have u: "unat (of_nat i * 8 :: u64) = i * 8" if "i < n" for i
  proof -
    have "unat (of_nat (i * 8) :: u64) = i * 8" using that n by (intro unat_of_nat_small) simp
    then show ?thesis by simp
  qed
  have ne: "sp + of_nat i * 8 \<noteq> nsp + of_nat j * 8" if "i < n" "j < n" for i j
  proof
    assume e: "sp + of_nat i * 8 = nsp + of_nat j * 8"
    have "unat (nsp + of_nat j * 8 - nsp) < gap nsp sp" "unat (nsp + of_nat j * 8 - sp) < gap nsp sp"
      using u [OF that(1)] u [OF that(2)] that assms(3) by (simp, simp flip: e)
    then show False by (rule gap_apart)
  qed
  have inj: "(of_nat i * 8 :: u64) \<noteq> of_nat j * 8" if "i < n" "j < n" "i \<noteq> j" for i j
    using u [OF that(1)] u [OF that(2)] that(3) by auto
  have a: "\<forall>i<n. \<forall>j<n. sp + of_nat i * 8 \<noteq> sp + d + of_nat j * 8" using ne unfolding r(2) by blast
  have i: "\<forall>i<n. \<forall>j<n. i \<noteq> j \<longrightarrow> (of_nat i * 8 :: u64) \<noteq> of_nat j * 8" using inj by blast
  have s: "set (rev [0..<n]) \<subseteq> {..<n}" "distinct (rev [0..<n])" by auto
  have "w' (nsp + of_nat k * 8) =
      (let v = w (sp + of_nat k * 8) in if v \<le> ps \<and> v \<ge> sp then v + d else v)" if "k < n" for k
    using move_words [OF a i s that, of ps w] that unfolding r(2,4) by simp
  moreover have e: "nsp - sp = d" by (simp add: r(2))
  moreover have "stack_ptr (apics st' ! unat (core_id_ret st')) - ps = d" by (simp add: d_def r(1))
  ultimately show ?thesis using r(3) by (simp add: Let_def)
qed

section \<open>Witnesses\<close>

definition idle_worker :: Worker where
  "idle_worker = \<lparr>ipioe_queue = [\<lparr>smac = replicate 6 0, dmac = replicate 6 0,
       ipioe_p = \<lparr>version = 0, IHL = 0, opcode = 0, dataLength = 0, messageID = 0, ip_checksum = 0, sourceCore = 0,
         destinationCore = 0, ip_flags = 0, serviceNumber = 0, methodNumber = 0\<rparr>, ipdata = replicate 1000 0\<rparr>],
     queue_size = 0, queue_index = 0, queue_end = 0,
     wlock = \<lparr>lapic = 0, stack = 0, core_id = 0, spin_lock = 0\<rparr>, is_running = False\<rparr>"

definition demo_apic :: APIC where
  "demo_apic = \<lparr>apic_id = 0, apicio_base = 0, lapic_base = 0, lapic_reg = 0, lapic_apicver = 0, lapic_taskprior = 0,
     lapic_eoi = 0, lapic_ldr = 0, lapic_dfr = 0, lapic_svr = 0, lapic_esr = 0, lapic_icr0 = 0xFEE00300,
     lapic_icr1 = 0xFEE00310, lapic_lvt_tmr = 0, lapic_lvt_perf = 0, lapic_lvt_lint0 = 0, lapic_lvt_lint1 = 0,
     lapic_lvt_err = 0, lapic_tmr_init_cnt = 0, lapic_tmr_curr_cnt = 0, lapic_tmr_div = 0, lapic_last = 0,
     lapic_disable = 0, lapic_sw_enable = 0, lapic_cpufocus = 0, lapic_nmi = 0, tmr_periodic = 0, tmr_basediv = 0,
     bsp = True, timer_enabled = False, touch_flag = False, stack_ptr = 0x900000, kstack_ptr = 0, pit_counter = 0,
     wakeup_counter = 0, wakeup_apic_id = 0, wakeup_interrupt = 0,
     ipioe_spinlock = \<lparr>lapic = 0, stack = 0, core_id = 0, spin_lock = 0\<rparr>, ipioe_auto_replies = False,
     ipioe_raised = False, worker = idle_worker,
     fired_interrupts = replicate 256 0, role = replicate 5 0\<rparr>"

lemma demo_apic_fields: "apic_id demo_apic = 0" "apicio_base demo_apic = 0"
  by (simp_all add: demo_apic_def)

theorem map_irq_programs_entry_witness:
  "\<exists>high low. bus_writes (mapAPICIRQ (\<lambda>_ _ _. 0x10000) demo_apic 1 33 \<lparr>bus_writes = [], bus_reads = 0\<rparr>) =
      [(0, 0x13), (0, 0x13), (0x10, irq_high 0 high), (0, 0x12), (0, 0x12), (0x10, irq_low 33 low)] \<and>
    high = 0x10000 \<and>
    (\<forall>n. n < 32 \<longrightarrow> bit (irq_low 33 low) n =
       (if n < 8 then bit (33 :: u8) n else n \<notin> {8, 9, 10, 11, 16} \<and> bit low n)) \<and>
    (\<forall>n. n < 32 \<longrightarrow> bit (irq_high 0 high) n =
       (if n < 24 then bit high n else bit (0 :: u16) (n - 24)))"
  using map_irq_programs_entry [where dev = "\<lambda>_ _ _. 0x10000" and a = demo_apic and p_irq = 1 and p_vector = 33
      and b = "\<lparr>bus_writes = [], bus_reads = 0\<rparr>", unfolded demo_apic_fields]
  by (simp add: demo_apic_fields split del: if_split)

definition demo_apic_state :: apic_state where
  "demo_apic_state = \<lparr>apics = [demo_apic, demo_apic], apics_count = 2, core_id_ret = 0,
     local_apic_addr = 0xFEE00000, local_apicio_addr = 0xFEC00000,
     ap_pm = \<lparr>physicalMemoryEntry = (\<lambda>_. \<lparr>start = 0, esize = 0, etype = 2, unused = 0, vstart = 0, eend = 0\<rparr>),
       physical_memory_bitmap = 0, memory_entries = 0, usable_memory_size = 0, reserved_memory_size = 0,
       hole_memory_size = 0, maximum_address = 0, reserved_plus_usable_size = 0, available_frame = 0,
       frame_collections = [], number_physical_memory_frame_collection = 0,
       params = \<lparr>p_physical_address = 0, p_size = 0, number_of_frames_to_allocate = 0\<rparr>,
       returns = \<lparr>is_address = False, is_usable_address = False, virtualAddress = 0\<rparr>\<rparr>,
     ap_alloc = demo_allocator, ap_mem = (\<lambda>_. 0), ap_bus = \<lparr>bus_writes = [], bus_reads = 0\<rparr>\<rparr>"

lemma core_id_frame: "apics (getCurrentCoreId dev st) = apics st" "apics_count (getCurrentCoreId dev st) = apics_count st"
  by (simp_all add: getCurrentCoreId_def virtual_of_def getAPICId_def readLocalAPIC_def Let_def)

lemma core_id_zero: "core_id_ret (getCurrentCoreId (\<lambda>_ _ _. 0) st) = 0"
  by (simp add: getCurrentCoreId_def virtual_of_def getAPICId_def readLocalAPIC_def createMask_def Let_def)

theorem core_stacks_disjoint_witness:
  "\<exists>st'. initialize_apics 0 [0..<2] demo_apic_state = Some st' \<and>
     kernel_stack (apics st' ! 0) \<inter> kernel_stack (apics st' ! 1) = {}"
proof -
  have "heap_top demo_apic_state = 0x2E01000"
    by (simp add: heap_top_def demo_apic_state_def page_align_up_unat demo_allocator_def)
  then have "heap_room demo_apic_state 2" using demo_allocator_ok(1)
    by (simp add: heap_room_def demo_apic_state_def demo_allocator_def)
  moreover have "length (apics demo_apic_state) = 2" by (simp add: demo_apic_state_def)
  ultimately obtain st' where st': "initialize_apics 0 [0..<2] demo_apic_state = Some st'"
    "\<forall>i<2. \<forall>j<2. i \<noteq> j \<longrightarrow> (user_stack (apics st' ! i) \<union> kernel_stack (apics st' ! i)) \<inter>
       (user_stack (apics st' ! j) \<union> kernel_stack (apics st' ! j)) = {}"
    using core_stacks_disjoint [of demo_apic_state 2 0] by blast
  have "(user_stack (apics st' ! 0) \<union> kernel_stack (apics st' ! 0)) \<inter>
       (user_stack (apics st' ! 1) \<union> kernel_stack (apics st' ! 1)) = {}"
    using st'(2) by (auto dest: spec [of _ 0] spec [of _ 1])
  with st'(1) show ?thesis by blast
qed

theorem send_ipi_returns_witness:
  "\<exists>b'. SendFixedIPI (\<lambda>_ n _. if n < 3 then 0x1000 else 0) demo_apic 98 \<lparr>bus_writes = [], bus_reads = 0\<rparr> = Some b' \<and>
     bus_writes b' = [(0xFEE00310, 0), (0xFEE00300, 0x4062)]"
  using send_ipi_returns [OF refl, where dev = "\<lambda>_ n _. if n < 3 then 0x1000 else 0"
      and b = "\<lparr>bus_writes = [], bus_reads = 0\<rparr>" and k = 3 and a = demo_apic and p_irq = 98]
  by (simp add: demo_apic_def)

theorem boot_stack_relocated_witness:
  "\<exists>st' w'. moveInitialKernelStack (\<lambda>_ _ _. 0) 0x80000 0x70000 0x7FFF0 demo_apic_state (\<lambda>_. 0x7FFF8) =
     Inr (Some 0x8FFFF0, st', w') \<and> w' 0x8FFFF8 = 0x8FFFF8"
proof -
  obtain st' w' where r: "moveInitialKernelStack (\<lambda>_ _ _. 0) 0x80000 0x70000 0x7FFF0 demo_apic_state (\<lambda>_. 0x7FFF8) =
     Inr (Some 0x8FFFF0, st', w')"
    by (simp add: moveInitialKernelStack_def Let_def core_id_zero core_id_frame demo_apic_state_def demo_apic_def
        KERNEL_STACK_SIZE_def)
  have n: "unat ((0x80000 - 0x7FFF0 :: u64) div 8) = 2" by simp
  have g: "(2 :: nat) * 8 \<le> gap 0x8FFFF0 0x7FFF0" by (simp add: gap_def)
  from boot_stack_relocated [OF r n [symmetric] g]
  have "\<forall>k<2. w' (0x8FFFF0 + of_nat k * 8) =
     (let v = 0x7FFF8 in if v \<le> 0x80000 \<and> v \<ge> 0x7FFF0 then v + (0x8FFFF0 - 0x7FFF0) else v)" by blast
  from this [rule_format, of 1] have "w' 0x8FFFF8 = 0x8FFFF8" by simp
  with r show ?thesis by simp
qed

end
