(* ===== verification/NetPackets.thy ===== *)
theory NetPackets
  imports KMalloc
begin

text \<open>
  The packet handlers of \<open>devices/network\<close>: the Internet checksum (\<open>misc/checksum.c\<close>),
  Ethernet headers, ARP, IP and ICMP. A frame is the \<open>EthernetPacket\<close> structure, whose
  \<open>h_data\<close> is the array of bytes the protocol headers are laid over; a field of a header is
  its byte offset. A handler gives the changed frame and the frames it sends.
\<close>

section \<open>Byte order and header fields\<close>

definition htons :: "u16 \<Rightarrow> u16" where
  "htons A = drop_bit 8 (A AND 0xFF00) OR push_bit 8 (A AND 0x00FF)"

abbreviation ntohs :: "u16 \<Rightarrow> u16" where "ntohs \<equiv> htons"

text \<open>A 16-bit field is stored with its low byte first.\<close>

definition le16 :: "u8 \<Rightarrow> u8 \<Rightarrow> u16" where
  "le16 a b = ucast a OR push_bit 8 (ucast b)"

definition get16 :: "u8 list \<Rightarrow> nat \<Rightarrow> u16" where
  "get16 d i = le16 (d ! i) (d ! (i + 1))"

definition put16 :: "nat \<Rightarrow> u16 \<Rightarrow> u8 list \<Rightarrow> u8 list" where
  "put16 i v d = d[i := ucast v, i + 1 := ucast (drop_bit 8 v)]"

definition get_bytes :: "u8 list \<Rightarrow> nat \<Rightarrow> nat \<Rightarrow> u8 list" where
  "get_bytes d i n = take n (drop i d)"

definition put_bytes :: "nat \<Rightarrow> u8 list \<Rightarrow> u8 list \<Rightarrow> u8 list" where
  "put_bytes i bs d = take i d @ bs @ drop (i + length bs) d"

section \<open>The Internet checksum\<close>

fun sum_words :: "u32 \<Rightarrow> u8 list \<Rightarrow> u32" where
  "sum_words acc (a # b # r) = sum_words (acc + ucast (le16 a b)) r"
| "sum_words acc [a] = acc + ucast a"
| "sum_words acc [] = acc"

definition calcsum :: "u8 list \<Rightarrow> u16" where
  "calcsum buffer =
     (let acc = sum_words 0 buffer;
          acc = drop_bit 16 acc + (acc AND 0xFFFF);
          acc = acc + drop_bit 16 acc
      in ucast (NOT acc))"

section \<open>Frames\<close>

definition ETH_FRAME_LEN_WITH_TCP_SUDO :: nat where "ETH_FRAME_LEN_WITH_TCP_SUDO = 1500 + 14 + 86"

record EthernetPacket =
  h_dest :: "u8 list"
  h_source :: "u8 list"
  h_proto :: u16
  h_data :: "u8 list"

record NetworkPacket =
  ethernetPacket :: EthernetPacket
  packet_size :: u16

text \<open>Of the driver the handlers use its hardware address; what they pass to \<open>send\<close> is the
  list of frames in their result.\<close>

record NetworkDriver =
  mac :: "u8 list"

definition frame_ok :: "EthernetPacket \<Rightarrow> bool" where
  "frame_ok p \<longleftrightarrow> length (h_dest p) = 6 \<and> length (h_source p) = 6 \<and>
     length (h_data p) = ETH_FRAME_LEN_WITH_TCP_SUDO"

text \<open>\<open>fast_memswap\<close> exchanges the two addresses and the three copies through \<open>temp\<close>
  exchange them again.\<close>

definition ReverseSourceAndDestination :: "EthernetPacket \<Rightarrow> EthernetPacket" where
  "ReverseSourceAndDestination p =
     (let p = p\<lparr>h_source := h_dest p, h_dest := h_source p\<rparr>;
          temp = h_source p;
          p = p\<lparr>h_source := h_dest p\<rparr>
      in p\<lparr>h_dest := temp\<rparr>)"

section \<open>ARP\<close>

definition ARPHRD_ETHER :: u16 where "ARPHRD_ETHER = 1"
definition ARPOP_REQUEST :: u16 where "ARPOP_REQUEST = 1"
definition ARPOP_REPLY :: u16 where "ARPOP_REPLY = 2"

text \<open>Offsets of the fields of \<open>arp_header_t\<close> (28 bytes, no padding).\<close>

definition ar_hrd :: nat where "ar_hrd = 0"
definition ar_pro :: nat where "ar_pro = 2"
definition ar_hln :: nat where "ar_hln = 4"
definition ar_pln :: nat where "ar_pln = 5"
definition ar_op :: nat where "ar_op = 6"
definition sender_hw_address :: nat where "sender_hw_address = 8"
definition sender_protocol_address :: nat where "sender_protocol_address = 14"
definition target_hw_address :: nat where "target_hw_address = 18"
definition target_protocol_address :: nat where "target_protocol_address = 24"

lemmas arp_offsets = ar_hrd_def ar_pro_def ar_hln_def ar_pln_def ar_op_def sender_hw_address_def
  sender_protocol_address_def target_hw_address_def target_protocol_address_def

text \<open>
  \<open>processARPPacket\<close> answers every request. The sender's hardware address is first copied to the
  local array \<open>destinationMACAddress\<close>; the copy to \<open>target_hw_address\<close> takes
  \<open>ar_hln\<close> bytes from there, a length that comes from the packet: \<open>behind\<close> are the bytes
  behind the six that were copied in.
\<close>

definition arp_reply_data :: "u8 list \<Rightarrow> u8 list \<Rightarrow> u8 list \<Rightarrow> u8 list \<Rightarrow> u8 list" where
  "arp_reply_data mac_addr destinationMACAddress behind d =
     (let d = put16 ar_op (ntohs ARPOP_REPLY) d;
          t = get_bytes d target_protocol_address (unat (d ! ar_pln));
          s = get_bytes d sender_protocol_address (unat (d ! ar_pln));
          d = put_bytes sender_protocol_address t (put_bytes target_protocol_address s d);
          d = put_bytes target_hw_address (take (unat (d ! ar_hln)) (destinationMACAddress @ behind)) d;
          d = put_bytes sender_hw_address (take 6 mac_addr) d;
          d = put_bytes sender_protocol_address [192, 168, 1, 4] d;
          d = d[ar_hln := 6, ar_pln := 4];
          d = put16 ar_hrd (htons 0x01) d
      in put16 ar_pro (htons 0x0800) d)"

definition is_arp_request :: "u8 list \<Rightarrow> bool" where
  "is_arp_request d \<longleftrightarrow> htons (get16 d ar_hrd) = ARPHRD_ETHER \<and>
     htons (get16 d ar_op) = ARPOP_REQUEST \<and> d ! ar_pln = 4"

definition processARPPacket :: "NetworkDriver \<Rightarrow> u8 list \<Rightarrow> NetworkPacket \<Rightarrow>
    NetworkPacket \<times> (EthernetPacket \<times> u16) list" where
  "processARPPacket drv behind skb =
     (let eth = ethernetPacket skb;
          destinationMACAddress = h_source eth;
          eth = ReverseSourceAndDestination eth
      in if is_arp_request (h_data eth)
         then let eth = eth\<lparr>h_source := mac drv\<rparr>;
                  eth = eth\<lparr>h_dest := destinationMACAddress\<rparr>;
                  eth = eth\<lparr>h_data := arp_reply_data (mac drv) destinationMACAddress behind (h_data eth)\<rparr>
              in (skb\<lparr>ethernetPacket := eth\<rparr>, [(eth, packet_size skb)])
         else (skb\<lparr>ethernetPacket := eth\<rparr>, []))"

text \<open>
  \<open>RequestMACAddress\<close> up to its \<open>return\<close>; the argument \<open>ipAddress\<close> is not used. The
  new packet's memory is not cleared: \<open>eth\<close> is what the allocated block held. The stores to
  element 6 of \<open>target_hw_address\<close> and of \<open>h_dest\<close> go to the field behind each. The
  results of \<open>kmalloc\<close> are not checked: \<open>Inl Null_pointer\<close> stands for the stores through
  the null pointer.
\<close>

definition arp_request_data :: "u8 list \<Rightarrow> u8 list \<Rightarrow> u8 list" where
  "arp_request_data mac_addr d =
     (let d = put16 ar_hrd 0x0100 d;
          d = put16 ar_pro 0x0008 d;
          d = d[ar_hln := 6, ar_pln := 4];
          d = put16 ar_op 0x0100 d;
          d = put_bytes sender_hw_address (take 6 mac_addr) d;
          d = put_bytes target_hw_address [0, 0, 0, 0, 0, 0, 0] d;
          d = put_bytes sender_protocol_address [192, 168, 1, 100] d
      in put_bytes target_protocol_address [192, 168, 1, 1] d)"

definition RequestMACAddress :: "u32 \<Rightarrow> MemoryAllocator \<Rightarrow> NetworkDriver \<Rightarrow> EthernetPacket \<Rightarrow> u8 list \<Rightarrow>
    ((EthernetPacket \<times> u16) result \<times> MemoryAllocator) option" where
  "RequestMACAddress apic m drv eth ipAddress = do {
     (savedPacket, m) \<leftarrow> kmalloc apic m 16;
     (ethPack, m) \<leftarrow> kmalloc apic m 1614;
     Some (if savedPacket = 0 \<or> ethPack = 0 then Inl Null_pointer
       else let eth = eth\<lparr>h_data := arp_request_data (mac drv) (h_data eth)\<rparr>;
                eth = eth\<lparr>h_source := mac drv\<rparr>;
                eth = eth\<lparr>h_dest := [0xFF, 0xFF, 0xFF, 0xFF, 0xFF, 0xFF],
                          h_source := (h_source eth)[0 := 0xFF]\<rparr>
            in Inr (eth\<lparr>h_proto := 1544\<rparr>, 14 + 28), m)
   }"

section \<open>IP and ICMP\<close>

definition IP_PACKET_TYPE_ICMP :: u8 where "IP_PACKET_TYPE_ICMP = 1"
definition ICMP_ECHO :: u8 where "ICMP_ECHO = 8"

text \<open>Offsets of the fields of \<open>ip_header_t\<close>; the length of the header in words is the low
  half of its first byte.\<close>

definition ip_header_len :: "u8 list \<Rightarrow> nat" where
  "ip_header_len d = unat (d ! 0 AND 0x0F) * 4"

definition reverseIPSourceAndDestination :: "u8 list \<Rightarrow> u8 list" where
  "reverseIPSourceAndDestination d =
     (let temp = get_bytes d 16 4
      in put_bytes 12 temp (put_bytes 16 (get_bytes d 12 4) d))"

definition payload_size :: "u8 list \<Rightarrow> u16" where
  "payload_size d = ntohs (get16 d 2) - of_nat (ip_header_len d)"

text \<open>The echo reply: the checksum of the message is taken over \<open>payload_size\<close> bytes behind
  the header, which need not lie inside the frame.\<close>

definition icmp_reply_data :: "u8 list \<Rightarrow> u8 list result" where
  "icmp_reply_data d =
     (let n = unat (payload_size d);
          d = reverseIPSourceAndDestination d;
          i = ip_header_len d;
          d = d[i := 0, i + 1 := 0];
          d = put16 (i + 2) 0 d
      in if i + n > length d then Inl Out_of_bounds
         else let d = put16 (i + 2) (calcsum (get_bytes d i n)) d;
                  d = put16 10 0 d
              in Inr (put16 10 (calcsum (get_bytes d 0 (ip_header_len d))) d))"

definition processICMPPacket :: "NetworkDriver \<Rightarrow> NetworkPacket \<Rightarrow>
    (NetworkPacket \<times> (EthernetPacket \<times> u16) list) result" where
  "processICMPPacket drv skb =
     (let eth = ethernetPacket skb; d = h_data eth
      in if d ! ip_header_len d = ICMP_ECHO
         then let destinationMACAddress = h_source eth;
                  eth = ReverseSourceAndDestination eth;
                  eth = eth\<lparr>h_source := mac drv\<rparr>;
                  eth = eth\<lparr>h_dest := destinationMACAddress\<rparr>
              in and_then (icmp_reply_data d) (\<lambda>d.
                   let eth = eth\<lparr>h_data := d\<rparr>
                   in Inr (skb\<lparr>ethernetPacket := eth\<rparr>, [(eth, packet_size skb)]))
         else Inr (skb, []))"

definition processIPPacket :: "NetworkDriver \<Rightarrow> NetworkPacket \<Rightarrow>
    (NetworkPacket \<times> (EthernetPacket \<times> u16) list) result" where
  "processIPPacket drv skb =
     (if h_data (ethernetPacket skb) ! 9 = IP_PACKET_TYPE_ICMP then processICMPPacket drv skb
      else Inr (skb, []))"

end
