(* ===== verification/PacketProofs.thy ===== *)
theory PacketProofs
  imports NetPackets
begin

text \<open>
  What the packet handlers compute: the checksum stored in a header makes the checksum of the
  whole header zero, an echo request is answered by an echo reply with valid checksums, and an
  ARP request by a reply with the addresses in their places.
\<close>

section \<open>The checksum over the integers\<close>

fun nat_sum :: "u8 list \<Rightarrow> nat" where
  "nat_sum (a # b # r) = unat a + 256 * unat b + nat_sum r"
| "nat_sum [a] = unat a"
| "nat_sum [] = 0"

lemma unat_byte: "unat (x :: u8) \<le> 255" "unat (x :: u8) < 256"
proof -
  have "unat x < 2 ^ LENGTH(8)" by (rule unsigned_less)
  then show "unat x \<le> 255" "unat x < 256" by simp_all
qed

lemma unat_le16: "unat (le16 a b) = unat a + 256 * unat b"
proof -
  have "le16 a b = ucast a + push_bit 8 (ucast b)"
    unfolding le16_def
    by (rule or_eq_add_disjoint) (auto simp: bit_eq_iff bit_simps dest: bit_imp_le_length)
  moreover have "unat (ucast a :: u16) = unat a" "unat (push_bit 8 (ucast b) :: u16) = 256 * unat b"
    using unat_byte [of a] unat_byte [of b]
    by (simp_all add: unsigned_ucast_eq take_bit_nat_eq_self push_bit_eq_mult unat_word_ariths)
  ultimately show ?thesis using unat_byte [of a] unat_byte [of b] by (simp add: unat_add_no_wrap)
qed

lemma nat_sum_bound: "nat_sum bs \<le> 65535 * ((length bs + 1) div 2)"
proof (induction bs rule: nat_sum.induct)
  case (1 a b r)
  then show ?case using unat_byte(1) [of a] unat_byte(1) [of b] by simp
next
  case (2 a)
  then show ?case using unat_byte(1) [of a] by simp
qed simp

lemma nat_sum_fits:
  assumes "length bs < 131072"
  shows "nat_sum bs < 2 ^ 32"
proof -
  have "(length bs + 1) div 2 \<le> 65536" using assms by simp
  then show ?thesis using nat_sum_bound [of bs] by simp
qed

lemma unat_sum_words:
  "unat acc + nat_sum bs < 2 ^ 32 \<Longrightarrow> unat (sum_words acc bs) = unat acc + nat_sum bs"
proof (induction acc bs rule: sum_words.induct)
  case (1 acc a b r)
  have c: "unat (ucast (le16 a b) :: u32) = unat a + 256 * unat b"
    using unat_byte [of a] unat_byte [of b]
    by (simp add: unsigned_ucast_eq take_bit_nat_eq_self unat_le16)
  with 1 have u: "unat (acc + ucast (le16 a b)) = unat acc + (unat a + 256 * unat b)"
    by (simp add: unat_add_no_wrap)
  with 1 show ?case by simp
next
  case (2 acc a)
  have "unat (ucast a :: u32) = unat a"
    using unat_byte [of a] by (simp add: unsigned_ucast_eq take_bit_nat_eq_self)
  with 2 show ?case by (simp add: unat_add_no_wrap)
qed simp

definition fold16 :: "nat \<Rightarrow> nat" where
  "fold16 s = (let t = s div 65536 + s mod 65536 in (t + t div 65536) mod 65536)"

lemma fold16_props:
  assumes "s < 2 ^ 32"
  shows "fold16 s < 65536" "fold16 s mod 65535 = s mod 65535" "fold16 s = 0 \<longleftrightarrow> s = 0"
proof -
  define h l where "h = s div 65536" and "l = s mod 65536"
  have s: "s = h * 65536 + l" and h: "h < 65536" and l: "l < 65536"
    using assms by (auto simp: h_def l_def)
  have f: "fold16 s = (if h + l < 65536 then h + l else h + l - 65535)"
  proof (cases "h + l < 65536")
    case True
    then show ?thesis by (simp add: fold16_def h_def l_def Let_def)
  next
    case False
    then have "(h + l) div 65536 = 1" using h l by (intro div_nat_eqI) auto
    moreover have "(h + l + 1) mod 65536 = h + l - 65535"
      using False h l by (subst le_mod_geq) auto
    ultimately show ?thesis using False by (simp add: fold16_def h_def l_def Let_def)
  qed
  show "fold16 s < 65536" by (simp add: fold16_def Let_def)
  have "s = 0 \<longleftrightarrow> h = 0 \<and> l = 0" using s by auto
  then show "fold16 s = 0 \<longleftrightarrow> s = 0" unfolding f by auto
  have "s = (h + l) + 65535 * h" unfolding s by simp
  then have "s mod 65535 = (h + l) mod 65535" by (metis mod_mult_self2)
  moreover have "(h + l - 65535) mod 65535 = (h + l) mod 65535" if "\<not> h + l < 65536"
    using that by (simp flip: le_mod_geq)
  ultimately show "fold16 s mod 65535 = s mod 65535" unfolding f by simp
qed

lemma calcsum_nat:
  assumes "length bs < 131072"
  shows "unat (calcsum bs) = 65535 - fold16 (nat_sum bs)"
proof -
  define w t u where "w = sum_words 0 bs" and "t = drop_bit 16 w + (w AND 0xFFFF)"
    and "u = t + drop_bit 16 t"
  have w: "unat w = nat_sum bs" using nat_sum_fits [OF assms] by (simp add: w_def unat_sum_words)
  have m: "(0xFFFF :: u32) = mask 16" by (simp add: mask_eq_exp_minus_1)
  have b: "nat_sum bs < 4294967296" using nat_sum_fits [OF assms] by simp
  have d: "unat (drop_bit 16 x) = unat x div 65536" for x :: u32
    by (simp add: drop_bit_eq_div unat_div)
  have t: "unat t = nat_sum bs div 65536 + nat_sum bs mod 65536"
    unfolding t_def m using b by (subst unat_add_no_wrap) (simp_all add: d unat_and_mask w)
  have u: "unat u = unat t + unat t div 65536"
    unfolding u_def using b by (subst unat_add_no_wrap) (simp_all add: d t)
  have "calcsum bs = NOT (ucast u)"
  proof -
    have "ucast (NOT u) = (NOT (ucast u) :: u16)" by (auto simp: bit_eq_iff bit_simps)
    then show ?thesis by (simp add: calcsum_def Let_def w_def t_def u_def)
  qed
  moreover have "unat (NOT x) = 65535 - unat x" for x :: u16
  proof -
    have "NOT x = - 1 - x" by (simp add: not_eq_complement)
    moreover have "unat (- 1 - x) = unat (- 1 :: u16) - unat x" by (rule unat_sub) simp
    ultimately show ?thesis by (simp add: unsigned_minus_1_eq_mask mask_eq_exp_minus_1)
  qed
  moreover have "unat (ucast u :: u16) = unat u mod 65536"
    by (simp add: unsigned_ucast_eq take_bit_eq_mod)
  ultimately show ?thesis by (simp add: u t fold16_def Let_def)
qed

lemma nat_sum_put16:
  assumes "even k" and "k + 1 < length bs" and "bs ! k = 0" and "bs ! (k + 1) = 0"
  shows "nat_sum (put16 k v bs) = nat_sum bs + unat v"
  using assms
proof (induction bs arbitrary: k rule: nat_sum.induct)
  case (1 a b r)
  have v: "unat (ucast v :: u8) + 256 * unat (ucast (drop_bit 8 v) :: u8) = unat v"
  proof -
    have "unat v < 2 ^ LENGTH(16)" by (rule unsigned_less)
    then show ?thesis
      by (simp add: unsigned_ucast_eq take_bit_eq_mod drop_bit_eq_div unat_div
          less_mult_imp_div_less mod_less)
  qed
  show ?case
  proof (cases k)
    case 0
    with 1 v show ?thesis by (simp add: put16_def)
  next
    case (Suc k')
    with 1(2) obtain j where k: "k = Suc (Suc j)" "even j" by (cases k') auto
    with "1.IH" [of j] 1 show ?thesis by (simp add: put16_def)
  qed
qed simp_all

text \<open>The checksum over data that contains its own checksum is zero.\<close>

lemma checksum_verifies:
  assumes "length bs < 131072" and "even k" and "k + 1 < length bs" and "bs ! k = 0" and "bs ! (k + 1) = 0"
  shows "calcsum (put16 k (calcsum bs) bs) = 0"
proof -
  let ?s = "nat_sum bs" and ?c = "unat (calcsum bs)"
  have len: "length (put16 k v bs) = length bs" for v by (simp add: put16_def)
  note f = fold16_props [OF nat_sum_fits [OF assms(1)]]
  have c: "?c = 65535 - fold16 ?s" by (rule calcsum_nat [OF assms(1)])
  have s': "nat_sum (put16 k (calcsum bs) bs) = ?s + ?c" using assms by (simp add: nat_sum_put16)
  have "?s + ?c < 2 ^ 32" using nat_sum_fits [of "put16 k (calcsum bs) bs"] assms(1) by (simp only: len s')
  note f' = fold16_props [OF this]
  have "(?s + ?c) mod 65535 = (fold16 ?s + ?c) mod 65535" by (rule mod_add_cong) (simp_all add: f(2))
  also have "\<dots> = 0" using f(1) by (simp add: c)
  finally have "fold16 (?s + ?c) mod 65535 = 0" using f'(2) by simp
  moreover have "fold16 (?s + ?c) \<noteq> 0" using f'(3) f(3) c by auto
  ultimately have "fold16 (?s + ?c) = 65535" using f'(1) by auto
  then have "unat (calcsum (put16 k (calcsum bs) bs)) = 0"
    using calcsum_nat [of "put16 k (calcsum bs) bs"] assms(1) by (simp add: len s')
  then show ?thesis by (simp add: unat_eq_0)
qed

section \<open>Fields of a frame\<close>

lemma length_fields [simp]:
  "length (put16 k v d) = length d"
  "i + n \<le> length d \<Longrightarrow> length (get_bytes d i n) = n"
  "i + length bs \<le> length d \<Longrightarrow> length (put_bytes i bs d) = length d"
  by (simp_all add: put16_def get_bytes_def put_bytes_def)

lemma nth_put16:
  "k + 1 < length d \<Longrightarrow> put16 k v d ! j =
     (if j = k then ucast v else if j = k + 1 then ucast (drop_bit 8 v) else d ! j)"
  by (simp add: put16_def nth_list_update)

lemma nth_get_bytes: "i + n \<le> length d \<Longrightarrow> j < n \<Longrightarrow> get_bytes d i n ! j = d ! (i + j)"
  by (simp add: get_bytes_def)

lemma nth_put_bytes:
  "i + length bs \<le> length d \<Longrightarrow> j < length d \<Longrightarrow> put_bytes i bs d ! j =
     (if i \<le> j \<and> j < i + length bs then bs ! (j - i) else d ! j)"
  by (auto simp: put_bytes_def nth_append min_def)

lemma get_bytes_eqI:
  "i + n \<le> length d \<Longrightarrow> length bs = n \<Longrightarrow> (\<And>j. j < n \<Longrightarrow> d ! (i + j) = bs ! j) \<Longrightarrow> get_bytes d i n = bs"
  by (rule nth_equalityI) (auto simp: nth_get_bytes)

lemma get_bytes_put16:
  assumes "i \<le> k" "k + 1 < i + n" "i + n \<le> length d"
  shows "get_bytes (put16 k v d) i n = put16 (k - i) v (get_bytes d i n)"
  using assms by (intro get_bytes_eqI) (auto simp: nth_put16 nth_get_bytes)

lemma get_bytes_put16_other:
  assumes "k + 1 < i \<or> i + n \<le> k" "k + 1 < length d" "i + n \<le> length d"
  shows "get_bytes (put16 k v d) i n = get_bytes d i n"
  using assms by (intro get_bytes_eqI) (auto simp: nth_put16 nth_get_bytes)

lemmas nth_fields = nth_put16 nth_get_bytes nth_put_bytes

lemma reverse_addresses:
  assumes "20 \<le> length d"
  shows "length (reverseIPSourceAndDestination d) = length d"
    and "j < length d \<Longrightarrow> reverseIPSourceAndDestination d ! j =
      (if 12 \<le> j \<and> j < 16 then d ! (j + 4) else if 16 \<le> j \<and> j < 20 then d ! (j - 4) else d ! j)"
  using assms by (auto simp: reverseIPSourceAndDestination_def Let_def nth_fields add.commute)

lemma reverse_involutive: "ReverseSourceAndDestination p = p"
  by (simp add: ReverseSourceAndDestination_def Let_def)

section \<open>Echo replies\<close>

lemma icmp_reply_fields:
  assumes len: "length d = 1600" and i: "i = ip_header_len d" "20 \<le> i"
    and n: "n = unat (payload_size d)" "4 \<le> n" "i + n \<le> 1600"
  shows "\<exists>d'. icmp_reply_data d = Inr d' \<and> length d' = length d \<and> d' ! i = 0 \<and>
    get_bytes d' 12 4 = get_bytes d 16 4 \<and> get_bytes d' 16 4 = get_bytes d 12 4 \<and>
    calcsum (get_bytes d' 0 i) = 0 \<and> calcsum (get_bytes d' i n) = 0 \<and>
    (\<forall>j < length d. j \<notin> {10..<20} \<union> {i..<i + 4} \<longrightarrow> d' ! j = d ! j)"
proof -
  define d1 where "d1 = reverseIPSourceAndDestination d"
  have len1: "length d1 = 1600" and nth1: "\<And>j. j < 1600 \<Longrightarrow> d1 ! j =
      (if 12 \<le> j \<and> j < 16 then d ! (j + 4) else if 16 \<le> j \<and> j < 20 then d ! (j - 4) else d ! j)"
    using reverse_addresses [of d] len unfolding d1_def by simp_all
  have i1: "ip_header_len d1 = i" by (simp add: ip_header_len_def nth1 i(1))
  define d3 where "d3 = put16 (i + 2) 0 (d1[i := 0, i + 1 := 0])"
  define d4 where "d4 = put16 (i + 2) (calcsum (get_bytes d3 i n)) d3"
  define d5 where "d5 = put16 10 0 d4"
  define d6 where "d6 = put16 10 (calcsum (get_bytes d5 0 i)) d5"
  have len3: "length d3 = 1600" "length d4 = 1600" "length d5 = 1600" "length d6 = 1600"
    by (simp_all add: d3_def d4_def d5_def d6_def len1)
  have nth3: "d3 ! j = (if i \<le> j \<and> j < i + 4 then 0 else d1 ! j)" for j
    using n len1 by (auto simp: d3_def nth_put16 nth_list_update)
  have nth4: "d4 ! j = (if i \<le> j \<and> j < i + 2 then 0 else d1 ! j)" if "\<not> (i + 2 \<le> j \<and> j < i + 4)" for j
    using that n by (auto simp: d4_def nth_put16 len3 nth3)
  have nth6: "d6 ! j = d4 ! j" if "j \<noteq> 10" "j \<noteq> 11" for j
    using that by (simp add: d6_def d5_def nth_put16 len3)
  have i6: "ip_header_len d5 = i"
    unfolding ip_header_len_def using i1 i(2) by (simp add: d5_def nth_put16 len3 nth4 ip_header_len_def)
  have "icmp_reply_data d = Inr d6"
    unfolding icmp_reply_data_def Let_def d1_def [symmetric] i1 n(1) [symmetric] d3_def [symmetric]
      d4_def [symmetric] d5_def [symmetric] i6 d6_def [symmetric]
    using n by (simp add: len3)
  moreover have "d6 ! i = 0" using i(2) by (simp add: nth6 nth4)
  moreover have "get_bytes d6 12 4 = get_bytes d 16 4" "get_bytes d6 16 4 = get_bytes d 12 4"
    using i(2) by (intro get_bytes_eqI; simp add: len3 len nth6 nth4 nth1 nth_get_bytes)+
  moreover have "calcsum (get_bytes d6 0 i) = 0"
  proof -
    let ?Y = "get_bytes d5 0 i"
    have "get_bytes d6 0 i = put16 10 (calcsum ?Y) ?Y"
      using i n unfolding d6_def by (subst get_bytes_put16) (simp_all add: len3)
    moreover have "?Y ! 10 = 0" "?Y ! 11 = 0"
      using i n by (simp_all add: nth_get_bytes len3 d5_def nth_put16)
    ultimately show ?thesis using i n by (simp add: checksum_verifies len3)
  qed
  moreover have "calcsum (get_bytes d6 i n) = 0"
  proof -
    let ?X = "get_bytes d3 i n"
    have "get_bytes d6 i n = get_bytes d4 i n"
      using i n unfolding d6_def d5_def by (simp add: get_bytes_put16_other len3)
    also have "\<dots> = put16 2 (calcsum ?X) ?X"
      using i n unfolding d4_def by (subst get_bytes_put16) (simp_all add: len3)
    finally have g: "get_bytes d6 i n = put16 2 (calcsum ?X) ?X" .
    have "?X ! 2 = 0" "?X ! 3 = 0" using n by (simp_all add: nth_get_bytes len3 nth3)
    with g n show ?thesis by (simp add: checksum_verifies len3)
  qed
  moreover have "\<forall>j < length d. j \<notin> {10..<20} \<union> {i..<i + 4} \<longrightarrow> d6 ! j = d ! j"
    by (auto simp: nth6 nth4 nth1 len)
  ultimately show ?thesis using len3 len by auto
qed

section \<open>ARP replies\<close>

lemma arp_reply_bytes:
  assumes "length d = 1600" and "length mac_addr = 6" and "length dmac = 6" and "d ! 4 = 6" and "d ! 5 = 4"
    and "j < 1600"
  shows "arp_reply_data mac_addr dmac behind d ! j =
    (if j < 28 then ([0, 1, 8, 0, 6, 4, 0, 2] @ mac_addr @ [192, 168, 1, 4] @ dmac @ get_bytes d 14 4) ! j
     else d ! j)"
proof -
  have h: "htons 1 = 0x100" "htons 0x800 = 8" "htons 2 = 0x200" by (simp_all add: htons_def)
  show ?thesis
    using assms
    by (auto simp: arp_reply_data_def arp_offsets Let_def ARPOP_REPLY_def h nth_fields nth_list_update nth_append
        nth_Cons') (simp add: eval_nat_numeral)
qed

text \<open>An address length above six copies what lies behind the local array into the frame.\<close>

lemma arp_reply_overrun:
  assumes "length d = 1600" and "length mac_addr = 6" and "length dmac = 6" and "d ! 5 = 4"
    and "unat (d ! 4) = 6 + k" and "k \<le> length behind" and "j < k"
  shows "arp_reply_data mac_addr dmac behind d ! (24 + j) = behind ! j"
  using assms unat_byte [of "d ! 4"]
  by (simp add: arp_reply_data_def arp_offsets Let_def nth_fields nth_list_update nth_append)

lemma arp_request_bytes:
  assumes "length d = 1600" and "length mac_addr = 6"
  shows "length (arp_request_data mac_addr d) = 1600"
    and "j < 28 \<Longrightarrow> arp_request_data mac_addr d ! j =
      ([0, 1, 8, 0, 6, 4, 0, 1] @ mac_addr @ [192, 168, 1, 100, 0, 0, 0, 0, 0, 0, 192, 168, 1, 1]) ! j"
proof -
  show "length (arp_request_data mac_addr d) = 1600"
    using assms by (simp add: arp_request_data_def arp_offsets Let_def)
  show "arp_request_data mac_addr d ! j =
      ([0, 1, 8, 0, 6, 4, 0, 1] @ mac_addr @ [192, 168, 1, 100, 0, 0, 0, 0, 0, 0, 192, 168, 1, 1]) ! j"
    if "j < 28"
    using assms that
    by (auto simp: arp_request_data_def arp_offsets Let_def nth_fields nth_list_update nth_append
        nth_Cons') (simp add: eval_nat_numeral)
qed

section \<open>Properties\<close>

text \<open>C22: an echo request of a well-formed IP packet that lies in the frame is answered, to the
  hardware address it came from, by an echo reply with the IP addresses exchanged; the checksums
  of the reply's IP header and ICMP message are valid and nothing else changes.\<close>

theorem icmp_echo_reply:
  assumes "frame_ok eth" and "ethernetPacket skb = eth" and "h_data eth = d"
    and "i = ip_header_len d" and "20 \<le> i" and "n = unat (payload_size d)" and "4 \<le> n" and "i + n \<le> 1600"
    and "d ! 9 = IP_PACKET_TYPE_ICMP" and "d ! i = ICMP_ECHO"
  shows "\<exists>eth' d'. processIPPacket drv skb = Inr (skb\<lparr>ethernetPacket := eth'\<rparr>, [(eth', packet_size skb)]) \<and>
    eth' = eth\<lparr>h_dest := h_source eth, h_source := mac drv, h_data := d'\<rparr> \<and>
    d' ! i = 0 \<and> get_bytes d' 12 4 = get_bytes d 16 4 \<and> get_bytes d' 16 4 = get_bytes d 12 4 \<and>
    calcsum (get_bytes d' 0 i) = 0 \<and> calcsum (get_bytes d' i n) = 0 \<and>
    (\<forall>j < length d. j \<notin> {10..<20} \<union> {i..<i + 4} \<longrightarrow> d' ! j = d ! j)"
proof -
  have "length d = 1600"
    using assms(1,3) by (simp add: frame_ok_def ETH_FRAME_LEN_WITH_TCP_SUDO_def)
  from icmp_reply_fields [OF this assms(4-8)] obtain d' where d': "icmp_reply_data d = Inr d'"
    and r: "d' ! i = 0" "get_bytes d' 12 4 = get_bytes d 16 4" "get_bytes d' 16 4 = get_bytes d 12 4"
      "calcsum (get_bytes d' 0 i) = 0" "calcsum (get_bytes d' i n) = 0"
      "\<forall>j < length d. j \<notin> {10..<20} \<union> {i..<i + 4} \<longrightarrow> d' ! j = d ! j"
    by blast
  have "processIPPacket drv skb =
      (let eth' = eth\<lparr>h_dest := h_source eth, h_source := mac drv, h_data := d'\<rparr>
       in Inr (skb\<lparr>ethernetPacket := eth'\<rparr>, [(eth', packet_size skb)]))"
    using assms d'
    by (simp add: processIPPacket_def processICMPPacket_def Let_def reverse_involutive)
  with r show ?thesis by (auto simp: Let_def)
qed

definition demo_eth :: EthernetPacket where
  "demo_eth = \<lparr>h_dest = [0x52, 0x54, 0, 0x12, 0x34, 0x56], h_source = [2, 0, 0, 0, 0, 1], h_proto = 8,
     h_data = [0x45, 0, 0, 84, 0, 0, 0, 0, 64, 1, 0, 0, 192, 168, 1, 1, 192, 168, 1, 4, 8, 0, 0, 0] @
       replicate 1576 7\<rparr>"

definition demo_skb :: NetworkPacket where
  "demo_skb = \<lparr>ethernetPacket = demo_eth, packet_size = 98\<rparr>"

definition demo_driver :: NetworkDriver where
  "demo_driver = \<lparr>mac = [0x52, 0x54, 0, 0x12, 0x34, 0x56]\<rparr>"

lemma demo_frame: "frame_ok demo_eth" "ip_header_len (h_data demo_eth) = 20"
  "unat (payload_size (h_data demo_eth)) = 64"
  by (simp_all add: frame_ok_def demo_eth_def ETH_FRAME_LEN_WITH_TCP_SUDO_def ip_header_len_def
      payload_size_def get16_def le16_def htons_def)

lemma demo_source: "h_source demo_eth = [2, 0, 0, 0, 0, 1]"
  by (simp add: demo_eth_def)

theorem icmp_echo_reply_witness:
  "\<exists>eth'. processIPPacket demo_driver demo_skb = Inr (demo_skb\<lparr>ethernetPacket := eth'\<rparr>, [(eth', 98)]) \<and>
    h_dest eth' = [2, 0, 0, 0, 0, 1] \<and> get_bytes (h_data eth') 16 4 = [192, 168, 1, 1] \<and>
    calcsum (get_bytes (h_data eth') 20 64) = 0"
proof -
  have "h_data demo_eth ! 9 = IP_PACKET_TYPE_ICMP" "h_data demo_eth ! 20 = ICMP_ECHO"
    "get_bytes (h_data demo_eth) 12 4 = [192, 168, 1, 1]"
    by (simp_all add: demo_eth_def IP_PACKET_TYPE_ICMP_def ICMP_ECHO_def get_bytes_def)
  then show ?thesis
    using icmp_echo_reply [of demo_eth demo_skb _ 20 64 demo_driver] demo_frame
    by (fastforce simp: demo_skb_def demo_source)
qed

lemma arp_answer:
  assumes "ethernetPacket skb = eth" and "is_arp_request (h_data eth)"
  shows "processARPPacket drv behind skb =
    (let eth' = eth\<lparr>h_dest := h_source eth, h_source := mac drv,
       h_data := arp_reply_data (mac drv) (h_source eth) behind (h_data eth)\<rparr>
     in (skb\<lparr>ethernetPacket := eth'\<rparr>, [(eth', packet_size skb)]))"
  using assms by (simp add: processARPPacket_def reverse_involutive Let_def)

lemma length_arp_reply:
  assumes "length d = 1600" and "length mac_addr = 6" and "length dmac = 6" and "d ! 5 = 4"
  shows "length (arp_reply_data mac_addr dmac behind d) = 1600"
proof -
  have "18 + (min 6 (unat (d ! 4)) + min (length behind) (unat (d ! 4) - 6)) \<le> 1600"
    using unat_byte [of "d ! 4"] by linarith
  with assms show ?thesis
    by (simp add: arp_reply_data_def arp_offsets Let_def nth_fields nth_list_update)
qed

text \<open>An ARP request with six-byte hardware addresses is answered, to the address it came
  from, by a well-formed reply: operation 2, the driver's hardware address and 192.168.1.4 as
  sender, the requester's addresses as target; the frame behind the header is unchanged.\<close>

theorem arp_request_answered:
  assumes "frame_ok eth" and "ethernetPacket skb = eth" and "length (mac drv) = 6"
    and "is_arp_request (h_data eth)" and "h_data eth ! ar_hln = 6"
  shows "\<exists>eth'. processARPPacket drv behind skb = (skb\<lparr>ethernetPacket := eth'\<rparr>, [(eth', packet_size skb)]) \<and>
    h_dest eth' = h_source eth \<and> h_source eth' = mac drv \<and>
    get_bytes (h_data eth') 0 28 = [0, 1, 8, 0, 6, 4, 0, 2] @ mac drv @ [192, 168, 1, 4] @
      h_source eth @ get_bytes (h_data eth) sender_protocol_address 4 \<and>
    drop 28 (h_data eth') = drop 28 (h_data eth)"
proof -
  let ?d = "arp_reply_data (mac drv) (h_source eth) behind (h_data eth)"
  have l: "length (h_data eth) = 1600" "length (h_source eth) = 6"
    using assms(1) by (simp_all add: frame_ok_def ETH_FRAME_LEN_WITH_TCP_SUDO_def)
  have p: "h_data eth ! 5 = 4" "h_data eth ! 4 = 6"
    using assms(4,5) by (simp_all add: is_arp_request_def arp_offsets)
  note b = arp_reply_bytes [OF l(1) assms(3) l(2) p(2,1)] and n = length_arp_reply [OF l(1) assms(3) l(2) p(1)]
  have "get_bytes ?d 0 28 = [0, 1, 8, 0, 6, 4, 0, 2] @ mac drv @ [192, 168, 1, 4] @
      h_source eth @ get_bytes (h_data eth) sender_protocol_address 4"
    by (rule get_bytes_eqI)
      (simp_all add: n l assms(3) b sender_protocol_address_def del: append.simps)
  moreover have "drop 28 ?d = drop 28 (h_data eth)"
    by (rule nth_equalityI) (simp_all add: n l b)
  ultimately show ?thesis using arp_answer [OF assms(2,4), of drv behind] by (simp add: Let_def)
qed

text \<open>The length of the hardware address in the request is used unchecked to copy from a local
  array: with a longer one, the reply carries bytes of the kernel stack behind that array.\<close>

theorem arp_reply_leaks_stack:
  assumes "frame_ok eth" and "ethernetPacket skb = eth" and "length (mac drv) = 6"
    and "is_arp_request (h_data eth)" and "unat (h_data eth ! ar_hln) = 6 + k" and "k \<le> length behind"
  shows "\<exists>eth'. snd (processARPPacket drv behind skb) = [(eth', packet_size skb)] \<and>
    get_bytes (h_data eth') target_protocol_address k = take k behind"
proof -
  let ?d = "arp_reply_data (mac drv) (h_source eth) behind (h_data eth)"
  have l: "length (h_data eth) = 1600" "length (h_source eth) = 6"
    using assms(1) by (simp_all add: frame_ok_def ETH_FRAME_LEN_WITH_TCP_SUDO_def)
  have p: "h_data eth ! 5 = 4" "unat (h_data eth ! 4) = 6 + k"
    using assms(4,5) by (simp_all add: is_arp_request_def arp_offsets)
  have "get_bytes ?d 24 k = take k behind"
    using assms(6) p(2) unat_byte [of "h_data eth ! 4"] length_arp_reply [OF l(1) assms(3) l(2) p(1), of behind]
    by (intro get_bytes_eqI) (simp_all add: arp_reply_overrun [OF l(1) assms(3) l(2) p assms(6)])
  then show ?thesis
    using arp_answer [OF assms(2,4), of drv behind] by (simp add: Let_def target_protocol_address_def)
qed

definition demo_arp :: "u8 \<Rightarrow> NetworkPacket" where
  "demo_arp hln = \<lparr>ethernetPacket = demo_eth\<lparr>h_proto := 0x608, h_data :=
     [0, 1, 8, 0, hln, 4, 0, 1, 2, 0, 0, 0, 0, 1, 192, 168, 1, 1, 0, 0, 0, 0, 0, 0, 192, 168, 1, 4] @
     replicate 1572 7\<rparr>, packet_size = 42\<rparr>"

lemma demo_arp_ok: "frame_ok (ethernetPacket (demo_arp n))" "is_arp_request (h_data (ethernetPacket (demo_arp n)))"
  "h_data (ethernetPacket (demo_arp n)) ! ar_hln = n" "packet_size (demo_arp n) = 42"
  "h_source (ethernetPacket (demo_arp n)) = [2, 0, 0, 0, 0, 1]"
  "get_bytes (h_data (ethernetPacket (demo_arp n))) sender_protocol_address 4 = [192, 168, 1, 1]"
  by (simp_all add: demo_arp_def demo_eth_def frame_ok_def ETH_FRAME_LEN_WITH_TCP_SUDO_def is_arp_request_def
      arp_offsets get16_def le16_def htons_def ARPHRD_ETHER_def ARPOP_REQUEST_def get_bytes_def)

theorem arp_request_answered_witness:
  "\<exists>eth'. snd (processARPPacket demo_driver [] (demo_arp 6)) = [(eth', 42)] \<and>
    get_bytes (h_data eth') 0 28 = [0, 1, 8, 0, 6, 4, 0, 2, 0x52, 0x54, 0, 0x12, 0x34, 0x56, 192, 168, 1, 4,
      2, 0, 0, 0, 0, 1, 192, 168, 1, 1]"
  using arp_request_answered [OF demo_arp_ok(1) refl _ demo_arp_ok(2), of demo_driver 6 "[]"]
  by (fastforce simp: demo_arp_ok demo_driver_def)

theorem arp_reply_leaks_stack_witness:
  "\<exists>eth'. snd (processARPPacket demo_driver [0xDE, 0xAD] (demo_arp 8)) = [(eth', 42)] \<and>
    get_bytes (h_data eth') target_protocol_address 2 = [0xDE, 0xAD]"
  using arp_reply_leaks_stack [OF demo_arp_ok(1) refl _ demo_arp_ok(2), of demo_driver 8 2 "[0xDE, 0xAD]"]
  by (simp add: demo_arp_ok demo_driver_def)

text \<open>The frame \<open>RequestMACAddress\<close> sends is a broadcast ARP request for 192.168.1.1, but
  its source address is not the driver's: the store to \<open>h_dest[6]\<close> overwrites its first byte.\<close>

theorem arp_request_source_overwritten:
  assumes "length (h_data eth) = 1600" and "length (mac drv) = 6"
    and "RequestMACAddress apic m drv eth ip = Some (Inr (eth', sz), m')"
  shows "h_dest eth' = replicate 6 0xFF \<and> h_source eth' = 0xFF # tl (mac drv) \<and> h_proto eth' = htons 0x806 \<and>
    sz = 42 \<and> get_bytes (h_data eth') 0 28 =
      [0, 1, 8, 0, 6, 4, 0, 1] @ mac drv @ [192, 168, 1, 100, 0, 0, 0, 0, 0, 0, 192, 168, 1, 1]"
proof -
  let ?d = "arp_request_data (mac drv) (h_data eth)"
  have e: "eth' = eth\<lparr>h_data := ?d, h_source := (mac drv)[0 := 0xFF],
      h_dest := [0xFF, 0xFF, 0xFF, 0xFF, 0xFF, 0xFF], h_proto := 1544\<rparr>" "sz = 42"
    using assms(3) by (auto simp: RequestMACAddress_def bind_eq_Some_conv Let_def split: if_splits)
  have "get_bytes ?d 0 28 =
      [0, 1, 8, 0, 6, 4, 0, 1] @ mac drv @ [192, 168, 1, 100, 0, 0, 0, 0, 0, 0, 192, 168, 1, 1]"
    by (rule get_bytes_eqI)
      (simp_all add: arp_request_bytes [OF assms(1,2)] assms(2) del: append.simps)
  moreover have "(mac drv)[0 := 0xFF] = 0xFF # tl (mac drv)" using assms(2) by (cases "mac drv") auto
  moreover have "htons 0x806 = 1544" by (simp add: htons_def)
  moreover have "replicate 6 x = [x, x, x, x, x, x]" for x :: u8 by (simp add: numeral_eq_Suc)
  ultimately show ?thesis by (simp add: e)
qed

theorem arp_request_source_overwritten_witness:
  "\<exists>eth' m'. RequestMACAddress 0 demo_allocator demo_driver demo_eth [192, 168, 1, 1] =
      Some (Inr (eth', 42), m') \<and> h_source eth' = [0xFF, 0x54, 0, 0x12, 0x34, 0x56]"
proof -
  have k: "kmalloc 0 demo_allocator 16 = Some (0x2E00010, demo_allocator\<lparr>kernel_memory_current_address := 0x2E00020\<rparr>)"
    "kmalloc 0 (demo_allocator\<lparr>kernel_memory_current_address := 0x2E00020\<rparr>) 1614 =
      Some (0x2E00020, demo_allocator\<lparr>kernel_memory_current_address := 0x2E0066E\<rparr>)"
    by code_simp+
  obtain eth' m' where r: "RequestMACAddress 0 demo_allocator demo_driver demo_eth [192, 168, 1, 1] =
      Some (Inr (eth', 42), m')"
    by (simp add: RequestMACAddress_def k Let_def)
  have "length (h_data demo_eth) = 1600" "length (mac demo_driver) = 6"
    by (simp_all add: demo_eth_def demo_driver_def)
  from arp_request_source_overwritten [OF this r] r show ?thesis by (auto simp: demo_driver_def)
qed

end
