(* ===== verification/IPIoE.thy ===== *)
theory IPIoE
  imports Apic PacketProofs
begin

text \<open>
  Requests between cores over Ethernet (\<open>devices/network/IPIoE.c\<close>) and the dispatch of received
  frames (\<open>devices/network/Ethernet.c\<close>). A request is a 16-byte header and its data behind the
  Ethernet header; it is put into the one-place queue of the worker of the destination core, which
  is then interrupted. The locale \<open>bounded_fifo\<close> is the contract of that queue.
\<close>

section \<open>The header\<close>

definition IPIoE_OPCODE_REQUEST :: u8 where "IPIoE_OPCODE_REQUEST = 1"
definition IPIoE_OPCODE_REPLY :: u8 where "IPIoE_OPCODE_REPLY = 2"
definition IPIoE_QUEUE_LENGTH :: nat where "IPIoE_QUEUE_LENGTH = 1"
definition IPIOE_IPI :: u8 where "IPIOE_IPI = 98"

definition getIPIOEPacketFromSKB :: "u8 list \<Rightarrow> IPIOE_Packet" where
  "getIPIOEPacketFromSKB d =
     \<lparr>version = d ! 0 AND 0x0F, IHL = drop_bit 4 (d ! 0), opcode = d ! 1, dataLength = get16 d 2,
      messageID = get16 d 4, ip_checksum = get16 d 6, sourceCore = get16 d 8, destinationCore = get16 d 10,
      ip_flags = get16 d 12, serviceNumber = d ! 14, methodNumber = d ! 15\<rparr>"

section \<open>The queue of a worker\<close>

text \<open>Both operations index the queue with the stored position; the copy of the data into the entry
  is not bounded by the entry's 1000 bytes.\<close>

definition worker_enqueue :: "IPIoE_Queue_Entry \<Rightarrow> Worker \<Rightarrow> Worker result" where
  "worker_enqueue x w =
     (let e = unat (queue_end w)
      in if e \<ge> length (ipioe_queue w) \<or> length (ipdata x) > 1000 then Inl Out_of_bounds
         else let entry = ipioe_queue w ! e;
                  entry = entry\<lparr>ipioe_p := ipioe_p x, smac := smac x, dmac := dmac x,
                                ipdata := put_bytes 0 (ipdata x) (ipdata entry)\<rparr>
              in Inr (w\<lparr>queue_end := of_nat ((e + 1) mod IPIoE_QUEUE_LENGTH), queue_size := queue_size w + 1,
                        ipioe_queue := (ipioe_queue w)[e := entry]\<rparr>))"

text \<open>The copy \<open>workerDequeue\<close> makes of the entry at the head holds \<open>dataLength\<close> bytes of
  data.\<close>

definition worker_dequeue :: "Worker \<Rightarrow> (IPIoE_Queue_Entry \<times> Worker) result" where
  "worker_dequeue w =
     (let i = unat (queue_index w)
      in if i \<ge> length (ipioe_queue w) then Inl Out_of_bounds
         else let q = ipioe_queue w ! i; n = unat (dataLength (ipioe_p q))
              in if n > length (ipdata q) then Inl Out_of_bounds
                 else Inr (q\<lparr>ipdata := take n (ipdata q)\<rparr>,
                           w\<lparr>queue_index := of_nat ((i + 1) mod IPIoE_QUEUE_LENGTH),
                             queue_size := queue_size w - 1\<rparr>))"

section \<open>Handlers\<close>

definition set_worker :: "nat \<Rightarrow> Worker \<Rightarrow> apic_state \<Rightarrow> apic_state" where
  "set_worker i w st = set_apic i ((apics st ! i)\<lparr>worker := w\<rparr>) st"

definition fire :: "nat \<Rightarrow> nat \<Rightarrow> u8 \<Rightarrow> apic_state \<Rightarrow> apic_state" where
  "fire i n v st = set_apic i ((apics st ! i)\<lparr>fired_interrupts := (fired_interrupts (apics st ! i))[n := v]\<rparr>) st"

text \<open>\<open>None\<close> is the wait of \<open>SendFixedIPI\<close> for a controller that never reports delivery.\<close>

definition processIPIOEPacket :: "device \<Rightarrow> EthernetPacket \<Rightarrow> apic_state \<Rightarrow> apic_state result option" where
  "processIPIOEPacket dev eth st =
     (let p = getIPIOEPacketFromSKB (h_data eth)
      in if opcode p = IPIoE_OPCODE_REQUEST
         then let st = getCurrentCoreId dev st;
                  cur = unat (core_id_ret st);
                  core = unat (destinationCore p)
              in if core \<ge> length (apics st) then Some (Inl Out_of_bounds)
                 else let w = worker (apics st ! core)
                      in if unat (queue_size w) = IPIoE_QUEUE_LENGTH then Some (Inr st)
                         else case worker_enqueue \<lparr>smac = h_source eth, dmac = h_dest eth, ipioe_p = p,
                                  ipdata = get_bytes (h_data eth) 16 (unat (dataLength p))\<rparr> w of
                             Inl e \<Rightarrow> Some (Inl e)
                           | Inr w \<Rightarrow>
                               let st = set_worker core w st
                               in if core \<noteq> cur
                                  then map_option (\<lambda>b. Inr (st\<lparr>ap_bus := b\<rparr>))
                                         (SendFixedIPI dev (apics st ! core) IPIOE_IPI (ap_bus st))
                                  else Some (Inr (fire cur (unat IPIOE_IPI) 1 st))
         else Some (Inr st))"

definition workerDequeue :: "u32 \<Rightarrow> u16 \<Rightarrow> apic_state \<Rightarrow> (IPIoE_Queue_Entry \<times> apic_state) result option" where
  "workerDequeue self core st =
     (let i = unat core
      in if i \<ge> length (apics st) then Some (Inl Out_of_bounds)
         else do {
           (p, m) \<leftarrow> kmalloc self (ap_alloc st) 1028;
           Some (if p = 0 then Inl Null_pointer
             else and_then (worker_dequeue (worker (apics st ! i))) (\<lambda>(x, w).
               Inr (x, set_worker i w (st\<lparr>ap_alloc := m\<rparr>))))
         })"

section \<open>Sending\<close>

text \<open>The header as \<open>sendIPIoE_Packet\<close> fills it, field by field in the order of the code, and
  the data behind it. \<open>IHL\<close> and \<open>version\<close> share the first byte.\<close>

definition ipioe_frame_data :: "u8 \<Rightarrow> u16 \<Rightarrow> u16 \<Rightarrow> u8 \<Rightarrow> u8 \<Rightarrow> u8 list \<Rightarrow> u8 list \<Rightarrow> u8 list" where
  "ipioe_frame_data op coreid score_id service meth data d =
     (let d = d[14 := service];
          d = put16 2 (of_nat (length data)) d;
          d = put16 10 coreid d;
          d = put16 8 score_id d;
          d = d[15 := meth];
          d = d[1 := op];
          d = put16 6 0x0000 d;
          d = put16 12 0x0000 d;
          d = d[0 := d ! 0 AND 0x0F];
          d = put16 4 1 d;
          d = d[0 := (d ! 0 AND 0xF0) OR 1]
      in put_bytes 16 data d)"

text \<open>The results of \<open>kmalloc\<close> are not checked, nor is the length of the data: more than the
  frame holds is out of bounds. \<open>eth\<close> is what the allocated block held.\<close>

definition sendIPIoE_Packet :: "u32 \<Rightarrow> MemoryAllocator \<Rightarrow> NetworkDriver \<Rightarrow> EthernetPacket \<Rightarrow> u8 \<Rightarrow> u8 list \<Rightarrow>
    u16 \<Rightarrow> u16 \<Rightarrow> u8 \<Rightarrow> u8 \<Rightarrow> u8 list \<Rightarrow> ((EthernetPacket \<times> u16) result \<times> MemoryAllocator) option" where
  "sendIPIoE_Packet self m drv eth op mac_addr coreid score_id service meth data = do {
     (np, m) \<leftarrow> kmalloc self m 16;
     (ep, m) \<leftarrow> kmalloc self m 1614;
     Some (if np = 0 \<or> ep = 0 then Inl Null_pointer
       else if 16 + length data > length (h_data eth) then Inl Out_of_bounds
       else Inr (eth\<lparr>h_dest := mac_addr, h_source := mac drv, h_proto := htons 0x0812,
                     h_data := ipioe_frame_data op coreid score_id service meth data (h_data eth)\<rparr>,
                 14 + 16 + of_nat (length data)), m)
   }"

section \<open>Waiting\<close>

text \<open>
  A core that waits halts with interrupts enabled until the handler of the interrupt has set its
  flag. \<open>env\<close> is what the other cores and the handlers do to the state during a halt, in
  order.
\<close>

definition halt_step :: "nat \<Rightarrow> (nat \<Rightarrow> apic_state \<Rightarrow> apic_state) \<Rightarrow> nat \<times> apic_state \<Rightarrow> nat \<times> apic_state" where
  "halt_step c env = (\<lambda>(k, st).
     let st = set_worker c ((worker (apics st ! c))\<lparr>is_running := False\<rparr>) st;
         st = env k st
     in (k + 1, on_bus (sendAPICEOI (apics st ! c)) st))"

definition wait_until :: "(APIC \<Rightarrow> bool) \<Rightarrow> device \<Rightarrow> (nat \<Rightarrow> apic_state \<Rightarrow> apic_state) \<Rightarrow> apic_state \<Rightarrow> apic_state option" where
  "wait_until ready dev env st =
     (let st = getCurrentCoreId dev st;
          c = unat (ucast (core_id_ret st) :: u16);
          st = fire c (unat IPIOE_IPI) 0 st
      in map_option (\<lambda>(k, st). fire c (unat IPIOE_IPI) 0
             (set_worker c ((worker (apics st ! c))\<lparr>is_running := True\<rparr>) st))
           (while_option (\<lambda>(k, st). \<not> ready (apics st ! c)) (halt_step c env) (0, st)))"

definition wait_IPIoE :: "device \<Rightarrow> (nat \<Rightarrow> apic_state \<Rightarrow> apic_state) \<Rightarrow> apic_state \<Rightarrow> apic_state option" where
  "wait_IPIoE = wait_until (\<lambda>a. fired_interrupts a ! unat IPIOE_IPI \<noteq> 0)"

definition wait_IPIoE_messageId :: "u16 \<Rightarrow> device \<Rightarrow> (nat \<Rightarrow> apic_state \<Rightarrow> apic_state) \<Rightarrow> apic_state \<Rightarrow>
    apic_state option" where
  "wait_IPIoE_messageId message_id = wait_until (\<lambda>a. fired_interrupts a ! unat IPIOE_IPI \<noteq> 0 \<and>
     messageID (ipioe_p (ipioe_queue (worker a) ! 0)) = message_id)"

section \<open>Received frames\<close>

text \<open>\<open>behind\<close> is as for \<^const>\<open>processARPPacket\<close>.\<close>

record net_state =
  net_skb :: NetworkPacket
  net_sent :: "(EthernetPacket \<times> u16) list"
  net_apic :: apic_state

definition processEthernetPacket :: "device \<Rightarrow> NetworkDriver \<Rightarrow> u8 list \<Rightarrow> net_state \<Rightarrow> net_state result option" where
  "processEthernetPacket dev drv behind ns =
     (let eth = ethernetPacket (net_skb ns)
      in if h_source eth = mac drv then Some (Inr ns)
         else if ntohs (h_proto eth) = 0x0806
         then let (skb, sent) = processARPPacket drv behind (net_skb ns)
              in Some (Inr (ns\<lparr>net_skb := skb, net_sent := net_sent ns @ sent\<rparr>))
         else if ntohs (h_proto eth) = 0x0800
         then Some (and_then (processIPPacket drv (net_skb ns)) (\<lambda>(skb, sent).
                Inr (ns\<lparr>net_skb := skb, net_sent := net_sent ns @ sent\<rparr>)))
         else if ntohs (h_proto eth) = 0x0812
         then map_option (\<lambda>r. and_then r (\<lambda>st. Inr (ns\<lparr>net_apic := st\<rparr>)))
                (processIPIOEPacket dev eth (net_apic ns))
         else Some (Inr ns))"

section \<open>The contract of the queue\<close>

locale bounded_fifo =
  fixes ok :: "'s \<Rightarrow> bool"
    and valid :: "'a \<Rightarrow> bool"
    and items :: "'s \<Rightarrow> 'a list"
    and cap :: nat
    and enq :: "'a \<Rightarrow> 's \<Rightarrow> 's result"
    and deq :: "'s \<Rightarrow> ('a \<times> 's) result"
  assumes enq_room: "ok s \<Longrightarrow> valid x \<Longrightarrow> length (items s) < cap \<Longrightarrow>
      \<exists>s'. enq x s = Inr s' \<and> ok s' \<and> items s' = items s @ [x]"
    and deq_item: "ok s \<Longrightarrow> items s = x # xs \<Longrightarrow> \<exists>s'. deq s = Inr (x, s') \<and> ok s' \<and> items s' = xs"
begin

fun drain :: "nat \<Rightarrow> 's \<Rightarrow> ('a list \<times> 's) result" where
  "drain 0 s = Inr ([], s)"
| "drain (Suc n) s = and_then (deq s) (\<lambda>(x, s). and_then (drain n s) (\<lambda>(xs, s). Inr (x # xs, s)))"

fun fill :: "'a list \<Rightarrow> 's \<Rightarrow> 's result" where
  "fill [] s = Inr s"
| "fill (x # xs) s = and_then (enq x s) (fill xs)"

lemma fill_items: "ok s \<Longrightarrow> \<forall>x\<in>set xs. valid x \<Longrightarrow> length (items s) + length xs \<le> cap \<Longrightarrow>
    \<exists>s'. fill xs s = Inr s' \<and> ok s' \<and> items s' = items s @ xs"
proof (induction xs arbitrary: s)
  case (Cons x xs)
  then obtain s' where "enq x s = Inr s'" "ok s'" "items s' = items s @ [x]" using enq_room [of s x] by auto
  with Cons.IH [of s'] Cons.prems show ?case by auto
qed simp

lemma drain_items: "ok s \<Longrightarrow> items s = xs @ ys \<Longrightarrow>
    \<exists>s'. drain (length xs) s = Inr (xs, s') \<and> ok s' \<and> items s' = ys"
proof (induction xs arbitrary: s)
  case (Cons x xs)
  then obtain s' where "deq s = Inr (x, s')" "ok s'" "items s' = xs @ ys" using deq_item [of s x "xs @ ys"] by auto
  with Cons.IH [of s'] show ?case by auto
qed simp

text \<open>What was put in comes out in the same order.\<close>

lemma fifo: "ok s \<Longrightarrow> items s = [] \<Longrightarrow> \<forall>x\<in>set xs. valid x \<Longrightarrow> length xs \<le> cap \<Longrightarrow>
    \<exists>s' s''. fill xs s = Inr s' \<and> drain (length xs) s' = Inr (xs, s'') \<and> ok s'' \<and> items s'' = []"
  using fill_items [of s xs] drain_items [of _ xs "[]"] by fastforce

end

text \<open>The queue of an initialised worker, and what it holds.\<close>

definition worker_ok :: "Worker \<Rightarrow> bool" where
  "worker_ok w \<longleftrightarrow> length (ipioe_queue w) = IPIoE_QUEUE_LENGTH \<and> queue_end w = 0 \<and> queue_index w = 0 \<and>
     unat (queue_size w) \<le> IPIoE_QUEUE_LENGTH \<and> length (ipdata (ipioe_queue w ! 0)) = 1000 \<and>
     (queue_size w \<noteq> 0 \<longrightarrow> unat (dataLength (ipioe_p (ipioe_queue w ! 0))) \<le> 1000)"

definition entry_ok :: "IPIoE_Queue_Entry \<Rightarrow> bool" where
  "entry_ok x \<longleftrightarrow> length (ipdata x) = unat (dataLength (ipioe_p x)) \<and> length (ipdata x) \<le> 1000"

definition queued :: "Worker \<Rightarrow> IPIoE_Queue_Entry list" where
  "queued w = (if queue_size w = 0 then []
     else [let q = ipioe_queue w ! 0 in q\<lparr>ipdata := take (unat (dataLength (ipioe_p q))) (ipdata q)\<rparr>])"

lemma init_worker_ok:
  assumes "length (ipioe_queue w) = 1" and "length (ipdata (ipioe_queue w ! 0)) = 1000"
  shows "worker_ok (init_worker w)" "queued (init_worker w) = []"
  using assms by (simp_all add: worker_ok_def init_worker_def IPIoE_QUEUE_LENGTH_def queued_def)

interpretation wq: bounded_fifo worker_ok entry_ok queued IPIoE_QUEUE_LENGTH worker_enqueue worker_dequeue
proof (unfold_locales, goal_cases)
  case (1 w x)
  let ?w = "w\<lparr>queue_size := 1, ipioe_queue := (ipioe_queue w)[0 := (ipioe_queue w ! 0)
    \<lparr>ipioe_p := ipioe_p x, smac := smac x, dmac := dmac x, ipdata := put_bytes 0 (ipdata x) (ipdata (ipioe_queue w ! 0))\<rparr>]\<rparr>"
  have w: "length (ipioe_queue w) = 1" "queue_end w = 0" "queue_index w = 0" "queue_size w = 0"
    "length (ipdata (ipioe_queue w ! 0)) = 1000"
    using 1(1,3) by (auto simp: worker_ok_def queued_def IPIoE_QUEUE_LENGTH_def split: if_splits)
  have x: "length (ipdata x) = unat (dataLength (ipioe_p x))" "unat (dataLength (ipioe_p x)) \<le> 1000"
    using 1(2) by (simp_all add: entry_ok_def)
  have "worker_enqueue x w = Inr ?w"
    using w x by (simp add: worker_enqueue_def IPIoE_QUEUE_LENGTH_def Let_def)
  moreover have "worker_ok ?w" using w x by (simp add: worker_ok_def IPIoE_QUEUE_LENGTH_def)
  moreover have "queued ?w = queued w @ [x]"
    using w x by (simp add: queued_def Let_def put_bytes_def)
  ultimately show ?case by blast
next
  case (2 w x xs)
  let ?w = "w\<lparr>queue_size := 0\<rparr>"
  have w: "length (ipioe_queue w) = 1" "queue_end w = 0" "queue_index w = 0" "queue_size w = 1"
    "length (ipdata (ipioe_queue w ! 0)) = 1000" "unat (dataLength (ipioe_p (ipioe_queue w ! 0))) \<le> 1000"
  proof -
    have "queue_size w \<noteq> 0" using 2(2) by (auto simp: queued_def)
    moreover then have "unat (queue_size w) = 1"
      using 2(1) by (auto simp: worker_ok_def IPIoE_QUEUE_LENGTH_def unat_eq_0 le_Suc_eq)
    then have "queue_size w = 1" by (metis unat_1 word_unat_eq_iff)
    ultimately show "length (ipioe_queue w) = 1" "queue_end w = 0" "queue_index w = 0" "queue_size w = 1"
      "length (ipdata (ipioe_queue w ! 0)) = 1000" "unat (dataLength (ipioe_p (ipioe_queue w ! 0))) \<le> 1000"
      using 2(1) by (simp_all add: worker_ok_def IPIoE_QUEUE_LENGTH_def)
  qed
  have "worker_dequeue w = Inr (x, ?w)"
    using w 2(2) by (simp add: worker_dequeue_def queued_def IPIoE_QUEUE_LENGTH_def Let_def)
  moreover have "worker_ok ?w" using w by (simp add: worker_ok_def IPIoE_QUEUE_LENGTH_def)
  moreover have "queued ?w = xs" using 2(2) w by (simp add: queued_def)
  ultimately show ?case by blast
qed

section \<open>A request on its way\<close>

lemma get16_put16: "k + 1 < length d \<Longrightarrow> get16 (put16 k v d) k = v"
proof -
  have "le16 (ucast v) (ucast (drop_bit 8 v)) = v" for v :: u16
    by (auto simp: le16_def bit_eq_iff bit_simps dest: bit_imp_le_length)
  then show "k + 1 < length d \<Longrightarrow> ?thesis" by (simp add: get16_def nth_put16)
qed

lemma get16_other:
  "k + 1 < length d \<Longrightarrow> j + 1 < k \<or> k + 1 < j \<Longrightarrow> get16 (put16 k v d) j = get16 d j"
  "j \<noteq> k \<Longrightarrow> j + 1 \<noteq> k \<Longrightarrow> get16 (d[k := x]) j = get16 d j"
  by (auto simp: get16_def nth_put16)

lemma version_byte: "((x AND 0x0F) AND 0xF0 OR 1) AND 0x0F = (1 :: u8)" "drop_bit 4 ((x AND 0x0F) AND 0xF0 OR 1 :: u8) = 0"
proof -
  have "(x AND 0x0F) AND 0xF0 = x AND (0x0F AND 0xF0 :: u8)" by (simp only: and.assoc)
  then have e: "(x AND 0x0F) AND 0xF0 = (0 :: u8)" by simp
  show "((x AND 0x0F) AND 0xF0 OR 1) AND 0x0F = (1 :: u8)" "drop_bit 4 ((x AND 0x0F) AND 0xF0 OR 1 :: u8) = 0"
    unfolding e by simp_all
qed

lemma get16_put_bytes: "i + length bs \<le> length d \<Longrightarrow> j + 1 < i \<Longrightarrow> get16 (put_bytes i bs d) j = get16 d j"
  by (simp add: get16_def nth_put_bytes)

lemma ipioe_frame_parsed:
  assumes "length d = 1600" and "length data \<le> 1000"
  shows "getIPIOEPacketFromSKB (ipioe_frame_data op coreid score service meth data d) =
      \<lparr>version = 1, IHL = 0, opcode = op, dataLength = of_nat (length data), messageID = 1, ip_checksum = 0,
       sourceCore = score, destinationCore = coreid, ip_flags = 0, serviceNumber = service, methodNumber = meth\<rparr>"
    and "get_bytes (ipioe_frame_data op coreid score service meth data d) 16 (length data) = data"
    and "length (ipioe_frame_data op coreid score service meth data d) = 1600"
proof -
  show "getIPIOEPacketFromSKB (ipioe_frame_data op coreid score service meth data d) =
      \<lparr>version = 1, IHL = 0, opcode = op, dataLength = of_nat (length data), messageID = 1, ip_checksum = 0,
       sourceCore = score, destinationCore = coreid, ip_flags = 0, serviceNumber = service, methodNumber = meth\<rparr>"
    using assms
    by (simp add: getIPIOEPacketFromSKB_def ipioe_frame_data_def Let_def get16_put_bytes get16_put16 get16_other
        nth_put_bytes nth_put16 nth_list_update version_byte)
  show "get_bytes (ipioe_frame_data op coreid score service meth data d) 16 (length data) = data"
    using assms by (intro get_bytes_eqI) (simp_all add: ipioe_frame_data_def Let_def nth_put_bytes)
  show "length (ipioe_frame_data op coreid score service meth data d) = 1600"
    using assms by (simp add: ipioe_frame_data_def Let_def)
qed

text \<open>A request enters the free queue of its destination, whether the receiving core is the
  destination or interrupts it.\<close>

lemma request_queued:
  assumes p: "getIPIOEPacketFromSKB (h_data eth) = p" "opcode p = IPIoE_OPCODE_REQUEST"
    and c: "c = unat (destinationCore p)" "c < length (apics st)"
    and w: "worker_ok (worker (apics st ! c))" "queued (worker (apics st ! c)) = []"
    and x: "x = \<lparr>smac = h_source eth, dmac = h_dest eth, ipioe_p = p,
      ipdata = get_bytes (h_data eth) 16 (unat (dataLength p))\<rparr>" "entry_ok x"
    and dev: "\<forall>ws. \<exists>k. dev ws (bus_reads (ap_bus (getCurrentCoreId dev st)) + k) (lapic_icr0 (apics st ! c)) AND 0x1000 = 0"
  shows "\<exists>st'. processIPIOEPacket dev eth st = Some (Inr st') \<and> worker_ok (worker (apics st' ! c)) \<and>
    queued (worker (apics st' ! c)) = [x] \<and> length (apics st') = length (apics st) \<and>
    (\<forall>i. i \<noteq> c \<longrightarrow> apics st' ! i = apics st ! i)"
proof -
  define s1 where "s1 = getCurrentCoreId dev st"
  have s1: "apics s1 = apics st" by (simp add: s1_def core_id_frame)
  from wq.enq_room [OF w(1) x(2)] w(2) obtain w' where w': "worker_enqueue x (worker (apics st ! c)) = Inr w'"
    "worker_ok w'" "queued w' = [x]" by (auto simp: IPIoE_QUEUE_LENGTH_def)
  have q: "unat (queue_size (worker (apics st ! c))) \<noteq> IPIoE_QUEUE_LENGTH"
    using w(2) by (auto simp: queued_def IPIoE_QUEUE_LENGTH_def split: if_splits)
  define s2 where "s2 = set_worker c w' s1"
  have s2: "apics s2 = (apics st)[c := (apics st ! c)\<lparr>worker := w'\<rparr>]" "ap_bus s2 = ap_bus s1"
    by (simp_all add: s2_def set_worker_def set_apic_def s1)
  have run: "processIPIOEPacket dev eth st =
      (if c \<noteq> unat (core_id_ret s1)
       then map_option (\<lambda>b. Inr (s2\<lparr>ap_bus := b\<rparr>)) (SendFixedIPI dev (apics s2 ! c) IPIOE_IPI (ap_bus s2))
       else Some (Inr (fire c (unat IPIOE_IPI) 1 s2)))"
    unfolding processIPIOEPacket_def Let_def p(1) c(1) [symmetric] s1_def [symmetric] s1 x(1) [symmetric]
    using p(2) c(2) q w'(1) by (simp add: not_le s2_def)
  have a: "lapic_icr0 (apics s2 ! c) = lapic_icr0 (apics st ! c)" using c(2) by (simp add: s2)
  show ?thesis
  proof (cases "c = unat (core_id_ret s1)")
    case True
    then show ?thesis using run c(2) w' by (simp add: fire_def set_apic_def s2)
  next
    case False
    obtain k where "dev (bus_writes (ap_bus s2) @ [(lapic_icr1 (apics s2 ! c), push_bit 24 (ucast (apic_id (apics s2 ! c)))),
        (lapic_icr0 (apics s2 ! c), 0x4000 OR ucast IPIOE_IPI)]) (bus_reads (ap_bus s2) + k)
        (lapic_icr0 (apics s2 ! c)) AND 0x1000 = 0"
      using dev unfolding a s2(2) s1_def [symmetric] by blast
    with ipi_returns [OF refl, where dev = dev and b = "ap_bus s2" and a = "apics s2 ! c" and p_irq = IPIOE_IPI and k = k]
    obtain b' where "SendFixedIPI dev (apics s2 ! c) IPIOE_IPI (ap_bus s2) = Some b'"
      by blast
    then show ?thesis using False run c(2) w' by (simp add: s2)
  qed
qed

section \<open>Properties\<close>

text \<open>C29: a request of at most 1000 bytes sent by one node with \<open>sendIPIoE_Packet\<close> and received
  by another is put into the free queue of the worker of its destination core, from where
  \<open>worker_dequeue\<close> takes exactly the service, meth, sender and data that were sent; no
  other core is affected. The receiver needs a controller that delivers interrupts.\<close>

theorem ipioe_request_delivered:
  assumes "sendIPIoE_Packet self m drv eth0 IPIoE_OPCODE_REQUEST dst core score service meth data =
      Some (Inr (eth, sz), m')"
    and "length (h_data eth0) = 1600" and "length data \<le> 1000" and "mac drv \<noteq> mac drv2"
    and "ethernetPacket (net_skb ns) = eth" and "c = unat core" and "st = net_apic ns" and "c < length (apics st)"
    and "worker_ok (worker (apics st ! c))" and "queued (worker (apics st ! c)) = []"
    and "\<forall>ws. \<exists>k. dev ws (bus_reads (ap_bus (getCurrentCoreId dev st)) + k) (lapic_icr0 (apics st ! c)) AND 0x1000 = 0"
  shows "\<exists>ns' x w. processEthernetPacket dev drv2 behind ns = Some (Inr ns') \<and>
    worker_dequeue (worker (apics (net_apic ns') ! c)) = Inr (x, w) \<and> queued w = [] \<and>
    ipdata x = data \<and> serviceNumber (ipioe_p x) = service \<and> methodNumber (ipioe_p x) = meth \<and>
    sourceCore (ipioe_p x) = score \<and> smac x = mac drv \<and> dmac x = dst \<and>
    (\<forall>i. i \<noteq> c \<longrightarrow> apics (net_apic ns') ! i = apics st ! i)"
proof -
  define d where "d = ipioe_frame_data IPIoE_OPCODE_REQUEST core score service meth data (h_data eth0)"
  have eth: "eth = eth0\<lparr>h_dest := dst, h_source := mac drv, h_proto := htons 0x0812, h_data := d\<rparr>"
    using assms(1) by (auto simp: sendIPIoE_Packet_def bind_eq_Some_conv d_def split: if_splits)
  define p where "p = getIPIOEPacketFromSKB d"
  note f = ipioe_frame_parsed [OF assms(2,3), of IPIoE_OPCODE_REQUEST core score service meth, folded d_def]
  have p: "opcode p = IPIoE_OPCODE_REQUEST" "destinationCore p = core" "dataLength p = of_nat (length data)"
    "serviceNumber p = service" "methodNumber p = meth" "sourceCore p = score"
    by (simp_all add: p_def f(1))
  have len: "unat (dataLength p) = length data"
    using assms(3) by (simp add: p unat_of_nat_small)
  define x where "x = \<lparr>smac = h_source eth, dmac = h_dest eth, ipioe_p = p,
      ipdata = get_bytes (h_data eth) 16 (unat (dataLength p))\<rparr>"
  have x: "ipdata x = data" "entry_ok x" "smac x = mac drv" "dmac x = dst" "ipioe_p x = p"
    using assms(3) by (simp_all add: x_def eth len f(2) entry_ok_def)
  have "getIPIOEPacketFromSKB (h_data eth) = p" by (simp add: eth p_def)
  from request_queued [OF this p(1) _ assms(8,9,10) x_def x(2) assms(11)] obtain st' where
    st': "processIPIOEPacket dev eth st = Some (Inr st')" "worker_ok (worker (apics st' ! c))"
      "queued (worker (apics st' ! c)) = [x]" "\<forall>i. i \<noteq> c \<longrightarrow> apics st' ! i = apics st ! i"
    by (auto simp: p(2) assms(6))
  from wq.deq_item [OF st'(2,3)] obtain w where w: "worker_dequeue (worker (apics st' ! c)) = Inr (x, w)" "queued w = []"
    by auto
  have proto: "ntohs (h_proto eth) = 0x0812" "h_source eth = mac drv" by (simp_all add: eth htons_def)
  then have "processEthernetPacket dev drv2 behind ns = Some (Inr (ns\<lparr>net_apic := st'\<rparr>))"
    using assms(4,5,7) st'(1) by (simp add: processEthernetPacket_def Let_def)
  with w st'(4) x p show ?thesis by force
qed

definition demo_driver2 :: NetworkDriver where
  "demo_driver2 = \<lparr>mac = [2, 0, 0, 0, 0, 9]\<rparr>"

definition demo_net :: "EthernetPacket \<Rightarrow> net_state" where
  "demo_net eth = \<lparr>net_skb = \<lparr>ethernetPacket = eth, packet_size = 33\<rparr>, net_sent = [], net_apic = demo_apic_state\<rparr>"

lemma demo_kmalloc:
  "kmalloc 0 demo_allocator 16 = Some (0x2E00010, demo_allocator\<lparr>kernel_memory_current_address := 0x2E00020\<rparr>)"
  "kmalloc 0 (demo_allocator\<lparr>kernel_memory_current_address := 0x2E00020\<rparr>) 1614 =
     Some (0x2E00020, demo_allocator\<lparr>kernel_memory_current_address := 0x2E0066E\<rparr>)"
  by code_simp+

lemma demo_worker: "worker_ok (worker (apics demo_apic_state ! 1))" "queued (worker (apics demo_apic_state ! 1)) = []"
  by (simp_all add: demo_apic_state_def demo_apic_def idle_worker_def worker_ok_def queued_def IPIoE_QUEUE_LENGTH_def)

theorem ipioe_request_delivered_witness:
  "\<exists>eth sz m' ns' x w. sendIPIoE_Packet 0 demo_allocator demo_driver demo_eth IPIoE_OPCODE_REQUEST [2, 0, 0, 0, 0, 9]
      1 0 8 2 [1, 2, 3] = Some (Inr (eth, sz), m') \<and>
    processEthernetPacket (\<lambda>_ _ _. 0) demo_driver2 [] (demo_net eth) = Some (Inr ns') \<and>
    worker_dequeue (worker (apics (net_apic ns') ! 1)) = Inr (x, w) \<and> ipdata x = [1, 2, 3]"
proof -
  have len: "length (h_data demo_eth) = 1600" by (simp add: demo_eth_def)
  obtain eth sz m' where s: "sendIPIoE_Packet 0 demo_allocator demo_driver demo_eth IPIoE_OPCODE_REQUEST
      [2, 0, 0, 0, 0, 9] 1 0 8 2 [1, 2, 3] = Some (Inr (eth, sz), m')"
    by (simp add: sendIPIoE_Packet_def demo_kmalloc len)
  have "mac demo_driver \<noteq> mac demo_driver2" "length [1, 2, 3 :: u8] \<le> 1000" "1 = unat (1 :: u16)"
    "1 < length (apics demo_apic_state)" "ethernetPacket (net_skb (demo_net eth)) = eth"
    "net_apic (demo_net eth) = demo_apic_state"
    by (simp_all add: demo_driver_def demo_driver2_def demo_apic_state_def demo_net_def)
  note r = ipioe_request_delivered [OF s len this(2,1,5,3) this(6) [symmetric] this(4) demo_worker, of "\<lambda>_ _ _. 0" "[]"]
  have "\<forall>ws :: (u64 \<times> u32) list. \<exists>k :: nat. (0 :: u32) AND 0x1000 = 0" by simp
  from r [OF this] s show ?thesis by blast
qed

end
