(* ===== verification/Interrupts.thy ===== *)
theory Interrupts
  imports IPIoE
begin

text \<open>
  Interrupts: the descriptor table (\<open>InterruptDescriptorTable.c\<close>), the registry of handlers
  (\<open>InterruptManager.c\<close>), the common handler the assembly stubs call (\<open>isr_stub.c\<close>) and the
  timer (\<open>pit.c\<close>). The addresses of the stubs are set by the linker and are an argument
  \<open>addr\<close>. What a registered handler does is an argument \<open>call\<close> of the operations that invoke
  it. Reading an I/O port depends on the device behind it, an argument \<open>port\<close> that sees the
  writes made so far.
\<close>

section \<open>Ports and the legacy interrupt controllers\<close>

type_synonym port_writes = "(u16 \<times> u8) list"
type_synonym port_device = "port_writes \<Rightarrow> u16 \<Rightarrow> u8"

definition PIC1_DATA :: u16 where "PIC1_DATA = 0x20 + 1"
definition PIC2_DATA :: u16 where "PIC2_DATA = 0xA0 + 1"

definition outportb :: "u16 \<Rightarrow> u8 \<Rightarrow> port_writes \<Rightarrow> port_writes" where
  "outportb p v io = io @ [(p, v)]"

definition irq_port :: "u8 \<Rightarrow> u16 \<times> nat" where
  "irq_port p_irq_line = (if p_irq_line < 8 then (PIC1_DATA, unat p_irq_line) else (PIC2_DATA, unat (p_irq_line - 8)))"

definition IrqSetMask :: "port_device \<Rightarrow> u8 \<Rightarrow> port_writes \<Rightarrow> port_writes" where
  "IrqSetMask port p_irq_line io =
     (if p_irq_line > 15 then io
      else let (p, l) = irq_port p_irq_line in outportb p (port io p OR push_bit l 1) io)"

definition IrqClearMask :: "port_device \<Rightarrow> u8 \<Rightarrow> port_writes \<Rightarrow> port_writes" where
  "IrqClearMask port p_irq_line io =
     (if p_irq_line > 15 then io
      else let (p, l) = irq_port p_irq_line in outportb p (port io p AND NOT (push_bit l 1)) io)"

section \<open>The descriptor table\<close>

record InterruptDescriptorTableEntry =
  base_low :: u16
  selector :: u16
  reserved_ist :: u8
  gate_flags :: u8
  base_mid :: u16
  base_high :: u32
  gate_reserved :: u32

record InterruptDescriptorTablePointer =
  idt_limit :: u16
  idt_base :: u64
  idt_x :: u32
  idt_y :: u16

text \<open>The assembly stubs, by name and number.\<close>

datatype stub = isr nat | irq nat | apirq nat | swirq nat

definition KERNEL_CODESEG :: u16 where "KERNEL_CODESEG = 0x8"
definition IDT_P_KERNEL_INTERRUPT_GATE :: u8 where "IDT_P_KERNEL_INTERRUPT_GATE = 0x8E"
definition IDT_P_USER_INTERRUPT_GATE :: u8 where "IDT_P_USER_INTERRUPT_GATE = 0xEE"
definition IDT_SIZE :: nat where "IDT_SIZE = 256"

type_synonym idt = "InterruptDescriptorTableEntry list"

definition gate :: "u64 \<Rightarrow> u16 \<Rightarrow> u8 \<Rightarrow> InterruptDescriptorTableEntry" where
  "gate p_base p_selector p_flags = \<lparr>base_low = ucast (p_base AND 0xFFFF), selector = p_selector,
     reserved_ist = 0, gate_flags = p_flags, base_mid = ucast (drop_bit 16 p_base AND 0xFFFF),
     base_high = ucast (drop_bit 32 p_base AND 0xFFFFFFFF), gate_reserved = 0\<rparr>"

definition SetInterruptDescriptorTableEntry :: "u8 \<Rightarrow> u64 \<Rightarrow> u16 \<Rightarrow> u8 \<Rightarrow> idt \<Rightarrow> idt" where
  "SetInterruptDescriptorTableEntry p_number p_base p_selector p_flags t =
     t[unat p_number := gate p_base p_selector p_flags]"

text \<open>A run of calls, one for each vector and stub of a list.\<close>

definition install :: "(stub \<Rightarrow> u64) \<Rightarrow> u8 \<Rightarrow> (nat \<times> stub) list \<Rightarrow> idt \<Rightarrow> idt" where
  "install addr fl rows t =
     fold (\<lambda>(n, s). SetInterruptDescriptorTableEntry (of_nat n) (addr s) KERNEL_CODESEG fl) rows t"

definition run_of :: "nat \<Rightarrow> (nat \<Rightarrow> stub) \<Rightarrow> nat \<Rightarrow> nat \<Rightarrow> (nat \<times> stub) list" where
  "run_of base s a b = map (\<lambda>i. (base + i, s i)) [a..<b]"

definition registerExceptions :: "(stub \<Rightarrow> u64) \<Rightarrow> idt \<Rightarrow> idt" where
  "registerExceptions addr = install addr IDT_P_KERNEL_INTERRUPT_GATE (run_of 0 isr 0 32)"

text \<open>Vector 36 gets no gate, and from vector 55 to 62 the stub is the one of the vector below.\<close>

definition registerIRQs :: "(stub \<Rightarrow> u64) \<Rightarrow> idt \<Rightarrow> idt" where
  "registerIRQs addr = install addr IDT_P_KERNEL_INTERRUPT_GATE
     (run_of 32 irq 0 4 @ run_of 32 irq 5 23 @ run_of 33 irq 22 30 @ run_of 32 irq 31 64)"

definition registerAPIRQs :: "(stub \<Rightarrow> u64) \<Rightarrow> idt \<Rightarrow> idt" where
  "registerAPIRQs addr = install addr IDT_P_KERNEL_INTERRUPT_GATE (run_of 96 apirq 0 32)"

text \<open>The software interrupts skip stub 4, vector 139 and stub 30, and repeat stub 22.\<close>

definition registerSWIRQs :: "(stub \<Rightarrow> u64) \<Rightarrow> idt \<Rightarrow> idt" where
  "registerSWIRQs addr = install addr IDT_P_USER_INTERRUPT_GATE
     (run_of 128 swirq 0 4 @ run_of 127 swirq 5 12 @ run_of 128 swirq 12 23 @ run_of 129 swirq 22 30 @
      run_of 128 swirq 31 127)"

section \<open>State and the handler registry\<close>

record InterruptContext =
  r15 :: u64
  r14 :: u64
  r13 :: u64
  r12 :: u64
  r11 :: u64
  r10 :: u64
  r9 :: u64
  r8 :: u64
  rdi :: u64
  rsi :: u64
  rbp :: u64
  rdx :: u64
  rcx :: u64
  rbx :: u64
  rax :: u64
  interrupt_number :: u64
  error_code :: u64
  return_address :: u64
  cs :: u64
  eflags :: u64
  ctx_rsp :: u64
  ss :: u64

text \<open>\<open>idt_at\<close> is the address of the table in the kernel structure; \<open>if_flag\<close> is the interrupt
  flag of the running core; \<open>ticks\<close> belongs to \<open>PIT\<close>.\<close>

record 'h int_state =
  the_idt :: idt
  idtp :: InterruptDescriptorTablePointer
  ports :: port_writes
  if_flag :: bool
  interruptHandlers :: "'h option list"
  p_interruptContext :: "InterruptContext option"
  ticks :: u64
  int_apic :: apic_state

type_synonym 'h handler_call = "'h \<Rightarrow> InterruptContext \<Rightarrow> 'h int_state \<Rightarrow> 'h int_state result option"

definition SetupInterruptDescriptorTable :: "(stub \<Rightarrow> u64) \<Rightarrow> u64 \<Rightarrow> 'h int_state \<Rightarrow> 'h int_state" where
  "SetupInterruptDescriptorTable addr idt_at st =
     (let st = st\<lparr>if_flag := False, ports := outportb PIC1_DATA 0xFF (outportb PIC2_DATA 0xFF (ports st))\<rparr>;
          t = registerSWIRQs addr (registerAPIRQs addr (registerIRQs addr (registerExceptions addr (the_idt st))));
          t = SetInterruptDescriptorTableEntry 255 (addr (isr 255)) KERNEL_CODESEG IDT_P_KERNEL_INTERRUPT_GATE t
      in st\<lparr>the_idt := t, idtp := (idtp st)\<lparr>idt_limit := of_nat (16 * IDT_SIZE - 1), idt_base := idt_at\<rparr>\<rparr>)"

datatype int_method = RegisterInterrupt_f | ServiceInterrupt_f

definition InitializeInterruptManager :: "(stub \<Rightarrow> u64) \<Rightarrow> u64 \<Rightarrow> 'h int_state \<Rightarrow> int_method Service \<Rightarrow>
    ('h int_state \<times> int_method Service) result" where
  "InitializeInterruptManager addr idt_at st p_service =
     and_then (call_add_services p_service [(RegisterInterrupt_f, 0), (ServiceInterrupt_f, 1)]) (\<lambda>srv.
       Inr (SetupInterruptDescriptorTable addr idt_at st, srv))"

definition RegisterInterrupt :: "u8 \<Rightarrow> 'h option \<Rightarrow> 'h int_state \<Rightarrow> bool \<times> 'h int_state" where
  "RegisterInterrupt p_interruptNumber p_interruptHandler st =
     (let st = st\<lparr>if_flag := False\<rparr>;
          st = st\<lparr>interruptHandlers := (interruptHandlers st)[unat p_interruptNumber := p_interruptHandler]\<rparr>
      in (True, st\<lparr>if_flag := True\<rparr>))"

definition ServiceInterrupt :: "'h handler_call \<Rightarrow> InterruptContext \<Rightarrow> 'h int_state \<Rightarrow> (bool \<times> 'h int_state) result option" where
  "ServiceInterrupt call ctx st =
     (case interruptHandlers st ! unat (ucast (interrupt_number ctx) :: u8) of
        None \<Rightarrow> Some (Inr (False, st))
      | Some h \<Rightarrow> map_option (\<lambda>r. and_then r (\<lambda>st. Inr (True, st))) (call h ctx st))"

definition map_apic :: "(apic_state \<Rightarrow> apic_state) \<Rightarrow> 'h int_state \<Rightarrow> 'h int_state" where
  "map_apic f st = st\<lparr>int_apic := f (int_apic st)\<rparr>"

text \<open>A page fault stops the core in an endless loop, the result \<open>None\<close>. The number of the
  interrupt indexes an array of 256 flags.\<close>

definition IdtHandler :: "device \<Rightarrow> 'h handler_call \<Rightarrow> InterruptContext \<Rightarrow> 'h int_state \<Rightarrow> 'h int_state result option" where
  "IdtHandler dev call ctx st =
     (let st = map_apic (getCurrentCoreId dev) (st\<lparr>if_flag := False\<rparr>);
          c = unat (ucast (core_id_ret (int_apic st)) :: u8);
          n = unat (interrupt_number ctx)
      in if n = 14 then None
         else if c \<ge> length (apics (int_apic st)) \<or> n \<ge> 256 then Some (Inl Out_of_bounds)
         else let st = map_apic (fire c n 1) st;
                  st = st\<lparr>p_interruptContext := Some ctx\<rparr>
              in map_option (\<lambda>r. and_then r (\<lambda>(_, st).
                   Inr ((map_apic (on_bus (sendAPICEOI (apics (int_apic st) ! c))) st)\<lparr>if_flag := True\<rparr>)))
                   (ServiceInterrupt call ctx st))"

section \<open>The timer\<close>

definition IRQ0 :: u64 where "IRQ0 = 32"

text \<open>\<open>env\<close> is what handlers and other cores do during each halt, as for
  \<^const>\<open>wait_until\<close>.\<close>

definition pit_sleep :: "device \<Rightarrow> (nat \<Rightarrow> apic_state \<Rightarrow> apic_state) \<Rightarrow> u16 \<Rightarrow> u16 \<Rightarrow> u8 \<Rightarrow> bool \<Rightarrow> apic_state \<Rightarrow>
    apic_state option" where
  "pit_sleep dev env p_sleep p_apic_id p_interrupt p_do_sleep st =
     (let st = getCurrentCoreId dev st;
          c = unat (ucast (core_id_ret st) :: u16);
          st = set_apic c ((apics st ! c)\<lparr>wakeup_counter := pit_counter (apics st ! unat p_apic_id) + ucast p_sleep,
                 wakeup_apic_id := p_apic_id, wakeup_interrupt := ucast p_interrupt\<rparr>) st
      in if \<not> p_do_sleep then Some st
         else map_option (\<lambda>(k, st). let st = fire c (unat p_interrupt) 0 st
                in set_apic c ((apics st ! c)\<lparr>wakeup_counter := 0, wakeup_apic_id := 0\<rparr>) st)
           (while_option (\<lambda>(k, st). fired_interrupts (apics st ! c) ! unat p_interrupt = 0)
             (\<lambda>(k, st). let st = env k st in (k + 1, on_bus (sendAPICEOI (apics st ! c)) st))
             (0, fire c (unat p_interrupt) 0 st)))"

text \<open>\<open>due\<close> is the condition under which \<open>pit_fire\<close> interrupts core \<open>i\<close>.\<close>

definition due :: "nat \<Rightarrow> apic_state \<Rightarrow> nat \<Rightarrow> bool" where
  "due c st i \<longleftrightarrow> i \<noteq> c \<and> unat (wakeup_apic_id (apics st ! i)) = c \<and>
     wakeup_counter (apics st ! i) < pit_counter (apics st ! c)"

fun wake_cores :: "device \<Rightarrow> nat \<Rightarrow> nat list \<Rightarrow> apic_state \<Rightarrow> apic_state result option" where
  "wake_cores dev c [] st = Some (Inr st)"
| "wake_cores dev c (i # is) st =
     (if due c st i
      then case sendIPI dev (of_nat i) (ucast (wakeup_interrupt (apics st ! i))) st of
             Some (Inr st) \<Rightarrow> wake_cores dev c is st
           | r \<Rightarrow> r
      else wake_cores dev c is st)"

definition pit_fire :: "device \<Rightarrow> InterruptContext \<Rightarrow> 'h int_state \<Rightarrow> 'h int_state result option" where
  "pit_fire dev ctx st =
     (let st = map_apic (getCurrentCoreId dev) st;
          c = unat (ucast (core_id_ret (int_apic st)) :: u8);
          ack = (\<lambda>st. map_apic (on_bus (sendAPICEOI (apics (int_apic st) ! c))) st)
      in if c \<ge> length (apics (int_apic st)) then Some (Inl Out_of_bounds)
         else if interrupt_number ctx = IRQ0
         then let a = apics (int_apic st) ! c;
                  a = a\<lparr>pit_counter := pit_counter a + 1\<rparr>;
                  st = map_apic (set_apic c a) st;
                  st = (if pit_counter a mod 100 = 0 then st\<lparr>ticks := ticks st + 1\<rparr> else st)
              in map_option (\<lambda>r. and_then r (\<lambda>ap. Inr (ack (st\<lparr>int_apic := ap\<rparr>))))
                   (wake_cores dev c [0..<unat (apics_count (int_apic st))] (int_apic st))
         else Some (Inr (ack st)))"

end
