(* ===== verification/InterruptProofs.thy ===== *)
theory InterruptProofs
  imports Interrupts
begin

text \<open>
  What the descriptor table holds after the boot, which handler an interrupt reaches, what the
  masks of the legacy controllers do and which cores a timer tick interrupts.
\<close>

section \<open>Gates\<close>

definition gate_target :: "InterruptDescriptorTableEntry \<Rightarrow> u64" where
  "gate_target e = ucast (base_low e) OR push_bit 16 (ucast (base_mid e)) OR push_bit 32 (ucast (base_high e))"

lemma gate_target_gate [simp]: "gate_target (gate b sel fl) = b"
proof (rule bit_word_eqI)
  fix n assume n: "n < LENGTH(64)"
  have m: "(0xFFFF :: u64) = mask 16" "(0xFFFFFFFF :: u64) = mask 32" by (simp_all add: mask_eq_exp_minus_1)
  consider "n < 16" | "16 \<le> n" "n < 32" | "32 \<le> n" by linarith
  then show "bit (gate_target (gate b sel fl)) n = bit b n"
    by cases (use n in \<open>auto simp: gate_target_def gate_def m bit_simps\<close>)
qed

lemma install_length [simp]: "length (install addr fl rows t) = length t"
  by (induction rows arbitrary: t) (auto simp: install_def SetInterruptDescriptorTableEntry_def)

lemma install_nth:
  assumes "length t = 256" "list_all (\<lambda>r. fst r < 256) rows" "v < 256"
  shows "install addr fl rows t ! v =
    (case map_of (rev rows) v of None \<Rightarrow> t ! v | Some s \<Rightarrow> gate (addr s) KERNEL_CODESEG fl)"
  using assms
proof (induction rows arbitrary: t)
  case Nil
  then show ?case by (simp add: install_def)
next
  case (Cons r rows)
  obtain n s where r: "r = (n, s)" by (cases r)
  let ?t = "t[n := gate (addr s) KERNEL_CODESEG fl]"
  have "unat (of_nat n :: u8) = n" using Cons.prems r by (intro unat_of_nat_small) simp
  then have "install addr fl (r # rows) t = install addr fl rows ?t"
    by (simp add: r install_def SetInterruptDescriptorTableEntry_def)
  with Cons.IH [of ?t] Cons.prems r show ?case
    by (auto simp: map_of_append map_add_def split: option.splits)
qed

lemma map_of_run: "map_of (rev (run_of k s a b)) v = (if k + a \<le> v \<and> v < k + b then Some (s (v - k)) else None)"
  by (induction b) (auto simp: run_of_def)

lemma run_of_below: "k + b \<le> 256 \<Longrightarrow> list_all (\<lambda>r. fst r < 256) (run_of k s a b)"
  by (auto simp: run_of_def list_all_iff)

lemmas register_defs = registerExceptions_def registerIRQs_def registerAPIRQs_def registerSWIRQs_def

lemma register_length [simp]:
  "length (registerExceptions addr t) = length t" "length (registerIRQs addr t) = length t"
  "length (registerAPIRQs addr t) = length t" "length (registerSWIRQs addr t) = length t"
  by (simp_all add: register_defs)

lemma registered_gate:
  assumes "length t = 256" "v < 256"
  shows "registerExceptions addr t ! v =
      (if v < 32 then gate (addr (isr v)) KERNEL_CODESEG IDT_P_KERNEL_INTERRUPT_GATE else t ! v)"
    and "registerIRQs addr t ! v =
      (if 32 \<le> v \<and> v < 96 \<and> v \<noteq> 36
       then gate (addr (irq (if 55 \<le> v \<and> v < 63 then v - 33 else v - 32))) KERNEL_CODESEG IDT_P_KERNEL_INTERRUPT_GATE
       else t ! v)"
    and "registerAPIRQs addr t ! v =
      (if 96 \<le> v \<and> v < 128 then gate (addr (apirq (v - 96))) KERNEL_CODESEG IDT_P_KERNEL_INTERRUPT_GATE else t ! v)"
    and "registerSWIRQs addr t ! v =
      (if 128 \<le> v \<and> v < 255 \<and> v \<noteq> 139
       then gate (addr (swirq (if 132 \<le> v \<and> v < 139 then v - 127 else if 151 \<le> v \<and> v < 159 then v - 129 else v - 128)))
              KERNEL_CODESEG IDT_P_USER_INTERRUPT_GATE
       else t ! v)"
  using assms
  by (simp_all add: register_defs install_nth run_of_below map_of_append map_add_def map_of_run)

text \<open>The stub a vector is meant to run, and the one the table holds.\<close>

definition own_stub :: "nat \<Rightarrow> stub" where
  "own_stub v = (if v < 32 then isr v else if v < 96 then irq (v - 32) else if v < 128 then apirq (v - 96)
     else if v < 255 then swirq (v - 128) else isr 255)"

definition shifted :: "nat set" where
  "shifted = {55..62} \<union> {132..138} \<union> {151..158}"

text \<open>C20: after \<open>SetupInterruptDescriptorTable\<close> every vector but 36 and 139 has a present gate
  into the kernel code segment whose three address fields recombine to the address of a stub, the
  software interrupts being open to user mode. The stub is the vector's own one except on
  three ranges, where it is a neighbour's; the entries 36 and 139 are left as they were.\<close>

theorem idt_gates_installed:
  assumes "length (the_idt st) = 256" "v < 256"
  shows "let e = the_idt (SetupInterruptDescriptorTable addr idt_at st) ! v
    in if v = 36 \<or> v = 139 then e = the_idt st ! v
       else gate_target e = addr (if v \<notin> shifted then own_stub v
              else if v < 63 then irq (v - 33) else if v < 139 then swirq (v - 127) else swirq (v - 129)) \<and>
         selector e = 0x8 \<and> gate_flags e = (if 128 \<le> v \<and> v < 255 then 0xEE else 0x8E)"
proof -
  let ?t = "registerSWIRQs addr (registerAPIRQs addr (registerIRQs addr (registerExceptions addr (the_idt st))))"
  have e: "the_idt (SetupInterruptDescriptorTable addr idt_at st) ! v =
      (if v = 255 then gate (addr (isr 255)) KERNEL_CODESEG IDT_P_KERNEL_INTERRUPT_GATE else ?t ! v)"
    using assms by (simp add: SetupInterruptDescriptorTable_def SetInterruptDescriptorTableEntry_def Let_def)
  have f: "selector (gate b s fl) = s" "gate_flags (gate b s fl) = fl" for b s fl by (simp_all add: gate_def)
  show ?thesis
    unfolding Let_def e using assms
    by (simp add: registered_gate f own_stub_def shifted_def KERNEL_CODESEG_def IDT_P_KERNEL_INTERRUPT_GATE_def
        IDT_P_USER_INTERRUPT_GATE_def)
qed

section \<open>From an interrupt to its handler\<close>

text \<open>The registry has a slot for every vector.\<close>

definition int_ok :: "'h int_state \<Rightarrow> bool" where
  "int_ok st \<longleftrightarrow> length (interruptHandlers st) = 256 \<and>
     (\<forall>a\<in>set (apics (int_apic st)). length (fired_interrupts a) = 256)"

text \<open>The core that runs, as the interrupt entry computes it.\<close>

definition running_core :: "device \<Rightarrow> 'h int_state \<Rightarrow> nat" where
  "running_core dev st = unat (ucast (core_id_ret (getCurrentCoreId dev (int_apic st))) :: u8)"

text \<open>The state a handler sees: interrupts are disabled, the context is published and the flag of
  the interrupt is set for the running core.\<close>

definition entered :: "device \<Rightarrow> InterruptContext \<Rightarrow> 'h int_state \<Rightarrow> 'h int_state" where
  "entered dev ctx st = st\<lparr>if_flag := False,
     int_apic := fire (running_core dev st) (unat (interrupt_number ctx)) 1 (getCurrentCoreId dev (int_apic st)),
     p_interruptContext := Some ctx\<rparr>"

definition acknowledged :: "nat \<Rightarrow> 'h int_state \<Rightarrow> 'h int_state" where
  "acknowledged c st = st\<lparr>int_apic := on_bus (writeLocalAPIC (lapic_eoi (apics (int_apic st) ! c)) 0) (int_apic st),
     if_flag := True\<rparr>"

lemma service_simps:
  "interruptHandlers st ! unat (ucast (interrupt_number ctx) :: u8) = None \<Longrightarrow>
     ServiceInterrupt call ctx st = Some (Inr (False, st))"
  "interruptHandlers st ! unat (ucast (interrupt_number ctx) :: u8) = Some h \<Longrightarrow>
     ServiceInterrupt call ctx st = map_option (\<lambda>r. and_then r (\<lambda>st. Inr (True, st))) (call h ctx st)"
  by (simp_all add: ServiceInterrupt_def)

lemma eoi_write: "sendAPICEOI a = writeLocalAPIC (lapic_eoi a) 0"
  by (rule ext) (simp add: sendAPICEOI_def)

lemma unat_14: "unat (14 :: u64) = 14"
  by simp

lemma vector_number:
  fixes n :: u8
  shows "unat n < 256" "unat (ucast n :: u64) = unat n" "(ucast (ucast n :: u64) :: u8) = n"
    "n \<noteq> 14 \<Longrightarrow> (ucast n :: u64) \<noteq> 14"
proof -
  have "unat n < 2 ^ LENGTH(8)" by (rule unsigned_less)
  then show u: "unat n < 256" by simp
  then show v: "unat (ucast n :: u64) = unat n" by (simp add: unsigned_ucast_eq take_bit_nat_eq_self)
  show w: "(ucast (ucast n :: u64) :: u8) = n" by (rule bit_word_eqI) (simp add: bit_simps)
  show "n \<noteq> 14 \<Longrightarrow> (ucast n :: u64) \<noteq> 14"
  proof
    assume "n \<noteq> 14" "(ucast n :: u64) = 14"
    then have "unat n = unat (14 :: u64)" using v by simp
    then have "n = 14" by (intro word_unat_eq_iff [THEN iffD2]) simp
    with \<open>n \<noteq> 14\<close> show False by simp
  qed
qed

lemma IdtHandler_entered:
  assumes "running_core dev st < length (apics (int_apic st))" "unat (interrupt_number ctx) < 256"
    "interrupt_number ctx \<noteq> 14"
  shows "IdtHandler dev call ctx st =
    map_option (\<lambda>r. and_then r (\<lambda>(_, st'). Inr (acknowledged (running_core dev st) st')))
      (ServiceInterrupt call ctx (entered dev ctx st))"
proof -
  have "unat (interrupt_number ctx) \<noteq> 14" using assms(3) by (metis unsigned_word_eqI unat_14)
  then show ?thesis
    using assms(1,2)
    by (simp add: IdtHandler_def map_apic_def running_core_def Let_def core_id_frame entered_def acknowledged_def
        eoi_write case_prod_unfold)
qed

lemma page_fault_stops: "interrupt_number ctx = 14 \<Longrightarrow> IdtHandler dev call ctx st = None"
  by (simp add: IdtHandler_def Let_def)

text \<open>C19: an interrupt other than the page fault (vector 14) reaches the handler registered last
  for its vector. The handler runs with interrupts disabled, once, in a state where the context is
  published and the flag of the interrupt is set for the running core; then the interrupt is
  acknowledged and interrupts are enabled. Registering leaves the other vectors alone, and an
  interrupt without handler is acknowledged all the same. A page fault never returns, whether
  a handler is registered for it or not.\<close>

theorem interrupt_reaches_handler:
  assumes "int_ok st" "st' = snd (RegisterInterrupt n (Some h) st)"
    and "interrupt_number ctx = ucast n" "running_core dev st < length (apics (int_apic st))"
  shows "IdtHandler dev call ctx st' =
      (if n = 14 then None
       else map_option (\<lambda>r. and_then r (\<lambda>st. Inr (acknowledged (running_core dev st') st))) (call h ctx (entered dev ctx st'))) \<and>
    (\<forall>m. m \<noteq> n \<longrightarrow> interruptHandlers st' ! unat m = interruptHandlers st ! unat m) \<and>
    (interruptHandlers st ! unat n = None \<longrightarrow>
      IdtHandler dev call ctx st =
        (if n = 14 then None else Some (Inr (acknowledged (running_core dev st) (entered dev ctx st)))))"
proof (intro conjI allI impI)
  note n = vector_number [of n]
  have st': "st' = st\<lparr>if_flag := True, interruptHandlers := (interruptHandlers st)[unat n := Some h]\<rparr>"
    by (simp add: assms(2) RegisterInterrupt_def Let_def)
  have len: "length (interruptHandlers st) = 256" using assms(1) by (simp add: int_ok_def)
  have "running_core dev st' = running_core dev st" by (simp add: st' running_core_def)
  then show "IdtHandler dev call ctx st' =
      (if n = 14 then None
       else map_option (\<lambda>r. and_then r (\<lambda>st. Inr (acknowledged (running_core dev st') st))) (call h ctx (entered dev ctx st')))"
    using assms(3,4) n len
    by (cases "n = 14") (simp_all add: page_fault_stops IdtHandler_entered service_simps st' entered_def
      option.map_comp comp_def and_then_assoc)
  show "interruptHandlers st' ! unat m = interruptHandlers st ! unat m" if "m \<noteq> n" for m
    using that by (simp add: st' word_unat_eq_iff)
  show "IdtHandler dev call ctx st =
      (if n = 14 then None else Some (Inr (acknowledged (running_core dev st) (entered dev ctx st))))"
    if "interruptHandlers st ! unat n = None"
    using that assms(3,4) n
    by (cases "n = 14") (simp_all add: page_fault_stops IdtHandler_entered service_simps entered_def)
qed

section \<open>Masks of the legacy controllers\<close>

text \<open>Documented behaviour of the 8259 controller: its data port reads back the mask that was
  written last.\<close>

definition latched :: "port_device \<Rightarrow> bool" where
  "latched port \<longleftrightarrow> (\<forall>io p q v. p \<in> {PIC1_DATA, PIC2_DATA} \<longrightarrow>
     port (io @ [(q, v)]) p = (if q = p then v else port io p))"

definition masked :: "port_device \<Rightarrow> port_writes \<Rightarrow> u8 \<Rightarrow> bool" where
  "masked port io l = (let (p, b) = irq_port l in bit (port io p) b)"

lemma irq_port_range: "l \<le> 15 \<Longrightarrow> fst (irq_port l) \<in> {PIC1_DATA, PIC2_DATA} \<and> snd (irq_port l) < 8"
  by (auto simp: irq_port_def word_le_nat_alt word_less_nat_alt unat_sub_if_size word_size)

lemma irq_port_inj: "l \<le> 15 \<Longrightarrow> k \<le> 15 \<Longrightarrow> irq_port l = irq_port k \<longleftrightarrow> l = k"
  by (auto simp: irq_port_def PIC1_DATA_def PIC2_DATA_def simp flip: word_unat_eq_iff split: if_splits)

text \<open>\<open>IrqSetMask\<close> masks its line and \<open>IrqClearMask\<close> unmasks it, on either
  controller, and neither touches another line; a line number above 15 is ignored.\<close>

theorem irq_masks_one_line:
  assumes "latched port" "k \<le> 15"
  shows "masked port (IrqSetMask port l io) k = (k = l \<or> masked port io k) \<and>
    masked port (IrqClearMask port l io) k = (k \<noteq> l \<and> masked port io k)"
proof (cases "l \<le> 15")
  case False
  then have "k \<noteq> l" "l > 15" using assms(2) by auto
  then show ?thesis by (simp add: IrqSetMask_def IrqClearMask_def)
next
  case True
  obtain p b q c where ports: "irq_port l = (p, b)" "irq_port k = (q, c)" by fastforce
  with irq_port_range [OF True] irq_port_range [OF assms(2)] irq_port_inj [OF True assms(2)]
  have *: "q \<in> {PIC1_DATA, PIC2_DATA}" "b < 8" "c < 8" "(p = q \<and> b = c) = (l = k)" by auto
  then have r: "port (io @ [(p, v)]) q = (if p = q then v else port io q)" for v
    using assms(1) unfolding latched_def by blast
  from * have "bit (push_bit b (1 :: u8)) c = (b = c)" by (auto simp: bit_simps)
  with * True show ?thesis
    by (auto simp: IrqSetMask_def IrqClearMask_def masked_def outportb_def ports r bit_or_iff bit_and_iff bit_not_iff)
qed

section \<open>Timer ticks\<close>

definition ipi_writes :: "APIC \<Rightarrow> u8 \<Rightarrow> (u64 \<times> u32) list" where
  "ipi_writes a v = [(lapic_icr1 a, push_bit 24 (ucast (apic_id a))), (lapic_icr0 a, 0x4000 OR ucast v)]"

text \<open>The controllers report delivery of an interrupt at some later read of the command register.\<close>

definition delivers :: "device \<Rightarrow> APIC list \<Rightarrow> bool" where
  "delivers dev as \<longleftrightarrow> (\<forall>a\<in>set as. \<forall>ws n. \<exists>k. dev ws (n + k) (lapic_icr0 a) AND 0x1000 = 0)"

lemma wake_cores_spec:
  assumes "delivers dev (apics st)" "\<forall>i\<in>set is. i < length (apics st) \<and> i < 2 ^ 16"
  shows "\<exists>b. wake_cores dev c is st = Some (Inr (st\<lparr>ap_bus := b\<rparr>)) \<and>
    bus_writes b = bus_writes (ap_bus st) @ concat (map (\<lambda>i. ipi_writes (apics st ! i) (ucast (wakeup_interrupt (apics st ! i))))
      (filter (due c st) is))"
  using assms
proof (induction "is" arbitrary: st)
  case Nil
  then show ?case by (intro exI [of _ "ap_bus st"]) simp
next
  case (Cons i "is")
  show ?case
  proof (cases "due c st i")
    case False
    then show ?thesis using Cons.IH [OF Cons.prems(1)] Cons.prems(2) by simp
  next
    case True
    let ?a = "apics st ! i"
    let ?v = "ucast (wakeup_interrupt ?a) :: u8"
    let ?ws = "bus_writes (ap_bus st) @ ipi_writes ?a ?v"
    have i: "unat (of_nat i :: u16) = i" "i < length (apics st)"
      using Cons.prems(2) by (auto intro!: unat_of_nat_small)
    obtain k where "dev ?ws (bus_reads (ap_bus st) + k) (lapic_icr0 ?a) AND 0x1000 = 0"
      using Cons.prems(1) i(2) unfolding delivers_def by (meson nth_mem)
    then obtain b where b: "SendFixedIPI dev ?a ?v (ap_bus st) = Some b" "bus_writes b = ?ws"
      using ipi_returns [of ?ws "ap_bus st" ?a ?v dev k] by (auto simp: ipi_writes_def)
    let ?st = "st\<lparr>ap_bus := b\<rparr>"
    have due: "due c ?st = due c st" by (simp add: due_def fun_eq_iff)
    obtain b' where "wake_cores dev c is ?st = Some (Inr (?st\<lparr>ap_bus := b'\<rparr>))"
      "bus_writes b' = bus_writes b @ concat (map (\<lambda>i. ipi_writes (apics st ! i) (ucast (wakeup_interrupt (apics st ! i))))
        (filter (due c st) is))"
      using Cons.IH [of ?st] Cons.prems by (auto simp: due)
    then show ?thesis
      using True i b by (intro exI [of _ b']) (simp add: sendIPI_def)
  qed
qed

text \<open>C21: a timer tick advances the counter of the core it happens on and, when the controllers
  deliver, returns after interrupting exactly the other cores that wait for this core's
  timer and whose wake-up count lies below the new counter, each with the vector it asked for, in
  the order of their numbers; then it acknowledges the interrupt. A core that does not sleep
  has the wake-up count and core 0, so every tick of core 0 interrupts it too.\<close>

theorem timer_tick_wakes:
  assumes "interrupt_number ctx = 32" "c = running_core dev st" "ap = getCurrentCoreId dev (int_apic st)"
    and "c < length (apics ap)" "unat (apics_count ap) \<le> length (apics ap)" "delivers dev (apics ap)"
  shows "\<exists>st'. pit_fire dev ctx st = Some (Inr st') \<and>
    pit_counter (apics (int_apic st') ! c) = pit_counter (apics ap ! c) + 1 \<and>
    (\<forall>i. i \<noteq> c \<longrightarrow> apics (int_apic st') ! i = apics ap ! i) \<and>
    bus_writes (ap_bus (int_apic st')) = bus_writes (ap_bus ap) @
      concat (map (\<lambda>i. ipi_writes (apics ap ! i) (ucast (wakeup_interrupt (apics ap ! i))))
        (filter (\<lambda>i. i \<noteq> c \<and> unat (wakeup_apic_id (apics ap ! i)) = c \<and>
           wakeup_counter (apics ap ! i) < pit_counter (apics ap ! c) + 1) [0..<unat (apics_count ap)])) @
      [(lapic_eoi (apics ap ! c), 0)]"
proof -
  let ?a = "(apics ap ! c)\<lparr>pit_counter := pit_counter (apics ap ! c) + 1\<rparr>"
  let ?ap = "set_apic c ?a ap"
  have "unat (apics_count ap) < 2 ^ LENGTH(8)" by (rule unsigned_less)
  then have small: "unat (apics_count ap) < 256" by simp
  have nth: "apics ?ap ! i = (if i = c then ?a else apics ap ! i)" for i
    using assms(4) by (simp add: set_apic_def)
  have "delivers dev (apics ?ap)"
    using assms(4,6) unfolding delivers_def set_apic_def by (fastforce dest!: subsetD [OF set_update_subset_insert])
  moreover have "\<forall>i\<in>set [0..<unat (apics_count ap)]. i < length (apics ?ap) \<and> i < 2 ^ 16"
    using assms(5) small by (simp add: set_apic_def)
  ultimately obtain b where b: "wake_cores dev c [0..<unat (apics_count ap)] ?ap = Some (Inr (?ap\<lparr>ap_bus := b\<rparr>))"
    "bus_writes b = bus_writes (ap_bus ?ap) @ concat (map (\<lambda>i. ipi_writes (apics ?ap ! i) (ucast (wakeup_interrupt (apics ?ap ! i))))
      (filter (due c ?ap) [0..<unat (apics_count ap)]))"
    using wake_cores_spec by blast
  have f: "filter (due c ?ap) is = filter (\<lambda>i. i \<noteq> c \<and> unat (wakeup_apic_id (apics ap ! i)) = c \<and>
      wakeup_counter (apics ap ! i) < pit_counter (apics ap ! c) + 1) is" for "is"
    by (rule filter_cong) (auto simp: due_def nth)
  have w: "bus_writes b = bus_writes (ap_bus ap) @ concat (map (\<lambda>i. ipi_writes (apics ap ! i)
        (ucast (wakeup_interrupt (apics ap ! i)))) (filter (due c ?ap) [0..<unat (apics_count ap)]))"
    unfolding b(2) by (auto simp: set_apic_def due_def nth_list_update intro!: arg_cong [where f = concat] map_cong)
  have run: "\<exists>st'. pit_fire dev ctx st = Some (Inr st') \<and> int_apic st' = on_bus (sendAPICEOI ?a) (?ap\<lparr>ap_bus := b\<rparr>)"
    using assms(1-4) b(1) nth [of c]
    by (auto simp: pit_fire_def map_apic_def running_core_def Let_def IRQ0_def set_apic_def)
  then show ?thesis
    using assms(4) by (auto simp: w [unfolded f] on_bus_def eoi_write writeLocalAPIC_def set_apic_def nth_list_update)
qed

section \<open>Instances\<close>

text \<open>Two cores, no gate, no handler; the registers read zero, so core 0 is running.\<close>

definition no_gate :: InterruptDescriptorTableEntry where
  "no_gate = \<lparr>base_low = 0, selector = 0, reserved_ist = 0, gate_flags = 0, base_mid = 0, base_high = 0, gate_reserved = 0\<rparr>"

definition demo_int :: "nat int_state" where
  "demo_int = \<lparr>the_idt = replicate 256 no_gate, idtp = \<lparr>idt_limit = 0, idt_base = 0, idt_x = 0, idt_y = 0\<rparr>, ports = [],
     if_flag = True, interruptHandlers = replicate 256 None, p_interruptContext = None, ticks = 0,
     int_apic = demo_apic_state\<rparr>"

definition demo_ctx :: "u64 \<Rightarrow> InterruptContext" where
  "demo_ctx n = \<lparr>r15 = 0, r14 = 0, r13 = 0, r12 = 0, r11 = 0, r10 = 0, r9 = 0, r8 = 0, rdi = 0, rsi = 0, rbp = 0, rdx = 0,
     rcx = 0, rbx = 0, rax = 0, interrupt_number = n, error_code = 0, return_address = 0, cs = 0x8, eflags = 0,
     ctx_rsp = 0, ss = 0x10\<rparr>"

abbreviation quiet :: device where
  "quiet \<equiv> \<lambda>_ _ _. 0"

lemma demo_int_ok: "int_ok demo_int"
  by (simp add: int_ok_def demo_int_def demo_apic_state_def demo_apic_def)

lemma demo_apics: "apics (int_apic demo_int) = [demo_apic, demo_apic]" "apics_count (int_apic demo_int) = 2"
  by (simp_all add: demo_int_def demo_apic_state_def)

lemma demo_running: "running_core quiet demo_int = 0"
  by (simp add: running_core_def core_id_zero)

theorem idt_gates_installed_witness:
  "gate_target (the_idt (SetupInterruptDescriptorTable (\<lambda>s. if s = irq 1 then 0xFFFF800012345678 else 0) 0x1000 demo_int) ! 33)
     = 0xFFFF800012345678"
  using idt_gates_installed [where st = demo_int and v = 33 and idt_at = "0x1000"
      and addr = "\<lambda>s. if s = irq 1 then 0xFFFF800012345678 else 0"]
  by (simp add: demo_int_def own_stub_def shifted_def Let_def)

theorem interrupt_reaches_handler_witness:
  "IdtHandler quiet (\<lambda>h ctx st. Some (Inr (st\<lparr>ticks := of_nat h\<rparr>))) (demo_ctx 33) (snd (RegisterInterrupt 33 (Some 7) demo_int)) =
     Some (Inr (acknowledged 0 ((entered quiet (demo_ctx 33) (snd (RegisterInterrupt 33 (Some 7) demo_int)))\<lparr>ticks := 7\<rparr>)))"
proof -
  have "running_core quiet (snd (RegisterInterrupt 33 (Some 7) demo_int)) = 0"
    using demo_running by (simp add: RegisterInterrupt_def running_core_def Let_def)
  then show ?thesis
    using interrupt_reaches_handler [OF demo_int_ok refl, where ctx = "demo_ctx 33" and n = 33 and dev = quiet
        and call = "\<lambda>h ctx st. Some (Inr (st\<lparr>ticks := of_nat h\<rparr>))" and h = 7]
    by (simp add: demo_running demo_apics demo_ctx_def)
qed

definition pic_latch :: port_device where
  "pic_latch io p = (case map_of (rev io) p of None \<Rightarrow> 0xFF | Some v \<Rightarrow> v)"

theorem irq_masks_one_line_witness:
  "masked pic_latch (IrqClearMask pic_latch 12 []) 12 = False \<and> masked pic_latch (IrqClearMask pic_latch 12 []) 4 = True"
proof -
  have l: "latched pic_latch" by (simp add: latched_def pic_latch_def)
  have "masked pic_latch [] 4" by (simp add: masked_def irq_port_def pic_latch_def PIC1_DATA_def Let_def bit_byte_masks)
  then show ?thesis
    using irq_masks_one_line [OF l, where l = 12 and k = 12 and io = "[]"]
      irq_masks_one_line [OF l, where l = 12 and k = 4 and io = "[]"] by simp
qed

theorem timer_tick_wakes_witness:
  "\<exists>st'. pit_fire quiet (demo_ctx 32) demo_int = Some (Inr st') \<and>
    bus_writes (ap_bus (int_apic st')) = ipi_writes demo_apic 0 @ [(lapic_eoi demo_apic, 0)]"
proof -
  let ?ap = "getCurrentCoreId quiet (int_apic demo_int)"
  have a: "apics ?ap = [demo_apic, demo_apic]" "unat (apics_count ?ap) = 2" "bus_writes (ap_bus ?ap) = []"
    by (simp_all add: core_id_frame demo_apics) (simp add: getCurrentCoreId_def virtual_of_def getAPICId_def
      readLocalAPIC_def demo_int_def demo_apic_state_def Let_def)
  have d: "delivers quiet (apics ?ap)" by (simp add: delivers_def)
  have "[0..<2] = [0, Suc 0]" by (simp add: upt_rec)
  then show ?thesis
    using timer_tick_wakes [where dev = quiet and st = demo_int and ctx = "demo_ctx 32" and c = 0 and ap = ?ap] d
    by (auto simp: a demo_running demo_ctx_def demo_apic_def)
qed

end
