(* ===== verification/Segments.thy ===== *)
theory Segments
  imports Apic
begin

text \<open>
  Segment descriptors: \<open>memory/GlobalDescriptorTable.c\<close>, \<open>GlobalDescriptorTableEntry.c\<close> and
  \<open>TSSDescriptor.c\<close>. A descriptor is the 64-bit word its packed bit fields make up, so that the
  descriptor of the task state, which lies over the last two entries of the table, shares its
  bits with them. The addresses of the tables and task states in the kernel are arguments.
\<close>

section \<open>Bit fields\<close>

definition put_field :: "nat \<Rightarrow> nat \<Rightarrow> u64 \<Rightarrow> u64 \<Rightarrow> u64" where
  "put_field n k v w = (w AND NOT (push_bit n (mask k))) OR push_bit n (v AND mask k)"

definition get_field :: "nat \<Rightarrow> nat \<Rightarrow> u64 \<Rightarrow> u64" where
  "get_field n k w = drop_bit n w AND mask k"

lemma get_put_same: "n + k \<le> 64 \<Longrightarrow> get_field n k (put_field n k v w) = v AND mask k"
  by (rule bit_word_eqI) (auto simp: get_field_def put_field_def bit_simps)

lemma get_put_other: "n + k \<le> 64 \<Longrightarrow> n + k \<le> m \<or> m + j \<le> n \<Longrightarrow> get_field n k (put_field m j v w) = get_field n k w"
  by (rule bit_word_eqI) (auto simp: get_field_def put_field_def bit_simps)

section \<open>Descriptors\<close>

definition PL_KERNEL :: u8 where "PL_KERNEL = 0"
definition PL_USER :: u8 where "PL_USER = 3"
definition AR_PRESENT :: u8 where "AR_PRESENT = push_bit 7 1"
definition AR_DATA :: u8 where "AR_DATA = push_bit 3 2"
definition AR_CODE :: u8 where "AR_CODE = push_bit 3 3"
definition AR_WRITABLE :: u8 where "AR_WRITABLE = push_bit 1 1"
definition AR_READABLE :: u8 where "AR_READABLE = push_bit 1 1"
definition AR_TSS :: u8 where "AR_TSS = 0x09"
definition DPL_KERNEL :: u8 where "DPL_KERNEL = push_bit 5 PL_KERNEL"
definition DPL_USER :: u8 where "DPL_USER = push_bit 5 PL_USER"
definition GDT_SIZE :: nat where "GDT_SIZE = 7"
definition TSS_BASIC_SIZE :: u32 where "TSS_BASIC_SIZE = 104"

lemmas segment_consts = PL_KERNEL_def PL_USER_def AR_PRESENT_def AR_DATA_def AR_CODE_def AR_WRITABLE_def AR_READABLE_def
  AR_TSS_def DPL_KERNEL_def DPL_USER_def GDT_SIZE_def TSS_BASIC_SIZE_def

definition setGlobalDescriptorTableEntry :: "u16 \<Rightarrow> u16 \<Rightarrow> u8 \<Rightarrow> u8 \<Rightarrow> u8 \<Rightarrow> u8 \<Rightarrow> u8 \<Rightarrow> u8 \<Rightarrow> u8 \<Rightarrow> u8 \<Rightarrow> u64 \<Rightarrow> u64" where
  "setGlobalDescriptorTableEntry p_limit_0_15 p_base_0_15 p_base_16_23 p_access p_limit_16_19 p_available p_longmode
     p_special p_granularity p_base_24_31 e =
     (let e = put_field 0 16 (ucast p_limit_0_15) e;
          e = put_field 16 16 (ucast p_base_0_15) e;
          e = put_field 32 8 (ucast p_base_16_23) e;
          e = put_field 48 4 (ucast p_limit_16_19) e;
          e = put_field 56 8 (ucast p_base_24_31) e;
          e = put_field 52 1 (ucast p_available) e;
          e = put_field 53 1 (ucast p_longmode) e;
          e = put_field 54 1 (ucast p_special) e;
          e = put_field 55 1 (ucast p_granularity) e
      in put_field 40 8 (ucast p_access) e)"

text \<open>The descriptor of a task state is a pair of words, low one first.\<close>

type_synonym TSSDescriptor = "u64 \<times> u64"

definition setTSSDescriptorLimit :: "u32 \<Rightarrow> TSSDescriptor \<Rightarrow> TSSDescriptor" where
  "setTSSDescriptorLimit p_limit = (\<lambda>(lo, hi).
     (put_field 48 4 (ucast (drop_bit 16 p_limit AND 0x0F)) (put_field 0 16 (ucast (p_limit AND 0xFFFF)) lo), hi))"

definition setTSSDescriptorBase :: "u64 \<Rightarrow> TSSDescriptor \<Rightarrow> TSSDescriptor" where
  "setTSSDescriptorBase p_base = (\<lambda>(lo, hi).
     (put_field 56 8 (drop_bit 24 p_base AND 0xFF) (put_field 32 8 (drop_bit 16 p_base AND 0xFF)
        (put_field 16 16 (p_base AND 0xFFFF) lo)),
      put_field 0 32 (drop_bit 32 p_base) hi))"

definition initializeTSSDescriptor :: "u64 \<Rightarrow> u32 \<Rightarrow> u8 \<Rightarrow> u8 \<Rightarrow> u8 \<Rightarrow> TSSDescriptor \<Rightarrow> TSSDescriptor" where
  "initializeTSSDescriptor p_base p_limit p_type p_present p_dpl d =
     (let (lo, hi) = setTSSDescriptorLimit p_limit (setTSSDescriptorBase p_base d);
          lo = put_field 40 4 (ucast p_type) lo;
          lo = put_field 47 1 (ucast p_present) lo;
          lo = put_field 45 2 (ucast p_dpl) lo
      in (put_field 52 1 1 lo, hi))"

section \<open>The table of a core\<close>

record TSSEntry =
  tss_reserve1 :: u32
  rsp0 :: u64
  rsp1 :: u64
  rsp2 :: u64
  tss_reserve2 :: u64
  ist1 :: u64
  ist2 :: u64
  ist3 :: u64
  ist4 :: u64
  ist5 :: u64
  ist6 :: u64
  ist7 :: u64
  tss_reserve3 :: u64
  tss_reserve4 :: u16
  iomap_base :: u16
  iomap :: "u8 list"

definition zero_tss :: TSSEntry where
  "zero_tss = \<lparr>tss_reserve1 = 0, rsp0 = 0, rsp1 = 0, rsp2 = 0, tss_reserve2 = 0, ist1 = 0, ist2 = 0, ist3 = 0, ist4 = 0, ist5 = 0, ist6 = 0, ist7 = 0,
     tss_reserve3 = 0,
     tss_reserve4 = 0, iomap_base = 0, iomap = replicate (8 * 1024 + 1) 0\<rparr>"

text \<open>\<open>tssDescriptor\<close> is the index of the entry it points to.\<close>

record GlobalDescriptorTable =
  globalDescriptorTableEntries :: "u64 list"
  tssDescriptor :: nat
  tssEntry :: TSSEntry

record seg_state =
  gdt_limit :: u16
  gdt_base :: u32
  globalDescriptorTable :: "GlobalDescriptorTable list"
  seg_apic :: apic_state

definition null_entry :: "u64 \<Rightarrow> u64" where
  "null_entry = setGlobalDescriptorTableEntry 0 0 0 0 0 0 0 0 0 0"

definition gdt_entries_init :: "u64 list \<Rightarrow> u64 list" where
  "gdt_entries_init es =
     (let es = replicate GDT_SIZE 0;
          es = es[0 := null_entry (es ! 0)];
          es = es[1 := setGlobalDescriptorTableEntry 0xFFFF 0 0 (AR_PRESENT OR AR_CODE OR DPL_KERNEL OR AR_READABLE) 0x0F 0 1 0 1 0 (es ! 1)];
          es = es[2 := setGlobalDescriptorTableEntry 0xFFFF 0 0 (AR_PRESENT OR AR_DATA OR DPL_KERNEL OR AR_WRITABLE) 0x0F 0 0 1 1 0 (es ! 2)];
          es = es[3 := setGlobalDescriptorTableEntry 0xFFFF 0 0 (AR_PRESENT OR AR_CODE OR DPL_USER OR AR_READABLE) 0x0F 0 1 0 1 0 (es ! 3)];
          es = es[4 := setGlobalDescriptorTableEntry 0xFFFF 0 0 (AR_PRESENT OR AR_DATA OR DPL_USER OR AR_READABLE) 0x0F 0 0 1 1 0 (es ! 4)];
          es = es[5 := null_entry (es ! 5)]
      in es[6 := null_entry (es ! 6)])"

definition initGlobalDescriptorTable :: "device \<Rightarrow> (nat \<Rightarrow> u64) \<Rightarrow> (nat \<Rightarrow> u64) \<Rightarrow> seg_state \<Rightarrow> seg_state result" where
  "initGlobalDescriptorTable dev gdt_at tss_at st =
     (let ap = getCurrentCoreId dev (seg_apic st);
          c = unat (ucast (core_id_ret ap) :: u16);
          st = st\<lparr>seg_apic := ap, gdt_limit := of_nat (8 * GDT_SIZE - 1), gdt_base := ucast (gdt_at c)\<rparr>
      in if c \<ge> length (globalDescriptorTable st) \<or> c \<ge> length (apics ap) then Inl Out_of_bounds
         else let g = globalDescriptorTable st ! c;
                  es = gdt_entries_init (globalDescriptorTableEntries g);
                  (lo, hi) = initializeTSSDescriptor (tss_at c) (TSS_BASIC_SIZE - 1) AR_TSS 1 PL_KERNEL (es ! 5, es ! 6);
                  g = g\<lparr>globalDescriptorTableEntries := es[5 := lo, 6 := hi], tssDescriptor := 5,
                        tssEntry := zero_tss\<lparr>rsp0 := kstack_ptr (apics ap ! c)\<rparr>\<rparr>
              in Inr (st\<lparr>globalDescriptorTable := (globalDescriptorTable st)[c := g]\<rparr>))"

section \<open>What the processor reads\<close>

definition tss_base :: "TSSDescriptor \<Rightarrow> u64" where
  "tss_base d = get_field 16 16 (fst d) OR push_bit 16 (get_field 32 8 (fst d)) OR push_bit 24 (get_field 56 8 (fst d)) OR
     push_bit 32 (get_field 0 32 (snd d))"

lemma tss_base_init: "tss_base (initializeTSSDescriptor b l ty pr dpl d) = b"
proof -
  have m: "(0xFFFF :: u64) = mask 16" "(0xFF :: u64) = mask 8" by (simp_all add: mask_eq_exp_minus_1)
  have "tss_base (initializeTSSDescriptor b l ty pr dpl d) = (b AND mask 16) OR push_bit 16 (drop_bit 16 b AND mask 8) OR
      push_bit 24 (drop_bit 24 b AND mask 8) OR push_bit 32 (drop_bit 32 b AND mask 32)"
    by (simp add: initializeTSSDescriptor_def setTSSDescriptorLimit_def setTSSDescriptorBase_def tss_base_def Let_def
        case_prod_unfold get_put_same get_put_other m ac_simps)
  also have "\<dots> = b"
  proof (rule bit_word_eqI)
    fix n assume n: "n < LENGTH(64)"
    consider "n < 16" | "16 \<le> n" "n < 24" | "24 \<le> n" "n < 32" | "32 \<le> n" by linarith
    then show "bit ((b AND mask 16) OR push_bit 16 (drop_bit 16 b AND mask 8) OR push_bit 24 (drop_bit 24 b AND mask 8) OR
        push_bit 32 (drop_bit 32 b AND mask 32)) n = bit b n"
      by cases (use n in \<open>auto simp: bit_simps\<close>)
  qed
  finally show ?thesis .
qed

lemma segment_values:
  "null_entry 0 = 0"
  "setGlobalDescriptorTableEntry 0xFFFF 0 0 (AR_PRESENT OR AR_CODE OR DPL_KERNEL OR AR_READABLE) 0x0F 0 1 0 1 0 0 = 0x00AF9A000000FFFF"
  "setGlobalDescriptorTableEntry 0xFFFF 0 0 (AR_PRESENT OR AR_DATA OR DPL_KERNEL OR AR_WRITABLE) 0x0F 0 0 1 1 0 0 = 0x00CF92000000FFFF"
  "setGlobalDescriptorTableEntry 0xFFFF 0 0 (AR_PRESENT OR AR_CODE OR DPL_USER OR AR_READABLE) 0x0F 0 1 0 1 0 0 = 0x00AFFA000000FFFF"
  "setGlobalDescriptorTableEntry 0xFFFF 0 0 (AR_PRESENT OR AR_DATA OR DPL_USER OR AR_READABLE) 0x0F 0 0 1 1 0 0 = 0x00CFF2000000FFFF"
  by (simp_all add: null_entry_def setGlobalDescriptorTableEntry_def put_field_def segment_consts mask_eq_exp_minus_1)

lemma gdt_entries_value: "gdt_entries_init es =
   [0, 0x00AF9A000000FFFF, 0x00CF92000000FFFF, 0x00AFFA000000FFFF, 0x00CFF2000000FFFF, 0, 0]"
proof -
  have "replicate GDT_SIZE (0 :: u64) = [0, 0, 0, 0, 0, 0, 0]" by (simp add: GDT_SIZE_def numeral_eq_Suc)
  then show ?thesis by (simp add: gdt_entries_init_def segment_values Let_def list_update_code nth_Cons_numeral)
qed

text \<open>The limit, type and privilege of a task state descriptor, as the processor decodes them.\<close>

lemma tss_fields_init:
  "get_field 0 16 (fst (initializeTSSDescriptor b l ty pr dpl d)) = ucast (l AND 0xFFFF)"
  "get_field 40 4 (fst (initializeTSSDescriptor b l ty pr dpl d)) = ucast ty AND mask 4"
  "get_field 45 2 (fst (initializeTSSDescriptor b l ty pr dpl d)) = ucast dpl AND mask 2"
  "get_field 47 1 (fst (initializeTSSDescriptor b l ty pr dpl d)) = ucast pr AND mask 1"
proof -
  have m: "(0xFFFF :: u32) = mask 16" by (simp add: mask_eq_exp_minus_1)
  have u: "(ucast (l AND 0xFFFF) :: u64) AND mask 16 = ucast (l AND 0xFFFF)"
    unfolding m by (rule bit_word_eqI) (auto simp: bit_simps)
  show "get_field 0 16 (fst (initializeTSSDescriptor b l ty pr dpl d)) = ucast (l AND 0xFFFF)"
    by (simp add: initializeTSSDescriptor_def setTSSDescriptorLimit_def setTSSDescriptorBase_def Let_def case_prod_unfold
        get_put_same get_put_other u)
qed (simp_all add: initializeTSSDescriptor_def setTSSDescriptorLimit_def setTSSDescriptorBase_def Let_def case_prod_unfold
  get_put_same get_put_other)

text \<open>On the core that runs it, \<open>initGlobalDescriptorTable\<close> builds flat 64-bit kernel and user
  segments at the selectors 0x8, 0x10, 0x18 and 0x20 and, over the last two entries, a present
  descriptor of the core's task state, whose scattered address fields recombine to its
  address and whose kernel stack is the core's own; the tables of the other cores are not touched.\<close>

theorem gdt_after_init:
  assumes "ap = getCurrentCoreId dev (seg_apic st)" "c = unat (ucast (core_id_ret ap) :: u16)"
    and "c < length (globalDescriptorTable st)" "c < length (apics ap)"
  shows "\<exists>st' g lo hi. initGlobalDescriptorTable dev gdt_at tss_at st = Inr st' \<and> g = globalDescriptorTable st' ! c \<and>
    globalDescriptorTableEntries g =
      [0, 0x00AF9A000000FFFF, 0x00CF92000000FFFF, 0x00AFFA000000FFFF, 0x00CFF2000000FFFF, lo, hi] \<and>
    tss_base (lo, hi) = tss_at c \<and> get_field 0 16 lo = 103 \<and> get_field 40 4 lo = 9 \<and> get_field 47 1 lo = 1 \<and>
    get_field 45 2 lo = 0 \<and> rsp0 (tssEntry g) = kstack_ptr (apics ap ! c) \<and>
    (\<forall>i. i \<noteq> c \<longrightarrow> globalDescriptorTable st' ! i = globalDescriptorTable st ! i)"
proof -
  obtain lo hi where d: "initializeTSSDescriptor (tss_at c) (TSS_BASIC_SIZE - 1) AR_TSS 1 PL_KERNEL (0, 0) = (lo, hi)"
    by (cases "initializeTSSDescriptor (tss_at c) (TSS_BASIC_SIZE - 1) AR_TSS 1 PL_KERNEL (0, 0)")
  have b: "tss_base (lo, hi) = tss_at c" using tss_base_init by (metis d)
  have f: "get_field 0 16 lo = 103" "get_field 40 4 lo = 9" "get_field 45 2 lo = 0" "get_field 47 1 lo = 1"
    using tss_fields_init [of "tss_at c" "TSS_BASIC_SIZE - 1" AR_TSS 1 PL_KERNEL "(0, 0)", unfolded d]
    by (simp_all add: segment_consts mask_eq_exp_minus_1)
  let ?es = "[0, 0x00AF9A000000FFFF, 0x00CF92000000FFFF, 0x00AFFA000000FFFF, 0x00CFF2000000FFFF, lo, hi] :: u64 list"
  have e: "[0, 0x00AF9A000000FFFF, 0x00CF92000000FFFF, 0x00AFFA000000FFFF, 0x00CFF2000000FFFF, 0, 0][5 := lo, 6 := hi] = ?es"
    by (simp add: eval_nat_numeral)
  let ?g = "(globalDescriptorTable st ! c)\<lparr>globalDescriptorTableEntries := ?es, tssDescriptor := 5,
    tssEntry := zero_tss\<lparr>rsp0 := kstack_ptr (apics ap ! c)\<rparr>\<rparr>"
  obtain st' where "initGlobalDescriptorTable dev gdt_at tss_at st = Inr st'"
    "globalDescriptorTable st' = (globalDescriptorTable st)[c := ?g]"
    using assms d by (simp add: initGlobalDescriptorTable_def gdt_entries_value e Let_def)
  then show ?thesis
    using assms(3) b f by (intro exI [of _ st'] exI [of _ ?g] exI [of _ lo] exI [of _ hi]) simp
qed

definition demo_seg :: seg_state where
  "demo_seg = \<lparr>gdt_limit = 0, gdt_base = 0, globalDescriptorTable = replicate 2
     \<lparr>globalDescriptorTableEntries = replicate 7 0, tssDescriptor = 0, tssEntry = zero_tss\<rparr>, seg_apic = demo_apic_state\<rparr>"

theorem gdt_after_init_witness:
  "\<exists>st' lo hi. initGlobalDescriptorTable (\<lambda>_ _ _. 0) (\<lambda>_. 0x3000000) (\<lambda>_. 0xFFFF800003000100) demo_seg = Inr st' \<and>
    globalDescriptorTableEntries (globalDescriptorTable st' ! 0) =
      [0, 0x00AF9A000000FFFF, 0x00CF92000000FFFF, 0x00AFFA000000FFFF, 0x00CFF2000000FFFF, lo, hi] \<and>
    tss_base (lo, hi) = 0xFFFF800003000100"
  using gdt_after_init [where dev = "\<lambda>_ _ _. 0" and st = demo_seg and c = 0 and gdt_at = "\<lambda>_. 0x3000000"
      and tss_at = "\<lambda>_. 0xFFFF800003000100", OF refl]
  by (auto simp: core_id_zero core_id_frame demo_seg_def demo_apic_state_def)

end
