(* ===== verification/Pci.thy ===== *)
theory Pci
  imports Services
begin

text \<open>
  The PCI bus: configuration space access (\<open>devices/pci/pci_device.c\<close>) and the inventory of
  devices with its lookups (\<open>devices/pci/pci_service.c\<close>). Configuration words are read through an
  address and a data port; what the data port reads is a parameter that sees the writes made so
  far. \<open>PciPrint\<close> and \<open>PrintAllPCI\<close> only print.
\<close>

section \<open>Configuration space\<close>

type_synonym pci_ports = "(u16 \<times> u32) list"
type_synonym pci_bus = "pci_ports \<Rightarrow> u16 \<Rightarrow> u32"

definition PCI_ADDRESS :: u16 where "PCI_ADDRESS = 0xCF8"
definition PCI_DATA :: u16 where "PCI_DATA = 0xCFC"
definition PCI_COMMAND_OFFSET :: u8 where "PCI_COMMAND_OFFSET = 4"
definition PCI_STATUS_OFFSET :: u8 where "PCI_STATUS_OFFSET = 6"
definition PCI_BAR_OUT_OF_RANGE :: u8 where "PCI_BAR_OUT_OF_RANGE = 0x04"
definition BAR_COUNT :: nat where "BAR_COUNT = 6"
definition MAX_PCI_BUSES :: nat where "MAX_PCI_BUSES = 256"
definition MAX_PCI_BUS_DEVICES :: nat where "MAX_PCI_BUS_DEVICES = 32"
definition MAX_PCI_DEVICE_FUNCTIONS :: nat where "MAX_PCI_DEVICE_FUNCTIONS = 8"

definition pci_address :: "u8 \<Rightarrow> u8 \<Rightarrow> u8 \<Rightarrow> u8 \<Rightarrow> u32" where
  "pci_address p_bus p_device p_function p_offset =
     push_bit 16 (ucast p_bus) OR push_bit 11 (ucast p_device) OR push_bit 8 (ucast p_function) OR
     ucast (p_offset AND 0xFC) OR 0x80000000"

definition PciConfigReadWord :: "pci_bus \<Rightarrow> u8 \<Rightarrow> u8 \<Rightarrow> u8 \<Rightarrow> u8 \<Rightarrow> pci_ports \<Rightarrow> u16 \<times> pci_ports" where
  "PciConfigReadWord dev p_bus p_device p_function p_offset io =
     (let io = io @ [(PCI_ADDRESS, pci_address p_bus p_device p_function p_offset)]
      in (ucast (drop_bit (unat (p_offset AND 2) * 8) (dev io PCI_DATA) AND 0xFFFF), io))"

definition PciConfigWriteWord :: "u8 \<Rightarrow> u8 \<Rightarrow> u8 \<Rightarrow> u8 \<Rightarrow> u16 \<Rightarrow> pci_ports \<Rightarrow> pci_ports" where
  "PciConfigWriteWord p_bus p_device p_function p_offset p_value io =
     io @ [(PCI_ADDRESS, pci_address p_bus p_device p_function p_offset), (PCI_DATA, ucast p_value)]"

text \<open>The first 64 bytes of a device structure are the 32 words of its header; the named fields are
  parts of them.\<close>

record PCIDevice =
  hdr :: "u16 list"
  pci_data :: "u8 list"
  pbus :: u8
  pdevice :: u8
  pfunc :: u8

definition vend_id :: "PCIDevice \<Rightarrow> u16" where "vend_id d = hdr d ! 0"
definition dev_id :: "PCIDevice \<Rightarrow> u16" where "dev_id d = hdr d ! 1"
definition set_command :: "u16 \<Rightarrow> PCIDevice \<Rightarrow> PCIDevice" where "set_command v d = d\<lparr>hdr := (hdr d)[2 := v]\<rparr>"
definition set_status :: "u16 \<Rightarrow> PCIDevice \<Rightarrow> PCIDevice" where "set_status v d = d\<lparr>hdr := (hdr d)[3 := v]\<rparr>"
definition bars :: "PCIDevice \<Rightarrow> nat \<Rightarrow> u32" where
  "bars d i = ucast (hdr d ! (8 + 2 * i)) OR push_bit 16 (ucast (hdr d ! (9 + 2 * i)))"

fun read_header :: "pci_bus \<Rightarrow> u8 \<Rightarrow> u8 \<Rightarrow> u8 \<Rightarrow> nat list \<Rightarrow> u16 list \<Rightarrow> pci_ports \<Rightarrow> u16 list \<times> pci_ports" where
  "read_header dev b d f [] ws io = (ws, io)"
| "read_header dev b d f (j # js) ws io =
     (let (w, io) = PciConfigReadWord dev b d f (of_nat (2 * j)) io in read_header dev b d f js (ws[j := w]) io)"

definition PciConfigInitialize :: "pci_bus \<Rightarrow> u8 \<Rightarrow> u8 \<Rightarrow> u8 \<Rightarrow> PCIDevice \<Rightarrow> pci_ports \<Rightarrow> PCIDevice \<times> pci_ports" where
  "PciConfigInitialize dev p_bus p_device p_function d io =
     (let d = d\<lparr>pbus := p_bus, pdevice := p_device, pfunc := p_function\<rparr>;
          (ws, io) = read_header dev p_bus p_device p_function [0..<32] (hdr d) io
      in (d\<lparr>hdr := ws\<rparr>, io))"

definition PciConfigWriteCommand :: "pci_bus \<Rightarrow> PCIDevice \<Rightarrow> u32 \<Rightarrow> u16 \<Rightarrow> pci_ports \<Rightarrow> PCIDevice \<times> pci_ports" where
  "PciConfigWriteCommand dev d p_address p_command io =
     (let (c, io) = PciConfigReadWord dev (pbus d) (pdevice d) (pfunc d) (ucast p_address) io
      in (set_command c d, PciConfigWriteWord (pbus d) (pdevice d) (pfunc d) (ucast p_address) (c OR p_command) io))"

definition ReadStatus :: "pci_bus \<Rightarrow> PCIDevice \<Rightarrow> pci_ports \<Rightarrow> u16 \<times> PCIDevice \<times> pci_ports" where
  "ReadStatus dev d io =
     (let (s, io) = PciConfigReadWord dev (pbus d) (pdevice d) (pfunc d) PCI_STATUS_OFFSET io in (s, set_status s d, io))"

definition PciConfigReadCommand :: "pci_bus \<Rightarrow> PCIDevice \<Rightarrow> pci_ports \<Rightarrow> u16 \<times> PCIDevice \<times> pci_ports" where
  "PciConfigReadCommand dev d io =
     (let (c, io) = PciConfigReadWord dev (pbus d) (pdevice d) (pfunc d) PCI_COMMAND_OFFSET io in (c, set_command c d, io))"

definition EnablePCIBusMastering :: "pci_bus \<Rightarrow> PCIDevice \<Rightarrow> pci_ports \<Rightarrow> bool \<times> PCIDevice \<times> pci_ports" where
  "EnablePCIBusMastering dev d io =
     (let (c, io) = PciConfigReadWord dev (pbus d) (pdevice d) (pfunc d) 4 io;
          io = PciConfigWriteWord (pbus d) (pdevice d) (pfunc d) 4 (c OR 6) io;
          (c, io) = PciConfigReadWord dev (pbus d) (pdevice d) (pfunc d) 4 io
      in (c AND 6 \<noteq> 0, set_command c d, io))"

definition GetPCIBarType :: "PCIDevice \<Rightarrow> u8 \<Rightarrow> u8" where
  "GetPCIBarType d p_num = (if unat p_num < BAR_COUNT then ucast (bars d (unat p_num) AND 1) else PCI_BAR_OUT_OF_RANGE)"

definition GetPCIBar :: "PCIDevice \<Rightarrow> u8 \<Rightarrow> u32" where
  "GetPCIBar d p_type =
     (case find (\<lambda>i. bars d i AND 1 = ucast p_type) [0..<BAR_COUNT] of Some i \<Rightarrow> bars d i | None \<Rightarrow> 0xFFFFFFFF)"

section \<open>The inventory\<close>

record PCIService =
  pciDevices :: "PCIDevice list"
  total_pci_devices :: int
  total_pci_devices2 :: int
  p_vendor :: u16
  p_device_id :: u16
  p_index :: u16
  pciDevice_ptr :: "nat option"
  pci_count :: u16

datatype pci_method = CollectHWInventory_f | GetPCIDevice_f | GetPCIDeviceAtIndex_f | GetPCIDeviceCount_f | PrintAllPCI_f

definition initializePCIService :: "PCIService \<Rightarrow> pci_method Service \<Rightarrow> (PCIService \<times> pci_method Service) result" where
  "initializePCIService s srv =
     and_then (call_add_services srv [(CollectHWInventory_f, 0), (GetPCIDevice_f, 1), (GetPCIDeviceAtIndex_f, 2),
        (GetPCIDeviceCount_f, 3), (PrintAllPCI_f, 4)]) (\<lambda>srv.
       Inr (s\<lparr>total_pci_devices := 0, total_pci_devices2 := 0\<rparr>, srv))"

text \<open>The three nested loops as one list of bus, device and function numbers.\<close>

definition pci_functions :: "(nat \<times> nat \<times> nat) list" where
  "pci_functions = List.product [0..<MAX_PCI_BUSES] (List.product [0..<MAX_PCI_BUS_DEVICES] [0..<MAX_PCI_DEVICE_FUNCTIONS])"

text \<open>\<open>local\<close> is the device structure on the stack, not initialised before the first read.\<close>

fun count_loop :: "pci_bus \<Rightarrow> (nat \<times> nat \<times> nat) list \<Rightarrow> PCIDevice \<Rightarrow> PCIService \<Rightarrow> pci_ports \<Rightarrow> PCIService \<times> pci_ports" where
  "count_loop dev [] local s io = (s, io)"
| "count_loop dev ((b, i, j) # fs) local s io =
     (let (local, io) = PciConfigInitialize dev (of_nat b) (of_nat i) (of_nat j) local io
      in if vend_id local = 0xFFFF then count_loop dev fs local s io
         else count_loop dev fs local (s\<lparr>total_pci_devices := total_pci_devices s + 1,
                total_pci_devices2 := total_pci_devices2 s + 1\<rparr>) io)"

definition ScanBusesForCount :: "pci_bus \<Rightarrow> PCIDevice \<Rightarrow> PCIService \<Rightarrow> pci_ports \<Rightarrow> PCIService \<times> pci_ports" where
  "ScanBusesForCount dev local s io = count_loop dev pci_functions local s io"

text \<open>Behind each device the source also reads the header type of the next slot, for a test whose
  body is empty; the read has no effect and is left out.\<close>

fun alloc_loop :: "pci_bus \<Rightarrow> (nat \<times> nat \<times> nat) list \<Rightarrow> u16 \<Rightarrow> PCIService \<Rightarrow> pci_ports \<Rightarrow> (PCIService \<times> pci_ports) result" where
  "alloc_loop dev [] n s io = Inr (s, io)"
| "alloc_loop dev ((b, i, j) # fs) n s io =
     (if uint n < total_pci_devices s
      then and_then (arr_get (pciDevices s) (uint n)) (\<lambda>d.
        let (d, io) = PciConfigInitialize dev (of_nat b) (of_nat i) (of_nat j) d io;
            s = s\<lparr>pciDevices := (pciDevices s)[unat n := d]\<rparr>
        in if vend_id d = 0xFFFF then alloc_loop dev fs n s io
           else alloc_loop dev fs (n + 1) s io)
      else alloc_loop dev fs n s io)"

definition ScanBusesForAllocation :: "pci_bus \<Rightarrow> PCIService \<Rightarrow> pci_ports \<Rightarrow> (PCIService \<times> pci_ports) result" where
  "ScanBusesForAllocation dev s io = alloc_loop dev pci_functions 0 s io"

definition CollectHWInventory :: "pci_bus \<Rightarrow> PCIDevice \<Rightarrow> PCIService \<Rightarrow> pci_ports \<Rightarrow> (PCIService \<times> pci_ports) result" where
  "CollectHWInventory dev local s io =
     (let (s, io) = ScanBusesForCount dev local s io in ScanBusesForAllocation dev s io)"

section \<open>Lookups\<close>

text \<open>The loops count in a byte. With 256 devices or more the counter wraps and the loop may
  not end, the result \<open>None\<close>. Every element the byte reaches lies in the array of 256.\<close>

definition pci_match :: "PCIService \<Rightarrow> nat \<Rightarrow> bool" where
  "pci_match s i \<longleftrightarrow> vend_id (pciDevices s ! i) = p_vendor s \<and> dev_id (pciDevices s ! i) = p_device_id s"

definition GetPCIDevice :: "PCIService \<Rightarrow> (nat option \<times> PCIService) option" where
  "GetPCIDevice s =
     map_option (\<lambda>i :: u8. let r = (if uint i < total_pci_devices s then Some (unat i) else None)
         in (r, s\<lparr>pciDevice_ptr := r\<rparr>))
       (while_option (\<lambda>i. uint i < total_pci_devices s \<and> \<not> pci_match s (unat i)) (\<lambda>i. i + 1) 0)"

definition GetPCIDeviceAtIndex :: "PCIService \<Rightarrow> (nat option \<times> PCIService) option" where
  "GetPCIDeviceAtIndex s =
     map_option (\<lambda>(i :: u8, ind). let r = (if uint i < total_pci_devices s then Some (unat i) else None)
         in (r, s\<lparr>pciDevice_ptr := r\<rparr>))
       (while_option (\<lambda>(i, ind). uint i < total_pci_devices s \<and> \<not> (pci_match s (unat i) \<and> ind = p_index s))
         (\<lambda>(i, ind). (i + 1, if pci_match s (unat i) then ind + 1 else ind)) (0, 0 :: u16))"

definition GetPCIDeviceCount :: "PCIService \<Rightarrow> (u16 \<times> PCIService) option" where
  "GetPCIDeviceCount s =
     map_option (\<lambda>(i :: u8, c). (c, s\<lparr>pci_count := c\<rparr>))
       (while_option (\<lambda>(i, c). uint i < total_pci_devices s)
         (\<lambda>(i, c). (i + 1, if pci_match s (unat i) then c + 1 else c)) (0, 0 :: u16))"

section \<open>The inventory is complete\<close>

text \<open>Documented behaviour of the bus: the data port reads the configuration register whose address
  was written last. \<open>cfg\<close> holds the registers.\<close>

definition conf_space :: "pci_bus \<Rightarrow> (u32 \<Rightarrow> u32) \<Rightarrow> bool" where
  "conf_space dev cfg \<longleftrightarrow> (\<forall>io a. dev (io @ [(PCI_ADDRESS, a)]) PCI_DATA = cfg a)"

definition config_word :: "(u32 \<Rightarrow> u32) \<Rightarrow> nat \<times> nat \<times> nat \<Rightarrow> nat \<Rightarrow> u16" where
  "config_word cfg = (\<lambda>(b, i, j) k. ucast (drop_bit (unat ((of_nat (2 * k) :: u8) AND 2) * 8)
     (cfg (pci_address (of_nat b) (of_nat i) (of_nat j) (of_nat (2 * k)))) AND 0xFFFF))"

definition present :: "(u32 \<Rightarrow> u32) \<Rightarrow> nat \<times> nat \<times> nat \<Rightarrow> bool" where
  "present cfg f \<longleftrightarrow> config_word cfg f 0 \<noteq> 0xFFFF"

text \<open>What the inventory should record of a function: its header and its place.\<close>

definition entry_of :: "(u32 \<Rightarrow> u32) \<Rightarrow> nat \<times> nat \<times> nat \<Rightarrow> u16 list \<times> u8 \<times> u8 \<times> u8" where
  "entry_of cfg = (\<lambda>(b, i, j). (map (config_word cfg (b, i, j)) [0..<32], of_nat b, of_nat i, of_nat j))"

definition describe_device :: "PCIDevice \<Rightarrow> u16 list \<times> u8 \<times> u8 \<times> u8" where
  "describe_device d = (hdr d, pbus d, pdevice d, pfunc d)"

lemma read_header_length [simp]: "length (fst (read_header dev b d f js ws io)) = length ws"
  by (induction js arbitrary: ws io) (auto simp: case_prod_unfold Let_def)

lemma read_header_nth:
  assumes "conf_space dev cfg" "k < length ws"
  shows "fst (read_header dev (of_nat b) (of_nat i) (of_nat j) js ws io) ! k =
    (if k \<in> set js then config_word cfg (b, i, j) k else ws ! k)"
  using assms
proof (induction js arbitrary: ws io)
  case (Cons a js)
  have "fst (PciConfigReadWord dev (of_nat b) (of_nat i) (of_nat j) (of_nat (2 * a)) io) = config_word cfg (b, i, j) a"
    using Cons.prems(1) by (simp add: PciConfigReadWord_def config_word_def conf_space_def Let_def)
  then show ?case using Cons by (auto simp: case_prod_unfold Let_def simp del: of_nat_mult)
qed simp

lemma initialize_device:
  assumes "conf_space dev cfg" "length (hdr d) = 32"
  shows "\<exists>io' d'. PciConfigInitialize dev (of_nat b) (of_nat i) (of_nat j) d io = (d', io') \<and>
    describe_device d' = entry_of cfg (b, i, j) \<and> length (hdr d') = 32 \<and> vend_id d' = config_word cfg (b, i, j) 0"
proof -
  have h: "fst (read_header dev (of_nat b) (of_nat i) (of_nat j) [0..<32] (hdr d) io) = map (config_word cfg (b, i, j)) [0..<32]"
    by (rule nth_equalityI) (simp_all add: assms(2) read_header_nth [OF assms(1)] del: upt_rec_numeral)
  then show ?thesis
    by (simp add: PciConfigInitialize_def describe_device_def entry_of_def vend_id_def case_prod_unfold Let_def del: upt_rec_numeral)
qed

lemma count_loop_spec:
  assumes "conf_space dev cfg" "length (hdr local) = 32"
  shows "fst (count_loop dev fs local s io) = s\<lparr>total_pci_devices := total_pci_devices s + int (length (filter (present cfg) fs)),
    total_pci_devices2 := total_pci_devices2 s + int (length (filter (present cfg) fs))\<rparr>"
  using assms(2)
proof (induction fs arbitrary: local s io)
  case (Cons f fs)
  obtain b i j where f: "f = (b, i, j)" by (cases f)
  obtain io' d' where d': "PciConfigInitialize dev (of_nat b) (of_nat i) (of_nat j) local io = (d', io')" "length (hdr d') = 32"
    "vend_id d' = config_word cfg (b, i, j) 0" using initialize_device [OF assms(1) Cons.prems] by metis
  then show ?case using Cons.IH [OF d'(2)] by (auto simp: f present_def)
qed simp

definition slots_ok :: "PCIService \<Rightarrow> bool" where
  "slots_ok s \<longleftrightarrow> length (pciDevices s) = 256 \<and> (\<forall>d\<in>set (pciDevices s). length (hdr d) = 32)"

text \<open>One round of the allocation scan while there is room: slot \<open>n\<close> gets the function at hand,
  and the next round overwrites it if the function does not exist.\<close>

lemma alloc_round:
  assumes "conf_space dev cfg" "slots_ok s" "unat n < 256" "int (unat n) < total_pci_devices s"
  shows "\<exists>io' d'. alloc_loop dev ((b, i, j) # fs) n s io = alloc_loop dev fs (if present cfg (b, i, j) then n + 1 else n)
      (s\<lparr>pciDevices := (pciDevices s)[unat n := d']\<rparr>) io' \<and>
    describe_device d' = entry_of cfg (b, i, j) \<and> slots_ok (s\<lparr>pciDevices := (pciDevices s)[unat n := d']\<rparr>)"
proof -
  have n: "unat n < length (pciDevices s)" using assms(2,3) by (simp add: slots_ok_def)
  then have l: "length (hdr (pciDevices s ! unat n)) = 32" using assms(2) by (simp add: slots_ok_def)
  have g: "arr_get (pciDevices s) (uint n) = Inr (pciDevices s ! unat n)"
    using n by (simp add: arr_get_def in_array_def unat_less_uint)
  obtain io' d' where d': "PciConfigInitialize dev (of_nat b) (of_nat i) (of_nat j) (pciDevices s ! unat n) io = (d', io')"
    "describe_device d' = entry_of cfg (b, i, j)" "length (hdr d') = 32" "vend_id d' = config_word cfg (b, i, j) 0"
    using initialize_device [OF assms(1) l] by metis
  have "slots_ok (s\<lparr>pciDevices := (pciDevices s)[unat n := d']\<rparr>)"
    using assms(2) d'(3) unfolding slots_ok_def by (auto dest!: subsetD [OF set_update_subset_insert])
  moreover have "uint n < total_pci_devices s" using assms(4) by simp
  ultimately show ?thesis
    using d' by (intro exI [of _ io'] exI [of _ d']) (simp add: g present_def)
qed

lemma unat_u16_Suc: "unat (n :: u16) < 256 \<Longrightarrow> unat (n + 1) = Suc (unat n)"
  using unat_add_no_wrap [of n 1] by simp

lemma alloc_loop_spec:
  assumes "conf_space dev cfg" "slots_ok s"
    and "total_pci_devices s = int (unat n + length (filter (present cfg) fs))" "total_pci_devices s \<le> 256"
  shows "\<exists>ds io'. alloc_loop dev fs n s io = Inr (s\<lparr>pciDevices := ds\<rparr>, io') \<and> slots_ok (s\<lparr>pciDevices := ds\<rparr>) \<and>
    (\<forall>k<unat n. ds ! k = pciDevices s ! k) \<and>
    (\<forall>k<length (filter (present cfg) fs). describe_device (ds ! (unat n + k)) = entry_of cfg (filter (present cfg) fs ! k))"
  using assms(2-)
proof (induction fs arbitrary: n s io)
  case Nil
  then show ?case by (intro exI [of _ "pciDevices s"] exI [of _ io]) simp
next
  case (Cons f fs)
  obtain b i j where f: "f = (b, i, j)" by (cases f)
  show ?case
  proof (cases "int (unat n) < total_pci_devices s")
    case False
    then have e: "filter (present cfg) (f # fs) = []" using Cons.prems(2) by (simp split: if_splits)
    then have "filter (present cfg) fs = []" by (simp split: if_splits)
    then show ?thesis using Cons.IH [OF Cons.prems(1), of n] False Cons.prems e by (simp add: f del: filter.simps)
  next
    case True
    then have n: "unat n < 256" using Cons.prems(3) by linarith
    obtain io' d' where r: "alloc_loop dev (f # fs) n s io = alloc_loop dev fs (if present cfg f then n + 1 else n)
        (s\<lparr>pciDevices := (pciDevices s)[unat n := d']\<rparr>) io'"
      and d': "describe_device d' = entry_of cfg f" "slots_ok (s\<lparr>pciDevices := (pciDevices s)[unat n := d']\<rparr>)"
      using alloc_round [OF assms(1) Cons.prems(1) n True] unfolding f by metis
    let ?s = "s\<lparr>pciDevices := (pciDevices s)[unat n := d']\<rparr>" and ?n = "if present cfg f then n + 1 else n"
    have n': "unat ?n = (if present cfg f then Suc (unat n) else unat n)" using unat_u16_Suc [OF n] by simp
    have t: "total_pci_devices ?s = int (unat ?n + length (filter (present cfg) fs))"
      using Cons.prems(2) unfolding n' by (cases "present cfg f") simp_all
    have le: "total_pci_devices ?s \<le> 256" using Cons.prems(3) by simp
    obtain ds io'' where ds: "alloc_loop dev fs ?n ?s io' = Inr (?s\<lparr>pciDevices := ds\<rparr>, io'')" "slots_ok (?s\<lparr>pciDevices := ds\<rparr>)"
      "\<forall>k<unat ?n. ds ! k = pciDevices ?s ! k"
      "\<forall>k<length (filter (present cfg) fs). describe_device (ds ! (unat ?n + k)) = entry_of cfg (filter (present cfg) fs ! k)"
      using Cons.IH [OF d'(2) t le, of io'] by blast
    have len: "unat n < length (pciDevices s)" using n Cons.prems(1) by (simp add: slots_ok_def)
    show ?thesis
    proof (intro exI conjI)
      show "alloc_loop dev (f # fs) n s io = Inr (s\<lparr>pciDevices := ds\<rparr>, io'')" using r ds(1) by simp
      show "slots_ok (s\<lparr>pciDevices := ds\<rparr>)" using ds(2) by simp
      show "\<forall>k<unat n. ds ! k = pciDevices s ! k" using ds(3) n' by (auto split: if_splits)
      show "\<forall>k<length (filter (present cfg) (f # fs)). describe_device (ds ! (unat n + k)) = entry_of cfg (filter (present cfg) (f # fs) ! k)"
        using ds(3,4) n' d'(1) len by (auto simp: nth_Cons split: nat.splits if_splits)
    qed
  qed
qed

lemma alloc_loop_overflow:
  assumes "conf_space dev cfg" "slots_ok s" "unat n \<le> 256"
    and "total_pci_devices s = int (unat n + length (filter (present cfg) fs))" "total_pci_devices s > 256"
  shows "alloc_loop dev fs n s io = Inl Out_of_bounds"
  using assms(2-)
proof (induction fs arbitrary: n s io)
  case Nil
  have "total_pci_devices s = int (unat n)" using Nil.prems(3) by simp
  with Nil.prems(2,4) show ?case by linarith
next
  case (Cons f fs)
  obtain b i j where f: "f = (b, i, j)" by (cases f)
  have True: "int (unat n) < total_pci_devices s" using Cons.prems(2,4) by linarith
  show ?case
  proof (cases "unat n < 256")
    case False
    then have "\<not> in_array (pciDevices s) (uint n)" using Cons.prems(1) by (simp add: in_array_def slots_ok_def unat_less_uint)
    then show ?thesis using True by (simp add: f arr_get_def)
  next
    case n: True
    obtain io' d' where r: "alloc_loop dev (f # fs) n s io = alloc_loop dev fs (if present cfg f then n + 1 else n)
        (s\<lparr>pciDevices := (pciDevices s)[unat n := d']\<rparr>) io'"
      and d': "slots_ok (s\<lparr>pciDevices := (pciDevices s)[unat n := d']\<rparr>)"
      using alloc_round [OF assms(1) Cons.prems(1) n True] unfolding f by metis
    have "unat (if present cfg f then n + 1 else n) = (if present cfg f then Suc (unat n) else unat n)"
      using unat_u16_Suc [OF n] by simp
    then show ?thesis
      unfolding r using Cons.prems(3,4) n by (intro Cons.IH [OF d']) (cases "present cfg f"; simp)+
  qed
qed

text \<open>C30: \<open>CollectHWInventory\<close> records exactly the functions of the bus that answer with a
  vendor, in the order of bus, device and function, each with its whole header and its place,
  provided there are at most 256; with more of them it writes past its table.\<close>

theorem pci_inventory_complete:
  assumes "conf_space dev cfg" "slots_ok s" "total_pci_devices s = 0" "length (hdr local) = 32"
    and "found = filter (present cfg) pci_functions"
  shows "if length found \<le> 256
    then \<exists>s' io'. CollectHWInventory dev local s io = Inr (s', io') \<and> total_pci_devices s' = int (length found) \<and>
      map describe_device (take (length found) (pciDevices s')) = map (entry_of cfg) found
    else CollectHWInventory dev local s io = Inl Out_of_bounds"
proof -
  obtain s1 io1 where c: "ScanBusesForCount dev local s io = (s1, io1)" by (cases "ScanBusesForCount dev local s io")
  then have s1: "s1 = s\<lparr>total_pci_devices := int (length found), total_pci_devices2 := total_pci_devices2 s + int (length found)\<rparr>"
    using count_loop_spec [OF assms(1,4), of pci_functions s io] assms(3,5) by (simp add: ScanBusesForCount_def)
  then have ok: "slots_ok s1" "total_pci_devices s1 = int (unat (0 :: u16) + length (filter (present cfg) pci_functions))"
    using assms(2,5) by (simp_all add: slots_ok_def)
  show ?thesis
  proof (cases "length found \<le> 256")
    case True
    then obtain ds io' where ds: "alloc_loop dev pci_functions 0 s1 io1 = Inr (s1\<lparr>pciDevices := ds\<rparr>, io')"
      "slots_ok (s1\<lparr>pciDevices := ds\<rparr>)" "\<forall>k<length found. describe_device (ds ! k) = entry_of cfg (found ! k)"
      using alloc_loop_spec [OF assms(1) ok, of io1] s1 assms(5) by auto
    have "map describe_device (take (length found) ds) = map (entry_of cfg) found"
      using ds(2,3) True by (intro nth_equalityI) (auto simp: slots_ok_def)
    then show ?thesis
      using True ds(1) c s1 by (simp add: CollectHWInventory_def ScanBusesForAllocation_def)
  next
    case False
    then have "alloc_loop dev pci_functions 0 s1 io1 = Inl Out_of_bounds"
      using s1 by (intro alloc_loop_overflow [OF assms(1) ok(1) _ ok(2)]) simp_all
    then show ?thesis using False c by (simp add: CollectHWInventory_def ScanBusesForAllocation_def)
  qed
qed

section \<open>Lookups end and agree\<close>

text \<open>The devices of the inventory that match the request, by index.\<close>

definition matching :: "PCIService \<Rightarrow> nat \<Rightarrow> nat list" where
  "matching s k = filter (pci_match s) [k..<nat (total_pci_devices s)]"

lemma matching_step: "k < nat (total_pci_devices s) \<Longrightarrow>
    matching s k = (if pci_match s k then k # matching s (Suc k) else matching s (Suc k))"
  by (simp add: matching_def upt_conv_Cons)

lemma matching_end: "\<not> k < nat (total_pci_devices s) \<Longrightarrow> matching s k = []"
  by (simp add: matching_def)

lemma u8_counter:
  assumes "total_pci_devices s \<le> 255" "k \<le> nat (total_pci_devices s)"
  shows "unat (of_nat k :: u8) = k" "uint (of_nat k :: u8) < total_pci_devices s \<longleftrightarrow> k < nat (total_pci_devices s)"
proof -
  show u: "unat (of_nat k :: u8) = k" using assms by (intro unat_of_nat_small) simp
  have "uint (of_nat k :: u8) = int (unat (of_nat k :: u8))" by simp
  then have "uint (of_nat k :: u8) = int k" unfolding u .
  then show "uint (of_nat k :: u8) < total_pci_devices s \<longleftrightarrow> k < nat (total_pci_devices s)" by auto
qed

lemma count_from:
  assumes "total_pci_devices s \<le> 255" "k \<le> nat (total_pci_devices s)"
  shows "\<exists>i. while_option (\<lambda>(i :: u8, c). uint i < total_pci_devices s)
      (\<lambda>(i, c). (i + 1, if pci_match s (unat i) then c + 1 else c)) (of_nat k, c :: u16) =
    Some (i, c + of_nat (length (matching s k)))"
  using assms(2)
proof (induction "nat (total_pci_devices s) - k" arbitrary: k c)
  case 0
  then show ?case by (subst while_option_unfold) (simp add: u8_counter [OF assms(1)] matching_end)
next
  case (Suc d)
  then have k: "k < nat (total_pci_devices s)" "d = nat (total_pci_devices s) - Suc k" "Suc k \<le> nat (total_pci_devices s)" by auto
  from Suc.hyps(1) [OF k(2,3), of "if pci_match s k then c + 1 else c"] show ?case
    by (subst while_option_unfold) (use k Suc.prems in \<open>auto simp: u8_counter [OF assms(1)] matching_step algebra_simps\<close>)
qed

lemma first_from:
  assumes "total_pci_devices s \<le> 255" "k \<le> nat (total_pci_devices s)"
  shows "while_option (\<lambda>i :: u8. uint i < total_pci_devices s \<and> \<not> pci_match s (unat i)) (\<lambda>i. i + 1) (of_nat k) =
    Some (of_nat (case matching s k of [] \<Rightarrow> nat (total_pci_devices s) | m # _ \<Rightarrow> m))"
  using assms(2)
proof (induction "nat (total_pci_devices s) - k" arbitrary: k)
  case 0
  then show ?case by (subst while_option_unfold) (simp add: u8_counter [OF assms(1)] matching_end)
next
  case (Suc d)
  then have k: "k < nat (total_pci_devices s)" "d = nat (total_pci_devices s) - Suc k" "Suc k \<le> nat (total_pci_devices s)" by auto
  from Suc.hyps(1) [OF k(2,3)] show ?case
    by (subst while_option_unfold) (use k Suc.prems in \<open>auto simp: u8_counter [OF assms(1)] matching_step algebra_simps\<close>)
qed

lemma at_index_from:
  assumes "total_pci_devices s \<le> 255" "k \<le> nat (total_pci_devices s)" "c \<le> k" "c \<le> unat (p_index s)"
  shows "\<exists>ind. while_option (\<lambda>(i :: u8, ind). uint i < total_pci_devices s \<and> \<not> (pci_match s (unat i) \<and> ind = p_index s))
      (\<lambda>(i, ind). (i + 1, if pci_match s (unat i) then ind + 1 else ind)) (of_nat k, of_nat c :: u16) =
    Some (of_nat (if unat (p_index s) - c < length (matching s k) then matching s k ! (unat (p_index s) - c)
       else nat (total_pci_devices s)), ind)"
  using assms(2-)
proof (induction "nat (total_pci_devices s) - k" arbitrary: k c)
  case 0
  then show ?case by (subst while_option_unfold) (simp add: u8_counter [OF assms(1)] matching_end)
next
  case (Suc d)
  then have k: "k < nat (total_pci_devices s)" "d = nat (total_pci_devices s) - Suc k" "Suc k \<le> nat (total_pci_devices s)" by auto
  have c: "(of_nat c :: u16) = p_index s \<longleftrightarrow> c = unat (p_index s)"
  proof -
    have "unat (of_nat c :: u16) = c" using Suc.prems assms(1) by (intro unat_of_nat_small) simp
    then show ?thesis by (simp add: word_unat_eq_iff)
  qed
  consider (hit) "pci_match s k" "c = unat (p_index s)" | (skip) "pci_match s k" "c < unat (p_index s)" | (miss) "\<not> pci_match s k"
    using Suc.prems(3) by linarith
  then show ?case
  proof cases
    case hit
    then show ?thesis
      by (subst while_option_unfold) (use k Suc.prems c in \<open>simp add: u8_counter [OF assms(1)] matching_step\<close>)
  next
    case skip
    then have "unat (p_index s) - c = Suc (unat (p_index s) - Suc c)" by simp
    with skip Suc.hyps(1) [OF k(2,3), of "Suc c"] Suc.prems show ?thesis
      by (subst while_option_unfold) (use k c in \<open>auto simp: u8_counter [OF assms(1)] matching_step algebra_simps\<close>)
  next
    case miss
    with Suc.hyps(1) [OF k(2,3), of c] Suc.prems show ?thesis
      by (subst while_option_unfold) (use k in \<open>auto simp: u8_counter [OF assms(1)] matching_step algebra_simps\<close>)
  qed
qed

text \<open>With at most 255 devices the three lookups return and agree: \<open>GetPCIDeviceCount\<close> is the
  number of devices with the vendor and device asked for, \<open>GetPCIDeviceAtIndex\<close> gives the one
  with the index asked for, or \<open>NULL\<close> from the count on, and \<open>GetPCIDevice\<close> the first of them,
  or \<open>NULL\<close>. With 256 or more the count never returns.\<close>

theorem pci_lookups_agree:
  assumes "ms = filter (pci_match s) [0..<nat (total_pci_devices s)]"
  shows "if total_pci_devices s \<le> 255
    then map_option fst (GetPCIDeviceCount s) = Some (of_nat (length ms)) \<and>
      map_option fst (GetPCIDeviceAtIndex s) = Some (if unat (p_index s) < length ms then Some (ms ! unat (p_index s)) else None) \<and>
      map_option fst (GetPCIDevice s) = Some (if ms = [] then None else Some (hd ms))
    else GetPCIDeviceCount s = None"
proof (cases "total_pci_devices s \<le> 255")
  case True
  let ?N = "nat (total_pci_devices s)"
  have m: "matching s 0 = ms" by (simp add: matching_def assms)
  have index: "(if uint (of_nat r :: u8) < total_pci_devices s then Some (unat (of_nat r :: u8)) else None) =
      (if r < ?N then Some r else None)" if "r \<le> ?N" for r
    using u8_counter [OF True that] by simp
  have mem: "r < ?N" if "r \<in> set ms" for r using that by (simp add: assms)
  have "map_option fst (GetPCIDeviceCount s) = Some (of_nat (length ms))"
    using count_from [OF True, of 0 0] by (auto simp: GetPCIDeviceCount_def m)
  moreover have "map_option fst (GetPCIDeviceAtIndex s) =
      Some (if unat (p_index s) < length ms then Some (ms ! unat (p_index s)) else None)"
  proof -
    define r where "r = (if unat (p_index s) < length ms then ms ! unat (p_index s) else ?N)"
    have r: "r \<le> ?N" "r < ?N \<longleftrightarrow> unat (p_index s) < length ms"
      using mem [of "ms ! unat (p_index s)"] by (auto simp: r_def)
    have "map_option fst (GetPCIDeviceAtIndex s) =
        Some (if uint (of_nat r :: u8) < total_pci_devices s then Some (unat (of_nat r :: u8)) else None)"
      using at_index_from [OF True, of 0 0, unfolded m diff_zero, folded r_def] unfolding GetPCIDeviceAtIndex_def
      by (auto simp: Let_def)
    then show ?thesis unfolding index [OF r(1)] r(2)
      by (cases "unat (p_index s) < length ms") (simp_all add: r_def)
  qed
  moreover have "map_option fst (GetPCIDevice s) = Some (if ms = [] then None else Some (hd ms))"
  proof -
    define r where "r = (case ms of [] \<Rightarrow> ?N | m # _ \<Rightarrow> m)"
    have r: "r \<le> ?N" "r < ?N \<longleftrightarrow> ms \<noteq> []" using mem [of r] by (auto simp: r_def split: list.splits)
    have "map_option fst (GetPCIDevice s) =
        Some (if uint (of_nat r :: u8) < total_pci_devices s then Some (unat (of_nat r :: u8)) else None)"
      using first_from [OF True, of 0] unfolding GetPCIDevice_def m r_def [symmetric] by (simp add: Let_def)
    then show ?thesis unfolding index [OF r(1)] by (simp add: r(2)) (cases ms; simp add: r_def)
  qed
  ultimately show ?thesis using True by simp
next
  case False
  have "uint i < total_pci_devices s" for i :: u8
  proof -
    have "uint i < 2 ^ LENGTH(8)" by (rule unsigned_less)
    then show ?thesis using False by simp
  qed
  then show ?thesis using False by (simp add: GetPCIDeviceCount_def while_option_def case_prod_unfold)
qed

section \<open>Instances\<close>

text \<open>A bus with one device, the bridge at address 0.\<close>

definition bridge_config :: "u32 \<Rightarrow> u32" where
  "bridge_config a = (if a AND 0xFFFFFF00 = 0x80000000 then 0x12378086 else 0xFFFFFFFF)"

definition bridge_bus :: pci_bus where
  "bridge_bus io p = bridge_config (snd (last io))"

definition blank_pci_device :: PCIDevice where
  "blank_pci_device = \<lparr>hdr = replicate 32 0, pci_data = replicate 192 0, pbus = 0, pdevice = 0, pfunc = 0\<rparr>"

definition demo_pci :: PCIService where
  "demo_pci = \<lparr>pciDevices = replicate 256 blank_pci_device, total_pci_devices = 0, total_pci_devices2 = 0, p_vendor = 0,
     p_device_id = 0, p_index = 1, pciDevice_ptr = None, pci_count = 0\<rparr>"

lemma bridge_space: "conf_space bridge_bus bridge_config"
  by (simp add: conf_space_def bridge_bus_def)

lemma bridge_address: "pci_address b i j 0 AND 0xFFFFFF00 = 0x80000000 \<longleftrightarrow> b = 0 \<and> i = 0 \<and> j = 0"
proof
  assume e: "pci_address b i j 0 AND 0xFFFFFF00 = 0x80000000"
  have m: "(0xFFFFFF00 :: u32) = NOT (mask 8)" "(0x80000000 :: u32) = push_bit 31 1" by (simp_all add: mask_eq_exp_minus_1)
  have z: "\<not> bit (push_bit 16 (ucast b) OR push_bit 11 (ucast i) OR push_bit 8 (ucast j) :: u32) n" if "8 \<le> n" "n < 31" for n
  proof -
    have "bit (pci_address b i j 0 AND 0xFFFFFF00) n = bit (0x80000000 :: u32) n" by (simp only: e)
    then have "bit (pci_address b i j 0 AND NOT (mask 8)) n = bit (push_bit 31 1 :: u32) n" by (simp only: m)
    moreover have "bit (NOT (mask 8) :: u32) n" using that by (simp add: bit_simps)
    moreover have "\<not> bit (push_bit 31 1 :: u32) n" using that by (simp only: bit_push_bit_iff) simp
    ultimately have "\<not> bit (pci_address b i j 0) n" unfolding bit_and_iff by blast
    then show ?thesis unfolding pci_address_def bit_or_iff by blast
  qed
  note z' = z [unfolded bit_or_iff de_Morgan_disj]
  have "\<not> bit b n" if "n < 8" for n
    using z' [of "16 + n"] that by (simp add: bit_push_bit_iff bit_ucast_iff)
  moreover have "\<not> bit i n" if "n < 8" for n
    using z' [of "11 + n"] that by (simp add: bit_push_bit_iff bit_ucast_iff)
  moreover have "\<not> bit j n" if "n < 8" for n
    using z' [of "8 + n"] that by (simp add: bit_push_bit_iff bit_ucast_iff)
  ultimately have "b = 0" "i = 0" "j = 0" by (auto intro!: bit_word_eqI)
  then show "b = 0 \<and> i = 0 \<and> j = 0" by simp
next
  assume "b = 0 \<and> i = 0 \<and> j = 0"
  then show "pci_address b i j 0 AND 0xFFFFFF00 = 0x80000000" by (simp add: pci_address_def)
qed

lemma bridge_present: "filter (present bridge_config) pci_functions = [(0, 0, 0)]"
proof -
  have p: "present bridge_config f \<longleftrightarrow> f = (0, 0, 0)" if f: "f \<in> set pci_functions" for f
  proof -
    obtain b i j where f': "f = (b, i, j)" by (cases f)
    then have "b < 256" "i < 32" "j < 8"
      using f by (auto simp: pci_functions_def MAX_PCI_BUSES_def MAX_PCI_BUS_DEVICES_def MAX_PCI_DEVICE_FUNCTIONS_def
          simp del: upt_rec_numeral)
    then have "unat (of_nat b :: u8) = b" "unat (of_nat i :: u8) = i" "unat (of_nat j :: u8) = j"
      by (simp_all add: unat_of_nat_small)
    then have "(of_nat b :: u8) = 0 \<and> (of_nat i :: u8) = 0 \<and> (of_nat j :: u8) = 0 \<longleftrightarrow> f = (0, 0, 0)"
      unfolding word_unat_eq_iff f' by simp
    then show ?thesis by (simp add: f' present_def config_word_def bridge_config_def bridge_address)
  qed
  have "\<exists>fs. pci_functions = (0, 0, 0) # fs \<and> (0, 0, 0) \<notin> set fs"
  proof -
    have u: "[0..<n] = 0 # [Suc 0..<n]" if "0 < n" for n using that by (rule upt_conv_Cons)
    have "pci_functions \<noteq> []" "hd pci_functions = (0, 0, 0)"
      by (simp_all add: pci_functions_def MAX_PCI_BUSES_def MAX_PCI_BUS_DEVICES_def MAX_PCI_DEVICE_FUNCTIONS_def u
          del: upt_rec_numeral upt_Suc)
    moreover have "distinct pci_functions"
      unfolding pci_functions_def by (intro distinct_product distinct_upt)
    ultimately show ?thesis by (metis distinct.simps(2) list.collapse)
  qed
  then obtain fs where fs: "pci_functions = (0, 0, 0) # fs" "(0, 0, 0) \<notin> set fs" by blast
  have "filter (present bridge_config) fs = []"
    unfolding filter_empty_conv using p fs by (metis list.set_intros(2))
  moreover have "(0, 0, 0) \<in> set pci_functions" unfolding fs(1) by simp
  then have "present bridge_config (0, 0, 0)" by (simp only: p)
  ultimately show ?thesis unfolding fs(1) by simp
qed

theorem pci_inventory_complete_witness:
  "\<exists>s' io'. CollectHWInventory bridge_bus blank_pci_device demo_pci [] = Inr (s', io') \<and> total_pci_devices s' = 1 \<and>
    map describe_device (take 1 (pciDevices s')) = [entry_of bridge_config (0, 0, 0)]"
  using pci_inventory_complete [OF bridge_space, of demo_pci blank_pci_device "[(0, 0, 0)]" "[]"]
  by (simp add: bridge_present demo_pci_def blank_pci_device_def slots_ok_def)

theorem pci_lookups_agree_witness:
  "map_option fst (GetPCIDeviceAtIndex (demo_pci\<lparr>total_pci_devices := 3\<rparr>)) = Some (Some 1)"
  using pci_lookups_agree [OF refl, of "demo_pci\<lparr>total_pci_devices := 3\<rparr>"]
  by (simp add: demo_pci_def pci_match_def vend_id_def dev_id_def blank_pci_device_def upt_rec)

end
