(* ===== verification/ConsoleDevice.thy ===== *)
theory ConsoleDevice
  imports KMalloc Services
begin

text \<open>
  The text console: \<open>devices/console/Terminal.c\<close> (a scrolling buffer of character cells) and
  \<open>devices/console/Console.c\<close> (five terminals, one of them shown in video memory). A buffer
  pointer is the list of the cells it was allocated with; an access past its end is an error. The
  assembly routines \<open>memmove16\<close>, \<open>memset16\<close> and \<open>memcpy16\<close> move, clear and copy cells as
  their comments specify.
\<close>

section \<open>Terminals\<close>

definition COLOR_BLACK :: u8 where "COLOR_BLACK = 0"
definition COLOR_WHITE :: u8 where "COLOR_WHITE = 15"
definition DEFAULT_VIDEO_MAX_X :: nat where "DEFAULT_VIDEO_MAX_X = 80"
definition DEFAULT_VIDEO_MAX_Y :: nat where "DEFAULT_VIDEO_MAX_Y = 25"
definition DEFAULT_TERMINAL_Y_ROWS :: nat where "DEFAULT_TERMINAL_Y_ROWS = 50"

record Terminal =
  terminal_buffer :: "u16 list"
  terminal_buffer_size :: u32
  y_rows :: u16
  x_position :: u8
  y_position :: u8
  x_max :: u8
  y_max :: u8

text \<open>A character is a signed byte, so it is sign-extended before the colour is added.\<close>

definition cell :: "u8 \<Rightarrow> u8 \<Rightarrow> u8 \<Rightarrow> u16" where
  "cell ch bg fg = (scast ch :: u16) OR push_bit 8 (ucast fg OR push_bit 4 (ucast bg))"

definition terminal_putCharacterAt :: "Terminal \<Rightarrow> u8 \<Rightarrow> u8 \<Rightarrow> u8 \<Rightarrow> u8 \<Rightarrow> u8 \<Rightarrow> Terminal result" where
  "terminal_putCharacterAt t ch x y bg fg =
     and_then (arr_set (terminal_buffer t) (uint y * uint (x_max t) + uint x) (cell ch bg fg)) (\<lambda>b.
       Inr (t\<lparr>terminal_buffer := b\<rparr>))"

text \<open>The rows below the first move up by one and the last one is cleared. Without rows the number
  of cells to move is negative.\<close>

definition scroll :: "Terminal \<Rightarrow> Terminal result" where
  "scroll t =
     (let w = unat (x_max t); n = unat (y_rows t); b = terminal_buffer t
      in if n * w \<le> length b \<and> (1 \<le> n \<or> w = 0)
         then Inr (t\<lparr>terminal_buffer := drop w (take (n * w) b) @ replicate w 0 @ drop (n * w) b\<rparr>)
         else Inl Out_of_bounds)"

definition next_line :: "Terminal \<Rightarrow> Terminal result" where
  "next_line t =
     and_then (if uint (y_position t) < uint (y_rows t) - 1 then Inr (t\<lparr>y_position := y_position t + 1\<rparr>) else scroll t)
       (\<lambda>t. Inr (t\<lparr>x_position := 0\<rparr>))"

definition terminal_putCharacterAndAdvanceString :: "u8 \<Rightarrow> u8 \<Rightarrow> u8 \<Rightarrow> Terminal \<Rightarrow> Terminal result" where
  "terminal_putCharacterAndAdvanceString bg fg ch t =
     (if ch = 10 then next_line t
      else and_then (terminal_putCharacterAt t ch (x_position t) (y_position t) bg fg) (\<lambda>t.
        if x_position t < x_max t then Inr (t\<lparr>x_position := x_position t + 1\<rparr>) else next_line t))"

fun terminal_putString :: "u8 \<Rightarrow> u8 \<Rightarrow> u8 list \<Rightarrow> Terminal \<Rightarrow> Terminal result" where
  "terminal_putString bg fg [] t = Inr t"
| "terminal_putString bg fg (ch # s) t =
     and_then (terminal_putCharacterAndAdvanceString bg fg ch t) (terminal_putString bg fg s)"

text \<open>The characters of a hexadecimal number: \<open>shifts\<close> are the positions of its digits, highest
  first, and leading zeros are skipped.\<close>

fun hexa_digits :: "'a::len word \<Rightarrow> nat list \<Rightarrow> bool \<Rightarrow> u8 list" where
  "hexa_digits p [] no_zeros = []"
| "hexa_digits p (i # is) no_zeros =
     (let tmp = ucast (drop_bit i p AND 0xF) :: u8
      in if tmp = 0 \<and> no_zeros then hexa_digits p is no_zeros
         else if tmp \<ge> 0xA then (tmp - 0xA + of_char CHR ''a'') # hexa_digits p is False
         else (tmp + of_char CHR ''0'') # hexa_digits p is False)"

definition hexa_string :: "nat \<Rightarrow> 'a::len word \<Rightarrow> bool \<Rightarrow> u8 list" where
  "hexa_string hi p show_x =
     (if show_x then [of_char CHR ''0'', of_char CHR ''x''] else []) @
     (if p = 0 then [of_char CHR ''0'', of_char CHR ''0'']
      else hexa_digits p (map (\<lambda>k. 4 * k) (rev [0..<hi div 4 + 1])) True)"

definition terminal_putHexa :: "u64 \<Rightarrow> u8 \<Rightarrow> u8 \<Rightarrow> bool \<Rightarrow> Terminal \<Rightarrow> Terminal result" where
  "terminal_putHexa p_hexa bg fg show_x = terminal_putString bg fg (hexa_string 60 p_hexa show_x)"

definition terminal_putHexa128 :: "128 word \<Rightarrow> u8 \<Rightarrow> u8 \<Rightarrow> bool \<Rightarrow> Terminal \<Rightarrow> Terminal result" where
  "terminal_putHexa128 p_hexa bg fg show_x = terminal_putString bg fg (hexa_string 124 p_hexa show_x)"

definition terminal_setPosition :: "u8 \<Rightarrow> u8 \<Rightarrow> Terminal \<Rightarrow> Terminal" where
  "terminal_setPosition x y t = t\<lparr>x_position := x, y_position := y\<rparr>"

fun clear_cells :: "u8 \<Rightarrow> (nat \<times> nat) list \<Rightarrow> Terminal \<Rightarrow> Terminal result" where
  "clear_cells bg [] t = Inr t"
| "clear_cells bg ((y, x) # ps) t =
     and_then (terminal_putCharacterAt t 32 (of_nat x) (of_nat y) bg COLOR_WHITE) (clear_cells bg ps)"

definition terminal_clearScreen :: "u8 \<Rightarrow> Terminal \<Rightarrow> Terminal result" where
  "terminal_clearScreen bg t =
     and_then (clear_cells bg (List.product [0..<unat (y_max t)] [0..<unat (x_max t)]) t)
       (\<lambda>t. Inr (t\<lparr>x_position := 0, y_position := 0\<rparr>))"

definition terminal_initialize :: "Terminal \<Rightarrow> u16 list option \<Rightarrow> u8 \<Rightarrow> u8 \<Rightarrow> u16 \<Rightarrow> Terminal result" where
  "terminal_initialize t buf p_x_max p_y_max p_y_rows =
     (let t = t\<lparr>terminal_buffer_size := ucast p_x_max * ucast p_y_rows\<rparr>;
          t = (case buf of None \<Rightarrow> t | Some b \<Rightarrow> t\<lparr>terminal_buffer := b\<rparr>);
          t = t\<lparr>x_position := 0, y_position := 0, x_max := p_x_max, y_max := p_y_max, y_rows := p_y_rows\<rparr>
      in terminal_clearScreen COLOR_BLACK t)"

text \<open>The view port as an offset into the buffer.\<close>

definition terminal_getViewPort :: "Terminal \<Rightarrow> nat" where
  "terminal_getViewPort t =
     (if y_position t < y_max t then 0 else (unat (y_position t) - unat (y_max t)) * unat (x_max t))"

section \<open>The console\<close>

record con_params =
  p_background_color :: u8
  p_foreground_color :: u8
  p_hexa :: u64
  newIndex :: int
  p_string :: "u8 list"

record Console =
  video_buffer :: "u16 list"
  con_x_max :: u8
  con_y_max :: u8
  terminals :: "Terminal list"
  terminals_max_count :: u8
  terminals_current_count :: u8
  current_terminal_index :: u8
  con_params :: con_params

definition show_terminal :: "Terminal \<Rightarrow> Console \<Rightarrow> Console result" where
  "show_terminal t c =
     (let n = unat (con_x_max c) * unat (con_y_max c); off = terminal_getViewPort t
      in if off + n \<le> length (terminal_buffer t) \<and> n \<le> length (video_buffer c)
         then Inr (c\<lparr>video_buffer := take n (drop off (terminal_buffer t)) @ drop n (video_buffer c)\<rparr>)
         else Inl Out_of_bounds)"

text \<open>An operation on the terminal at an index, followed by a refresh of the screen if asked for.\<close>

definition on_terminal :: "int \<Rightarrow> bool \<Rightarrow> (Terminal \<Rightarrow> Terminal result) \<Rightarrow> Console \<Rightarrow> (bool \<times> Console) result" where
  "on_terminal i refresh f c =
     and_then (arr_get (terminals c) i) (\<lambda>t.
     and_then (f t) (\<lambda>t.
     and_then (arr_set (terminals c) i t) (\<lambda>ts.
     and_then (if refresh then show_terminal t (c\<lparr>terminals := ts\<rparr>) else Inr (c\<lparr>terminals := ts\<rparr>)) (\<lambda>c.
       Inr (True, c)))))"

abbreviation con_bg :: "Console \<Rightarrow> u8" where "con_bg c \<equiv> p_background_color (con_params c)"
abbreviation con_fg :: "Console \<Rightarrow> u8" where "con_fg c \<equiv> p_foreground_color (con_params c)"

definition console_addStringToCurrentTerminal :: "Console \<Rightarrow> (bool \<times> Console) result" where
  "console_addStringToCurrentTerminal c = on_terminal (uint (current_terminal_index c)) True
     (terminal_putString (con_bg c) (con_fg c) (p_string (con_params c))) c"

definition console_writeToTerminal :: "Console \<Rightarrow> (bool \<times> Console) result" where
  "console_writeToTerminal c = on_terminal (newIndex (con_params c)) False
     (terminal_putString (con_bg c) (con_fg c) (p_string (con_params c))) c"

definition console_switchTerminal :: "Console \<Rightarrow> (bool \<times> Console) result" where
  "console_switchTerminal c =
     (let i = newIndex (con_params c);
          c = c\<lparr>current_terminal_index := word_of_int (if i = 1 then 2 else i)\<rparr>
      in on_terminal (uint (current_terminal_index c)) True Inr c)"

definition console_addHexaToCurrentTerminal :: "Console \<Rightarrow> (bool \<times> Console) result" where
  "console_addHexaToCurrentTerminal c = on_terminal (uint (current_terminal_index c)) True
     (terminal_putHexa (p_hexa (con_params c)) (con_bg c) (con_fg c) True) c"

definition console_addHexa128ToCurrentTerminal :: "Console \<Rightarrow> (bool \<times> Console) result" where
  "console_addHexa128ToCurrentTerminal c = on_terminal (uint (current_terminal_index c)) True
     (terminal_putHexa128 (ucast (p_hexa (con_params c))) (con_bg c) (con_fg c) True) c"

definition console_clearScreen :: "Console \<Rightarrow> (bool \<times> Console) result" where
  "console_clearScreen c = on_terminal (uint (current_terminal_index c)) True (terminal_clearScreen COLOR_BLACK) c"

text \<open>\<open>raw i\<close> is the uninitialised terminal structure \<open>i\<close> and \<open>cells i\<close> what the memory of its
  buffer held. A pointer has 8 bytes, a terminal \<open>sz\<close>.\<close>

fun init_terminals :: "u32 \<Rightarrow> u64 \<Rightarrow> (nat \<Rightarrow> Terminal) \<Rightarrow> (nat \<Rightarrow> nat \<Rightarrow> u16) \<Rightarrow> nat list \<Rightarrow> u8 \<Rightarrow> u8 \<Rightarrow> MemoryAllocator \<Rightarrow>
    (Terminal list result \<times> MemoryAllocator) option" where
  "init_terminals self sz raw cells [] xm ym m = Some (Inr [], m)"
| "init_terminals self sz raw cells (i # is) xm ym m = do {
     (tp, m) \<leftarrow> kmalloc self m sz;
     (bp, m) \<leftarrow> kmalloc self m (of_nat (2 * DEFAULT_VIDEO_MAX_X * DEFAULT_VIDEO_MAX_Y));
     (ts, m) \<leftarrow> init_terminals self sz raw cells is xm ym m;
     Some (if tp = 0 \<or> bp = 0 then Inl Null_pointer
           else and_then (terminal_initialize (raw i) (Some (map (cells i) [0..<DEFAULT_VIDEO_MAX_X * DEFAULT_VIDEO_MAX_Y]))
                  xm ym (of_nat DEFAULT_TERMINAL_Y_ROWS)) (\<lambda>t.
                and_then ts (\<lambda>ts. Inr (t # ts))), m)
   }"

datatype con_method = addString_f | addHexa_f | addHexa128_f | switchTerminal_f | writeToTerminal_f | clearScreen_f

definition con_methods :: "(con_method \<times> int) list" where
  "con_methods = [(addString_f, 0), (addHexa_f, 1), (addHexa128_f, 2), (switchTerminal_f, 3), (writeToTerminal_f, 4),
     (clearScreen_f, 5)]"

definition console_preInialize :: "u32 \<Rightarrow> u64 \<Rightarrow> (nat \<Rightarrow> Terminal) \<Rightarrow> (nat \<Rightarrow> nat \<Rightarrow> u16) \<Rightarrow> Console \<Rightarrow> con_method Service \<Rightarrow>
    MemoryAllocator \<Rightarrow> ((bool \<times> Console \<times> con_method Service) result \<times> MemoryAllocator) option" where
  "console_preInialize self sz raw cells c srv m = do {
     let c = c\<lparr>con_x_max := of_nat DEFAULT_VIDEO_MAX_X, con_y_max := of_nat DEFAULT_VIDEO_MAX_Y, terminals_max_count := 5,
       terminals_current_count := 5, current_terminal_index := 0\<rparr>;
     (p, m) \<leftarrow> kmalloc self m (8 * 5);
     (q, m) \<leftarrow> kmalloc self m (8 * 5);
     (ts, m) \<leftarrow> init_terminals self sz raw cells [0..<5] (con_x_max c) (con_y_max c) m;
     Some (if p = 0 \<or> q = 0 then Inl Null_pointer
           else and_then ts (\<lambda>ts. and_then (call_add_services srv con_methods) (\<lambda>srv.
             Inr (True, c\<lparr>terminals := ts\<rparr>, srv))), m)
   }"

section \<open>The cursor stays inside\<close>

text \<open>The cursor may stand one column right of the last one, so the last row needs one cell more
  than it has columns.\<close>

definition term_ok :: "Terminal \<Rightarrow> bool" where
  "term_ok t \<longleftrightarrow> 1 \<le> unat (y_rows t) \<and> unat (y_rows t) \<le> 256 \<and> x_position t \<le> x_max t \<and>
     unat (y_position t) < unat (y_rows t) \<and> unat (y_rows t) * unat (x_max t) < length (terminal_buffer t)"

lemma cursor_cell:
  assumes "term_ok t"
  shows "unat (y_position t) * unat (x_max t) + unat (x_position t) < length (terminal_buffer t)"
proof -
  from assms have "Suc (unat (y_position t)) * unat (x_max t) \<le> unat (y_rows t) * unat (x_max t)"
    by (intro mult_right_mono) (auto simp: term_ok_def)
  moreover have "unat (x_position t) \<le> unat (x_max t)" using assms by (simp add: term_ok_def word_le_nat_alt)
  ultimately show ?thesis using assms by (simp add: term_ok_def)
qed

lemma put_at_cursor:
  assumes "term_ok t"
  shows "terminal_putCharacterAt t ch (x_position t) (y_position t) bg fg =
    Inr (t\<lparr>terminal_buffer := (terminal_buffer t)[unat (y_position t) * unat (x_max t) + unat (x_position t) := cell ch bg fg]\<rparr>)"
proof -
  have e: "uint (y_position t) * uint (x_max t) + uint (x_position t) =
      int (unat (y_position t) * unat (x_max t) + unat (x_position t))" by simp
  show ?thesis
    unfolding terminal_putCharacterAt_def e arr_set_nat [OF cursor_cell [OF assms]] by simp
qed

lemma scroll_ok:
  assumes "term_ok t"
  shows "\<exists>b. scroll t = Inr (t\<lparr>terminal_buffer := b\<rparr>) \<and> length b = length (terminal_buffer t)"
proof -
  have "unat (x_max t) \<le> unat (y_rows t) * unat (x_max t)" using assms by (simp add: term_ok_def)
  then show ?thesis using assms by (auto simp: scroll_def term_ok_def Let_def)
qed

lemma next_line_ok:
  assumes "term_ok t"
  shows "\<exists>t'. next_line t = Inr t' \<and> term_ok t'"
proof (cases "uint (y_position t) < uint (y_rows t) - 1")
  case True
  then have "int (unat (y_position t)) < int (unat (y_rows t)) - 1" by simp
  then have "unat (y_position t) + 1 < unat (y_rows t)" by linarith
  moreover from this assms have "unat (y_position t) + 1 < 256" by (simp add: term_ok_def)
  then have "unat (y_position t + 1) = unat (y_position t) + 1"
    using unat_add_no_wrap [of "y_position t" 1] by simp
  ultimately show ?thesis using True assms by (auto simp: next_line_def term_ok_def)
next
  case False
  then show ?thesis using scroll_ok [OF assms] assms by (auto simp: next_line_def term_ok_def)
qed

lemma put_character_ok:
  assumes "term_ok t"
  shows "\<exists>t'. terminal_putCharacterAndAdvanceString bg fg ch t = Inr t' \<and> term_ok t'"
proof (cases "ch = 10")
  case True
  then show ?thesis using next_line_ok [OF assms] by (simp add: terminal_putCharacterAndAdvanceString_def)
next
  case False
  let ?t = "t\<lparr>terminal_buffer := (terminal_buffer t)[unat (y_position t) * unat (x_max t) + unat (x_position t) := cell ch bg fg]\<rparr>"
  have ok: "term_ok ?t" using assms by (simp add: term_ok_def)
  have "term_ok (?t\<lparr>x_position := x_position t + 1\<rparr>)" if "x_position t < x_max t"
    using ok that by (simp add: term_ok_def inc_le)
  then show ?thesis
    using False next_line_ok [OF ok] by (simp add: terminal_putCharacterAndAdvanceString_def put_at_cursor [OF assms])
qed

lemma put_string_ok: "term_ok t \<Longrightarrow> \<exists>t'. terminal_putString bg fg s t = Inr t' \<and> term_ok t'"
proof (induction s arbitrary: t)
  case (Cons ch s)
  then show ?case using put_character_ok [OF Cons.prems, of bg fg ch] by fastforce
qed simp

section \<open>Hexadecimal numbers\<close>

definition hex_value_of :: "u8 \<Rightarrow> nat" where
  "hex_value_of c = (if c \<ge> of_char CHR ''a'' then unat c - 87 else unat c - 48)"

definition read_hex :: "nat \<Rightarrow> u8 list \<Rightarrow> nat" where
  "read_hex = foldl (\<lambda>v c. 16 * v + hex_value_of c)"

lemma nibble_values:
  fixes d :: u8
  assumes "d < 16"
  shows "d \<ge> 0xA \<Longrightarrow> hex_value_of (d - 0xA + of_char CHR ''a'') = unat d"
    and "\<not> d \<ge> 0xA \<Longrightarrow> hex_value_of (d + of_char CHR ''0'') = unat d"
proof -
  have "d \<in> set (map of_nat [0..<16])"
  proof -
    have "unat d < 16" using assms by (simp add: word_less_nat_alt)
    moreover have "d = of_nat (unat d)" by simp
    ultimately show ?thesis by (auto intro!: image_eqI [of _ _ "unat d"])
  qed
  moreover have "\<forall>d \<in> set (map of_nat [0..<16] :: u8 list).
     (d \<ge> 0xA \<longrightarrow> hex_value_of (d - 0xA + of_char CHR ''a'') = unat d) \<and>
     (\<not> d \<ge> 0xA \<longrightarrow> hex_value_of (d + of_char CHR ''0'') = unat d)"
    unfolding hex_value_of_def by code_simp
  ultimately show "d \<ge> 0xA \<Longrightarrow> hex_value_of (d - 0xA + of_char CHR ''a'') = unat d"
    and "\<not> d \<ge> 0xA \<Longrightarrow> hex_value_of (d + of_char CHR ''0'') = unat d" by blast+
qed

lemma nibble:
  fixes p :: "'a::len word"
  shows "unat (ucast (drop_bit i p AND 0xF) :: u8) = unat p div 2 ^ i mod 16"
proof -
  have m: "(0xF :: 'a word) = mask 4" by (simp add: mask_eq_exp_minus_1)
  have "unat (drop_bit i p) = unat p div 2 ^ i"
    by (simp add: unsigned_drop_bit_eq drop_bit_eq_div [where 'a = nat] take_bit_nat_eq_self)
  then have "unat (drop_bit i p AND 0xF) = unat p div 2 ^ i mod 16"
    by (simp add: m unat_and_mask)
  moreover from this have "unat (drop_bit i p AND 0xF) < 256" by simp
  ultimately show ?thesis by (simp add: unsigned_ucast_eq take_bit_nat_eq_self)
qed

lemma mod_top_digit: "x mod 16 ^ Suc k = x div 16 ^ k mod 16 * 16 ^ k + x mod (16 ^ k :: nat)"
  by (metis mod_mult2_eq mult.commute power_Suc2)

text \<open>Reading the digits below position \<open>k\<close> after a value \<open>v\<close>. Skipped zeros do not matter
  while the value is still zero.\<close>

lemma read_digits:
  fixes p :: "'a::len word"
  shows "nz \<longrightarrow> v = 0 \<Longrightarrow>
    read_hex v (hexa_digits p (map (\<lambda>k. 4 * k) (rev [0..<k])) nz) = v * 16 ^ k + unat p mod 16 ^ k"
proof (induction k arbitrary: v nz)
  case 0
  then show ?case by (simp add: read_hex_def)
next
  case (Suc k)
  let ?d = "ucast (drop_bit (4 * k) p AND 0xF) :: u8"
  have "(2 :: nat) ^ (4 * k) = 16 ^ k" by (simp add: power_mult)
  then have d: "unat ?d = unat p div 16 ^ k mod 16" using nibble [of "4 * k" p] by simp
  then have "?d < 16" by (simp add: word_less_nat_alt)
  note val = nibble_values [OF this]
  have step: "read_hex v (c # cs) = read_hex (16 * v + hex_value_of c) cs" for c cs by (simp add: read_hex_def)
  show ?case
  proof (cases "?d = 0 \<and> nz")
    case True
    then have "unat p div 16 ^ k mod 16 = 0" "v = 0" using d Suc.prems by auto
    then show ?thesis using True Suc.IH [of nz 0] by (simp add: mod_top_digit del: power_Suc)
  next
    case False
    have "(16 * v + unat ?d) * 16 ^ k + unat p mod 16 ^ k = v * 16 ^ Suc k + unat p mod 16 ^ Suc k"
      unfolding d mod_top_digit [of "unat p"] by (simp add: algebra_simps)
    then show ?thesis using False Suc.IH [of False "16 * v + unat ?d"] val
      by (auto simp: Let_def step simp del: power_Suc)
  qed
qed

lemma hexa_digits_head: "hexa_digits p is True \<noteq> [] \<Longrightarrow> hd (hexa_digits p is True) \<noteq> of_char CHR ''0''"
proof (induction "is")
  case (Cons i "is")
  let ?d = "ucast (drop_bit i p AND 0xF) :: u8"
  have "?d < 16" using nibble [of i p] by (simp add: word_less_nat_alt)
  note val = nibble_values [OF this]
  show ?case
  proof (cases "?d = 0")
    case True
    then show ?thesis using Cons by simp
  next
    case False
    then have "unat ?d \<noteq> 0" by (simp add: unat_eq_0)
    moreover have "hex_value_of (of_char CHR ''0'') = 0" by (simp add: hex_value_of_def)
    ultimately have "?d \<ge> 0xA \<Longrightarrow> ?d - 0xA + of_char CHR ''a'' \<noteq> of_char CHR ''0''"
      and "\<not> ?d \<ge> 0xA \<Longrightarrow> ?d + of_char CHR ''0'' \<noteq> of_char CHR ''0''"
      using val by metis+
    then show ?thesis using False by (simp add: Let_def)
  qed
qed simp

section \<open>Terminals of the console\<close>

lemma put_string_append:
  "terminal_putString bg fg (s @ s') t = and_then (terminal_putString bg fg s t) (terminal_putString bg fg s')"
  by (induction s arbitrary: t) (simp_all add: and_then_def split: sum.splits)

definition same_shape :: "Terminal \<Rightarrow> Terminal \<Rightarrow> bool" where
  "same_shape t t' \<longleftrightarrow> length (terminal_buffer t') = length (terminal_buffer t) \<and> x_max t' = x_max t \<and> y_max t' = y_max t \<and>
     y_rows t' = y_rows t"

lemma clear_cells_shape: "clear_cells bg ps t = Inr t' \<Longrightarrow> same_shape t t'"
proof (induction ps arbitrary: t)
  case Nil
  then show ?case by (simp add: same_shape_def)
next
  case (Cons p ps)
  obtain y x where p: "p = (y, x)" by (cases p)
  from Cons.prems obtain t1 where "terminal_putCharacterAt t 32 (of_nat x) (of_nat y) bg COLOR_WHITE = Inr t1"
    "clear_cells bg ps t1 = Inr t'" by (auto simp: p and_then_eq_Inr)
  moreover from this(1) have "same_shape t t1"
    by (auto simp: terminal_putCharacterAt_def and_then_eq_Inr arr_set_def same_shape_def split: if_splits)
  ultimately show ?case using Cons.IH [of t1] by (simp add: same_shape_def)
qed

definition fresh_terminal :: "Terminal \<Rightarrow> bool" where
  "fresh_terminal t \<longleftrightarrow> length (terminal_buffer t) = 2000 \<and> x_max t = 80 \<and> y_max t = 25 \<and> y_rows t = 50 \<and>
     x_position t = 0 \<and> y_position t = 0"

lemma terminal_initialize_fresh:
  assumes "terminal_initialize t (Some b) 80 25 50 = Inr t'" "length b = 2000"
  shows "fresh_terminal t'"
  using assms
  by (auto simp: terminal_initialize_def terminal_clearScreen_def and_then_eq_Inr fresh_terminal_def same_shape_def Let_def
      dest!: clear_cells_shape)

lemma init_terminals_fresh:
  "init_terminals self sz raw cells is 80 25 m = Some (Inr ts, m') \<Longrightarrow> \<forall>t\<in>set ts. fresh_terminal t"
proof (induction "is" arbitrary: m m' ts)
  case (Cons i "is")
  from Cons.prems obtain m1 m2 t ts' where
    "terminal_initialize (raw i) (Some (map (cells i) [0..<2000])) 80 25 50 = Inr t"
    "init_terminals self sz raw cells is 80 25 m1 = Some (Inr ts', m2)" "ts = t # ts'"
    by (auto simp: DEFAULT_VIDEO_MAX_X_def DEFAULT_VIDEO_MAX_Y_def DEFAULT_TERMINAL_Y_ROWS_def and_then_eq_Inr
        simp del: upt_rec_numeral split: Option.bind_splits prod.splits if_splits)
  then show ?case using Cons.IH terminal_initialize_fresh by fastforce
qed simp

lemma put_newlines:
  assumes "y_position t = 0" "y_rows t = 50" "n < 49"
  shows "terminal_putString bg fg (replicate (Suc n) 10) t = Inr (t\<lparr>y_position := of_nat (Suc n), x_position := 0\<rparr>)"
  using assms(3)
proof (induction n)
  case 0
  then show ?case using assms by (simp add: terminal_putCharacterAndAdvanceString_def next_line_def)
next
  case (Suc n)
  then have "uint (of_nat (Suc n) :: u8) = int (Suc n)" by (simp add: unsigned_of_nat take_bit_nat_eq_self del: of_nat_Suc)
  then have "terminal_putString bg fg [10] (t\<lparr>y_position := of_nat (Suc n), x_position := 0\<rparr>) =
      Inr (t\<lparr>y_position := of_nat (Suc (Suc n)), x_position := 0\<rparr>)"
    using assms Suc.prems by (simp add: terminal_putCharacterAndAdvanceString_def next_line_def)
  moreover have "replicate (Suc (Suc n)) (10 :: u8) = replicate (Suc n) 10 @ [10]"
    by (simp add: replicate_append_same)
  ultimately show ?case using Suc by (simp add: put_string_append del: replicate_Suc terminal_putString.simps of_nat_Suc)
qed

section \<open>Properties\<close>

text \<open>In a buffer of at least one cell more than its rows have, printing any text never writes
  outside the buffer, returns, and keeps the cursor inside the terminal.\<close>

theorem terminal_stays_inside:
  assumes "term_ok t"
  shows "\<exists>t'. terminal_putString bg fg s t = Inr t' \<and> term_ok t' \<and>
    unat (y_position t') * unat (x_max t') + unat (x_position t') < length (terminal_buffer t')"
  using put_string_ok [OF assms, of bg fg s] cursor_cell by blast

text \<open>The buffers the console gives its terminals have 25 rows, but the terminals are told that
  they have 50: on every terminal of a console that has just been initialised, a printable character
  after 25 line ends is written past the end of the buffer.\<close>

theorem console_overruns_buffer:
  assumes "console_preInialize self sz raw cells c0 srv m = Some (Inr (r, c, srv'), m')"
    and "t \<in> set (terminals c)" "ch \<noteq> 10"
  shows "terminal_putString bg fg (replicate 25 10 @ ch # s) t = Inl Out_of_bounds"
proof -
  obtain ts ma mb where ts: "init_terminals self sz raw cells [0..<5] 80 25 ma = Some (Inr ts, mb)" "terminals c = ts"
    using assms(1)
    by (auto simp: console_preInialize_def DEFAULT_VIDEO_MAX_X_def DEFAULT_VIDEO_MAX_Y_def and_then_eq_Inr Let_def
        split: Option.bind_splits prod.splits if_splits)
  then have t: "fresh_terminal t" using init_terminals_fresh [OF ts(1)] assms(2) by simp
  let ?t = "t\<lparr>y_position := 25, x_position := 0\<rparr>"
  have "terminal_putString bg fg (replicate 25 10) t = Inr ?t"
    using put_newlines [of t 24 bg fg] t by (simp add: fresh_terminal_def numeral_eq_Suc)
  moreover have "terminal_putString bg fg (ch # s) ?t = Inl Out_of_bounds"
    using t assms(3)
    by (simp add: fresh_terminal_def terminal_putCharacterAndAdvanceString_def terminal_putCharacterAt_def arr_set_def
        in_array_def)
  ultimately show ?thesis by (simp add: put_string_append)
qed

text \<open>What \<open>terminal_putHexa\<close> prints of a number that is not zero reads back as the number
  and has no leading zero.\<close>

theorem put_hexa_reads_back:
  fixes p :: u64
  assumes "p \<noteq> 0"
  shows "\<exists>ds. terminal_putHexa p bg fg True = terminal_putString bg fg (of_char CHR ''0'' # of_char CHR ''x'' # ds) \<and>
    read_hex 0 ds = unat p \<and> ds \<noteq> [] \<and> hd ds \<noteq> of_char CHR ''0''"
proof -
  let ?ds = "hexa_digits p (map (\<lambda>k. 4 * k) (rev [0..<16])) True"
  have "unat p < 2 ^ LENGTH(64)" by (rule unsigned_less)
  then have r: "read_hex 0 ?ds = unat p" using read_digits [of True 0 p 16] by simp
  moreover have "?ds \<noteq> []" using r assms by (auto simp: read_hex_def unat_eq_0)
  moreover have "hexa_string 60 p True = of_char CHR ''0'' # of_char CHR ''x'' # ?ds"
    using assms by (simp add: hexa_string_def del: upt_rec_numeral upt_Suc)
  ultimately show ?thesis
    using hexa_digits_head [of p] by (intro exI [of _ ?ds]) (simp add: terminal_putHexa_def del: upt_rec_numeral upt_Suc)
qed

definition demo_terminal :: "nat \<Rightarrow> Terminal" where
  "demo_terminal n = \<lparr>terminal_buffer = replicate n 0, terminal_buffer_size = 4000, y_rows = 50, x_position = 0,
     y_position = 25, x_max = 80, y_max = 25\<rparr>"

theorem terminal_stays_inside_witness:
  "\<exists>t'. terminal_putString 0 15 [72, 105, 10] (demo_terminal 4001) = Inr t' \<and> term_ok t' \<and>
    unat (y_position t') * unat (x_max t') + unat (x_position t') < length (terminal_buffer t')"
  by (rule terminal_stays_inside) (simp add: term_ok_def demo_terminal_def)

lemma clear_cells_ok:
  "x_max t = 80 \<Longrightarrow> length (terminal_buffer t) = 2000 \<Longrightarrow> \<forall>(y, x)\<in>set ps. y < 25 \<and> x < 80 \<Longrightarrow> \<exists>t'. clear_cells bg ps t = Inr t'"
proof (induction ps arbitrary: t)
  case (Cons p ps)
  obtain y x where p: "p = (y, x)" by (cases p)
  then have y: "y < 25" "x < 80" using Cons.prems(3) by auto
  then have "uint (of_nat y :: u8) = int y" "uint (of_nat x :: u8) = int x"
    by (simp_all add: unsigned_of_nat take_bit_nat_eq_self)
  then have e: "uint (of_nat y :: u8) * uint (x_max t) + uint (of_nat x :: u8) = int (y * 80 + x)"
    using Cons.prems(1) by simp
  have l: "y * 80 + x < length (terminal_buffer t)" using y Cons.prems(2) by simp
  have "\<exists>b. terminal_putCharacterAt t 32 (of_nat x) (of_nat y) bg COLOR_WHITE = Inr (t\<lparr>terminal_buffer := b\<rparr>) \<and>
      length b = 2000"
    unfolding terminal_putCharacterAt_def e arr_set_nat [OF l]
    by (rule exI [of _ "(terminal_buffer t)[y * 80 + x := cell 32 bg COLOR_WHITE]"]) (simp add: Cons.prems(2))
  then show ?case using Cons p by fastforce
qed simp

lemma terminal_initialize_ok: "length b = 2000 \<Longrightarrow> \<exists>t'. terminal_initialize t (Some b) 80 25 50 = Inr t'"
proof -
  assume b: "length b = 2000"
  let ?t = "t\<lparr>terminal_buffer_size := 4000, terminal_buffer := b, x_position := 0, y_position := 0, x_max := 80, y_max := 25,
    y_rows := 50\<rparr>"
  have "\<exists>t'. clear_cells 0 (List.product [0..<25] [0..<80]) ?t = Inr t'"
    by (rule clear_cells_ok) (auto simp: b simp del: upt_rec_numeral)
  then show ?thesis
    by (auto simp: terminal_initialize_def terminal_clearScreen_def COLOR_BLACK_def Let_def simp del: upt_rec_numeral)
qed

definition demo_console :: Console where
  "demo_console = \<lparr>video_buffer = replicate 2000 0, con_x_max = 0, con_y_max = 0, terminals = [], terminals_max_count = 0,
     terminals_current_count = 0, current_terminal_index = 0,
     con_params = \<lparr>p_background_color = 0, p_foreground_color = 15, p_hexa = 0, newIndex = 0, p_string = []\<rparr>\<rparr>"

definition demo_con_service :: "con_method Service" where
  "demo_con_service = \<lparr>service_data = 0, service_method = replicate 255 None, parserMethod = None, testMethod = [],
     service_name = console_t, service_method_count = 0, serviceString = [], add_service_hook = True,
     add_serviceTest_hook = False, serviceTestParameterDescription_hook = False\<rparr>"

lemma kmalloc_grants:
  assumes "lock_free (spinlock m)" "0 < unat (kernel_memory_current_address m)"
    and "unat (kernel_memory_current_address m) + unat n < unat (kernel_memory_end_address m)"
  shows "kmalloc self m n = Some (kernel_memory_current_address m,
      m\<lparr>kernel_memory_current_address := kernel_memory_current_address m + n\<rparr>)"
    and "kernel_memory_current_address m \<noteq> 0"
    and "unat (kernel_memory_current_address m + n) = unat (kernel_memory_current_address m) + unat n"
proof -
  have "unat (kernel_memory_end_address m) < 2 ^ LENGTH(64)" by (rule unsigned_less)
  with assms(3) show s: "unat (kernel_memory_current_address m + n) = unat (kernel_memory_current_address m) + unat n"
    by (intro unat_add_no_wrap) simp
  then show "kmalloc self m n = Some (kernel_memory_current_address m,
      m\<lparr>kernel_memory_current_address := kernel_memory_current_address m + n\<rparr>)"
    using assms by (simp add: kmalloc_free word_less_nat_alt)
  show "kernel_memory_current_address m \<noteq> 0" using assms(2) by auto
qed

lemma init_terminals_ok:
  assumes "lock_free (spinlock m)" "0 < unat (kernel_memory_current_address m)"
    and "unat (kernel_memory_current_address m) + length is * 5000 < unat (kernel_memory_end_address m)"
  shows "\<exists>ts m'. length ts = length is \<and> init_terminals self 32 raw cells is 80 25 m = Some (Inr ts, m')"
  using assms
proof (induction "is" arbitrary: m)
  case (Cons i "is")
  let ?m1 = "m\<lparr>kernel_memory_current_address := kernel_memory_current_address m + 32\<rparr>"
  let ?m2 = "?m1\<lparr>kernel_memory_current_address := kernel_memory_current_address m + 32 + 4000\<rparr>"
  note k1 = kmalloc_grants [of m 32, OF Cons.prems(1,2)]
  note k2 = kmalloc_grants [of ?m1 4000]
  have b: "unat (kernel_memory_current_address m) + 5000 + length is * 5000 < unat (kernel_memory_end_address m)"
    using Cons.prems(3) by simp
  obtain ts m' where "length ts = length is" "init_terminals self 32 raw cells is 80 25 ?m2 = Some (Inr ts, m')"
    using Cons.IH [of ?m2] Cons.prems k1(3) k2(3) b by auto
  moreover obtain t' where "terminal_initialize (raw i) (Some (map (cells i) [0..<2000])) 80 25 50 = Inr t'"
    using terminal_initialize_ok [of "map (cells i) [0..<2000]" "raw i"] by (auto simp del: upt_rec_numeral)
  ultimately show ?case
    using k1 k2 b Cons.prems
    by (intro exI [of _ "t' # ts"] exI [of _ m']) (simp add: DEFAULT_VIDEO_MAX_X_def DEFAULT_VIDEO_MAX_Y_def
        DEFAULT_TERMINAL_Y_ROWS_def del: upt_rec_numeral)
qed simp

lemma demo_console_ok:
  "\<exists>c srv m. console_preInialize 0 32 demo_terminal (\<lambda>_ _. 0) demo_console demo_con_service demo_allocator =
      Some (Inr (True, c, srv), m) \<and> length (terminals c) = 5"
proof -
  let ?m = "demo_allocator\<lparr>kernel_memory_current_address := 0x2E00060\<rparr>"
  have k: "kmalloc 0 demo_allocator 40 = Some (0x2E00010, demo_allocator\<lparr>kernel_memory_current_address := 0x2E00038\<rparr>)"
    "kmalloc 0 (demo_allocator\<lparr>kernel_memory_current_address := 0x2E00038\<rparr>) 40 = Some (0x2E00038, ?m)"
    by code_simp+
  obtain ts m' where "length ts = 5" "init_terminals 0 32 demo_terminal (\<lambda>_ _. 0) [0..<5] 80 25 ?m = Some (Inr ts, m')"
    using init_terminals_ok [of ?m "[0..<5]" 0 demo_terminal "\<lambda>_ _. 0"]
    by (auto simp: demo_allocator_def lock_free_def)
  moreover obtain srv where "call_add_services demo_con_service con_methods = Inr srv"
    using add_services_ok [of demo_con_service con_methods]
    by (auto simp: call_add_services_def demo_con_service_def con_methods_def)
  ultimately show ?thesis
    by (simp add: console_preInialize_def k DEFAULT_VIDEO_MAX_X_def DEFAULT_VIDEO_MAX_Y_def Let_def)
qed

theorem console_overruns_buffer_witness:
  "\<exists>c srv m. console_preInialize 0 32 demo_terminal (\<lambda>_ _. 0) demo_console demo_con_service demo_allocator =
      Some (Inr (True, c, srv), m) \<and>
    terminal_putString 0 15 (replicate 25 10 @ [72]) (terminals c ! 0) = Inl Out_of_bounds"
proof -
  obtain c srv m where c: "console_preInialize 0 32 demo_terminal (\<lambda>_ _. 0) demo_console demo_con_service demo_allocator =
      Some (Inr (True, c, srv), m)" "length (terminals c) = 5" using demo_console_ok by blast
  from console_overruns_buffer [OF c(1), of "terminals c ! 0" 72 0 15 "[]"] c show ?thesis by auto
qed

theorem put_hexa_reads_back_witness:
  "\<exists>ds. terminal_putHexa 0xB8000 0 15 True = terminal_putString 0 15 (of_char CHR ''0'' # of_char CHR ''x'' # ds) \<and>
    read_hex 0 ds = unat (0xB8000 :: u64) \<and> ds \<noteq> [] \<and> hd ds \<noteq> of_char CHR ''0''"
  by (rule put_hexa_reads_back) simp

end
