(* ===== verification/E1000.thy ===== *)
theory E1000
  imports Interrupts Pci PageTables
begin

text \<open>
  The network card driver (\<open>devices/network/E1000.c\<close>). The card and the driver share registers,
  two rings of descriptors and the packet buffers. Every access of the driver, register or
  descriptor, is an event of a trace; after each one the card may change the shared memory, and what
  it changes, like the value of a register read, is a function of the trace. So a theorem that does
  not restrict these functions holds for every behaviour of the card. A descriptor is addressed by
  its pointer. Writing to the console is not part of the model.
\<close>

section \<open>Constants\<close>

definition E1000_NUM_RX_DESC :: nat where "E1000_NUM_RX_DESC = 32"
definition E1000_NUM_TX_DESC :: nat where "E1000_NUM_TX_DESC = 8"
definition RX_PACKET_SIZE :: u64 where "RX_PACKET_SIZE = 1600"
definition INTEL_VEND :: u16 where "INTEL_VEND = 0x8086"
definition e1000_models :: "u16 list" where "e1000_models = [0x100E, 0x153A, 0x10EA, 0x100F, 0x1004]"

definition REG_CTRL :: u16 where "REG_CTRL = 0x0000"
definition REG_STATUS :: u16 where "REG_STATUS = 0x0008"
definition REG_EEPROM :: u16 where "REG_EEPROM = 0x0014"
definition REG_ICR :: u16 where "REG_ICR = 0x00C0"
definition REG_IMASK :: u16 where "REG_IMASK = 0x00D0"
definition REG_RCTRL :: u16 where "REG_RCTRL = 0x0100"
definition REG_RXDESCLO :: u16 where "REG_RXDESCLO = 0x2800"
definition REG_RXDESCHI :: u16 where "REG_RXDESCHI = 0x2804"
definition REG_RXDESCLEN :: u16 where "REG_RXDESCLEN = 0x2808"
definition REG_RXDESCHEAD :: u16 where "REG_RXDESCHEAD = 0x2810"
definition REG_RXDESCTAIL :: u16 where "REG_RXDESCTAIL = 0x2818"
definition REG_TCTRL :: u16 where "REG_TCTRL = 0x0400"
definition REG_TXDESCLO :: u16 where "REG_TXDESCLO = 0x3800"
definition REG_TXDESCHI :: u16 where "REG_TXDESCHI = 0x3804"
definition REG_TXDESCLEN :: u16 where "REG_TXDESCLEN = 0x3808"
definition REG_TXDESCHEAD :: u16 where "REG_TXDESCHEAD = 0x3810"
definition REG_TXDESCTAIL :: u16 where "REG_TXDESCTAIL = 0x3818"
definition REG_TIPG :: u16 where "REG_TIPG = 0x0410"

text \<open>\<open>ECTRL_SLU | ECTRL_ASDE | ECTRL_FD | ECTRL_100M | ECTRL_FRCSPD\<close>, the receive control word, the
  command of a transmit descriptor and its \<open>TSTA_DD\<close>.\<close>

definition link_flags :: u32 where "link_flags = 0x40 OR 0x20 OR 0x01 OR 0x100 OR 0x800"
definition RCTL_EN :: u32 where "RCTL_EN = 0x2"
definition receive_flags :: u32 where
  "receive_flags = RCTL_EN OR 0x4 OR 0x8 OR 0x10 OR 0 OR 0 OR 0x8000 OR 0x4000000 OR (0x20000 OR 0x2000000)"
definition send_command :: u8 where "send_command = 0x1 OR 0x2 OR 0x8 OR 0x10"
definition E1000_TYPE :: u8 where "E1000_TYPE = 0x45"
definition TSTA_DD :: u8 where "TSTA_DD = 1"

section \<open>State\<close>

record e1000_rx_desc =
  rx_addr :: u64
  rx_length :: u16
  rx_checksum :: u16
  rx_status :: u8
  rx_errors :: u8
  rx_special :: u16

record e1000_tx_desc =
  tx_addr :: u64
  tx_length :: u16
  tx_cso :: u8
  tx_cmd :: u8
  tx_status :: u8
  tx_css :: u8
  tx_special :: u16

record E1000 =
  bar_type :: u8
  io_base :: u16
  mem_base :: u64
  eerprom_exists :: bool
  e_mac :: "u8 list"
  mac_str :: "u8 list"
  rx_vaddr :: "u64 list"
  rx_descs :: "u64 list"
  tx_descs :: "u64 list"
  rx_cur :: u16
  tx_cur :: u16
  e_lock :: spinlock_t
  int_line :: u8

text \<open>An access of the driver. A store of a descriptor field records the whole descriptor after it.\<close>

datatype nic_access = Mmio_write u64 u32 | Mmio_read u64 | Mmio_read8 u64 | Port_write u16 u32 | Port_read u16
  | Tx_store u64 e1000_tx_desc | Tx_poll u64 | Rx_store u64 e1000_rx_desc | Rx_poll u64

record nic =
  nic_trace :: "nic_access list"
  rx_ring :: "u64 \<Rightarrow> e1000_rx_desc"
  tx_ring :: "u64 \<Rightarrow> e1000_tx_desc"
  frames :: "u64 \<Rightarrow> EthernetPacket"

text \<open>The surroundings: the card, the interrupt controllers, the executing core and the page tables.\<close>

record nic_env =
  card_reads :: "nic_access list \<Rightarrow> u32"
  card_rx :: "nic_access list \<Rightarrow> (u64 \<Rightarrow> e1000_rx_desc) \<Rightarrow> u64 \<Rightarrow> e1000_rx_desc"
  card_tx :: "nic_access list \<Rightarrow> (u64 \<Rightarrow> e1000_tx_desc) \<Rightarrow> u64 \<Rightarrow> e1000_tx_desc"
  card_frames :: "nic_access list \<Rightarrow> (u64 \<Rightarrow> EthernetPacket) \<Rightarrow> u64 \<Rightarrow> EthernetPacket"
  lapic_dev :: device
  self_id :: u32
  page_words :: "u64 \<Rightarrow> u64"
  page_dir :: u64

definition nic_step :: "nic_env \<Rightarrow> nic_access \<Rightarrow> nic \<Rightarrow> nic" where
  "nic_step env a io =
     (let t = nic_trace io @ [a]
      in \<lparr>nic_trace = t, rx_ring = card_rx env t (rx_ring io), tx_ring = card_tx env t (tx_ring io),
          frames = card_frames env t (frames io)\<rparr>)"

definition to_physical :: "nic_env \<Rightarrow> u64 \<Rightarrow> u64" where
  "to_physical env v = v2p2m (page_words env) v (page_dir env)"

definition set_tx :: "nic_env \<Rightarrow> u64 \<Rightarrow> (e1000_tx_desc \<Rightarrow> e1000_tx_desc) \<Rightarrow> nic \<Rightarrow> nic" where
  "set_tx env a f io =
     (let d = f (tx_ring io a) in nic_step env (Tx_store a d) (io\<lparr>tx_ring := (tx_ring io)(a := d)\<rparr>))"

definition set_rx :: "nic_env \<Rightarrow> u64 \<Rightarrow> (e1000_rx_desc \<Rightarrow> e1000_rx_desc) \<Rightarrow> nic \<Rightarrow> nic" where
  "set_rx env a f io =
     (let d = f (rx_ring io a) in nic_step env (Rx_store a d) (io\<lparr>rx_ring := (rx_ring io)(a := d)\<rparr>))"

section \<open>Registers\<close>

definition e1000WriteCommand :: "nic_env \<Rightarrow> E1000 \<Rightarrow> u16 \<Rightarrow> u32 \<Rightarrow> nic \<Rightarrow> nic" where
  "e1000WriteCommand env e p_address p_value io =
     (if bar_type e = 0 then nic_step env (Mmio_write (mem_base e + ucast p_address) p_value) io
      else nic_step env (Port_write (io_base e + 4) p_value) (nic_step env (Port_write (io_base e) (ucast p_address)) io))"

definition e1000ReadCommand :: "nic_env \<Rightarrow> E1000 \<Rightarrow> u16 \<Rightarrow> nic \<Rightarrow> u32 \<times> nic" where
  "e1000ReadCommand env e p_address io =
     (let io = (if bar_type e = 0 then nic_step env (Mmio_read (mem_base e + ucast p_address)) io
                else nic_step env (Port_read (io_base e + 4)) (nic_step env (Port_write (io_base e) (ucast p_address)) io))
      in (card_reads env (nic_trace io), io))"

fun detect_loop :: "nat \<Rightarrow> nic_env \<Rightarrow> E1000 \<Rightarrow> nic \<Rightarrow> E1000 \<times> nic" where
  "detect_loop 0 env e io = (e, io)"
| "detect_loop (Suc n) env e io =
     (if eerprom_exists e then (e, io)
      else let (v, io) = e1000ReadCommand env e REG_EEPROM io
           in detect_loop n env (e\<lparr>eerprom_exists := (v AND 0x10 \<noteq> 0)\<rparr>) io)"

definition e1000DetectEEProm :: "nic_env \<Rightarrow> E1000 \<Rightarrow> nic \<Rightarrow> E1000 \<times> nic" where
  "e1000DetectEEProm env e io = detect_loop 1000 env e (e1000WriteCommand env e REG_EEPROM 0x1 io)"

text \<open>\<open>None\<close>: the bit that reports the end of the read is never seen.\<close>

definition eeprom_wait :: "nic_env \<Rightarrow> E1000 \<Rightarrow> u32 \<Rightarrow> nic \<Rightarrow> (u32 \<times> nic) option" where
  "eeprom_wait env e done io =
     while_option (\<lambda>(tmp, io). tmp AND done = 0) (\<lambda>(tmp, io). e1000ReadCommand env e REG_EEPROM io)
       (e1000ReadCommand env e REG_EEPROM io)"

definition e1000EEpromRead :: "nic_env \<Rightarrow> E1000 \<Rightarrow> u8 \<Rightarrow> nic \<Rightarrow> (u32 \<times> nic) option" where
  "e1000EEpromRead env e addr io =
     map_option (\<lambda>(tmp, io). (ucast (ucast (drop_bit 16 tmp AND 0xFFFF) :: u16), io))
       (if eerprom_exists e
        then eeprom_wait env e (push_bit 4 1) (e1000WriteCommand env e REG_EEPROM (1 OR push_bit 8 (ucast addr)) io)
        else eeprom_wait env e (push_bit 1 1) (e1000WriteCommand env e REG_EEPROM (1 OR push_bit 2 (ucast addr)) io))"

definition put_mac :: "nat \<Rightarrow> u32 \<Rightarrow> E1000 \<Rightarrow> E1000" where
  "put_mac i temp e = e\<lparr>e_mac := (e_mac e)[i := ucast (temp AND 0xFF), i + 1 := ucast (drop_bit 8 temp)]\<rparr>"

text \<open>The copy from the card's memory: byte by byte, if its first word is not zero.\<close>

fun mac_bytes :: "nat list \<Rightarrow> nic_env \<Rightarrow> E1000 \<Rightarrow> nic \<Rightarrow> E1000 \<times> nic" where
  "mac_bytes [] env e io = (e, io)"
| "mac_bytes (i # is) env e io =
     (let io = nic_step env (Mmio_read8 (mem_base e + 0x5400 + of_nat i)) io
      in mac_bytes is env (e\<lparr>e_mac := (e_mac e)[i := ucast (card_reads env (nic_trace io))]\<rparr>) io)"

definition e1000ReadMACAddress :: "nic_env \<Rightarrow> E1000 \<Rightarrow> nic \<Rightarrow> (E1000 \<times> nic) option" where
  "e1000ReadMACAddress env e io =
     (if eerprom_exists e
      then Option.bind (e1000EEpromRead env e 0 io) (\<lambda>(temp, io). let e = put_mac 0 temp e
           in Option.bind (e1000EEpromRead env e 1 io) (\<lambda>(temp, io). let e = put_mac 2 temp e
           in Option.bind (e1000EEpromRead env e 2 io) (\<lambda>(temp, io). Some (put_mac 4 temp e, io))))
      else let io = nic_step env (Mmio_read (mem_base e + 0x5400)) io
           in if card_reads env (nic_trace io) \<noteq> 0 then Some (mac_bytes [0..<6] env e io) else Some (e, io))"

definition e1000StartLink :: "nic_env \<Rightarrow> E1000 \<Rightarrow> nic \<Rightarrow> nic" where
  "e1000StartLink env e io =
     (let (val, io) = e1000ReadCommand env e REG_CTRL io;
          io = e1000WriteCommand env e REG_CTRL (val OR link_flags) io;
          io = e1000WriteCommand env e 0x0030 0x8808 io;
          io = e1000WriteCommand env e 0x0028 0x00000100 io;
          io = e1000WriteCommand env e 0x002C 0x00C28001 io
      in e1000WriteCommand env e 0x0170 0x0 io)"

definition e1000EnableInterrupt :: "nic_env \<Rightarrow> E1000 \<Rightarrow> nic \<Rightarrow> nic" where
  "e1000EnableInterrupt env e io =
     snd (e1000ReadCommand env e REG_ICR
       (e1000WriteCommand env e REG_IMASK 0x009D (e1000WriteCommand env e REG_IMASK 0x0000 io)))"

section \<open>Sending\<close>

text \<open>The wait for the card to report the descriptor; \<open>None\<close> if it never does.\<close>

definition tx_wait :: "nic_env \<Rightarrow> u64 \<Rightarrow> nic \<Rightarrow> nic option" where
  "tx_wait env a io =
     while_option (\<lambda>io. tx_status (tx_ring io a) = 0) (nic_step env (Tx_poll a)) (nic_step env (Tx_poll a) io)"

text \<open>The early return after a first poll that succeeds releases the lock in the same way.\<close>

definition e1000SendPacket :: "nic_env \<Rightarrow> u64 \<Rightarrow> u16 \<Rightarrow> E1000 \<Rightarrow> nic \<Rightarrow> (int \<times> E1000 \<times> nic) result option" where
  "e1000SendPacket env p_data p_len e io =
     (case spinlock_lock (self_id env) (e_lock e) of
        None \<Rightarrow> None
      | Some l \<Rightarrow>
          let e = e\<lparr>e_lock := l\<rparr>
          in case arr_get (tx_descs e) (uint (tx_cur e)) of
               Inl err \<Rightarrow> Some (Inl err)
             | Inr a \<Rightarrow>
                 let io = set_tx env a (tx_addr_update (\<lambda>_. to_physical env p_data)) io;
                     io = set_tx env a (tx_length_update (\<lambda>_. p_len)) io;
                     io = set_tx env a (tx_cmd_update (\<lambda>_. send_command)) io;
                     io = set_tx env a (tx_status_update (\<lambda>_. 0)) io;
                     io = snd (e1000ReadCommand env e REG_TXDESCHEAD io);
                     e = e\<lparr>tx_cur := of_nat ((unat (tx_cur e) + 1) mod E1000_NUM_TX_DESC)\<rparr>;
                     io = e1000WriteCommand env e REG_TXDESCTAIL (ucast (tx_cur e)) io;
                     io = nic_step env (Tx_poll a) io;
                     finish = (\<lambda>io. Inr (0, e\<lparr>e_lock := spinlock_unlock (self_id env) (e_lock e)\<rparr>, io))
                 in if tx_status (tx_ring io a) \<noteq> 0 then Some (finish io)
                    else map_option finish (tx_wait env a io))"

section \<open>Receiving\<close>

record e1000_state =
  e_drv :: E1000
  e_nic :: nic
  e_net :: net_state
  packets_received :: u64

text \<open>The answers the handlers of a frame send: each goes out from the buffer of the frame.\<close>

fun send_all :: "nic_env \<Rightarrow> u64 \<Rightarrow> (EthernetPacket \<times> u16) list \<Rightarrow> E1000 \<Rightarrow> nic \<Rightarrow> (E1000 \<times> nic) result option" where
  "send_all env buf [] e io = Some (Inr (e, io))"
| "send_all env buf ((eth, sz) # ps) e io =
     (case e1000SendPacket env buf sz e io of
        Some (Inr (_, e, io)) \<Rightarrow> send_all env buf ps e io
      | Some (Inl err) \<Rightarrow> Some (Inl err)
      | None \<Rightarrow> None)"

text \<open>\<open>processEthernetPacket\<close> on the frame in a buffer, which its handlers change in place. \<open>behind\<close> is
  as for \<^const>\<open>processARPPacket\<close>.\<close>

definition deliver :: "nic_env \<Rightarrow> u8 list \<Rightarrow> u64 \<Rightarrow> u16 \<Rightarrow> e1000_state \<Rightarrow> e1000_state result option" where
  "deliver env behind buf len st =
     (let net = (e_net st)\<lparr>net_skb := \<lparr>ethernetPacket = frames (e_nic st) buf, packet_size = len\<rparr>\<rparr>
      in case processEthernetPacket (lapic_dev env) \<lparr>mac = e_mac (e_drv st)\<rparr> behind net of
           None \<Rightarrow> None
         | Some (Inl err) \<Rightarrow> Some (Inl err)
         | Some (Inr net') \<Rightarrow>
             let io = (e_nic st)\<lparr>frames := (frames (e_nic st))(buf := ethernetPacket (net_skb net'))\<rparr>
             in map_option (\<lambda>r. and_then r (\<lambda>(e, io). Inr (st\<lparr>e_drv := e, e_nic := io, e_net := net'\<rparr>)))
                  (send_all env buf (drop (length (net_sent net)) (net_sent net')) (e_drv st) io))"

text \<open>The body of the loop for the descriptor at \<open>a\<close>.\<close>

definition receive_one :: "nic_env \<Rightarrow> u8 list \<Rightarrow> u64 \<Rightarrow> e1000_state \<Rightarrow> e1000_state result option" where
  "receive_one env behind a st =
     (let e = e_drv st; io = e_nic st;
          buf = rx_addr (rx_ring io a); len = rx_length (rx_ring io a);
          io = snd (e1000ReadCommand env e REG_RXDESCHEAD io);
          io = set_rx env a (rx_status_update (\<lambda>_. 0)) io;
          old_cur = rx_cur e;
          e = e\<lparr>rx_cur := of_nat ((unat (rx_cur e) + 1) mod E1000_NUM_RX_DESC)\<rparr>
      in map_option (\<lambda>r. and_then r (\<lambda>st.
           Inr (st\<lparr>e_nic := e1000WriteCommand env (e_drv st) REG_RXDESCTAIL (ucast old_cur) (e_nic st)\<rparr>)))
         (deliver env behind buf len
           (st\<lparr>e_drv := e, e_nic := io, packets_received := packets_received st + 1\<rparr>)))"

text \<open>The loop; \<open>None\<close> if it does not end, as when the card keeps filling descriptors.\<close>

partial_function (option) receive_loop :: "nic_env \<Rightarrow> u8 list \<Rightarrow> e1000_state \<Rightarrow> e1000_state result option" where
  "receive_loop env behind st =
     (case arr_get (rx_descs (e_drv st)) (uint (rx_cur (e_drv st))) of
        Inl err \<Rightarrow> Some (Inl err)
      | Inr a \<Rightarrow>
          let st = st\<lparr>e_nic := nic_step env (Rx_poll a) (e_nic st)\<rparr>
          in if rx_status (rx_ring (e_nic st) a) AND 1 = 0 then Some (Inr st)
             else case receive_one env behind a st of
                    None \<Rightarrow> None
                  | Some (Inl err) \<Rightarrow> Some (Inl err)
                  | Some (Inr st) \<Rightarrow> receive_loop env behind st)"

definition e1000HandleReceive :: "nic_env \<Rightarrow> u8 list \<Rightarrow> e1000_state \<Rightarrow> e1000_state result option" where
  "e1000HandleReceive env behind st =
     (let (head, io) = e1000ReadCommand env (e_drv st) REG_RXDESCHEAD (e_nic st);
          st = st\<lparr>e_nic := io\<rparr>
      in if ucast head = rx_cur (e_drv st) then Some (Inr st) else receive_loop env behind st)"

section \<open>Interrupts\<close>

text \<open>On a change of the link the handler passes the generic driver structure where the card's is
  expected. The fields then read are bytes of that structure: of the pointer \<open>driver_ptr\<close> it starts with,
  and of the word behind it, which starts with the type \<open>'E'\<close>, tested first, and the scope.\<close>

definition as_e1000 :: "u64 \<Rightarrow> u64 \<Rightarrow> E1000 \<Rightarrow> E1000" where
  "as_e1000 driver_ptr word8 e = e\<lparr>bar_type := ucast driver_ptr, io_base := ucast (drop_bit 16 driver_ptr), mem_base := word8\<rparr>"

definition e1000InterruptHandler :: "nic_env \<Rightarrow> u8 list \<Rightarrow> u64 \<Rightarrow> u64 \<Rightarrow> InterruptContext \<Rightarrow> e1000_state \<Rightarrow>
    e1000_state result option" where
  "e1000InterruptHandler env behind driver_ptr word8 ctx st =
     (let ack = (\<lambda>st :: e1000_state.
            let ap = getCurrentCoreId (lapic_dev env) (net_apic (e_net st));
                c = unat (core_id_ret ap);
                (icr, io) = e1000ReadCommand env (e_drv st) REG_ICR (e_nic st);
                io = e1000WriteCommand env (e_drv st) REG_ICR (icr OR 0xFFFFFFFF) io
            in and_then (arr_get (apics ap) (int c)) (\<lambda>a.
                 Inr (st\<lparr>e_nic := io, e_net := (e_net st)\<lparr>net_apic := on_bus (sendAPICEOI a) ap\<rparr>\<rparr>)))
      in if (ucast word8 :: u8) = E1000_TYPE \<and> ucast (int_line (e_drv st)) = interrupt_number ctx
         then let (status, io) = e1000ReadCommand env (e_drv st) REG_ICR (e_nic st);
                  st = st\<lparr>e_nic := io\<rparr>
              in if status AND 0x04 \<noteq> 0
                 then Some (ack (st\<lparr>e_nic := e1000StartLink env (as_e1000 driver_ptr word8 (e_drv st)) (e_nic st)\<rparr>))
                 else if status AND 0x10 \<noteq> 0 \<or> status AND 0x80 \<noteq> 0
                 then map_option (\<lambda>r. and_then r ack) (e1000HandleReceive env behind st)
                 else Some (ack st)
         else Some (ack st))"

section \<open>Initialisation\<close>

text \<open>One receive descriptor: its buffer is a block of its own; a failed allocation is not noticed.\<close>

definition rx_setup :: "nic_env \<Rightarrow> u64 \<Rightarrow> nat \<Rightarrow> E1000 \<times> nic \<times> MemoryAllocator \<Rightarrow> (E1000 \<times> nic \<times> MemoryAllocator) option" where
  "rx_setup env descs i = (\<lambda>(e, io, ma).
     let a = descs + of_nat (i * 16)
     in Option.bind (kvalloc (self_id env) ma RX_PACKET_SIZE) (\<lambda>(buf, ma).
          let io = set_rx env a (rx_addr_update (\<lambda>_. buf)) io;
              e = e\<lparr>rx_descs := (rx_descs e)[i := a], rx_vaddr := (rx_vaddr e)[i := buf]\<rparr>;
              io = set_rx env a (rx_addr_update (\<lambda>_. to_physical env buf)) io;
              io = set_rx env a (rx_status_update (\<lambda>_. 0)) io
          in Some (e, io, ma)))"

fun rx_setups :: "nic_env \<Rightarrow> u64 \<Rightarrow> nat list \<Rightarrow> E1000 \<times> nic \<times> MemoryAllocator \<Rightarrow> (E1000 \<times> nic \<times> MemoryAllocator) option" where
  "rx_setups env descs [] s = Some s"
| "rx_setups env descs (i # is) s = Option.bind (rx_setup env descs i s) (rx_setups env descs is)"

definition rx_program :: "nic_env \<Rightarrow> u64 \<Rightarrow> E1000 \<Rightarrow> nic \<Rightarrow> nic" where
  "rx_program env ptr e io =
     (let io = e1000WriteCommand env e REG_RXDESCLO (ucast (ptr AND 0xFFFFFFFF)) io;
          io = e1000WriteCommand env e REG_RXDESCHI (ucast (drop_bit 32 ptr)) io;
          io = e1000WriteCommand env e REG_RXDESCLEN (of_nat (E1000_NUM_RX_DESC * 16)) io;
          io = e1000WriteCommand env e REG_RXDESCHEAD 0 io
      in e1000WriteCommand env e REG_RXDESCTAIL (of_nat (E1000_NUM_RX_DESC - 1)) io)"

definition e1000RXInit :: "nic_env \<Rightarrow> E1000 \<Rightarrow> nic \<Rightarrow> MemoryAllocator \<Rightarrow> (E1000 \<times> nic \<times> MemoryAllocator) result option" where
  "e1000RXInit env e io ma =
     (let (rctl, io) = e1000ReadCommand env e REG_RCTRL io;
          io = e1000WriteCommand env e REG_RCTRL (rctl AND NOT RCTL_EN) io;
          io = e1000WriteCommand env e REG_RCTRL 0 io
      in case kvalloc (self_id env) ma (of_nat (16 * E1000_NUM_RX_DESC + 16)) of
           None \<Rightarrow> None
         | Some (ptr, ma) \<Rightarrow>
             if ptr = 0 then Some (Inl Null_pointer)
             else map_option (\<lambda>(e, io, ma).
                    let io = rx_program env (to_physical env ptr) e io;
                        e = e\<lparr>rx_cur := 0\<rparr>
                    in Inr (e, e1000WriteCommand env e REG_RCTRL receive_flags io, ma))
                  (rx_setups env ptr [0..<E1000_NUM_RX_DESC] (e, io, ma)))"

definition tx_setup :: "nic_env \<Rightarrow> u64 \<Rightarrow> nat \<Rightarrow> E1000 \<times> nic \<Rightarrow> E1000 \<times> nic" where
  "tx_setup env descs i = (\<lambda>(e, io).
     let a = descs + of_nat (i * 16);
         io = set_tx env a (tx_addr_update (\<lambda>_. 0)) io;
         io = set_tx env a (tx_cmd_update (\<lambda>_. 0)) io;
         io = set_tx env a (tx_status_update (\<lambda>_. TSTA_DD)) io
     in (e\<lparr>tx_descs := (tx_descs e)[i := a]\<rparr>, io))"

definition tx_program :: "nic_env \<Rightarrow> u64 \<Rightarrow> E1000 \<Rightarrow> nic \<Rightarrow> nic" where
  "tx_program env ptr e io =
     (let io = e1000WriteCommand env e REG_TXDESCHI (ucast (drop_bit 32 ptr)) io;
          io = e1000WriteCommand env e REG_TXDESCLO (ucast (ptr AND 0xFFFFFFFF)) io;
          io = e1000WriteCommand env e REG_TXDESCHEAD 0 io;
          io = e1000WriteCommand env e REG_TXDESCTAIL 0 io
      in e1000WriteCommand env e REG_TXDESCLEN (of_nat (E1000_NUM_TX_DESC * 16)) io)"

definition e1000TXInit :: "nic_env \<Rightarrow> E1000 \<Rightarrow> nic \<Rightarrow> MemoryAllocator \<Rightarrow> (E1000 \<times> nic \<times> MemoryAllocator) result option" where
  "e1000TXInit env e io ma =
     (case kvalloc (self_id env) ma (of_nat (16 * E1000_NUM_TX_DESC + 16)) of
        None \<Rightarrow> None
      | Some (ptr, ma) \<Rightarrow>
          if ptr = 0 then Some (Inl Null_pointer)
          else let (e, io) = fold (tx_setup env ptr) [0..<E1000_NUM_TX_DESC] (e, io);
                   io = tx_program env (to_physical env ptr) e io;
                   e = e\<lparr>tx_cur := 0\<rparr>;
                   io = e1000WriteCommand env e REG_TCTRL 0x3003F0FA io;
                   io = e1000WriteCommand env e REG_TIPG 0x0060200A io
               in Some (Inr (e, io, ma)))"

text \<open>The parts of the kernel the initialisation uses. The physical memory manager occurs in the state of the
  page tables and in that of the interrupt controllers; both copies are kept equal. The name of the interrupt
  handler is \<open>handler\<close>, and \<open>raw_at\<close> is what a block of the heap holds when it is handed out.\<close>

record 'h e1000_boot =
  b_int :: "'h int_state"
  b_vm :: vm_state
  b_nic :: nic
  b_pci :: pci_ports

definition set_pm :: "PhysicalMemoryManager \<Rightarrow> 'h e1000_boot \<Rightarrow> 'h e1000_boot" where
  "set_pm pm st = st\<lparr>b_int := map_apic (ap_pm_update (\<lambda>_. pm)) (b_int st), b_vm := (b_vm st)\<lparr>vm_pm := pm\<rparr>\<rparr>"

definition set_heap :: "MemoryAllocator \<Rightarrow> 'h e1000_boot \<Rightarrow> 'h e1000_boot" where
  "set_heap ma st = st\<lparr>b_int := map_apic (ap_alloc_update (\<lambda>_. ma)) (b_int st)\<rparr>"

definition heap_of :: "'h e1000_boot \<Rightarrow> MemoryAllocator" where
  "heap_of st = ap_alloc (int_apic (b_int st))"

definition call_core_id :: "nic_env \<Rightarrow> 'h e1000_boot \<Rightarrow> nat \<times> 'h e1000_boot" where
  "call_core_id env st =
     (let st = st\<lparr>b_int := map_apic (getCurrentCoreId (lapic_dev env)) (b_int st)\<rparr>
      in (unat (core_id_ret (int_apic (b_int st))), set_pm (ap_pm (int_apic (b_int st))) st))"

definition pci_int_line :: "PCIDevice \<Rightarrow> u8" where
  "pci_int_line d = ucast (hdr d ! 30)"

text \<open>The registers of the card must be mapped: an address that no entry of the memory map covers becomes
  a new one.\<close>

definition map_registers :: "nic_env \<Rightarrow> MemoryPageTable list \<Rightarrow> E1000 \<Rightarrow> 'h e1000_boot \<Rightarrow> 'h e1000_boot option" where
  "map_registers env tables e st =
     (let pm = vm_pm (b_vm st);
          pm = IsAddress (pm\<lparr>params := (params pm)\<lparr>p_physical_address := mem_base e\<rparr>\<rparr>)
      in if bar_type e = 0 \<and> \<not> is_address (returns pm)
         then let pm = AddPhysicalMemoryEntry (pm\<lparr>params := (params pm)\<lparr>p_physical_address := mem_base e,
                         p_size := of_int (FOUR_KiB_MEMORY_PAGE_SIZE * 20)\<rparr>\<rparr>);
                  st = set_pm pm st;
                  (core, st) = ((\<lambda>(_ :: nat, st). call_core_id env st) ^^ length tables) (0, st)
              in map_option (\<lambda>(_, vm). set_pm (vm_pm vm) (st\<lparr>b_vm := vm\<rparr>)) (RefreshReserved core tables (b_vm st))
         else Some (set_pm pm st))"

fun clear_multicast :: "nat list \<Rightarrow> nic_env \<Rightarrow> E1000 \<Rightarrow> nic \<Rightarrow> nic" where
  "clear_multicast [] env e io = io"
| "clear_multicast (i # is) env e io = clear_multicast is env e (e1000WriteCommand env e (0x5200 + of_nat (i * 4)) 0 io)"

definition e1000_fields :: "PCIDevice \<Rightarrow> E1000 \<Rightarrow> E1000" where
  "e1000_fields d e = e\<lparr>mac_str := replicate 18 0, e_lock := spinlock_init (e_lock e), bar_type := GetPCIBarType d 0,
     io_base := ucast (GetPCIBar d 1 AND NOT 1), mem_base := ucast (GetPCIBar d 0 AND NOT 3)\<rparr>"

text \<open>From the registration of the interrupt on.\<close>

definition e1000_go_live :: "nic_env \<Rightarrow> 'h \<Rightarrow> PCIDevice \<Rightarrow> E1000 \<Rightarrow> 'h e1000_boot \<Rightarrow> (E1000 \<times> 'h e1000_boot) result option" where
  "e1000_go_live env handler d e st =
     (let (core, st) = call_core_id env st;
          vector = pci_int_line d + ucast IRQ0;
          st = st\<lparr>b_int := snd (RegisterInterrupt vector (Some handler) (b_int st))\<rparr>
      in case e1000RXInit env e (b_nic st) (heap_of st) of
           None \<Rightarrow> None
         | Some (Inl err) \<Rightarrow> Some (Inl err)
         | Some (Inr (e, io, ma)) \<Rightarrow>
             case e1000TXInit env e io ma of
               None \<Rightarrow> None
             | Some (Inl err) \<Rightarrow> Some (Inl err)
             | Some (Inr (e, io, ma)) \<Rightarrow>
                 let e = e\<lparr>int_line := vector\<rparr>; st = set_heap ma st
                 in Some (and_then (arr_get (apics (int_apic (b_int st))) (int core)) (\<lambda>a.
                      let st = st\<lparr>b_int := map_apic (on_bus (mapAPICIRQ (lapic_dev env) a (pci_int_line d) vector)) (b_int st)\<rparr>;
                          io = e1000EnableInterrupt env e io;
                          io = snd (e1000ReadCommand env e REG_STATUS io)
                      in Inr (e, st\<lparr>b_nic := io\<rparr>))))"

definition e1000Init :: "nic_env \<Rightarrow> pci_bus \<Rightarrow> 'h \<Rightarrow> MemoryPageTable list \<Rightarrow> (u64 \<Rightarrow> E1000) \<Rightarrow> PCIDevice \<Rightarrow> 'h e1000_boot \<Rightarrow>
    (E1000 \<times> PCIDevice \<times> 'h e1000_boot) result option" where
  "e1000Init env pci handler tables raw_at d st =
     (case kmalloc (self_id env) (heap_of st) 664 of
        None \<Rightarrow> None
      | Some (p, ma) \<Rightarrow>
          if p = 0 then Some (Inl Null_pointer)
          else let e = e1000_fields d (raw_at p)
               in case map_registers env tables e (set_heap ma st) of
                    None \<Rightarrow> None
                  | Some st \<Rightarrow>
                      let (_, d, ports) = EnablePCIBusMastering pci d (b_pci st);
                          st = st\<lparr>b_pci := ports\<rparr>;
                          pm = vm_pm (b_vm st);
                          pm = GetVirtualAddress (pm\<lparr>params := (params pm)\<lparr>p_physical_address := mem_base e\<rparr>\<rparr>);
                          st = set_pm pm st;
                          e = e\<lparr>mem_base := virtualAddress (returns pm)\<rparr>;
                          env = env\<lparr>page_words := vm_words (b_vm st)\<rparr>;
                          (e, io) = e1000DetectEEProm env e (b_nic st)
                      in case e1000ReadMACAddress env e io of
                           None \<Rightarrow> None
                         | Some (e, io) \<Rightarrow>
                             let io = clear_multicast [0..<0x80] env e (e1000StartLink env e io)
                             in map_option (\<lambda>r. and_then r (\<lambda>(e, st). Inr (e, d, st)))
                                  (e1000_go_live env handler d e (st\<lparr>b_nic := io\<rparr>)))"

text \<open>\<open>kernel.e1000\<close> is the card found last. The block of the generic structure is 32 bytes.\<close>

record 'h e1000_scan =
  s_boot :: "'h e1000_boot"
  s_pci :: PCIService
  s_e1000 :: "E1000 option"

fun scan_indices :: "(PCIDevice \<Rightarrow> 'h e1000_boot \<Rightarrow> (E1000 \<times> PCIDevice \<times> 'h e1000_boot) result option) \<Rightarrow> u32 \<Rightarrow> u16 \<Rightarrow>
    nat list \<Rightarrow> 'h e1000_scan \<Rightarrow> 'h e1000_scan result option" where
  "scan_indices init core model [] st = Some (Inr st)"
| "scan_indices init core model (j # js) st =
     (case GetPCIDeviceAtIndex ((s_pci st)\<lparr>p_vendor := INTEL_VEND, p_device_id := model, p_index := of_nat j\<rparr>) of
        None \<Rightarrow> None
      | Some (None, pci) \<Rightarrow> scan_indices init core model js (st\<lparr>s_pci := pci\<rparr>)
      | Some (Some i, pci) \<Rightarrow>
          (case kmalloc core (heap_of (s_boot st)) 32 of
             None \<Rightarrow> None
           | Some (p, ma) \<Rightarrow>
               let st = st\<lparr>s_pci := pci, s_boot := set_heap ma (s_boot st)\<rparr>
               in if p = 0 then scan_indices init core model js (st\<lparr>s_e1000 := None\<rparr>)
                  else case init (pciDevices pci ! i) (s_boot st) of
                         None \<Rightarrow> None
                       | Some (Inl err) \<Rightarrow> Some (Inl err)
                       | Some (Inr (e, d, boot)) \<Rightarrow>
                           scan_indices init core model js (st\<lparr>s_boot := boot, s_e1000 := Some e,
                             s_pci := pci\<lparr>pciDevices := (pciDevices pci)[i := d]\<rparr>\<rparr>)))"

fun scan_models :: "(PCIDevice \<Rightarrow> 'h e1000_boot \<Rightarrow> (E1000 \<times> PCIDevice \<times> 'h e1000_boot) result option) \<Rightarrow> u32 \<Rightarrow>
    u16 list \<Rightarrow> 'h e1000_scan \<Rightarrow> 'h e1000_scan result option" where
  "scan_models init core [] st = Some (Inr st)"
| "scan_models init core (m # ms) st =
     (case GetPCIDeviceCount ((s_pci st)\<lparr>p_vendor := INTEL_VEND, p_device_id := m\<rparr>) of
        None \<Rightarrow> None
      | Some (count, pci) \<Rightarrow>
          case scan_indices init core m [0..<unat count] (st\<lparr>s_pci := pci\<rparr>) of
            Some (Inr st) \<Rightarrow> scan_models init core ms st
          | r \<Rightarrow> r)"

definition e1000Scan :: "nic_env \<Rightarrow> pci_bus \<Rightarrow> 'h \<Rightarrow> MemoryPageTable list \<Rightarrow> (u64 \<Rightarrow> E1000) \<Rightarrow> 'h e1000_scan \<Rightarrow>
    'h e1000_scan result option" where
  "e1000Scan env pci handler tables raw_at st =
     scan_models (e1000Init env pci handler tables raw_at) (self_id env) e1000_models st"

end
