(* ===== verification/E1000Proofs.thy ===== *)
theory E1000Proofs
  imports E1000 PacketProofs "HOL-Library.Sublist"
begin

text \<open>
  The network card driver is correct: sending hands a filled descriptor to the card before it moves the tail and
  waits for its report, receiving processes the frames of the ring in order and gives every descriptor back, and
  initialisation leaves rings of distinct descriptors whose addresses the card is told.
\<close>

section \<open>Traces\<close>

definition write_events :: "E1000 \<Rightarrow> u16 \<Rightarrow> u32 \<Rightarrow> nic_access list" where
  "write_events e r v = (if bar_type e = 0 then [Mmio_write (mem_base e + ucast r) v]
     else [Port_write (io_base e) (ucast r), Port_write (io_base e + 4) v])"

definition read_events :: "E1000 \<Rightarrow> u16 \<Rightarrow> nic_access list" where
  "read_events e r = (if bar_type e = 0 then [Mmio_read (mem_base e + ucast r)]
     else [Port_write (io_base e) (ucast r), Port_read (io_base e + 4)])"

lemma nic_step_simps [simp]:
  "nic_trace (nic_step env a io) = nic_trace io @ [a]"
  "rx_ring (nic_step env a io) = card_rx env (nic_trace io @ [a]) (rx_ring io)"
  "tx_ring (nic_step env a io) = card_tx env (nic_trace io @ [a]) (tx_ring io)"
  "frames (nic_step env a io) = card_frames env (nic_trace io @ [a]) (frames io)"
  by (simp_all add: nic_step_def Let_def)

lemma write_trace [simp]: "nic_trace (e1000WriteCommand env e r v io) = nic_trace io @ write_events e r v"
  by (simp add: e1000WriteCommand_def write_events_def)

lemma read_trace [simp]: "nic_trace (snd (e1000ReadCommand env e r io)) = nic_trace io @ read_events e r"
  by (simp add: e1000ReadCommand_def read_events_def)

lemma set_tx_trace [simp]: "nic_trace (set_tx env a f io) = nic_trace io @ [Tx_store a (f (tx_ring io a))]"
  by (simp add: set_tx_def Let_def)

lemma set_rx_trace [simp]: "nic_trace (set_rx env a f io) = nic_trace io @ [Rx_store a (f (rx_ring io a))]"
  by (simp add: set_rx_def Let_def)

lemma write_events_cong [simp]:
  "write_events (e\<lparr>tx_cur := c\<rparr>) = write_events e" "write_events (e\<lparr>rx_cur := c\<rparr>) = write_events e"
  "write_events (e\<lparr>e_lock := l\<rparr>) = write_events e"
  by (simp_all add: write_events_def fun_eq_iff)

lemma read_events_cong [simp]:
  "read_events (e\<lparr>tx_cur := c\<rparr>) = read_events e" "read_events (e\<lparr>rx_cur := c\<rparr>) = read_events e"
  "read_events (e\<lparr>e_lock := l\<rparr>) = read_events e"
  by (simp_all add: read_events_def fun_eq_iff)

section \<open>Sending\<close>

text \<open>A descriptor is handed over when the command that asks for a report is stored in it, and then the tail
  register is written.\<close>

definition handed_over :: "E1000 \<Rightarrow> u64 \<Rightarrow> nic_access list \<Rightarrow> bool" where
  "handed_over e a t \<longleftrightarrow> (\<exists>t0 d t1 v t2. t = t0 @ Tx_store a d # t1 @ write_events e REG_TXDESCTAIL v @ t2 \<and>
     tx_cmd d = send_command)"

text \<open>What the documentation of the card promises of transmit descriptors: it changes only their status, and
  sets that of a descriptor handed over when it has sent it, however the driver polls.\<close>

definition reports :: "nic_env \<Rightarrow> E1000 \<Rightarrow> bool" where
  "reports env e \<longleftrightarrow>
     (\<forall>t m a. tx_addr (card_tx env t m a) = tx_addr (m a) \<and> tx_length (card_tx env t m a) = tx_length (m a) \<and>
        tx_cmd (card_tx env t m a) = tx_cmd (m a)) \<and>
     (\<forall>io a. handed_over e a (nic_trace io) \<longrightarrow>
        (\<exists>n. tx_status (tx_ring ((nic_step env (Tx_poll a) ^^ n) io) a) \<noteq> 0))"

lemma reports_cong [simp]:
  "reports env (e\<lparr>tx_cur := c\<rparr>) = reports env e" "reports env (e\<lparr>rx_cur := c\<rparr>) = reports env e"
  "reports env (e\<lparr>e_lock := l\<rparr>) = reports env e"
  by (simp_all add: reports_def handed_over_def)

lemma reportsD:
  assumes "reports env e"
  shows "tx_addr (card_tx env t m a) = tx_addr (m a)" "tx_length (card_tx env t m a) = tx_length (m a)"
    "tx_cmd (card_tx env t m a) = tx_cmd (m a)"
  using assms by (simp_all add: reports_def)

lemma poll_until:
  assumes "\<exists>n. P ((f ^^ n) s)"
  shows "\<exists>n. while_option (\<lambda>s. \<not> P s) f s = Some ((f ^^ n) s) \<and> P ((f ^^ n) s)"
  using assms LeastI_ex [OF assms] by (auto simp: while_option_def)

lemma poll_trace: "nic_trace ((nic_step env x ^^ n) io) = nic_trace io @ replicate n x"
  by (induction n) (simp_all add: replicate_append_same)

lemma handed_over_later: "handed_over e a t \<Longrightarrow> handed_over e a (t @ t')"
  by (auto simp: handed_over_def) (metis append.assoc)

lemma tx_wait_returns:
  assumes "reports env e" "handed_over e a (nic_trace io)"
  shows "\<exists>n. tx_wait env a io = Some ((nic_step env (Tx_poll a) ^^ Suc n) io) \<and>
    tx_status (tx_ring ((nic_step env (Tx_poll a) ^^ Suc n) io) a) \<noteq> 0"
proof -
  let ?f = "nic_step env (Tx_poll a)"
  have "\<exists>n. tx_status (tx_ring ((?f ^^ n) (?f io)) a) \<noteq> 0"
    using assms handed_over_later [OF assms(2)] by (simp add: reports_def del: nic_step_simps(3))
  from poll_until [where P = "\<lambda>io. tx_status (tx_ring io a) \<noteq> 0", OF this] show ?thesis
    by (auto simp: tx_wait_def funpow_swap1 simp flip: funpow_Suc_right)
qed

text \<open>A descriptor that describes the packet and is not yet reported.\<close>

definition filled :: "nic_env \<Rightarrow> u64 \<Rightarrow> u16 \<Rightarrow> e1000_tx_desc \<Rightarrow> bool" where
  "filled env p_data p_len d \<longleftrightarrow> tx_addr d = to_physical env p_data \<and> tx_length d = p_len \<and> tx_cmd d = send_command \<and>
     tx_status d = 0"

definition next_tx :: "E1000 \<Rightarrow> u16" where
  "next_tx e = of_nat ((unat (tx_cur e) + 1) mod E1000_NUM_TX_DESC)"

definition tx_ok :: "E1000 \<Rightarrow> bool" where
  "tx_ok e \<longleftrightarrow> length (tx_descs e) = E1000_NUM_TX_DESC \<and> unat (tx_cur e) < E1000_NUM_TX_DESC \<and> lock_free (e_lock e)"

lemma set_tx_fields:
  assumes "reports env e"
  shows "tx_addr (tx_ring (set_tx env a f io) a) = tx_addr (f (tx_ring io a))"
    "tx_length (tx_ring (set_tx env a f io) a) = tx_length (f (tx_ring io a))"
    "tx_cmd (tx_ring (set_tx env a f io) a) = tx_cmd (f (tx_ring io a))"
  by (simp_all add: set_tx_def Let_def reportsD [OF assms])

lemma fill_tx:
  assumes "reports env e"
  shows "\<exists>ds. nic_trace (set_tx env a (tx_status_update (\<lambda>_. 0)) (set_tx env a (tx_cmd_update (\<lambda>_. send_command))
      (set_tx env a (tx_length_update (\<lambda>_. p_len)) (set_tx env a (tx_addr_update (\<lambda>_. to_physical env p_data)) io)))) =
    nic_trace io @ map (Tx_store a) ds \<and> length ds = 4 \<and> filled env p_data p_len (last ds)"
proof -
  define io1 where "io1 = set_tx env a (tx_addr_update (\<lambda>_. to_physical env p_data)) io"
  define io2 where "io2 = set_tx env a (tx_length_update (\<lambda>_. p_len)) io1"
  define io3 where "io3 = set_tx env a (tx_cmd_update (\<lambda>_. send_command)) io2"
  have "filled env p_data p_len ((tx_ring io3 a)\<lparr>tx_status := 0\<rparr>)"
    by (simp add: filled_def io3_def io2_def io1_def set_tx_fields [OF assms])
  moreover have "nic_trace (set_tx env a (tx_status_update (\<lambda>_. 0)) io3) = nic_trace io @ map (Tx_store a)
      [(tx_ring io a)\<lparr>tx_addr := to_physical env p_data\<rparr>, (tx_ring io1 a)\<lparr>tx_length := p_len\<rparr>,
       (tx_ring io2 a)\<lparr>tx_cmd := send_command\<rparr>, (tx_ring io3 a)\<lparr>tx_status := 0\<rparr>]"
    by (simp add: io3_def io2_def io1_def)
  ultimately show ?thesis
    unfolding io1_def [symmetric] io2_def [symmetric] io3_def [symmetric]
    by (intro exI conjI) (assumption, simp_all)
qed

lemma send_result:
  assumes "tx_ok e" "reports env e"
  shows "\<exists>io' ds n. e1000SendPacket env p_data p_len e io = Some (Inr (0, e\<lparr>tx_cur := next_tx e\<rparr>, io')) \<and>
    nic_trace io' = nic_trace io @ map (Tx_store (tx_descs e ! unat (tx_cur e))) ds @ read_events e REG_TXDESCHEAD @
      write_events e REG_TXDESCTAIL (ucast (next_tx e)) @ replicate (Suc n) (Tx_poll (tx_descs e ! unat (tx_cur e))) \<and>
    length ds = 4 \<and> filled env p_data p_len (last ds) \<and>
    tx_status (tx_ring io' (tx_descs e ! unat (tx_cur e))) \<noteq> 0"
proof -
  let ?a = "tx_descs e ! unat (tx_cur e)"
  have lock: "spinlock_lock (self_id env) (e_lock e) = Some ((e_lock e)\<lparr>spin_lock := 1, stack := 1\<rparr>)"
    "spinlock_unlock (self_id env) ((e_lock e)\<lparr>spin_lock := 1, stack := 1\<rparr>) = e_lock e"
    using assms(1) by (simp_all add: tx_ok_def lock_of_free unlock_of_held)
  have get: "arr_get (tx_descs e) (uint (tx_cur e)) = Inr ?a"
    using assms(1) by (auto simp: tx_ok_def arr_get_def in_array_def unat_less_uint)
  define io1 where "io1 = set_tx env ?a (tx_status_update (\<lambda>_. 0)) (set_tx env ?a (tx_cmd_update (\<lambda>_. send_command))
      (set_tx env ?a (tx_length_update (\<lambda>_. p_len)) (set_tx env ?a (tx_addr_update (\<lambda>_. to_physical env p_data)) io)))"
  obtain ds where ds: "nic_trace io1 = nic_trace io @ map (Tx_store ?a) ds" "length ds = 4" "filled env p_data p_len (last ds)"
    using fill_tx [OF assms(2)] unfolding io1_def by blast
  let ?e = "e\<lparr>e_lock := (e_lock e)\<lparr>spin_lock := 1, stack := 1\<rparr>\<rparr>"
  define io2 where "io2 = e1000WriteCommand env (?e\<lparr>tx_cur := next_tx e\<rparr>) REG_TXDESCTAIL (ucast (next_tx e))
      (snd (e1000ReadCommand env ?e REG_TXDESCHEAD io1))"
  have io2: "nic_trace io2 = nic_trace io @ map (Tx_store ?a) ds @ read_events e REG_TXDESCHEAD @
      write_events e REG_TXDESCTAIL (ucast (next_tx e))"
    by (simp add: io2_def ds)
  have "ds = butlast ds @ [last ds]" using ds(2) by (cases ds rule: rev_cases) simp_all
  then have "map (Tx_store ?a) ds = map (Tx_store ?a) (butlast ds) @ [Tx_store ?a (last ds)]" by (metis map_append list.map)
  then have over: "handed_over e ?a (nic_trace io2)"
    unfolding io2 handed_over_def using ds(3) unfolding filled_def
    by (intro exI [of _ "nic_trace io @ map (Tx_store ?a) (butlast ds)"] exI [of _ "last ds"] exI [of _ "read_events e REG_TXDESCHEAD"]
        exI [of _ "ucast (next_tx e)"] exI [of _ "[]"]) simp
  let ?io3 = "nic_step env (Tx_poll ?a) io2" and ?fin = "\<lambda>io'. Inr (0, e\<lparr>tx_cur := next_tx e\<rparr>, io')"
  have unf: "e1000SendPacket env p_data p_len e io =
      (if tx_status (tx_ring ?io3 ?a) \<noteq> 0 then Some (?fin ?io3) else map_option ?fin (tx_wait env ?a ?io3))"
    by (simp add: e1000SendPacket_def lock get Let_def io1_def io2_def next_tx_def del: nic_step_simps)
  have "\<exists>io' n. e1000SendPacket env p_data p_len e io = Some (?fin io') \<and>
      nic_trace io' = nic_trace io2 @ replicate (Suc n) (Tx_poll ?a) \<and> tx_status (tx_ring io' ?a) \<noteq> 0"
  proof (cases "tx_status (tx_ring ?io3 ?a) = 0")
    case False
    then show ?thesis by (intro exI [where x = ?io3] exI [where x = 0]) (simp add: unf)
  next
    case True
    obtain n where "tx_wait env ?a ?io3 = Some ((nic_step env (Tx_poll ?a) ^^ Suc n) ?io3)"
      "tx_status (tx_ring ((nic_step env (Tx_poll ?a) ^^ Suc n) ?io3) ?a) \<noteq> 0"
      using tx_wait_returns [OF assms(2), of ?a ?io3] handed_over_later [OF over] by (auto simp del: nic_step_simps(3) funpow.simps)
    then show ?thesis using True
      by (intro exI [where x = "(nic_step env (Tx_poll ?a) ^^ Suc n) ?io3"] exI [where x = "Suc n"])
        (simp add: unf poll_trace del: funpow.simps nic_step_simps(3))
  qed
  then show ?thesis using io2 ds by auto
qed

section \<open>Receiving\<close>

text \<open>The card receives nothing while the driver handles what has arrived.\<close>

definition quiet_rx :: "nic_env \<Rightarrow> bool" where
  "quiet_rx env \<longleftrightarrow> (\<forall>t m. card_rx env t m = m) \<and> (\<forall>t f. card_frames env t f = f)"

definition same_rx :: "nic \<Rightarrow> nic \<Rightarrow> bool" where
  "same_rx io io' \<longleftrightarrow> rx_ring io' = rx_ring io \<and> frames io' = frames io"

lemma same_rx_trans [trans]: "same_rx a b \<Longrightarrow> same_rx b c \<Longrightarrow> same_rx a c"
  by (simp add: same_rx_def)

lemma quiet_steps:
  assumes "quiet_rx env"
  shows "same_rx io (nic_step env x io)" "same_rx io (e1000WriteCommand env e r v io)"
    "same_rx io (snd (e1000ReadCommand env e r io))" "same_rx io (set_tx env a f io)"
    "rx_ring (set_rx env a g io) = (rx_ring io)(a := g (rx_ring io a))" "frames (set_rx env a g io) = frames io"
  using assms
  by (simp_all add: quiet_rx_def same_rx_def e1000WriteCommand_def e1000ReadCommand_def set_tx_def set_rx_def Let_def)

lemma tx_wait_quiet: "quiet_rx env \<Longrightarrow> tx_wait env a io = Some io' \<Longrightarrow> same_rx io io'"
  unfolding tx_wait_def
  by (rule while_option_rule [where P = "same_rx io"])
    (auto intro: same_rx_trans quiet_steps(1))

lemma send_quiet:
  assumes "quiet_rx env" "e1000SendPacket env p_data p_len e io = Some (Inr (r, e', io'))"
  shows "same_rx io io'"
proof -
  note q = quiet_steps [OF assms(1)]
  have "same_rx io (nic_step env x (e1000WriteCommand env e2 r v (snd (e1000ReadCommand env e1 r'
      (set_tx env a f4 (set_tx env a f3 (set_tx env a f2 (set_tx env a f1 io))))))))" (is "same_rx io (?io3 x e2 r v e1 r' a f4 f3 f2 f1)")
    for x e2 r v e1 r' a f4 f3 f2 f1
    using assms(1) q(2-4) by (simp add: quiet_rx_def same_rx_def)
  then show ?thesis
    using assms tx_wait_quiet [OF assms(1)]
    unfolding e1000SendPacket_def Let_def
    by (fastforce intro: same_rx_trans split: option.splits sum.splits if_splits)
qed

lemma tx_ok_next: "tx_ok e \<Longrightarrow> tx_ok (e\<lparr>tx_cur := next_tx e\<rparr>)"
  by (simp add: tx_ok_def next_tx_def E1000_NUM_TX_DESC_def unat_of_nat_small)

lemma unat_next_tx: "unat (next_tx e) = (unat (tx_cur e) + 1) mod 8"
  by (simp add: next_tx_def E1000_NUM_TX_DESC_def unat_of_nat_small)

lemma sent_subseq:
  assumes "length ds = 4"
  shows "subseq (Tx_store a (last ds) # w) (map (Tx_store a) ds @ r @ w @ p)"
proof -
  have "ds \<noteq> []" using assms by auto
  then have "map (Tx_store a) ds = map (Tx_store a) (butlast ds) @ [Tx_store a (last ds)]"
    by (metis append_butlast_last_id list.map(1) list.map(2) map_append)
  moreover have "subseq ([Tx_store a (last ds)] @ w) ((map (Tx_store a) (butlast ds) @ [Tx_store a (last ds)]) @ r @ w @ p)"
    by (intro list_emb_append_mono) (auto intro: list_emb_append2)
  ultimately show ?thesis by simp
qed

text \<open>Packets of the sizes of a list, at one address, are handed to the card one after the other: each in the
  descriptor that is current then, filled before the tail moves behind it.\<close>

fun hands_over :: "nic_env \<Rightarrow> E1000 \<Rightarrow> nat \<Rightarrow> u64 \<Rightarrow> u16 list \<Rightarrow> nic_access list \<Rightarrow> bool" where
  "hands_over env e c buf [] t = True"
| "hands_over env e c buf (sz # szs) t = (\<exists>t1 t2 d. t = t1 @ t2 \<and> filled env buf sz d \<and>
     subseq (Tx_store (tx_descs e ! c) d # write_events e REG_TXDESCTAIL (of_nat ((c + 1) mod 8))) t1 \<and>
     hands_over env e ((c + 1) mod 8) buf szs t2)"

lemma hands_over_cong [simp]:
  "hands_over env (e\<lparr>tx_cur := x\<rparr>) c buf szs t = hands_over env e c buf szs t"
  "hands_over env (e\<lparr>rx_cur := y\<rparr>) c buf szs t = hands_over env e c buf szs t"
  by (induction szs arbitrary: c t) auto

lemma hands_over_before: "hands_over env e c buf szs t \<Longrightarrow> hands_over env e c buf szs (t' @ t)"
proof (cases szs)
  case (Cons sz ss)
  assume "hands_over env e c buf szs t"
  then obtain t1 t2 d where "t = t1 @ t2" "filled env buf sz d" "hands_over env e ((c + 1) mod 8) buf ss t2"
    "subseq (Tx_store (tx_descs e ! c) d # write_events e REG_TXDESCTAIL (of_nat ((c + 1) mod 8))) t1"
    unfolding Cons by auto
  then show ?thesis unfolding Cons hands_over.simps
    by (intro exI [of _ "t' @ t1"] exI [of _ t2] exI [of _ d]) (simp del: subseq_Cons' add: list_emb_append2)
qed simp

lemma send_all_result:
  assumes "tx_ok e" "reports env e" "quiet_rx env"
  shows "\<exists>io'. send_all env buf ps e io = Some (Inr (e\<lparr>tx_cur := of_nat ((unat (tx_cur e) + length ps) mod 8)\<rparr>, io')) \<and> same_rx io io' \<and>
    (\<exists>t. nic_trace io' = nic_trace io @ t \<and> hands_over env e (unat (tx_cur e)) buf (map snd ps) t)"
  using assms(1,2)
proof (induction ps arbitrary: e io)
  case Nil
  then show ?case by (auto simp: tx_ok_def E1000_NUM_TX_DESC_def same_rx_def)
next
  case (Cons p ps)
  obtain eth sz where p: "p = (eth, sz)" by (cases p)
  let ?e = "e\<lparr>tx_cur := next_tx e\<rparr>"
  obtain io1 ds n where io1: "e1000SendPacket env buf sz e io = Some (Inr (0, ?e, io1))"
    and ds: "length ds = 4" "filled env buf sz (last ds)"
    and t: "nic_trace io1 = nic_trace io @ map (Tx_store (tx_descs e ! unat (tx_cur e))) ds @ read_events e REG_TXDESCHEAD @
      write_events e REG_TXDESCTAIL (ucast (next_tx e)) @ replicate (Suc n) (Tx_poll (tx_descs e ! unat (tx_cur e)))"
    using send_result [OF Cons.prems, where p_data = buf and p_len = sz and io = io] by blast
  obtain t1 where t1: "nic_trace io1 = nic_trace io @ t1"
    and sub: "subseq (Tx_store (tx_descs e ! unat (tx_cur e)) (last ds) # write_events e REG_TXDESCTAIL (ucast (next_tx e))) t1"
    using t sent_subseq [OF ds(1)] by blast
  obtain io2 t2 where "send_all env buf ps ?e io1 = Some (Inr (?e\<lparr>tx_cur := of_nat ((unat (tx_cur ?e) + length ps) mod 8)\<rparr>, io2))"
    "same_rx io1 io2" "nic_trace io2 = nic_trace io1 @ t2" "hands_over env e ((unat (tx_cur e) + 1) mod 8) buf (map snd ps) t2"
    using Cons.IH [OF tx_ok_next [OF Cons.prems(1)], of io1] Cons.prems(2) by (auto simp: unat_next_tx)
  moreover have "(ucast (next_tx e) :: u32) = of_nat ((unat (tx_cur e) + 1) mod 8)"
    unfolding unat_next_tx [symmetric] by (simp add: unsigned_of_nat)
  moreover have "(unat (tx_cur ?e) + length ps) mod 8 = (unat (tx_cur e) + length (p # ps)) mod 8"
    using mod_add_left_eq [of "unat (tx_cur e) + 1" 8 "length ps"] by (simp add: unat_next_tx)
  ultimately show ?case
    using io1 t1 sub ds(2) same_rx_trans [OF send_quiet [OF assms(3) io1]] by (fastforce simp: p simp del: subseq_Cons')
qed

section \<open>The ring\<close>

definition ready :: "e1000_rx_desc \<Rightarrow> bool" where
  "ready d \<longleftrightarrow> rx_status d AND 1 \<noteq> 0"

definition skb_at :: "nic \<Rightarrow> u64 \<Rightarrow> NetworkPacket" where
  "skb_at io a = \<lparr>ethernetPacket = frames io (rx_addr (rx_ring io a)), packet_size = rx_length (rx_ring io a)\<rparr>"

definition slot :: "E1000 \<Rightarrow> nat \<Rightarrow> nat" where
  "slot e i = (unat (rx_cur e) + i) mod E1000_NUM_RX_DESC"

definition desc_at :: "E1000 \<Rightarrow> nat \<Rightarrow> u64" where
  "desc_at e i = rx_descs e ! slot e i"

definition rx_ok :: "E1000 \<Rightarrow> nic \<Rightarrow> bool" where
  "rx_ok e io \<longleftrightarrow> length (rx_descs e) = E1000_NUM_RX_DESC \<and> distinct (map (\<lambda>a. rx_addr (rx_ring io a)) (rx_descs e)) \<and>
     unat (rx_cur e) < E1000_NUM_RX_DESC"

text \<open>The reference: the frames of a list go through \<open>processEthernetPacket\<close> one after the other.\<close>

fun process_all :: "device \<Rightarrow> NetworkDriver \<Rightarrow> u8 list \<Rightarrow> NetworkPacket list \<Rightarrow> net_state \<Rightarrow> net_state result option" where
  "process_all dev drv behind [] net = Some (Inr net)"
| "process_all dev drv behind (skb # skbs) net =
     (case processEthernetPacket dev drv behind (net\<lparr>net_skb := skb\<rparr>) of
        Some (Inr net) \<Rightarrow> process_all dev drv behind skbs net
      | r \<Rightarrow> r)"

text \<open>The rounds of such a run, for frames with the addresses of their buffers: the buffer, what the handlers leave
  in it, and the sizes of the answers they send from it.\<close>

fun answer_rounds :: "device \<Rightarrow> NetworkDriver \<Rightarrow> u8 list \<Rightarrow> (u64 \<times> NetworkPacket) list \<Rightarrow> net_state \<Rightarrow> (u64 \<times> EthernetPacket \<times> u16 list) list" where
  "answer_rounds dev drv behind [] net = []"
| "answer_rounds dev drv behind ((buf, skb) # skbs) net =
     (case processEthernetPacket dev drv behind (net\<lparr>net_skb := skb\<rparr>) of
        Some (Inr net') \<Rightarrow> (buf, ethernetPacket (net_skb net'), map snd (drop (length (net_sent net)) (net_sent net'))) #
          answer_rounds dev drv behind skbs net'
      | _ \<Rightarrow> [])"

definition arrived :: "E1000 \<Rightarrow> nic \<Rightarrow> nat \<Rightarrow> (u64 \<times> NetworkPacket) list" where
  "arrived e io k = map (\<lambda>i. (rx_addr (rx_ring io (desc_at e i)), skb_at io (desc_at e i))) [0..<k]"

text \<open>The accesses of the rounds from descriptor \<open>i\<close> of the receive ring and descriptor \<open>c\<close> of the transmit ring on: in each
  round the answers are handed over, and then the receive descriptor is given back.\<close>

fun ring_rounds :: "nic_env \<Rightarrow> E1000 \<Rightarrow> nat \<Rightarrow> nat \<Rightarrow> (u64 \<times> EthernetPacket \<times> u16 list) list \<Rightarrow> nic_access list \<Rightarrow> bool" where
  "ring_rounds env e i c [] t = True"
| "ring_rounds env e i c ((buf, eth, szs) # rs) t = (\<exists>t1 t2. hands_over env e c buf szs t1 \<and>
     t = t1 @ write_events e REG_RXDESCTAIL (of_nat (slot e i)) @ t2 \<and> ring_rounds env e (Suc i) ((c + length szs) mod 8) rs t2)"

definition answers_count :: "(u64 \<times> EthernetPacket \<times> u16 list) list \<Rightarrow> nat" where
  "answers_count rs = sum_list (map (\<lambda>(buf, eth, szs). length szs) rs)"

lemma mod_add_inj: "i < n \<Longrightarrow> j < n \<Longrightarrow> (c + i) mod n = (c + j) mod n \<Longrightarrow> i = (j :: nat)"
proof (induction i j rule: linorder_wlog)
  case (le i j)
  then have "n dvd j - i" using mod_eq_dvd_iff_nat [of "c + i" "c + j" n] by simp
  then show ?case using le by (auto dest: dvd_imp_le)
qed simp

lemma slot_inj: "i < 32 \<Longrightarrow> j < 32 \<Longrightarrow> slot e i = slot e j \<Longrightarrow> i = j"
  unfolding slot_def E1000_NUM_RX_DESC_def by (rule mod_add_inj)

lemma slot_less: "slot e i < 32"
  by (simp add: slot_def E1000_NUM_RX_DESC_def)

lemma buffer_at_inj:
  assumes "rx_ok e io" "i < 32" "j < 32" "rx_addr (rx_ring io (desc_at e i)) = rx_addr (rx_ring io (desc_at e j))"
  shows "i = j"
proof -
  let ?b = "map (\<lambda>a. rx_addr (rx_ring io a)) (rx_descs e)"
  have b: "length ?b = 32" "distinct ?b" using assms(1) by (simp_all add: rx_ok_def E1000_NUM_RX_DESC_def)
  have "?b ! slot e i = ?b ! slot e j"
    using assms(4) b(1) slot_less by (simp add: desc_at_def)
  then show ?thesis
    using nth_eq_iff_index_eq [OF b(2)] b(1) slot_less slot_inj [OF assms(2,3)] by simp
qed

lemma desc_at_inj: "rx_ok e io \<Longrightarrow> i < 32 \<Longrightarrow> j < 32 \<Longrightarrow> desc_at e i = desc_at e j \<Longrightarrow> i = j"
  using buffer_at_inj [of e io i j] by metis

lemma deliver_result:
  assumes "tx_ok (e_drv st)" "reports env (e_drv st)" "quiet_rx env"
    and "processEthernetPacket (lapic_dev env) \<lparr>mac = e_mac (e_drv st)\<rparr> behind
      ((e_net st)\<lparr>net_skb := \<lparr>ethernetPacket = frames (e_nic st) buf, packet_size = len\<rparr>\<rparr>) = Some (Inr net')"
  shows "\<exists>io'. deliver env behind buf len st = Some (Inr (st\<lparr>e_drv := (e_drv st)\<lparr>tx_cur := of_nat
        ((unat (tx_cur (e_drv st)) + (length (net_sent net') - length (net_sent (e_net st)))) mod 8)\<rparr>, e_nic := io', e_net := net'\<rparr>)) \<and>
      rx_ring io' = rx_ring (e_nic st) \<and> frames io' = (frames (e_nic st))(buf := ethernetPacket (net_skb net')) \<and>
      (\<exists>t. nic_trace io' = nic_trace (e_nic st) @ t \<and>
         hands_over env (e_drv st) (unat (tx_cur (e_drv st))) buf (map snd (drop (length (net_sent (e_net st))) (net_sent net'))) t)"
proof -
  let ?io = "(e_nic st)\<lparr>frames := (frames (e_nic st))(buf := ethernetPacket (net_skb net'))\<rparr>"
  obtain io' t where "send_all env buf (drop (length (net_sent (e_net st))) (net_sent net')) (e_drv st) ?io =
      Some (Inr ((e_drv st)\<lparr>tx_cur := of_nat ((unat (tx_cur (e_drv st)) +
        length (drop (length (net_sent (e_net st))) (net_sent net'))) mod 8)\<rparr>, io'))" "same_rx ?io io'"
      "nic_trace io' = nic_trace ?io @ t"
      "hands_over env (e_drv st) (unat (tx_cur (e_drv st))) buf (map snd (drop (length (net_sent (e_net st))) (net_sent net'))) t"
    using send_all_result [OF assms(1-3)] by blast
  then show ?thesis
    by (intro exI [where x = io']) (simp add: deliver_def assms(4) same_rx_def)
qed

definition next_rx :: "E1000 \<Rightarrow> u16" where
  "next_rx e = of_nat ((unat (rx_cur e) + 1) mod E1000_NUM_RX_DESC)"

definition tx_after :: "E1000 \<Rightarrow> net_state \<Rightarrow> net_state \<Rightarrow> u16" where
  "tx_after e net net' = of_nat ((unat (tx_cur e) + (length (net_sent net') - length (net_sent net))) mod 8)"

lemma receive_one_result:
  assumes "tx_ok (e_drv st)" "reports env (e_drv st)" "quiet_rx env"
    and "processEthernetPacket (lapic_dev env) \<lparr>mac = e_mac (e_drv st)\<rparr> behind ((e_net st)\<lparr>net_skb := skb_at (e_nic st) a\<rparr>) =
      Some (Inr net')"
  shows "\<exists>io'. receive_one env behind a st = Some (Inr (st\<lparr>e_drv := (e_drv st)\<lparr>rx_cur := next_rx (e_drv st),
        tx_cur := tx_after (e_drv st) (e_net st) net'\<rparr>, e_nic := io', e_net := net', packets_received := packets_received st + 1\<rparr>)) \<and>
      rx_ring io' = (rx_ring (e_nic st))(a := (rx_ring (e_nic st) a)\<lparr>rx_status := 0\<rparr>) \<and>
      frames io' = (frames (e_nic st))(rx_addr (rx_ring (e_nic st) a) := ethernetPacket (net_skb net')) \<and>
      (\<exists>t. nic_trace io' = nic_trace (e_nic st) @ t @ write_events (e_drv st) REG_RXDESCTAIL (ucast (rx_cur (e_drv st))) \<and>
         hands_over env (e_drv st) (unat (tx_cur (e_drv st))) (rx_addr (rx_ring (e_nic st) a))
           (map snd (drop (length (net_sent (e_net st))) (net_sent net'))) t)"
proof -
  let ?e = "e_drv st" and ?io = "e_nic st"
  define io1 where "io1 = set_rx env a (rx_status_update (\<lambda>_. 0)) (snd (e1000ReadCommand env ?e REG_RXDESCHEAD ?io))"
  have io1: "rx_ring io1 = (rx_ring ?io)(a := (rx_ring ?io a)\<lparr>rx_status := 0\<rparr>)" "frames io1 = frames ?io"
    using quiet_steps(3) [OF assms(3), of ?io ?e REG_RXDESCHEAD]
    by (simp_all add: io1_def quiet_steps(5,6) [OF assms(3)] same_rx_def)
  define st1 where "st1 = st\<lparr>e_drv := ?e\<lparr>rx_cur := next_rx ?e\<rparr>, e_nic := io1, packets_received := packets_received st + 1\<rparr>"
  have "tx_ok (e_drv st1)" using assms(1) by (simp add: st1_def tx_ok_def)
  moreover have "reports env (e_drv st1)" using assms(2) by (simp add: st1_def)
  moreover have "processEthernetPacket (lapic_dev env) \<lparr>mac = e_mac (e_drv st1)\<rparr> behind
      ((e_net st1)\<lparr>net_skb := \<lparr>ethernetPacket = frames (e_nic st1) (rx_addr (rx_ring ?io a)), packet_size = rx_length (rx_ring ?io a)\<rparr>\<rparr>) =
      Some (Inr net')"
    using assms(4) by (simp add: st1_def io1 skb_at_def)
  ultimately obtain io2 t where io2: "deliver env behind (rx_addr (rx_ring ?io a)) (rx_length (rx_ring ?io a)) st1 =
      Some (Inr (st1\<lparr>e_drv := (e_drv st1)\<lparr>tx_cur := tx_after ?e (e_net st) net'\<rparr>, e_nic := io2, e_net := net'\<rparr>))"
      "rx_ring io2 = rx_ring io1" "frames io2 = (frames io1)(rx_addr (rx_ring ?io a) := ethernetPacket (net_skb net'))"
      "nic_trace io2 = nic_trace io1 @ t"
      "hands_over env ?e (unat (tx_cur ?e)) (rx_addr (rx_ring ?io a)) (map snd (drop (length (net_sent (e_net st))) (net_sent net'))) t"
    using deliver_result [OF _ _ assms(3)] by (fastforce simp: st1_def tx_after_def)
  let ?e2 = "(e_drv st1)\<lparr>tx_cur := tx_after ?e (e_net st) net'\<rparr>"
  let ?io3 = "e1000WriteCommand env ?e2 REG_RXDESCTAIL (ucast (rx_cur ?e)) io2"
  have "receive_one env behind a st = Some (Inr (st1\<lparr>e_drv := ?e2, e_nic := ?io3, e_net := net'\<rparr>))"
    using io2(1) by (simp add: receive_one_def Let_def next_rx_def io1_def [symmetric] st1_def)
  moreover have "same_rx io2 ?io3" by (rule quiet_steps(2) [OF assms(3)])
  moreover have "\<exists>t'. nic_trace ?io3 = nic_trace ?io @ t' @ write_events ?e REG_RXDESCTAIL (ucast (rx_cur ?e)) \<and>
      hands_over env ?e (unat (tx_cur ?e)) (rx_addr (rx_ring ?io a)) (map snd (drop (length (net_sent (e_net st))) (net_sent net'))) t'"
    using io2(4) hands_over_before [OF io2(5), of "read_events ?e REG_RXDESCHEAD @ [Rx_store a
      ((rx_ring (snd (e1000ReadCommand env ?e REG_RXDESCHEAD ?io)) a)\<lparr>rx_status := 0\<rparr>)]"]
    by (intro exI conjI) (simp_all add: io1_def st1_def)
  ultimately show ?thesis
    using io1 io2(2,3) by (intro exI [where x = ?io3]) (simp add: st1_def same_rx_def)
qed

lemma slot_next: "unat (rx_cur e) < E1000_NUM_RX_DESC \<Longrightarrow> slot (e\<lparr>rx_cur := next_rx e, tx_cur := c\<rparr>) i = slot e (Suc i)"
  using mod_add_left_eq [of "unat (rx_cur e) + 1" 32 i]
  by (simp add: slot_def next_rx_def E1000_NUM_RX_DESC_def unat_of_nat_small)

text \<open>The descriptors of a run, cleared.\<close>

definition cleared :: "E1000 \<Rightarrow> nat \<Rightarrow> (u64 \<Rightarrow> e1000_rx_desc) \<Rightarrow> u64 \<Rightarrow> e1000_rx_desc" where
  "cleared e k m a = (if a \<in> desc_at e ` {..<k} then (m a)\<lparr>rx_status := 0\<rparr> else m a)"

lemma poll_quiet:
  assumes "quiet_rx env"
  shows "rx_ring (nic_step env x io) = rx_ring io" "skb_at (nic_step env x io) b = skb_at io b" "frames (nic_step env x io) = frames io"
  using assms by (simp_all add: quiet_rx_def skb_at_def)

lemma get_current: "rx_ok e io \<Longrightarrow> arr_get (rx_descs e) (uint (rx_cur e)) = Inr (desc_at e 0)"
  by (auto simp: rx_ok_def arr_get_def in_array_def unat_less_uint desc_at_def slot_def)

lemma ring_rounds_next:
  assumes "unat (rx_cur e) < E1000_NUM_RX_DESC"
  shows "ring_rounds env (e\<lparr>rx_cur := next_rx e, tx_cur := x\<rparr>) i c rs t = ring_rounds env e (Suc i) c rs t"
  by (induction rs arbitrary: i c t) (auto simp: slot_next [OF assms])

lemma receive_loop_round:
  assumes "reports env (e_drv st)" "quiet_rx env" "tx_ok (e_drv st)" "rx_ok (e_drv st) (e_nic st)" "ready (rx_ring (e_nic st) a)"
    and "a = desc_at (e_drv st) 0"
    and "processEthernetPacket (lapic_dev env) \<lparr>mac = e_mac (e_drv st)\<rparr> behind ((e_net st)\<lparr>net_skb := skb_at (e_nic st) a\<rparr>) =
      Some (Inr net1)"
  shows "\<exists>st1 t. receive_loop env behind st = receive_loop env behind st1 \<and>
      e_drv st1 = (e_drv st)\<lparr>rx_cur := next_rx (e_drv st), tx_cur := tx_after (e_drv st) (e_net st) net1\<rparr> \<and>
      e_net st1 = net1 \<and> packets_received st1 = packets_received st + 1 \<and>
      rx_ring (e_nic st1) = (rx_ring (e_nic st))(a := (rx_ring (e_nic st) a)\<lparr>rx_status := 0\<rparr>) \<and>
      frames (e_nic st1) = (frames (e_nic st))(rx_addr (rx_ring (e_nic st) a) := ethernetPacket (net_skb net1)) \<and>
      nic_trace (e_nic st1) = nic_trace (e_nic st) @ t @ write_events (e_drv st) REG_RXDESCTAIL (ucast (rx_cur (e_drv st))) \<and>
      hands_over env (e_drv st) (unat (tx_cur (e_drv st))) (rx_addr (rx_ring (e_nic st) a))
        (map snd (drop (length (net_sent (e_net st))) (net_sent net1))) t"
proof -
  let ?st0 = "st\<lparr>e_nic := nic_step env (Rx_poll a) (e_nic st)\<rparr>"
  note q = poll_quiet [OF assms(2)]
  obtain io1 t1 where one: "receive_one env behind a ?st0 = Some (Inr (?st0\<lparr>e_drv := (e_drv st)\<lparr>rx_cur := next_rx (e_drv st),
      tx_cur := tx_after (e_drv st) (e_net st) net1\<rparr>, e_nic := io1, e_net := net1, packets_received := packets_received st + 1\<rparr>))"
    (is "_ = Some (Inr ?st1)")
    and io1: "rx_ring io1 = (rx_ring (e_nic st))(a := (rx_ring (e_nic st) a)\<lparr>rx_status := 0\<rparr>)"
      "frames io1 = (frames (e_nic st))(rx_addr (rx_ring (e_nic st) a) := ethernetPacket (net_skb net1))"
      "nic_trace io1 = nic_trace (e_nic st) @ Rx_poll a # t1 @ write_events (e_drv st) REG_RXDESCTAIL (ucast (rx_cur (e_drv st)))"
    and over: "hands_over env (e_drv st) (unat (tx_cur (e_drv st))) (rx_addr (rx_ring (e_nic st) a))
        (map snd (drop (length (net_sent (e_net st))) (net_sent net1))) t1"
    using receive_one_result [of ?st0 env behind a net1] assms(1-3,7) by (auto simp: q simp del: nic_step_simps(2-))
  have "receive_loop env behind st = receive_loop env behind ?st1"
    using assms(5) one unfolding receive_loop.simps [of env behind st] get_current [OF assms(4), folded assms(6)]
    by (simp add: q ready_def del: nic_step_simps)
  then show ?thesis using io1 hands_over_before [OF over, of "[Rx_poll a]"]
    by (intro exI [where x = ?st1] exI [where x = "Rx_poll a # t1"]) simp
qed

lemma answer_rounds_bufs: "fst ` set (answer_rounds dev drv behind skbs net) \<subseteq> fst ` set skbs"
proof (induction skbs arbitrary: net)
  case (Cons a skbs)
  obtain buf skb where a: "a = (buf, skb)" by (cases a)
  have "fst ` set (answer_rounds dev drv behind skbs net') \<subseteq> insert buf (fst ` set skbs)" for net' using Cons.IH by blast
  moreover have "(\<forall>net'. processEthernetPacket dev drv behind (net\<lparr>net_skb := skb\<rparr>) \<noteq> Some (Inr net')) \<Longrightarrow>
      answer_rounds dev drv behind (a # skbs) net = []"
    by (simp add: a split: option.split sum.split)
  ultimately show ?case by (cases "\<exists>net'. processEthernetPacket dev drv behind (net\<lparr>net_skb := skb\<rparr>) = Some (Inr net')") (auto simp: a)
qed simp

lemma receive_loop_run:
  assumes "quiet_rx env"
  shows "\<lbrakk>reports env (e_drv st); tx_ok (e_drv st); rx_ok (e_drv st) (e_nic st); k < 32; \<forall>i<k. ready (rx_ring (e_nic st) (desc_at (e_drv st) i));
      \<not> ready (rx_ring (e_nic st) (desc_at (e_drv st) k));
      process_all (lapic_dev env) \<lparr>mac = e_mac (e_drv st)\<rparr> behind (map (\<lambda>i. skb_at (e_nic st) (desc_at (e_drv st) i)) [0..<k]) (e_net st) =
        Some (Inr net')\<rbrakk> \<Longrightarrow>
    let rs = answer_rounds (lapic_dev env) \<lparr>mac = e_mac (e_drv st)\<rparr> behind (arrived (e_drv st) (e_nic st) k) (e_net st) in
    \<exists>st'. receive_loop env behind st = Some (Inr st') \<and> e_net st' = net' \<and>
      e_drv st' = (e_drv st)\<lparr>rx_cur := of_nat (slot (e_drv st) k),
        tx_cur := of_nat ((unat (tx_cur (e_drv st)) + answers_count rs) mod 8)\<rparr> \<and> tx_ok (e_drv st') \<and>
      rx_ring (e_nic st') = cleared (e_drv st) k (rx_ring (e_nic st)) \<and>
      packets_received st' = packets_received st + of_nat k \<and>
      (\<forall>b. b \<notin> fst ` set rs \<longrightarrow> frames (e_nic st') b = frames (e_nic st) b) \<and>
      (\<forall>(buf, eth, szs)\<in>set rs. frames (e_nic st') buf = eth) \<and> length rs = k \<and>
      (\<exists>t. nic_trace (e_nic st') = nic_trace (e_nic st) @ t \<and> ring_rounds env (e_drv st) 0 (unat (tx_cur (e_drv st))) rs t)"
proof (induction k arbitrary: st)
  case 0
  let ?st = "st\<lparr>e_nic := nic_step env (Rx_poll (desc_at (e_drv st) 0)) (e_nic st)\<rparr>"
  have "receive_loop env behind st = Some (Inr ?st)"
    using 0(6) unfolding receive_loop.simps [of env behind st] get_current [OF 0(3)]
    by (simp add: poll_quiet [OF assms] ready_def del: nic_step_simps)
  moreover have "of_nat (slot (e_drv st) 0) = rx_cur (e_drv st)"
    using 0(3) by (simp add: slot_def rx_ok_def)
  moreover have "of_nat (unat (tx_cur (e_drv st)) mod 8) = tx_cur (e_drv st)"
    using 0(2) by (simp add: tx_ok_def E1000_NUM_TX_DESC_def)
  moreover have "net' = e_net st" using 0(7) by simp
  ultimately show ?case
    using 0(2) poll_quiet [OF assms] unfolding Let_def by (intro exI [where x = ?st])
      (auto simp: cleared_def fun_eq_iff arrived_def answers_count_def simp del: nic_step_simps(2-))
next
  case (Suc k)
  let ?e = "e_drv st" and ?io = "e_nic st" and ?a = "desc_at (e_drv st) 0"
  have cur: "unat (rx_cur ?e) < E1000_NUM_RX_DESC" using Suc.prems(3) by (simp add: rx_ok_def)
  have "process_all (lapic_dev env) \<lparr>mac = e_mac ?e\<rparr> behind (skb_at ?io ?a # map (\<lambda>i. skb_at ?io (desc_at ?e (Suc i))) [0..<k]) (e_net st) =
      Some (Inr net')"
    using Suc.prems(7) by (simp add: upt_conv_Cons map_Suc_upt [symmetric] comp_def del: upt_Suc)
  then obtain net1 where net1: "processEthernetPacket (lapic_dev env) \<lparr>mac = e_mac ?e\<rparr> behind ((e_net st)\<lparr>net_skb := skb_at ?io ?a\<rparr>) = Some (Inr net1)"
    and rest: "process_all (lapic_dev env) \<lparr>mac = e_mac ?e\<rparr> behind (map (\<lambda>i. skb_at ?io (desc_at ?e (Suc i))) [0..<k]) net1 = Some (Inr net')"
    by (auto split: option.splits sum.splits)
  have "ready (rx_ring ?io ?a)" using Suc.prems(5) by simp
  from receive_loop_round [OF Suc.prems(1) assms Suc.prems(2,3) this refl net1] obtain st1 t1
    where step: "receive_loop env behind st = receive_loop env behind st1"
    and drv: "e_drv st1 = ?e\<lparr>rx_cur := next_rx ?e, tx_cur := tx_after ?e (e_net st) net1\<rparr>"
    and st1: "e_net st1 = net1" "packets_received st1 = packets_received st + 1"
    and ring1: "rx_ring (e_nic st1) = (rx_ring ?io)(?a := (rx_ring ?io ?a)\<lparr>rx_status := 0\<rparr>)"
    and frames1: "frames (e_nic st1) = (frames ?io)(rx_addr (rx_ring ?io ?a) := ethernetPacket (net_skb net1))"
    and trace1: "nic_trace (e_nic st1) = nic_trace ?io @ t1 @ write_events ?e REG_RXDESCTAIL (ucast (rx_cur ?e))"
    and over: "hands_over env ?e (unat (tx_cur ?e)) (rx_addr (rx_ring ?io ?a)) (map snd (drop (length (net_sent (e_net st))) (net_sent net1))) t1"
    by blast
  have desc: "desc_at (e_drv st1) i = desc_at ?e (Suc i)" "slot (e_drv st1) i = slot ?e (Suc i)" for i
    using slot_next [OF cur] by (simp_all add: drv desc_at_def)
  have far: "desc_at ?e (Suc i) \<noteq> ?a" "rx_addr (rx_ring ?io (desc_at ?e (Suc i))) \<noteq> rx_addr (rx_ring ?io ?a)" if "i \<le> k" for i
    using desc_at_inj [OF Suc.prems(3), of "Suc i" 0] buffer_at_inj [OF Suc.prems(3), of "Suc i" 0] that Suc.prems(4) by auto
  have tx: "tx_ok (e_drv st1)" using Suc.prems(2) by (simp add: drv tx_ok_def tx_after_def E1000_NUM_TX_DESC_def unat_of_nat_small)
  have addr1: "rx_addr (rx_ring (e_nic st1) b) = rx_addr (rx_ring ?io b)" for b by (simp add: ring1)
  then have rx: "rx_ok (e_drv st1) (e_nic st1)"
    using Suc.prems(3) by (simp add: drv rx_ok_def next_rx_def E1000_NUM_RX_DESC_def unat_of_nat_small)
  have run: "\<forall>i<k. ready (rx_ring (e_nic st1) (desc_at (e_drv st1) i))" "\<not> ready (rx_ring (e_nic st1) (desc_at (e_drv st1) k))"
    using Suc.prems(5,6) far by (simp_all add: desc ring1)
  have "map (\<lambda>i. skb_at (e_nic st1) (desc_at (e_drv st1) i)) [0..<k] = map (\<lambda>i. skb_at ?io (desc_at ?e (Suc i))) [0..<k]"
    using far by (simp add: desc skb_at_def ring1 frames1)
  then have "process_all (lapic_dev env) \<lparr>mac = e_mac (e_drv st1)\<rparr> behind (map (\<lambda>i. skb_at (e_nic st1) (desc_at (e_drv st1) i)) [0..<k]) (e_net st1) =
      Some (Inr net')"
    using rest unfolding st1 by (simp only: drv E1000.simps) simp
  note all1 = this
  let ?rs = "answer_rounds (lapic_dev env) \<lparr>mac = e_mac ?e\<rparr> behind (arrived ?e ?io (Suc k)) (e_net st)"
  let ?rs1 = "answer_rounds (lapic_dev env) \<lparr>mac = e_mac (e_drv st1)\<rparr> behind (arrived (e_drv st1) (e_nic st1) k) (e_net st1)"
  let ?szs = "map snd (drop (length (net_sent (e_net st))) (net_sent net1))" and ?buf = "rx_addr (rx_ring ?io ?a)"
  have "arrived (e_drv st1) (e_nic st1) k = map (\<lambda>i. (rx_addr (rx_ring ?io (desc_at ?e (Suc i))), skb_at ?io (desc_at ?e (Suc i)))) [0..<k]"
    using far by (simp add: arrived_def desc skb_at_def ring1 frames1)
  then have arr: "arrived ?e ?io (Suc k) = (?buf, skb_at ?io ?a) # arrived (e_drv st1) (e_nic st1) k"
    by (simp add: arrived_def upt_conv_Cons map_Suc_upt [symmetric] comp_def del: upt_Suc)
  have rs: "?rs = (?buf, ethernetPacket (net_skb net1), ?szs) # ?rs1"
    unfolding arr by (simp add: net1 st1 drv)
  have rep1: "reports env (e_drv st1)" using Suc.prems(1) by (simp add: drv)
  from Suc.IH [OF rep1 tx rx _ run all1] Suc.prems(4) obtain st' t where
    st': "receive_loop env behind st1 = Some (Inr st')" "e_net st' = net'"
      "e_drv st' = (e_drv st1)\<lparr>rx_cur := of_nat (slot (e_drv st1) k),
         tx_cur := of_nat ((unat (tx_cur (e_drv st1)) + answers_count ?rs1) mod 8)\<rparr>" "tx_ok (e_drv st')"
      "rx_ring (e_nic st') = cleared (e_drv st1) k (rx_ring (e_nic st1))" "packets_received st' = packets_received st1 + of_nat k"
      "nic_trace (e_nic st') = nic_trace (e_nic st1) @ t"
      "ring_rounds env (e_drv st1) 0 (unat (tx_cur (e_drv st1))) ?rs1 t" "length ?rs1 = k"
      "\<forall>b. b \<notin> fst ` set ?rs1 \<longrightarrow> frames (e_nic st') b = frames (e_nic st1) b"
      "\<forall>(buf, eth, szs)\<in>set ?rs1. frames (e_nic st') buf = eth"
    unfolding Let_def by auto
  have tx1: "unat (tx_cur (e_drv st1)) = (unat (tx_cur ?e) + length ?szs) mod 8"
    by (simp add: drv tx_after_def unat_of_nat_small)
  have "cleared (e_drv st1) k (rx_ring (e_nic st1)) = cleared ?e (Suc k) (rx_ring ?io)"
    by (auto simp: fun_eq_iff cleared_def desc ring1 lessThan_Suc_eq_insert_0 image_image)
  moreover have "ring_rounds env ?e 0 (unat (tx_cur ?e)) ?rs (t1 @ write_events ?e REG_RXDESCTAIL (ucast (rx_cur ?e)) @ t)"
  proof -
    have "of_nat (slot ?e 0) = (ucast (rx_cur ?e) :: u32)" using cur by (simp add: slot_def)
    moreover have "ring_rounds env ?e (Suc 0) ((unat (tx_cur ?e) + length ?szs) mod 8) ?rs1 t"
      using st'(8) [unfolded tx1] ring_rounds_next [OF cur, of env "tx_after ?e (e_net st) net1"] by (simp only: drv)
    ultimately show ?thesis unfolding rs ring_rounds.simps using over by (intro exI [of _ t1] exI [of _ t]) simp
  qed
  moreover have "e_drv st' = ?e\<lparr>rx_cur := of_nat (slot ?e (Suc k)), tx_cur := of_nat ((unat (tx_cur ?e) + answers_count ?rs) mod 8)\<rparr>"
    using st'(3) [unfolded desc tx1] unfolding drv rs
    by (simp add: answers_count_def mod_simps add.assoc)
  moreover have buf: "?buf \<notin> fst ` set ?rs1"
  proof -
    have "?buf \<notin> fst ` set (arrived (e_drv st1) (e_nic st1) k)"
    proof
      assume "?buf \<in> fst ` set (arrived (e_drv st1) (e_nic st1) k)"
      then obtain i where "i < k" "?buf = rx_addr (rx_ring ?io (desc_at ?e (Suc i)))"
        by (auto simp: arrived_def desc addr1)
      with far(2) [of i] show False by simp
    qed
    then show ?thesis using answer_rounds_bufs by blast
  qed
  then have "frames (e_nic st') ?buf = ethernetPacket (net_skb net1)" using st'(10) by (simp add: frames1)
  moreover have "frames (e_nic st') b = frames ?io b" if "b \<notin> fst ` set ?rs" for b
    using st'(10) that by (auto simp: rs frames1)
  ultimately show ?case unfolding Let_def
    using step st'(1,2,4-7,9,11) trace1 by (intro exI [where x = st'] conjI) (simp_all add: st1 rs)
qed

text \<open>C23: sending hands the packet over. With the lock free and a card that reports what it has sent, the call
  returns with the lock free again; before it moves the tail to the next descriptor it has stored the
  physical address and the length of the packet, the command and a cleared status in the current one, and it returns
  only when the card has reported that descriptor.\<close>

theorem e1000_send_hands_over:
  assumes "tx_ok e" "reports env e"
  shows "\<exists>io' ds n. e1000SendPacket env p_data p_len e io = Some (Inr (0, e\<lparr>tx_cur := next_tx e\<rparr>, io')) \<and>
    nic_trace io' = nic_trace io @ map (Tx_store (tx_descs e ! unat (tx_cur e))) ds @ read_events e REG_TXDESCHEAD @
      write_events e REG_TXDESCTAIL (ucast (next_tx e)) @ replicate (Suc n) (Tx_poll (tx_descs e ! unat (tx_cur e))) \<and>
    length ds = 4 \<and> filled env p_data p_len (last ds) \<and>
    tx_status (tx_ring io' (tx_descs e ! unat (tx_cur e))) \<noteq> 0 \<and> tx_ok (e\<lparr>tx_cur := next_tx e\<rparr>)"
  using send_result [OF assms] tx_ok_next [OF assms(1)] by blast

text \<open>C24: receiving. When frames have arrived in the \<open>k\<close> descriptors from the current one on and the card
  receives nothing meanwhile, \<open>e1000HandleReceive\<close> returns; it has passed exactly these frames to
  \<open>processEthernetPacket\<close> in ring order, has cleared exactly these descriptors and is ready for the next one. What the
  handlers of each frame answered was handed to the card from the buffer of the frame, which holds what they left in it:
  one filled transmit descriptor after the other before the tail moves, so that the transmit cursor has advanced by the
  number of answers; and behind the answers of each frame its receive descriptor was given back.\<close>

theorem e1000_receive_processes_ring:
  assumes "reports env (e_drv st)" "quiet_rx env" "tx_ok (e_drv st)" "rx_ok (e_drv st) (e_nic st)" "k < 32"
    and "ucast (fst (e1000ReadCommand env (e_drv st) REG_RXDESCHEAD (e_nic st))) \<noteq> rx_cur (e_drv st)"
    and "\<forall>i<k. ready (rx_ring (e_nic st) (desc_at (e_drv st) i))" "\<not> ready (rx_ring (e_nic st) (desc_at (e_drv st) k))"
    and "process_all (lapic_dev env) \<lparr>mac = e_mac (e_drv st)\<rparr> behind (map (\<lambda>i. skb_at (e_nic st) (desc_at (e_drv st) i)) [0..<k]) (e_net st) =
      Some (Inr net')"
    and "rs = answer_rounds (lapic_dev env) \<lparr>mac = e_mac (e_drv st)\<rparr> behind (arrived (e_drv st) (e_nic st) k) (e_net st)"
  shows "\<exists>st'. e1000HandleReceive env behind st = Some (Inr st') \<and> e_net st' = net' \<and>
    e_drv st' = (e_drv st)\<lparr>rx_cur := of_nat (slot (e_drv st) k),
      tx_cur := of_nat ((unat (tx_cur (e_drv st)) + answers_count rs) mod 8)\<rparr> \<and> tx_ok (e_drv st') \<and>
    rx_ring (e_nic st') = cleared (e_drv st) k (rx_ring (e_nic st)) \<and>
    packets_received st' = packets_received st + of_nat k \<and>
    length rs = k \<and> (\<forall>(buf, eth, szs)\<in>set rs. frames (e_nic st') buf = eth) \<and>
    (\<exists>t. nic_trace (e_nic st') = nic_trace (e_nic st) @ read_events (e_drv st) REG_RXDESCHEAD @ t \<and>
       ring_rounds env (e_drv st) 0 (unat (tx_cur (e_drv st))) rs t)"
proof -
  let ?io = "snd (e1000ReadCommand env (e_drv st) REG_RXDESCHEAD (e_nic st))" and ?e = "e_drv st"
  have q: "rx_ring ?io = rx_ring (e_nic st)" "frames ?io = frames (e_nic st)"
    using quiet_steps(3) [OF assms(2)] by (simp_all add: same_rx_def)
  then have skb: "skb_at ?io = skb_at (e_nic st)" by (simp add: fun_eq_iff skb_at_def)
  then have arr: "arrived ?e ?io k = arrived ?e (e_nic st) k" using q by (simp add: arrived_def)
  have "e1000HandleReceive env behind st = receive_loop env behind (st\<lparr>e_nic := ?io\<rparr>)"
    using assms(6) by (simp add: e1000HandleReceive_def split_beta)
  moreover have "rx_ok ?e ?io" using assms(4) q by (simp add: rx_ok_def)
  ultimately show ?thesis
    using receive_loop_run [OF assms(2), of "st\<lparr>e_nic := ?io\<rparr>" k behind net'] assms(1,3,5,7-9) q skb
    unfolding Let_def by (simp add: arr flip: assms(10)) blast
qed

section \<open>Setting up the receive ring\<close>

lemma kvalloc_room:
  assumes "kernel_ok m" "n < 2 ^ 62" "unat (kernel_memory_current_address m) + 4095 + unat n < unat (kernel_memory_end_address m)"
  shows "\<exists>r m'. kvalloc apic m n = Some (r, m') \<and> kernel_ok m' \<and> kernel_memory_end_address m' = kernel_memory_end_address m \<and>
    0 < unat r \<and> unat (kernel_memory_current_address m) \<le> unat r \<and> unat r \<le> unat (kernel_memory_current_address m) + 4095 \<and>
    unat (kernel_memory_current_address m') = unat r + unat n"
proof -
  note b = kernel_ok_bounds [OF assms(1)]
  obtain r m' where k: "kvalloc apic m n = Some (r, m')" using kvalloc.returns [OF assms(1)] by blast
  let ?c = "page_align_up (kernel_memory_current_address m)"
  have "unat ?c = (unat (kernel_memory_current_address m) + 4095) div 4096 * 4096"
    using b(4) by (intro page_align_up_unat) (simp add: word_less_nat_alt)
  then have c: "unat ?c \<le> unat (kernel_memory_current_address m) + 4095" by simp
  have lim: "unat (kernel_memory_end_address m) < 2 ^ 62" using b by (simp add: word_less_nat_alt)
  then have "unat (?c + n) = unat ?c + unat n" using assms(3) c by (intro unat_add_no_wrap) simp
  then have "?c + n < kernel_memory_end_address m" using assms(3) c by (simp add: word_less_nat_alt)
  then have r: "r = ?c" using k by (simp add: kvalloc_free b(1) Let_def)
  have "r \<noteq> 0" using r page_align_up_props [OF b(4,2)] by simp
  then show ?thesis
    using k c r kvalloc.keeps_ok [OF assms(1,2) k] kvalloc.granted [OF assms(1,2) k] by (simp add: unat_gt_0)
qed

text \<open>What the card's documentation promises of receive descriptors: it never changes the address of a buffer.\<close>

definition keeps_buffers :: "nic_env \<Rightarrow> bool" where
  "keeps_buffers env \<longleftrightarrow> (\<forall>t m a. rx_addr (card_rx env t m a) = rx_addr (m a))"

lemma keeps_steps:
  assumes "keeps_buffers env"
  shows "rx_addr (rx_ring (nic_step env x io) a) = rx_addr (rx_ring io a)"
    "rx_addr (rx_ring (e1000WriteCommand env e r v io) a) = rx_addr (rx_ring io a)"
    "rx_addr (rx_ring (set_rx env b f io) a) = rx_addr (if a = b then f (rx_ring io b) else rx_ring io a)"
  using assms by (simp_all add: keeps_buffers_def e1000WriteCommand_def set_rx_def Let_def)

text \<open>The first \<open>j\<close> descriptors of the ring at \<open>ptr\<close> are set up: their buffers lie one behind the other in the part of
  the heap from \<open>lo\<close> up to the current address.\<close>

definition ring_built :: "nic_env \<Rightarrow> nat \<Rightarrow> u64 \<Rightarrow> nat \<Rightarrow> E1000 \<Rightarrow> nic \<Rightarrow> MemoryAllocator \<Rightarrow> bool" where
  "ring_built env lo ptr j e io ma \<longleftrightarrow> length (rx_descs e) = 32 \<and> length (rx_vaddr e) = 32 \<and>
     (\<forall>i<j. rx_descs e ! i = ptr + of_nat (i * 16) \<and> rx_addr (rx_ring io (ptr + of_nat (i * 16))) = to_physical env (rx_vaddr e ! i) \<and>
        lo \<le> unat (rx_vaddr e ! i) \<and> unat (rx_vaddr e ! i) + 1600 \<le> unat (kernel_memory_current_address ma)) \<and>
     (\<forall>i<j. \<forall>k<i. unat (rx_vaddr e ! k) + 1600 \<le> unat (rx_vaddr e ! i))"

lemma ring_offset_inj:
  assumes "i < 32" "k < 32" "(ptr :: u64) + of_nat (i * 16) = ptr + of_nat (k * 16)"
  shows "i = k"
proof -
  have "unat (of_nat (m * 16) :: u64) = m * 16" if "m < 32" for m :: nat
    by (rule unat_of_nat_small) (use that in simp)
  then show ?thesis using assms by (metis add_left_cancel mult_right_cancel zero_neq_numeral)
qed

lemma rx_setup_built:
  assumes "keeps_buffers env" "ring_built env lo ptr j e io ma" "j < 32" "kernel_ok ma" "lo \<le> unat (kernel_memory_current_address ma)"
    and "unat (kernel_memory_current_address ma) + 5695 < unat (kernel_memory_end_address ma)"
  shows "\<exists>e' io' ma'. rx_setup env ptr j (e, io, ma) = Some (e', io', ma') \<and> ring_built env lo ptr (Suc j) e' io' ma' \<and>
    kernel_ok ma' \<and> kernel_memory_end_address ma' = kernel_memory_end_address ma \<and>
    unat (kernel_memory_current_address ma) \<le> unat (kernel_memory_current_address ma') \<and>
    unat (kernel_memory_current_address ma') \<le> unat (kernel_memory_current_address ma) + 5695 \<and>
    e' = e\<lparr>rx_descs := rx_descs e', rx_vaddr := rx_vaddr e'\<rparr>"
proof -
  obtain buf ma' where k: "kvalloc (self_id env) ma RX_PACKET_SIZE = Some (buf, ma')" and ma': "kernel_ok ma'"
      "kernel_memory_end_address ma' = kernel_memory_end_address ma" "unat (kernel_memory_current_address ma) \<le> unat buf"
      "unat buf \<le> unat (kernel_memory_current_address ma) + 4095" "unat (kernel_memory_current_address ma') = unat buf + 1600"
    using kvalloc_room [OF assms(4), of RX_PACKET_SIZE "self_id env"] assms(6) by (auto simp: RX_PACKET_SIZE_def)
  let ?a = "ptr + of_nat (j * 16)"
  define io' where "io' = set_rx env ?a (rx_status_update (\<lambda>_. 0)) (set_rx env ?a (rx_addr_update (\<lambda>_. to_physical env buf))
      (set_rx env ?a (rx_addr_update (\<lambda>_. buf)) io))"
  have io': "rx_addr (rx_ring io' a) = (if a = ?a then to_physical env buf else rx_addr (rx_ring io a))" for a
    by (simp add: io'_def keeps_steps [OF assms(1)])
  define e' where "e' = e\<lparr>rx_descs := (rx_descs e)[j := ?a], rx_vaddr := (rx_vaddr e)[j := buf]\<rparr>"
  have built: "ring_built env lo ptr (Suc j) e' io' ma'"
  proof -
    have b: "length (rx_descs e) = 32" "length (rx_vaddr e) = 32" using assms(2) by (simp_all add: ring_built_def)
    have old: "rx_descs e ! i = ptr + of_nat (i * 16)" "rx_addr (rx_ring io (ptr + of_nat (i * 16))) = to_physical env (rx_vaddr e ! i)"
      "lo \<le> unat (rx_vaddr e ! i)" "unat (rx_vaddr e ! i) + 1600 \<le> unat (kernel_memory_current_address ma)"
      "ptr + of_nat (i * 16) \<noteq> ?a" if "i < j" for i
      using assms(2,3) that ring_offset_inj [of i j ptr] by (auto simp: ring_built_def)
    have "\<forall>i<Suc j. rx_descs e' ! i = ptr + of_nat (i * 16) \<and> rx_addr (rx_ring io' (ptr + of_nat (i * 16))) = to_physical env (rx_vaddr e' ! i) \<and>
        lo \<le> unat (rx_vaddr e' ! i) \<and> unat (rx_vaddr e' ! i) + 1600 \<le> unat (kernel_memory_current_address ma')"
      using old b assms(3,5) ma' by (fastforce simp: e'_def io' nth_list_update less_Suc_eq)
    moreover have "\<forall>i<Suc j. \<forall>k<i. unat (rx_vaddr e' ! k) + 1600 \<le> unat (rx_vaddr e' ! i)"
      using old(4) b assms(2,3) ma'(3) by (fastforce simp: e'_def nth_list_update less_Suc_eq ring_built_def)
    moreover have "length (rx_descs e') = 32" "length (rx_vaddr e') = 32" using b by (simp_all add: e'_def)
    ultimately show ?thesis unfolding ring_built_def by blast
  qed
  have "rx_setup env ptr j (e, io, ma) = Some (e', io', ma')"
    by (simp add: rx_setup_def k Let_def e'_def io'_def)
  then show ?thesis using built ma' by (intro exI conjI) (assumption | simp add: e'_def)+
qed

lemma rx_setups_built:
  assumes "keeps_buffers env"
  shows "\<lbrakk>j + n = 32; ring_built env lo ptr j e io ma; kernel_ok ma; lo \<le> unat (kernel_memory_current_address ma);
      unat (kernel_memory_current_address ma) + n * 5695 < unat (kernel_memory_end_address ma)\<rbrakk> \<Longrightarrow>
    \<exists>e' io' ma'. rx_setups env ptr [j..<32] (e, io, ma) = Some (e', io', ma') \<and> ring_built env lo ptr 32 e' io' ma' \<and>
      kernel_ok ma' \<and> kernel_memory_end_address ma' = kernel_memory_end_address ma \<and>
      e' = e\<lparr>rx_descs := rx_descs e', rx_vaddr := rx_vaddr e'\<rparr>"
proof (induction n arbitrary: j e io ma)
  case 0
  then show ?case by (intro exI [where x = e] exI [where x = io] exI [where x = ma]) simp
next
  case (Suc n)
  have j: "j < 32" "[j..<32] = j # [Suc j..<32]" using Suc.prems(1) by (simp_all add: upt_conv_Cons)
  have "unat (kernel_memory_current_address ma) + 5695 < unat (kernel_memory_end_address ma)" using Suc.prems(5) by simp
  from rx_setup_built [OF assms Suc.prems(2) j(1) Suc.prems(3,4) this] obtain e1 io1 ma1
    where one: "rx_setup env ptr j (e, io, ma) = Some (e1, io1, ma1)" "ring_built env lo ptr (Suc j) e1 io1 ma1" "kernel_ok ma1"
      and ma1: "kernel_memory_end_address ma1 = kernel_memory_end_address ma"
        "unat (kernel_memory_current_address ma) \<le> unat (kernel_memory_current_address ma1)"
        "unat (kernel_memory_current_address ma1) \<le> unat (kernel_memory_current_address ma) + 5695"
      and e1: "e1 = e\<lparr>rx_descs := rx_descs e1, rx_vaddr := rx_vaddr e1\<rparr>" by blast
  have "Suc j + n = 32" "lo \<le> unat (kernel_memory_current_address ma1)"
    "unat (kernel_memory_current_address ma1) + n * 5695 < unat (kernel_memory_end_address ma1)"
    using Suc.prems(1,4,5) ma1 by simp_all
  from Suc.IH [OF this(1) one(2,3) this(2,3)] obtain e' io' ma' where
    "rx_setups env ptr [Suc j..<32] (e1, io1, ma1) = Some (e', io', ma')" "ring_built env lo ptr 32 e' io' ma'" "kernel_ok ma'"
    "kernel_memory_end_address ma' = kernel_memory_end_address ma1" "e' = e1\<lparr>rx_descs := rx_descs e', rx_vaddr := rx_vaddr e'\<rparr>"
    by blast
  moreover from this(5) have "e' = e\<lparr>rx_descs := rx_descs e', rx_vaddr := rx_vaddr e'\<rparr>" by (subst (asm) e1) simp
  ultimately show ?case
    using one(1) ma1(1) by (intro exI conjI) (assumption | simp add: j(2))+
qed

text \<open>The two halves of the base address of the ring recombine to it.\<close>

lemma base_halves: "push_bit 32 (ucast (ucast (drop_bit 32 p) :: u32)) OR ucast (ucast (p AND 0xFFFFFFFF) :: u32) = (p :: u64)"
proof -
  have m: "p AND 0xFFFFFFFF = take_bit 32 p" by (simp add: take_bit_eq_mask mask_eq_exp_minus_1)
  show ?thesis unfolding m
    by (rule bit_word_eqI) (auto simp: bit_simps)
qed

text \<open>Where the descriptors and buffers of a finished ring lie: the buffers do not overlap each other or the
  descriptors, and each descriptor holds the physical address of its buffer.\<close>

definition ring_ready :: "nic_env \<Rightarrow> u64 \<Rightarrow> E1000 \<Rightarrow> nic \<Rightarrow> MemoryAllocator \<Rightarrow> bool" where
  "ring_ready env ptr e io ma \<longleftrightarrow> rx_cur e = 0 \<and> ring_built env (unat ptr + 528) ptr 32 e io ma \<and> kernel_ok ma"

lemma ring_ready_ok:
  assumes "ring_ready env ptr e io ma"
    and "inj_on (to_physical env) {v. unat v < unat (kernel_memory_end_address ma)}"
  shows "rx_ok e io"
proof -
  note b = assms(1) [unfolded ring_ready_def ring_built_def]
  have lim: "unat (rx_vaddr e ! i) < unat (kernel_memory_end_address ma)" if "i < 32" for i
    using b that kernel_ok_bounds(3) [of ma] by fastforce
  have lt: "unat (rx_vaddr e ! k) < unat (rx_vaddr e ! i)" if "i < 32" "k < i" for i k using b that by fastforce
  have "i = k" if "i < 32" "k < 32" "rx_addr (rx_ring io (rx_descs e ! i)) = rx_addr (rx_ring io (rx_descs e ! k))" for i k
  proof -
    have "to_physical env (rx_vaddr e ! i) = to_physical env (rx_vaddr e ! k)" using b that by simp
    then have "rx_vaddr e ! i = rx_vaddr e ! k" using inj_onD [OF assms(2)] lim that(1,2) by blast
    then show ?thesis using lt that(1,2) by (metis less_irrefl nat_neq_iff)
  qed
  then show ?thesis using b by (auto simp: rx_ok_def E1000_NUM_RX_DESC_def distinct_conv_nth)
qed

text \<open>C25: after \<open>e1000RXInit\<close> the receive ring is well formed: 32 descriptors 16 bytes apart, each with a buffer of its own
  that overlaps neither another buffer nor the descriptors; receiving can start, and the card has been told the
  physical address of the ring, its length and its ends before it was enabled.\<close>

theorem e1000_rx_ring_well_formed:
  assumes "keeps_buffers env" "kernel_ok ma" "length (rx_descs e) = 32" "length (rx_vaddr e) = 32"
    and "unat (kernel_memory_current_address ma) + 190000 < unat (kernel_memory_end_address ma)"
    and "inj_on (to_physical env) {v. unat v < unat (kernel_memory_end_address ma)}"
  shows "\<exists>ptr e' io' ma' t lo hi. e1000RXInit env e io ma = Some (Inr (e', io', ma')) \<and> ring_ready env ptr e' io' ma' \<and> rx_ok e' io' \<and>
    nic_trace io' = t @ write_events e REG_RXDESCLO lo @ write_events e REG_RXDESCHI hi @ write_events e REG_RXDESCLEN 512 @
      write_events e REG_RXDESCHEAD 0 @ write_events e REG_RXDESCTAIL 31 @ write_events e REG_RCTRL receive_flags \<and>
    push_bit 32 (ucast hi) OR ucast lo = to_physical env ptr"
proof -
  let ?io0 = "e1000WriteCommand env e REG_RCTRL 0 (e1000WriteCommand env e REG_RCTRL
      (fst (e1000ReadCommand env e REG_RCTRL io) AND NOT RCTL_EN) (snd (e1000ReadCommand env e REG_RCTRL io)))"
  obtain ptr ma1 where k: "kvalloc (self_id env) ma 528 = Some (ptr, ma1)" and ma1: "kernel_ok ma1"
      "kernel_memory_end_address ma1 = kernel_memory_end_address ma" "0 < unat ptr"
      "unat ptr \<le> unat (kernel_memory_current_address ma) + 4095" "unat (kernel_memory_current_address ma1) = unat ptr + 528"
    using kvalloc_room [OF assms(2), of 528 "self_id env"] assms(5) by auto
  have "ring_built env (unat ptr + 528) ptr 0 e ?io0 ma1" using assms(3,4) by (simp add: ring_built_def)
  from rx_setups_built [OF assms(1) _ this ma1(1), of 32] ma1 assms(5) obtain e' io1 ma'
    where run: "rx_setups env ptr [0..<32] (e, ?io0, ma1) = Some (e', io1, ma')" "ring_built env (unat ptr + 528) ptr 32 e' io1 ma'"
      "kernel_ok ma'" "kernel_memory_end_address ma' = kernel_memory_end_address ma" "e' = e\<lparr>rx_descs := rx_descs e', rx_vaddr := rx_vaddr e'\<rparr>"
    by auto
  define io2 where "io2 = e1000WriteCommand env (e'\<lparr>rx_cur := 0\<rparr>) REG_RCTRL receive_flags (rx_program env (to_physical env ptr) e' io1)"
  have "rx_addr (rx_ring io2 a) = rx_addr (rx_ring io1 a)" for a
    by (simp add: io2_def rx_program_def Let_def keeps_steps [OF assms(1)])
  then have ready: "ring_ready env ptr (e'\<lparr>rx_cur := 0\<rparr>) io2 ma'" using run(2,3) by (simp add: ring_ready_def ring_built_def)
  have ok: "rx_ok (e'\<lparr>rx_cur := 0\<rparr>) io2" using ring_ready_ok [OF ready] assms(6) run(4) by simp
  have "write_events e' r v = write_events e r v" for r v by (subst run(5)) (simp add: write_events_def)
  then have "nic_trace io2 = nic_trace io1 @ write_events e REG_RXDESCLO (ucast (to_physical env ptr AND 0xFFFFFFFF)) @
      write_events e REG_RXDESCHI (ucast (drop_bit 32 (to_physical env ptr))) @ write_events e REG_RXDESCLEN 512 @
      write_events e REG_RXDESCHEAD 0 @ write_events e REG_RXDESCTAIL 31 @ write_events e REG_RCTRL receive_flags"
    by (simp add: io2_def rx_program_def Let_def E1000_NUM_RX_DESC_def)
  moreover have "e1000RXInit env e io ma = Some (Inr (e'\<lparr>rx_cur := 0\<rparr>, io2, ma'))"
    using k run(1) ma1(3) by (simp add: e1000RXInit_def E1000_NUM_RX_DESC_def split_beta Let_def io2_def unat_gt_0)
  ultimately show ?thesis using ready ok base_halves by blast
qed

section \<open>A change of the link\<close>

definition link_events :: "E1000 \<Rightarrow> u32 \<Rightarrow> nic_access list" where
  "link_events e ctrl = read_events e REG_CTRL @ write_events e REG_CTRL (ctrl OR link_flags) @ write_events e 0x0030 0x8808 @
     write_events e 0x0028 0x00000100 @ write_events e 0x002C 0x00C28001 @ write_events e 0x0170 0x0"

lemma start_link_trace:
  "nic_trace (e1000StartLink env e io) = nic_trace io @ link_events e (fst (e1000ReadCommand env e REG_CTRL io))"
  by (simp add: e1000StartLink_def link_events_def Let_def split_beta)

text \<open>On a change of the link the accesses that should start it go to an address, or to ports, taken from the bytes of
  the generic driver structure, not to the card.\<close>

lemma link_interrupt_misses_card:
  assumes "(ucast word8 :: u8) = E1000_TYPE" "ucast (int_line (e_drv st)) = interrupt_number ctx" "fst (e1000ReadCommand env (e_drv st) REG_ICR (e_nic st)) AND 0x04 \<noteq> 0"
    "unat (core_id_ret (getCurrentCoreId (lapic_dev env) (net_apic (e_net st)))) < length (apics (net_apic (e_net st)))"
  shows "\<exists>st' v. e1000InterruptHandler env behind driver_ptr word8 ctx st = Some (Inr st') \<and>
    nic_trace (e_nic st') = nic_trace (e_nic st) @ read_events (e_drv st) REG_ICR @ link_events (as_e1000 driver_ptr word8 (e_drv st)) v @
      read_events (e_drv st) REG_ICR @ write_events (e_drv st) REG_ICR 0xFFFFFFFF"
proof -
  have "arr_get (apics (getCurrentCoreId (lapic_dev env) (net_apic (e_net st))))
      (int (unat (core_id_ret (getCurrentCoreId (lapic_dev env) (net_apic (e_net st)))))) =
    Inr (apics (net_apic (e_net st)) ! unat (core_id_ret (getCurrentCoreId (lapic_dev env) (net_apic (e_net st)))))"
    using assms(4) by (simp add: arr_get_def in_array_def core_id_frame unat_less_uint)
  moreover have "v OR 0xFFFFFFFF = 0xFFFFFFFF" for v :: u32
  proof -
    have "(0xFFFFFFFF :: u32) = - 1" by simp
    then show ?thesis by (simp only: bit.disj_one_right)
  qed
  ultimately show ?thesis
    using assms(1-3) by (auto simp: e1000InterruptHandler_def Let_def split_beta start_link_trace)
qed

section \<open>Concrete cards\<close>

definition demo_env :: nic_env where
  "demo_env = \<lparr>card_reads = (\<lambda>_. 1), card_rx = (\<lambda>_ m. m), card_tx = (\<lambda>_ m a. (m a)\<lparr>tx_status := 1\<rparr>), card_frames = (\<lambda>_ f. f),
     lapic_dev = (\<lambda>_ _ _. 0), self_id = 0, page_words = (\<lambda>_. 0), page_dir = 0\<rparr>"

definition demo_e1000 :: E1000 where
  "demo_e1000 = \<lparr>bar_type = 0, io_base = 0, mem_base = 0xF0000000, eerprom_exists = True, e_mac = [2], mac_str = [], rx_vaddr = replicate 32 0,
     rx_descs = map (\<lambda>i. 0x2000 + of_nat i) [0..<32], tx_descs = replicate 8 0x1000, rx_cur = 0, tx_cur = 7,
     e_lock = \<lparr>lapic = 0, stack = 0, core_id = 0, spin_lock = 0\<rparr>, int_line = 43\<rparr>"

definition demo_nic :: nic where
  "demo_nic = \<lparr>nic_trace = [], rx_ring = (\<lambda>a. \<lparr>rx_addr = a, rx_length = 60, rx_checksum = 0, rx_status = (if a = 0x2000 then 1 else 0), rx_errors = 0, rx_special = 0\<rparr>),
     tx_ring = (\<lambda>a. \<lparr>tx_addr = 0, tx_length = 0, tx_cso = 0, tx_cmd = 0, tx_status = 0, tx_css = 0, tx_special = 0\<rparr>),
     frames = (\<lambda>_. \<lparr>h_dest = [], h_source = [1], h_proto = 0, h_data = []\<rparr>)\<rparr>"

lemma demo_card: "reports demo_env demo_e1000" "quiet_rx demo_env" "keeps_buffers demo_env"
proof -
  have "\<exists>n. tx_status (tx_ring ((nic_step demo_env (Tx_poll a) ^^ n) io) a) \<noteq> 0" for io a
    by (rule exI [where x = 1]) (simp add: demo_env_def)
  then show "reports demo_env demo_e1000" by (simp add: reports_def demo_env_def)
qed (simp_all add: quiet_rx_def keeps_buffers_def demo_env_def)

lemma demo_rings: "tx_ok demo_e1000" "rx_ok demo_e1000 demo_nic"
proof -
  show "tx_ok demo_e1000" by (simp add: tx_ok_def demo_e1000_def lock_free_def E1000_NUM_TX_DESC_def)
  have "inj_on (\<lambda>i. 0x2000 + of_nat i :: u64) {0..<32}"
  proof (rule inj_onI)
    fix i j :: nat
    assume *: "i \<in> {0..<32}" "j \<in> {0..<32}" "0x2000 + of_nat i = (0x2000 + of_nat j :: u64)"
    have "unat (of_nat k :: u64) = k" if "k < 32" for k :: nat by (rule unat_of_nat_small) (use that in simp)
    moreover have "unat (of_nat i :: u64) = unat (of_nat j :: u64)" using *(3) by simp
    ultimately show "i = j" using *(1,2) by simp
  qed
  then show "rx_ok demo_e1000 demo_nic"
    by (simp add: rx_ok_def demo_e1000_def demo_nic_def E1000_NUM_RX_DESC_def distinct_map comp_def del: upt_rec_numeral)
qed

theorem e1000_send_hands_over_witness:
  "tx_ok demo_e1000 \<and> reports demo_env demo_e1000 \<and>
    (\<exists>io'. e1000SendPacket demo_env 0x5000 60 demo_e1000 demo_nic = Some (Inr (0, demo_e1000\<lparr>tx_cur := 0\<rparr>, io')))"
proof -
  have "next_tx demo_e1000 = 0" by (simp add: next_tx_def demo_e1000_def E1000_NUM_TX_DESC_def)
  then show ?thesis
    using e1000_send_hands_over [OF demo_rings(1) demo_card(1), where p_data = "0x5000" and p_len = 60 and io = demo_nic]
      demo_rings(1) demo_card(1) by auto
qed

text \<open>One frame of a protocol the kernel does not know has arrived.\<close>

definition demo_received :: e1000_state where
  "demo_received = \<lparr>e_drv = demo_e1000, e_nic = demo_nic, e_net = \<lparr>net_skb = skb_at demo_nic 0, net_sent = [], net_apic = demo_apic_state\<rparr>,
     packets_received = 0\<rparr>"

theorem e1000_receive_processes_ring_witness:
  "\<exists>st'. e1000HandleReceive demo_env [] demo_received = Some (Inr st') \<and> rx_cur (e_drv st') = 1 \<and> packets_received st' = 1"
proof -
  let ?net = "(e_net demo_received)\<lparr>net_skb := skb_at demo_nic 0x2000\<rparr>"
  have drv: "e_drv demo_received = demo_e1000" "e_nic demo_received = demo_nic" by (simp_all add: demo_received_def)
  have slot: "slot demo_e1000 0 = 0" "slot demo_e1000 1 = 1" "slot demo_e1000 (Suc 0) = 1" by (simp_all add: slot_def demo_e1000_def E1000_NUM_RX_DESC_def)
  have d: "desc_at demo_e1000 0 = 0x2000" "desc_at demo_e1000 1 = 0x2001"
    unfolding desc_at_def slot by (simp_all add: demo_e1000_def del: upt_rec_numeral)
  have run: "\<forall>i<1. ready (rx_ring demo_nic (desc_at demo_e1000 i))" "\<not> ready (rx_ring demo_nic (desc_at demo_e1000 1))"
    using d by (simp_all add: ready_def demo_nic_def)
  have one: "(1 :: nat) < 32" by simp
  have head: "ucast (fst (e1000ReadCommand demo_env demo_e1000 REG_RXDESCHEAD demo_nic)) \<noteq> rx_cur demo_e1000"
    by (simp add: e1000ReadCommand_def demo_env_def demo_e1000_def)
  have "process_all (lapic_dev demo_env) \<lparr>mac = e_mac demo_e1000\<rparr> [] (map (\<lambda>i. skb_at demo_nic (desc_at demo_e1000 i)) [0..<1]) (e_net demo_received) =
      Some (Inr ?net)"
    by (simp add: d processEthernetPacket_def skb_at_def demo_nic_def demo_e1000_def htons_def)
  from e1000_receive_processes_ring [OF _ demo_card(2), of demo_received 1, unfolded drv, OF demo_card(1) demo_rings one head run this refl]
  obtain st' where "e1000HandleReceive demo_env [] demo_received = Some (Inr st')"
      "rx_cur (e_drv st') = of_nat (slot demo_e1000 1)"
      "packets_received st' = packets_received demo_received + of_nat 1" by auto
  then show ?thesis by (intro exI [where x = st'] conjI) (simp_all add: slot demo_received_def)
qed

definition demo_heap :: MemoryAllocator where
  "demo_heap = \<lparr>kernel_memory_start_address = 0x100000, kernel_memory_current_address = 0x100000, kernel_memory_end_address = 0x1FF000,
     user_memory_start_address = 0, user_memory_current_address = 0, user_memory_end_address = 0, touch = 0,
     spinlock = \<lparr>lapic = 0, stack = 0, core_id = 0, spin_lock = 0\<rparr>\<rparr>"

theorem e1000_rx_ring_well_formed_witness:
  "\<exists>ptr e' io' ma'. e1000RXInit demo_env demo_e1000 demo_nic demo_heap = Some (Inr (e', io', ma')) \<and> ring_ready demo_env ptr e' io' ma'"
proof -
  have id: "to_physical demo_env v = v" if "unat v < unat (kernel_memory_end_address demo_heap)" for v
  proof -
    have "unat v < 2 ^ 21" using that by (simp add: demo_heap_def)
    then have "take_bit 21 v = v" by (simp add: word_unat_eq_iff unsigned_take_bit_eq take_bit_nat_eq_self)
    then show ?thesis
      by (simp add: to_physical_def demo_env_def v2p2m_def set_offset_def and.commute [of _ v] take_bit_eq_mask mask_eq_exp_minus_1)
  qed
  then have "inj_on (to_physical demo_env) {v. unat v < unat (kernel_memory_end_address demo_heap)}"
    by (simp add: inj_on_def)
  moreover have "kernel_ok demo_heap" by (simp add: kernel_ok_def demo_heap_def lock_free_def)
  moreover have "length (rx_descs demo_e1000) = 32" "length (rx_vaddr demo_e1000) = 32" by (simp_all add: demo_e1000_def)
  moreover have "unat (kernel_memory_current_address demo_heap) + 190000 < unat (kernel_memory_end_address demo_heap)"
    by (simp add: demo_heap_def)
  ultimately show ?thesis using e1000_rx_ring_well_formed [OF demo_card(3)] by blast
qed

end
