(* ===== verification/Ports.thy ===== *)
theory Ports
  imports Nile_Prelude
begin

text \<open>
  Port input and output (\<open>misc/Ports.c\<close>). A core's accesses form a trace. The value an input returns is up to the
  hardware: a function of the trace that ends with it.
\<close>

datatype port_access = Out8 u16 u8 | Out16 u16 u16 | Out32 u16 u32 | In8 u16 | In16 u16 | In32 u16

type_synonym port_trace = "port_access list"
type_synonym port_hw = "port_trace \<Rightarrow> u32"

definition out8 :: "u16 \<Rightarrow> u8 \<Rightarrow> port_trace \<Rightarrow> port_trace" where
  "out8 p_port p_data t = t @ [Out8 p_port p_data]"

definition out16 :: "u16 \<Rightarrow> u16 \<Rightarrow> port_trace \<Rightarrow> port_trace" where
  "out16 p_port p_data t = t @ [Out16 p_port p_data]"

definition out32 :: "u16 \<Rightarrow> u32 \<Rightarrow> port_trace \<Rightarrow> port_trace" where
  "out32 p_port p_data t = t @ [Out32 p_port p_data]"

definition in8 :: "port_hw \<Rightarrow> u16 \<Rightarrow> port_trace \<Rightarrow> u8 \<times> port_trace" where
  "in8 hw p_port t = (ucast (hw (t @ [In8 p_port])), t @ [In8 p_port])"

definition in16 :: "port_hw \<Rightarrow> u16 \<Rightarrow> port_trace \<Rightarrow> u16 \<times> port_trace" where
  "in16 hw p_port t = (ucast (hw (t @ [In16 p_port])), t @ [In16 p_port])"

definition in32 :: "port_hw \<Rightarrow> u16 \<Rightarrow> port_trace \<Rightarrow> u32 \<times> port_trace" where
  "in32 hw p_port t = (hw (t @ [In32 p_port]), t @ [In32 p_port])"

end
