(* ===== verification/Clock.thy ===== *)
theory Clock
  imports Ports
begin

text \<open>
  The real-time clock (\<open>misc/ClockUtils.c\<close>): reading its registers, the conversion of a date to seconds, waiting.
  \<open>None\<close> stands for a wait that does not end.
\<close>

section \<open>Registers\<close>

definition cmos_address :: u16 where "cmos_address = 0x70"
definition cmos_data :: u16 where "cmos_data = 0x71"

definition getRTCRegister :: "port_hw \<Rightarrow> u8 \<Rightarrow> port_trace \<Rightarrow> u8 \<times> port_trace" where
  "getRTCRegister hw p_reg t = in8 hw cmos_data (out8 cmos_address p_reg t)"

definition getUpdateInProgressFlag :: "port_hw \<Rightarrow> port_trace \<Rightarrow> u8 \<times> port_trace" where
  "getUpdateInProgressFlag hw t = (let (v, t) = in8 hw cmos_data (out8 cmos_address 0x0A t) in (v AND 0x80, t))"

definition wait_update :: "port_hw \<Rightarrow> port_trace \<Rightarrow> port_trace option" where
  "wait_update hw t =
     map_option snd (while_option (\<lambda>(f, t). f \<noteq> 0) (\<lambda>(f, t). getUpdateInProgressFlag hw t) (getUpdateInProgressFlag hw t))"

section \<open>Seconds of a date\<close>

definition month_seconds :: "nat \<Rightarrow> nat \<Rightarrow> u64" where
  "month_seconds y m =
     (if m = 1 \<or> m = 3 \<or> m = 5 \<or> m = 7 \<or> m = 8 \<or> m = 10 \<or> m = 12 then 31 * 24 * 60 * 60
      else if m = 4 \<or> m = 6 \<or> m = 9 \<or> m = 11 then 30 * 24 * 60 * 60
      else if m = 2 \<and> y = 0 then 29 * 24 * 60 * 60
      else if m = 2 \<and> y \<noteq> 0 then 28 * 24 * 60 * 60
      else 0)"

text \<open>The part of the day is computed in \<open>int\<close>; minutes and hours are counted from one there.\<close>

definition last_year :: "u8 \<Rightarrow> u8 \<Rightarrow> u8 \<Rightarrow> u8 \<Rightarrow> u8 \<Rightarrow> nat \<Rightarrow> u64 \<Rightarrow> u64" where
  "last_year p_seconds p_minutes p_hours p_day p_month y ts =
     fold (\<lambda>m ts. ts + month_seconds y m) [1..<unat p_month] ts +
     of_int (uint p_seconds + (uint p_minutes - 1) * 60 + (uint p_hours - 1) * 60 * 60 + (uint p_day - 1) * 24 * 60 * 60)"

text \<open>The loop over the years does not end for the year 65535.\<close>

definition timeStamp32 :: "u8 \<Rightarrow> u8 \<Rightarrow> u8 \<Rightarrow> u8 \<Rightarrow> u8 \<Rightarrow> u16 \<Rightarrow> u32 option" where
  "timeStamp32 p_seconds p_minutes p_hours p_day p_month p_year =
     map_option (\<lambda>(i, y, ts). ucast (ts - (8 * 60 * 60 + 55 * 60)))
       (while_option (\<lambda>(i, y, ts). i \<le> p_year)
         (\<lambda>(i, y, ts). (i + 1, (y + 1) mod 4,
            if i = p_year then last_year p_seconds p_minutes p_hours p_day p_month y ts
            else if y = 0 then ts + 366 * 24 * 60 * 60
            else ts + 365 * 24 * 60 * 60))
         (1970 :: u16, 2 :: nat, 0 :: u64))"

definition timeStamp64 :: "u8 \<Rightarrow> u8 \<Rightarrow> u8 \<Rightarrow> u8 \<Rightarrow> u8 \<Rightarrow> u16 \<Rightarrow> u64 option" where
  "timeStamp64 p_seconds p_minutes p_hours p_day p_month p_year =
     map_option ucast (timeStamp32 p_seconds p_minutes p_hours p_day p_month p_year)"

section \<open>Reading the clock\<close>

definition from_bcd :: "u8 \<Rightarrow> u8" where
  "from_bcd v = (v AND 0x0F) + (v div 16) * 10"

definition bcd_hours :: "u8 \<Rightarrow> u8" where
  "bcd_hours v = ((v AND 0x0F) + ((v AND 0x70) div 16) * 10) OR (v AND 0x80)"

definition read_clock :: "port_hw \<Rightarrow> port_trace \<Rightarrow> ((u8 \<times> u8 \<times> u8 \<times> u8 \<times> u8 \<times> u16) \<times> port_trace) option" where
  "read_clock hw t =
     map_option (\<lambda>t.
       let (seconds, t) = getRTCRegister hw 0x00 t;
           (minutes, t) = getRTCRegister hw 0x02 t;
           (hours, t) = getRTCRegister hw 0x04 t;
           (day, t) = getRTCRegister hw 0x07 t;
           (month, t) = getRTCRegister hw 0x08 t;
           (yr, t) = getRTCRegister hw 0x09 t;
           (registerB, t) = getRTCRegister hw 0x0B t;
           (seconds, minutes, hours, day, month, yr) =
             (if registerB AND 0x04 = 0
              then (from_bcd seconds, from_bcd minutes, bcd_hours hours, from_bcd day, from_bcd month, ucast (from_bcd yr) :: u16)
              else (seconds, minutes, hours, day, month, ucast yr));
           hours = (if registerB AND 0x02 = 0 \<and> hours AND 0x80 \<noteq> 0 then ((hours AND 0x7F) + 12) mod 24 else hours)
       in ((seconds, minutes, hours, day, month, yr + 2000), t)) (wait_update hw t)"

definition getRTCTimeStamp32 :: "port_hw \<Rightarrow> port_trace \<Rightarrow> (u32 \<times> port_trace) option" where
  "getRTCTimeStamp32 hw t =
     Option.bind (read_clock hw t) (\<lambda>((s, mi, h, d, mo, y), t). map_option (\<lambda>x. (x, t)) (timeStamp32 s mi h d mo y))"

definition getRTCTimeStamp64 :: "port_hw \<Rightarrow> port_trace \<Rightarrow> (u64 \<times> port_trace) option" where
  "getRTCTimeStamp64 hw t =
     Option.bind (read_clock hw t) (\<lambda>((s, mi, h, d, mo, y), t). map_option (\<lambda>x. (x, t)) (timeStamp64 s mi h d mo y))"

partial_function (option) sleep_loop :: "port_hw \<Rightarrow> u64 \<Rightarrow> port_trace \<Rightarrow> port_trace option" where
  "sleep_loop hw limit t =
     Option.bind (getRTCTimeStamp64 hw t) (\<lambda>(now, t). if limit \<ge> now then sleep_loop hw limit t else Some t)"

definition RTCSleep :: "port_hw \<Rightarrow> u16 \<Rightarrow> port_trace \<Rightarrow> port_trace option" where
  "RTCSleep hw p_seconds t =
     Option.bind (getRTCTimeStamp64 hw t) (\<lambda>(initial_timestamp, t). sleep_loop hw (initial_timestamp + ucast p_seconds) t)"

definition random :: "port_hw \<Rightarrow> u64 \<Rightarrow> port_trace \<Rightarrow> (u64 \<times> port_trace) result option" where
  "random hw p_max t =
     map_option (\<lambda>(now, t). if p_max = 0 then Inl Division_by_zero
         else Inr (ucast (ucast ((100 * 1103515245 + 12345 + ucast now :: u64) div 65536) :: u32) mod p_max, t))
       (getRTCTimeStamp32 hw t)"

section \<open>The Gregorian calendar\<close>

definition leap :: "nat \<Rightarrow> bool" where
  "leap y \<longleftrightarrow> 4 dvd y \<and> (\<not> 100 dvd y \<or> 400 dvd y)"

definition year_days :: "nat \<Rightarrow> nat" where
  "year_days y = (if leap y then 366 else 365)"

definition month_days :: "nat \<Rightarrow> nat \<Rightarrow> nat" where
  "month_days y m = (if m = 2 then if leap y then 29 else 28 else if m \<in> {4, 6, 9, 11} then 30 else 31)"

text \<open>Seconds from the start of 1970 to a date.\<close>

definition unix_time :: "nat \<Rightarrow> nat \<Rightarrow> nat \<Rightarrow> nat \<Rightarrow> nat \<Rightarrow> nat \<Rightarrow> int" where
  "unix_time s mi h d mo y =
     (int (sum_list (map year_days [1970..<y])) + int (sum_list (map (month_days y) [1..<mo])) + int d - 1) * 86400 +
     int h * 3600 + int mi * 60 + int s"

lemma leap_century:
  assumes "1970 \<le> y" "y < 2100"
  shows "leap y \<longleftrightarrow> y mod 4 = 0"
proof -
  have "400 dvd y" if d: "100 dvd y"
  proof -
    obtain k where k: "y = 100 * k" using d by (auto simp: dvd_def)
    then have "k = 20" using assms by simp
    then show ?thesis using k by simp
  qed
  then show ?thesis by (auto simp: leap_def)
qed

lemma months_sum:
  assumes "1970 \<le> y" "y < 2100"
  shows "n \<le> 13 \<Longrightarrow> fold (\<lambda>m ts. ts + month_seconds (y mod 4) m) [1..<n] ts =
    ts + of_nat (sum_list (map (month_days y) [1..<n]) * 86400)"
proof (induction n)
  case (Suc n)
  show ?case
  proof (cases "n = 0")
    case False
    have "n \<in> {1, 2, 3, 4, 5, 6, 7, 8, 9, 10, 11, 12}" using Suc.prems False by simp presburger
    then have "month_seconds (y mod 4) n = of_nat (month_days y n * 86400)"
      by (auto simp: month_seconds_def month_days_def leap_century [OF assms])
    then show ?thesis using Suc False by (simp add: algebra_simps)
  qed simp
qed simp

text \<open>The state of the loop over the years when it reaches year \<open>i\<close>, and what remains to be added.\<close>

lemma year_loop:
  fixes ts :: u64
  assumes "y < 2100"
  shows "1970 \<le> i \<Longrightarrow> i \<le> y \<Longrightarrow>
    while_option (\<lambda>(i, y', ts). i \<le> (of_nat y :: u16))
      (\<lambda>(i, y', ts). (i + 1, (y' + 1) mod 4, if i = of_nat y then last_year p_s p_mi p_h p_d p_mo y' ts
         else if y' = 0 then ts + 366 * 24 * 60 * 60 else ts + 365 * 24 * 60 * 60)) (of_nat i, i mod 4, ts) =
    Some (of_nat (y + 1), (y + 1) mod 4, last_year p_s p_mi p_h p_d p_mo (y mod 4) (ts + of_nat (sum_list (map year_days [i..<y]) * 86400)))"
    (is "_ \<Longrightarrow> _ \<Longrightarrow> while_option ?C ?B _ = _")
proof (induction "y - i" arbitrary: i ts)
  case 0
  then have "i = y" by simp
  moreover have "\<not> (of_nat y + 1 :: u16) \<le> of_nat y"
  proof -
    have u: "unat (of_nat k :: u16) = k" if "k < 3000" for k by (rule unat_of_nat_small) (use that in simp)
    have "unat (of_nat y :: u16) = y" by (rule u) (use assms in simp)
    moreover have "unat (of_nat (y + 1) :: u16) = y + 1" by (rule u) (use assms in simp)
    moreover have "(of_nat y + 1 :: u16) = of_nat (y + 1)" by simp
    ultimately show ?thesis unfolding word_le_nat_alt by (metis Suc_eq_plus1 not_less_eq_eq order_refl)
  qed
  ultimately show ?case
    by (subst while_option_unfold, simp, subst while_option_unfold, simp add: mod_Suc_eq add.commute)
next
  case (Suc n)
  have i: "i < y" "y - Suc i = n" using Suc.hyps(2) by simp_all
  have le: "(of_nat i :: u16) \<le> of_nat y" "(of_nat i :: u16) \<noteq> of_nat y"
    using assms i unat_of_nat_small [of y, where 'a = 16] unat_of_nat_small [of i, where 'a = 16]
    by (auto simp: word_le_nat_alt word_unat_eq_iff)
  have days: "(if i mod 4 = 0 then ts + 366 * 24 * 60 * 60 else ts + 365 * 24 * 60 * 60) = ts + of_nat (year_days i * 86400)"
    using leap_century [of i] Suc.prems assms by (simp add: year_days_def)
  have "while_option ?C ?B (of_nat i, i mod 4, ts) = while_option ?C ?B (of_nat (Suc i), Suc i mod 4, ts + of_nat (year_days i * 86400))"
    using le days by (subst while_option_unfold) (simp add: mod_Suc_eq add.commute)
  then show ?case
    using Suc.hyps(1) [of "Suc i"] i Suc.prems by (simp add: upt_conv_Cons algebra_simps del: upt_Suc)
qed

lemma timestamp_returns:
  assumes "1970 \<le> y" "y < 2100"
  shows "\<exists>v. timeStamp32 p_s p_mi p_h p_d p_mo (of_nat y) = Some v"
proof -
  have "(of_nat 1970 :: u16, 1970 mod 4 :: nat, 0 :: u64) = (1970, 2, 0)" by simp
  with year_loop [OF assms(2) order_refl assms(1), of p_s p_mi p_h p_d p_mo 0] show ?thesis by (simp add: timeStamp32_def)
qed

text \<open>C18: for a date from 1970 to 2099 \<open>timeStamp32\<close> returns, and its result is the number of seconds since the start of 1970
  in the Gregorian calendar, less a constant 35760 and modulo the range of the type: differences of time stamps are exact.\<close>

theorem timestamp_is_calendar_time:
  assumes "1970 \<le> y" "y < 2100" "unat p_mo \<le> 13"
  shows "timeStamp32 p_s p_mi p_h p_d p_mo (of_nat y) =
    Some (of_int (unix_time (unat p_s) (unat p_mi) (unat p_h) (unat p_d) (unat p_mo) y - 35760))"
proof -
  let ?days = "sum_list (map year_days [1970..<y])" and ?months = "sum_list (map (month_days y) [1..<unat p_mo])"
  let ?day = "uint p_s + (uint p_mi - 1) * 60 + (uint p_h - 1) * 60 * 60 + (uint p_d - 1) * 24 * 60 * 60"
  have "of_int (unix_time (unat p_s) (unat p_mi) (unat p_h) (unat p_d) (unat p_mo) y - 35760) =
      (of_nat (?days * 86400) + of_nat (?months * 86400) + of_int ?day - 32100 :: u64)"
  proof -
    have "unix_time (unat p_s) (unat p_mi) (unat p_h) (unat p_d) (unat p_mo) y - 35760 =
        int (?days * 86400) + int (?months * 86400) + ?day - 32100"
      by (simp add: unix_time_def algebra_simps del: upt_Suc)
    then show ?thesis by (simp only: of_int_add of_int_diff of_int_of_nat_eq of_int_numeral)
  qed
  moreover have "ucast (of_int k :: u64) = (of_int k :: u32)" for k
    by (simp add: unsigned_of_int word_of_int_eq_iff take_bit_take_bit)
  moreover have "timeStamp32 p_s p_mi p_h p_d p_mo (of_nat y) =
      Some (ucast (of_nat (?days * 86400) + of_nat (?months * 86400) + of_int ?day - 32100 :: u64))"
  proof -
    have init: "(of_nat 1970 :: u16, 1970 mod 4 :: nat, 0 :: u64) = (1970, 2, 0)" by simp
    have "(8 * 60 * 60 + 55 * 60 :: u64) = 32100" by simp
    then show ?thesis
      unfolding timeStamp32_def year_loop [OF assms(2) order_refl assms(1), of p_s p_mi p_h p_d p_mo 0, unfolded init]
      by (simp only: option.map prod.case last_year_def months_sum [OF assms] add_0)
  qed
  ultimately show ?thesis by metis
qed

theorem timestamp_is_calendar_time_witness:
  "timeStamp32 30 45 12 1 3 1972 = Some 68266170"
proof -
  have "[1..<3] = [1, 2 :: nat]" "[1970..<1972] = [1970, 1971 :: nat]" by (simp_all add: upt_rec)
  then have "unix_time 30 45 12 1 3 1972 = 68301930"
    by (simp add: unix_time_def year_days_def month_days_def leap_def)
  moreover have "timeStamp32 30 45 12 1 3 (of_nat 1972) =
      Some (of_int (unix_time (unat (30 :: u8)) (unat (45 :: u8)) (unat (12 :: u8)) (unat (1 :: u8)) (unat (3 :: u8)) 1972 - 35760))"
    by (rule timestamp_is_calendar_time) simp_all
  ultimately show ?thesis by simp
qed

end
