(* ===== verification/Ata.thy ===== *)
theory Ata
  imports MemCopy Apic Pci Clock
begin

text \<open>
  The disk driver (\<open>devices/ata/ATADisk.c\<close>, \<open>devices/ata/ATAManager.c\<close>): programmed input and output, DMA
  through tables of physical regions, detection, and the interrupt handlers that continue a DMA transfer. The driver's port
  accesses form a trace. The disk answers reads and may change memory after each access; both are functions of the trace,
  so a theorem that does not restrict them holds for every behaviour of the disk. \<open>None\<close> stands for a loop that does not
  end. A disk is referred to by its index in \<open>ataDisks\<close>. Console output is left out.
\<close>

section \<open>Constants\<close>

definition ATA_COUNT :: nat where "ATA_COUNT = 4"
definition ATA_PRIMARY_IO :: u16 where "ATA_PRIMARY_IO = 0x1F0"
definition ATA_SECONDARY_IO :: u16 where "ATA_SECONDARY_IO = 0x170"
definition ATA_PRIMARY_DCR_AS :: u16 where "ATA_PRIMARY_DCR_AS = 0x3F6"
definition ATA_SECONDARY_DCR_AS :: u16 where "ATA_SECONDARY_DCR_AS = 0x376"
definition ATA_MASTER_DRV_SELECTOR :: u8 where "ATA_MASTER_DRV_SELECTOR = 0xA0"
definition ATA_SLAVE_DRV_SELECTOR :: u8 where "ATA_SLAVE_DRV_SELECTOR = 0xB0"
definition ATA_SR_BSY :: u8 where "ATA_SR_BSY = 0x80"
definition ATA_SR_DRDY :: u8 where "ATA_SR_DRDY = 0x40"
definition ATA_SR_DRQ :: u8 where "ATA_SR_DRQ = 0x08"
definition ATA_SR_ERR :: u8 where "ATA_SR_ERR = 0x01"
definition WRITE_PIO_SUCCESS :: u8 where "WRITE_PIO_SUCCESS = 1"
definition WRITE_PIO_FAIL :: u8 where "WRITE_PIO_FAIL = 2"
definition READ_PIO_SUCCESS :: u8 where "READ_PIO_SUCCESS = 3"
definition READ_PIO_FAIL :: u8 where "READ_PIO_FAIL = 4"
definition WRITE_DMA_SUCCESS :: u8 where "WRITE_DMA_SUCCESS = 5"
definition WRITE_DMA_FAIL :: u8 where "WRITE_DMA_FAIL = 6"
definition READ_DMA_SUCCESS :: u8 where "READ_DMA_SUCCESS = 7"
definition DMA_CHUNK :: u64 where "DMA_CHUNK = 256"
definition DMA_CHUNK_EXT :: u64 where "DMA_CHUNK_EXT = 65534"
definition IRQ14 :: u64 where "IRQ14 = 46"
definition IRQ15 :: u64 where "IRQ15 = 47"
definition ATA_IPI :: u8 where "ATA_IPI = 100"

section \<open>State\<close>

record ATADisk =
  ata_desc :: "u8 list"
  serial :: "u8 list"
  fw_revision :: "u8 list"
  model_no :: "u8 list"
  io_port :: u16
  control_base :: u16
  drv_selector :: u8
  disk_size :: u32
  slavebit :: u8
  dma :: bool
  prdt :: u64
  dma_phy_address :: u64
  dma_port_address :: u32
  dma_mmio_address :: u32
  bm_offset :: u8
  capabilities :: u32
  commandsets :: u32
  lba48 :: bool
  done_read :: bool

record DMABuffer =
  b_ataDisk :: "nat option"
  b_buffer :: u64
  current_read :: u64
  total_read :: u64
  total_read_bytes :: u64
  target_read :: u64
  current_write :: u64
  total_write :: u64
  target_write :: u64
  current_address :: u64
  start_address :: u64
  start_offset :: u16
  end_offset :: u16
  start_time :: u64
  b_core_id :: u8
  b_lba48 :: bool
  b_read :: bool
  b_spinlock :: spinlock_t
  current_select :: u64
  write_done :: bool
  enabled :: bool
  read_done :: bool

record ATAManager =
  ataDisks :: "ATADisk option list"
  m_dma_port_address :: u32
  m_dma_mmio_address :: u32
  device_names :: "u8 list list"
  device_ids :: "u16 list"
  prdt1 :: u64
  prdt2 :: u64
  dma_phy_address1 :: u64
  dma_phy_address2 :: u64

record ata_io =
  ports :: port_trace
  mem :: memory

text \<open>The interrupt controllers come with the heap.\<close>

record ata_state =
  at_io :: ata_io
  ataManager :: ATAManager
  dmaBuffer :: DMABuffer
  at_apic :: apic_state
  at_pci :: PCIService
  at_pci_ports :: pci_ports

text \<open>The surroundings: what a port reads, what the disk does to memory after an access, the interrupt controllers and
  the PCI bus, the executing core, the contents of a fresh block of the heap.\<close>

record ata_env =
  port_in :: port_hw
  bus_master :: "port_trace \<Rightarrow> memory \<Rightarrow> memory"
  ata_lapic :: device
  pci_hw :: pci_bus
  self :: u32
  raw_disk :: "u64 \<Rightarrow> ATADisk"

definition at_trace :: "ata_env \<Rightarrow> port_trace \<Rightarrow> ata_io \<Rightarrow> ata_io" where
  "at_trace env t io = io\<lparr>ports := t, mem := bus_master env t (mem io)\<rparr>"

definition write8 :: "ata_env \<Rightarrow> u16 \<Rightarrow> u8 \<Rightarrow> ata_io \<Rightarrow> ata_io" where
  "write8 env p v io = at_trace env (out8 p v (ports io)) io"

definition write16 :: "ata_env \<Rightarrow> u16 \<Rightarrow> u16 \<Rightarrow> ata_io \<Rightarrow> ata_io" where
  "write16 env p v io = at_trace env (out16 p v (ports io)) io"

definition write32 :: "ata_env \<Rightarrow> u16 \<Rightarrow> u32 \<Rightarrow> ata_io \<Rightarrow> ata_io" where
  "write32 env p v io = at_trace env (out32 p v (ports io)) io"

definition read8 :: "ata_env \<Rightarrow> u16 \<Rightarrow> ata_io \<Rightarrow> u8 \<times> ata_io" where
  "read8 env p io = (let (v, t) = in8 (port_in env) p (ports io) in (v, at_trace env t io))"

definition read16 :: "ata_env \<Rightarrow> u16 \<Rightarrow> ata_io \<Rightarrow> u16 \<times> ata_io" where
  "read16 env p io = (let (v, t) = in16 (port_in env) p (ports io) in (v, at_trace env t io))"

definition clock :: "ata_env \<Rightarrow> ata_io \<Rightarrow> (u32 \<times> ata_io) option" where
  "clock env io = map_option (\<lambda>(v, t). (v, at_trace env t io)) (getRTCTimeStamp32 (port_in env) (ports io))"

definition write_all :: "ata_env \<Rightarrow> (u16 \<times> u8) list \<Rightarrow> ata_io \<Rightarrow> ata_io" where
  "write_all env = fold (\<lambda>(p, v). write8 env p v)"

definition on_io :: "(ata_io \<Rightarrow> ata_io) \<Rightarrow> ata_state \<Rightarrow> ata_state" where
  "on_io f s = s\<lparr>at_io := f (at_io s)\<rparr>"

definition on_mem :: "(memory \<Rightarrow> memory) \<Rightarrow> ata_io \<Rightarrow> ata_io" where
  "on_mem f io = io\<lparr>mem := f (mem io)\<rparr>"

definition put32 :: "u64 \<Rightarrow> u32 \<Rightarrow> memory \<Rightarrow> memory" where
  "put32 a v m = m(a := ucast v, a + 1 := ucast (drop_bit 8 v), a + 2 := ucast (drop_bit 16 v), a + 3 := ucast (drop_bit 24 v))"

section \<open>Commands\<close>

definition dcr :: "u16 \<Rightarrow> u16" where
  "dcr p = (if p = ATA_PRIMARY_IO then ATA_PRIMARY_DCR_AS else ATA_SECONDARY_DCR_AS)"

definition select_drive :: "ATADisk \<Rightarrow> u64 \<Rightarrow> u16 \<times> u8" where
  "select_drive d addr =
     (io_port d + 6,
      if lba48 d then 0xE0 OR push_bit 4 (slavebit d)
      else 0xE0 OR push_bit 4 (slavebit d) OR ucast (drop_bit 24 addr AND 0x0F))"

definition task_file :: "ATADisk \<Rightarrow> u64 \<Rightarrow> u16 \<Rightarrow> (u16 \<times> u8) list" where
  "task_file d addr n =
     [(io_port d + 1, 0),
      (io_port d + 2, ucast (drop_bit 8 n)),
      (io_port d + 3, ucast (drop_bit 24 addr)),
      (io_port d + 4, ucast (drop_bit 32 addr)),
      (io_port d + 5, ucast (drop_bit 40 addr)),
      (io_port d + 2, ucast n),
      (io_port d + 3, ucast addr),
      (io_port d + 4, ucast (drop_bit 8 addr)),
      (io_port d + 5, ucast (drop_bit 16 addr))]"

definition command :: "ATADisk \<Rightarrow> u8 \<Rightarrow> u8 \<Rightarrow> u16 \<times> u8" where
  "command d plain ext = (io_port d + 7, if lba48 d then ext else plain)"

definition read_status :: "ata_env \<Rightarrow> u16 \<Rightarrow> ata_io \<Rightarrow> u8 \<times> ata_io" where
  "read_status env p io = read8 env (p + 7) io"

definition ata_400ns_delay :: "ata_env \<Rightarrow> u16 \<Rightarrow> ata_io \<Rightarrow> ata_io" where
  "ata_400ns_delay env p io = ((\<lambda>io. snd (read_status env p io)) ^^ 4) io"

definition ide_400ns_delay :: "ata_env \<Rightarrow> ATADisk \<Rightarrow> ata_io \<Rightarrow> ata_io" where
  "ide_400ns_delay env d = ata_400ns_delay env (io_port d)"

definition readATAStatus :: "ata_env \<Rightarrow> ATADisk \<Rightarrow> ata_io \<Rightarrow> ata_io" where
  "readATAStatus env d io = snd (read_status env (io_port d) io)"

text \<open>Polling until the disk asks for data or reports an error, with \<open>pause\<close> between polls.\<close>

partial_function (option) wait_drq :: "ata_env \<Rightarrow> u16 \<Rightarrow> (ata_io \<Rightarrow> ata_io) \<Rightarrow> ata_io \<Rightarrow> (bool \<times> ata_io) option" where
  "wait_drq env p pause io =
     (let (status, io) = read_status env p io
      in if status AND ATA_SR_DRQ \<noteq> 0 then Some (True, io)
         else if status AND ATA_SR_ERR \<noteq> 0 then Some (False, io)
         else wait_drq env p pause (pause io))"

section \<open>Programmed input and output\<close>

definition write_word :: "ata_env \<Rightarrow> ATADisk \<Rightarrow> u64 \<Rightarrow> nat \<Rightarrow> ata_io \<Rightarrow> ata_io" where
  "write_word env d p_buffer idx io =
     (let lo = mem io (p_buffer + of_nat (idx * 2)); hi = mem io (p_buffer + of_nat (idx * 2 + 1));
          io = write16 env (io_port d) (ucast lo OR push_bit 8 (ucast hi)) io
      in if idx mod 256 = 0 \<and> idx > 0 then write_all env [command d 0xE7 0xEA] io else io)"

definition writePIODiskSectors :: "ata_env \<Rightarrow> ATADisk \<Rightarrow> u64 \<Rightarrow> u64 \<Rightarrow> u16 \<Rightarrow> ata_io \<Rightarrow> (u8 \<times> ata_io) option" where
  "writePIODiskSectors env d addr p_buffer p_sector_count io =
     (let io = write_all env ((dcr (io_port d), 2) # select_drive d addr # task_file d addr p_sector_count @ [command d 0x30 0x34]) io;
          (status, io) = read_status env (io_port d) io
      in Option.bind (if status \<noteq> 0 then wait_drq env (io_port d) id io else Some (True, io)) (\<lambda>(ready, io).
           if ready
           then let io = fold (write_word env d p_buffer) [0..<256 * unat p_sector_count] io;
                    io = write_all env [command d 0xE7 0xEA] io
                in Some (WRITE_PIO_SUCCESS, (ide_400ns_delay env d ^^ 10) io)
           else Some (WRITE_PIO_FAIL, io)))"

definition read_word :: "ata_env \<Rightarrow> ATADisk \<Rightarrow> u64 \<Rightarrow> nat \<Rightarrow> ata_io \<Rightarrow> ata_io" where
  "read_word env d p_buffer idx io =
     (let (w, io) = read16 env (io_port d) io
      in on_mem (\<lambda>m. m(p_buffer + of_nat (idx * 2) := ucast w, p_buffer + of_nat (idx * 2 + 1) := ucast (drop_bit 8 w))) io)"

fun read_sectors :: "ata_env \<Rightarrow> ATADisk \<Rightarrow> u64 \<Rightarrow> nat list \<Rightarrow> ata_io \<Rightarrow> (u8 \<times> ata_io) option" where
  "read_sectors env d p_buffer [] io = Some (READ_PIO_SUCCESS, io)"
| "read_sectors env d p_buffer (x # xs) io =
     (let (status, io) = read_status env (io_port d) io
      in Option.bind (if status \<noteq> 0 then wait_drq env (io_port d) (ide_400ns_delay env d) io else Some (True, io)) (\<lambda>(ready, io).
           if ready then read_sectors env d p_buffer xs (fold (read_word env d p_buffer) [256 * x..<256 * (x + 1)] io)
           else Some (READ_PIO_FAIL, io)))"

definition readPIODiskSectors :: "ata_env \<Rightarrow> ATADisk \<Rightarrow> u64 \<Rightarrow> u64 \<Rightarrow> u16 \<Rightarrow> ata_io \<Rightarrow> (u8 \<times> ata_io) option" where
  "readPIODiskSectors env d addr p_buffer p_sector_count io =
     (let io = write_all env ((dcr (io_port d), 2) # select_drive d addr # task_file d addr p_sector_count @ [command d 0x20 0x24]) io;
          sector_count = (if p_sector_count = 0 then 256 else p_sector_count)
      in read_sectors env d p_buffer [0..<unat sector_count] io)"

section \<open>DMA of one chunk\<close>

definition bm_port :: "ATADisk \<Rightarrow> u32 \<Rightarrow> u16" where
  "bm_port d r = ucast (dma_port_address d + r + ucast (bm_offset d))"

text \<open>The table of physical regions: an address and a length for every 128 sectors, bit 31 in the last length.\<close>

function prdt_loop :: "u64 \<Rightarrow> u64 \<Rightarrow> u16 \<Rightarrow> u64 \<Rightarrow> memory \<Rightarrow> memory" where
  "prdt_loop ptr phy i sectors m =
     (if sectors = 0 then m
      else let m = put32 (ptr + 4 * ucast i) (ucast (phy + of_nat (unat i div 2 * 0x10000))) m
           in if sectors > 128
              then prdt_loop ptr phy (i + 2) (sectors - 128) (put32 (ptr + 4 * (ucast i + 1)) (128 * 0x200) m)
              else put32 (ptr + 4 * (ucast i + 1)) (0x80000000 OR ucast (sectors * 0x200)) m)"
  by pat_completeness auto

termination
  by (relation "measure (\<lambda>(ptr, phy, i, sectors, m). unat sectors)") (auto simp: unat_sub word_less_nat_alt word_le_nat_alt)

declare prdt_loop.simps [simp del]

text \<open>Both directions: stop the controller, clear its status, set the table up, select the drive.\<close>

definition dma_reset :: "ata_env \<Rightarrow> ATADisk \<Rightarrow> (memory \<Rightarrow> memory) \<Rightarrow> ata_io \<Rightarrow> ata_io" where
  "dma_reset env d f io =
     (let (_, io) = read8 env (bm_port d 2) io;
          io = on_mem f io;
          (bm_status, io) = read8 env (bm_port d 2) io
      in write_all env [(bm_port d 0, 0), (bm_port d 2, bm_status)] io)"

definition dma_table :: "ata_env \<Rightarrow> ATADisk \<Rightarrow> u16 \<Rightarrow> ata_io \<Rightarrow> ata_io" where
  "dma_table env d n io =
     (let io = on_mem (prdt_loop (prdt d) (dma_phy_address d) 0 (ucast n)) io;
          io = write_all env [(bm_port d 0, 0), (bm_port d 2, 0x06)] io
      in write32 env (bm_port d 4) (ucast (prdt d)) io)"

definition drive_head :: "ATADisk \<Rightarrow> u8" where
  "drive_head d = 0xE0 OR push_bit 4 (slavebit d)"

definition set_select :: "u64 \<Rightarrow> ata_state \<Rightarrow> ata_state" where
  "set_select v s = s\<lparr>dmaBuffer := (dmaBuffer s)\<lparr>current_select := v\<rparr>\<rparr>"

text \<open>Writing.\<close>

partial_function (option) wait_drdy :: "ata_env \<Rightarrow> u16 \<Rightarrow> u8 \<Rightarrow> ata_io \<Rightarrow> (u8 \<times> ata_io) option" where
  "wait_drdy env p status io =
     (if status AND ATA_SR_DRDY \<noteq> 0 then Some (status, io)
      else let (status, io) = read8 env p io in wait_drdy env p status io)"

definition dma_abort :: "ata_env \<Rightarrow> ATADisk \<Rightarrow> ata_io \<Rightarrow> ata_io" where
  "dma_abort env d io =
     (let io = write_all env
            [(if bm_offset d = 0 then ATA_PRIMARY_DCR_AS else ATA_SECONDARY_DCR_AS, 0),
             (io_port d + 6, if slavebit d \<noteq> 0 then ATA_SLAVE_DRV_SELECTOR else ATA_MASTER_DRV_SELECTOR)] io
      in snd (read_status env (io_port d) (ide_400ns_delay env d io)))"

partial_function (option) wait_write :: "ata_env \<Rightarrow> ATADisk \<Rightarrow> u64 \<Rightarrow> u8 \<Rightarrow> ata_io \<Rightarrow> (bool \<times> ata_io) option" where
  "wait_write env d i status io =
     (if status AND ATA_SR_BSY = 0 \<and> status AND ATA_SR_ERR \<noteq> 0 then Some (False, io)
      else if status AND ATA_SR_BSY = 0 \<and> status AND ATA_SR_DRQ \<noteq> 0 then Some (True, io)
      else let (status, io) = read8 env (dcr (io_port d)) io
           in if status AND ATA_SR_DRQ = 0 \<and> i > 5000 \<and> i > 100000 then Some (False, io)
              else wait_write env d (i + 1) status io)"

text \<open>The first component tells whether the transfer was started, the second whether it was aborted.\<close>

definition write_attempt :: "ata_env \<Rightarrow> ATADisk \<Rightarrow> u64 \<Rightarrow> u16 \<Rightarrow> ata_io \<Rightarrow> (bool \<times> bool \<times> ata_io) option" where
  "write_attempt env d addr n io =
     (let (status, io) = read8 env (dcr (io_port d)) io
      in Option.bind (if status \<noteq> 0 then wait_drdy env (dcr (io_port d)) status io else Some (status, io)) (\<lambda>(status, io).
         let io = write_all env (task_file d addr n @ [command d 0xCA 0x35]) io;
             (status, io) = read8 env (dcr (io_port d)) io
         in if status \<noteq> 0
            then map_option (\<lambda>(ok, io). (ok, \<not> ok, if ok then write8 env (bm_port d 0) 1 io else dma_abort env d io))
                   (wait_write env d 0 status io)
            else Some (False, False, io)))"

definition writeDMADiskSectors :: "ata_env \<Rightarrow> ATADisk \<Rightarrow> u64 \<Rightarrow> u16 \<Rightarrow> ata_state \<Rightarrow> (u8 \<times> ata_state) option" where
  "writeDMADiskSectors env d addr p_sector_count s =
     (let io = dma_table env d p_sector_count (dma_reset env d id (at_io s));
          io = ide_400ns_delay env d (write_all env [select_drive d addr] io);
          s = set_select (ucast (drive_head d)) s
      in map_option (\<lambda>(ok, aborted, io).
             (if ok then WRITE_DMA_SUCCESS else WRITE_DMA_FAIL,
              (if aborted then set_select 0 s else s)\<lparr>at_io := io\<rparr>))
           (write_attempt env d addr p_sector_count io))"

text \<open>Reading. A drive that is not ready after \<open>2002\<close> polls and a command that shows no data request after \<open>5000\<close> are
  started over; an error ends in an endless loop.\<close>

fun poll_drdy :: "nat \<Rightarrow> ata_env \<Rightarrow> u16 \<Rightarrow> u8 \<Rightarrow> ata_io \<Rightarrow> u8 \<times> ata_io" where
  "poll_drdy 0 env p status io = (if status AND ATA_SR_DRDY \<noteq> 0 then (status, io) else read8 env p io)"
| "poll_drdy (Suc n) env p status io =
     (if status AND ATA_SR_DRDY \<noteq> 0 then (status, io)
      else let (status, io) = read8 env p io in poll_drdy n env p status io)"

partial_function (option) wait_read :: "ata_env \<Rightarrow> ATADisk \<Rightarrow> u64 \<Rightarrow> u8 \<Rightarrow> ata_io \<Rightarrow> (u8 \<times> ata_io) option" where
  "wait_read env d i status io =
     (if status AND ATA_SR_BSY = 0 \<and> status AND ATA_SR_ERR \<noteq> 0 then None
      else if status AND ATA_SR_BSY = 0 \<and> status AND ATA_SR_DRQ \<noteq> 0 then Some (status, io)
      else let (status, io) = read8 env (dcr (io_port d)) io
           in if status AND ATA_SR_DRQ = 0 \<and> i > 5000 then Some (status, io)
              else wait_read env d (i + 1) status io)"

text \<open>One pass of the outer loop: whether it was left.\<close>

definition read_attempt :: "ata_env \<Rightarrow> ATADisk \<Rightarrow> u64 \<Rightarrow> u16 \<Rightarrow> ata_state \<Rightarrow> (bool \<times> ata_state) option" where
  "read_attempt env d addr n s =
     (let io = dma_table env d n (dma_reset env d (mem_fill (dma_phy_address d) 0 0x2000000) (at_io s));
          io = write_all env [select_drive d addr] io;
          s = set_select (ucast (drive_head d)) s;
          (status, io) = read8 env (dcr (io_port d)) io;
          (ready, io) = (if status \<noteq> 0
                         then let (status, io) = poll_drdy 2001 env (dcr (io_port d)) status io in (status AND ATA_SR_DRDY \<noteq> 0, io)
                         else (True, io))
      in if \<not> ready then Some (False, s\<lparr>at_io := io\<rparr>)
         else let io = write_all env (task_file d addr n @ [command d 0xC8 0x25]) io;
                  (status, io) = read8 env (dcr (io_port d)) io
              in map_option (\<lambda>(status, io).
                     if status AND ATA_SR_DRQ \<noteq> 0 then (True, s\<lparr>at_io := write8 env (bm_port d 0) 9 io\<rparr>)
                     else (False, s\<lparr>at_io := io\<rparr>))
                   (if status \<noteq> 0 then wait_read env d 0 status io else Some (status, io)))"

partial_function (option) readDMADiskSectors :: "ata_env \<Rightarrow> ATADisk \<Rightarrow> u64 \<Rightarrow> u16 \<Rightarrow> ata_state \<Rightarrow> (u8 \<times> ata_state) option" where
  "readDMADiskSectors env d addr p_sector_count s =
     Option.bind (read_attempt env d addr p_sector_count s) (\<lambda>(left, s).
       if left then Some (READ_DMA_SUCCESS, s) else readDMADiskSectors env d addr p_sector_count s)"

definition writeDiskSectors :: "ata_env \<Rightarrow> ATADisk \<Rightarrow> u64 \<Rightarrow> u64 \<Rightarrow> u8 \<Rightarrow> ata_state \<Rightarrow> (u8 \<times> ata_state) option" where
  "writeDiskSectors env d p_addr p_buffer p_sector_count s =
     (if dma d then writeDMADiskSectors env d p_addr (ucast p_sector_count) s
      else map_option (\<lambda>(r, io). (r, s\<lparr>at_io := io\<rparr>)) (writePIODiskSectors env d p_addr p_buffer (ucast p_sector_count) (at_io s)))"

definition readDiskSectors :: "ata_env \<Rightarrow> ATADisk \<Rightarrow> u64 \<Rightarrow> u64 \<Rightarrow> u8 \<Rightarrow> ata_state \<Rightarrow> (u8 \<times> ata_state) option" where
  "readDiskSectors env d p_addr p_buffer p_sector_count s =
     (if dma d then readDMADiskSectors env d p_addr (ucast p_sector_count) s
      else map_option (\<lambda>(r, io). (r, s\<lparr>at_io := io\<rparr>)) (readPIODiskSectors env d p_addr p_buffer (ucast p_sector_count) (at_io s)))"

section \<open>Transfers\<close>

text \<open>Repeat an operation until it reports success.\<close>

partial_function (option) retry :: "(ata_state \<Rightarrow> (u8 \<times> ata_state) option) \<Rightarrow> u8 \<Rightarrow> ata_state \<Rightarrow> ata_state option" where
  "retry f success s = Option.bind (f s) (\<lambda>(r, s). if r = success then Some s else retry f success s)"

definition disk_at :: "nat option \<Rightarrow> ata_state \<Rightarrow> ATADisk result" where
  "disk_at p s =
     (case p of None \<Rightarrow> Inl Null_pointer
      | Some i \<Rightarrow> and_then (arr_get (ataDisks (ataManager s)) (int i)) (\<lambda>r.
          case r of None \<Rightarrow> Inl Null_pointer | Some d \<Rightarrow> Inr d))"

definition set_disk :: "nat \<Rightarrow> ATADisk \<Rightarrow> ata_state \<Rightarrow> ata_state" where
  "set_disk i d s = s\<lparr>ataManager := (ataManager s)\<lparr>ataDisks := (ataDisks (ataManager s))[i := Some d]\<rparr>\<rparr>"

text \<open>\<open>dmaBuffer.ataDisk->done_read = v\<close>.\<close>

definition set_done_read :: "bool \<Rightarrow> ata_state \<Rightarrow> ata_state result" where
  "set_done_read v s =
     and_then (disk_at (b_ataDisk (dmaBuffer s)) s) (\<lambda>d. Inr (set_disk (the (b_ataDisk (dmaBuffer s))) (d\<lparr>done_read := v\<rparr>) s))"

definition on_buffer :: "(DMABuffer \<Rightarrow> DMABuffer) \<Rightarrow> ata_state \<Rightarrow> ata_state" where
  "on_buffer f s = s\<lparr>dmaBuffer := f (dmaBuffer s)\<rparr>"

definition dma_chunk :: "bool \<Rightarrow> u64" where
  "dma_chunk ext = (if ext then DMA_CHUNK_EXT else DMA_CHUNK)"

text \<open>\<open>getRTCTimeStamp32\<close> and \<open>get_current_core_id\<close>.\<close>

definition read_time :: "ata_env \<Rightarrow> ata_state \<Rightarrow> (u32 \<times> ata_state) result option" where
  "read_time env s = map_option (\<lambda>(v, io). Inr (v, s\<lparr>at_io := io\<rparr>)) (clock env (at_io s))"

definition note_core :: "ata_env \<Rightarrow> ata_state \<Rightarrow> ata_state" where
  "note_core env s =
     (let a = getCurrentCoreId (ata_lapic env) (at_apic s)
      in on_buffer (b_core_id_update (\<lambda>_. ucast (core_id_ret a))) (s\<lparr>at_apic := a\<rparr>))"

definition returned :: "'a option \<Rightarrow> 'a result option" where
  "returned r = map_option Inr r"

definition readDMADisk :: "ata_env \<Rightarrow> nat \<Rightarrow> u64 \<Rightarrow> u64 \<Rightarrow> u64 \<Rightarrow> u16 \<Rightarrow> u16 \<Rightarrow> ata_state \<Rightarrow> (u8 \<times> ata_state) result option" where
  "readDMADisk env p_ataDisk p_addr p_buffer p_sector_count p_start_offset p_end_offset s =
     then_do (Some (set_done_read False s)) (\<lambda>s.
     then_do (Some (disk_at (Some p_ataDisk) s)) (\<lambda>d.
     let s = on_buffer (\<lambda>b. b\<lparr>b_buffer := p_buffer, current_address := p_addr, b_lba48 := lba48 d,
               start_offset := p_start_offset, end_offset := p_end_offset,
               current_read := (if p_sector_count > dma_chunk (lba48 d) then dma_chunk (lba48 d) else p_sector_count)\<rparr>) s
     in then_do (read_time env s) (\<lambda>(now, s).
     let s = on_buffer (\<lambda>b. b\<lparr>start_time := ucast now, total_read := 0, total_read_bytes := 0, target_read := p_sector_count,
               b_ataDisk := Some p_ataDisk\<rparr>) s;
         s = on_buffer (b_read_update (\<lambda>_. True)) (note_core env s)
     in then_do (returned (retry (readDMADiskSectors env d p_addr (ucast (current_read (dmaBuffer s)))) READ_DMA_SUCCESS s)) (\<lambda>s.
        Some (Inr (READ_DMA_SUCCESS, s))))))"

definition writeDMADisk :: "ata_env \<Rightarrow> nat \<Rightarrow> u64 \<Rightarrow> u64 \<Rightarrow> u64 \<Rightarrow> ata_state \<Rightarrow> (u8 \<times> ata_state) result option" where
  "writeDMADisk env p_ataDisk p_addr p_buffer p_sector_count s =
     then_do (Some (disk_at (Some p_ataDisk) s)) (\<lambda>d.
     let s = on_buffer (\<lambda>b. b\<lparr>b_buffer := p_buffer, current_address := p_addr, b_lba48 := lba48 d,
               current_read := 0, total_read := 0, target_read := 0,
               current_write := (if p_sector_count > dma_chunk (lba48 d) then dma_chunk (lba48 d) else p_sector_count)\<rparr>) s
     in then_do (read_time env s) (\<lambda>(now, s).
     let s = on_buffer (\<lambda>b. b\<lparr>start_time := ucast now, total_write := 0, target_write := p_sector_count,
               b_ataDisk := Some p_ataDisk\<rparr>) s;
         s = on_buffer (b_read_update (\<lambda>_. False)) (note_core env s);
         s = on_io (on_mem (fast_memcpy (dma_phy_address d) p_buffer (current_write (dmaBuffer s) * 0x200))) s
     in then_do (returned (retry (writeDMADiskSectors env d p_addr (ucast (current_write (dmaBuffer s)))) WRITE_DMA_SUCCESS s)) (\<lambda>s.
        Some (Inr (WRITE_DMA_SUCCESS, s)))))"

definition copyDMABuffer :: "ATADisk \<Rightarrow> u64 \<Rightarrow> u16 \<Rightarrow> memory \<Rightarrow> memory" where
  "copyDMABuffer d p_buffer p_sector_count m = copy_bytes (unat p_sector_count * 0x200) p_buffer (dma_phy_address d) m"

section \<open>Interrupts\<close>

definition finish_ipi :: "ata_env \<Rightarrow> ata_state \<Rightarrow> ata_state result option" where
  "finish_ipi env s =
     then_do (sendIPI (ata_lapic env) (ucast (b_core_id (dmaBuffer s))) ATA_IPI (at_apic s)) (\<lambda>a. Some (Inr (s\<lparr>at_apic := a\<rparr>)))"

text \<open>The chunk that has arrived is copied to its place.\<close>

definition take_chunk_in :: "ATADisk \<Rightarrow> ata_state \<Rightarrow> ata_state" where
  "take_chunk_in d s =
     (let s = on_buffer (\<lambda>b. if current_read b = 0 then b\<lparr>current_read := dma_chunk (lba48 d)\<rparr> else b) s;
          b = dmaBuffer s;
          start = (if total_read b = 0 then start_offset b else 0);
          cut = (if total_read b + current_read b \<ge> target_read b then end_offset b else 0);
          n = current_read b * 0x200 - ucast cut;
          s = on_io (on_mem (fast_memcpy (b_buffer b + total_read b * 0x200) (dma_phy_address d + ucast start) n)) s
      in on_buffer (\<lambda>b. b\<lparr>total_read_bytes := total_read_bytes b + n, total_read := total_read b + current_read b\<rparr>) s)"

definition next_read :: "ata_env \<Rightarrow> ATADisk \<Rightarrow> ata_state \<Rightarrow> ata_state result option" where
  "next_read env d s =
     (let s = on_buffer (\<lambda>b. b\<lparr>current_address := current_address b + current_read b,
                current_read := (if target_read b - total_read b > dma_chunk (lba48 d) then dma_chunk (lba48 d)
                                 else target_read b - total_read b)\<rparr>) s;
          b = dmaBuffer s
      in returned (retry (readDMADiskSectors env d (current_address b) (ucast (current_read b))) READ_DMA_SUCCESS s))"

definition read_finished :: "ata_env \<Rightarrow> ata_state \<Rightarrow> ata_state result option" where
  "read_finished env s =
     then_do (Some (set_done_read True s)) (\<lambda>s. then_do (read_time env s) (\<lambda>(_, s). finish_ipi env s))"

definition ataHandleReadInterrupt :: "ata_env \<Rightarrow> u64 \<Rightarrow> ata_state \<Rightarrow> ata_state result option" where
  "ataHandleReadInterrupt env interrupt_number s =
     (if \<not> enabled (dmaBuffer s) \<or> interrupt_number \<noteq> IRQ14 \<and> interrupt_number \<noteq> IRQ15 then Some (Inr s)
      else then_do (Some (disk_at (b_ataDisk (dmaBuffer s)) s)) (\<lambda>d.
        let (bm_status, io) = read8 env (bm_port d 2) (at_io s);
            s = s\<lparr>at_io := readATAStatus env d io\<rparr>
        in if bm_status AND 4 = 0 then Some (Inr s)
           else let s = take_chunk_in d s
                in then_do (if total_read (dmaBuffer s) < target_read (dmaBuffer s) then next_read env d s else read_finished env s)
                     (\<lambda>s. Some (Inr (on_io (readATAStatus env d) s)))))"

definition next_write :: "ata_env \<Rightarrow> ATADisk \<Rightarrow> ata_state \<Rightarrow> ata_state result option" where
  "next_write env d s =
     (let s = on_buffer (\<lambda>b. b\<lparr>total_write := total_write b + current_write b, current_address := current_address b + current_write b\<rparr>) s;
          s = on_buffer (\<lambda>b. b\<lparr>current_write := (if target_write b - total_write b > dma_chunk (lba48 d) then dma_chunk (lba48 d)
                                                 else target_write b - total_write b)\<rparr>) s;
          s = on_buffer (\<lambda>b. if current_write b = 0 then b\<lparr>current_write := dma_chunk (lba48 d)\<rparr> else b) s;
          b = dmaBuffer s;
          s = on_io (on_mem (mem_fill (dma_phy_address d) 0 0x2000000)) s;
          s = on_io (on_mem (fast_memcpy (dma_phy_address d) (b_buffer b + total_write b * 0x200) (current_write b * 0x200))) s;
          s = on_io (dma_reset env d id) s
      in returned (retry (writeDMADiskSectors env d (current_address b) (ucast (current_write b))) WRITE_DMA_SUCCESS s))"

definition write_finished :: "ata_env \<Rightarrow> ATADisk \<Rightarrow> ata_state \<Rightarrow> ata_state result option" where
  "write_finished env d s =
     then_do (read_time env (on_io (write_all env [command d 0xE7 0xEA]) s)) (\<lambda>(_, s).
       finish_ipi env (on_buffer (write_done_update (\<lambda>_. True)) s))"

definition ataHandleWriteInterrupt :: "ata_env \<Rightarrow> u64 \<Rightarrow> ata_state \<Rightarrow> ata_state result option" where
  "ataHandleWriteInterrupt env interrupt_number s =
     (if \<not> enabled (dmaBuffer s) \<or> write_done (dmaBuffer s) \<or> interrupt_number \<noteq> IRQ14 \<and> interrupt_number \<noteq> IRQ15 then Some (Inr s)
      else then_do (Some (disk_at (b_ataDisk (dmaBuffer s)) s)) (\<lambda>d.
        let (bm_status, io) = read8 env (bm_port d 2) (at_io s);
            s = s\<lparr>at_io := readATAStatus env d io\<rparr>
        in if bm_status AND 4 = 0 then Some (Inr s)
           else then_do (if total_write (dmaBuffer s) < target_write (dmaBuffer s) then next_write env d s else write_finished env d s)
                  (\<lambda>s. Some (Inr (on_io (readATAStatus env d) s)))))"

definition ataHandleInterrupt :: "ata_env \<Rightarrow> u64 \<Rightarrow> ata_state \<Rightarrow> ata_state result option" where
  "ataHandleInterrupt env interrupt_number s =
     (if \<not> enabled (dmaBuffer s)
      then Some (Inr (on_io (\<lambda>io. snd (read_status env ATA_PRIMARY_IO
             (write_all env [(ATA_PRIMARY_DCR_AS, 0), (ATA_SECONDARY_DCR_AS, 0),
                (ATA_PRIMARY_IO + 6, ATA_SLAVE_DRV_SELECTOR), (ATA_PRIMARY_IO + 6, ATA_MASTER_DRV_SELECTOR)] io))) s))
      else if b_read (dmaBuffer s) then ataHandleReadInterrupt env interrupt_number s
      else ataHandleWriteInterrupt env interrupt_number s)"

section \<open>Detection\<close>

definition read_desc :: "ata_env \<Rightarrow> u16 \<Rightarrow> nat \<Rightarrow> u8 list \<times> ata_io \<Rightarrow> u8 list \<times> ata_io" where
  "read_desc env p idx = (\<lambda>(ds, io). let (w, io) = read16 env p io in (ds[idx * 2 := ucast w, idx * 2 + 1 := ucast (drop_bit 8 w)], io))"

definition le32 :: "u8 list \<Rightarrow> nat \<Rightarrow> u32" where
  "le32 xs i = ucast (xs ! i) OR push_bit 8 (ucast (xs ! (i + 1))) OR push_bit 16 (ucast (xs ! (i + 2))) OR push_bit 24 (ucast (xs ! (i + 3)))"

definition initATADisk :: "ata_env \<Rightarrow> u16 \<Rightarrow> u8 \<Rightarrow> u8 \<Rightarrow> bool \<Rightarrow> u64 \<Rightarrow> u64 \<Rightarrow> u32 \<Rightarrow> u32 \<Rightarrow> u8 \<Rightarrow> ATADisk \<Rightarrow> ata_io \<Rightarrow> ATADisk \<times> ata_io" where
  "initATADisk env p_io_port p_drv_selector p_slavebit p_dma p_prdt p_dma_phy_address p_dma_port_address p_dma_mmio_address p_bm_offset d io =
     (let (desc, io) = fold (read_desc env p_io_port) [0..<256] (replicate 512 0, io);
          sets = le32 desc 164;
          ext = bit sets 26
      in (d\<lparr>io_port := p_io_port, drv_selector := p_drv_selector, slavebit := p_slavebit,
            ata_desc := desc, dma := p_dma, prdt := p_prdt, dma_phy_address := p_dma_phy_address,
            dma_port_address := p_dma_port_address, dma_mmio_address := p_dma_mmio_address, bm_offset := p_bm_offset,
            capabilities := le32 desc 98, commandsets := sets, lba48 := ext, disk_size := le32 desc (if ext then 200 else 120),
            serial := map (\<lambda>i. desc ! i) [20..<40] @ [0],
            fw_revision := map (\<lambda>i. desc ! i) [46..<54] @ [0, 0],
            model_no := map (\<lambda>i. desc ! i) [54..<94] @ drop 40 (model_no d)\<rparr>, io))"

definition identifyDisk :: "ata_env \<Rightarrow> u16 \<Rightarrow> u8 \<Rightarrow> ata_io \<Rightarrow> (bool \<times> ata_io) option" where
  "identifyDisk env p_io_port p_drv_selector io =
     (let io = write_all env [(dcr p_io_port, 0), (p_io_port + 6, p_drv_selector), (p_io_port + 2, 0), (p_io_port + 3, 0),
                 (p_io_port + 4, 0), (p_io_port + 5, 0), (p_io_port + 7, 0xEC)] io;
          (status, io) = read_status env p_io_port io
      in if status = 0 \<or> status AND 1 = 1 then Some (False, io) else wait_drq env p_io_port id io)"

definition pci_interface :: "PCIDevice \<Rightarrow> u8" where "pci_interface d = ucast (drop_bit 8 (hdr d ! 4))"
definition pci_minor :: "PCIDevice \<Rightarrow> u8" where "pci_minor d = ucast (hdr d ! 5)"
definition pci_major :: "PCIDevice \<Rightarrow> u8" where "pci_major d = ucast (drop_bit 8 (hdr d ! 5))"

fun disk_device_loop :: "PCIDevice list \<Rightarrow> nat list \<Rightarrow> nat option result" where
  "disk_device_loop ds [] = Inr None"
| "disk_device_loop ds (i # is) = and_then (arr_get ds (int i)) (\<lambda>d.
     if pci_major d = 1 \<and> pci_minor d = 1 then Inr (Some i) else disk_device_loop ds is)"

definition getDiskPCIDevice :: "PCIService \<Rightarrow> nat option result" where
  "getDiskPCIDevice pci = disk_device_loop (pciDevices pci) [0..<nat (total_pci_devices pci)]"

definition getDeviceTypeName :: "ATAManager \<Rightarrow> u16 \<Rightarrow> u8 list" where
  "getDeviceTypeName am p_dev =
     (case find (\<lambda>i. device_ids am ! i = p_dev) [0..<12] of
        Some i \<Rightarrow> device_names am ! i
      | None \<Rightarrow> device_names am ! 11)"

definition enable_controller :: "ata_env \<Rightarrow> PCIDevice \<Rightarrow> pci_ports \<Rightarrow> PCIDevice \<times> pci_ports" where
  "enable_controller env d t =
     (if dev_id d = 0x1230 \<or> dev_id d = 0x7010 \<or> dev_id d = 0x7111
      then let (_, d, t) = EnablePCIBusMastering (pci_hw env) d t;
               (d, t) = PciConfigWriteCommand (pci_hw env) d 0x40 0xA344 t
           in PciConfigWriteCommand (pci_hw env) d 0x42 0xA344 t
      else (d, t))"

definition identifyPCI :: "ata_env \<Rightarrow> ata_state \<Rightarrow> ata_state result" where
  "identifyPCI env s =
     and_then (getDiskPCIDevice (at_pci s)) (\<lambda>r.
       case r of None \<Rightarrow> Inr s
       | Some i \<Rightarrow>
           let d = pciDevices (at_pci s) ! i
           in if bit (pci_interface d) 7
              then let (d, t) = enable_controller env d (at_pci_ports s);
                       s = s\<lparr>at_pci := (at_pci s)\<lparr>pciDevices := (pciDevices (at_pci s))[i := d]\<rparr>, at_pci_ports := t\<rparr>
                   in Inr (if bars d 4 AND 1 = 1 then s\<lparr>ataManager := (ataManager s)\<lparr>m_dma_port_address := bars d 4 AND NOT 1\<rparr>\<rparr>
                           else s\<lparr>ataManager := (ataManager s)\<lparr>m_dma_mmio_address := bars d 4\<rparr>\<rparr>)
              else Inr s)"

definition controller_ids :: "u16 list" where
  "controller_ids = [0x1230, 0x2411, 0x2421, 0x244B, 0x24DB, 0x266F, 0x248B, 0x24CB, 0x2922, 0x7010, 0x7111, 0]"

definition controller_names :: "string list" where
  "controller_names = [''CNTRL_TYPE_PIIX'', ''CNTRL_TYPE_ICH'', ''CNTRL_TYPE_ICH0'', ''CNTRL_TYPE_ICH2'', ''CNTRL_TYPE_ICH5'',
     ''CNTRL_TYPE_ICH6'', ''CNTRL_TYPE_ICH3'', ''CNTRL_TYPE_ICH4'', ''CNTRL_TYPE_ICH9'', ''CNTRL_TYPE_PIIX3'', ''CNTRL_TYPE_PIIX4'',
     ''Not Found'']"

definition ata_kvalloc :: "ata_env \<Rightarrow> u64 \<Rightarrow> ata_state \<Rightarrow> (u64 \<times> ata_state) result option" where
  "ata_kvalloc env n s =
     returned (map_option (\<lambda>(p, ma). (p, s\<lparr>at_apic := (at_apic s)\<lparr>ap_alloc := ma\<rparr>\<rparr>)) (kvalloc (self env) (ap_alloc (at_apic s)) n))"

definition initATAManager :: "ata_env \<Rightarrow> ata_state \<Rightarrow> ata_state result option" where
  "initATAManager env s =
     then_do (ata_kvalloc env 0x1000 s) (\<lambda>(t1, s).
     then_do (ata_kvalloc env 0x1000 s) (\<lambda>(t2, s).
     then_do (ata_kvalloc env 0x2000000 s) (\<lambda>(d1, s).
     then_do (ata_kvalloc env 0x2000000 s) (\<lambda>(d2, s).
     if d1 = 0 \<or> d2 = 0 then Some (Inl Null_pointer)
     else let s = on_io (on_mem (mem_fill d2 0 0x2000000 \<circ> mem_fill d1 0 0x2000000)) s;
              s = s\<lparr>ataManager := (ataManager s)\<lparr>m_dma_port_address := 0, m_dma_mmio_address := 0, prdt1 := t1, prdt2 := t2,
                     dma_phy_address1 := d1, dma_phy_address2 := d2, device_ids := controller_ids,
                     device_names := map (\<lambda>n. map of_char n @ replicate (20 - length n) 0) controller_names\<rparr>\<rparr>
          in Some (Inr (on_buffer (\<lambda>b. b\<lparr>b_spinlock := spinlock_init (b_spinlock b), current_select := 0\<rparr>) s))))))"

definition detect_one :: "ata_env \<Rightarrow> nat \<Rightarrow> nat \<Rightarrow> nat \<Rightarrow> u8 \<times> ata_state \<Rightarrow> (u8 \<times> ata_state) result option" where
  "detect_one env si i j = (\<lambda>(count, s).
     let port = [ATA_PRIMARY_IO, ATA_SECONDARY_IO] ! i; selector = [ATA_MASTER_DRV_SELECTOR, ATA_SLAVE_DRV_SELECTOR] ! j
     in then_do (returned (identifyDisk env port selector (at_io s))) (\<lambda>(found, io).
        let s = s\<lparr>at_io := io\<rparr>; am = ataManager s
        in if found
           then then_do (returned (kmalloc (self env) (ap_alloc (at_apic s)) 640)) (\<lambda>(p, ma).
                  if p = 0 then Some (Inl Null_pointer)
                  else let (d, io) = initATADisk env port selector (of_nat j)
                             (m_dma_mmio_address am \<noteq> 0 \<or> m_dma_port_address am \<noteq> 0)
                             ([prdt1 am, prdt2 am] ! i) ([dma_phy_address1 am, dma_phy_address2 am] ! i)
                             (m_dma_port_address am) (m_dma_mmio_address am) (of_nat (i * 8)) (raw_disk env p) io
                       in Some (Inr (count + 1, set_disk si d (s\<lparr>at_io := io, at_apic := (at_apic s)\<lparr>ap_alloc := ma\<rparr>\<rparr>))))
           else Some (Inr (count, s\<lparr>ataManager := am\<lparr>ataDisks := (ataDisks am)[si := None]\<rparr>\<rparr>))))"

definition detectATADisks :: "ata_env \<Rightarrow> ata_state \<Rightarrow> (u8 \<times> ata_state) result option" where
  "detectATADisks env s =
     then_do (Some (identifyPCI env s)) (\<lambda>s.
     then_do (detect_one env 0 0 0 (0, s)) (\<lambda>r.
     then_do (detect_one env 1 0 1 r) (\<lambda>r.
     then_do (detect_one env 2 1 0 r) (detect_one env 3 1 1))))"

definition getATADisk :: "u8 \<Rightarrow> ata_state \<Rightarrow> ATADisk option" where
  "getATADisk i s = (if unat i < ATA_COUNT then ataDisks (ataManager s) ! unat i else None)"

end
