(* ===== verification/AtaProofs.thy ===== *)
theory AtaProofs
  imports Ata
begin

text \<open>
  Properties of the disk driver: the table of physical regions, the registers of a command, programmed input, and DMA
  transfers in chunks.
\<close>

section \<open>The table of physical regions\<close>

definition get32 :: "memory \<Rightarrow> u64 \<Rightarrow> u32" where
  "get32 m a = ucast (m a) OR push_bit 8 (ucast (m (a + 1))) OR push_bit 16 (ucast (m (a + 2))) OR push_bit 24 (ucast (m (a + 3)))"

text \<open>The addresses the controller transfers, in order: it follows the entries from \<open>p\<close> on, up to the one with bit 31. A
  length of zero stands for 64 KiB. It reads at most \<open>k\<close> entries.\<close>

fun prd_walk :: "nat \<Rightarrow> memory \<Rightarrow> u64 \<Rightarrow> u64 list" where
  "prd_walk 0 m p = []"
| "prd_walk (Suc k) m p =
     (let n = unat (get32 m (p + 4) AND 0xFFFF)
      in map (\<lambda>j. ucast (get32 m p) + of_nat j) [0..<if n = 0 then 65536 else n] @
         (if bit (get32 m (p + 4)) 31 then [] else prd_walk k m (p + 8)))"

lemma get32_put32 [simp]: "get32 (put32 a v m) a = v"
proof (rule bit_word_eqI)
  fix n
  assume "n < LENGTH(32)"
  consider "n < 8" | "8 \<le> n" "n < 16" | "16 \<le> n" "n < 24" | "24 \<le> n" "n < 32" using \<open>n < LENGTH(32)\<close> by fastforce
  then show "bit (get32 (put32 a v m) a) n = bit v n"
    by cases (auto simp: get32_def put32_def bit_simps)
qed

lemma put32_other: "4 \<le> unat (b - a) \<Longrightarrow> put32 a v m b = m b"
proof -
  assume h: "4 \<le> unat (b - a)"
  have "b \<noteq> a" "b \<noteq> a + 1" "b \<noteq> a + 2" "b \<noteq> a + 3" using h by auto
  then show ?thesis by (simp add: put32_def)
qed

lemma get32_cong: "(\<And>k. k < 4 \<Longrightarrow> m (a + of_nat k) = m' (a + of_nat k)) \<Longrightarrow> get32 m a = get32 m' a"
proof -
  assume h: "\<And>k. k < 4 \<Longrightarrow> m (a + of_nat k) = m' (a + of_nat k)"
  show ?thesis using h [of 0] h [of 1] h [of 2] h [of 3] by (simp add: get32_def)
qed

lemma get32_put32_other:
  assumes "\<And>k. k < 4 \<Longrightarrow> 4 \<le> unat (b + of_nat k - a)"
  shows "get32 (put32 a v m) b = get32 m b"
  by (rule get32_cong) (rule put32_other, rule assms)

text \<open>One entry: the stores at \<open>ptr + 8 * i\<close> do not touch other entries.\<close>

lemma entry_offset: "j < 4096 \<Longrightarrow> unat (ptr + of_nat j - ptr :: u64) = j"
  by (simp add: unat_of_nat_small)

lemma entry_stores:
  fixes ptr :: u64 and m :: memory and b l :: u32
  assumes "i < 512"
  defines "m' \<equiv> put32 (ptr + of_nat (8 * i + 4)) l (put32 (ptr + of_nat (8 * i)) b m)"
  shows "get32 m' (ptr + of_nat (8 * i)) = b" "get32 m' (ptr + of_nat (8 * i + 4)) = l"
    and "unat (a - ptr) < 8 * i \<or> 8 * i + 8 \<le> unat (a - ptr) \<Longrightarrow> m' a = m a"
proof -
  have "4 \<le> unat (ptr + of_nat (8 * i) + of_nat k - (ptr + of_nat (8 * i + 4)))" if "k < 4" for k
  proof -
    have "ptr + of_nat (8 * i) + of_nat k - (ptr + of_nat (8 * i + 4)) = of_nat k - 4" by simp
    moreover have "k = 0 \<or> k = 1 \<or> k = 2 \<or> k = 3" using that by auto
    ultimately show ?thesis by (auto simp: unsigned_minus_1_eq_mask mask_eq_exp_minus_1)
  qed
  then show "get32 m' (ptr + of_nat (8 * i)) = b" unfolding m'_def by (subst get32_put32_other) simp_all
  show "get32 m' (ptr + of_nat (8 * i + 4)) = l" unfolding m'_def by simp
  assume h: "unat (a - ptr) < 8 * i \<or> 8 * i + 8 \<le> unat (a - ptr)"
  have far: "4 \<le> unat (a - (ptr + of_nat c))" if "unat (a - ptr) < c \<or> c + 4 \<le> unat (a - ptr)" "c < 4096" for c
  proof -
    have e: "a - (ptr + of_nat c) = (a - ptr) - of_nat c" by simp
    have c: "unat (of_nat c :: u64) = c" by (rule unat_of_nat_small) (use that in simp)
    show ?thesis
    proof (cases "c \<le> unat (a - ptr)")
      case True
      then show ?thesis unfolding e using that c by (subst unat_sub) (simp_all add: word_le_nat_alt)
    next
      case False
      have "unat ((a - ptr) - of_nat c) = 2 ^ 64 + unat (a - ptr) - c"
        using False c that by (simp add: unat_sub_if_size word_size)
      then show ?thesis unfolding e using that by simp
    qed
  qed
  have "4 \<le> unat (a - (ptr + of_nat (8 * i + 4)))" by (rule far) (use h assms(1) in auto)
  moreover have "4 \<le> unat (a - (ptr + of_nat (8 * i)))" by (rule far) (use h assms(1) in auto)
  ultimately show "m' a = m a" by (simp add: m'_def put32_other)
qed

lemma map_upt_split: "map f [0..<a] @ map (\<lambda>j. f (a + j)) [0..<b] = map f [0..<a + b]"
  by (induction b) simp_all

lemma last_length:
  assumes "0 < s" "s \<le> 128"
  defines "l \<equiv> 0x80000000 OR ucast (of_nat s * 0x200 :: u64) :: u32"
  shows "(if unat (l AND 0xFFFF) = 0 then 65536 else unat (l AND 0xFFFF)) = 512 * s" "bit l 31"
proof -
  have m: "(0xFFFF :: u32) = mask 16" "(0x80000000 :: u32) = 2 ^ 31" by (simp_all add: mask_eq_exp_minus_1)
  have b: "bit (0x80000000 :: u32) n \<longleftrightarrow> n = 31" for n unfolding m(2) by (simp only: bit_exp_iff) auto
  have "unat (l AND 0xFFFF) = unat (ucast (of_nat s * 0x200 :: u64) AND mask 16 :: u32)"
    by (simp add: l_def bit.conj_disj_distrib2 flip: m(1))
  also have "\<dots> = s * 512 mod 65536"
    using assms(2) by (simp only: unat_and_mask, simp add: unsigned_ucast_eq unat_word_ariths take_bit_eq_mod unat_of_nat)
  finally show "(if unat (l AND 0xFFFF) = 0 then 65536 else unat (l AND 0xFFFF)) = 512 * s"
    using assms(1, 2) by (cases "s = 128") simp_all
  show "bit l 31" by (simp add: l_def bit_simps b)
qed

lemma prdt_loop_walk:
  fixes ptr phy :: u64
  shows "0 < s \<Longrightarrow> s \<le> 128 * c \<Longrightarrow> i + c \<le> 512 \<Longrightarrow> unat phy + i * 65536 + s * 512 \<le> 2 ^ 32 \<Longrightarrow>
    m' = prdt_loop ptr phy (of_nat (2 * i)) (of_nat s) m \<Longrightarrow>
    prd_walk (512 - i) m' (ptr + of_nat (8 * i)) = map (\<lambda>j. phy + of_nat (i * 65536 + j)) [0..<512 * s] \<and>
    (\<forall>a. unat (a - ptr) < 8 * i \<or> 4096 \<le> unat (a - ptr) \<longrightarrow> m' a = m a)"
proof (induction c arbitrary: i s m)
  case (Suc c)
  define p where "p = ptr + of_nat (8 * i)"
  have i: "i < 512" "s < 65537" using Suc.prems by auto
  have s64: "unat (of_nat s :: u64) = s" by (rule unat_of_nat_small) (use i in simp)
  have i16: "unat (of_nat (2 * i) :: u16) = 2 * i" by (rule unat_of_nat_small) (use i in simp)
  have slot: "ptr + 4 * ucast (of_nat (2 * i) :: u16) = p" "ptr + 4 * (ucast (of_nat (2 * i) :: u16) + 1) = ptr + of_nat (8 * i + 4)"
  proof -
    have "ucast (of_nat (2 * i) :: u16) = (of_nat (2 * i) :: u64)"
      using i by (simp only: unsigned_of_nat) (simp add: take_bit_nat_eq_self)
    then show "ptr + 4 * ucast (of_nat (2 * i) :: u16) = p" "ptr + 4 * (ucast (of_nat (2 * i) :: u16) + 1) = ptr + of_nat (8 * i + 4)"
      by (simp_all add: p_def algebra_simps)
  qed
  define base :: u32 where "base = ucast (phy + of_nat (i * 65536))"
  have base: "ucast base = phy + of_nat (i * 65536)"
  proof -
    have u: "unat (phy + of_nat (i * 65536)) = unat phy + i * 65536"
    proof -
      have "unat (of_nat (i * 65536) :: u64) = i * 65536" by (rule unat_of_nat_small) (use i in simp)
      moreover from this have "unat phy + unat (of_nat (i * 65536) :: u64) < 2 ^ LENGTH(64)" using Suc.prems(4) by (simp del: of_nat_mult)
      ultimately show ?thesis by (simp only: unat_add_no_wrap)
    qed
    then have "unat (phy + of_nat (i * 65536)) < 2 ^ 32" using Suc.prems by simp
    then show ?thesis by (simp add: base_def word_unat_eq_iff unsigned_ucast_eq unsigned_take_bit_eq take_bit_nat_eq_self)
  qed
  have unf: "m' = (let m1 = put32 p base m in if s > 128
      then prdt_loop ptr phy (of_nat (2 * Suc i)) (of_nat (s - 128)) (put32 (ptr + of_nat (8 * i + 4)) 0x10000 m1)
      else put32 (ptr + of_nat (8 * i + 4)) (0x80000000 OR ucast (of_nat s * 0x200 :: u64)) m1)"
  proof -
    have "(of_nat s :: u64) \<noteq> 0" using s64 Suc.prems(1) by (metis unat_0 less_irrefl)
    moreover have "(128 < (of_nat s :: u64)) = (128 < s)" by (simp add: word_less_nat_alt s64)
    moreover have "(of_nat s :: u64) - 128 = of_nat (s - 128)" if "128 < s" using that by (simp add: of_nat_diff)
    moreover have "(of_nat (2 * i) :: u16) + 2 = of_nat (2 * Suc i)" by simp
    moreover have "unat (of_nat (2 * i) :: u16) div 2 * 65536 = i * 65536" unfolding i16 by simp
    ultimately show ?thesis
      unfolding Suc.prems(5) by (subst prdt_loop.simps) (simp only: slot base_def Let_def if_False if_cancel simp_thms cong: if_cong, simp)
  qed
  define m2 :: "u32 \<Rightarrow> memory" where "m2 l = put32 (ptr + of_nat (8 * i + 4)) l (put32 p base m)" for l
  note e = entry_stores [OF i(1), where ptr = ptr and b = base and m = m, folded p_def, folded m2_def]
  have suc: "512 - i = Suc (512 - Suc i)" using i(1) by simp
  have p4: "p + 4 = ptr + of_nat (8 * i + 4)" "p + 8 = ptr + of_nat (8 * Suc i)" by (simp_all add: p_def algebra_simps)
  have split: "map (\<lambda>j. ucast base + of_nat j) [0..<k] = map (\<lambda>j. phy + of_nat (i * 65536 + j)) [0..<k]" for k
    by (simp add: base algebra_simps)
  show ?case
  proof (cases "s > 128")
    case False
    then have m': "m' = m2 (0x80000000 OR ucast (of_nat s * 0x200 :: u64))" using unf by (simp add: m2_def Let_def)
    have "prd_walk (512 - i) m' p = map (\<lambda>j. phy + of_nat (i * 65536 + j)) [0..<512 * s]"
      using last_length [of s] Suc.prems(1) False
      by (simp only: suc prd_walk.simps Let_def p4(1) m' e(1,2) if_True split) simp
    moreover have "m' a = m a" if "unat (a - ptr) < 8 * i \<or> 4096 \<le> unat (a - ptr)" for a
      unfolding m' by (rule e(3)) (use that i in auto)
    ultimately show ?thesis unfolding p_def by blast
  next
    case True
    then have "m' = prdt_loop ptr phy (of_nat (2 * Suc i)) (of_nat (s - 128)) (m2 0x10000)" using unf by (simp add: m2_def Let_def)
    note ih = Suc.IH [OF _ _ _ _ this, unfolded p4(2) [symmetric]]
    have ih: "prd_walk (512 - Suc i) m' (p + 8) = map (\<lambda>j. phy + of_nat (Suc i * 65536 + j)) [0..<512 * (s - 128)]"
      "\<And>a. unat (a - ptr) < 8 * Suc i \<or> 4096 \<le> unat (a - ptr) \<Longrightarrow> m' a = m2 0x10000 a"
      using ih True Suc.prems by auto
    have off: "unat (ptr + of_nat c + of_nat k - ptr) < 8 * Suc i" if "k < 4" "c = 8 * i \<or> c = 8 * i + 4" for c k
      using entry_offset [of "c + k" ptr] that i(1) by (auto simp: add.assoc)
    have g: "get32 m' (ptr + of_nat c) = get32 (m2 0x10000) (ptr + of_nat c)" if "c = 8 * i \<or> c = 8 * i + 4" for c
      by (rule get32_cong, rule ih(2), rule disjI1, rule off) (use that in auto)
    have "get32 m' p = base" using g [of "8 * i"] e(1) [of "0x10000"] unfolding p_def by metis
    moreover have "get32 m' (p + 4) = 0x10000" using g [of "8 * i + 4"] e(2) [of "0x10000"] unfolding p4(1) by metis
    ultimately have "prd_walk (512 - i) m' p =
        map (\<lambda>j. phy + of_nat (i * 65536 + j)) [0..<65536] @ map (\<lambda>j. phy + of_nat (Suc i * 65536 + j)) [0..<512 * (s - 128)]"
      unfolding suc prd_walk.simps Let_def ih(1) split by (simp add: split)
    also have "\<dots> = map (\<lambda>j. phy + of_nat (i * 65536 + j)) [0..<65536 + 512 * (s - 128)]"
      using map_upt_split [of "\<lambda>j. phy + of_nat (i * 65536 + j)" 65536 "512 * (s - 128)"] by (simp only: mult_Suc add.assoc add.left_commute)
    also have "65536 + 512 * (s - 128) = 512 * s" using True by simp
    finally have "prd_walk (512 - i) m' p = map (\<lambda>j. phy + of_nat (i * 65536 + j)) [0..<512 * s]" .
    moreover have "m' a = m a" if "unat (a - ptr) < 8 * i \<or> 4096 \<le> unat (a - ptr)" for a
      using ih(2) [of a] e(3) [of a "0x10000"] that i by auto
    ultimately show ?thesis unfolding p_def by blast
  qed
qed simp

text \<open>C28: following the table that is set up for \<open>n\<close> sectors, the controller transfers exactly the \<open>512 * n\<close> bytes from the
  DMA buffer on, in order, and the table takes no more than the page allocated for it.\<close>

theorem prdt_describes_buffer:
  fixes n :: u16 and ptr phy :: u64 and m :: memory
  assumes "n \<noteq> 0" "unat phy + 512 * unat n \<le> 2 ^ 32"
  defines "m' \<equiv> prdt_loop ptr phy 0 (ucast n) m"
  shows "prd_walk 512 m' ptr = map (\<lambda>j. phy + of_nat j) [0..<512 * unat n] \<and> (\<forall>a. 4096 \<le> unat (a - ptr) \<longrightarrow> m' a = m a)"
proof -
  have n: "0 < unat n" "unat n < 65536" using assms(1) unsigned_less [of n] by (simp_all add: unat_gt_0)
  have "(of_nat (unat n) :: u64) = ucast n" by simp
  then show ?thesis
    using prdt_loop_walk [of "unat n" 512 0 phy _ ptr m, OF n(1) _ _ _ refl] n(2) assms(2) by (simp add: mult.commute m'_def)
qed

theorem prdt_describes_buffer_witness:
  "prd_walk 512 (prdt_loop 0x1000 0x200000 0 (ucast (1 :: u16)) (\<lambda>_. 0)) 0x1000 = map (\<lambda>j. 0x200000 + of_nat j) [0..<512]"
  using prdt_describes_buffer [of 1 "0x200000" "0x1000" "\<lambda>_. 0"] by (simp del: upt_rec_numeral)

section \<open>Commands the drive has received\<close>

fun is_out :: "port_access \<Rightarrow> bool" where
  "is_out (In8 p) = False"
| "is_out (In16 p) = False"
| "is_out (In32 p) = False"
| "is_out _ = True"

definition reg_writes :: "u16 \<Rightarrow> port_trace \<Rightarrow> u8 list" where
  "reg_writes p t = concat (map (\<lambda>a. case a of Out8 q v \<Rightarrow> if q = p then [v] else [] | _ \<Rightarrow> []) t)"

text \<open>The value last written to a register and the one before.\<close>

definition newest :: "u16 \<Rightarrow> port_trace \<Rightarrow> u8" where
  "newest p t = rev (reg_writes p t) ! 0"

definition older :: "u16 \<Rightarrow> port_trace \<Rightarrow> u8" where
  "older p t = rev (reg_writes p t) ! 1"

text \<open>The address and the number of sectors of a command, as the drive reads its registers: with 48-bit addresses every
  register keeps two values; otherwise the upper four bits of the address are in the drive register. Zero sectors stand for
  the largest number.\<close>

definition addressed :: "ATADisk \<Rightarrow> port_trace \<Rightarrow> u64 \<times> nat" where
  "addressed d t =
     (let b = (\<lambda>k. ucast (newest (io_port d + k) t) :: u64); a = (\<lambda>k. ucast (older (io_port d + k) t) :: u64)
      in if lba48 d
         then (b 3 OR push_bit 8 (b 4) OR push_bit 16 (b 5) OR push_bit 24 (a 3) OR push_bit 32 (a 4) OR push_bit 40 (a 5),
               let n = unat (newest (io_port d + 2) t) + 256 * unat (older (io_port d + 2) t) in if n = 0 then 65536 else n)
         else (b 3 OR push_bit 8 (b 4) OR push_bit 16 (b 5) OR push_bit 24 (b 6 AND 0x0F),
               let n = unat (newest (io_port d + 2) t) in if n = 0 then 256 else n))"

text \<open>The opcode last written to the command register is that of a DMA read.\<close>

definition read_commanded :: "ATADisk \<Rightarrow> port_trace \<Rightarrow> bool" where
  "read_commanded d t \<longleftrightarrow> newest (io_port d + 7) t = (if lba48 d then 0x25 else 0xC8)"

text \<open>The address of the table of physical regions the controller has last been given.\<close>

definition table_writes :: "u16 \<Rightarrow> port_trace \<Rightarrow> u32 list" where
  "table_writes p t = concat (map (\<lambda>a. case a of Out32 q v \<Rightarrow> if q = p then [v] else [] | _ \<Rightarrow> []) t)"

definition table_of :: "ATADisk \<Rightarrow> port_trace \<Rightarrow> u64" where
  "table_of d t = ucast (rev (table_writes (bm_port d 4) t) ! 0)"

text \<open>The last output started the controller.\<close>

definition started :: "ATADisk \<Rightarrow> u8 \<Rightarrow> port_trace \<Rightarrow> bool" where
  "started d v t \<longleftrightarrow> filter is_out t \<noteq> [] \<and> last (filter is_out t) = Out8 (bm_port d 0) v"

lemma reg_writes_simps [simp]:
  "reg_writes p [] = []" "reg_writes p (t @ u) = reg_writes p t @ reg_writes p u"
  "reg_writes p (Out8 q v # t) = (if q = p then v # reg_writes p t else reg_writes p t)"
  by (simp_all add: reg_writes_def)

lemma reg_writes_inputs: "\<forall>a\<in>set u. \<not> is_out a \<Longrightarrow> reg_writes p u = []"
  by (induction u) (auto simp: reg_writes_def elim!: is_out.elims)

lemma table_writes_simps [simp]:
  "table_writes p [] = []" "table_writes p (t @ u) = table_writes p t @ table_writes p u"
  "table_writes p (Out8 q w # t) = table_writes p t"
  "table_writes p (Out32 q v # t) = (if q = p then v # table_writes p t else table_writes p t)"
  by (simp_all add: table_writes_def)

lemma table_writes_inputs: "\<forall>a\<in>set u. \<not> is_out a \<Longrightarrow> table_writes p u = []"
  by (induction u) (auto simp: table_writes_def elim!: is_out.elims)

lemma after_inputs:
  assumes "\<forall>a\<in>set u. \<not> is_out a"
  shows "addressed d (t @ u) = addressed d t" "started d v (t @ u) = started d v t"
    "read_commanded d (t @ u) = read_commanded d t" "table_of d (t @ u) = table_of d t"
proof -
  have "filter is_out u = []" using assms by (simp add: filter_empty_conv)
  then show "addressed d (t @ u) = addressed d t" "started d v (t @ u) = started d v t"
    "read_commanded d (t @ u) = read_commanded d t" "table_of d (t @ u) = table_of d t"
    using assms by (simp_all add: addressed_def started_def newest_def older_def reg_writes_inputs read_commanded_def
      table_of_def table_writes_inputs)
qed

text \<open>The sequence that both directions write: drive, task file, command.\<close>

definition valid_request :: "ATADisk \<Rightarrow> u64 \<Rightarrow> u16 \<Rightarrow> bool" where
  "valid_request d addr n \<longleftrightarrow>
     0 < unat n \<and> (if lba48 d then unat addr < 2 ^ 48 else unat addr < 2 ^ 28 \<and> unat n \<le> 256)"

definition apart :: "ATADisk \<Rightarrow> bool" where
  "apart d \<longleftrightarrow> bm_port d 0 \<notin> {io_port d + 2, io_port d + 3, io_port d + 4, io_port d + 5, io_port d + 6}"

lemma high_bits_zero: "unat (a :: u64) < 2 ^ k \<Longrightarrow> k \<le> n \<Longrightarrow> \<not> bit a n"
proof
  assume a: "unat a < 2 ^ k" "k \<le> n" "bit a n"
  have "take_bit k a = a" using a(1) by (simp add: word_unat_eq_iff unsigned_take_bit_eq take_bit_nat_eq_self)
  then have "bit (take_bit k a) n" using a(3) by simp
  then show False using a(2) by (simp add: bit_take_bit_iff)
qed

lemma bytes_48:
  assumes "unat (a :: u64) < 2 ^ 48"
  shows "ucast (ucast a :: u8) OR push_bit 8 (ucast (ucast (drop_bit 8 a) :: u8)) OR push_bit 16 (ucast (ucast (drop_bit 16 a) :: u8)) OR
    push_bit 24 (ucast (ucast (drop_bit 24 a) :: u8)) OR push_bit 32 (ucast (ucast (drop_bit 32 a) :: u8)) OR
    push_bit 40 (ucast (ucast (drop_bit 40 a) :: u8)) = a" (is "?l = a")
proof (rule bit_word_eqI)
  fix n
  assume "n < LENGTH(64)"
  note z = high_bits_zero [OF assms]
  consider "n < 8" | "8 \<le> n" "n < 16" | "16 \<le> n" "n < 24" | "24 \<le> n" "n < 32" | "32 \<le> n" "n < 40" | "40 \<le> n" "n < 48" | "48 \<le> n"
    by linarith
  then show "bit ?l n = bit a n"
    by cases (auto simp: bit_simps dest: z)
qed

lemma nibble_E0: "k < 4 \<Longrightarrow> \<not> bit (0xE0 :: nat) k" "k < 4 \<Longrightarrow> \<not> bit (0xE0 :: int) k"
proof -
  assume "k < 4"
  then have "k = 0 \<or> k = 1 \<or> k = 2 \<or> k = 3" by auto
  then show "\<not> bit (0xE0 :: nat) k" "\<not> bit (0xE0 :: int) k" by auto
qed

lemma bytes_28:
  assumes "unat (a :: u64) < 2 ^ 28"
  shows "ucast (ucast a :: u8) OR push_bit 8 (ucast (ucast (drop_bit 8 a) :: u8)) OR push_bit 16 (ucast (ucast (drop_bit 16 a) :: u8)) OR
    push_bit 24 (ucast (0xE0 OR push_bit 4 s OR ucast (drop_bit 24 a AND 0x0F) :: u8) AND 0x0F) = a" (is "?l = a")
proof (rule bit_word_eqI)
  fix n
  assume "n < LENGTH(64)"
  note z = high_bits_zero [OF assms]
  have m: "(0x0F :: u64) = mask 4" by (simp add: mask_eq_exp_minus_1)
  consider "n < 8" | "8 \<le> n" "n < 16" | "16 \<le> n" "n < 24" | "24 \<le> n" "n < 28" | "28 \<le> n" by linarith
  then show "bit ?l n = bit a n"
    unfolding m by cases (auto simp: bit_simps nibble_E0 dest: z)
qed

definition outs :: "(u16 \<times> u8) list \<Rightarrow> port_trace" where
  "outs = map (\<lambda>(p, v). Out8 p v)"

lemma addressed_command:
  fixes addr :: u64
  assumes "valid_request d addr n" "apart d" "\<forall>a\<in>set u \<union> set w. \<not> is_out a"
    and t: "t = t0 @ outs [select_drive d addr] @ u @ outs (task_file d addr n @ [command d x y]) @ w @ [Out8 (bm_port d 0) v]"
  shows "addressed d t = (addr, unat n)" "started d v t"
proof -
  have i: "reg_writes p u = []" "reg_writes p w = []" for p using assms(3) by (simp_all add: reg_writes_inputs)
  have ne: "bm_port d 0 \<noteq> io_port d + 2" "bm_port d 0 \<noteq> io_port d + 3" "bm_port d 0 \<noteq> io_port d + 4"
    "bm_port d 0 \<noteq> io_port d + 5" "bm_port d 0 \<noteq> io_port d + 6" using assms(2) by (auto simp: apart_def)
  note regs = newest_def older_def t outs_def task_file_def command_def select_drive_def
  have new: "newest (io_port d + 2) t = ucast n" "newest (io_port d + 3) t = ucast addr" "newest (io_port d + 4) t = ucast (drop_bit 8 addr)"
    "newest (io_port d + 5) t = ucast (drop_bit 16 addr)"
    by (simp_all only: regs reg_writes_simps i ne simp_thms list.map prod.case append.simps) simp_all
  have head: "newest (io_port d + 6) t = snd (select_drive d addr)"
    by (simp only: regs reg_writes_simps i ne simp_thms list.map prod.case append.simps) simp
  have old: "older (io_port d + 2) t = ucast (drop_bit 8 n)" "older (io_port d + 3) t = ucast (drop_bit 24 addr)"
    "older (io_port d + 4) t = ucast (drop_bit 32 addr)" "older (io_port d + 5) t = ucast (drop_bit 40 addr)"
    by (simp_all only: regs reg_writes_simps i ne simp_thms list.map prod.case append.simps) simp_all
  have "unat (ucast n :: u8) + 256 * unat (ucast (drop_bit 8 n) :: u8) = unat n"
  proof -
    have "unat n < 65536" using unsigned_less [of n] by simp
    then have "unat n div 256 < 256" by simp
    then show ?thesis by (simp add: unsigned_ucast_eq unsigned_drop_bit_eq take_bit_eq_mod drop_bit_eq_div unat_div)
  qed
  moreover have "(let k = unat (ucast n :: u8) in if k = 0 then 256 else k) = unat n" if "0 < unat n" "unat n \<le> 256"
    using that by (cases "unat n = 256") (simp_all add: unsigned_ucast_eq take_bit_eq_mod)
  ultimately show "addressed d t = (addr, unat n)"
    using assms(1) bytes_48 [of addr] bytes_28 [of addr "slavebit d"]
    by (cases "lba48 d") (simp_all add: addressed_def new old head select_drive_def valid_request_def Let_def)
  show "started d v t" by (simp add: started_def t)
qed

lemma outs_no_table: "table_writes p (outs xs) = []"
  by (induction xs) (auto simp: outs_def)

lemma read_command_issued:
  assumes "bm_port d 0 \<noteq> io_port d + 7" "\<forall>a\<in>set u \<union> set w. \<not> is_out a"
    and t: "t = t0 @ outs [select_drive d addr] @ u @ outs (task_file d addr n @ [command d 0xC8 0x25]) @ w @ [Out8 (bm_port d 0) v]"
  shows "read_commanded d t" "table_of d t = table_of d t0"
proof -
  have i: "reg_writes p u = []" "reg_writes p w = []" for p using assms(2) by (simp_all add: reg_writes_inputs)
  have "table_writes p u = []" "table_writes p w = []" for p using assms(2) by (simp_all add: table_writes_inputs)
  then show "table_of d t = table_of d t0" by (simp add: t table_of_def outs_no_table)
  have "newest (io_port d + 7) t = snd (command d 0xC8 0x25)"
    using i assms(1)
    by (simp only: newest_def t outs_def task_file_def command_def select_drive_def reg_writes_simps simp_thms list.map prod.case append.simps) simp
  then show "read_commanded d t" by (simp add: read_commanded_def command_def)
qed

text \<open>The walk reads the page of the table only.\<close>

lemma prd_walk_cong:
  assumes "\<And>j. j < 8 * k \<Longrightarrow> m (p + of_nat j) = m' (p + of_nat j)"
  shows "prd_walk k m p = prd_walk k m' p"
  using assms
proof (induction k arbitrary: p)
  case (Suc k)
  have "get32 m p = get32 m' p" using Suc.prems by (intro get32_cong) simp
  moreover have "get32 m (p + 4) = get32 m' (p + 4)"
    using Suc.prems [of "4 + _"] by (intro get32_cong) (simp add: add.assoc)
  moreover have "prd_walk k m (p + 8) = prd_walk k m' (p + 8)"
    using Suc.prems [of "8 + _"] by (intro Suc.IH) (simp add: add.assoc)
  ultimately show ?case by simp
qed simp

section \<open>The disk\<close>

text \<open>What is assumed of the hardware. The controller writes to the DMA buffer of the disk only. The alternate status
  register becomes ready within 1000 polls, being busy before, and shows a data request within 1000 polls of a DMA command.\<close>

definition outside :: "ATADisk \<Rightarrow> u64 \<Rightarrow> bool" where
  "outside d a \<longleftrightarrow> 0x2000000 \<le> unat (a - dma_phy_address d)"

definition confined :: "ata_env \<Rightarrow> ATADisk \<Rightarrow> bool" where
  "confined env d \<longleftrightarrow> (\<forall>t m a. outside d a \<longrightarrow> bus_master env t m a = m a)"

definition status_at :: "ata_env \<Rightarrow> port_trace \<Rightarrow> u8" where
  "status_at env t = ucast (port_in env t)"

definition becomes :: "ata_env \<Rightarrow> u16 \<Rightarrow> (u8 \<Rightarrow> bool) \<Rightarrow> port_trace \<Rightarrow> bool" where
  "becomes env p good t \<longleftrightarrow> (\<exists>k<1000. good (status_at env (t @ replicate (Suc k) (In8 p))) \<and>
     (\<forall>j<k. status_at env (t @ replicate (Suc j) (In8 p)) AND ATA_SR_BSY \<noteq> 0))"

definition drq_ok :: "u8 \<Rightarrow> bool" where
  "drq_ok v \<longleftrightarrow> v AND ATA_SR_BSY = 0 \<and> v AND ATA_SR_ERR = 0 \<and> v AND ATA_SR_DRQ \<noteq> 0"

definition responsive :: "ata_env \<Rightarrow> ATADisk \<Rightarrow> bool" where
  "responsive env d \<longleftrightarrow>
     (\<forall>t. becomes env (dcr (io_port d)) (\<lambda>v. v AND ATA_SR_DRDY \<noteq> 0) t) \<and>
     (\<forall>t c. c \<in> {0xC8, 0x25, 0xCA, 0x35} \<longrightarrow> becomes env (dcr (io_port d)) drq_ok (t @ [Out8 (io_port d + 7) c]))"

definition keeps :: "ATADisk \<Rightarrow> ata_io \<Rightarrow> ata_io \<Rightarrow> bool" where
  "keeps d io io' \<longleftrightarrow> (\<forall>a. outside d a \<longrightarrow> mem io' a = mem io a)"

lemma keeps_refl [simp]: "keeps d io io" by (simp add: keeps_def)
lemma keeps_trans: "keeps d a b \<Longrightarrow> keeps d b c \<Longrightarrow> keeps d a c" by (simp add: keeps_def)

lemma at_trace_simps [simp]:
  "ports (at_trace env t io) = t" "confined env d \<Longrightarrow> keeps d io (at_trace env t io)"
  by (simp_all add: at_trace_def keeps_def confined_def)

lemma write8_simps [simp]:
  "ports (write8 env p v io) = ports io @ [Out8 p v]" "confined env d \<Longrightarrow> keeps d io (write8 env p v io)"
  by (simp_all add: write8_def out8_def)

lemma write32_simps [simp]:
  "ports (write32 env p v io) = ports io @ [Out32 p v]" "confined env d \<Longrightarrow> keeps d io (write32 env p v io)"
  by (simp_all add: write32_def out32_def)

definition peek :: "ata_env \<Rightarrow> u16 \<Rightarrow> ata_io \<Rightarrow> ata_io" where
  "peek env p io = at_trace env (ports io @ [In8 p]) io"

lemma peek_simps [simp]:
  "ports (peek env p io) = ports io @ [In8 p]" "confined env d \<Longrightarrow> keeps d io (peek env p io)"
  "read8 env p io = (status_at env (ports io @ [In8 p]), peek env p io)"
  by (simp_all add: peek_def read8_def in8_def status_at_def)

lemma write_all_simps [simp]:
  "ports (write_all env xs io) = ports io @ outs xs" "confined env d \<Longrightarrow> keeps d io (write_all env xs io)"
proof -
  show "ports (write_all env xs io) = ports io @ outs xs"
    by (induction xs arbitrary: io) (auto simp: write_all_def outs_def)
  show "confined env d \<Longrightarrow> keeps d io (write_all env xs io)"
  proof (induction xs arbitrary: io)
    case (Cons x xs)
    then have "keeps d (write8 env (fst x) (snd x) io) (write_all env xs (write8 env (fst x) (snd x) io))" by simp
    then show ?case using Cons.prems keeps_trans write8_simps(2) by (fastforce simp: write_all_def split_def)
  qed (simp add: write_all_def)
qed

lemma delay_simps [simp]:
  "ports (ata_400ns_delay env p io) = ports io @ replicate 4 (In8 (p + 7))"
  "confined env d \<Longrightarrow> keeps d io (ata_400ns_delay env p io)"
proof -
  have e: "ata_400ns_delay env p io = peek env (p + 7) (peek env (p + 7) (peek env (p + 7) (peek env (p + 7) io)))"
    by (simp add: ata_400ns_delay_def read_status_def eval_nat_numeral)
  show "ports (ata_400ns_delay env p io) = ports io @ replicate 4 (In8 (p + 7))" by (simp add: e eval_nat_numeral)
  show "confined env d \<Longrightarrow> keeps d io (ata_400ns_delay env p io)"
    unfolding e by (blast intro: keeps_trans peek_simps(2))
qed

text \<open>The waiting loops.\<close>

lemma poll_drdy_ready:
  assumes c: "confined env d"
  shows "\<lbrakk>k \<le> Suc n; status = status_at env (ports io); status_at env (ports io @ replicate k (In8 p)) AND ATA_SR_DRDY \<noteq> 0\<rbrakk> \<Longrightarrow>
    \<exists>v io' m. poll_drdy n env p status io = (v, io') \<and> v AND ATA_SR_DRDY \<noteq> 0 \<and> ports io' = ports io @ replicate m (In8 p) \<and> keeps d io io'"
proof (induction n arbitrary: k status io)
  case 0
  show ?case
  proof (cases "status AND ATA_SR_DRDY \<noteq> 0")
    case True
    then show ?thesis by (auto intro: exI [of _ 0])
  next
    case False
    with 0 have "k = 1" by (cases k) auto
    then show ?thesis using 0 False c
      by (intro exI [of _ "status_at env (ports io @ [In8 p])"] exI [of _ "peek env p io"] exI [of _ 1]) simp
  qed
next
  case (Suc n)
  show ?case
  proof (cases "status AND ATA_SR_DRDY \<noteq> 0")
    case True
    then show ?thesis by (auto intro: exI [of _ 0])
  next
    case False
    with Suc.prems obtain k' where k: "k = Suc k'" by (cases k) auto
    let ?v = "status_at env (ports io @ [In8 p])" and ?io = "peek env p io"
    have "\<exists>v io' m. poll_drdy n env p ?v ?io = (v, io') \<and> v AND ATA_SR_DRDY \<noteq> 0 \<and>
        ports io' = ports ?io @ replicate m (In8 p) \<and> keeps d ?io io'"
      using Suc.prems k by (intro Suc.IH [of k']) simp_all
    then obtain v io' m where "poll_drdy n env p ?v ?io = (v, io')" "v AND ATA_SR_DRDY \<noteq> 0"
        "ports io' = ports io @ replicate (Suc m) (In8 p)" "keeps d io io'"
      using c peek_simps(2) keeps_trans by fastforce
    moreover have "poll_drdy (Suc n) env p status io = poll_drdy n env p ?v ?io"
      using False by simp
    ultimately show ?thesis by metis
  qed
qed

lemma wait_read_ok:
  assumes c: "confined env d"
  shows "\<lbrakk>unat i + k \<le> 5000; status = status_at env (ports io);
      \<forall>j<k. status_at env (ports io @ replicate j (In8 (dcr (io_port d)))) AND ATA_SR_BSY \<noteq> 0;
      drq_ok (status_at env (ports io @ replicate k (In8 (dcr (io_port d)))))\<rbrakk> \<Longrightarrow>
    \<exists>v io'. wait_read env d i status io = Some (v, io') \<and> v AND ATA_SR_DRQ \<noteq> 0 \<and>
      ports io' = ports io @ replicate k (In8 (dcr (io_port d))) \<and> keeps d io io'"
proof (induction k arbitrary: i status io)
  case 0
  then show ?case by (subst wait_read.simps) (simp add: drq_ok_def)
next
  case (Suc k)
  let ?p = "dcr (io_port d)"
  let ?v = "status_at env (ports io @ [In8 ?p])" and ?io = "peek env ?p io"
  have b: "status AND ATA_SR_BSY \<noteq> 0" using Suc.prems by (metis append_Nil2 replicate_0 zero_less_Suc)
  have i: "\<not> i > 5000" using Suc.prems(1) by (simp add: word_less_nat_alt)
  have i1: "unat (i + 1) = unat i + 1" using unat_add_no_wrap [of i 1] Suc.prems(1) by simp
  have "\<exists>v io'. wait_read env d (i + 1) ?v ?io = Some (v, io') \<and> v AND ATA_SR_DRQ \<noteq> 0 \<and>
      ports io' = ports ?io @ replicate k (In8 ?p) \<and> keeps d ?io io'"
  proof (rule Suc.IH)
    show "unat (i + 1) + k \<le> 5000" using Suc.prems(1) i1 by simp
    show "\<forall>j<k. status_at env (ports ?io @ replicate j (In8 ?p)) AND ATA_SR_BSY \<noteq> 0"
    proof (intro allI impI)
      fix j
      assume "j < k"
      then show "status_at env (ports ?io @ replicate j (In8 ?p)) AND ATA_SR_BSY \<noteq> 0"
        using Suc.prems(3) [rule_format, of "Suc j"] by simp
    qed
    show "drq_ok (status_at env (ports ?io @ replicate k (In8 ?p)))" using Suc.prems(4) by simp
  qed simp
  moreover have "wait_read env d i status io = wait_read env d (i + 1) ?v ?io"
    using b i by (subst wait_read.simps) simp
  ultimately show ?case using c peek_simps(2) keeps_trans by fastforce
qed

section \<open>Starting a chunk\<close>

lemma prdt_loop_cong:
  assumes "\<And>a. P a \<Longrightarrow> m a = m' a" "P a"
  shows "prdt_loop ptr phy i n m a = prdt_loop ptr phy i n m' a"
  using assms(1)
proof (induction ptr phy i n m arbitrary: m' rule: prdt_loop.induct)
  case (1 ptr phy i n m)
  have p: "put32 x v m1 b = put32 x v m2 b" if "P b" "\<And>a. P a \<Longrightarrow> m1 a = m2 a" for x v m1 m2 b
    using that by (simp add: put32_def)
  have q: "put32 y w (put32 x v m) b = put32 y w (put32 x v m') b" if "P b" for x y v w b
    by (rule p [OF that], rule p) (use 1(2) in auto)
  show ?case
  proof (cases "n = 0")
    case True
    then show ?thesis using 1(2) assms(2) by (subst (1 2) prdt_loop.simps) simp
  next
    case False
    show ?thesis
    proof (cases "n > 128")
      case True
      have "prdt_loop ptr phy (i + 2) (n - 128) (put32 (ptr + 4 * (ucast i + 1)) (128 * 0x200)
            (put32 (ptr + 4 * ucast i) (ucast (phy + of_nat (unat i div 2 * 0x10000))) m)) a =
          prdt_loop ptr phy (i + 2) (n - 128) (put32 (ptr + 4 * (ucast i + 1)) (128 * 0x200)
            (put32 (ptr + 4 * ucast i) (ucast (phy + of_nat (unat i div 2 * 0x10000))) m')) a"
        by (rule 1(1) [OF False refl True]) (rule q)
      then show ?thesis using False True by (subst (1 2) prdt_loop.simps) simp
    next
      case small: False
      then show ?thesis using False q [OF assms(2)] by (subst (1 2) prdt_loop.simps) simp
    qed
  qed
qed

lemma dma_reset_keeps:
  assumes "confined env d" "\<And>m a. outside d a \<Longrightarrow> f m a = m a"
  shows "keeps d io (dma_reset env d f io)"
proof -
  have f: "keeps d io (on_mem f io)" for io using assms(2) by (simp add: keeps_def on_mem_def)
  let ?io = "peek env (bm_port d 2) (on_mem f (peek env (bm_port d 2) io))"
  have "keeps d io ?io" using keeps_trans [OF peek_simps(2) keeps_trans [OF f peek_simps(2)]] assms(1) by blast
  then show ?thesis unfolding dma_reset_def using keeps_trans [OF _ write_all_simps(2)] assms(1) by (simp add: Let_def)
qed

lemma dma_table_mem:
  assumes "confined env d" "outside d a"
  shows "mem (dma_table env d n io) a = prdt_loop (prdt d) (dma_phy_address d) 0 (ucast n) (mem io) a"
proof -
  let ?io = "on_mem (prdt_loop (prdt d) (dma_phy_address d) 0 (ucast n)) io"
  have "keeps d ?io (dma_table env d n io)"
    unfolding dma_table_def Let_def using assms(1) by (blast intro: keeps_trans write_all_simps(2) write32_simps(2))
  then show ?thesis using assms(2) by (simp add: keeps_def on_mem_def)
qed

lemma dma_table_given: "table_of d (ports (dma_table env d n io)) = ucast (ucast (prdt d) :: u32)"
  by (simp add: dma_table_def Let_def table_of_def)

lemma mem_fill_outside: "outside d a \<Longrightarrow> mem_fill (dma_phy_address d) v 0x2000000 m a = m a"
  by (simp add: outside_def mem_fill_def word_less_nat_alt)

lemma table_ready:
  assumes "confined env d" "\<And>m a. outside d a \<Longrightarrow> f m a = m a" "outside d a"
  shows "mem (dma_table env d n (dma_reset env d f io)) a = prdt_loop (prdt d) (dma_phy_address d) 0 (ucast n) (mem io) a"
  unfolding dma_table_mem [OF assms(1,3)]
  by (rule prdt_loop_cong [of "outside d"]) (use dma_reset_keeps [where f = f and env = env and d = d] assms in \<open>auto simp: keeps_def\<close>)

text \<open>The wait for a drive that answers: the status seen first and the polls that follow.\<close>

lemma becomes_polls:
  assumes "becomes env p good t"
  obtains k where "k < 1000" "good (status_at env ((t @ [In8 p]) @ replicate k (In8 p)))"
    "\<forall>j<k. status_at env ((t @ [In8 p]) @ replicate j (In8 p)) AND ATA_SR_BSY \<noteq> 0"
  using assms by (auto simp: becomes_def)

lemma masked_nonzero: "v AND m \<noteq> (0 :: u8) \<Longrightarrow> v \<noteq> 0"
  by auto

lemma drq_wait:
  assumes "confined env d" "responsive env d" "ports io = t @ [Out8 (io_port d + 7) c]" "c \<in> {0xC8, 0x25, 0xCA, 0x35}"
  defines "p \<equiv> dcr (io_port d)"
  shows "\<exists>v io' m. status_at env (ports io @ [In8 p]) \<noteq> 0 \<and>
    wait_read env d 0 (status_at env (ports io @ [In8 p])) (peek env p io) = Some (v, io') \<and> v AND ATA_SR_DRQ \<noteq> 0 \<and>
    ports io' = ports io @ replicate (Suc m) (In8 p) \<and> keeps d io io'"
proof -
  have "becomes env p drq_ok (ports io)" unfolding assms(3) p_def using assms(2,4) unfolding responsive_def by blast
  then obtain k where k: "k < 1000" "drq_ok (status_at env ((ports io @ [In8 p]) @ replicate k (In8 p)))"
    "\<forall>j<k. status_at env ((ports io @ [In8 p]) @ replicate j (In8 p)) AND ATA_SR_BSY \<noteq> 0" by (rule becomes_polls)
  have "\<exists>v io'. wait_read env d 0 (status_at env (ports io @ [In8 p])) (peek env p io) = Some (v, io') \<and> v AND ATA_SR_DRQ \<noteq> 0 \<and>
      ports io' = ports (peek env p io) @ replicate k (In8 p) \<and> keeps d (peek env p io) io'"
    unfolding p_def by (rule wait_read_ok [OF assms(1)]) (use k in \<open>simp_all add: p_def\<close>)
  moreover have "status_at env (ports io @ [In8 p]) \<noteq> 0"
  proof (cases k)
    case 0
    then show ?thesis using k(2) by (auto simp: drq_ok_def)
  next
    case (Suc k')
    then have "status_at env ((ports io @ [In8 p]) @ replicate 0 (In8 p)) AND ATA_SR_BSY \<noteq> 0" using k(3) by blast
    then show ?thesis by auto
  qed
  ultimately show ?thesis using keeps_trans [OF peek_simps(2)] assms(1) by fastforce
qed

lemma drdy_wait:
  assumes "confined env d" "responsive env d"
  defines "p \<equiv> dcr (io_port d)"
  shows "\<exists>v io' m. poll_drdy 2001 env p (status_at env (ports io @ [In8 p])) (peek env p io) = (v, io') \<and> v AND ATA_SR_DRDY \<noteq> 0 \<and>
    ports io' = ports io @ replicate (Suc m) (In8 p) \<and> keeps d io io'"
proof -
  have "becomes env p (\<lambda>v. v AND ATA_SR_DRDY \<noteq> 0) (ports io)" using assms(2) by (simp add: responsive_def p_def)
  then obtain k where "k < 1000" "status_at env ((ports io @ [In8 p]) @ replicate k (In8 p)) AND ATA_SR_DRDY \<noteq> 0"
    by (rule becomes_polls)
  then have "\<exists>v io' m. poll_drdy 2001 env p (status_at env (ports io @ [In8 p])) (peek env p io) = (v, io') \<and> v AND ATA_SR_DRDY \<noteq> 0 \<and>
      ports io' = ports (peek env p io) @ replicate m (In8 p) \<and> keeps d (peek env p io) io'"
    by (intro poll_drdy_ready [OF assms(1), of k]) simp_all
  then show ?thesis using keeps_trans [OF peek_simps(2)] assms(1) by fastforce
qed

lemma read_attempt_ok:
  assumes c: "confined env d" and r: "responsive env d" and "apart d" "valid_request d addr n" "bm_port d 0 \<noteq> io_port d + 7"
  shows "\<exists>io'. read_attempt env d addr n s = Some (True, (set_select (ucast (drive_head d)) s)\<lparr>at_io := io'\<rparr>) \<and>
    addressed d (ports io') = (addr, unat n) \<and> started d 9 (ports io') \<and>
    read_commanded d (ports io') \<and> table_of d (ports io') = ucast (ucast (prdt d) :: u32) \<and>
    (\<forall>a. outside d a \<longrightarrow> mem io' a = prdt_loop (prdt d) (dma_phy_address d) 0 (ucast n) (mem (at_io s)) a)"
proof -
  let ?p = "dcr (io_port d)"
  define io1 where "io1 = dma_table env d n (dma_reset env d (mem_fill (dma_phy_address d) 0 0x2000000) (at_io s))"
  define io2 where "io2 = write_all env [select_drive d addr] io1"
  have m1: "mem io1 a = prdt_loop (prdt d) (dma_phy_address d) 0 (ucast n) (mem (at_io s)) a" if "outside d a" for a
    unfolding io1_def by (rule table_ready [OF c _ that]) (rule mem_fill_outside)
  obtain v3 io3 m3 where p3: "poll_drdy 2001 env ?p (status_at env (ports io2 @ [In8 ?p])) (peek env ?p io2) = (v3, io3)"
    "v3 AND ATA_SR_DRDY \<noteq> 0" "ports io3 = ports io2 @ replicate (Suc m3) (In8 ?p)" "keeps d io2 io3"
    using drdy_wait [OF c r, of io2] by blast
  define cs where "cs = task_file d addr n @ [command d 0xC8 0x25]"
  define start where "start = (if status_at env (ports io2 @ [In8 ?p]) \<noteq> 0 then io3 else peek env ?p io2)"
  have st: "keeps d io2 start" "\<exists>m. ports start = ports io2 @ replicate m (In8 ?p)"
    using p3 c by (auto simp: start_def intro: exI [of _ 1] exI [of _ "Suc m3"])
  define io4 where "io4 = write_all env cs start"
  have io4: "ports io4 = (ports start @ outs (task_file d addr n)) @ [Out8 (io_port d + 7) (if lba48 d then 0x25 else 0xC8)]"
    by (simp add: io4_def cs_def outs_def command_def)
  have "(if lba48 d then 0x25 else 0xC8) \<in> {0xC8, 0x25, 0xCA, 0x35 :: u8}" by simp
  from drq_wait [OF c r io4 this] obtain v5 io5 m5 where p5: "status_at env (ports io4 @ [In8 ?p]) \<noteq> 0"
    "wait_read env d 0 (status_at env (ports io4 @ [In8 ?p])) (peek env ?p io4) = Some (v5, io5)" "v5 AND ATA_SR_DRQ \<noteq> 0"
    "ports io5 = ports io4 @ replicate (Suc m5) (In8 ?p)" "keeps d io4 io5" by blast
  define io6 where "io6 = write8 env (bm_port d 0) 9 io5"
  have "read_attempt env d addr n s = Some (True, (set_select (ucast (drive_head d)) s)\<lparr>at_io := io6\<rparr>)"
  proof -
    have "(if status_at env (ports io2 @ [In8 ?p]) \<noteq> 0
        then case poll_drdy 2001 env ?p (status_at env (ports io2 @ [In8 ?p])) (peek env ?p io2) of
          (status, io) \<Rightarrow> (status AND ATA_SR_DRDY \<noteq> 0, io)
        else (True, peek env ?p io2)) = (True, start)" using p3(1,2) by (simp add: start_def)
    then show ?thesis
      unfolding read_attempt_def io1_def [symmetric] io2_def [symmetric] Let_def peek_simps(3) prod.case
      using p5(1-3) by (simp only: prod.case not_True_eq_False if_False flip: cs_def io4_def) (simp add: io6_def)
  qed
  moreover obtain m where m: "ports start = ports io2 @ replicate m (In8 ?p)" using st(2) by blast
  have "addressed d (ports io6) = (addr, unat n) \<and> started d 9 (ports io6) \<and> read_commanded d (ports io6) \<and>
      table_of d (ports io6) = ucast (ucast (prdt d) :: u32)"
  proof -
    have i: "\<forall>a\<in>set (replicate m (In8 ?p)) \<union> set (replicate (Suc m5) (In8 ?p)). \<not> is_out a" by (auto split: if_splits)
    have t: "ports io6 = ports io1 @ outs [select_drive d addr] @ replicate m (In8 ?p) @
        outs (task_file d addr n @ [command d 0xC8 0x25]) @ replicate (Suc m5) (In8 ?p) @ [Out8 (bm_port d 0) 9]"
      by (simp add: io6_def p5(4) io4_def cs_def m io2_def)
    show ?thesis using addressed_command [OF assms(4,3) i t] read_command_issued [OF assms(5) i t]
      by (simp add: io1_def dma_table_given)
  qed
  moreover have "keeps d io1 io6"
    unfolding io6_def using c p5(5) st(1) keeps_trans write8_simps(2) write_all_simps(2) unfolding io4_def io2_def by metis
  ultimately show ?thesis using m1 by (auto simp: keeps_def)
qed

lemma read_sectors_ok:
  assumes "confined env d" "responsive env d" "apart d" "valid_request d addr n" "bm_port d 0 \<noteq> io_port d + 7"
  shows "\<exists>io'. readDMADiskSectors env d addr n s = Some (READ_DMA_SUCCESS, (set_select (ucast (drive_head d)) s)\<lparr>at_io := io'\<rparr>) \<and>
    addressed d (ports io') = (addr, unat n) \<and> started d 9 (ports io') \<and>
    read_commanded d (ports io') \<and> table_of d (ports io') = ucast (ucast (prdt d) :: u32) \<and>
    (\<forall>a. outside d a \<longrightarrow> mem io' a = prdt_loop (prdt d) (dma_phy_address d) 0 (ucast n) (mem (at_io s)) a)"
  using read_attempt_ok [OF assms, of s] by (subst readDMADiskSectors.simps) auto

end
