(* ===== verification/AtaTransfer.thy ===== *)
theory AtaTransfer
  imports AtaProofs
begin

text \<open>
  A DMA read as a whole: the call that starts it, and the interrupts that copy each chunk out and start the next one.
\<close>

section \<open>Assumptions on the disk\<close>

text \<open>Documented behaviour of the drive and the bus master: when a DMA read of \<open>n\<close> sectors from \<open>a\<close> on has been written to
  the command register, and the controller has been started in the direction to memory with a table of physical regions that
  describes \<open>512 * n\<close> different bytes of the DMA buffer, then the interrupt comes with bit 2 of the status set, and the
  sectors are by then at the addresses of the table, in its order. Without the opcode of a read, or with a table that describes
  something else, nothing is promised. Reading the status register of the drive does not change memory.\<close>

definition serves :: "ata_env \<Rightarrow> ATADisk \<Rightarrow> (nat \<Rightarrow> u8) \<Rightarrow> bool" where
  "serves env d data \<longleftrightarrow>
     (\<forall>t m a n regions. addressed d t = (a, n) \<and> read_commanded d t \<and> started d 9 t \<and>
        regions = prd_walk 512 m (table_of d t) \<and> length regions = 512 * n \<and> distinct regions \<and> (\<forall>r\<in>set regions. \<not> outside d r) \<longrightarrow>
        status_at env (t @ [In8 (bm_port d 2)]) AND 4 \<noteq> 0 \<and>
        (\<forall>j<512 * n. bus_master env (t @ [In8 (bm_port d 2)]) m (regions ! j) = data (512 * unat a + j))) \<and>
     (\<forall>t m. bus_master env (t @ [In8 (io_port d + 7)]) m = m)"

definition good_disk :: "ata_env \<Rightarrow> ATADisk \<Rightarrow> (nat \<Rightarrow> u8) \<Rightarrow> bool" where
  "good_disk env d data \<longleftrightarrow> confined env d \<and> responsive env d \<and> apart d \<and> bm_port d 0 \<noteq> io_port d + 7 \<and> serves env d data"

text \<open>The disk, the request and the memory it uses: \<open>n\<close> sectors from \<open>addr\<close> on go to \<open>buf\<close>, which overlaps neither the DMA
  buffer nor the page of the table. That page is below 4 GiB and apart from the DMA buffer.\<close>

definition request_ok :: "ATADisk \<Rightarrow> u64 \<Rightarrow> u64 \<Rightarrow> nat \<Rightarrow> bool" where
  "request_ok d addr buf n \<longleftrightarrow>
     0 < n \<and> unat addr + n \<le> (if lba48 d then 2 ^ 48 else 2 ^ 28) \<and>
     unat (dma_phy_address d) + 0x2000000 \<le> 2 ^ 32 \<and> unat (prdt d) < 2 ^ 32 \<and> (\<forall>j<4096. outside d (prdt d + of_nat j)) \<and>
     (\<forall>j<512 * n. outside d (buf + of_nat j) \<and> 4096 \<le> unat (buf + of_nat j - prdt d))"

lemma done_read_irrelevant [simp]:
  "good_disk env (d\<lparr>done_read := x\<rparr>) data = good_disk env d data" "request_ok (d\<lparr>done_read := x\<rparr>) addr buf n = request_ok d addr buf n"
  by (simp_all add: good_disk_def confined_def outside_def responsive_def apart_def serves_def addressed_def started_def bm_port_def
      read_commanded_def table_of_def request_ok_def)

lemma retry_once: "f s = Some (success, s') \<Longrightarrow> retry f success s = Some s'"
  by (subst retry.simps) simp

lemma fast_memcpy_apart:
  assumes "unat l \<le> gap dest src"
  shows "fast_memcpy dest src l m a = (if a - dest < l then m (src + (a - dest)) else m a)"
  using cp.loop_block [of 0 l dest src m] assms by (simp add: fast_memcpy_def whole_block)

text \<open>A chunk of \<open>c\<close> sectors is commanded: the drive has the opcode, the controller the table, and the table describes the
  first \<open>512 * c\<close> bytes of the DMA buffer.\<close>

definition commanded :: "ATADisk \<Rightarrow> nat \<Rightarrow> ata_io \<Rightarrow> bool" where
  "commanded d c io \<longleftrightarrow> read_commanded d (ports io) \<and> table_of d (ports io) = prdt d \<and>
     prd_walk 512 (mem io) (prdt d) = map (\<lambda>j. dma_phy_address d + of_nat j) [0..<512 * c]"

lemma dma_offset: "j < 0x2000000 \<Longrightarrow> unat (dma_phy_address d + of_nat j - dma_phy_address d) = j"
  by (simp add: unat_of_nat_small)

lemma commanded_regions:
  assumes "commanded d c io" "c \<le> 65534"
  shows "length (prd_walk 512 (mem io) (table_of d (ports io))) = 512 * c" "distinct (prd_walk 512 (mem io) (table_of d (ports io)))"
    "\<forall>r\<in>set (prd_walk 512 (mem io) (table_of d (ports io))). \<not> outside d r"
    "j < 512 * c \<Longrightarrow> prd_walk 512 (mem io) (table_of d (ports io)) ! j = dma_phy_address d + of_nat j"
proof -
  have w: "prd_walk 512 (mem io) (table_of d (ports io)) = map (\<lambda>j. dma_phy_address d + of_nat j) [0..<512 * c]"
    using assms(1) by (simp add: commanded_def)
  show "length (prd_walk 512 (mem io) (table_of d (ports io))) = 512 * c" by (simp add: w)
  show "j < 512 * c \<Longrightarrow> prd_walk 512 (mem io) (table_of d (ports io)) ! j = dma_phy_address d + of_nat j" by (simp add: w)
  have o: "unat (dma_phy_address d + of_nat j - dma_phy_address d) = j" if "j < 512 * c" for j
    using that assms(2) by (intro dma_offset) simp
  then have "inj_on (\<lambda>j. dma_phy_address d + of_nat j) {0..<512 * c}"
    by (intro inj_onI) (metis atLeastLessThan_iff)
  then show "distinct (prd_walk 512 (mem io) (table_of d (ports io)))" by (simp add: w distinct_map)
  show "\<forall>r\<in>set (prd_walk 512 (mem io) (table_of d (ports io))). \<not> outside d r"
    unfolding w outside_def using o assms(2) by auto
qed

text \<open>Reading a chunk leaves the caller's buffer alone.\<close>

lemma request_chunk:
  assumes "request_ok d addr buf n" "t < n" "0 < c" "c \<le> n - t" "c \<le> unat (dma_chunk (lba48 d))"
  shows "valid_request d (addr + of_nat t) (of_nat c)" "unat (of_nat c :: u16) = c" "unat (addr + of_nat t) = unat addr + t"
proof -
  have n: "n \<le> 2 ^ 48" using assms(1) by (auto simp: request_ok_def split: if_splits)
  have c: "c \<le> 65534" "\<not> lba48 d \<Longrightarrow> c \<le> 256"
    using assms(5) by (auto simp: dma_chunk_def DMA_CHUNK_def DMA_CHUNK_EXT_def split: if_splits)
  show u: "unat (of_nat c :: u16) = c" by (rule unat_of_nat_small) (use c in simp)
  have "unat (of_nat t :: u64) = t" by (rule unat_of_nat_small) (use n assms(2) in simp)
  moreover have "unat addr + t < 2 ^ 48" using assms(1,2) by (auto simp: request_ok_def split: if_splits)
  ultimately show a: "unat (addr + of_nat t) = unat addr + t" by (subst unat_add_no_wrap) simp_all
  show "valid_request d (addr + of_nat t) (of_nat c)"
    unfolding valid_request_def u a using assms c by (auto simp: request_ok_def)
qed

lemma start_chunk:
  assumes "good_disk env d data" "request_ok d addr buf n" "t < n" "0 < c" "c \<le> n - t" "c \<le> unat (dma_chunk (lba48 d))"
  shows "\<exists>io'. retry (readDMADiskSectors env d (addr + of_nat t) (of_nat c)) READ_DMA_SUCCESS s =
      Some ((set_select (ucast (drive_head d)) s)\<lparr>at_io := io'\<rparr>) \<and>
    addressed d (ports io') = (addr + of_nat t, c) \<and> started d 9 (ports io') \<and> commanded d c io' \<and>
    (\<forall>j<512 * n. mem io' (buf + of_nat j) = mem (at_io s) (buf + of_nat j))"
proof -
  note q = request_chunk [OF assms(2-6)]
  obtain io' where io: "readDMADiskSectors env d (addr + of_nat t) (of_nat c) s = Some (READ_DMA_SUCCESS, (set_select (ucast (drive_head d)) s)\<lparr>at_io := io'\<rparr>)"
    "addressed d (ports io') = (addr + of_nat t, c)" "started d 9 (ports io')"
    "\<forall>a. outside d a \<longrightarrow> mem io' a = prdt_loop (prdt d) (dma_phy_address d) 0 (ucast (of_nat c :: u16)) (mem (at_io s)) a"
    "read_commanded d (ports io')" "table_of d (ports io') = ucast (ucast (prdt d) :: u32)"
    using read_sectors_ok [of env d "addr + of_nat t" "of_nat c" s] assms(1) q by (auto simp: good_disk_def)
  let ?m = "prdt_loop (prdt d) (dma_phy_address d) 0 (ucast (of_nat c :: u16)) (mem (at_io s))"
  have c: "c \<le> 65534" using assms(6) by (auto simp: dma_chunk_def DMA_CHUNK_def DMA_CHUNK_EXT_def split: if_splits)
  have "(ucast (of_nat c :: u16) :: u64) = of_nat c" using q(2) by (metis of_nat_unat)
  moreover have "unat (dma_phy_address d) + 0x2000000 \<le> 2 ^ 32" using assms(2) by (simp add: request_ok_def)
  ultimately have walk: "prd_walk 512 ?m (prdt d) = map (\<lambda>j. dma_phy_address d + of_nat j) [0..<512 * c]"
    and page: "\<forall>a. 4096 \<le> unat (a - prdt d) \<longrightarrow> ?m a = mem (at_io s) a"
    using prdt_loop_walk [of c 512 0 "dma_phy_address d" _ "prdt d" "mem (at_io s)", OF assms(4) _ _ _ refl] c by simp_all
  have "prd_walk 512 (mem io') (prdt d) = prd_walk 512 ?m (prdt d)"
    using io(4) assms(2) by (intro prd_walk_cong) (simp add: request_ok_def)
  moreover have "(ucast (ucast (prdt d) :: u32) :: u64) = prdt d"
    using assms(2) by (simp add: request_ok_def word_unat_eq_iff unsigned_ucast_eq unsigned_take_bit_eq take_bit_nat_eq_self)
  ultimately have com: "commanded d c io'" using io(5,6) walk by (simp add: commanded_def)
  have "mem io' (buf + of_nat j) = mem (at_io s) (buf + of_nat j)" if "j < 512 * n" for j
  proof -
    have "outside d (buf + of_nat j)" "4096 \<le> unat (buf + of_nat j - prdt d)"
      using assms(2) that by (auto simp: request_ok_def)
    then show ?thesis using io(4) page by simp
  qed
  then show ?thesis using io com retry_once [where f = "readDMADiskSectors env d (addr + of_nat t) (of_nat c)", OF io(1)] by blast
qed

section \<open>One interrupt\<close>

definition chunk_at :: "ATADisk \<Rightarrow> nat \<Rightarrow> nat \<Rightarrow> nat" where
  "chunk_at d n t = min (unat (dma_chunk (lba48 d))) (n - t)"

text \<open>\<open>t\<close> of the \<open>n\<close> sectors are in the caller's buffer, and the next chunk has been started.\<close>

definition transferring :: "ata_env \<Rightarrow> ATADisk \<Rightarrow> (nat \<Rightarrow> u8) \<Rightarrow> nat \<Rightarrow> u64 \<Rightarrow> u64 \<Rightarrow> nat \<Rightarrow> nat \<Rightarrow> ata_state \<Rightarrow> bool" where
  "transferring env d data i addr buf n t s \<longleftrightarrow>
     t < n \<and> enabled (dmaBuffer s) \<and> b_read (dmaBuffer s) \<and> b_ataDisk (dmaBuffer s) = Some i \<and> b_buffer (dmaBuffer s) = buf \<and>
     target_read (dmaBuffer s) = of_nat n \<and> start_offset (dmaBuffer s) = 0 \<and> end_offset (dmaBuffer s) = 0 \<and>
     total_read (dmaBuffer s) = of_nat t \<and> current_address (dmaBuffer s) = addr + of_nat t \<and>
     current_read (dmaBuffer s) = of_nat (chunk_at d n t) \<and>
     i < length (ataDisks (ataManager s)) \<and> ataDisks (ataManager s) ! i = Some d \<and>
     addressed d (ports (at_io s)) = (addr + of_nat t, chunk_at d n t) \<and> started d 9 (ports (at_io s)) \<and>
     commanded d (chunk_at d n t) (at_io s) \<and>
     (\<forall>j<512 * t. mem (at_io s) (buf + of_nat j) = data (512 * unat addr + j))"

lemma chunk_at_bounds:
  assumes "t < n"
  shows "0 < chunk_at d n t" "chunk_at d n t \<le> n - t" "chunk_at d n t \<le> unat (dma_chunk (lba48 d))" "chunk_at d n t \<le> 65534"
  using assms by (auto simp: chunk_at_def dma_chunk_def DMA_CHUNK_def DMA_CHUNK_EXT_def)

lemma request_bounds:
  assumes "request_ok d addr buf n"
  shows "n \<le> 2 ^ 48" "k \<le> n \<Longrightarrow> unat (of_nat k :: u64) = k" "k \<le> 512 * n \<Longrightarrow> unat (of_nat k :: u64) = k"
proof -
  show n: "n \<le> 2 ^ 48" using assms by (auto simp: request_ok_def split: if_splits)
  show "k \<le> n \<Longrightarrow> unat (of_nat k :: u64) = k" by (rule unat_of_nat_small) (use n in simp)
  show "k \<le> 512 * n \<Longrightarrow> unat (of_nat k :: u64) = k" by (rule unat_of_nat_small) (use n in simp)
qed

text \<open>The copy of a chunk: the blocks are apart, and the buffer grows by the chunk.\<close>

lemma chunk_gap:
  assumes "request_ok d addr buf n" "t < n" "c \<le> n - t" "c \<le> 65534"
  shows "512 * c \<le> gap (buf + of_nat (512 * t)) (dma_phy_address d)"
proof -
  let ?dest = "buf + of_nat (512 * t)" and ?src = "dma_phy_address d"
  have out: "outside d (buf + of_nat j)" if "j < 512 * n" for j using assms(1) that by (auto simp: request_ok_def)
  have "0x2000000 \<le> unat (?dest - ?src)" using out [of "512 * t"] assms(2) by (simp add: outside_def)
  moreover have "512 * c \<le> unat (?src - ?dest)"
  proof (rule ccontr)
    assume "\<not> 512 * c \<le> unat (?src - ?dest)"
    then have "512 * t + unat (?src - ?dest) < 512 * n" using assms(2,3) by simp
    from out [OF this] have "outside d ?src" by (simp add: algebra_simps)
    then show False by (simp add: outside_def)
  qed
  ultimately show ?thesis using assms(4) by (simp add: gap_def)
qed

lemma unat_neg: "0 < unat (x :: u64) \<Longrightarrow> unat (- x) = 2 ^ 64 - unat x"
  using unat_sub_if_size [of 0 x] by (simp add: word_size)

lemma chunk_copied:
  assumes "request_ok d addr buf n" "t < n" "c \<le> n - t" "c \<le> 65534"
    and "\<forall>j<512 * t. m (buf + of_nat j) = data (512 * unat addr + j)"
    and "\<forall>j<512 * c. m (dma_phy_address d + of_nat j) = data (512 * (unat addr + t) + j)"
    and "j < 512 * (t + c)"
  shows "fast_memcpy (buf + of_nat (512 * t)) (dma_phy_address d) (of_nat (512 * c)) m (buf + of_nat j) = data (512 * unat addr + j)"
proof -
  let ?dest = "buf + of_nat (512 * t)"
  have c: "unat (of_nat (512 * c) :: u64) = 512 * c" by (rule unat_of_nat_small) (use assms(4) in simp)
  note copy = fast_memcpy_apart [of "of_nat (512 * c)" ?dest "dma_phy_address d" m, unfolded c, OF chunk_gap [OF assms(1-4)]]
  have n: "n \<le> 2 ^ 48" using request_bounds(1) [OF assms(1)] .
  show ?thesis
  proof (cases "j < 512 * t")
    case True
    have "buf + of_nat j - ?dest = - (of_nat (512 * t - j) :: u64)" using True by (simp add: of_nat_diff)
    moreover have "unat (- (of_nat (512 * t - j) :: u64)) = 2 ^ 64 - (512 * t - j)"
    proof -
      have u: "unat (of_nat (512 * t - j) :: u64) = 512 * t - j" by (rule unat_of_nat_small) (use n assms(2) in simp)
      show ?thesis using unat_neg [of "of_nat (512 * t - j)"] True unfolding u by simp
    qed
    ultimately have "\<not> buf + of_nat j - ?dest < of_nat (512 * c)"
      using n assms(2,4) c by (simp only: word_less_nat_alt) simp
    then show ?thesis using copy assms(5) True by simp
  next
    case False
    then have e: "buf + of_nat j - ?dest = of_nat (j - 512 * t)" by (simp add: of_nat_diff)
    have u: "unat (of_nat (j - 512 * t) :: u64) = j - 512 * t" by (rule unat_of_nat_small) (use assms(4,7) in simp)
    have "j - 512 * t < 512 * c" using False assms(7) by simp
    moreover from this have "buf + of_nat j - ?dest < of_nat (512 * c)" unfolding e by (simp only: word_less_nat_alt u c)
    moreover have "512 * (unat addr + t) + (j - 512 * t) = 512 * unat addr + j" using False by simp
    ultimately show ?thesis using copy e assms(6) by metis
  qed
qed

lemma status_read_mem: "good_disk env d data \<Longrightarrow> mem (peek env (io_port d + 7) io) = mem io"
  by (simp add: peek_def at_trace_def good_disk_def serves_def)

lemma chunk_taken:
  assumes g: "good_disk env d data" and r: "request_ok d addr buf n" and x: "transferring env d data i addr buf n t s"
  defines "c \<equiv> chunk_at d n t" and "io \<equiv> peek env (io_port d + 7) (peek env (bm_port d 2) (at_io s))"
  defines "s1 \<equiv> take_chunk_in d (s\<lparr>at_io := io\<rparr>)"
  shows "ataHandleInterrupt env IRQ14 s =
      then_do (if t + c < n then next_read env d s1 else read_finished env s1)
        (\<lambda>s. Some (Inr (on_io (peek env (io_port d + 7)) s)))"
    and "\<exists>k m. s1 = s\<lparr>at_io := io\<lparr>mem := m\<rparr>, dmaBuffer := (dmaBuffer s)\<lparr>total_read := of_nat (t + c), total_read_bytes := k\<rparr>\<rparr> \<and>
      (\<forall>j<512 * (t + c). m (buf + of_nat j) = data (512 * unat addr + j))"
proof -
  have t: "t < n" using x by (simp add: transferring_def)
  note b = chunk_at_bounds [OF t, of d, folded c_def] and q = request_bounds [OF r]
  have c0: "(of_nat c :: u64) \<noteq> 0" using b(1,4) q(2) [of c] b(2) by (metis diff_le_self order_trans unat_0 less_irrefl)
  let ?m1 = "bus_master env (ports (at_io s) @ [In8 (bm_port d 2)]) (mem (at_io s))"
  have io: "mem io = ?m1" unfolding io_def status_read_mem [OF g] by (simp add: peek_def at_trace_def)
  have sv: "status_at env (ports (at_io s) @ [In8 (bm_port d 2)]) AND 4 \<noteq> 0"
    "\<forall>j<512 * c. ?m1 (dma_phy_address d + of_nat j) = data (512 * unat (addr + of_nat t) + j)"
  proof -
    have x': "addressed d (ports (at_io s)) = (addr + of_nat t, c)" "started d 9 (ports (at_io s))" "commanded d c (at_io s)"
      using x by (simp_all add: transferring_def c_def)
    let ?r = "prd_walk 512 (mem (at_io s)) (table_of d (ports (at_io s)))"
    have "read_commanded d (ports (at_io s))" using x'(3) by (simp add: commanded_def)
    moreover note cr = commanded_regions [OF x'(3) b(4)]
    moreover have "serves env d data" using g by (simp add: good_disk_def)
    ultimately have sv: "status_at env (ports (at_io s) @ [In8 (bm_port d 2)]) AND 4 \<noteq> 0 \<and>
        (\<forall>j<512 * c. ?m1 (?r ! j) = data (512 * unat (addr + of_nat t) + j))"
      using x'(1,2) unfolding serves_def by blast
    then show "status_at env (ports (at_io s) @ [In8 (bm_port d 2)]) AND 4 \<noteq> 0" by blast
    show "\<forall>j<512 * c. ?m1 (dma_phy_address d + of_nat j) = data (512 * unat (addr + of_nat t) + j)"
      using sv cr(4) by simp
  qed
  have a: "unat (addr + of_nat t) = unat addr + t" by (rule request_chunk(3) [OF r t b(1-3)])
  have keep: "\<forall>j<512 * t. ?m1 (buf + of_nat j) = data (512 * unat addr + j)"
  proof (intro allI impI)
    fix j
    assume j: "j < 512 * t"
    then have "outside d (buf + of_nat j)" using r t by (simp add: request_ok_def)
    then show "?m1 (buf + of_nat j) = data (512 * unat addr + j)"
      using g x j by (simp add: good_disk_def confined_def transferring_def)
  qed
  define m where "m = fast_memcpy (buf + of_nat (512 * t)) (dma_phy_address d) (of_nat (512 * c)) ?m1"
  have s1: "s1 = s\<lparr>at_io := io\<lparr>mem := m\<rparr>, dmaBuffer := (dmaBuffer s)\<lparr>total_read := of_nat (t + c),
      total_read_bytes := total_read_bytes (dmaBuffer s) + of_nat (512 * c)\<rparr>\<rparr>"
    using x c0 unfolding s1_def take_chunk_in_def transferring_def c_def [symmetric]
    by (simp add: on_buffer_def on_io_def on_mem_def Let_def io m_def mult.commute)
  have "\<forall>j<512 * (t + c). m (buf + of_nat j) = data (512 * unat addr + j)"
    unfolding m_def using chunk_copied [OF r t b(2,4) keep] sv(2) by (simp add: a)
  with s1 show "\<exists>k m. s1 = s\<lparr>at_io := io\<lparr>mem := m\<rparr>, dmaBuffer := (dmaBuffer s)\<lparr>total_read := of_nat (t + c), total_read_bytes := k\<rparr>\<rparr> \<and>
      (\<forall>j<512 * (t + c). m (buf + of_nat j) = data (512 * unat addr + j))" by blast
  have lt: "(of_nat (t + c) :: u64) < of_nat n \<longleftrightarrow> t + c < n"
    using q(2) [of n] q(2) [of "t + c"] b(2) t by (simp only: word_less_nat_alt)
  show "ataHandleInterrupt env IRQ14 s =
      then_do (if t + c < n then next_read env d s1 else read_finished env s1)
        (\<lambda>s. Some (Inr (on_io (peek env (io_port d + 7)) s)))"
  proof -
    have "disk_at (Some i) s = Inr d" using x by (simp add: transferring_def disk_at_def arr_get_def in_array_def)
    moreover have "total_read (dmaBuffer s1) < target_read (dmaBuffer s1) \<longleftrightarrow> t + c < n"
      unfolding s1 using x lt by (simp add: transferring_def)
    ultimately show ?thesis
      using x sv(1) unfolding ataHandleInterrupt_def ataHandleReadInterrupt_def transferring_def
      by (simp add: IRQ14_def readATAStatus_def read_status_def io_def [symmetric] s1_def [symmetric] on_io_def)
  qed
qed

lemma next_chunk:
  assumes "request_ok d addr buf n" "t < n"
  shows "(if (of_nat n - of_nat t :: u64) > dma_chunk (lba48 d) then dma_chunk (lba48 d) else of_nat n - of_nat t) = of_nat (chunk_at d n t)"
    and "ucast (of_nat (chunk_at d n t) :: u64) = (of_nat (chunk_at d n t) :: u16)"
proof -
  have e: "(of_nat n - of_nat t :: u64) = of_nat (n - t)" using assms(2) by (simp add: of_nat_diff)
  have u: "unat (of_nat (n - t) :: u64) = n - t" by (rule request_bounds(2) [OF assms(1)]) simp
  show "(if (of_nat n - of_nat t :: u64) > dma_chunk (lba48 d) then dma_chunk (lba48 d) else of_nat n - of_nat t) = of_nat (chunk_at d n t)"
    unfolding e word_less_nat_alt u chunk_at_def by (auto simp: min_def)
  have "chunk_at d n t < 2 ^ 64" using chunk_at_bounds(4) [OF assms(2), of d] by simp
  then show "ucast (of_nat (chunk_at d n t) :: u64) = (of_nat (chunk_at d n t) :: u16)"
    by (simp add: unsigned_of_nat take_bit_nat_eq_self)
qed

lemma interrupt_continues:
  assumes g: "good_disk env d data" and r: "request_ok d addr buf n" and x: "transferring env d data i addr buf n t s"
    and lt: "t + chunk_at d n t < n"
  shows "\<exists>s'. ataHandleInterrupt env IRQ14 s = Some (Inr s') \<and> transferring env d data i addr buf n (t + chunk_at d n t) s' \<and>
    at_apic s' = at_apic s \<and> b_core_id (dmaBuffer s') = b_core_id (dmaBuffer s) \<and> b_spinlock (dmaBuffer s') = b_spinlock (dmaBuffer s)"
proof -
  let ?c = "chunk_at d n t" and ?p = "peek env (io_port d + 7)"
  let ?t = "t + ?c"
  define io where "io = ?p (peek env (bm_port d 2) (at_io s))"
  obtain k m where s1: "take_chunk_in d (s\<lparr>at_io := io\<rparr>) =
      s\<lparr>at_io := io\<lparr>mem := m\<rparr>, dmaBuffer := (dmaBuffer s)\<lparr>total_read := of_nat ?t, total_read_bytes := k\<rparr>\<rparr>" (is "_ = ?s1")
    "\<forall>j<512 * ?t. m (buf + of_nat j) = data (512 * unat addr + j)"
    using chunk_taken(2) [OF g r x] unfolding io_def by blast
  note b = chunk_at_bounds [OF lt, of d] and nc = next_chunk [OF r lt]
  define s2 where "s2 = on_buffer (\<lambda>b. b\<lparr>current_address := current_address b + current_read b,
      current_read := (if target_read b - total_read b > dma_chunk (lba48 d) then dma_chunk (lba48 d) else target_read b - total_read b)\<rparr>) ?s1"
  have s2: "s2 = ?s1\<lparr>dmaBuffer := (dmaBuffer ?s1)\<lparr>current_address := addr + of_nat ?t, current_read := of_nat (chunk_at d n ?t)\<rparr>\<rparr>"
  proof -
    have f: "target_read (dmaBuffer s) = of_nat n" "current_address (dmaBuffer s) = addr + of_nat t" "current_read (dmaBuffer s) = of_nat ?c"
      using x by (simp_all add: transferring_def)
    have "of_nat t + of_nat ?c = (of_nat ?t :: u64)" by simp
    then show ?thesis unfolding s2_def on_buffer_def by (simp add: f nc(1) add.assoc del: of_nat_add split del: if_split cong: if_cong)
  qed
  obtain io' where io': "retry (readDMADiskSectors env d (addr + of_nat ?t) (of_nat (chunk_at d n ?t))) READ_DMA_SUCCESS s2 =
      Some ((set_select (ucast (drive_head d)) s2)\<lparr>at_io := io'\<rparr>)"
    "addressed d (ports io') = (addr + of_nat ?t, chunk_at d n ?t)" "started d 9 (ports io')"
    "\<forall>j<512 * n. mem io' (buf + of_nat j) = mem (at_io s2) (buf + of_nat j)" "commanded d (chunk_at d n ?t) io'"
    using start_chunk [OF g r lt b(1-3), of s2] by blast
  let ?s' = "(set_select (ucast (drive_head d)) s2)\<lparr>at_io := ?p io'\<rparr>"
  have "next_read env d ?s1 = Some (Inr ((set_select (ucast (drive_head d)) s2)\<lparr>at_io := io'\<rparr>))"
    unfolding next_read_def s2_def [symmetric] Let_def using io'(1) s2 nc(2) by (simp add: returned_def)
  then have "ataHandleInterrupt env IRQ14 s = Some (Inr ?s')"
    using chunk_taken(1) [OF g r x] lt s1(1) unfolding io_def by (simp add: on_io_def)
  moreover have "transferring env d data i addr buf n ?t ?s'"
  proof -
    have "mem (?p io') (buf + of_nat j) = data (512 * unat addr + j)" if "j < 512 * ?t" for j
      using io'(4) s1(2) that lt s2 status_read_mem [OF g, of io'] by simp
    moreover have "addressed d (ports (?p io')) = (addr + of_nat ?t, chunk_at d n ?t) \<and> started d 9 (ports (?p io'))"
      using io'(2,3) after_inputs [where u = "[In8 (io_port d + 7)]" and d = d and t = "ports io'"] by simp
    moreover have "commanded d (chunk_at d n ?t) (?p io')"
      using io'(5) status_read_mem [OF g, of io'] after_inputs [where u = "[In8 (io_port d + 7)]" and d = d and t = "ports io'"]
      by (simp add: commanded_def)
    ultimately show ?thesis using x lt s2 unfolding transferring_def by (simp add: set_select_def)
  qed
  moreover have "at_apic ?s' = at_apic s \<and> b_core_id (dmaBuffer ?s') = b_core_id (dmaBuffer s) \<and> b_spinlock (dmaBuffer ?s') = b_spinlock (dmaBuffer s)"
    by (simp add: s2 set_select_def)
  ultimately show ?thesis by blast
qed

text \<open>The last chunk: the caller's core is interrupted.\<close>

definition clock_runs :: "ata_env \<Rightarrow> bool" where
  "clock_runs env \<longleftrightarrow> (\<forall>t. getRTCTimeStamp32 (port_in env) t \<noteq> None)"

definition ipi_delivered :: "ata_env \<Rightarrow> APIC \<Rightarrow> bool" where
  "ipi_delivered env a \<longleftrightarrow> (\<forall>ws r. \<exists>k. ata_lapic env ws (r + k) (lapic_icr0 a) AND 0x1000 = 0)"

definition complete :: "ata_env \<Rightarrow> (nat \<Rightarrow> u8) \<Rightarrow> nat \<Rightarrow> u64 \<Rightarrow> u64 \<Rightarrow> nat \<Rightarrow> apic_state \<Rightarrow> APIC \<Rightarrow> ata_state \<Rightarrow> bool" where
  "complete env data i addr buf n ap a s \<longleftrightarrow>
     (\<forall>j<512 * n. mem (at_io s) (buf + of_nat j) = data (512 * unat addr + j)) \<and>
     map_option done_read (ataDisks (ataManager s) ! i) = Some True \<and>
     bus_writes (ap_bus (at_apic s)) = bus_writes (ap_bus ap) @
       [(lapic_icr1 a, push_bit 24 (ucast (apic_id a))), (lapic_icr0 a, 0x4000 OR ucast ATA_IPI)]"

lemma ipi_sent:
  assumes "ipi_delivered env a" "unat c < length (apics ap)" "apics ap ! unat c = a"
  shows "\<exists>ap'. sendIPI (ata_lapic env) (ucast (c :: u8)) ATA_IPI ap = Some (Inr ap') \<and> apics ap' = apics ap \<and>
    bus_writes (ap_bus ap') = bus_writes (ap_bus ap) @ [(lapic_icr1 a, push_bit 24 (ucast (apic_id a))), (lapic_icr0 a, 0x4000 OR ucast ATA_IPI)]"
proof -
  have u: "unat (ucast c :: u16) = unat c"
  proof -
    have "unat c < 256" using unsigned_less [of c] by simp
    then show ?thesis by (simp add: unsigned_ucast_eq take_bit_nat_eq_self)
  qed
  let ?ws = "bus_writes (ap_bus ap) @ [(lapic_icr1 a, push_bit 24 (ucast (apic_id a))), (lapic_icr0 a, 0x4000 OR ucast ATA_IPI)]"
  obtain k where "ata_lapic env ?ws (bus_reads (ap_bus ap) + k) (lapic_icr0 a) AND 0x1000 = 0" using assms(1) by (auto simp: ipi_delivered_def)
  from ipi_returns [where dev = "ata_lapic env" and p_irq = ATA_IPI and b = "ap_bus ap", OF refl this] obtain b' where "SendFixedIPI (ata_lapic env) a ATA_IPI (ap_bus ap) = Some b'" "bus_writes b' = ?ws" by blast
  then show ?thesis using assms(2,3) by (auto simp: sendIPI_def u)
qed

lemma interrupt_finishes:
  assumes g: "good_disk env d data" and r: "request_ok d addr buf n" and x: "transferring env d data i addr buf n t s"
    and le: "\<not> t + chunk_at d n t < n" and "clock_runs env" "ipi_delivered env a"
    and "unat (b_core_id (dmaBuffer s)) < length (apics (at_apic s))" "apics (at_apic s) ! unat (b_core_id (dmaBuffer s)) = a"
  shows "\<exists>s' k. ataHandleInterrupt env IRQ14 s = Some (Inr s') \<and> complete env data i addr buf n (at_apic s) a s' \<and>
    dmaBuffer s' = (dmaBuffer s)\<lparr>total_read := of_nat n, total_read_bytes := k\<rparr> \<and> apics (at_apic s') = apics (at_apic s) \<and>
    ataDisks (ataManager s') = (ataDisks (ataManager s))[i := Some (d\<lparr>done_read := True\<rparr>)]"
proof -
  let ?c = "chunk_at d n t" and ?p = "peek env (io_port d + 7)"
  have "t < n" using x by (simp add: transferring_def)
  then have n: "t + ?c = n" using le chunk_at_bounds(2) [of t n d] by simp
  define io where "io = ?p (peek env (bm_port d 2) (at_io s))"
  obtain k m where s1: "take_chunk_in d (s\<lparr>at_io := io\<rparr>) =
      s\<lparr>at_io := io\<lparr>mem := m\<rparr>, dmaBuffer := (dmaBuffer s)\<lparr>total_read := of_nat n, total_read_bytes := k\<rparr>\<rparr>" (is "_ = ?s1")
    "\<forall>j<512 * n. m (buf + of_nat j) = data (512 * unat addr + j)"
    using chunk_taken(2) [OF g r x, unfolded n] unfolding io_def by blast
  let ?s2 = "set_disk i (d\<lparr>done_read := True\<rparr>) ?s1"
  have i: "i < length (ataDisks (ataManager s))" "ataDisks (ataManager s) ! i = Some d" "b_ataDisk (dmaBuffer s) = Some i"
    using x by (auto simp: transferring_def)
  have d: "set_done_read True ?s1 = Inr ?s2"
    using i by (simp add: set_done_read_def disk_at_def arr_get_def in_array_def)
  obtain v t' where v: "getRTCTimeStamp32 (port_in env) (ports io) = Some (v, t')"
    using assms(5) by (metis clock_runs_def not_None_eq surj_pair)
  define io3 where "io3 = at_trace env t' (io\<lparr>mem := m\<rparr>)"
  have t: "read_time env ?s2 = Some (Inr (v, ?s2\<lparr>at_io := io3\<rparr>))"
    by (simp add: read_time_def clock_def v io3_def set_disk_def)
  obtain ap' where ap: "sendIPI (ata_lapic env) (ucast (b_core_id (dmaBuffer s))) ATA_IPI (at_apic s) = Some (Inr ap')" "apics ap' = apics (at_apic s)"
    "bus_writes (ap_bus ap') = bus_writes (ap_bus (at_apic s)) @ [(lapic_icr1 a, push_bit 24 (ucast (apic_id a))), (lapic_icr0 a, 0x4000 OR ucast ATA_IPI)]"
    using ipi_sent [OF assms(6-8)] by blast
  let ?s' = "?s2\<lparr>at_io := ?p io3, at_apic := ap'\<rparr>"
  have "read_finished env ?s1 = Some (Inr (?s2\<lparr>at_io := io3, at_apic := ap'\<rparr>))"
    by (simp only: read_finished_def d then_do_simps t prod.case) (simp add: finish_ipi_def set_disk_def ap(1))
  then have "ataHandleInterrupt env IRQ14 s = Some (Inr ?s')"
    using chunk_taken(1) [OF g r x] n s1(1) unfolding io_def by (simp add: on_io_def)
  moreover have "mem (?p io3) (buf + of_nat j) = data (512 * unat addr + j)" if "j < 512 * n" for j
  proof -
    have "outside d (buf + of_nat j)" using r that by (simp add: request_ok_def)
    moreover have "confined env d" using g by (simp add: good_disk_def)
    ultimately have "mem io3 (buf + of_nat j) = m (buf + of_nat j)" by (simp add: io3_def at_trace_def confined_def)
    then show ?thesis using s1(2) that status_read_mem [OF g, of io3] by simp
  qed
  ultimately show ?thesis using ap(2,3) i by (intro exI [of _ ?s'] exI [of _ k]) (simp add: complete_def set_disk_def)
qed

section \<open>The whole transfer\<close>

fun interrupts :: "nat \<Rightarrow> ata_env \<Rightarrow> ata_state \<Rightarrow> ata_state result option" where
  "interrupts 0 env s = Some (Inr s)"
| "interrupts (Suc k) env s = then_do (ataHandleInterrupt env IRQ14 s) (interrupts k env)"

lemma interrupts_complete:
  assumes g: "good_disk env d data" and r: "request_ok d addr buf n" and "clock_runs env" "ipi_delivered env a"
  defines "ch \<equiv> unat (dma_chunk (lba48 d))"
  shows "\<lbrakk>transferring env d data i addr buf n t s; k * ch < n - t; n - t \<le> Suc k * ch;
      unat (b_core_id (dmaBuffer s)) < length (apics (at_apic s)); apics (at_apic s) ! unat (b_core_id (dmaBuffer s)) = a\<rbrakk> \<Longrightarrow>
    \<exists>s'. interrupts (Suc k) env s = Some (Inr s') \<and> complete env data i addr buf n (at_apic s) a s'"
proof (induction k arbitrary: s t)
  case 0
  have "\<not> t + chunk_at d n t < n" using 0(3) by (simp add: chunk_at_def ch_def)
  from interrupt_finishes [OF g r 0(1) this assms(3,4) 0(4,5)] show ?case by auto
next
  case (Suc k)
  have ch: "0 < ch" by (simp add: ch_def dma_chunk_def DMA_CHUNK_def DMA_CHUNK_EXT_def)
  have c: "chunk_at d n t = ch" using Suc.prems(2) by (simp add: chunk_at_def ch_def)
  have "t + chunk_at d n t < n" using Suc.prems(2) ch c by simp
  from interrupt_continues [OF g r Suc.prems(1) this] obtain s1 where s1: "ataHandleInterrupt env IRQ14 s = Some (Inr s1)"
    "transferring env d data i addr buf n (t + ch) s1" "at_apic s1 = at_apic s" "b_core_id (dmaBuffer s1) = b_core_id (dmaBuffer s)"
    unfolding c by blast
  have "\<exists>s'. interrupts (Suc k) env s1 = Some (Inr s') \<and> complete env data i addr buf n (at_apic s1) a s'"
    by (rule Suc.IH [OF s1(2)]) (use Suc.prems s1(3,4) in auto)
  then show ?case using s1(1,3) by simp
qed

lemma read_started:
  assumes g: "good_disk env d data" and r: "request_ok d addr buf n" and "clock_runs env"
    and i: "i < length (ataDisks (ataManager s))" "ataDisks (ataManager s) ! i = Some d" "b_ataDisk (dmaBuffer s) = Some i"
    and "enabled (dmaBuffer s)"
  defines "ap \<equiv> getCurrentCoreId (ata_lapic env) (at_apic s)"
  shows "\<exists>s'. readDMADisk env i addr buf (of_nat n) 0 0 s = Some (Inr (READ_DMA_SUCCESS, s')) \<and>
    transferring env (d\<lparr>done_read := False\<rparr>) data i addr buf n 0 s' \<and> at_apic s' = ap \<and>
    b_core_id (dmaBuffer s') = ucast (core_id_ret ap) \<and> b_spinlock (dmaBuffer s') = b_spinlock (dmaBuffer s)"
proof -
  define d' where "d' = d\<lparr>done_read := False\<rparr>"
  have g': "good_disk env d' data" and r': "request_ok d' addr buf n" using g r by (simp_all add: d'_def)
  have n: "0 < n" using r by (simp add: request_ok_def)
  have l: "lba48 d' = lba48 d" by (simp add: d'_def)
  define s1 where "s1 = set_disk i d' s"
  have s1: "set_done_read False s = Inr s1" "disk_at (Some i) s1 = Inr d'"
    using i by (simp_all add: set_done_read_def s1_def d'_def disk_at_def arr_get_def in_array_def set_disk_def)
  have ch: "(if (of_nat n :: u64) > dma_chunk (lba48 d') then dma_chunk (lba48 d') else of_nat n) = of_nat (chunk_at d' n 0)"
  proof -
    have "of_nat n - of_nat 0 = (of_nat n :: u64)" by simp
    with next_chunk(1) [OF r' n] show ?thesis by metis
  qed
  define s2 where "s2 = on_buffer (\<lambda>b. b\<lparr>b_buffer := buf, current_address := addr, b_lba48 := lba48 d', start_offset := 0, end_offset := 0,
      current_read := of_nat (chunk_at d' n 0)\<rparr>) s1"
  obtain v t' where v: "getRTCTimeStamp32 (port_in env) (ports (at_io s2)) = Some (v, t')"
    using assms(3) by (metis clock_runs_def not_None_eq surj_pair)
  define s3 where "s3 = s2\<lparr>at_io := at_trace env t' (at_io s2)\<rparr>"
  have t: "read_time env s2 = Some (Inr (v, s3))" by (simp add: read_time_def clock_def v s3_def)
  define s4 where "s4 = on_buffer (b_read_update (\<lambda>_. True)) (note_core env (on_buffer (\<lambda>b. b\<lparr>start_time := ucast v, total_read := 0,
      total_read_bytes := 0, target_read := of_nat n, b_ataDisk := Some i\<rparr>) s3))"
  have cr: "current_read (dmaBuffer s4) = of_nat (chunk_at d' n 0)"
    by (simp add: s4_def s3_def s2_def note_core_def on_buffer_def Let_def)
  obtain io' where io': "retry (readDMADiskSectors env d' addr (of_nat (chunk_at d' n 0))) READ_DMA_SUCCESS s4 =
      Some ((set_select (ucast (drive_head d')) s4)\<lparr>at_io := io'\<rparr>)"
    "addressed d' (ports io') = (addr, chunk_at d' n 0)" "started d' 9 (ports io')" "commanded d' (chunk_at d' n 0) io'"
    using start_chunk [OF g' r' n chunk_at_bounds(1-3) [OF n], of s4] by auto
  let ?s' = "(set_select (ucast (drive_head d')) s4)\<lparr>at_io := io'\<rparr>"
  have "readDMADisk env i addr buf (of_nat n) 0 0 s = Some (Inr (READ_DMA_SUCCESS, ?s'))"
    unfolding readDMADisk_def
    by (simp only: s1 then_do_simps Let_def ch s2_def [symmetric] t prod.case s4_def [symmetric] cr next_chunk(2) [OF r' n] io'(1) returned_def option.map)
  moreover have "transferring env d' data i addr buf n 0 ?s'"
    using io'(2-4) n assms(7) i
    by (simp add: transferring_def s4_def s3_def s2_def s1_def note_core_def on_buffer_def Let_def set_select_def set_disk_def)
  moreover have "at_apic ?s' = ap \<and> b_core_id (dmaBuffer ?s') = ucast (core_id_ret ap) \<and> b_spinlock (dmaBuffer ?s') = b_spinlock (dmaBuffer s)"
    by (simp add: s4_def s3_def s2_def s1_def note_core_def on_buffer_def Let_def set_select_def set_disk_def ap_def)
  ultimately show ?thesis unfolding d'_def by blast
qed

text \<open>C26: a DMA read of any number of sectors: the call starts the first chunk, and after as many interrupts as there are chunks the
  caller's buffer holds exactly the sectors asked for, the disk is marked done and the calling core has been sent the disk interrupt.
  The disk delivers only what it has been commanded: a read opcode, the address and count of the chunk, and a table of physical
  regions that describes the DMA buffer. The DMA buffer has 32 MiB below 4 GiB; the caller's buffer and the page of the table are
  apart from it and from each other.\<close>

theorem dma_read_delivers_sectors:
  assumes "good_disk env d data" "request_ok d addr buf n" "clock_runs env"
    and "i < length (ataDisks (ataManager s))" "ataDisks (ataManager s) ! i = Some d" "b_ataDisk (dmaBuffer s) = Some i"
    and "enabled (dmaBuffer s)" "ap = getCurrentCoreId (ata_lapic env) (at_apic s)" "core = unat (ucast (core_id_ret ap) :: u8)"
    and "core < length (apics ap)" "apics ap ! core = a" "ipi_delivered env a"
    and "k * unat (dma_chunk (lba48 d)) < n" "n \<le> Suc k * unat (dma_chunk (lba48 d))"
  shows "\<exists>s'. then_do (readDMADisk env i addr buf (of_nat n) 0 0 s) (\<lambda>(_, s). interrupts (Suc k) env s) = Some (Inr s') \<and>
    complete env data i addr buf n ap a s'"
proof -
  obtain s1 where s1: "readDMADisk env i addr buf (of_nat n) 0 0 s = Some (Inr (READ_DMA_SUCCESS, s1))"
    "transferring env (d\<lparr>done_read := False\<rparr>) data i addr buf n 0 s1" "at_apic s1 = ap" "b_core_id (dmaBuffer s1) = ucast (core_id_ret ap)"
    using read_started [OF assms(1-7)] assms(8) by blast
  have "\<exists>s'. interrupts (Suc k) env s1 = Some (Inr s') \<and> complete env data i addr buf n (at_apic s1) a s'"
    by (rule interrupts_complete [OF _ _ assms(3,12) s1(2)]) (use assms s1(3,4) in simp_all)
  then show ?thesis using s1(1,3) by simp
qed

section \<open>An example\<close>

definition demo_disk :: ATADisk where
  "demo_disk = \<lparr>ata_desc = [], serial = [], fw_revision = [], model_no = [], io_port = 0x1F0, control_base = 0, drv_selector = 0xA0,
     disk_size = 0x10000, slavebit = 0, dma = True, prdt = 0x100000, dma_phy_address = 0x1000000, dma_port_address = 0xC000,
     dma_mmio_address = 0, bm_offset = 0, capabilities = 0, commandsets = 0, lba48 = False, done_read = True\<rparr>"

definition demo_data :: "nat \<Rightarrow> u8" where "demo_data j = of_nat (j div 512)"

text \<open>A drive that is always ready and a controller that has moved the sectors by the time its status is read.\<close>

definition demo_ports :: port_hw where
  "demo_ports t = (if t = [] then 0 else case last t of In8 p \<Rightarrow> if p = 0x3F6 then 0x48 else if p = 0xC002 then 4 else 0 | _ \<Rightarrow> 0)"

definition demo_master :: "port_trace \<Rightarrow> memory \<Rightarrow> memory" where
  "demo_master t m =
     (let regions = prd_walk 512 m (table_of demo_disk (butlast t)); (a, n) = addressed demo_disk (butlast t)
      in if t \<noteq> [] \<and> last t = In8 0xC002 \<and> started demo_disk 9 (butlast t) \<and> read_commanded demo_disk (butlast t) \<and>
            length regions = 512 * n \<and> distinct regions \<and> (\<forall>r\<in>set regions. \<not> outside demo_disk r)
         then \<lambda>x. case map_of (zip regions (map (\<lambda>j. demo_data (512 * unat a + j)) [0..<512 * n])) x of None \<Rightarrow> m x | Some v \<Rightarrow> v
         else m)"

definition demo_ata :: ata_env where
  "demo_ata = \<lparr>port_in = demo_ports, bus_master = demo_master, ata_lapic = \<lambda>_ _ _. 0, pci_hw = bridge_bus, self = 0, raw_disk = \<lambda>_. demo_disk\<rparr>"

definition demo_ata_state :: ata_state where
  "demo_ata_state = \<lparr>at_io = \<lparr>ports = [], mem = \<lambda>_. 0\<rparr>,
     ataManager = \<lparr>ataDisks = [Some demo_disk, None, None, None], m_dma_port_address = 0xC000, m_dma_mmio_address = 0, device_names = [],
       device_ids = [], prdt1 = 0x100000, prdt2 = 0x101000, dma_phy_address1 = 0x1000000, dma_phy_address2 = 0x3000000\<rparr>,
     dmaBuffer = \<lparr>b_ataDisk = Some 0, b_buffer = 0, current_read = 0, total_read = 0, total_read_bytes = 0, target_read = 0,
       current_write = 0, total_write = 0, target_write = 0, current_address = 0, start_address = 0, start_offset = 0, end_offset = 0,
       start_time = 0, b_core_id = 0, b_lba48 = False, b_read = False, b_spinlock = \<lparr>lapic = 0, stack = 0, core_id = 0, spin_lock = 0\<rparr>, current_select = 0,
       write_done = False, enabled = True, read_done = False\<rparr>,
     at_apic = demo_apic_state, at_pci = demo_pci, at_pci_ports = []\<rparr>"

lemma demo_bm [simp]: "bm_port demo_disk 0 = 0xC000" "bm_port demo_disk 2 = 0xC002"
  by (simp_all add: bm_port_def demo_disk_def)

lemma demo_good: "good_disk demo_ata demo_disk demo_data"
proof -
  have "confined demo_ata demo_disk" unfolding confined_def
  proof (intro allI impI)
    fix t m a
    assume a: "outside demo_disk a"
    have "map_of (zip (prd_walk 512 m p) vs) a = None" if "\<forall>r\<in>set (prd_walk 512 m p). \<not> outside demo_disk r" for p and vs :: "u8 list"
      using a that set_zip_leftD by (fastforce simp: map_of_eq_None_iff)
    then show "bus_master demo_ata t m a = m a" by (auto simp: demo_ata_def demo_master_def Let_def split_beta)
  qed
  moreover have "becomes demo_ata (dcr (io_port demo_disk)) P t" if "P 0x48" for P t
    unfolding becomes_def by (rule exI [of _ 0]) (use that in \<open>simp add: status_at_def demo_ata_def demo_ports_def dcr_def demo_disk_def
      ATA_PRIMARY_IO_def ATA_PRIMARY_DCR_AS_def\<close>)
  then have "responsive demo_ata demo_disk"
    by (simp add: responsive_def drq_ok_def ATA_SR_BSY_def ATA_SR_ERR_def ATA_SR_DRQ_def ATA_SR_DRDY_def)
  moreover have "apart demo_disk" by (simp add: apart_def) (simp add: demo_disk_def)
  moreover have "serves demo_ata demo_disk demo_data"
  proof -
    have "bus_master demo_ata (t @ [In8 0xC002]) m (regions ! j) = demo_data (512 * unat a + j)"
      if "addressed demo_disk t = (a, n)" "read_commanded demo_disk t" "started demo_disk 9 t" "regions = prd_walk 512 m (table_of demo_disk t)"
        "length regions = 512 * n" "distinct regions" "\<forall>r\<in>set regions. \<not> outside demo_disk r" "j < 512 * n" for t m a n regions j
    proof -
      have "map_of (zip regions (map (\<lambda>j. demo_data (512 * unat a + j)) [0..<512 * n])) (regions ! j) = Some (demo_data (512 * unat a + j))"
        using map_of_zip_nth [of regions "map (\<lambda>j. demo_data (512 * unat a + j)) [0..<512 * n]" j] that by simp
      then show ?thesis using that by (simp add: demo_ata_def demo_master_def)
    qed
    moreover have "status_at demo_ata (t @ [In8 0xC002]) AND 4 \<noteq> 0" for t
      by (simp add: status_at_def demo_ata_def demo_ports_def)
    moreover have "bus_master demo_ata (t @ [In8 (io_port demo_disk + 7)]) m = m" for t m
      by (simp add: demo_ata_def demo_master_def) (simp add: demo_disk_def)
    ultimately show ?thesis unfolding serves_def demo_bm by blast
  qed
  moreover have "bm_port demo_disk 0 \<noteq> io_port demo_disk + 7" by (simp only: demo_bm) (simp add: demo_disk_def)
  ultimately show ?thesis by (simp add: good_disk_def)
qed

lemma demo_clock: "clock_runs demo_ata"
proof -
  have z: "demo_ports (t @ [In8 0x71]) = 0" for t by (simp add: demo_ports_def)
  have reg: "getRTCRegister demo_ports r t = (0, t @ [Out8 0x70 r, In8 0x71])" for r t
    using z [of "t @ [Out8 0x70 r]"] by (simp add: getRTCRegister_def in8_def out8_def cmos_address_def cmos_data_def)
  have "\<exists>t'. wait_update demo_ports t = Some t'" for t
    using z [of "t @ [Out8 0x70 0x0A]"]
    by (simp add: wait_update_def while_option_unfold getUpdateInProgressFlag_def in8_def out8_def cmos_address_def cmos_data_def)
  then have c: "\<exists>t'. read_clock demo_ports t = Some ((0, 0, 0, 0, 0, of_nat 2000), t')" for t
    using reg by (fastforce simp: read_clock_def Let_def from_bcd_def bcd_hours_def)
  obtain v where v: "timeStamp32 0 0 0 0 0 (of_nat 2000) = Some v" using timestamp_returns [of 2000 0 0 0 0 0] by auto
  have "getRTCTimeStamp32 demo_ports t \<noteq> None" for t
  proof -
    obtain t' where "read_clock demo_ports t = Some ((0, 0, 0, 0, 0, of_nat 2000), t')" using c by blast
    then show ?thesis by (simp only: getRTCTimeStamp32_def Option.bind.bind_lunit prod.case v) simp
  qed
  then show ?thesis by (simp add: clock_runs_def demo_ata_def)
qed

lemma demo_table_page: "j < 4096 \<Longrightarrow> outside demo_disk (prdt demo_disk + of_nat j)"
proof -
  assume j: "j < 4096"
  then have u: "unat (of_nat j :: u64) = j" by (intro unat_of_nat_small) simp
  have "unat (of_nat j - 15728640 :: u64) = 2 ^ 64 + j - 15728640"
    using j unat_sub_if_size [of "of_nat j :: u64" 15728640] u by (simp add: word_size)
  then show ?thesis by (simp add: outside_def demo_disk_def)
qed

lemma demo_request: "request_ok demo_disk 0x100 0x8000000 300"
proof -
  have "unat (c + of_nat j) = unat c + j" if "j < 153600" "unat c < 2 ^ 63" for j and c :: u64
  proof -
    have "unat (of_nat j :: u64) = j" by (rule unat_of_nat_small) (use that in simp)
    then show ?thesis using unat_add_no_wrap [of c "of_nat j"] that by simp
  qed
  moreover have "\<forall>j<4096. outside demo_disk (prdt demo_disk + of_nat j)" using demo_table_page by blast
  ultimately show ?thesis unfolding request_ok_def by (simp add: outside_def demo_disk_def)
qed

theorem dma_read_delivers_sectors_witness:
  "\<exists>s'. then_do (readDMADisk demo_ata 0 0x100 0x8000000 300 0 0 demo_ata_state) (\<lambda>(_, s). interrupts 2 demo_ata s) = Some (Inr s') \<and>
     mem (at_io s') (0x8000000 + 512 * 299) = 0x2B"
proof -
  let ?ap = "getCurrentCoreId (ata_lapic demo_ata) (at_apic demo_ata_state)"
  have ap: "apics ?ap = [demo_apic, demo_apic]" "core_id_ret ?ap = 0"
    by (simp_all add: core_id_frame demo_ata_state_def demo_apic_state_def demo_ata_def core_id_zero)
  have "\<exists>s'. then_do (readDMADisk demo_ata 0 0x100 0x8000000 (of_nat 300) 0 0 demo_ata_state) (\<lambda>(_, s). interrupts (Suc 1) demo_ata s) = Some (Inr s') \<and>
      complete demo_ata demo_data 0 0x100 0x8000000 300 ?ap demo_apic s'"
    by (rule dma_read_delivers_sectors [OF demo_good demo_request demo_clock, where core = 0])
      (use ap in \<open>simp_all add: demo_ata_state_def ipi_delivered_def demo_ata_def dma_chunk_def DMA_CHUNK_def demo_disk_def\<close>)
  then obtain s' where s': "then_do (readDMADisk demo_ata 0 0x100 0x8000000 (of_nat 300) 0 0 demo_ata_state) (\<lambda>(_, s). interrupts (Suc 1) demo_ata s) = Some (Inr s')"
    "\<forall>j<512 * 300. mem (at_io s') (0x8000000 + of_nat j) = demo_data (512 * unat (0x100 :: u64) + j)"
    by (auto simp: complete_def)
  have "mem (at_io s') (0x8000000 + 512 * 299) = 0x2B" using s'(2) [rule_format, of "512 * 299"] by (simp add: demo_data_def)
  then show ?thesis using s'(1) by (auto simp: numeral_2_eq_2)
qed

end
