(* ===== verification/AtaWrite.thy ===== *)
theory AtaWrite
  imports AtaTransfer
begin

text \<open>
  DMA writes: starting a chunk, and what the interrupt after the last chunk does.
\<close>

section \<open>Starting a chunk\<close>

lemma wait_drdy_ok:
  assumes c: "confined env d"
  shows "\<lbrakk>status = status_at env (ports io); status_at env (ports io @ replicate k (In8 p)) AND ATA_SR_DRDY \<noteq> 0\<rbrakk> \<Longrightarrow>
    \<exists>v io' m. wait_drdy env p status io = Some (v, io') \<and> ports io' = ports io @ replicate m (In8 p) \<and> keeps d io io'"
proof (induction k arbitrary: status io)
  case 0
  then show ?case by (subst wait_drdy.simps) (auto intro: exI [of _ 0])
next
  case (Suc k)
  show ?case
  proof (cases "status AND ATA_SR_DRDY \<noteq> 0")
    case True
    then show ?thesis by (subst wait_drdy.simps) (auto intro: exI [of _ 0])
  next
    case False
    have "\<exists>v io' m. wait_drdy env p (status_at env (ports io @ [In8 p])) (peek env p io) = Some (v, io') \<and>
        ports io' = ports (peek env p io) @ replicate m (In8 p) \<and> keeps d (peek env p io) io'"
      by (rule Suc.IH) (use Suc.prems in simp_all)
    then obtain v io' m where "wait_drdy env p (status_at env (ports io @ [In8 p])) (peek env p io) = Some (v, io')"
      "ports io' = ports io @ replicate (Suc m) (In8 p)" "keeps d io io'" using c peek_simps(2) keeps_trans by fastforce
    then show ?thesis using False by (subst wait_drdy.simps) (auto intro: exI [of _ "Suc m"])
  qed
qed

lemma wait_write_ok:
  assumes c: "confined env d"
  shows "\<lbrakk>unat i + k \<le> 5000; status = status_at env (ports io);
      \<forall>j<k. status_at env (ports io @ replicate j (In8 (dcr (io_port d)))) AND ATA_SR_BSY \<noteq> 0;
      drq_ok (status_at env (ports io @ replicate k (In8 (dcr (io_port d)))))\<rbrakk> \<Longrightarrow>
    \<exists>io'. wait_write env d i status io = Some (True, io') \<and>
      ports io' = ports io @ replicate k (In8 (dcr (io_port d))) \<and> keeps d io io'"
proof (induction k arbitrary: i status io)
  case 0
  then show ?case by (subst wait_write.simps) (simp add: drq_ok_def)
next
  case (Suc k)
  let ?p = "dcr (io_port d)"
  let ?v = "status_at env (ports io @ [In8 ?p])" and ?io = "peek env ?p io"
  have b: "status AND ATA_SR_BSY \<noteq> 0" using Suc.prems by (metis append_Nil2 replicate_0 zero_less_Suc)
  have i: "\<not> i > 5000" using Suc.prems(1) by (simp add: word_less_nat_alt)
  have i1: "unat (i + 1) = unat i + 1" using unat_add_no_wrap [of i 1] Suc.prems(1) by simp
  have "\<exists>io'. wait_write env d (i + 1) ?v ?io = Some (True, io') \<and> ports io' = ports ?io @ replicate k (In8 ?p) \<and> keeps d ?io io'"
  proof (rule Suc.IH)
    show "unat (i + 1) + k \<le> 5000" using Suc.prems(1) i1 by simp
    show "\<forall>j<k. status_at env (ports ?io @ replicate j (In8 ?p)) AND ATA_SR_BSY \<noteq> 0"
    proof (intro allI impI)
      fix j
      assume "j < k"
      then show "status_at env (ports ?io @ replicate j (In8 ?p)) AND ATA_SR_BSY \<noteq> 0"
        using Suc.prems(3) [rule_format, of "Suc j"] by simp
    qed
    show "drq_ok (status_at env (ports ?io @ replicate k (In8 ?p)))" using Suc.prems(4) by simp
  qed simp
  moreover have "wait_write env d i status io = wait_write env d (i + 1) ?v ?io"
    using b i by (subst wait_write.simps) simp
  ultimately show ?case using c peek_simps(2) keeps_trans by fastforce
qed

lemma write_sectors_ok:
  assumes c: "confined env d" and r: "responsive env d" and "apart d" "valid_request d addr n"
  shows "\<exists>io'. writeDMADiskSectors env d addr n s = Some (WRITE_DMA_SUCCESS, (set_select (ucast (drive_head d)) s)\<lparr>at_io := io'\<rparr>) \<and>
    addressed d (ports io') = (addr, unat n) \<and> started d 1 (ports io')"
proof -
  let ?p = "dcr (io_port d)"
  define io1 where "io1 = dma_table env d n (dma_reset env d id (at_io s))"
  define io2 where "io2 = ide_400ns_delay env d (write_all env [select_drive d addr] io1)"
  have p2: "ports io2 = ports io1 @ outs [select_drive d addr] @ replicate 4 (In8 (io_port d + 7))"
    by (simp add: io2_def ide_400ns_delay_def)
  have "becomes env ?p (\<lambda>v. v AND ATA_SR_DRDY \<noteq> 0) (ports io2)" using r by (simp add: responsive_def)
  then obtain k3 where k3: "status_at env ((ports io2 @ [In8 ?p]) @ replicate k3 (In8 ?p)) AND ATA_SR_DRDY \<noteq> 0"
    by (rule becomes_polls)
  obtain v3 io3 m3 where p3: "wait_drdy env ?p (status_at env (ports io2 @ [In8 ?p])) (peek env ?p io2) = Some (v3, io3)"
    "ports io3 = ports io2 @ replicate (Suc m3) (In8 ?p)"
    using wait_drdy_ok [OF c, of "status_at env (ports io2 @ [In8 ?p])" "peek env ?p io2" k3 ?p] k3 by auto
  define ready where "ready = (if status_at env (ports io2 @ [In8 ?p]) \<noteq> 0 then (v3, io3) else (status_at env (ports io2 @ [In8 ?p]), peek env ?p io2))"
  obtain m where m: "ports (snd ready) = ports io2 @ replicate m (In8 ?p)"
    using p3(2) by (cases "status_at env (ports io2 @ [In8 ?p]) \<noteq> 0") (auto simp: ready_def intro: that [of 1] that [of "Suc m3"])
  define io4 where "io4 = write_all env (task_file d addr n @ [command d 0xCA 0x35]) (snd ready)"
  have p4: "ports io4 = (ports (snd ready) @ outs (task_file d addr n)) @ [Out8 (io_port d + 7) (if lba48 d then 0x35 else 0xCA)]"
    by (simp add: io4_def outs_def command_def)
  have "(if lba48 d then 0x35 else 0xCA) \<in> {0xC8, 0x25, 0xCA, 0x35 :: u8}" by simp
  then have "becomes env ?p drq_ok (ports io4)" unfolding p4 using r unfolding responsive_def by blast
  then obtain k where k: "k < 1000" "drq_ok (status_at env ((ports io4 @ [In8 ?p]) @ replicate k (In8 ?p)))"
    "\<forall>j<k. status_at env ((ports io4 @ [In8 ?p]) @ replicate j (In8 ?p)) AND ATA_SR_BSY \<noteq> 0" by (rule becomes_polls)
  obtain io5 where p5: "wait_write env d 0 (status_at env (ports io4 @ [In8 ?p])) (peek env ?p io4) = Some (True, io5)"
    "ports io5 = ports io4 @ replicate (Suc k) (In8 ?p)"
    using wait_write_ok [OF c, of 0 k "status_at env (ports io4 @ [In8 ?p])" "peek env ?p io4"] k by auto
  have nz: "status_at env (ports io4 @ [In8 ?p]) \<noteq> 0"
  proof (cases k)
    case 0
    then show ?thesis using k(2) by (auto simp: drq_ok_def)
  next
    case (Suc k')
    then have "status_at env ((ports io4 @ [In8 ?p]) @ replicate 0 (In8 ?p)) AND ATA_SR_BSY \<noteq> 0" using k(3) by blast
    then show ?thesis by auto
  qed
  define io6 where "io6 = write8 env (bm_port d 0) 1 io5"
  have "(if status_at env (ports io2 @ [In8 ?p]) \<noteq> 0 then wait_drdy env ?p (status_at env (ports io2 @ [In8 ?p])) (peek env ?p io2)
      else Some (status_at env (ports io2 @ [In8 ?p]), peek env ?p io2)) = Some ready" using p3(1) by (simp add: ready_def)
  then have "write_attempt env d addr n io2 = Some (True, False, io6)"
    unfolding write_attempt_def peek_simps(3) prod.case Let_def using nz nz [unfolded io4_def write_all_simps(1) append_assoc] p5(1)
    by (simp add: split_def io4_def [symmetric] io6_def)
  then have "writeDMADiskSectors env d addr n s = Some (WRITE_DMA_SUCCESS, (set_select (ucast (drive_head d)) s)\<lparr>at_io := io6\<rparr>)"
    unfolding writeDMADiskSectors_def io1_def [symmetric] io2_def [symmetric] Let_def by simp
  moreover have "addressed d (ports io6) = (addr, unat n) \<and> started d 1 (ports io6)"
  proof -
    let ?u = "replicate 4 (In8 (io_port d + 7)) @ replicate m (In8 ?p)"
    have i: "\<forall>a\<in>set ?u \<union> set (replicate (Suc k) (In8 ?p)). \<not> is_out a" by (auto split: if_splits)
    have t: "ports io6 = ports io1 @ outs [select_drive d addr] @ ?u @
        outs (task_file d addr n @ [command d 0xCA 0x35]) @ replicate (Suc k) (In8 ?p) @ [Out8 (bm_port d 0) 1]"
      by (simp add: io6_def p5(2) io4_def m p2)
    show ?thesis using addressed_command [OF assms(4,3) i t] by simp
  qed
  ultimately show ?thesis by blast
qed

section \<open>The interrupt after the last chunk\<close>

text \<open>C40: when the last chunk of a DMA write has been transferred, the interrupt handler does not stop: nothing is left, so it makes the next chunk
  a full one, and has the disk write that many sectors, \<open>256\<close> or \<open>65534\<close>, behind the end of the request.\<close>

theorem dma_write_overruns_request:
  assumes "confined env d" "responsive env d" "apart d"
    and "i < length (ataDisks (ataManager s))" "ataDisks (ataManager s) ! i = Some d" "b_ataDisk (dmaBuffer s) = Some i"
    and "enabled (dmaBuffer s)" "\<not> write_done (dmaBuffer s)" "\<not> b_read (dmaBuffer s)"
    and "status_at env (ports (at_io s) @ [In8 (bm_port d 2)]) AND 4 \<noteq> 0"
    and "total_write (dmaBuffer s) < target_write (dmaBuffer s)"
    and last: "target_write (dmaBuffer s) = total_write (dmaBuffer s) + current_write (dmaBuffer s)"
    and "beyond = current_address (dmaBuffer s) + current_write (dmaBuffer s)"
    and "valid_request d beyond (ucast (dma_chunk (lba48 d)))"
  shows "\<exists>s'. ataHandleInterrupt env IRQ14 s = Some (Inr s') \<and> started d 1 (ports (at_io s')) \<and>
    addressed d (ports (at_io s')) = (beyond, unat (dma_chunk (lba48 d)))"
proof -
  let ?p = "peek env (io_port d + 7)" and ?ch = "dma_chunk (lba48 d)"
  define s1 where "s1 = s\<lparr>at_io := ?p (peek env (bm_port d 2) (at_io s))\<rparr>"
  have ch: "?ch \<noteq> 0" "unat (ucast ?ch :: u16) = unat ?ch" by (simp_all add: dma_chunk_def DMA_CHUNK_def DMA_CHUNK_EXT_def)
  define b where "b = (dmaBuffer s)\<lparr>total_write := target_write (dmaBuffer s), current_address := beyond, current_write := ?ch\<rparr>"
  have "\<exists>io. next_write env d s1 =
      returned (retry (writeDMADiskSectors env d beyond (ucast ?ch)) WRITE_DMA_SUCCESS (s1\<lparr>dmaBuffer := b, at_io := io\<rparr>))"
    using assms(13) last ch(1) unfolding next_write_def s1_def
    by (simp add: on_buffer_def on_io_def Let_def b_def) (metis not_less_iff_gr_or_eq word_gt_0)
  then obtain io where io: "next_write env d s1 =
      returned (retry (writeDMADiskSectors env d beyond (ucast ?ch)) WRITE_DMA_SUCCESS (s1\<lparr>dmaBuffer := b, at_io := io\<rparr>))" by blast
  let ?s2 = "s1\<lparr>dmaBuffer := b, at_io := io\<rparr>"
  obtain io' where io': "writeDMADiskSectors env d beyond (ucast ?ch) ?s2 = Some (WRITE_DMA_SUCCESS, (set_select (ucast (drive_head d)) ?s2)\<lparr>at_io := io'\<rparr>)"
    "addressed d (ports io') = (beyond, unat ?ch)" "started d 1 (ports io')"
    using write_sectors_ok [OF assms(1-3) assms(14), of ?s2] ch(2) by auto
  have w: "next_write env d s1 = Some (Inr ((set_select (ucast (drive_head d)) ?s2)\<lparr>at_io := io'\<rparr>))"
    unfolding io using retry_once [where f = "writeDMADiskSectors env d beyond (ucast ?ch)", OF io'(1)] by (simp add: returned_def)
  have "disk_at (Some i) s = Inr d" using assms(4,5) by (simp add: disk_at_def arr_get_def in_array_def)
  then have "ataHandleInterrupt env IRQ14 s = Some (Inr ((set_select (ucast (drive_head d)) ?s2)\<lparr>at_io := ?p io'\<rparr>))"
    using assms(6-11) w unfolding ataHandleInterrupt_def ataHandleWriteInterrupt_def
    by (simp add: IRQ14_def readATAStatus_def read_status_def s1_def [symmetric] on_io_def) (simp add: s1_def)
  then show ?thesis
    using io'(2,3) after_inputs [where u = "[In8 (io_port d + 7)]" and d = d and t = "ports io'"] by simp
qed

definition demo_write_state :: ata_state where
  "demo_write_state = demo_ata_state\<lparr>dmaBuffer := (dmaBuffer demo_ata_state)\<lparr>current_write := 10, target_write := 10, current_address := 0x100\<rparr>\<rparr>"

theorem dma_write_overruns_request_witness:
  "\<exists>s'. ataHandleInterrupt demo_ata IRQ14 demo_write_state = Some (Inr s') \<and> addressed demo_disk (ports (at_io s')) = (0x10A, 256)"
proof -
  have d: "confined demo_ata demo_disk" "responsive demo_ata demo_disk" "apart demo_disk" using demo_good by (simp_all add: good_disk_def)
  have st: "status_at demo_ata (t @ [In8 (bm_port demo_disk 2)]) AND 4 \<noteq> 0" for t
    by (simp add: status_at_def demo_ata_def demo_ports_def)
  have "\<exists>s'. ataHandleInterrupt demo_ata IRQ14 demo_write_state = Some (Inr s') \<and> started demo_disk 1 (ports (at_io s')) \<and>
      addressed demo_disk (ports (at_io s')) = (0x10A, unat (dma_chunk (lba48 demo_disk)))"
    by (rule dma_write_overruns_request [where i = 0, OF d _ _ _ _ _ _ st])
      (simp_all add: demo_write_state_def demo_ata_state_def valid_request_def dma_chunk_def DMA_CHUNK_def, simp_all add: demo_disk_def)
  moreover have "unat (dma_chunk (lba48 demo_disk)) = 256" by (simp add: dma_chunk_def DMA_CHUNK_def demo_disk_def)
  ultimately show ?thesis by auto
qed

end
