(* ===== verification/Xml.thy ===== *)
theory Xml
  imports MemUtils
begin

text \<open>
  XML documents: the pointer stack (\<open>misc/void_ptr_stack.c\<close>), number parsing (\<open>misc/numbers.c\<close>),
  the parser (\<open>xml/XMLParser.c\<close>) and path queries (\<open>xml/XQuery.c\<close>). The parser works in place:
  it ends tags and contents with zero bytes in the source, and a string is an offset into it.
  Nodes are entries of an array and node pointers are indices. Sizes are natural numbers: no
  index exceeds the length of the source by more than two.
\<close>

section \<open>The pointer stack\<close>

definition MAX_VOID_STACK_SIZE :: nat where "MAX_VOID_STACK_SIZE = 128"

record void_ptr_stack_t =
  vstack :: "nat option list"
  vstack_ptr :: u16

text \<open>The loop clears the same element again and again: the one at the old stack pointer, which is not
  initialised.\<close>

definition void_ptr_stack_init :: "void_ptr_stack_t \<Rightarrow> void_ptr_stack_t result" where
  "void_ptr_stack_init st = and_then (arr_set (vstack st) (uint (vstack_ptr st)) None) (\<lambda>s.
     Inr (st\<lparr>vstack := s, vstack_ptr := 0\<rparr>))"

definition void_ptr_stack_push :: "void_ptr_stack_t \<Rightarrow> nat option \<Rightarrow> (bool \<times> void_ptr_stack_t) result" where
  "void_ptr_stack_push st item =
     (if unat (vstack_ptr st) \<le> MAX_VOID_STACK_SIZE
      then and_then (arr_set (vstack st) (uint (vstack_ptr st)) item) (\<lambda>s.
             Inr (True, st\<lparr>vstack := s, vstack_ptr := vstack_ptr st + 1\<rparr>))
      else Inr (False, st))"

definition void_ptr_stack_pop :: "void_ptr_stack_t \<Rightarrow> (nat option \<times> void_ptr_stack_t) result" where
  "void_ptr_stack_pop st =
     (if vstack_ptr st > 0
      then and_then (arr_get (vstack st) (uint (vstack_ptr st) - 1)) (\<lambda>item.
             Inr (item, st\<lparr>vstack_ptr := vstack_ptr st - 1\<rparr>))
      else Inr (None, st))"

section \<open>Numbers\<close>

text \<open>Strings without their final zero byte, shorter than the range of the 16-bit index of \<open>atoi\<close>.\<close>

definition is_digit_char :: "u8 \<Rightarrow> bool" where
  "is_digit_char c \<longleftrightarrow> 48 \<le> c \<and> c \<le> 57"

definition is_integer :: "u8 list \<Rightarrow> bool" where
  "is_integer number \<longleftrightarrow> number \<noteq> [] \<and> list_all is_digit_char number"

text \<open>The end of the string is not a space, so it ends the loop as a character that is no digit.\<close>

fun atoi_loop :: "u64 \<Rightarrow> u8 list \<Rightarrow> u64" where
  "atoi_loop res [] = 0"
| "atoi_loop res (c # s) =
     (if c = 32 then res
      else if \<not> is_digit_char c then 0
      else atoi_loop (res * 10 + ucast (c - 48)) s)"

definition atoi :: "u8 list \<Rightarrow> u64" where
  "atoi s = atoi_loop 0 (dropWhile (\<lambda>c. c = 32) s)"

section \<open>The heap of nodes\<close>

definition MAX_XML_NODES :: nat where "MAX_XML_NODES = 1024 * 128"

record xml_node_t =
  xml_tag :: "nat option"
  xml_parent :: "nat option"
  xml_right :: "nat option"
  child_start :: "nat option"
  child_end :: "nat option"
  xml_content :: "nat option"

definition empty_node :: xml_node_t where
  "empty_node = \<lparr>xml_tag = None, xml_parent = None, xml_right = None, child_start = None, child_end = None, xml_content = None\<rparr>"

record xml_heap_t =
  xml_source :: "u8 list"
  xml_nodes :: "nat \<Rightarrow> xml_node_t"
  current_node :: nat
  xml_index :: nat
  xml_len :: nat
  current_content :: "nat option"

definition upd_node :: "nat \<Rightarrow> (xml_node_t \<Rightarrow> xml_node_t) \<Rightarrow> xml_heap_t \<Rightarrow> xml_heap_t" where
  "upd_node i f h = h\<lparr>xml_nodes := (xml_nodes h)(i := f (xml_nodes h i))\<rparr>"

definition cstring :: "u8 list \<Rightarrow> nat \<Rightarrow> u8 list" where
  "cstring src i = takeWhile (\<lambda>c. c \<noteq> 0) (drop i src)"

text \<open>A source string is stored with its final zero byte.\<close>

definition xml_heap_init :: "u8 list \<Rightarrow> xml_heap_t \<Rightarrow> xml_heap_t" where
  "xml_heap_init s h = h\<lparr>xml_len := length s, xml_source := s @ [0], current_node := 0, xml_index := 0, current_content := None\<rparr>"

definition getNewXMLNode :: "xml_heap_t \<Rightarrow> nat option \<times> xml_heap_t" where
  "getNewXMLNode h =
     (if current_node h \<ge> MAX_XML_NODES then (None, h)
      else (Some (current_node h), (upd_node (current_node h) (\<lambda>_. empty_node) h)\<lparr>current_node := current_node h + 1\<rparr>))"

section \<open>The parser\<close>

text \<open>The loop of both tag parsers, on the rest of the source: spaces and the closing bracket become
  zero bytes.\<close>

fun tag_loop :: "nat \<Rightarrow> nat \<Rightarrow> u8 list \<Rightarrow> nat \<times> u8 list" where
  "tag_loop 0 i src = (i, src)"
| "tag_loop (Suc n) i src =
     (if src ! i = 32 then tag_loop n (i + 1) (src[i := 0])
      else if src ! i = 62 then (i, src[i := 0])
      else tag_loop n (i + 1) src)"

definition parse_tag :: "nat \<Rightarrow> xml_heap_t \<Rightarrow> nat \<times> xml_heap_t" where
  "parse_tag skip h =
     (let i = xml_index h + skip; (j, src) = tag_loop (xml_len h - i) i (xml_source h)
      in (i, h\<lparr>xml_index := j, xml_source := src\<rparr>))"

definition parse_open_tag :: "xml_heap_t \<Rightarrow> nat \<times> xml_heap_t" where
  "parse_open_tag = parse_tag 1"

definition parse_close_tag :: "xml_heap_t \<Rightarrow> nat \<times> xml_heap_t" where
  "parse_close_tag = parse_tag 2"

record xml_run =
  run_heap :: xml_heap_t
  run_stack :: void_ptr_stack_t
  parent_node :: "nat option"

text \<open>A round of the loop goes on, returns or fails.\<close>

datatype xml_round = Go xml_run | Return int xml_heap_t | Fail c_error

definition up_one :: "xml_heap_t \<Rightarrow> nat option \<Rightarrow> nat option" where
  "up_one h p = (case p of None \<Rightarrow> None
     | Some i \<Rightarrow> (case xml_parent (xml_nodes h i) of None \<Rightarrow> Some i | Some q \<Rightarrow> Some q))"

definition next_round :: "xml_run \<Rightarrow> xml_round" where
  "next_round r = Go (r\<lparr>run_heap := (run_heap r)\<lparr>xml_index := xml_index (run_heap r) + 1\<rparr>\<rparr>)"

definition close_step :: "xml_run \<Rightarrow> xml_round" where
  "close_step r =
     (let h = run_heap r
      in if current_content h \<noteq> None \<and> parent_node r = None then Fail Null_pointer
         else let h = (case (current_content h, parent_node r) of
                         (Some c, Some p) \<Rightarrow> upd_node p (\<lambda>n. n\<lparr>xml_content := Some c\<rparr>)
                                       (h\<lparr>xml_source := (xml_source h)[xml_index h := 0]\<rparr>)
                       | _ \<Rightarrow> h);
                  p = up_one h (parent_node r);
                  (tg, h) = parse_close_tag h
              in case void_ptr_stack_pop (run_stack r) of
                   Inl e \<Rightarrow> Fail e
                 | Inr (None, st) \<Rightarrow> Fail Null_pointer
                 | Inr (Some t, st) \<Rightarrow>
                     if strcmp (cstring (xml_source h) tg) (cstring (xml_source h) t) \<noteq> None then Return 0 h
                     else next_round \<lparr>run_heap = h\<lparr>current_content := None\<rparr>, run_stack = st, parent_node = p\<rparr>)"

text \<open>A node with a first child has a last child.\<close>

definition link_node :: "nat \<Rightarrow> nat option \<Rightarrow> xml_heap_t \<Rightarrow> xml_heap_t" where
  "link_node i parent h =
     (case parent of
        None \<Rightarrow> h
      | Some p \<Rightarrow>
          let h = (if child_start (xml_nodes h p) = None
                   then upd_node p (\<lambda>n. n\<lparr>child_start := Some i, child_end := Some i\<rparr>) h
                   else upd_node p (\<lambda>n. n\<lparr>child_end := Some i\<rparr>)
                          (upd_node (the (child_end (xml_nodes h p))) (\<lambda>n. n\<lparr>xml_right := Some i\<rparr>) h))
          in upd_node i (\<lambda>n. n\<lparr>xml_parent := Some p\<rparr>) h)"

definition open_step :: "xml_run \<Rightarrow> xml_round" where
  "open_step r =
     (let (tg, h) = parse_open_tag (run_heap r)
      in case getNewXMLNode h of
           (None, h) \<Rightarrow> Return 0 h
         | (Some i, h) \<Rightarrow>
             let h = upd_node i (\<lambda>n. n\<lparr>xml_tag := Some tg\<rparr>) h;
                 h = link_node i (parent_node r) h;
                 l = tg + length (cstring (xml_source h) tg) - 1
             in if xml_source h ! l = 47 \<or> xml_source h ! (xml_index h - 1) = 47
                then let h = (if xml_source h ! l = 47 then h\<lparr>xml_source := (xml_source h)[l := 0]\<rparr> else h);
                         h = h\<lparr>current_content := None\<rparr>
                     in next_round (r\<lparr>run_heap := h, parent_node := up_one h (Some i)\<rparr>)
                else case void_ptr_stack_push (run_stack r) (Some tg) of
                       Inl e \<Rightarrow> Fail e
                     | Inr (False, st) \<Rightarrow> Return 0 h
                     | Inr (True, st) \<Rightarrow> next_round \<lparr>run_heap = h\<lparr>current_content := Some (xml_index h + 1)\<rparr>,
                         run_stack = st, parent_node = Some i\<rparr>)"

definition parse_round :: "xml_round \<Rightarrow> xml_round" where
  "parse_round s =
     (case s of
        Go r \<Rightarrow>
          (let h = run_heap r; src = xml_source h; i = xml_index h
           in if src ! i = 60 \<and> src ! (i + 1) = 47 then close_step r
              else if src ! i = 60 \<and> src ! (i + 1) \<noteq> 63 then open_step r
              else next_round r)
      | s \<Rightarrow> s)"

fun going :: "xml_round \<Rightarrow> bool" where
  "going (Go r) = (xml_index (run_heap r) < xml_len (run_heap r))"
| "going s = False"

fun outcome :: "xml_round \<Rightarrow> (int \<times> xml_heap_t) result" where
  "outcome (Go r) = Inr (1, run_heap r)"
| "outcome (Return n h) = Inr (n, h)"
| "outcome (Fail e) = Inl e"

text \<open>\<open>raw\<close> is the stack on the call stack, not initialised.\<close>

definition parse_xml :: "void_ptr_stack_t \<Rightarrow> xml_heap_t \<Rightarrow> (int \<times> xml_heap_t) result option" where
  "parse_xml raw h =
     (case void_ptr_stack_init raw of
        Inl e \<Rightarrow> Some (Inl e)
      | Inr st \<Rightarrow> map_option outcome
          (while_option going parse_round (Go \<lparr>run_heap = h, run_stack = st, parent_node = None\<rparr>)))"

section \<open>Queries\<close>

definition MAX_XQUERY_PATHS :: nat where "MAX_XQUERY_PATHS = 32"
definition MAX_XQUERY_TAG_NAME :: nat where "MAX_XQUERY_TAG_NAME = 128"

record xquery_item_t =
  item_tag :: "u8 list"
  item_index :: u16

record xquery_t =
  xquery_items :: "xquery_item_t list"
  items_count :: u8

text \<open>The position of the first occurrence of a character, as \<open>scanc\<close> returns it.\<close>

fun scanc :: "u8 \<Rightarrow> u8 list \<Rightarrow> nat option" where
  "scanc c [] = None"
| "scanc c (d # s) = (if d = c then Some 0 else map_option Suc (scanc c s))"

definition add_item :: "u8 list \<Rightarrow> u16 \<Rightarrow> xquery_t \<Rightarrow> xquery_t result" where
  "add_item tg ind q =
     (if length tg < MAX_XQUERY_TAG_NAME
      then and_then (arr_set (xquery_items q) (uint (items_count q)) \<lparr>item_tag = tg, item_index = ind\<rparr>) (\<lambda>items.
             Inr (q\<lparr>xquery_items := items, items_count := items_count q + 1\<rparr>))
      else Inl Out_of_bounds)"

definition parse_xquery_item :: "u8 list \<Rightarrow> xquery_t \<Rightarrow> xquery_t result" where
  "parse_xquery_item item q =
     (case (scanc 91 item, scanc 93 item) of
        (Some b, Some e) \<Rightarrow>
          if b + 1 < e then add_item (take b item) (ucast (atoi (drop (b + 1) (take e item)))) q
          else add_item item 0 q
      | _ \<Rightarrow> add_item item 0 q)"

text \<open>The search along the right siblings. \<open>None\<close> would be a cycle of siblings; the nodes of a parsed
  document have a tag.\<close>

definition getXMLNode :: "xml_heap_t \<Rightarrow> nat option \<Rightarrow> u8 list \<Rightarrow> u32 \<Rightarrow> nat option option" where
  "getXMLNode h start tg ind =
     (let hit = (\<lambda>i. strcmp (cstring (xml_source h) (the (xml_tag (xml_nodes h i)))) tg = None)
      in map_option fst (while_option
           (\<lambda>(p, k). case p of None \<Rightarrow> False | Some i \<Rightarrow> \<not> (hit i \<and> k = ind))
           (\<lambda>(p, k). case p of None \<Rightarrow> (p, k) | Some i \<Rightarrow> (xml_right (xml_nodes h i), if hit i then k + 1 else k))
           (start, 0)))"

text \<open>The pieces of a path between slashes, without the empty ones.\<close>

fun split_path :: "u8 list \<Rightarrow> u8 list \<Rightarrow> u8 list list" where
  "split_path acc [] = (if acc = [] then [] else [acc])"
| "split_path acc (c # s) =
     (if c = 47 then (if acc = [] then [] else [acc]) @ split_path [] s else split_path (acc @ [c]) s)"

fun parse_items :: "u8 list list \<Rightarrow> xquery_t \<Rightarrow> xquery_t result" where
  "parse_items [] q = Inr q"
| "parse_items (i # is) q = and_then (parse_xquery_item i q) (parse_items is)"

fun follow :: "xml_heap_t \<Rightarrow> xquery_item_t list \<Rightarrow> nat option \<Rightarrow> nat option option" where
  "follow h [] p = Some p"
| "follow h (it # its) p =
     (case p of None \<Rightarrow> Some None
      | Some i \<Rightarrow> Option.bind (getXMLNode h (child_start (xml_nodes h i)) (item_tag it) (ucast (item_index it))) (follow h its))"

text \<open>\<open>raw\<close> is the query structure on the call stack; without an item its first element is used as it
  is.\<close>

definition exec_xquery :: "xquery_t \<Rightarrow> u8 list \<Rightarrow> xml_heap_t \<Rightarrow> nat option result option" where
  "exec_xquery raw xquery_str h =
     (if length xquery_str \<ge> 1024 then Some (Inl Out_of_bounds)
      else case parse_items (split_path [] xquery_str) (raw\<lparr>items_count := 0\<rparr>) of
             Inl e \<Rightarrow> Some (Inl e)
           | Inr q \<Rightarrow>
               let first = xquery_items q ! 0
               in map_option Inr (Option.bind (getXMLNode h (Some 0) (item_tag first) (ucast (item_index first)))
                    (follow h (drop 1 (take (unat (items_count q)) (xquery_items q))))))"

section \<open>The tree of nodes\<close>

text \<open>Links go forward to siblings and children and backward to parents, so that every walk along
  them ends; a node has a last child exactly when it has a first one.\<close>

definition node_ok :: "nat \<Rightarrow> nat \<Rightarrow> xml_node_t \<Rightarrow> bool" where
  "node_ok n i nd \<longleftrightarrow> xml_tag nd \<noteq> None \<and> (\<forall>p. xml_parent nd = Some p \<longrightarrow> p < i) \<and>
     (\<forall>r. xml_right nd = Some r \<longrightarrow> i < r \<and> r < n) \<and> (\<forall>c. child_start nd = Some c \<longrightarrow> i < c \<and> c < n) \<and>
     (\<forall>c. child_end nd = Some c \<longrightarrow> i < c \<and> c < n) \<and> (child_start nd = None \<longleftrightarrow> child_end nd = None)"

definition order_ok :: "xml_heap_t \<Rightarrow> bool" where
  "order_ok h \<longleftrightarrow> current_node h \<le> MAX_XML_NODES \<and> (\<forall>i<current_node h. node_ok (current_node h) i (xml_nodes h i))"

lemma upd_node_simps [simp]:
  "xml_nodes (upd_node i f h) j = (if j = i then f (xml_nodes h i) else xml_nodes h j)"
  "current_node (upd_node i f h) = current_node h" "xml_index (upd_node i f h) = xml_index h"
  "xml_len (upd_node i f h) = xml_len h" "xml_source (upd_node i f h) = xml_source h"
  "current_content (upd_node i f h) = current_content h"
  by (simp_all add: upd_node_def)

lemma order_ok_cong:
  "xml_nodes h' = xml_nodes h \<Longrightarrow> current_node h' = current_node h \<Longrightarrow> order_ok h' = order_ok h"
  by (simp add: order_ok_def)

lemma node_ok_mono: "node_ok n i nd \<Longrightarrow> n \<le> m \<Longrightarrow> node_ok m i nd"
  by (auto simp: node_ok_def)

lemma tag_loop_index: "i \<le> fst (tag_loop n i src)"
proof (induction n arbitrary: i src)
  case (Suc n)
  have "i \<le> fst (tag_loop n (i + 1) s)" for s using Suc.IH [of "i + 1" s] by linarith
  then show ?case by simp
qed simp

lemma parse_tag_simps:
  assumes "parse_tag k h = (tg, h')"
  shows "xml_nodes h' = xml_nodes h" "current_node h' = current_node h" "xml_len h' = xml_len h"
    "xml_index h + k \<le> xml_index h'" "current_content h' = current_content h" "tg = xml_index h + k"
  using assms tag_loop_index [of "xml_index h + k" "xml_len h - (xml_index h + k)" "xml_source h"]
  by (auto simp: parse_tag_def Let_def split: prod.splits)

lemma link_node_fields [simp]:
  "current_node (link_node i p h) = current_node h" "xml_index (link_node i p h) = xml_index h"
  "xml_len (link_node i p h) = xml_len h"
  by (simp_all add: link_node_def Let_def split: option.splits)

lemma order_ok_fields [simp]:
  "order_ok (h\<lparr>xml_source := s\<rparr>) = order_ok h" "order_ok (h\<lparr>xml_index := i\<rparr>) = order_ok h"
  "order_ok (h\<lparr>current_content := c\<rparr>) = order_ok h"
  by (simp_all add: order_ok_def)

lemma order_ok_upd:
  "order_ok h \<Longrightarrow> (node_ok (current_node h) i (xml_nodes h i) \<Longrightarrow> node_ok (current_node h) i (f (xml_nodes h i))) \<Longrightarrow>
    order_ok (upd_node i f h)"
  by (simp add: order_ok_def)

lemma order_ok_content: "order_ok h \<Longrightarrow> order_ok (upd_node p (\<lambda>n. n\<lparr>xml_content := c\<rparr>) h)"
  by (erule order_ok_upd) (simp add: node_ok_def)

lemma node_ok_links:
  "node_ok n i nd \<Longrightarrow> i < k \<Longrightarrow> k < n \<Longrightarrow> node_ok n i (nd\<lparr>child_start := Some k, child_end := Some k\<rparr>)"
  "node_ok n i nd \<Longrightarrow> i < k \<Longrightarrow> k < n \<Longrightarrow> child_start nd \<noteq> None \<Longrightarrow> node_ok n i (nd\<lparr>child_end := Some k\<rparr>)"
  "node_ok n i nd \<Longrightarrow> i < k \<Longrightarrow> k < n \<Longrightarrow> node_ok n i (nd\<lparr>xml_right := Some k\<rparr>)"
  "node_ok n i nd \<Longrightarrow> p < i \<Longrightarrow> node_ok n i (nd\<lparr>xml_parent := Some p\<rparr>)"
  by (simp_all add: node_ok_def)

lemma order_link_node:
  assumes "order_ok h" "i < current_node h" "\<forall>p. parent = Some p \<longrightarrow> p < i \<and> child_end (xml_nodes h p) \<noteq> Some i"
    and "Suc i = current_node h"
  shows "order_ok (link_node i parent h)"
proof (cases parent)
  case None
  then show ?thesis using assms(1) by (simp add: link_node_def)
next
  case (Some p)
  then have p: "p < i" "child_end (xml_nodes h p) \<noteq> Some i" using assms(3) by auto
  then have np: "node_ok (current_node h) p (xml_nodes h p)" using assms(1,2) by (simp add: order_ok_def)
  show ?thesis
  proof (cases "child_start (xml_nodes h p)")
    case None
    have "order_ok (upd_node p (\<lambda>n. n\<lparr>child_start := Some i, child_end := Some i\<rparr>) h)"
      using assms(1,2) p(1) by (intro order_ok_upd) (auto intro: node_ok_links)
    then show ?thesis
      using Some None p(1) by (auto simp: link_node_def Let_def intro!: order_ok_upd node_ok_links)
  next
    case c: (Some c)
    with np obtain e where e: "child_end (xml_nodes h p) = Some e" "p < e" "e < current_node h"
      by (cases "child_end (xml_nodes h p)") (auto simp: node_ok_def)
    then have "e < i" using p(2) assms(4) by (metis less_Suc_eq)
    then have 1: "order_ok (upd_node e (\<lambda>n. n\<lparr>xml_right := Some i\<rparr>) h)" (is "order_ok ?h1")
      using assms(1,2) by (intro order_ok_upd node_ok_links) auto
    have "order_ok (upd_node p (\<lambda>n. n\<lparr>child_end := Some i\<rparr>) ?h1)"
      using c p(1) assms(2) by (intro order_ok_upd [OF 1] node_ok_links(2)) auto
    then show ?thesis
      using Some c e(1) p(1) by (auto simp: link_node_def Let_def intro!: order_ok_upd node_ok_links)
  qed
qed

lemma order_new_node:
  assumes "order_ok h" "\<forall>p. parent = Some p \<longrightarrow> p < current_node h" "getNewXMLNode h = (Some i, h')"
  shows "order_ok (link_node i parent (upd_node i (\<lambda>n. n\<lparr>xml_tag := Some tg\<rparr>) h'))" "i < current_node h'"
    "xml_index h' = xml_index h" "xml_len h' = xml_len h"
proof -
  from assms(3) have h': "i = current_node h" "current_node h < MAX_XML_NODES"
    "h' = (upd_node i (\<lambda>_. empty_node) h)\<lparr>current_node := current_node h + 1\<rparr>"
    by (auto simp: getNewXMLNode_def split: if_splits)
  then show "i < current_node h'" "xml_index h' = xml_index h" "xml_len h' = xml_len h" by simp_all
  let ?h = "upd_node i (\<lambda>n. n\<lparr>xml_tag := Some tg\<rparr>) h'"
  have nodes: "xml_nodes ?h j = (if j = i then empty_node\<lparr>xml_tag := Some tg\<rparr> else xml_nodes h j)"
    "current_node ?h = Suc i" for j by (simp_all add: h')
  have node: "node_ok (Suc i) j (if j = i then empty_node\<lparr>xml_tag := Some tg\<rparr> else xml_nodes h j)" if "j < Suc i" for j
  proof (cases "j = i")
    case True
    then show ?thesis by (simp add: node_ok_def empty_node_def)
  next
    case False
    then have "node_ok i j (xml_nodes h j)" using assms(1) that h'(1) by (simp add: order_ok_def)
    then show ?thesis using False node_ok_mono [of i j _ "Suc i"] by simp
  qed
  have "Suc i \<le> MAX_XML_NODES" using h'(1,2) by simp
  then have ok: "order_ok ?h" unfolding order_ok_def nodes using node by blast
  have "child_end (xml_nodes ?h p) \<noteq> Some i" if "p < i" for p
  proof -
    have "node_ok i p (xml_nodes h p)" using assms(1) that h'(1) by (simp add: order_ok_def)
    then show ?thesis using that h'(3) by (auto simp: node_ok_def)
  qed
  then show "order_ok (link_node i parent ?h)"
    using assms(2) h' by (intro order_link_node [OF ok]) auto
qed

text \<open>The links are those of a tree rooted in node 0: every other node has a parent and is the first child of that
  parent or the right neighbour of another child of it, first children and neighbours know their parent, and the last
  child has no right neighbour.\<close>

definition nodes_linked :: "(nat \<Rightarrow> xml_node_t) \<Rightarrow> nat \<Rightarrow> bool" where
  "nodes_linked nd n \<longleftrightarrow>
     (\<forall>i. 0 < i \<and> i < n \<longrightarrow> (\<exists>p<i. xml_parent (nd i) = Some p \<and>
        (child_start (nd p) = Some i \<or> (\<exists>l<i. xml_right (nd l) = Some i \<and> xml_parent (nd l) = Some p)))) \<and>
     (\<forall>p<n. \<forall>c. child_start (nd p) = Some c \<longrightarrow> xml_parent (nd c) = Some p) \<and>
     (\<forall>l<n. \<forall>r. xml_right (nd l) = Some r \<longrightarrow> 0 < l \<and> xml_parent (nd r) = xml_parent (nd l)) \<and>
     (\<forall>p<n. \<forall>e. child_end (nd p) = Some e \<longrightarrow> xml_parent (nd e) = Some p \<and> xml_right (nd e) = None)"

definition links_ok :: "xml_heap_t \<Rightarrow> bool" where
  "links_ok h \<longleftrightarrow> order_ok h \<and> nodes_linked (xml_nodes h) (current_node h)"

lemma links_ok_cong:
  "xml_nodes h' = xml_nodes h \<Longrightarrow> current_node h' = current_node h \<Longrightarrow> links_ok h' = links_ok h"
  by (simp add: links_ok_def order_ok_def)

lemma links_ok_fields [simp]:
  "links_ok (h\<lparr>xml_source := s\<rparr>) = links_ok h" "links_ok (h\<lparr>xml_index := i\<rparr>) = links_ok h"
  "links_ok (h\<lparr>current_content := c\<rparr>) = links_ok h"
  by (simp_all add: links_ok_def)

lemma nodes_linkedD:
  assumes "nodes_linked nd n" "0 < i" "i < n"
  shows "\<exists>p<i. xml_parent (nd i) = Some p \<and>
    (child_start (nd p) = Some i \<or> (\<exists>l<i. xml_right (nd l) = Some i \<and> xml_parent (nd l) = Some p))"
  using assms unfolding nodes_linked_def by blast

lemma nodes_linked_content: "nodes_linked nd n \<Longrightarrow> nodes_linked (nd(p := (nd p)\<lparr>xml_content := c\<rparr>)) n"
proof -
  have "xml_parent ((nd(p := (nd p)\<lparr>xml_content := c\<rparr>)) i) = xml_parent (nd i)"
    "child_start ((nd(p := (nd p)\<lparr>xml_content := c\<rparr>)) i) = child_start (nd i)"
    "child_end ((nd(p := (nd p)\<lparr>xml_content := c\<rparr>)) i) = child_end (nd i)"
    "xml_right ((nd(p := (nd p)\<lparr>xml_content := c\<rparr>)) i) = xml_right (nd i)" for i by simp_all
  then show "nodes_linked nd n \<Longrightarrow> ?thesis" unfolding nodes_linked_def by presburger
qed

lemma links_ok_content: "links_ok h \<Longrightarrow> links_ok (upd_node p (\<lambda>n. n\<lparr>xml_content := c\<rparr>) h)"
  using order_ok_content [of h p c] nodes_linked_content [of "xml_nodes h" "current_node h" p c]
  by (simp add: links_ok_def upd_node_def)

lemma node_ok_bound:
  "node_ok n i nd \<Longrightarrow> child_start nd = Some c \<or> child_end nd = Some c \<or> xml_right nd = Some c \<Longrightarrow> i < c \<and> c < n"
  by (auto simp: node_ok_def)

lemma nodes_linked_first:
  assumes "nodes_linked nd n" "p < n" "child_start (nd p) = None" "\<forall>i<n. node_ok n i (nd i)"
  shows "nodes_linked (nd(n := empty_node\<lparr>xml_tag := t, xml_parent := Some p\<rparr>, p := (nd p)\<lparr>child_start := Some n, child_end := Some n\<rparr>)) (Suc n)"
    (is "nodes_linked ?nd _")
proof -
  define nd' where "nd' = ?nd"
  have f: "xml_parent (nd' i) = (if i = n then Some p else xml_parent (nd i))" "xml_right (nd' i) = (if i = n then None else xml_right (nd i))"
    "child_start (nd' i) = (if i = n then None else if i = p then Some n else child_start (nd i))"
    "child_end (nd' i) = (if i = n then None else if i = p then Some n else child_end (nd i))" for i
    using assms(2) by (auto simp: nd'_def empty_node_def)
  have b: "c < n" if "i < n" "child_start (nd i) = Some c \<or> child_end (nd i) = Some c \<or> xml_right (nd i) = Some c" for i c
    using node_ok_bound [OF assms(4) [rule_format, OF that(1)]] that(2) by blast
  have new: "\<exists>q<i. xml_parent (nd' i) = Some q \<and> (child_start (nd' q) = Some i \<or> (\<exists>l<i. xml_right (nd' l) = Some i \<and> xml_parent (nd' l) = Some q))"
    if i: "0 < i" "i < Suc n" for i
  proof (cases "i = n")
    case True
    then show ?thesis using assms(2) by (intro exI [of _ p]) (simp add: f)
  next
    case False
    then have "i < n" using i by simp
    from nodes_linkedD [OF assms(1) i(1) this] obtain q where q: "q < i" "xml_parent (nd i) = Some q"
      "child_start (nd q) = Some i \<or> (\<exists>l<i. xml_right (nd l) = Some i \<and> xml_parent (nd l) = Some q)" by blast
    have "child_start (nd' q) = Some i \<or> (\<exists>l<i. xml_right (nd' l) = Some i \<and> xml_parent (nd' l) = Some q)"
      using q(3)
    proof
      assume c: "child_start (nd q) = Some i"
      then have "q \<noteq> p" using assms(3) by auto
      with c q(1) \<open>i < n\<close> show ?thesis by (simp add: f)
    next
      assume "\<exists>l<i. xml_right (nd l) = Some i \<and> xml_parent (nd l) = Some q"
      then obtain l where "l < i" "xml_right (nd l) = Some i" "xml_parent (nd l) = Some q" by blast
      then show ?thesis using \<open>i < n\<close> by (intro disjI2 exI [of _ l]) (simp add: f)
    qed
    then show ?thesis using q(1,2) False by (intro exI [of _ q]) (simp add: f)
  qed
  note l = assms(1) [unfolded nodes_linked_def]
  have 2: "xml_parent (nd' c) = Some q" if "q < Suc n" "child_start (nd' q) = Some c" for q c
  proof (cases "q = p")
    case False
    with that have "q < n" "child_start (nd q) = Some c" by (simp_all add: f split: if_splits)
    with l b [of q c] show ?thesis by (simp add: f)
  qed (use that assms(2) in \<open>simp add: f\<close>)
  have 3: "0 < q \<and> xml_parent (nd' r) = xml_parent (nd' q)" if "q < Suc n" "xml_right (nd' q) = Some r" for q r
  proof -
    from that have "q < n" "xml_right (nd q) = Some r" by (simp_all add: f split: if_splits)
    with l b [of q r] show ?thesis by (simp add: f)
  qed
  have 4: "xml_parent (nd' e) = Some q \<and> xml_right (nd' e) = None" if "q < Suc n" "child_end (nd' q) = Some e" for q e
  proof (cases "q = p")
    case False
    with that have "q < n" "child_end (nd q) = Some e" by (simp_all add: f split: if_splits)
    with l b [of q e] show ?thesis by (simp add: f)
  qed (use that assms(2) in \<open>simp add: f\<close>)
  from new 2 3 4 show ?thesis unfolding nodes_linked_def nd'_def [symmetric] by blast
qed

lemma nodes_linked_next:
  assumes "nodes_linked nd n" "p < n" "child_start (nd p) \<noteq> None" "child_end (nd p) = Some e" "\<forall>i<n. node_ok n i (nd i)"
  shows "nodes_linked (nd(n := empty_node\<lparr>xml_tag := t, xml_parent := Some p\<rparr>, e := (nd e)\<lparr>xml_right := Some n\<rparr>,
      p := (nd p)\<lparr>child_end := Some n\<rparr>)) (Suc n)" (is "nodes_linked ?nd _")
proof -
  define nd' where "nd' = ?nd"
  have e: "p < e" "e < n" "xml_parent (nd e) = Some p" "xml_right (nd e) = None"
  proof -
    show "p < e" "e < n" using node_ok_bound [OF assms(5) [rule_format, OF assms(2)]] assms(4) by blast+
    show "xml_parent (nd e) = Some p" "xml_right (nd e) = None"
      using assms(1,2,4) unfolding nodes_linked_def by blast+
  qed
  have f: "xml_parent (nd' i) = (if i = n then Some p else xml_parent (nd i))"
    "xml_right (nd' i) = (if i = n then None else if i = e then Some n else xml_right (nd i))"
    "child_start (nd' i) = (if i = n then None else child_start (nd i))"
    "child_end (nd' i) = (if i = n then None else if i = p then Some n else child_end (nd i))" for i
    using assms(2) e(1,2) by (auto simp: nd'_def empty_node_def)
  have b: "c < n" if "i < n" "child_start (nd i) = Some c \<or> child_end (nd i) = Some c \<or> xml_right (nd i) = Some c" for i c
    using node_ok_bound [OF assms(5) [rule_format, OF that(1)]] that(2) by blast
  have new: "\<exists>q<i. xml_parent (nd' i) = Some q \<and> (child_start (nd' q) = Some i \<or> (\<exists>l<i. xml_right (nd' l) = Some i \<and> xml_parent (nd' l) = Some q))"
    if i: "0 < i" "i < Suc n" for i
  proof (cases "i = n")
    case True
    then show ?thesis using assms(2) e by (intro exI [of _ p]) (auto simp: f)
  next
    case False
    then have "i < n" using i by simp
    from nodes_linkedD [OF assms(1) i(1) this] obtain q where q: "q < i" "xml_parent (nd i) = Some q"
      "child_start (nd q) = Some i \<or> (\<exists>l<i. xml_right (nd l) = Some i \<and> xml_parent (nd l) = Some q)" by blast
    have "child_start (nd' q) = Some i \<or> (\<exists>l<i. xml_right (nd' l) = Some i \<and> xml_parent (nd' l) = Some q)"
      using q(3)
    proof
      assume "\<exists>l<i. xml_right (nd l) = Some i \<and> xml_parent (nd l) = Some q"
      then obtain l where "l < i" "xml_right (nd l) = Some i" "xml_parent (nd l) = Some q" by blast
      moreover from this(2) e(4) have "l \<noteq> e" by auto
      ultimately show ?thesis using False i by (intro disjI2 exI [of _ l]) (simp add: f)
    qed (use q(1) False i in \<open>simp add: f\<close>)
    then show ?thesis using q(1,2) False i by (intro exI [of _ q]) (simp add: f)
  qed
  note l = assms(1) [unfolded nodes_linked_def]
  have 2: "xml_parent (nd' c) = Some q" if "q < Suc n" "child_start (nd' q) = Some c" for q c
  proof -
    from that have "q < n" "child_start (nd q) = Some c" by (simp_all add: f split: if_splits)
    with l b [of q c] show ?thesis by (simp add: f)
  qed
  have 3: "0 < q \<and> xml_parent (nd' r) = xml_parent (nd' q)" if "q < Suc n" "xml_right (nd' q) = Some r" for q r
  proof (cases "q = e")
    case False
    with that have "q < n" "xml_right (nd q) = Some r" by (simp_all add: f split: if_splits)
    with l b [of q r] show ?thesis by (simp add: f)
  qed (use that e in \<open>simp add: f\<close>)
  have 4: "xml_parent (nd' x) = Some q \<and> xml_right (nd' x) = None" if "q < Suc n" "child_end (nd' q) = Some x" for q x
  proof (cases "q = p")
    case False
    with that have q: "q < n" "child_end (nd q) = Some x" by (simp_all add: f split: if_splits)
    with l have x: "xml_parent (nd x) = Some q" "xml_right (nd x) = None" by auto
    with False e(3) have "x \<noteq> e" by auto
    with x b [of q x] q show ?thesis by (simp add: f)
  qed (use that assms(2) in \<open>simp add: f\<close>)
  from new 2 3 4 show ?thesis unfolding nodes_linked_def nd'_def [symmetric] by blast
qed

lemma link_new_node:
  assumes "links_ok h" "\<forall>p. parent = Some p \<longrightarrow> p < current_node h" "parent = None \<longrightarrow> current_node h = 0"
    and "getNewXMLNode h = (Some i, h')"
  shows "links_ok (link_node i parent (upd_node i (\<lambda>n. n\<lparr>xml_tag := Some tg\<rparr>) h'))" "i < current_node h'"
    "xml_index h' = xml_index h" "xml_len h' = xml_len h"
proof -
  have ok: "order_ok h" "nodes_linked (xml_nodes h) (current_node h)" using assms(1) by (simp_all add: links_ok_def)
  note o = order_new_node [OF ok(1) assms(2,4)]
  show "i < current_node h'" "xml_index h' = xml_index h" "xml_len h' = xml_len h" using o(2-4) .
  from assms(4) have h': "i = current_node h" "h' = (upd_node i (\<lambda>_. empty_node) h)\<lparr>current_node := current_node h + 1\<rparr>"
    by (auto simp: getNewXMLNode_def split: if_splits)
  let ?h = "link_node i parent (upd_node i (\<lambda>n. n\<lparr>xml_tag := Some tg\<rparr>) h')"
  have nk: "\<forall>j<current_node h. node_ok (current_node h) j (xml_nodes h j)" using ok(1) by (simp add: order_ok_def)
  have "nodes_linked (xml_nodes ?h) (Suc i)"
  proof (cases parent)
    case None
    then have "i = 0" using assms(3) h'(1) by simp
    then show ?thesis using None by (auto simp: link_node_def h'(2) nodes_linked_def empty_node_def upd_node_def)
  next
    case (Some p)
    then have p: "p < i" using assms(2) h'(1) by simp
    show ?thesis
    proof (cases "child_start (xml_nodes h p)")
      case None
      have "xml_nodes ?h = (xml_nodes h)(i := empty_node\<lparr>xml_tag := Some tg, xml_parent := Some p\<rparr>,
          p := (xml_nodes h p)\<lparr>child_start := Some i, child_end := Some i\<rparr>)"
        using Some None p by (auto simp: link_node_def h'(2) upd_node_def fun_eq_iff)
      then show ?thesis using nodes_linked_first [OF ok(2) _ None nk] p h'(1) by simp
    next
      case c: (Some c)
      have "node_ok i p (xml_nodes h p)" using nk p h'(1) by simp
      then obtain e where e: "child_end (xml_nodes h p) = Some e" "p < e" "e < i"
        using c by (cases "child_end (xml_nodes h p)") (auto simp: node_ok_def)
      have "xml_nodes ?h = (xml_nodes h)(i := empty_node\<lparr>xml_tag := Some tg, xml_parent := Some p\<rparr>,
          e := (xml_nodes h e)\<lparr>xml_right := Some i\<rparr>, p := (xml_nodes h p)\<lparr>child_end := Some i\<rparr>)"
        using Some c p e by (auto simp: link_node_def h'(2) upd_node_def fun_eq_iff)
      then show ?thesis using nodes_linked_next [OF ok(2) _ _ e(1) nk] p h'(1) c by simp
    qed
  qed
  moreover have "current_node ?h = Suc i" by (simp add: h')
  ultimately show "links_ok ?h" using o(1) by (simp add: links_ok_def)
qed


section \<open>Parsing ends and builds a tree\<close>

definition run_ok :: "nat \<Rightarrow> xml_round \<Rightarrow> bool" where
  "run_ok n s = (case s of
     Go r \<Rightarrow> links_ok (run_heap r) \<and> xml_len (run_heap r) = n \<and> (\<forall>p. parent_node r = Some p \<longrightarrow> p < current_node (run_heap r)) \<and>
       (parent_node r = None \<longrightarrow> current_node (run_heap r) = 0)
   | Return k h \<Rightarrow> links_ok h
   | Fail e \<Rightarrow> True)"

definition rounds_left :: "nat \<Rightarrow> xml_round \<Rightarrow> nat" where
  "rounds_left n s = (case s of Go r \<Rightarrow> n - xml_index (run_heap r) | _ \<Rightarrow> 0)"

text \<open>What a round must achieve from index \<open>i\<close> on.\<close>

definition progress :: "nat \<Rightarrow> nat \<Rightarrow> xml_round \<Rightarrow> bool" where
  "progress n i s \<longleftrightarrow> run_ok n s \<and> (\<forall>r. s = Go r \<longrightarrow> i < xml_index (run_heap r))"

lemma progress_next:
  "links_ok (run_heap r) \<Longrightarrow> xml_len (run_heap r) = n \<Longrightarrow> (\<forall>p. parent_node r = Some p \<longrightarrow> p < current_node (run_heap r)) \<Longrightarrow>
    parent_node r = None \<longrightarrow> current_node (run_heap r) = 0 \<Longrightarrow> i \<le> xml_index (run_heap r) \<Longrightarrow> progress n i (next_round r)"
  by (simp add: progress_def run_ok_def next_round_def)

lemma up_one_bound:
  assumes "links_ok h" "\<forall>p. q = Some p \<longrightarrow> p < current_node h"
  shows "up_one h q = Some p \<Longrightarrow> p < current_node h" "up_one h q = None \<longleftrightarrow> q = None"
proof -
  show "up_one h q = None \<longleftrightarrow> q = None" by (cases q) (auto simp: up_one_def split: option.splits)
  assume u: "up_one h q = Some p"
  then obtain i where i: "q = Some i" by (cases q) (simp_all add: up_one_def)
  then have "node_ok (current_node h) i (xml_nodes h i)" "i < current_node h"
    using assms by (auto simp: links_ok_def order_ok_def)
  then show "p < current_node h" using u i by (fastforce simp: up_one_def node_ok_def split: option.splits)
qed

lemma close_step_progress:
  assumes "run_ok n (Go r)"
  shows "progress n (xml_index (run_heap r)) (close_step r)"
proof (cases "current_content (run_heap r) \<noteq> None \<and> parent_node r = None")
  case True
  then show ?thesis by (auto simp: close_step_def progress_def run_ok_def)
next
  case False
  let ?h = "run_heap r"
  define h1 where "h1 = (case (current_content ?h, parent_node r) of
       (Some c, Some p) \<Rightarrow> upd_node p (\<lambda>n. n\<lparr>xml_content := Some c\<rparr>) (?h\<lparr>xml_source := (xml_source ?h)[xml_index ?h := 0]\<rparr>)
     | _ \<Rightarrow> ?h)"
  have ok: "links_ok ?h" "xml_len ?h = n" "\<forall>p. parent_node r = Some p \<longrightarrow> p < current_node ?h"
    "parent_node r = None \<longrightarrow> current_node ?h = 0"
    using assms by (simp_all add: run_ok_def)
  have h1: "links_ok h1" "xml_len h1 = n" "current_node h1 = current_node ?h" "xml_index h1 = xml_index ?h"
    using ok by (auto simp: h1_def intro!: links_ok_content split: option.splits)
  obtain tg h2 where h2: "parse_close_tag h1 = (tg, h2)" by (cases "parse_close_tag h1")
  note s2 = parse_tag_simps [OF h2 [unfolded parse_close_tag_def]]
  have ok2: "links_ok h2" using h1(1) links_ok_cong [OF s2(1,2)] by simp
  have up: "\<forall>p. up_one h1 (parent_node r) = Some p \<longrightarrow> p < current_node h2"
    "up_one h1 (parent_node r) = None \<longrightarrow> current_node h2 = 0"
    using up_one_bound [OF h1(1), of "parent_node r"] ok(3,4) h1(3) s2(2) by simp_all
  have ret: "progress n i (Return 0 h2)" "progress n i (Fail e)" for i e
    using ok2 by (simp_all add: progress_def run_ok_def)
  have "progress n (xml_index ?h) (next_round \<lparr>run_heap = h2\<lparr>current_content := None\<rparr>, run_stack = st, parent_node = up_one h1 (parent_node r)\<rparr>)"
    for st
    using ok2 h1 s2 up by (intro progress_next) simp_all
  then show ?thesis
    using False ret unfolding close_step_def Let_def h1_def [symmetric]
    by (auto simp: h2 split: sum.splits option.splits)
qed

lemma open_step_progress:
  assumes "run_ok n (Go r)"
  shows "progress n (xml_index (run_heap r)) (open_step r)"
proof -
  let ?h = "run_heap r"
  have ok: "links_ok ?h" "xml_len ?h = n" "\<forall>p. parent_node r = Some p \<longrightarrow> p < current_node ?h"
    "parent_node r = None \<longrightarrow> current_node ?h = 0"
    using assms by (simp_all add: run_ok_def)
  obtain tg h1 where h1: "parse_open_tag ?h = (tg, h1)" by (cases "parse_open_tag ?h")
  note s1 = parse_tag_simps [OF h1 [unfolded parse_open_tag_def]]
  have ok1: "links_ok h1" using ok(1) links_ok_cong [OF s1(1,2)] by simp
  obtain i h2 where h2: "getNewXMLNode h1 = (i, h2)" by (cases "getNewXMLNode h1")
  show ?thesis
  proof (cases i)
    case None
    then have "h2 = h1" using h2 by (simp add: getNewXMLNode_def split: if_splits)
    then show ?thesis using None h1 h2 ok1 by (simp add: open_step_def progress_def run_ok_def)
  next
    case (Some k)
    define h3 where "h3 = link_node k (parent_node r) (upd_node k (\<lambda>n. n\<lparr>xml_tag := Some tg\<rparr>) h2)"
    have l: "links_ok h3" "k < current_node h2" "xml_index h2 = xml_index h1" "xml_len h2 = xml_len h1"
      using link_new_node [OF ok1 _ _ h2 [unfolded Some], where parent = "parent_node r"] ok(3,4) s1(2)
      by (simp_all add: h3_def)
    then have h3: "k < current_node h3" "xml_len h3 = n" "xml_index ?h \<le> xml_index h3"
      using s1 ok(2) by (simp_all add: h3_def)
    define l where "l = tg + length (cstring (xml_source h3) tg) - 1"
    define h4 where "h4 = (if xml_source h3 ! l = 47 then h3\<lparr>xml_source := (xml_source h3)[l := 0]\<rparr> else h3)\<lparr>current_content := None\<rparr>"
    have h4: "links_ok h4" "current_node h4 = current_node h3" "xml_len h4 = n" "xml_index h4 = xml_index h3"
      using \<open>links_ok h3\<close> h3 by (simp_all add: h4_def)
    have a: "progress n (xml_index ?h) (next_round (r\<lparr>run_heap := h4, parent_node := up_one h4 (Some k)\<rparr>))"
      using up_one_bound [OF h4(1), of "Some k"] h3 h4 by (intro progress_next) auto
    have b: "progress n (xml_index ?h) (next_round \<lparr>run_heap = h3\<lparr>current_content := Some (xml_index h3 + 1)\<rparr>, run_stack = st, parent_node = Some k\<rparr>)" for st
      using \<open>links_ok h3\<close> h3 by (intro progress_next) simp_all
    have ret: "progress n j (Return 0 h3)" "progress n j (Fail e)" for j e
      using \<open>links_ok h3\<close> by (simp_all add: progress_def run_ok_def)
    show ?thesis
      unfolding open_step_def h1 h2 Some Let_def prod.case option.case h3_def [symmetric] l_def [symmetric] h4_def [symmetric]
      using a b ret by (auto split: sum.splits bool.splits)
  qed
qed

lemma parse_round_progress:
  assumes "run_ok n s" "going s"
  shows "run_ok n (parse_round s) \<and> rounds_left n (parse_round s) < rounds_left n s"
proof -
  obtain r where r: "s = Go r" "xml_index (run_heap r) < n"
    using assms by (cases s) (auto simp: run_ok_def)
  have "progress n (xml_index (run_heap r)) (next_round r)"
    using assms(1) r(1) by (intro progress_next) (simp_all add: run_ok_def)
  then have "progress n (xml_index (run_heap r)) (parse_round s)"
    using close_step_progress [of n r] open_step_progress [of n r] assms(1) r(1)
    by (simp add: parse_round_def Let_def)
  then show ?thesis
    using r by (cases "parse_round s") (auto simp: progress_def rounds_left_def)
qed

definition demo_raw_stack :: void_ptr_stack_t where
  "demo_raw_stack = \<lparr>vstack = replicate 128 None, vstack_ptr = 7\<rparr>"

text \<open>The source \<open>a/a\<close>, both tags ended, and two sibling nodes with that tag.\<close>

definition demo_xml :: xml_heap_t where
  "demo_xml = \<lparr>xml_source = [97, 0, 97, 0],
     xml_nodes = (\<lambda>_. empty_node)(0 := empty_node\<lparr>xml_tag := Some 0, xml_right := Some 1\<rparr>, 1 := empty_node\<lparr>xml_tag := Some 2\<rparr>),
     current_node = 2, xml_index = 4, xml_len = 4, current_content = None\<rparr>"

text \<open>C34: parsing any source ends, with a result or with an error of the code: a closing tag without an opening one
  reads through a null pointer, and more than 128 open elements overrun the stack of tags. When it returns, be it success
  or the report of a malformed document, the nodes built so far form a tree rooted in the first node: parents come before
  their children, every other node is the first child of its parent or the right neighbour of another child, and first
  children and neighbours refer to the parent; so no walk along the links runs in a circle or misses a node.\<close>

theorem parse_xml_builds_tree:
  assumes "vstack_ptr raw < 128" "length (vstack raw) = 128"
  shows "\<exists>res. parse_xml raw (xml_heap_init src h) = Some res \<and> (\<forall>k h'. res = Inr (k, h') \<longrightarrow> links_ok h')"
proof -
  let ?h = "xml_heap_init src h"
  have "unat (vstack_ptr raw) < length (vstack raw)" using assms by (simp add: word_less_nat_alt)
  then obtain st where st: "void_ptr_stack_init raw = Inr st"
    by (auto simp: void_ptr_stack_init_def arr_set_def in_array_def unat_less_uint)
  let ?s = "Go \<lparr>run_heap = ?h, run_stack = st, parent_node = None\<rparr>"
  have init: "run_ok (xml_len ?h) ?s" by (simp add: run_ok_def links_ok_def order_ok_def nodes_linked_def xml_heap_init_def)
  obtain t where t: "while_option going parse_round ?s = Some t"
    using measure_while_option_Some [of "run_ok (xml_len ?h)" going parse_round "rounds_left (xml_len ?h)" ?s]
      parse_round_progress init by blast
  have "run_ok (xml_len ?h) t"
    using while_option_rule [of "run_ok (xml_len ?h)", OF _ t init] parse_round_progress by blast
  then show ?thesis
    by (cases t) (auto simp: parse_xml_def st t run_ok_def)
qed

theorem parse_xml_builds_tree_witness:
  "vstack_ptr demo_raw_stack < 128 \<and> length (vstack demo_raw_stack) = 128 \<and>
    (\<exists>res. parse_xml demo_raw_stack (xml_heap_init [60, 97, 62, 98, 60, 47, 97, 62] demo_xml) = Some res \<and>
      (\<forall>k h'. res = Inr (k, h') \<longrightarrow> links_ok h'))"
proof -
  have "vstack_ptr demo_raw_stack < 128" "length (vstack demo_raw_stack) = 128"
    by (simp_all add: demo_raw_stack_def)
  then show ?thesis using parse_xml_builds_tree [where raw = demo_raw_stack] by blast
qed

section \<open>Queries\<close>

lemma strcmp_None: "strcmp a b = None \<longleftrightarrow> a = b"
proof -
  have "strcmp a b = None \<longleftrightarrow> length a = length b \<and> memcmp a b (length a) = None"
    by (auto simp: strcmp_def Let_def split: option.splits if_splits)
  then show ?thesis by (auto simp: memcmp_None list_eq_iff_nth_eq)
qed

text \<open>The siblings from a node on; the number of nodes bounds their chain.\<close>

fun walk :: "nat \<Rightarrow> xml_heap_t \<Rightarrow> nat option \<Rightarrow> nat list" where
  "walk 0 h p = []"
| "walk (Suc n) h None = []"
| "walk (Suc n) h (Some i) = i # walk n h (xml_right (xml_nodes h i))"

definition siblings :: "xml_heap_t \<Rightarrow> nat option \<Rightarrow> nat list" where
  "siblings h = walk (current_node h) h"

definition has_tag :: "xml_heap_t \<Rightarrow> u8 list \<Rightarrow> nat \<Rightarrow> bool" where
  "has_tag h tg i \<longleftrightarrow> cstring (xml_source h) (the (xml_tag (xml_nodes h i))) = tg"

lemma walk_None [simp]: "walk n h None = []"
  by (cases n) simp_all

lemma find_from:
  assumes "order_ok h" "\<forall>i. p = Some i \<longrightarrow> i < current_node h \<and> current_node h - i \<le> n" "c \<le> unat ind" "c + n < 2 ^ 32"
  shows "\<exists>k. while_option
       (\<lambda>(p, k). case p of None \<Rightarrow> False | Some i \<Rightarrow> \<not> (has_tag h tg i \<and> k = ind))
       (\<lambda>(p, k). case p of None \<Rightarrow> (p, k) | Some i \<Rightarrow> (xml_right (xml_nodes h i), if has_tag h tg i then k + 1 else k))
       (p, of_nat c :: u32) =
     Some (let ms = filter (has_tag h tg) (walk n h p)
       in if unat ind - c < length ms then Some (ms ! (unat ind - c)) else None, k)"
  using assms(2-)
proof (induction n arbitrary: p c)
  case 0
  then have "p = None" by (cases p) auto
  then show ?case by (subst while_option_unfold) simp
next
  case (Suc n)
  show ?case
  proof (cases p)
    case None
    then show ?thesis by (subst while_option_unfold) simp
  next
    case (Some i)
    then have i: "i < current_node h" "current_node h - i \<le> Suc n" using Suc.prems(1) by auto
    then have "node_ok (current_node h) i (xml_nodes h i)" using assms(1) by (simp add: order_ok_def)
    then have right: "\<forall>j. xml_right (xml_nodes h i) = Some j \<longrightarrow> j < current_node h \<and> current_node h - j \<le> n"
      using i by (auto simp: node_ok_def)
    have c: "(of_nat c :: u32) = ind \<longleftrightarrow> c = unat ind"
    proof -
      have "unat (of_nat c :: u32) = c" using Suc.prems(3) by (intro unat_of_nat_small) simp
      then show ?thesis by (simp add: word_unat_eq_iff)
    qed
    consider (hit) "has_tag h tg i" "c = unat ind" | (skip) "has_tag h tg i" "c < unat ind" | (miss) "\<not> has_tag h tg i"
      using Suc.prems(2) by linarith
    then show ?thesis
    proof cases
      case hit
      then show ?thesis using Some c by (subst while_option_unfold) simp
    next
      case skip
      then have "unat ind - c = Suc (unat ind - Suc c)" by simp
      moreover from Suc.IH [OF right, of "Suc c"] skip Suc.prems(3) show ?thesis
        using Some c calculation by (subst while_option_unfold) (auto simp: add.commute Let_def)
    next
      case miss
      from Suc.IH [OF right, of c] Suc.prems(2,3) show ?thesis
        using Some miss by (subst while_option_unfold) simp
    qed
  qed
qed

text \<open>In a tree of nodes \<open>getXMLNode\<close> returns, and gives the sibling with the tag asked for
  whose rank among them is the index asked for, or \<open>NULL\<close> if there are not as many.\<close>

theorem getXMLNode_finds:
  assumes "order_ok h" "\<forall>i. start = Some i \<longrightarrow> i < current_node h"
  shows "getXMLNode h start tg ind = Some (let ms = filter (has_tag h tg) (siblings h start)
    in if unat ind < length ms then Some (ms ! unat ind) else None)"
proof -
  have "current_node h < 2 ^ 32" using assms(1) by (simp add: order_ok_def MAX_XML_NODES_def)
  then show ?thesis
    using find_from [OF assms(1), of start "current_node h" 0 ind tg] assms(2)
    by (auto simp: getXMLNode_def strcmp_None siblings_def Let_def simp flip: has_tag_def)
qed

theorem getXMLNode_finds_witness:
  "order_ok demo_xml \<and> getXMLNode demo_xml (Some 0) [97] 1 = Some (Some 1) \<and> getXMLNode demo_xml (Some 0) [97] 2 = Some None"
proof -
  have ok: "order_ok demo_xml"
    by (auto simp: demo_xml_def order_ok_def node_ok_def empty_node_def MAX_XML_NODES_def less_Suc_eq numeral_2_eq_2)
  have "siblings demo_xml (Some 0) = [0, 1]"
    by (simp add: demo_xml_def siblings_def empty_node_def numeral_2_eq_2)
  moreover have "has_tag demo_xml [97] 0" "has_tag demo_xml [97] 1"
    by (simp_all add: demo_xml_def has_tag_def cstring_def)
  ultimately have "filter (has_tag demo_xml [97]) (siblings demo_xml (Some 0)) = [0, 1]" by simp
  then show ?thesis
    using ok getXMLNode_finds [OF ok, where start = "Some 0" and tg = "[97]" and ind = 1]
      getXMLNode_finds [OF ok, where start = "Some 0" and tg = "[97]" and ind = 2]
    by (simp add: demo_xml_def)
qed

lemma atoi_no_space: "32 \<notin> set s \<Longrightarrow> atoi_loop r s = 0"
  by (induction s arbitrary: r) auto

lemma scanc_append: "c \<notin> set s \<Longrightarrow> scanc c (s @ c # t) = Some (length s)"
  by (induction s) auto

text \<open>The index of a path item is lost: \<open>atoi\<close> only ends at a space, and the item ends with the zero
  byte that replaced the bracket, so \<open>name[5]\<close> asks for the first \<open>name\<close>.\<close>

theorem xquery_index_ignored:
  assumes "91 \<notin> set nm" "93 \<notin> set nm" "ds \<noteq> []" "list_all is_digit_char ds"
  shows "parse_xquery_item (nm @ [91] @ ds @ [93]) q = parse_xquery_item nm q"
proof -
  have d: "91 \<notin> set ds" "93 \<notin> set ds" "32 \<notin> set ds"
    using assms(4) by (auto simp: list_all_iff is_digit_char_def)
  have o: "scanc 91 (nm @ [91] @ ds @ [93]) = Some (length nm)" using scanc_append [OF assms(1), of "ds @ [93]"] by simp
  have e: "scanc 93 (nm @ [91] @ ds @ [93]) = Some (length nm + 1 + length ds)"
    using scanc_append [of 93 "nm @ [91] @ ds" "[]"] assms(2) d(2) by simp
  have none: "scanc 91 nm = None" using assms(1) by (induction nm) auto
  have "dropWhile (\<lambda>c. c = 32) ds = ds" using d(3) assms(3) by (cases ds) auto
  then have "atoi ds = 0" using atoi_no_space [OF d(3)] by (simp add: atoi_def)
  then show ?thesis
    using assms(3) by (simp add: parse_xquery_item_def o [simplified] e [simplified] none)
qed

theorem xquery_index_ignored_witness:
  "list_all is_digit_char [53] \<and>
    parse_xquery_item [97, 91, 53, 93] \<lparr>xquery_items = [], items_count = 0\<rparr> = parse_xquery_item [97] \<lparr>xquery_items = [], items_count = 0\<rparr>"
  using xquery_index_ignored [where nm = "[97]" and ds = "[53]" and q = "\<lparr>xquery_items = [], items_count = 0\<rparr>"]
  by (simp add: is_digit_char_def)

end
