(* ===== verification/Stdio.thy ===== *)
theory Stdio
  imports ConsoleDevice Xml
begin

text \<open>
  Formatted output (\<open>misc/stdio.c\<close>, \<open>misc/printk.c\<close>). A template is the list of its characters, an argument a number or a
  string given by its characters, all without the final zero. Reading an argument that is not there, or of another kind than the
  template says, is undefined and an error of the model.
\<close>

section \<open>Formatting\<close>

datatype va_arg = Num u64 | Num128 "128 word" | Str "u8 list" | Null

function dec_chars :: "u64 \<Rightarrow> u64 \<Rightarrow> bool \<Rightarrow> u8 list" where
  "dec_chars divisor decimal add_zero =
     (if divisor = 0 then []
      else let v = ucast (decimal div divisor) :: u8;
               show_it = (v > 0 \<or> add_zero);
               rest = dec_chars (divisor div 10) (decimal mod divisor) show_it
           in if show_it then (v + 48) # rest else rest)"
  by pat_completeness auto

termination
proof (relation "measure (\<lambda>(divisor, decimal, add_zero). unat divisor)")
  fix divisor decimal :: u64 and x :: u8 and add_zero xa :: bool
  assume "divisor \<noteq> 0"
  then have "0 < unat divisor" by (simp add: unat_gt_0)
  then show "((divisor div 10, decimal mod divisor, xa), divisor, decimal, add_zero)
      \<in> measure (\<lambda>(divisor, decimal, add_zero). unat divisor)" by (simp add: unat_div)
qed simp

declare dec_chars.simps [simp del]

definition dec_string :: "u64 \<Rightarrow> u8 list" where
  "dec_string decimal = (if decimal = 0 then [48] else dec_chars 0x8AC7230489E80000 decimal False)"

text \<open>\<open>hi\<close> is the position of the highest digit; \<open>%y\<close> and \<open>%z\<close> print at least two digits.\<close>

definition hex_string :: "nat \<Rightarrow> 'a::len word \<Rightarrow> bool \<Rightarrow> u8 list" where
  "hex_string hi h pad =
     (if h = 0 then [48, 48]
      else (if pad \<and> h < 0x10 then [48] else []) @ hexa_digits h (map (\<lambda>k. 4 * k) (rev [0..<hi div 4 + 1])) True)"

text \<open>The characters stored one behind another, and whether a zero byte follows them: only the \<open>strcpy\<close> of \<open>%s\<close> writes one.\<close>

definition emit :: "u8 list \<Rightarrow> (u8 list \<times> bool) result \<Rightarrow> (u8 list \<times> bool) result" where
  "emit cs r = and_then r (\<lambda>(out, z). Inr (cs @ out, z))"

function format_loop :: "u8 list \<Rightarrow> va_arg list \<Rightarrow> bool \<Rightarrow> (u8 list \<times> bool) result" where
  "format_loop [] args z = Inr ([], z)"
| "format_loop (c # cs) args z =
     (if c = of_char CHR ''%''
      then let n = (case cs of [] \<Rightarrow> 0 | d # _ \<Rightarrow> d)
           in if n = of_char CHR ''c''
              then (case args of Num v # as \<Rightarrow> emit [ucast v] (format_loop (tl cs) as False) | _ \<Rightarrow> Inl Out_of_bounds)
              else if n = of_char CHR ''s''
              then (case args of Str s # as \<Rightarrow> emit s (format_loop (tl cs) as True)
                    | Null # as \<Rightarrow> format_loop (c # cs) as z
                    | _ \<Rightarrow> Inl Out_of_bounds)
              else if n = of_char CHR ''d''
              then (case args of Num v # as \<Rightarrow> emit (dec_string v) (format_loop (tl cs) as False) | _ \<Rightarrow> Inl Out_of_bounds)
              else if n = of_char CHR ''x'' \<or> n = of_char CHR ''y''
              then (case args of Num v # as \<Rightarrow> emit (hex_string 60 v (n = of_char CHR ''y'')) (format_loop (tl cs) as False)
                    | _ \<Rightarrow> Inl Out_of_bounds)
              else if n = of_char CHR ''v'' \<or> n = of_char CHR ''z''
              then (case args of Num128 v # as \<Rightarrow> emit (hex_string 124 v (n = of_char CHR ''z'')) (format_loop (tl cs) as False)
                    | _ \<Rightarrow> Inl Out_of_bounds)
              else emit [c] (format_loop cs args False)
      else emit [c] (format_loop cs args False))"
  by pat_completeness auto

termination
  by (relation "measure (\<lambda>(cs, args, z). length cs + length args)") (auto simp: less_Suc_eq_le le_diff_conv intro: le_trans)

declare format_loop.simps(2) [simp del]

primrec put_bytes :: "u64 \<Rightarrow> u8 list \<Rightarrow> memory \<Rightarrow> memory" where
  "put_bytes p [] m = m"
| "put_bytes p (c # cs) m = put_bytes (p + 1) cs (m(p := c))"

definition sprintf_raw :: "u64 \<Rightarrow> u8 list \<Rightarrow> va_arg list \<Rightarrow> memory \<Rightarrow> memory result" where
  "sprintf_raw str str_template args m =
     and_then (format_loop str_template args False) (\<lambda>(out, z). Inr (put_bytes str (if z then out @ [0] else out) m))"

definition sprintf :: "u64 \<Rightarrow> u8 list \<Rightarrow> va_arg list \<Rightarrow> memory \<Rightarrow> memory result" where
  "sprintf str str_template args m = sprintf_raw str str_template args m"

section \<open>Printing\<close>

definition COLOR_GREEN :: u8 where "COLOR_GREEN = 2"
definition COLOR_CYAN :: u8 where "COLOR_CYAN = 3"
definition COLOR_LIGHT_RED :: u8 where "COLOR_LIGHT_RED = 12"

text \<open>The common body of the four functions. The text goes through an array of 2048 bytes that is zero at first; it ends at the
  first zero byte.\<close>

definition print_to :: "int \<Rightarrow> u8 \<Rightarrow> u8 list \<Rightarrow> va_arg list \<Rightarrow> Console \<Rightarrow> Console result" where
  "print_to i fg str_template args c =
     and_then (format_loop str_template args False) (\<lambda>(out, z).
       if length out < 2048
       then let c = c\<lparr>con_params := (con_params c)\<lparr>p_string := takeWhile (\<lambda>ch. ch \<noteq> 0) out, newIndex := i,
                        p_background_color := COLOR_BLACK, p_foreground_color := fg\<rparr>\<rparr>
            in and_then (if i \<noteq> uint (current_terminal_index c) then console_writeToTerminal c else console_addStringToCurrentTerminal c)
                 (\<lambda>(_, c). Inr c)
       else Inl Out_of_bounds)"

definition printk :: "u8 list \<Rightarrow> va_arg list \<Rightarrow> Console \<Rightarrow> Console result" where
  "printk = print_to 0 COLOR_GREEN"

definition printk_network :: "u8 list \<Rightarrow> va_arg list \<Rightarrow> Console \<Rightarrow> Console result" where
  "printk_network = print_to 2 COLOR_CYAN"

definition printk_debug :: "u8 list \<Rightarrow> va_arg list \<Rightarrow> Console \<Rightarrow> Console result" where
  "printk_debug = print_to 3 COLOR_LIGHT_RED"

definition printk_fs :: "u8 list \<Rightarrow> va_arg list \<Rightarrow> Console \<Rightarrow> Console result" where
  "printk_fs = print_to 4 COLOR_WHITE"

section \<open>Numbers read back\<close>

lemma ten_powers:
  assumes "k \<le> 19"
  shows "unat (of_nat (10 ^ k) :: u64) = 10 ^ k"
proof (rule unat_of_nat_small)
  have "(10 :: nat) ^ k \<le> 10 ^ 19" using assms by (intro power_increasing) simp_all
  then show "10 ^ k < (2 :: nat) ^ LENGTH(64)" by simp
qed

text \<open>One step: the leading digit and the rest of the number.\<close>

lemma dec_step:
  assumes "k \<le> 19" "unat n < 10 ^ Suc k"
  defines "D \<equiv> of_nat (10 ^ k) :: u64" and "v \<equiv> ucast (n div of_nat (10 ^ k)) :: u8"
  shows "dec_chars D n b = (if v > 0 \<or> b then (v + 48) # dec_chars (D div 10) (n mod D) True else dec_chars (D div 10) (n mod D) False)"
    and "unat v = unat n div 10 ^ k" "unat v < 10" "is_digit_char (v + 48)" "v + 48 \<noteq> 32" "unat (n mod D) < 10 ^ k"
proof -
  note u = ten_powers [OF assms(1), folded D_def]
  have "D \<noteq> 0" using u by (metis unat_0 power_not_zero zero_neq_numeral)
  then show "dec_chars D n b = (if v > 0 \<or> b then (v + 48) # dec_chars (D div 10) (n mod D) True else dec_chars (D div 10) (n mod D) False)"
    by (subst dec_chars.simps) (simp add: Let_def v_def D_def)
  have q: "unat n div 10 ^ k < 10" using assms(2) by (simp add: less_mult_imp_div_less)
  have "unat (n div D) = unat n div 10 ^ k" by (simp add: unat_div u)
  then show v: "unat v = unat n div 10 ^ k" using q unfolding v_def D_def [symmetric]
    by (simp add: unsigned_ucast_eq unsigned_take_bit_eq take_bit_nat_eq_self)
  then show lt: "unat v < 10" using q by simp
  have "unat (v + 48) = unat v + 48" using unat_add_no_wrap [of v 48] lt by simp
  then show "is_digit_char (v + 48)" "v + 48 \<noteq> 32" using lt by (auto simp: is_digit_char_def word_le_nat_alt word_unat_eq_iff)
  show "unat (n mod D) < 10 ^ k" by (simp add: unat_mod u)
qed

lemma dec_chars_zero: "dec_chars 0 n b = []"
  by (subst dec_chars.simps) simp

lemma ten_div: "k < 19 \<Longrightarrow> (of_nat (10 ^ Suc k) :: u64) div 10 = of_nat (10 ^ k)"
  using ten_powers [of k] ten_powers [of "Suc k"] by (simp add: word_unat_eq_iff unat_div del: of_nat_power)

lemma atoi_step:
  assumes "k \<le> 19" "unat n < 10 ^ Suc k" "b \<or> r = 0"
  defines "D \<equiv> of_nat (10 ^ k) :: u64"
  shows "\<exists>r' b'. atoi_loop r (dec_chars D n b @ rest) = atoi_loop r' (dec_chars (D div 10) (n mod D) b' @ rest) \<and>
    (b' \<or> r' = 0) \<and> r' * D + n mod D = r * (10 * D) + n"
proof -
  note d = dec_step [OF assms(1,2), folded D_def]
  let ?v = "ucast (n div D) :: u8"
  have v: "ucast ?v = n div D"
    using d(2) ten_powers [OF assms(1), folded D_def] by (simp add: word_unat_eq_iff unat_div unat_mod unsigned_ucast_eq take_bit_eq_mod)
  have n: "(n div D) * D + n mod D = n" by (rule div_mult_mod_eq)
  show ?thesis
  proof (cases "?v > 0 \<or> b")
    case True
    have "atoi_loop r (dec_chars D n b @ rest) = atoi_loop (r * 10 + n div D) (dec_chars (D div 10) (n mod D) True @ rest)"
      using True d(4,5) v by (simp add: d(1))
    moreover have "(r * 10 + n div D) * D + n mod D = r * (10 * D) + n"
    proof -
      have e: "(r * 10 + q) * D + m = r * (10 * D) + (q * D + m)" for q m by (simp add: algebra_simps)
      show ?thesis unfolding e n ..
    qed
    ultimately show ?thesis by blast
  next
    case False
    then have "?v = 0" "\<not> b" by (auto simp: word_gt_0)
    then have z: "n div D = 0" "r = 0" using v assms(3) by auto
    then have "n mod D = n" using n by simp
    then show ?thesis using False z by (intro exI [of _ 0] exI [of _ False]) (simp add: d(1))
  qed
qed

lemma atoi_dec_chars:
  assumes "k \<le> 19" "unat n < 10 ^ Suc k" "b \<or> r = 0"
  shows "atoi_loop r (dec_chars (of_nat (10 ^ k)) n b @ 32 # rest) = r * of_nat (10 ^ Suc k) + n"
  using assms
proof (induction k arbitrary: n r b)
  case 0
  from atoi_step [OF 0, of "32 # rest"] show ?case by (auto simp: dec_chars_zero)
next
  case (Suc k)
  let ?D = "of_nat (10 ^ Suc k) :: u64"
  obtain r' b' where r: "atoi_loop r (dec_chars ?D n b @ 32 # rest) = atoi_loop r' (dec_chars (?D div 10) (n mod ?D) b' @ 32 # rest)"
    "b' \<or> r' = 0" "r' * ?D + n mod ?D = r * (10 * ?D) + n" using atoi_step [OF Suc.prems, of "32 # rest"] by blast
  have "atoi_loop r' (dec_chars (of_nat (10 ^ k)) (n mod ?D) b' @ 32 # rest) = r' * ?D + n mod ?D"
    by (rule Suc.IH) (use Suc.prems(1) dec_step(6) [OF Suc.prems(1,2)] r(2) in auto)
  moreover have "?D div 10 = of_nat (10 ^ k)" by (rule ten_div) (use Suc.prems(1) in simp)
  moreover have "10 * ?D = of_nat (10 ^ Suc (Suc k))" by simp
  ultimately show ?case using r(1,3) by metis
qed

lemma dec_chars_digits:
  assumes "k \<le> 19" "unat n < 10 ^ Suc k" "c \<in> set (dec_chars (of_nat (10 ^ k)) n b)"
  shows "is_digit_char c \<and> c \<noteq> 32"
  using assms
proof (induction k arbitrary: n b)
  case 0
  then show ?case using dec_step(1) [OF 0(1,2), of b] dec_step(4,5) [OF 0(1,2)] by (auto simp: dec_chars_zero split: if_splits)
next
  case (Suc k)
  note d = dec_step [OF Suc.prems(1,2)] and t = ten_div [of k]
  have "is_digit_char c \<and> c \<noteq> 32" if "c \<in> set (dec_chars (of_nat (10 ^ k)) (n mod of_nat (10 ^ Suc k)) b')" for b'
    by (rule Suc.IH [OF _ _ that]) (use Suc.prems(1) d(6) in simp_all)
  then show ?case using Suc.prems(1,3) d(4,5) t unfolding d(1)
    by (auto simp del: power_Suc of_nat_power of_nat_mult split: if_splits)
qed

lemma full_divisor:
  fixes n :: u64
  shows "(0x8AC7230489E80000 :: u64) = of_nat (10 ^ 19)" "unat n < 10 ^ Suc 19"
proof -
  show "(0x8AC7230489E80000 :: u64) = of_nat (10 ^ 19)" by simp
  have "unat n < 18446744073709551616" using unsigned_less [of n] by simp
  then show "unat n < 10 ^ Suc 19" by simp
qed

lemma dec_string_digits: "c \<in> set (dec_string n) \<Longrightarrow> is_digit_char c \<and> c \<noteq> 32"
proof (cases "n = 0")
  case False
  assume "c \<in> set (dec_string n)"
  then have "c \<in> set (dec_chars (of_nat (10 ^ 19)) n False)" using False by (simp only: dec_string_def full_divisor(1) if_False)
  then show ?thesis by (rule dec_chars_digits [OF order_refl full_divisor(2)])
qed (simp add: dec_string_def is_digit_char_def)

lemma atoi_dec_string: "atoi (dec_string n @ 32 # rest) = n"
proof (cases "n = 0")
  case True
  then show ?thesis by (simp add: dec_string_def atoi_def is_digit_char_def)
next
  case False
  have a: "atoi_loop 0 (dec_string n @ 32 # rest) = n"
    using atoi_dec_chars [OF order_refl full_divisor(2), of False 0 n rest] False by (simp only: dec_string_def full_divisor(1)) simp
  then have "dec_string n \<noteq> []" using False by auto
  then obtain c cs where c: "dec_string n = c # cs" by (cases "dec_string n") auto
  then have "c \<noteq> 32" using dec_string_digits [of c n] by simp
  then show ?thesis using a c by (simp add: atoi_def)
qed

text \<open>C31: a number printed with \<open>%d\<close> and followed by a space reads back with \<open>atoi\<close> as the same number, for all 64-bit numbers.\<close>

theorem printed_number_reads_back:
  "\<exists>out. format_loop (map of_char ''%d '') [Num n] False = Inr (out, False) \<and> atoi (out @ rest) = n"
proof -
  have "format_loop (map of_char ''%d '') [Num n] False = Inr (dec_string n @ [32], False)"
    by (simp add: format_loop.simps emit_def)
  then show ?thesis using atoi_dec_string [of n rest] by auto
qed

end
