(* ===== verification/XmlDocs.thy ===== *)
theory XmlDocs
  imports Xml
begin

text \<open>
  Documents and what the parser makes of them. A document is a tree of elements that hold either a text or other elements. The
  theory follows the parser over the printed form of a tree, shows which nodes it leaves behind and what a path query finds in
  them.
\<close>

section \<open>Documents\<close>

datatype xtree = Leaf "u8 list" "u8 list" | Branch "u8 list" "xtree list"

fun root_tag :: "xtree \<Rightarrow> u8 list" where
  "root_tag (Leaf t c) = t"
| "root_tag (Branch t ks) = t"

definition open_tag :: "u8 list \<Rightarrow> u8 list" where
  "open_tag t = 60 # t @ [62]"

definition close_tag :: "u8 list \<Rightarrow> u8 list" where
  "close_tag t = 60 # 47 # t @ [62]"

fun print_tree :: "xtree \<Rightarrow> u8 list" and print_trees :: "xtree list \<Rightarrow> u8 list" where
  "print_tree (Leaf t c) = open_tag t @ c @ close_tag t"
| "print_tree (Branch t ks) = open_tag t @ print_trees ks @ close_tag t"
| "print_trees [] = []"
| "print_trees (k # ks) = print_tree k @ print_trees ks"

fun nodes_of :: "xtree \<Rightarrow> nat" and nodes_in :: "xtree list \<Rightarrow> nat" where
  "nodes_of (Leaf t c) = 1"
| "nodes_of (Branch t ks) = 1 + nodes_in ks"
| "nodes_in [] = 0"
| "nodes_in (k # ks) = nodes_of k + nodes_in ks"

fun depth_of :: "xtree \<Rightarrow> nat" and depth_in :: "xtree list \<Rightarrow> nat" where
  "depth_of (Leaf t c) = 1"
| "depth_of (Branch t ks) = 1 + depth_in ks"
| "depth_in [] = 0"
| "depth_in (k # ks) = max (depth_of k) (depth_in ks)"

definition tag_ok :: "u8 list \<Rightarrow> bool" where
  "tag_ok t \<longleftrightarrow> t \<noteq> [] \<and> set t \<inter> {0, 32, 47, 62, 63} = {}"

definition text_ok :: "u8 list \<Rightarrow> bool" where
  "text_ok c \<longleftrightarrow> set c \<inter> {0, 60} = {}"

fun doc_ok :: "xtree \<Rightarrow> bool" and docs_ok :: "xtree list \<Rightarrow> bool" where
  "doc_ok (Leaf t c) \<longleftrightarrow> tag_ok t \<and> text_ok c"
| "doc_ok (Branch t ks) \<longleftrightarrow> tag_ok t \<and> ks \<noteq> [] \<and> docs_ok ks"
| "docs_ok [] \<longleftrightarrow> True"
| "docs_ok (k # ks) \<longleftrightarrow> doc_ok k \<and> docs_ok ks"

section \<open>Rounds of the parser\<close>

text \<open>The parser between two rounds: \<open>d\<close> is the part of the source it has passed, \<open>rest\<close> what is left with the final zero
  byte.\<close>

definition doc_heap :: "u8 list \<Rightarrow> u8 list \<Rightarrow> (nat \<Rightarrow> xml_node_t) \<Rightarrow> nat \<Rightarrow> nat option \<Rightarrow> xml_heap_t" where
  "doc_heap d rest nd k c = \<lparr>xml_source = d @ rest, xml_nodes = nd, current_node = k, xml_index = length d,
     xml_len = length d + length rest - 1, current_content = c\<rparr>"

definition stack_at :: "nat option list \<Rightarrow> nat \<Rightarrow> void_ptr_stack_t" where
  "stack_at v m = \<lparr>vstack = v, vstack_ptr = of_nat m\<rparr>"

definition state_at :: "u8 list \<Rightarrow> u8 list \<Rightarrow> (nat \<Rightarrow> xml_node_t) \<Rightarrow> nat \<Rightarrow> nat option \<Rightarrow> nat option list \<Rightarrow> nat \<Rightarrow> nat option \<Rightarrow> xml_round" where
  "state_at d rest nd k c v m p = Go \<lparr>run_heap = doc_heap d rest nd k c, run_stack = stack_at v m, parent_node = p\<rparr>"

definition str_in :: "u8 list \<Rightarrow> nat \<Rightarrow> u8 list \<Rightarrow> bool" where
  "str_in d p t \<longleftrightarrow> p + length t < length d \<and> cstring d p = t"

lemma cstring_here: "0 \<notin> set t \<Longrightarrow> cstring (d @ t @ 0 # x) (length d) = t"
  by (simp add: cstring_def takeWhile_tail) (metis (mono_tags, lifting) takeWhile_eq_all_conv)

lemma str_in_split:
  assumes "str_in d p t"
  shows "\<exists>a b. d = a @ t @ 0 # b \<and> length a = p \<and> 0 \<notin> set t"
proof -
  have p: "p + length t < length d" and t: "takeWhile (\<lambda>c. c \<noteq> 0) (drop p d) = t" using assms by (simp_all add: str_in_def cstring_def)
  obtain u where u: "drop p d = t @ u" using t takeWhile_dropWhile_id by metis
  have "length (drop p d) = length t + length u" by (simp add: u)
  then have "u \<noteq> []" using p by auto
  moreover have z: "0 \<notin> set t" using t set_takeWhileD by fastforce
  ultimately have "hd u = 0" using t unfolding u by (cases u) (auto simp: takeWhile_append split: if_splits)
  then have "drop p d = t @ 0 # tl u" using u \<open>u \<noteq> []\<close> by (cases u) auto
  then have "d = take p d @ t @ 0 # tl u" by (metis append_take_drop_id)
  then show ?thesis using z p by (intro exI [of _ "take p d"] exI [of _ "tl u"]) auto
qed

lemma str_in_append: "str_in d p t \<Longrightarrow> str_in (d @ x) p t"
proof -
  assume "str_in d p t"
  then obtain a b where "d = a @ t @ 0 # b" "length a = p" "0 \<notin> set t" using str_in_split by blast
  then show ?thesis using cstring_here [of t a "b @ x"] by (simp add: str_in_def)
qed

lemma str_in_cstring: "str_in d p t \<Longrightarrow> cstring (d @ x) p = t"
  using str_in_append [of d p t x] by (simp add: str_in_def)

lemma str_in_here: "0 \<notin> set t \<Longrightarrow> str_in (d @ t @ 0 # x) (length d) t"
  by (simp add: str_in_def cstring_here)

lemma tag_loop_ends:
  assumes "32 \<notin> set t" "62 \<notin> set t" "length t < n"
  shows "tag_loop n (length d) (d @ t @ 62 # rest) = (length d + length t, d @ t @ 0 # rest)"
  using assms
proof (induction t arbitrary: n d)
  case Nil
  then show ?case by (cases n) (simp_all add: nth_append)
next
  case (Cons c t)
  then obtain n' where n: "n = Suc n'" by (cases n) auto
  have "tag_loop n' (length (d @ [c])) ((d @ [c]) @ t @ 62 # rest) = (length (d @ [c]) + length t, (d @ [c]) @ t @ 0 # rest)"
    by (rule Cons.IH) (use Cons.prems n in simp_all)
  then show ?case using Cons.prems n by (simp add: nth_append)
qed

lemma going_state: "rest \<noteq> [] \<Longrightarrow> going (state_at d (x # rest) nd k c v m p)"
  by (cases rest) (simp_all add: state_at_def doc_heap_def)

lemma going_end: "\<not> going (state_at d [x] nd k c v m p)"
  by (simp add: state_at_def doc_heap_def)

lemma text_round:
  "x \<noteq> 60 \<Longrightarrow> parse_round (state_at d (x # rest) nd k c v m p) = state_at (d @ [x]) rest nd k c v m p"
  by (simp add: state_at_def doc_heap_def parse_round_def next_round_def Let_def nth_append)

text \<open>The nodes after a new node has been linked behind the last child of its parent.\<close>

definition linked :: "nat \<Rightarrow> nat option \<Rightarrow> (nat \<Rightarrow> xml_node_t) \<Rightarrow> nat \<Rightarrow> xml_node_t" where
  "linked k p nd =
     (case p of None \<Rightarrow> nd
      | Some p \<Rightarrow>
          let nd = (if child_start (nd p) = None then nd(p := (nd p)\<lparr>child_start := Some k, child_end := Some k\<rparr>)
                    else let e = the (child_end (nd p)); nd = nd(e := (nd e)\<lparr>xml_right := Some k\<rparr>)
                         in nd(p := (nd p)\<lparr>child_end := Some k\<rparr>))
          in nd(k := (nd k)\<lparr>xml_parent := Some p\<rparr>))"

definition fresh :: "nat \<Rightarrow> xml_node_t" where
  "fresh q = empty_node\<lparr>xml_tag := Some q\<rparr>"

lemma upd_doc_heap: "upd_node i f (doc_heap d rest nd k c) = doc_heap d rest (nd(i := f (nd i))) k c"
  by (simp add: upd_node_def doc_heap_def)

lemma doc_heap_fields [simp]:
  "xml_source (doc_heap d rest nd k c) = d @ rest" "xml_nodes (doc_heap d rest nd k c) = nd" "current_node (doc_heap d rest nd k c) = k"
  "xml_index (doc_heap d rest nd k c) = length d" "current_content (doc_heap d rest nd k c) = c"
  "xml_len (doc_heap d rest nd k c) = length d + length rest - 1"
  by (simp_all add: doc_heap_def)

lemma link_doc_heap: "link_node k p (doc_heap d rest nd n c) = doc_heap d rest (linked k p nd) n c"
  by (simp add: link_node_def linked_def upd_doc_heap Let_def split: option.splits)

lemma new_doc_node:
  "k < MAX_XML_NODES \<Longrightarrow> getNewXMLNode (doc_heap d rest nd k c) = (Some k, doc_heap d rest (nd(k := empty_node)) (k + 1) c)"
  by (simp add: getNewXMLNode_def upd_node_def doc_heap_def)

lemma parse_tag_doc:
  assumes "32 \<notin> set t" "62 \<notin> set t" "rest \<noteq> []"
  shows "parse_tag (length x) (doc_heap d (x @ t @ 62 # rest) nd k c) =
    (length d + length x, (doc_heap (d @ x @ t) (0 # rest) nd k c))"
proof -
  have "length t < length d + length (x @ t @ 62 # rest) - 1 - (length d + length x)" using assms(3) by (cases rest) auto
  from tag_loop_ends [OF assms(1,2) this, of "d @ x" rest] show ?thesis by (simp add: parse_tag_def doc_heap_def Let_def)
qed

lemma push_at:
  assumes "m < 128" "length v = 128"
  shows "void_ptr_stack_push (stack_at v m) q = Inr (True, stack_at (v[m := q]) (Suc m))"
proof -
  have "unat (of_nat m :: u16) = m" "uint (of_nat m :: u16) = int m" using assms by (simp_all add: unat_of_nat_small uint_nat)
  then show ?thesis using assms
    by (simp add: void_ptr_stack_push_def stack_at_def MAX_VOID_STACK_SIZE_def arr_set_def in_array_def)
qed

lemma pop_at:
  assumes "m < 128" "length v = 128"
  shows "void_ptr_stack_pop (stack_at v (Suc m)) = Inr (v ! m, stack_at v m)"
proof -
  have u: "unat (of_nat (Suc m) :: u16) = Suc m" using assms by (intro unat_of_nat_small) simp
  then have "(0 :: u16) < of_nat (Suc m)" "uint (of_nat (Suc m) :: u16) = int (Suc m)"
    by (simp_all add: word_less_nat_alt uint_nat del: of_nat_Suc)
  then show ?thesis using assms
    by (simp add: void_ptr_stack_pop_def stack_at_def arr_get_def in_array_def)
qed

lemma open_round:
  assumes t: "tag_ok t" and "rest \<noteq> []" "k < MAX_XML_NODES" "m < 128" "length v = 128"
  shows "parse_round (state_at d (open_tag t @ rest) nd k c v m p) =
    state_at (d @ 60 # t @ [0]) rest (linked k p (nd(k := fresh (length d + 1)))) (k + 1) (Some (length d + length t + 2))
      (v[m := Some (length d + 1)]) (Suc m) (Some k)"
proof -
  obtain a b where ab: "t = a # b" using t by (cases t) (auto simp: tag_ok_def)
  obtain e y where ey: "t = e @ [y]" using t by (cases t rule: rev_cases) (auto simp: tag_ok_def)
  have n: "0 \<notin> set t" "32 \<notin> set t" "62 \<notin> set t" "a \<noteq> 47" "a \<noteq> 63" "y \<noteq> 47"
  proof -
    have "a \<in> set t" unfolding ab by simp
    moreover have "y \<in> set t" unfolding ey by simp
    ultimately show "0 \<notin> set t" "32 \<notin> set t" "62 \<notin> set t" "a \<noteq> 47" "a \<noteq> 63" "y \<noteq> 47" using t by (auto simp: tag_ok_def)
  qed
  note tag = parse_tag_doc [OF n(2,3) assms(2), where x = "[60]", simplified]
  have cs: "cstring (d @ 60 # t @ 0 # rest) (Suc (length d)) = t" using cstring_here [OF n(1), of "d @ [60]" rest] by simp
  have l: "(60 # t @ 0 # rest) ! length t = y" by (simp add: ey nth_append)
  let ?r = "\<lparr>run_heap = doc_heap d (open_tag t @ rest) nd k c, run_stack = stack_at v m, parent_node = p\<rparr>"
  have "parse_round (state_at d (open_tag t @ rest) nd k c v m p) = open_step ?r"
    using n(4,5) by (simp add: parse_round_def state_at_def Let_def open_tag_def nth_append ab)
  also have "parse_open_tag (run_heap ?r) = (length d + 1, doc_heap (d @ 60 # t) (0 # rest) nd k c)"
    by (simp add: parse_open_tag_def open_tag_def tag)
  then have "open_step ?r = next_round \<lparr>run_heap = (doc_heap (d @ 60 # t) (0 # rest) (linked k p (nd(k := fresh (length d + 1)))) (k + 1) c)
      \<lparr>current_content := Some (length d + length t + 2)\<rparr>, run_stack = stack_at (v[m := Some (length d + 1)]) (Suc m), parent_node = Some k\<rparr>"
    by (simp add: open_step_def new_doc_node assms upd_doc_heap link_doc_heap Let_def cs l n(6) push_at fresh_def)
  finally show ?thesis by (simp add: next_round_def state_at_def doc_heap_def)
qed

text \<open>A closing tag ends the text of a leaf with a zero byte; a node without a text is left as it is.\<close>

definition closed :: "nat option \<Rightarrow> nat \<Rightarrow> (nat \<Rightarrow> xml_node_t) \<Rightarrow> nat \<Rightarrow> xml_node_t" where
  "closed c k nd = (case c of None \<Rightarrow> nd | Some b \<Rightarrow> nd(k := (nd k)\<lparr>xml_content := Some b\<rparr>))"

definition parent_of :: "(nat \<Rightarrow> xml_node_t) \<Rightarrow> nat \<Rightarrow> nat option" where
  "parent_of nd k = (case xml_parent (nd k) of None \<Rightarrow> Some k | Some q \<Rightarrow> Some q)"

lemma close_round:
  assumes t: "tag_ok t" and "rest \<noteq> []" "m < 128" "length v = 128" "v ! m = Some q" "str_in d q t"
  shows "parse_round (state_at d (close_tag t @ rest) nd k c v (Suc m) (Some i)) =
    state_at (d @ (if c = None then 60 else 0) # 47 # t @ [0]) rest (closed c i nd) k None v m (parent_of nd i)"
proof -
  let ?z = "if c = None then 60 else 0 :: u8"
  have n: "0 \<notin> set t" "32 \<notin> set t" "62 \<notin> set t" using t by (auto simp: tag_ok_def)
  have "close_step \<lparr>run_heap = doc_heap d (close_tag t @ rest) nd k c, run_stack = stack_at v (Suc m), parent_node = Some i\<rparr> =
    (case parse_close_tag (doc_heap d (?z # 47 # t @ 62 # rest) (closed c i nd) k c) of (tg, h) \<Rightarrow>
       if strcmp (cstring (xml_source h) tg) (cstring (xml_source h) q) \<noteq> None then Return 0 h
       else next_round \<lparr>run_heap = h\<lparr>current_content := None\<rparr>, run_stack = stack_at v m, parent_node = parent_of nd i\<rparr>)"
    using assms(3-5)
    by (cases c) (simp_all add: close_step_def pop_at closed_def parent_of_def up_one_def close_tag_def upd_doc_heap upd_node_def doc_heap_def
      split: prod.splits option.splits)
  also have "parse_close_tag (doc_heap d (?z # 47 # t @ 62 # rest) (closed c i nd) k c) =
      (length d + 2, doc_heap (d @ ?z # 47 # t) (0 # rest) (closed c i nd) k c)"
    using parse_tag_doc [OF n(2,3) assms(2), where x = "[?z, 47]"] by (simp add: parse_close_tag_def numeral_2_eq_2)
  finally have e: "close_step \<lparr>run_heap = doc_heap d (close_tag t @ rest) nd k c, run_stack = stack_at v (Suc m), parent_node = Some i\<rparr> =
    next_round \<lparr>run_heap = (doc_heap (d @ ?z # 47 # t) (0 # rest) (closed c i nd) k c)\<lparr>current_content := None\<rparr>, run_stack = stack_at v m,
      parent_node = parent_of nd i\<rparr>"
    using str_in_cstring [OF assms(6), of "?z # 47 # t @ 0 # rest"] cstring_here [OF n(1), of "d @ [?z, 47]" rest]
    by (simp add: strcmp_None)
  have "parse_round (state_at d (close_tag t @ rest) nd k c v (Suc m) (Some i)) =
    close_step \<lparr>run_heap = doc_heap d (close_tag t @ rest) nd k c, run_stack = stack_at v (Suc m), parent_node = Some i\<rparr>"
    by (simp add: parse_round_def state_at_def Let_def close_tag_def nth_append)
  then show ?thesis unfolding e by (simp add: next_round_def state_at_def doc_heap_def)
qed

section \<open>Parsing a document\<close>

abbreviation parser_from :: "xml_round \<Rightarrow> xml_round option" where
  "parser_from \<equiv> while_option going parse_round"

lemma parser_step: "going s \<Longrightarrow> parser_from s = parser_from (parse_round s)"
  by (subst while_option_unfold) simp

lemma parser_text:
  assumes "60 \<notin> set x" "rest \<noteq> []"
  shows "parser_from (state_at d (x @ rest) nd k c v m p) = parser_from (state_at (d @ x) rest nd k c v m p)"
  using assms(1)
proof (induction x arbitrary: d)
  case (Cons a x)
  have "parser_from (state_at d ((a # x) @ rest) nd k c v m p) = parser_from (state_at (d @ [a]) (x @ rest) nd k c v m p)"
    using Cons.prems assms(2) by (subst parser_step) (simp_all add: going_state text_round)
  then show ?case using Cons by simp
qed simp

lemma parser_open:
  assumes "tag_ok t" "rest \<noteq> []" "k < MAX_XML_NODES" "m < 128" "length v = 128"
  shows "parser_from (state_at d (open_tag t @ rest) nd k c v m p) =
    parser_from (state_at (d @ 60 # t @ [0]) rest (linked k p (nd(k := fresh (length d + 1)))) (k + 1) (Some (length d + length t + 2))
      (v[m := Some (length d + 1)]) (Suc m) (Some k))"
proof -
  have "going (state_at d (open_tag t @ rest) nd k c v m p)" by (simp add: open_tag_def going_state)
  then show ?thesis by (simp add: parser_step open_round assms)
qed

lemma parser_close:
  assumes "tag_ok t" "rest \<noteq> []" "m < 128" "length v = 128" "v ! m = Some q" "str_in d q t"
  shows "parser_from (state_at d (close_tag t @ rest) nd k c v (Suc m) (Some i)) =
    parser_from (state_at (d @ (if c = None then 60 else 0) # 47 # t @ [0]) rest (closed c i nd) k None v m (parent_of nd i))"
proof -
  have "going (state_at d (close_tag t @ rest) nd k c v (Suc m) (Some i))" by (simp add: close_tag_def going_state)
  then show ?thesis by (simp add: parser_step close_round assms)
qed

text \<open>The nodes from \<open>i\<close> on hold a tree, numbered in the order of the document.\<close>

definition has_str :: "u8 list \<Rightarrow> nat option \<Rightarrow> u8 list \<Rightarrow> bool" where
  "has_str d x t \<longleftrightarrow> (case x of None \<Rightarrow> False | Some q \<Rightarrow> str_in d q t)"

fun rep :: "u8 list \<Rightarrow> (nat \<Rightarrow> xml_node_t) \<Rightarrow> xtree \<Rightarrow> nat \<Rightarrow> bool"
  and reps :: "u8 list \<Rightarrow> (nat \<Rightarrow> xml_node_t) \<Rightarrow> xtree list \<Rightarrow> nat \<Rightarrow> bool" where
  "rep d nd (Leaf t c) i \<longleftrightarrow> has_str d (xml_tag (nd i)) t \<and> has_str d (xml_content (nd i)) c \<and> child_start (nd i) = None"
| "rep d nd (Branch t ks) i \<longleftrightarrow> has_str d (xml_tag (nd i)) t \<and> xml_content (nd i) = None \<and> child_start (nd i) = Some (i + 1) \<and>
     reps d nd ks (i + 1)"
| "reps d nd [] i \<longleftrightarrow> True"
| "reps d nd (k # ks) i \<longleftrightarrow> rep d nd k i \<and> xml_right (nd i) = (if ks = [] then None else Some (i + nodes_of k)) \<and>
     reps d nd ks (i + nodes_of k)"

lemma has_str_append: "has_str d x t \<Longrightarrow> has_str (d @ y) x t"
  by (auto simp: has_str_def str_in_append split: option.splits)

lemma nodes_of_pos: "0 < nodes_of t"
  by (cases t) simp_all

lemma rep_frame:
  "rep d nd t i \<Longrightarrow> nd' i = (nd i)\<lparr>xml_right := r\<rparr> \<Longrightarrow> \<forall>j. i < j \<and> j < i + nodes_of t \<longrightarrow> nd' j = nd j \<Longrightarrow> rep (d @ y) nd' t i"
  "reps d nd ks i \<Longrightarrow> \<forall>j. i \<le> j \<and> j < i + nodes_in ks \<longrightarrow> nd' j = nd j \<Longrightarrow> reps (d @ y) nd' ks i"
proof (induction t and ks arbitrary: i r and i rule: nodes_of_nodes_in.induct)
  case (4 k ks)
  have "nd' i = nd i" using 4(4) nodes_of_pos [of k] by simp
  then have "rep (d @ y) nd' k i" using 4(3,4) by (intro 4(1) [where r = "xml_right (nd i)"]) auto
  moreover have "reps (d @ y) nd' ks (i + nodes_of k)" using 4(3,4) by (intro 4(2)) auto
  ultimately show ?case using 4(3) \<open>nd' i = nd i\<close> by simp
qed (auto simp: has_str_append)

definition parent_ready :: "(nat \<Rightarrow> xml_node_t) \<Rightarrow> nat \<Rightarrow> nat option \<Rightarrow> bool" where
  "parent_ready nd k P \<longleftrightarrow> (\<forall>p. P = Some p \<longrightarrow> p < k \<and>
     (child_start (nd p) \<noteq> None \<longrightarrow> (\<exists>e. child_end (nd p) = Some e \<and> p < e \<and> e < k)))"

lemma parent_cases:
  assumes "parent_ready nd k P"
  obtains (root) "P = None"
    | (first) p where "P = Some p" "p < k" "child_start (nd p) = None"
    | (further) p e where "P = Some p" "child_start (nd p) \<noteq> None" "child_end (nd p) = Some e" "p < e" "e < k"
  using assms unfolding parent_ready_def by (cases P) blast+

lemma linked_first:
  "child_start (nd p) = None \<Longrightarrow> p < k \<Longrightarrow> j < k \<Longrightarrow>
    linked k (Some p) nd j = (if j = p then (nd p)\<lparr>child_start := Some k, child_end := Some k\<rparr> else nd j)"
  by (simp add: linked_def Let_def)

lemma linked_next:
  "child_start (nd p) \<noteq> None \<Longrightarrow> child_end (nd p) = Some e \<Longrightarrow> p < e \<Longrightarrow> e < k \<Longrightarrow> j < k \<Longrightarrow>
    linked k (Some p) nd j = (if j = p then (nd p)\<lparr>child_end := Some k\<rparr> else if j = e then (nd e)\<lparr>xml_right := Some k\<rparr> else nd j)"
  by (auto simp: linked_def Let_def)

lemma linked_below:
  assumes "parent_ready nd k P" "j < k"
  shows "linked k P (nd(k := x)) j = linked k P nd j"
  using assms(1)
proof (cases rule: parent_cases)
  case root
  then show ?thesis using assms(2) by (simp add: linked_def)
next
  case (first p)
  then show ?thesis using assms(2) by (simp add: linked_first)
next
  case (further p e)
  then show ?thesis using assms(2) by (simp add: linked_next [where e = e])
qed

lemma linked_new:
  assumes "parent_ready nd k P"
  shows "linked k P (nd(k := x)) k = x\<lparr>xml_parent := P\<rparr> \<or> (P = None \<and> linked k P (nd(k := x)) k = x)"
  using assms
proof (cases rule: parent_cases)
  case (further p e)
  then show ?thesis by (auto simp: linked_def Let_def)
qed (simp_all add: linked_def Let_def)

text \<open>What the parser has done when it has passed a tree or a list of trees below a parent.\<close>

definition back_to :: "nat \<Rightarrow> nat option \<Rightarrow> nat option" where
  "back_to k P = (case P of None \<Rightarrow> Some k | Some p \<Rightarrow> Some p)"

definition tree_parsed :: "xtree \<Rightarrow> u8 list \<Rightarrow> u8 list \<Rightarrow> (nat \<Rightarrow> xml_node_t) \<Rightarrow> nat \<Rightarrow> nat option \<Rightarrow> nat option list \<Rightarrow> nat \<Rightarrow> nat option \<Rightarrow> bool" where
  "tree_parsed t d rest nd k c v m P \<longleftrightarrow>
     (\<exists>e nd' v'. parser_from (state_at d (print_tree t @ rest) nd k c v m P) =
         parser_from (state_at (d @ e) rest nd' (k + nodes_of t) None v' m (back_to k P)) \<and>
       length v' = 128 \<and> take m v' = take m v \<and> rep (d @ e) nd' t k \<and> xml_right (nd' k) = None \<and> (\<forall>j<k. nd' j = linked k P nd j))"

definition trees_parsed :: "xtree list \<Rightarrow> u8 list \<Rightarrow> u8 list \<Rightarrow> (nat \<Rightarrow> xml_node_t) \<Rightarrow> nat \<Rightarrow> nat option \<Rightarrow> nat option list \<Rightarrow> nat \<Rightarrow> nat \<Rightarrow> bool" where
  "trees_parsed ks d rest nd k c v m p \<longleftrightarrow>
     (\<exists>e nd' v' x. parser_from (state_at d (print_trees ks @ rest) nd k c v m (Some p)) =
         parser_from (state_at (d @ e) rest nd' (k + nodes_in ks) None v' m (Some p)) \<and>
       length v' = 128 \<and> take m v' = take m v \<and> reps (d @ e) nd' ks k \<and> (\<forall>j<k. j \<noteq> p \<longrightarrow> nd' j = linked k (Some p) nd j) \<and>
       nd' p = (linked k (Some p) nd p)\<lparr>child_end := x\<rparr>)"

lemma back_to_parent:
  assumes "parent_ready nd k P" "xml_parent x = None"
  shows "parent_of (linked k P (nd(k := x))) k = back_to k P"
  using linked_new [OF assms(1), of x] assms(2) by (auto simp: parent_of_def back_to_def split: option.splits)

lemma leaf_parsed:
  assumes "tag_ok t" "text_ok x" "rest \<noteq> []" "k < MAX_XML_NODES" "m < 128" "length v = 128" "parent_ready nd k P"
  shows "tree_parsed (Leaf t x) d rest nd k c v m P"
proof -
  have z: "0 \<notin> set t" "0 \<notin> set x" "60 \<notin> set x" using assms(1,2) by (auto simp: tag_ok_def text_ok_def)
  let ?d = "d @ 60 # t @ [0]" and ?nd = "linked k P (nd(k := fresh (length d + 1)))" and ?v = "v[m := Some (length d + 1)]"
  let ?b = "length d + length t + 2" and ?e = "60 # t @ 0 # x @ 0 # 47 # t @ [0]"
  have tag: "str_in (d @ 60 # t @ 0 # y) (length d + 1) t" for y using str_in_here [OF z(1), of "d @ [60]" y] by simp
  have tx: "str_in (d @ ?e) ?b x" using str_in_here [OF z(2), of ?d "47 # t @ [0]"] by simp
  have "parser_from (state_at d (print_tree (Leaf t x) @ rest) nd k c v m P) =
      parser_from (state_at ?d (x @ close_tag t @ rest) ?nd (k + 1) (Some ?b) ?v (Suc m) (Some k))"
    using parser_open [OF assms(1) _ assms(4-6), of "x @ close_tag t @ rest"] by (simp add: close_tag_def)
  also have "\<dots> = parser_from (state_at (?d @ x) (close_tag t @ rest) ?nd (k + 1) (Some ?b) ?v (Suc m) (Some k))"
    by (rule parser_text) (use z in \<open>simp_all add: close_tag_def\<close>)
  also have "\<dots> = parser_from (state_at (d @ ?e) rest (closed (Some ?b) k ?nd) (k + 1) None ?v m (parent_of ?nd k))"
    by (subst parser_close [where q = "length d + 1"]) (use assms tag [of x] in simp_all)
  also have "parent_of ?nd k = back_to k P" by (rule back_to_parent [OF assms(7)]) (simp add: fresh_def empty_node_def)
  finally have run: "parser_from (state_at d (print_tree (Leaf t x) @ rest) nd k c v m P) =
      parser_from (state_at (d @ ?e) rest (closed (Some ?b) k ?nd) (k + 1) None ?v m (back_to k P))" .
  have k: "xml_tag (?nd k) = Some (length d + 1)" "child_start (?nd k) = None" "xml_right (?nd k) = None"
    using linked_new [OF assms(7), of "fresh (length d + 1)"] by (auto simp: fresh_def empty_node_def)
  have "rep (d @ ?e) (closed (Some ?b) k ?nd) (Leaf t x) k"
    using k tag [of "x @ 0 # 47 # t @ [0]"] tx by (simp add: closed_def has_str_def)
  moreover have "\<forall>j<k. closed (Some ?b) k ?nd j = linked k P nd j"
    using linked_below [OF assms(7)] by (simp add: closed_def)
  ultimately show ?thesis unfolding tree_parsed_def
    using run k(3) assms(6) by (intro exI [of _ ?e] exI [of _ "closed (Some ?b) k ?nd"] exI [of _ ?v]) (simp add: closed_def)
qed

lemma branch_parsed:
  assumes "tag_ok t" "ks \<noteq> []" "rest \<noteq> []" "k < MAX_XML_NODES" "m < 128" "length v = 128" "parent_ready nd k P"
    and kids: "\<And>d rest nd c v. rest \<noteq> [] \<Longrightarrow> length v = 128 \<Longrightarrow> parent_ready nd (k + 1) (Some k) \<Longrightarrow>
      trees_parsed ks d rest nd (k + 1) c v (Suc m) k"
  shows "tree_parsed (Branch t ks) d rest nd k c v m P"
proof -
  have z: "0 \<notin> set t" using assms(1) by (auto simp: tag_ok_def)
  let ?d = "d @ 60 # t @ [0]" and ?nd = "linked k P (nd(k := fresh (length d + 1)))" and ?v = "v[m := Some (length d + 1)]"
  let ?b = "length d + length t + 2"
  have k: "xml_tag (?nd k) = Some (length d + 1)" "child_start (?nd k) = None" "xml_right (?nd k) = None" "xml_content (?nd k) = None"
    using linked_new [OF assms(7), of "fresh (length d + 1)"] by (auto simp: fresh_def empty_node_def)
  have tag: "str_in ?d (length d + 1) t" using str_in_here [OF z, of "d @ [60]" "[]"] by simp
  obtain e nd' v' x where r: "parser_from (state_at ?d (print_trees ks @ close_tag t @ rest) ?nd (k + 1) (Some ?b) ?v (Suc m) (Some k)) =
       parser_from (state_at (?d @ e) (close_tag t @ rest) nd' (k + 1 + nodes_in ks) None v' (Suc m) (Some k))"
    and v': "length v' = 128" "take (Suc m) v' = take (Suc m) ?v" and kids': "reps (?d @ e) nd' ks (k + 1)"
    and nd': "\<forall>j<k + 1. j \<noteq> k \<longrightarrow> nd' j = linked (k + 1) (Some k) ?nd j" "nd' k = (linked (k + 1) (Some k) ?nd k)\<lparr>child_end := x\<rparr>"
    using kids [of "close_tag t @ rest" ?v ?nd ?d "Some ?b"] assms(6) k(2)
    unfolding trees_parsed_def by (auto simp: parent_ready_def close_tag_def)
  have below: "nd' j = ?nd j" if "j < k" for j using nd'(1) that k(2) by (simp add: linked_first)
  have kn: "nd' k = (?nd k)\<lparr>child_start := Some (k + 1), child_end := x\<rparr>" using nd'(2) k(2) by (simp add: linked_first)
  have top: "v' ! m = Some (length d + 1)" using v' assms(5,6) by (metis lessI nth_list_update_eq nth_take)
  have tk: "take m v' = take m v" using v'(2) assms(5,6) by (metis min.absorb1 nat_le_linear not_less_eq_eq take_take take_update_cancel)
  let ?e = "60 # t @ 0 # e @ 60 # 47 # t @ [0]"
  have "parser_from (state_at d (print_tree (Branch t ks) @ rest) nd k c v m P) =
      parser_from (state_at ?d (print_trees ks @ close_tag t @ rest) ?nd (k + 1) (Some ?b) ?v (Suc m) (Some k))"
    using parser_open [OF assms(1) _ assms(4-6), of "print_trees ks @ close_tag t @ rest"] by (simp add: close_tag_def)
  also note r
  also have "parser_from (state_at (?d @ e) (close_tag t @ rest) nd' (k + 1 + nodes_in ks) None v' (Suc m) (Some k)) =
      parser_from (state_at (d @ ?e) rest nd' (k + 1 + nodes_in ks) None v' m (parent_of nd' k))"
    using assms(1,3,5) v'(1) top str_in_append [OF tag, of e] by (subst parser_close [where q = "length d + 1"]) (simp_all add: closed_def)
  also have "parent_of nd' k = back_to k P"
    using back_to_parent [OF assms(7), of "fresh (length d + 1)"] kn by (simp add: parent_of_def fresh_def empty_node_def)
  finally have run: "parser_from (state_at d (print_tree (Branch t ks) @ rest) nd k c v m P) =
      parser_from (state_at (d @ ?e) rest nd' (k + nodes_of (Branch t ks)) None v' m (back_to k P))" by simp
  have "rep (d @ ?e) nd' (Branch t ks) k"
    using kn k rep_frame(2) [OF kids', of nd' "60 # 47 # t @ [0]"] str_in_append [OF tag, of "e @ 60 # 47 # t @ [0]"] by (simp add: has_str_def)
  moreover have "xml_right (nd' k) = None" using kn k by simp
  moreover have "\<forall>j<k. nd' j = linked k P nd j" using below linked_below [OF assms(7)] by simp
  ultimately show ?thesis unfolding tree_parsed_def using run v'(1) tk by blast
qed

lemma trees_parsed_Cons:
  assumes "tree_parsed k d (print_trees ks @ rest) nd i c v m (Some p)" and ready: "parent_ready nd i (Some p)"
    and more: "\<And>d nd v. ks \<noteq> [] \<Longrightarrow> length v = 128 \<Longrightarrow> parent_ready nd (i + nodes_of k) (Some p) \<Longrightarrow>
      trees_parsed ks d rest nd (i + nodes_of k) None v m p"
  shows "trees_parsed (k # ks) d rest nd i c v m p"
proof -
  obtain e nd1 v1 where r1: "parser_from (state_at d (print_tree k @ print_trees ks @ rest) nd i c v m (Some p)) =
        parser_from (state_at (d @ e) (print_trees ks @ rest) nd1 (i + nodes_of k) None v1 m (Some p))"
    and v1: "length v1 = 128" "take m v1 = take m v" and k: "rep (d @ e) nd1 k i" "xml_right (nd1 i) = None"
    and nd1: "\<forall>j<i. nd1 j = linked i (Some p) nd j"
    using assms(1) by (auto simp: tree_parsed_def back_to_def)
  show ?thesis
  proof (cases "ks = []")
    case True
    have "p < i" using ready by (simp add: parent_ready_def)
    then have "nd1 p = (linked i (Some p) nd p)\<lparr>child_end := child_end (nd1 p)\<rparr>" using nd1 by simp
    then show ?thesis using True r1 v1 k nd1 unfolding trees_parsed_def by auto
  next
    case False
    let ?i = "i + nodes_of k"
    have p: "p < i" "child_start (nd1 p) \<noteq> None" "child_end (nd1 p) = Some i" "i < ?i"
      using ready
      by (cases rule: parent_cases; use nd1 nodes_of_pos in \<open>auto simp: linked_first linked_next\<close>)+
    then have "parent_ready nd1 ?i (Some p)" by (auto simp: parent_ready_def)
    from more [OF False v1(1) this, of "d @ e"] obtain e2 nd2 v2 x where
      r2: "parser_from (state_at (d @ e) (print_trees ks @ rest) nd1 ?i None v1 m (Some p)) =
        parser_from (state_at (d @ e @ e2) rest nd2 (?i + nodes_in ks) None v2 m (Some p))"
      and v2: "length v2 = 128" "take m v2 = take m v1" and ks: "reps (d @ e @ e2) nd2 ks ?i"
      and nd2: "\<forall>j<?i. j \<noteq> p \<longrightarrow> nd2 j = linked ?i (Some p) nd1 j" "nd2 p = (linked ?i (Some p) nd1 p)\<lparr>child_end := x\<rparr>"
      by (auto simp: trees_parsed_def)
    have l: "linked ?i (Some p) nd1 j =
        (if j = p then (nd1 p)\<lparr>child_end := Some ?i\<rparr> else if j = i then (nd1 i)\<lparr>xml_right := Some ?i\<rparr> else nd1 j)" if "j < ?i" for j
      using p that by (intro linked_next) simp_all
    have at: "nd2 i = (nd1 i)\<lparr>xml_right := Some ?i\<rparr>" "\<forall>j. i < j \<and> j < ?i \<longrightarrow> nd2 j = nd1 j"
      using nd2(1) l p by simp_all
    have "rep (d @ e @ e2) nd2 k i" using rep_frame(1) [OF k(1) at, of e2] by simp
    then have "reps (d @ e @ e2) nd2 (k # ks) i" using ks at(1) False by simp
    moreover have "\<forall>j<i. j \<noteq> p \<longrightarrow> nd2 j = linked i (Some p) nd j" using nd2(1) l nd1 p by auto
    moreover have "nd2 p = (linked i (Some p) nd p)\<lparr>child_end := x\<rparr>" using nd2(2) l [of p] nd1 p by simp
    moreover have "parser_from (state_at d (print_trees (k # ks) @ rest) nd i c v m (Some p)) =
        parser_from (state_at (d @ e @ e2) rest nd2 (i + nodes_in (k # ks)) None v2 m (Some p))"
      using r1 r2 by (simp add: add.assoc)
    ultimately show ?thesis unfolding trees_parsed_def using v1 v2 by (intro exI [of _ "e @ e2"] exI [of _ nd2] exI [of _ v2] exI [of _ x]) simp
  qed
qed

lemma document_parsed:
  "doc_ok t \<Longrightarrow> rest \<noteq> [] \<Longrightarrow> i + nodes_of t \<le> MAX_XML_NODES \<Longrightarrow> m + depth_of t \<le> 128 \<Longrightarrow> length v = 128 \<Longrightarrow>
    parent_ready nd i P \<Longrightarrow> tree_parsed t d rest nd i c v m P"
  "docs_ok ks \<Longrightarrow> ks \<noteq> [] \<Longrightarrow> rest \<noteq> [] \<Longrightarrow> i + nodes_in ks \<le> MAX_XML_NODES \<Longrightarrow> m + depth_in ks \<le> 128 \<Longrightarrow> length v = 128 \<Longrightarrow>
    parent_ready nd i (Some p) \<Longrightarrow> trees_parsed ks d rest nd i c v m p"
proof (induction t and ks arbitrary: rest i m v nd P d c and rest i m v nd p d c rule: nodes_of_nodes_in.induct)
  case (1 t x)
  then show ?case by (intro leaf_parsed) auto
next
  case (2 t ks)
  show ?case
  proof (rule branch_parsed)
    show "trees_parsed ks d' rest' nd' (i + 1) c' v' (Suc m) i"
      if "rest' \<noteq> []" "length v' = 128" "parent_ready nd' (i + 1) (Some i)" for d' rest' nd' c' v'
      by (rule 2(1)) (use 2(2-) that in auto)
  qed (use 2(2-) in auto)
next
  case 3
  then show ?case by simp
next
  case (4 k ks)
  show ?case
  proof (rule trees_parsed_Cons)
    show "tree_parsed k d (print_trees ks @ rest) nd i c v m (Some p)" by (rule 4(1)) (use 4(3-) in auto)
    show "trees_parsed ks d' rest nd' (i + nodes_of k) None v' m p"
      if "ks \<noteq> []" "length v' = 128" "parent_ready nd' (i + nodes_of k) (Some p)" for d' nd' v'
      by (rule 4(2)) (use 4(3-) that in auto)
  qed (use 4 in simp)
qed

lemma parse_end:
  assumes "void_ptr_stack_init raw = Inr (stack_at v 0)"
    and "parser_from (state_at [] (src @ [0]) (xml_nodes h) 0 None v 0 None) = parser_from (state_at d [0] nd n c w m P)"
  shows "parse_xml raw (xml_heap_init src h) = Some (Inr (1, doc_heap d [0] nd n c))"
proof -
  have "Go \<lparr>run_heap = xml_heap_init src h, run_stack = stack_at v 0, parent_node = None\<rparr> =
      state_at [] (src @ [0]) (xml_nodes h) 0 None v 0 None"
    by (cases h) (simp add: state_at_def xml_heap_init_def doc_heap_def)
  moreover have "parser_from (state_at d [0] nd n c w m P) = Some (state_at d [0] nd n c w m P)"
    by (subst while_option_unfold) (simp add: going_end)
  ultimately show ?thesis using assms by (simp add: parse_xml_def state_at_def)
qed

lemma stack_init:
  assumes "vstack_ptr raw < 128" "length (vstack raw) = 128"
  shows "\<exists>v. void_ptr_stack_init raw = Inr (stack_at v 0) \<and> length v = 128"
proof -
  have "unat (vstack_ptr raw) < length (vstack raw)" using assms by (simp add: word_less_nat_alt)
  then show ?thesis using assms by (cases raw) (auto simp: void_ptr_stack_init_def arr_set_def in_array_def unat_less_uint stack_at_def)
qed

section \<open>Documents read back\<close>

lemma document_read:
  assumes "vstack_ptr raw < 128" "length (vstack raw) = 128" "doc_ok t" "text_ok tail"
    and "nodes_of t \<le> MAX_XML_NODES" "depth_of t \<le> 128"
  shows "\<exists>h'. parse_xml raw (xml_heap_init (print_tree t @ tail) h) = Some (Inr (1, h')) \<and> rep (xml_source h') (xml_nodes h') t 0 \<and>
    xml_right (xml_nodes h' 0) = None"
proof -
  obtain v where v: "void_ptr_stack_init raw = Inr (stack_at v 0)" "length v = 128" using stack_init [OF assms(1,2)] by blast
  have "parent_ready (xml_nodes h) 0 None" by (simp add: parent_ready_def)
  from document_parsed(1) [OF assms(3) _ _ _ v(2) this, of "tail @ [0]" 0 "[]" None] assms(5,6)
  obtain e nd w where e: "parser_from (state_at [] ((print_tree t @ tail) @ [0]) (xml_nodes h) 0 None v 0 None) =
      parser_from (state_at e (tail @ [0]) nd (nodes_of t) None w 0 (Some 0))" "rep e nd t 0" "xml_right (nd 0) = None"
    by (auto simp: tree_parsed_def back_to_def)
  note e(1)
  also have "parser_from (state_at e (tail @ [0]) nd (nodes_of t) None w 0 (Some 0)) = parser_from (state_at (e @ tail) [0] nd (nodes_of t) None w 0 (Some 0))"
    by (rule parser_text) (use assms(4) in \<open>auto simp: text_ok_def\<close>)
  finally have "parse_xml raw (xml_heap_init (print_tree t @ tail) h) = Some (Inr (1, doc_heap (e @ tail) [0] nd (nodes_of t) None))"
    by (rule parse_end [OF v(1)])
  moreover have "rep (e @ tail @ [0]) nd t 0" by (rule rep_frame(1) [OF e(2), where r = "xml_right (nd 0)"]) simp_all
  ultimately show ?thesis using e(3) by auto
qed

text \<open>C32: parsing the printed form of any document tree that is at most 128 elements deep and fits the node table succeeds, and
  the nodes hold exactly that tree: tags, texts, and the order and nesting of the elements.\<close>

theorem parse_xml_roundtrip:
  assumes "vstack_ptr raw < 128" "length (vstack raw) = 128" "doc_ok t" "text_ok tail"
    and "nodes_of t \<le> MAX_XML_NODES" "depth_of t \<le> 128"
  shows "\<exists>h'. parse_xml raw (xml_heap_init (print_tree t @ tail) h) = Some (Inr (1, h')) \<and> rep (xml_source h') (xml_nodes h') t 0"
  using document_read [OF assms] by blast

text \<open>A small document with nested elements of the same name.\<close>

definition demo_doc :: xtree where
  "demo_doc = Branch [112] [Leaf [97] [32, 51, 32], Branch [98] [Leaf [97] []]]"

theorem parse_xml_roundtrip_witness:
  "vstack_ptr demo_raw_stack < 128 \<and> doc_ok demo_doc \<and> nodes_of demo_doc = 4 \<and>
    (\<exists>h'. parse_xml demo_raw_stack (xml_heap_init (print_tree demo_doc @ [10]) demo_xml) = Some (Inr (1, h')) \<and>
      rep (xml_source h') (xml_nodes h') demo_doc 0)"
proof -
  have "vstack_ptr demo_raw_stack < 128" "length (vstack demo_raw_stack) = 128" by (simp_all add: demo_raw_stack_def)
  moreover have "doc_ok demo_doc" "text_ok [10]" "nodes_of demo_doc = 4" "depth_of demo_doc = 3"
    by (simp_all add: demo_doc_def tag_ok_def text_ok_def)
  ultimately show ?thesis
    using parse_xml_roundtrip [where raw = demo_raw_stack and t = demo_doc and tail = "[10]" and h = demo_xml] by (simp add: MAX_XML_NODES_def)
qed

section \<open>Path queries on documents\<close>

fun kids :: "xtree \<Rightarrow> xtree list" where
  "kids (Leaf t c) = []"
| "kids (Branch t ks) = ks"

fun first_with :: "u8 list \<Rightarrow> xtree list \<Rightarrow> nat \<Rightarrow> (xtree \<times> nat) option" where
  "first_with tg [] i = None"
| "first_with tg (k # ks) i = (if root_tag k = tg then Some (k, i) else first_with tg ks (i + nodes_of k))"

fun find_path :: "u8 list list \<Rightarrow> (xtree \<times> nat) option \<Rightarrow> (xtree \<times> nat) option" where
  "find_path [] r = r"
| "find_path (tg # ps) r = (case r of None \<Rightarrow> None | Some (t, i) \<Rightarrow> find_path ps (first_with tg (kids t) (i + 1)))"

text \<open>The reference: all elements a path leads to, with the numbers of their nodes; \<^const>\<open>find_path\<close> follows the code,
  which takes the first child with the tag at each step and does not come back to try another one.\<close>

fun matching :: "u8 list \<Rightarrow> xtree list \<Rightarrow> nat \<Rightarrow> (xtree \<times> nat) list" where
  "matching tg [] i = []"
| "matching tg (k # ks) i = (if root_tag k = tg then [(k, i)] else []) @ matching tg ks (i + nodes_of k)"

fun on_path :: "u8 list list \<Rightarrow> (xtree \<times> nat) list \<Rightarrow> (xtree \<times> nat) list" where
  "on_path [] rs = rs"
| "on_path (tg # ps) rs = on_path ps (concat (map (\<lambda>(t, i). matching tg (kids t) (i + 1)) rs))"

fun unique_tags :: "xtree \<Rightarrow> bool" and all_unique :: "xtree list \<Rightarrow> bool" where
  "unique_tags (Leaf t c) = True"
| "unique_tags (Branch t ks) = (distinct (map root_tag ks) \<and> all_unique ks)"
| "all_unique [] = True"
| "all_unique (k # ks) = (unique_tags k \<and> all_unique ks)"

lemma first_with_matching: "first_with tg ks i = (case matching tg ks i of [] \<Rightarrow> None | r # _ \<Rightarrow> Some r)"
  by (induction ks arbitrary: i) auto

lemma find_path_None: "find_path ps None = None"
  by (cases ps) simp_all

lemma on_path_Nil: "on_path ps [] = []"
  by (induction ps) simp_all

lemma matching_none: "tg \<notin> root_tag ` set ks \<Longrightarrow> matching tg ks i = []"
  by (induction ks arbitrary: i) auto

lemma on_path_mono: "set rs \<subseteq> set rs' \<Longrightarrow> set (on_path ps rs) \<subseteq> set (on_path ps rs')"
proof (induction ps arbitrary: rs rs')
  case (Cons p ps)
  have "set (concat (map (\<lambda>(t, i). matching p (kids t) (i + 1)) rs)) \<subseteq> set (concat (map (\<lambda>(t, i). matching p (kids t) (i + 1)) rs'))"
    using Cons.prems by auto
  from Cons.IH [OF this] show ?case by simp
qed simp

lemma find_path_on_path: "find_path ps r = Some x \<Longrightarrow> r = Some a \<Longrightarrow> x \<in> set (on_path ps [a])"
proof (induction ps arbitrary: r a)
  case (Cons p ps)
  obtain t i where a: "a = (t, i)" by (cases a)
  then have f: "find_path ps (first_with p (kids t) (i + 1)) = Some x" using Cons.prems by simp
  then obtain b where b: "first_with p (kids t) (i + 1) = Some b"
    by (cases "first_with p (kids t) (i + 1)") (auto simp: find_path_None)
  then have "set [b] \<subseteq> set (matching p (kids t) (i + 1))" by (auto simp: first_with_matching split: list.splits)
  from on_path_mono [OF this, of ps] Cons.IH [OF f b] show ?case by (auto simp: a)
qed simp

lemma unique_matching:
  "distinct (map root_tag ks) \<Longrightarrow> matching tg ks i = (case first_with tg ks i of None \<Rightarrow> [] | Some r \<Rightarrow> [r])"
proof (induction ks arbitrary: i)
  case (Cons k ks)
  have "matching tg ks j = []" if "root_tag k = tg" for j
    using that Cons.prems by (simp add: matching_none)
  with Cons show ?case by auto
qed simp

lemma first_with_unique: "all_unique ks \<Longrightarrow> first_with tg ks i = Some (k, j) \<Longrightarrow> unique_tags k"
  by (induction ks arbitrary: i) (auto split: if_splits)

lemma unique_path:
  "unique_tags t \<Longrightarrow> on_path ps [(t, i)] = (case find_path ps (Some (t, i)) of None \<Rightarrow> [] | Some x \<Rightarrow> [x])"
proof (induction ps arbitrary: t i)
  case (Cons p ps)
  have k: "distinct (map root_tag (kids t))" "all_unique (kids t)" using Cons.prems by (cases t; simp)+
  show ?case
  proof (cases "first_with p (kids t) (i + 1)")
    case None
    then show ?thesis using unique_matching [OF k(1), of p "i + 1"] by (simp add: find_path_None on_path_Nil)
  next
    case (Some b)
    obtain k' j where b: "b = (k', j)" by (cases b)
    then have "unique_tags k'" using first_with_unique [OF k(2)] Some by blast
    from Cons.IH [OF this, of j] Some b show ?thesis using unique_matching [OF k(1), of p "i + 1"] by simp
  qed
qed simp

lemma rep_tag: "rep d nd t i \<Longrightarrow> has_str d (xml_tag (nd i)) (root_tag t)"
  by (cases t) simp_all

lemma has_str_the: "has_str d x t \<Longrightarrow> cstring d (the x) = t"
  by (auto simp: has_str_def str_in_def split: option.splits)

lemma getXMLNode_step:
  "getXMLNode h None tg 0 = Some None"
  "getXMLNode h (Some i) tg 0 =
     (if cstring (xml_source h) (the (xml_tag (xml_nodes h i))) = tg then Some (Some i) else getXMLNode h (xml_right (xml_nodes h i)) tg 0)"
  unfolding getXMLNode_def Let_def strcmp_None by (subst while_option_unfold, simp)+

lemma getXMLNode_first:
  "reps (xml_source h) (xml_nodes h) ks i \<Longrightarrow>
    getXMLNode h (if ks = [] then None else Some i) tg 0 = Some (map_option snd (first_with tg ks i))"
proof (induction ks arbitrary: i)
  case (Cons k ks)
  have "cstring (xml_source h) (the (xml_tag (xml_nodes h i))) = root_tag k" using Cons.prems rep_tag has_str_the by auto
  then show ?case using Cons by (simp add: getXMLNode_step(2))
qed (simp add: getXMLNode_step)

lemma first_with_rep: "reps d nd ks i \<Longrightarrow> first_with tg ks i = Some (k, j) \<Longrightarrow> rep d nd k j"
  by (induction ks arbitrary: i) (auto split: if_splits)

definition item_of :: "u8 list \<Rightarrow> xquery_item_t" where
  "item_of tg = \<lparr>item_tag = tg, item_index = 0\<rparr>"

fun kids_listed :: "xtree \<Rightarrow> bool" and all_listed :: "xtree list \<Rightarrow> bool" where
  "kids_listed (Leaf t c) = True"
| "kids_listed (Branch t ks) = (ks \<noteq> [] \<and> all_listed ks)"
| "all_listed [] = True"
| "all_listed (k # ks) = (kids_listed k \<and> all_listed ks)"

lemma doc_listed: "doc_ok t \<Longrightarrow> kids_listed t" "docs_ok ks \<Longrightarrow> all_listed ks"
  by (induction t and ks rule: nodes_of_nodes_in.induct) auto

lemma first_with_listed: "all_listed ks \<Longrightarrow> first_with tg ks i = Some (k, j) \<Longrightarrow> kids_listed k"
  by (induction ks arbitrary: i) (auto split: if_splits)

lemma follow_finds:
  assumes "\<forall>t i. r = Some (t, i) \<longrightarrow> rep (xml_source h) (xml_nodes h) t i \<and> kids_listed t"
  shows "follow h (map item_of ps) (map_option snd r) = Some (map_option snd (find_path ps r)) \<and>
    (\<forall>t i. find_path ps r = Some (t, i) \<longrightarrow> rep (xml_source h) (xml_nodes h) t i)"
  using assms
proof (induction ps arbitrary: r)
  case (Cons p ps)
  show ?case
  proof (cases r)
    case (Some a)
    obtain t i where a: "a = (t, i)" by (cases a)
    then have t: "rep (xml_source h) (xml_nodes h) t i" "kids_listed t" using Cons.prems Some by auto
    have k: "reps (xml_source h) (xml_nodes h) (kids t) (i + 1)" "child_start (xml_nodes h i) = (if kids t = [] then None else Some (i + 1))"
      "all_listed (kids t)" using t by (cases t; simp)+
    have "getXMLNode h (child_start (xml_nodes h i)) p 0 = Some (map_option snd (first_with p (kids t) (i + 1)))"
      using getXMLNode_first [OF k(1)] k(2) by simp
    then have f: "follow h (map item_of (p # ps)) (map_option snd r) = follow h (map item_of ps) (map_option snd (first_with p (kids t) (i + 1)))"
      using Some a by (simp add: item_of_def)
    have "\<forall>t' i'. first_with p (kids t) (i + 1) = Some (t', i') \<longrightarrow> rep (xml_source h) (xml_nodes h) t' i' \<and> kids_listed t'"
      using first_with_rep [OF k(1)] first_with_listed [OF k(3)] by blast
    note ih = Cons.IH [OF this]
    have "find_path (p # ps) r = find_path ps (first_with p (kids t) (i + 1))" using Some a by simp
    then show ?thesis using ih unfolding f by (simp only:) blast
  qed simp
qed simp

text \<open>Paths without an index: the items of the query are the pieces of the path.\<close>

definition piece_ok :: "u8 list \<Rightarrow> bool" where
  "piece_ok p \<longleftrightarrow> length p < MAX_XQUERY_TAG_NAME \<and> 91 \<notin> set p"

lemma scanc_absent: "c \<notin> set s \<Longrightarrow> scanc c s = None"
  by (induction s) auto

lemma parse_items_pieces:
  assumes "list_all piece_ok ps" "length (xquery_items q) = 32" "unat (items_count q) + length ps \<le> 32"
  shows "\<exists>q'. parse_items ps q = Inr q' \<and> unat (items_count q') = unat (items_count q) + length ps \<and>
    take (unat (items_count q) + length ps) (xquery_items q') = take (unat (items_count q)) (xquery_items q) @ map item_of ps"
  using assms
proof (induction ps arbitrary: q)
  case (Cons p ps)
  let ?n = "unat (items_count q)"
  let ?q = "q\<lparr>xquery_items := (xquery_items q)[?n := item_of p], items_count := items_count q + 1\<rparr>"
  have n: "?n < 32" "unat (items_count q + 1) = ?n + 1" using Cons.prems(3) unat_add_no_wrap [of "items_count q" 1] by simp_all
  have u: "arr_set (xquery_items q) (uint (items_count q)) x = Inr ((xquery_items q)[?n := x])" for x
    using n(1) Cons.prems(2) by (simp add: arr_set_def in_array_def unat_less_uint)
  have p: "length p < MAX_XQUERY_TAG_NAME" "scanc 91 p = None" using Cons.prems(1) by (simp_all add: piece_ok_def scanc_absent)
  have "parse_xquery_item p q = Inr ?q"
    using n(1) Cons.prems(2) p u by (simp add: parse_xquery_item_def add_item_def item_of_def)
  moreover from Cons.IH [of ?q] Cons.prems n obtain q' where "parse_items ps ?q = Inr q'" "unat (items_count q') = ?n + 1 + length ps"
    "take (?n + 1 + length ps) (xquery_items q') = take (?n + 1) ((xquery_items q)[?n := item_of p]) @ map item_of ps" by auto
  moreover have "take (?n + 1) ((xquery_items q)[?n := item_of p]) = take ?n (xquery_items q) @ [item_of p]"
    using n(1) Cons.prems(2) by (simp add: take_Suc_conv_app_nth)
  ultimately show ?case by simp
qed simp

lemma query_document:
  assumes "rep (xml_source h) (xml_nodes h) t 0" "doc_ok t" "xml_right (xml_nodes h 0) = None"
    and "split_path [] q = p # ps" "list_all piece_ok (p # ps)" "length ps < 32" "length q < 1024" "length (xquery_items raw) = 32"
  shows "exec_xquery raw q h = Some (Inr (map_option snd (find_path ps (first_with p [t] 0)))) \<and>
    (\<forall>k j. find_path ps (first_with p [t] 0) = Some (k, j) \<longrightarrow> rep (xml_source h) (xml_nodes h) k j)"
proof -
  obtain q' where q': "parse_items (p # ps) (raw\<lparr>items_count := 0\<rparr>) = Inr q'" "unat (items_count q') = length (p # ps)"
    "take (length (p # ps)) (xquery_items q') = map item_of (p # ps)"
    using parse_items_pieces [OF assms(5), of "raw\<lparr>items_count := 0\<rparr>"] assms(6,8) by auto
  have "reps (xml_source h) (xml_nodes h) [t] 0" using assms(1,3) by simp
  from getXMLNode_first [OF this] first_with_rep [OF this]
  have f: "getXMLNode h (Some 0) p 0 = Some (map_option snd (first_with p [t] 0))"
    "\<forall>k j. first_with p [t] 0 = Some (k, j) \<longrightarrow> rep (xml_source h) (xml_nodes h) k j \<and> kids_listed k"
    using doc_listed(1) [OF assms(2)] by auto
  have "xquery_items q' ! 0 = item_of p" using q'(3) by (cases "xquery_items q'") auto
  moreover have "drop 1 (take (unat (items_count q')) (xquery_items q')) = map item_of ps" unfolding q'(2,3) by simp
  ultimately show ?thesis using assms(4,7) q'(1) f(1) follow_finds [OF f(2), of ps]
    by (simp add: exec_xquery_def item_of_def del: first_with.simps)
qed

text \<open>C33: a path query on nodes that hold a document returns. It descends greedily: at each step it takes the first child with
  the tag, so what it finds is an element the path leads to, and the node returned holds it. When no two siblings of the
  document share a tag, it finds the one element of the path, and \<open>NULL\<close> means that there is none. With repeated tags
  \<open>NULL\<close> can be returned although another branch has the element (\<open>query_misses_element\<close>).\<close>

theorem xquery_finds_path:
  assumes "rep (xml_source h) (xml_nodes h) t 0" "doc_ok t" "xml_right (xml_nodes h 0) = None"
    and "split_path [] q = p # ps" "list_all piece_ok (p # ps)" "length ps < 32" "length q < 1024" "length (xquery_items raw) = 32"
  shows "\<exists>r. exec_xquery raw q h = Some (Inr (map_option snd r)) \<and> r = find_path ps (first_with p [t] 0) \<and>
    (\<forall>k j. r = Some (k, j) \<longrightarrow> rep (xml_source h) (xml_nodes h) k j \<and> (k, j) \<in> set (on_path ps (matching p [t] 0))) \<and>
    (unique_tags t \<longrightarrow> on_path ps (matching p [t] 0) = (case r of None \<Rightarrow> [] | Some x \<Rightarrow> [x]))"
proof -
  let ?r = "find_path ps (first_with p [t] 0)"
  have "(k, j) \<in> set (on_path ps (matching p [t] 0))" if "?r = Some (k, j)" for k j
    using that find_path_on_path [of ps "first_with p [t] 0"] by (simp add: find_path_None split: if_splits)
  moreover have "on_path ps (matching p [t] 0) = (case ?r of None \<Rightarrow> [] | Some x \<Rightarrow> [x])" if "unique_tags t"
    using unique_path [OF that, of ps 0] by (simp add: find_path_None on_path_Nil)
  ultimately show ?thesis using query_document [OF assms] by blast
qed

text \<open>In the document \<open><p><a><c></c></a><a><b></b></a></p>\<close> the path \<open>p/a/b\<close> leads to an element, and the query finds none.\<close>

lemma query_misses_element:
  "find_path [[97], [98]] (first_with [112] [Branch [112] [Branch [97] [Leaf [99] []], Branch [97] [Leaf [98] []]]] 0) = None"
  "on_path [[97], [98]] (matching [112] [Branch [112] [Branch [97] [Leaf [99] []], Branch [97] [Leaf [98] []]]] 0) = [(Leaf [98] [], 4)]"
  by simp_all

definition demo_query :: xquery_t where
  "demo_query = \<lparr>xquery_items = replicate 32 (item_of []), items_count = 9\<rparr>"

theorem xquery_finds_path_witness:
  "\<exists>h. rep (xml_source h) (xml_nodes h) demo_doc 0 \<and> xml_right (xml_nodes h 0) = None \<and>
    exec_xquery demo_query [112, 47, 98, 47, 97] h = Some (Inr (Some 3)) \<and> exec_xquery demo_query [112, 47, 99] h = Some (Inr None)"
proof -
  have "vstack_ptr demo_raw_stack < 128" "length (vstack demo_raw_stack) = 128" by (simp_all add: demo_raw_stack_def)
  moreover have ok: "doc_ok demo_doc" "text_ok []" by (simp_all add: demo_doc_def tag_ok_def text_ok_def)
  moreover have "nodes_of demo_doc \<le> MAX_XML_NODES" "depth_of demo_doc \<le> 128" by (simp_all add: demo_doc_def MAX_XML_NODES_def)
  ultimately obtain h :: xml_heap_t where h: "rep (xml_source h) (xml_nodes h) demo_doc 0" "xml_right (xml_nodes h 0) = None"
    using document_read [of demo_raw_stack demo_doc "[]" demo_xml] by blast
  have "exec_xquery demo_query [112, 47, 98, 47, 97] h = Some (Inr (Some 3))"
    using xquery_finds_path [OF h(1) ok(1) h(2), of "[112, 47, 98, 47, 97]" "[112]" "[[98], [97]]" demo_query]
    by (simp add: piece_ok_def MAX_XQUERY_TAG_NAME_def demo_query_def demo_doc_def)
  moreover have "exec_xquery demo_query [112, 47, 99] h = Some (Inr None)"
    using xquery_finds_path [OF h(1) ok(1) h(2), of "[112, 47, 99]" "[112]" "[[99]]" demo_query]
    by (simp add: piece_ok_def MAX_XQUERY_TAG_NAME_def demo_query_def demo_doc_def)
  ultimately show ?thesis using h by blast
qed

end
