(* ===== verification/DiskWait.thy ===== *)
theory DiskWait
  imports AtaTransfer
begin

text \<open>
  The callers of the disk driver wait for a transfer in the same way: they start the read, clear the flag of the disk interrupt and
  halt until the flag is set or everything has been read (\<open>xml/XMLService.c\<close>, \<open>memory/BlockService.c\<close>). What happens while the
  core halts is a parameter \<open>wake\<close>: the state change of the \<open>k\<close>-th halt.
\<close>

section \<open>Waiting\<close>

definition READ_DMA_FAIL :: u8 where "READ_DMA_FAIL = 0x8"

lemma then_do_mono [partial_function_mono]:
  assumes "\<And>x. mono_option (\<lambda>f. C x f)"
  shows "mono_option (\<lambda>f. then_do r (\<lambda>x. C x f))"
proof -
  have "(\<lambda>f. then_do r (\<lambda>x. C x f)) = (\<lambda>f. case r of None \<Rightarrow> None | Some y \<Rightarrow> (case y of Inl e \<Rightarrow> Some (Inl e) | Inr x \<Rightarrow> C x f))"
    by (simp add: then_do_def fun_eq_iff split: option.splits sum.splits)
  then show ?thesis using assms
    by (cases r) (auto simp: monotone_def fun_ord_def flat_ord_def split: sum.splits)
qed

text \<open>\<open>while (readDMADisk(...) == READ_DMA_FAIL);\<close>\<close>

partial_function (option) read_retry :: "(ata_state \<Rightarrow> (u8 \<times> ata_state) result option) \<Rightarrow> ata_state \<Rightarrow> ata_state result option" where
  "read_retry f s = then_do (f s) (\<lambda>(r, s). if r = READ_DMA_FAIL then read_retry f s else Some (Inr s))"

definition fired :: "int \<Rightarrow> ata_state \<Rightarrow> u8 result" where
  "fired core s = and_then (arr_get (apics (at_apic s)) core) (\<lambda>a. arr_get (fired_interrupts a) (uint ATA_IPI))"

definition clear_fired :: "int \<Rightarrow> ata_state \<Rightarrow> ata_state result" where
  "clear_fired core s = and_then (arr_get (apics (at_apic s)) core) (\<lambda>a.
     and_then (arr_set (fired_interrupts a) (uint ATA_IPI) 0) (\<lambda>f.
       Inr (s\<lparr>at_apic := set_apic (nat core) (a\<lparr>fired_interrupts := f\<rparr>) (at_apic s)\<rparr>)))"

definition eoi_of :: "int \<Rightarrow> ata_state \<Rightarrow> ata_state result" where
  "eoi_of core s = and_then (arr_get (apics (at_apic s)) core) (\<lambda>a. Inr (s\<lparr>at_apic := on_bus (sendAPICEOI a) (at_apic s)\<rparr>))"

partial_function (option) await_ipi ::
    "(nat \<Rightarrow> ata_state \<Rightarrow> ata_state result option) \<Rightarrow> (ata_state \<Rightarrow> ata_state result) \<Rightarrow> int \<Rightarrow> nat \<Rightarrow> ata_state \<Rightarrow> ata_state result option" where
  "await_ipi wake eoi core k s = then_do (Some (fired core s)) (\<lambda>f.
     if f \<noteq> 0 then Some (Inr s)
     else then_do (wake k s) (\<lambda>s.
          then_do (Some (eoi s)) (\<lambda>s.
          if total_read (dmaBuffer s) = target_read (dmaBuffer s) then Some (Inr s)
          else await_ipi wake eoi core (k + 1) s)))"

definition enable_dma :: "ata_state \<Rightarrow> ata_state" where
  "enable_dma = on_buffer (\<lambda>b. b\<lparr>enabled := True, total_read := 0\<rparr>)"

definition disable_dma :: "ata_state \<Rightarrow> ata_state" where
  "disable_dma = on_buffer (enabled_update (\<lambda>_. False))"

text \<open>The whole of it: \<open>core\<close> is the core whose flag is awaited; core 0's flag is cleared at the end.\<close>

definition read_and_wait :: "ata_env \<Rightarrow> (nat \<Rightarrow> ata_state \<Rightarrow> ata_state result option) \<Rightarrow> (ata_state \<Rightarrow> ata_state result) \<Rightarrow> int \<Rightarrow>
    nat \<Rightarrow> u64 \<Rightarrow> u64 \<Rightarrow> u64 \<Rightarrow> ata_state \<Rightarrow> ata_state result option" where
  "read_and_wait env wake eoi core disk addr buf n s =
     then_do (read_retry (readDMADisk env disk addr buf n 0 0) (enable_dma s)) (\<lambda>s.
     then_do (Some (clear_fired core s)) (\<lambda>s.
     then_do (await_ipi wake eoi core 0 s) (\<lambda>s.
     then_do (Some (clear_fired 0 s)) (\<lambda>s.
     Some (Inr (disable_dma s))))))"

section \<open>A transfer that is waited for\<close>

text \<open>Every halt ends with the interrupt of the disk.\<close>

definition woken_by_disk :: "ata_env \<Rightarrow> (nat \<Rightarrow> ata_state \<Rightarrow> ata_state result option) \<Rightarrow> bool" where
  "woken_by_disk env wake \<longleftrightarrow> (\<forall>k. wake k = ataHandleInterrupt env IRQ14)"

text \<open>The end-of-interrupt touches the bus of the local controllers and the number of the current core only.\<close>

definition quiet_eoi :: "nat \<Rightarrow> (ata_state \<Rightarrow> ata_state result) \<Rightarrow> bool" where
  "quiet_eoi cores eoi \<longleftrightarrow> (\<forall>s. length (apics (at_apic s)) = cores \<longrightarrow>
     (\<exists>ap. eoi s = Inr (s\<lparr>at_apic := ap\<rparr>) \<and> apics ap = apics (at_apic s)))"

lemma quiet_eoiD: "quiet_eoi (length as) eoi \<Longrightarrow> apics (at_apic s) = as \<Longrightarrow> \<exists>ap. eoi s = Inr (s\<lparr>at_apic := ap\<rparr>) \<and> apics ap = as"
  unfolding quiet_eoi_def by metis

definition apics_ready :: "int \<Rightarrow> apic_state \<Rightarrow> bool" where
  "apics_ready core ap \<longleftrightarrow> in_array (apics ap) core \<and> 0 < length (apics ap) \<and> (\<forall>a\<in>set (apics ap). length (fired_interrupts a) = 256)"

lemma fired_ready: "apics_ready core ap \<Longrightarrow> at_apic s = ap \<Longrightarrow> \<exists>f. fired core s = Inr f"
  by (auto simp: fired_def apics_ready_def arr_get_def in_array_def ATA_IPI_def)

lemma clear_ready:
  assumes "apics_ready core (at_apic s)"
  shows "\<exists>ap. clear_fired core s = Inr (s\<lparr>at_apic := ap\<rparr>) \<and> apics_ready core ap \<and> length (apics ap) = length (apics (at_apic s)) \<and>
    fired core (s\<lparr>at_apic := ap\<rparr>) = Inr 0 \<and> map lapic_icr0 (apics ap) = map lapic_icr0 (apics (at_apic s))"
proof -
  let ?n = "nat core"
  let ?a = "apics (at_apic s) ! ?n"
  have n: "?n < length (apics (at_apic s))" "0 \<le> core" using assms by (auto simp: apics_ready_def in_array_def)
  then have l: "length (fired_interrupts ?a) = 256" using assms by (simp add: apics_ready_def)
  let ?ap = "set_apic ?n (?a\<lparr>fired_interrupts := (fired_interrupts ?a)[100 := 0]\<rparr>) (at_apic s)"
  have "clear_fired core s = Inr (s\<lparr>at_apic := ?ap\<rparr>)"
    using n l by (simp add: clear_fired_def arr_get_def arr_set_def in_array_def ATA_IPI_def)
  moreover have "apics_ready core ?ap"
    using assms l by (auto simp: apics_ready_def set_apic_def in_array_def dest!: set_update_subset_insert [THEN subsetD])
  moreover have "fired core (s\<lparr>at_apic := ?ap\<rparr>) = Inr 0"
    using n l by (simp add: fired_def set_apic_def arr_get_def in_array_def ATA_IPI_def)
  moreover have "map lapic_icr0 (apics ?ap) = map lapic_icr0 (apics (at_apic s))"
    using n by (simp add: set_apic_def map_update list_update_same_conv)
  ultimately show ?thesis using n by (auto simp: set_apic_def)
qed

lemma transferring_apic: "transferring env d data i addr buf n t (s\<lparr>at_apic := ap\<rparr>) = transferring env d data i addr buf n t s"
  by (simp add: transferring_def)

text \<open>What holds when the wait is over.\<close>

definition read_back :: "(nat \<Rightarrow> u8) \<Rightarrow> ATADisk \<Rightarrow> nat \<Rightarrow> u64 \<Rightarrow> u64 \<Rightarrow> nat \<Rightarrow> APIC list \<Rightarrow> spinlock_t \<Rightarrow> ata_state \<Rightarrow> ata_state \<Rightarrow> bool" where
  "read_back data d i addr buf n as lock s s' \<longleftrightarrow>
     (\<forall>j<512 * n. mem (at_io s') (buf + of_nat j) = data (512 * unat addr + j)) \<and> apics (at_apic s') = as \<and>
     b_spinlock (dmaBuffer s') = lock \<and> b_ataDisk (dmaBuffer s') = Some i \<and> length (ataDisks (ataManager s')) > i \<and>
     ataDisks (ataManager s') ! i = Some (d\<lparr>done_read := True\<rparr>)"

lemma await_ends:
  assumes g: "good_disk env d data" and r: "request_ok d addr buf n" and "clock_runs env" "woken_by_disk env wake"
    and e: "quiet_eoi (length as) eoi"
  defines "ch \<equiv> unat (dma_chunk (lba48 d))"
  shows "\<lbrakk>transferring env d data i addr buf n t s; k * ch < n - t; n - t \<le> Suc k * ch; apics (at_apic s) = as; fired core s = Inr 0;
      unat (b_core_id (dmaBuffer s)) < length as; ipi_delivered env (as ! unat (b_core_id (dmaBuffer s)))\<rbrakk> \<Longrightarrow>
    \<exists>s'. await_ipi wake eoi core j s = Some (Inr s') \<and> read_back data d i addr buf n as (b_spinlock (dmaBuffer s)) s s'"
proof (induction k arbitrary: s t j)
  case 0
  have "\<not> t + chunk_at d n t < n" using 0(3) by (simp add: chunk_at_def ch_def)
  from interrupt_finishes [OF g r 0(1) this assms(3) 0(7)] 0(4,6) obtain s1 b where
    s1: "ataHandleInterrupt env IRQ14 s = Some (Inr s1)" "complete env data i addr buf n (at_apic s) (as ! unat (b_core_id (dmaBuffer s))) s1"
    "dmaBuffer s1 = (dmaBuffer s)\<lparr>total_read := of_nat n, total_read_bytes := b\<rparr>" "apics (at_apic s1) = as"
    "ataDisks (ataManager s1) = (ataDisks (ataManager s))[i := Some (d\<lparr>done_read := True\<rparr>)]" by auto
  obtain ap where ap: "eoi s1 = Inr (s1\<lparr>at_apic := ap\<rparr>)" "apics ap = as" using quiet_eoiD [OF e s1(4)] by blast
  have x: "target_read (dmaBuffer s) = of_nat n" "i < length (ataDisks (ataManager s))" "b_ataDisk (dmaBuffer s) = Some i"
    using 0(1) by (simp_all add: transferring_def)
  have "await_ipi wake eoi core j s = Some (Inr (s1\<lparr>at_apic := ap\<rparr>))"
    using assms(4) 0(5) s1(1,3) ap(1) x(1) by (subst await_ipi.simps) (simp add: woken_by_disk_def)
  moreover have "read_back data d i addr buf n as (b_spinlock (dmaBuffer s)) s (s1\<lparr>at_apic := ap\<rparr>)"
    using s1(2,3,5) ap(2) x by (simp add: read_back_def complete_def)
  ultimately show ?case by blast
next
  case (Suc k)
  have ch: "0 < ch" by (simp add: ch_def dma_chunk_def DMA_CHUNK_def DMA_CHUNK_EXT_def)
  have c: "chunk_at d n t = ch" using Suc.prems(2) by (simp add: chunk_at_def ch_def)
  have lt: "t + chunk_at d n t < n" using Suc.prems(2) ch c by simp
  from interrupt_continues [OF g r Suc.prems(1) this] obtain s1 where s1: "ataHandleInterrupt env IRQ14 s = Some (Inr s1)"
    "transferring env d data i addr buf n (t + ch) s1" "at_apic s1 = at_apic s" "b_core_id (dmaBuffer s1) = b_core_id (dmaBuffer s)"
    "b_spinlock (dmaBuffer s1) = b_spinlock (dmaBuffer s)"
    unfolding c by blast
  obtain ap where ap: "eoi s1 = Inr (s1\<lparr>at_apic := ap\<rparr>)" "apics ap = as" using quiet_eoiD [OF e, of s1] s1(3) Suc.prems(4) by auto
  let ?s = "s1\<lparr>at_apic := ap\<rparr>"
  have "total_read (dmaBuffer s1) = of_nat (t + ch)" "target_read (dmaBuffer s1) = of_nat n" using s1(2) by (simp_all add: transferring_def)
  moreover have "(of_nat (t + ch) :: u64) \<noteq> of_nat n"
    using request_bounds(2) [OF r, of "t + ch"] request_bounds(2) [OF r, of n] lt c by (metis less_imp_le nat_neq_iff order_refl)
  ultimately have w: "await_ipi wake eoi core j s = await_ipi wake eoi core (j + 1) ?s"
    using assms(4) Suc.prems(5) s1(1) ap(1) by (subst await_ipi.simps) (simp add: woken_by_disk_def del: of_nat_add)
  have "\<exists>s'. await_ipi wake eoi core (j + 1) ?s = Some (Inr s') \<and> read_back data d i addr buf n as (b_spinlock (dmaBuffer ?s)) ?s s'"
    by (rule Suc.IH [of "t + ch"]) (use Suc.prems s1 ap(2) in \<open>auto simp: transferring_apic fired_def\<close>)
  then show ?case using w s1(5) by (simp add: read_back_def)
qed

lemma read_and_wait_delivers:
  assumes g: "good_disk env d data" and r: "request_ok d addr buf n" and "clock_runs env" "woken_by_disk env wake"
    and e: "quiet_eoi (length (apics (at_apic s))) eoi" and i: "i < length (ataDisks (ataManager s))" "ataDisks (ataManager s) ! i = Some d"
    "b_ataDisk (dmaBuffer s) = Some i" and ready: "apics_ready core (at_apic s)"
    and "c = unat (ucast (core_id_ret (getCurrentCoreId (ata_lapic env) (at_apic s))) :: u8)" "c < length (apics (at_apic s))"
    "ipi_delivered env (apics (at_apic s) ! c)"
  shows "\<exists>s'. read_and_wait env wake eoi core i addr buf (of_nat n) s = Some (Inr s') \<and>
    (\<forall>j<512 * n. mem (at_io s') (buf + of_nat j) = data (512 * unat addr + j)) \<and>
    b_spinlock (dmaBuffer s') = b_spinlock (dmaBuffer s) \<and> b_ataDisk (dmaBuffer s') = Some i"
proof -
  let ?s = "enable_dma s" and ?d = "d\<lparr>done_read := False\<rparr>"
  obtain s1 where s1: "readDMADisk env i addr buf (of_nat n) 0 0 ?s = Some (Inr (READ_DMA_SUCCESS, s1))"
    "transferring env ?d data i addr buf n 0 s1" "at_apic s1 = getCurrentCoreId (ata_lapic env) (at_apic s)"
    "b_core_id (dmaBuffer s1) = ucast (core_id_ret (getCurrentCoreId (ata_lapic env) (at_apic s)))" "b_spinlock (dmaBuffer s1) = b_spinlock (dmaBuffer s)"
    using read_started [OF g r assms(3), of i ?s] i by (auto simp: enable_dma_def on_buffer_def)
  have "read_retry (readDMADisk env i addr buf (of_nat n) 0 0) ?s = Some (Inr s1)"
    using s1(1) by (subst read_retry.simps) (simp add: READ_DMA_SUCCESS_def READ_DMA_FAIL_def)
  moreover have as: "apics (at_apic s1) = apics (at_apic s)" using s1(3) by (simp add: core_id_frame)
  moreover obtain ap where ap: "clear_fired core s1 = Inr (s1\<lparr>at_apic := ap\<rparr>)" "apics_ready core ap" "length (apics ap) = length (apics (at_apic s))"
    "fired core (s1\<lparr>at_apic := ap\<rparr>) = Inr 0" "map lapic_icr0 (apics ap) = map lapic_icr0 (apics (at_apic s))"
    using clear_ready [of core s1] ready as by (auto simp: apics_ready_def)
  moreover obtain s2 where s2: "await_ipi wake eoi core 0 (s1\<lparr>at_apic := ap\<rparr>) = Some (Inr s2)"
    "read_back data ?d i addr buf n (apics ap) (b_spinlock (dmaBuffer s)) (s1\<lparr>at_apic := ap\<rparr>) s2"
  proof -
    have n: "0 < n" using r by (simp add: request_ok_def)
    define ch where "ch = unat (dma_chunk (lba48 ?d))"
    have ch: "0 < ch" by (simp add: ch_def dma_chunk_def DMA_CHUNK_def DMA_CHUNK_EXT_def)
    define k where "k = (n - 1) div ch"
    have "k * ch \<le> n - 1" unfolding k_def by simp
    moreover have "n - 1 < Suc k * ch" using ch unfolding k_def by (metis div_less_iff_less_mult lessI)
    ultimately have k: "k * ch < n - 0" "n - 0 \<le> Suc k * ch" using n by linarith+
    have ic: "lapic_icr0 (apics ap ! c) = lapic_icr0 (apics (at_apic s) ! c)" using ap(3,5) assms(11) by (metis nth_map)
    have "quiet_eoi (length (apics ap)) eoi" using e ap(3) by simp
    note a = await_ends [OF _ _ assms(3,4) this, of ?d data addr buf n i 0 "s1\<lparr>at_apic := ap\<rparr>" k core 0, folded ch_def]
    show ?thesis using a g r k s1(2,4,5) ap(3,4) assms(10-12) ic that by (auto simp: transferring_apic ipi_delivered_def)
  qed
  moreover obtain ap' where "clear_fired 0 s2 = Inr (s2\<lparr>at_apic := ap'\<rparr>)"
  proof -
    have "apics_ready 0 (at_apic s2)" using s2(2) ap(2) by (auto simp: read_back_def apics_ready_def in_array_def)
    then show ?thesis using clear_ready that by blast
  qed
  ultimately have "read_and_wait env wake eoi core i addr buf (of_nat n) s = Some (Inr (disable_dma (s2\<lparr>at_apic := ap'\<rparr>)))"
    by (simp add: read_and_wait_def)
  then show ?thesis using s2(2) by (auto simp: read_back_def disable_dma_def on_buffer_def)
qed

end
