(* ===== verification/BlockService.thy ===== *)
theory BlockService
  imports DiskWait
begin

text \<open>
  The block service (\<open>memory/BlockService.c\<close>): reads of whole blocks of 2048 sectors through two buffers that serve as a cache. The
  memory is that of the disk driver; \<open>wake r k\<close> is what happens during the \<open>k\<close>-th halt of the \<open>r\<close>-th disk read. The results
  of the functions are never set and never used.
\<close>

section \<open>The service\<close>

definition sector_unit :: u64 where "sector_unit = 2048"

record BlockService =
  bs_buffer :: "u64 list"
  primaryBuffer :: bool
  start_sector :: u64
  current_cache_index :: "u64 list"
  blocks_to_read_number :: u64
  skip_start :: "u64 list"
  skip_end :: "u64 list"

record block_state =
  blocks :: BlockService
  disk_state :: ata_state

definition on_blocks :: "(BlockService \<Rightarrow> BlockService) \<Rightarrow> block_state \<Rightarrow> block_state" where
  "on_blocks f st = st\<lparr>blocks := f (blocks st)\<rparr>"

definition init_BlockService :: "ata_env \<Rightarrow> block_state \<Rightarrow> block_state result option" where
  "init_BlockService env st =
     then_do (ata_kvalloc env (32 * sector_unit) (disk_state st)) (\<lambda>(b0, s).
     then_do (ata_kvalloc env (32 * sector_unit) s) (\<lambda>(b1, s).
     if b0 = 0 \<or> b1 = 0 then Some (Inl Null_pointer)
     else Some (Inr (st\<lparr>
       disk_state := on_io (on_mem (mem_fill b1 0 (32 * sector_unit) \<circ> mem_fill b0 0 (32 * sector_unit))) s,
       blocks := (blocks st)\<lparr>bs_buffer := [b0, b1], primaryBuffer := False, current_cache_index := [-1, -1],
         skip_start := [-1, -1], skip_end := [-1, -1]\<rparr>\<rparr>))))"

section \<open>Reading blocks\<close>

definition eoi_current :: "ata_env \<Rightarrow> ata_state \<Rightarrow> ata_state result" where
  "eoi_current env s =
     (let ap = getCurrentCoreId (ata_lapic env) (at_apic s) in eoi_of (uint (core_id_ret ap)) (s\<lparr>at_apic := ap\<rparr>))"

text \<open>One read of the disk into a buffer, under the lock of the DMA buffer. It always asks for 32 blocks.\<close>

definition fill_buffer :: "ata_env \<Rightarrow> (nat \<Rightarrow> ata_state \<Rightarrow> ata_state result option) \<Rightarrow> nat \<Rightarrow> u64 \<Rightarrow> u64 \<Rightarrow> ata_state \<Rightarrow> ata_state result option" where
  "fill_buffer env wake disk addr buf s =
     (let s = on_io (on_mem (mem_fill buf 0 (32 * sector_unit))) s
      in case spinlock_lock (self env) (b_spinlock (dmaBuffer s)) of
           None \<Rightarrow> None
         | Some l \<Rightarrow>
             then_do (read_and_wait env wake (eoi_current env) 0 disk addr buf (32 * sector_unit) (on_buffer (b_spinlock_update (\<lambda>_. l)) s)) (\<lambda>s.
             Some (Inr (on_buffer (b_spinlock_update (spinlock_unlock (self env))) s))))"

text \<open>What the cache already gave is skipped, once before the loop and twice per buffer in every round.\<close>

definition skip_once :: "BlockService \<Rightarrow> nat \<Rightarrow> u64 \<Rightarrow> u64" where
  "skip_once b l tot =
     (if tot + start_sector b \<ge> skip_start b ! l \<and> tot < skip_end b ! l
      then tot + (skip_end b ! l - start_sector b) * 512 else tot)"

definition skip_round :: "BlockService \<Rightarrow> nat \<Rightarrow> u64 \<Rightarrow> u64" where
  "skip_round b l tot =
     (if (tot + start_sector b) * 512 \<ge> skip_start b ! l * 512 \<and> tot < skip_end b ! l * 512
      then tot + (skip_end b ! l - (start_sector b + tot div 512)) * 512 else tot)"

partial_function (option) blocks_loop :: "ata_env \<Rightarrow> (nat \<Rightarrow> nat \<Rightarrow> ata_state \<Rightarrow> ata_state result option) \<Rightarrow> nat \<Rightarrow> u64 \<Rightarrow> u64 \<Rightarrow>
    nat \<Rightarrow> u64 \<Rightarrow> block_state \<Rightarrow> block_state result option" where
  "blocks_loop env wake disk user_buffer target r tot st =
     (if target - tot > 0
      then let b = blocks st;
               tot = fold (skip_round b) [0, 1, 0, 1] tot;
               current = (if target - tot > 32 * sector_unit * 512 then 32 * sector_unit * 512 else target - tot);
               index = (if primaryBuffer b then 1 else 0)
           in then_do (fill_buffer env (wake r) disk (start_sector b + tot div 512) (bs_buffer b ! index) (disk_state st)) (\<lambda>s.
              blocks_loop env wake disk user_buffer target (r + 1) (tot + current)
                \<lparr>blocks = b\<lparr>current_cache_index := (current_cache_index b)[index := tot div 512], primaryBuffer := \<not> primaryBuffer b\<rparr>,
                 disk_state = on_io (on_mem (fast_memcpy (user_buffer + tot) (bs_buffer b ! index) current)) s\<rparr>)
      else Some (Inr st))"

definition read_nBlocks :: "ata_env \<Rightarrow> (nat \<Rightarrow> nat \<Rightarrow> ata_state \<Rightarrow> ata_state result option) \<Rightarrow> nat \<Rightarrow> u64 \<Rightarrow> u64 \<Rightarrow> block_state \<Rightarrow> block_state result option" where
  "read_nBlocks env wake disk user_buffer num_blocks st =
     blocks_loop env wake disk user_buffer (num_blocks * sector_unit * 512) 0
       (skip_once (blocks st) 1 (skip_once (blocks st) 0 0)) st"

text \<open>The part of the request that a buffer of the cache covers is copied from it.\<close>

definition take_cached :: "u64 \<Rightarrow> u64 \<Rightarrow> nat \<Rightarrow> block_state \<Rightarrow> block_state" where
  "take_cached user_buffer end_sector i st =
     (let b = blocks st; chunck = 32 * sector_unit; c = current_cache_index b ! i; start = start_sector b
      in if c \<le> start \<and> c + chunck > start
         then let user_start = start - c;
                  user_end = end_sector - user_start;
                  user_end = (if user_end > chunck then chunck - user_start else user_end)
              in st\<lparr>disk_state := on_io (on_mem (fast_memcpy user_buffer (bs_buffer b ! i + user_start * 512) (user_end * 512))) (disk_state st),
                    blocks := b\<lparr>skip_start := (skip_start b)[i := start], skip_end := (skip_end b)[i := start + user_end]\<rparr>\<rparr>
         else if c > start \<and> c < start + end_sector
         then let user_start = c - start;
                  user_end = end_sector - user_start;
                  user_end = (if user_end > chunck then chunck - user_start else user_end)
              in st\<lparr>disk_state := on_io (on_mem (fast_memcpy (user_buffer + user_start * 512) (bs_buffer b ! i) (user_end * 512))) (disk_state st),
                    blocks := b\<lparr>skip_start := (skip_start b)[i := user_start], skip_end := (skip_end b)[i := user_start + user_end]\<rparr>\<rparr>
         else st)"

definition read_blocks :: "ata_env \<Rightarrow> (nat \<Rightarrow> nat \<Rightarrow> ata_state \<Rightarrow> ata_state result option) \<Rightarrow> nat \<Rightarrow> u64 \<Rightarrow> block_state \<Rightarrow> block_state result option" where
  "read_blocks env wake disk user_buffer st =
     (let b = blocks st; end_sector = blocks_to_read_number b * sector_unit + start_sector b
      in if current_cache_index b ! 0 = -1 \<and> current_cache_index b ! 1 = -1
         then read_nBlocks env wake disk user_buffer (blocks_to_read_number b) st
         else then_do (read_nBlocks env wake disk user_buffer (blocks_to_read_number b)
                (take_cached user_buffer end_sector 1 (take_cached user_buffer end_sector 0 st))) (\<lambda>st.
              Some (Inr (on_blocks (\<lambda>b. b\<lparr>skip_start := [-1, -1], skip_end := [-1, -1]\<rparr>) st))))"

section \<open>The first read\<close>

text \<open>The disk works and is free, and the interrupt controllers know the executing core.\<close>

definition disk_ready :: "ata_env \<Rightarrow> (nat \<Rightarrow> nat \<Rightarrow> ata_state \<Rightarrow> ata_state result option) \<Rightarrow> ATADisk \<Rightarrow> (nat \<Rightarrow> u8) \<Rightarrow> nat \<Rightarrow> ata_state \<Rightarrow> bool" where
  "disk_ready env wake d data i s \<longleftrightarrow>
     good_disk env d data \<and> clock_runs env \<and> (\<forall>r. woken_by_disk env (wake r)) \<and>
     i < length (ataDisks (ataManager s)) \<and> ataDisks (ataManager s) ! i = Some d \<and> b_ataDisk (dmaBuffer s) = Some i \<and>
     lock_free (b_spinlock (dmaBuffer s)) \<and> apics_ready 0 (at_apic s) \<and>
     (\<forall>ap. unat (core_id_ret (getCurrentCoreId (ata_lapic env) ap)) < length (apics (at_apic s))) \<and>
     (\<forall>a\<in>set (apics (at_apic s)). ipi_delivered env a) \<and> length (apics (at_apic s)) \<le> 256"

lemma eoi_current_quiet:
  assumes "\<forall>ap. unat (core_id_ret (getCurrentCoreId (ata_lapic env) ap)) < n"
  shows "quiet_eoi n (eoi_current env)"
  unfolding quiet_eoi_def
proof (intro allI impI)
  fix s :: ata_state assume l: "length (apics (at_apic s)) = n"
  let ?ap = "getCurrentCoreId (ata_lapic env) (at_apic s)"
  have "unat (core_id_ret ?ap) < length (apics (at_apic s))" using assms l by simp
  then have "arr_get (apics ?ap) (uint (core_id_ret ?ap)) = Inr (apics ?ap ! unat (core_id_ret ?ap))"
    by (simp add: arr_get_def in_array_def unat_less_uint core_id_frame)
  then show "\<exists>ap. eoi_current env s = Inr (s\<lparr>at_apic := ap\<rparr>) \<and> apics ap = apics (at_apic s)"
    by (intro exI [of _ "on_bus (sendAPICEOI (apics ?ap ! unat (core_id_ret ?ap))) ?ap"])
      (simp add: eoi_current_def eoi_of_def on_bus_def core_id_frame Let_def)
qed

lemma unit_values: "32 * sector_unit = of_nat 65536" "32 * sector_unit * 512 = (0x2000000 :: u64)"
  by (simp_all add: sector_unit_def)

lemma fill_buffer_reads:
  assumes "disk_ready env wake d data i s" "request_ok d addr buf 65536"
  shows "\<exists>s'. fill_buffer env (wake r) i addr buf s = Some (Inr s') \<and>
    (\<forall>j<512 * 65536. mem (at_io s') (buf + of_nat j) = data (512 * unat addr + j))"
proof -
  define s0 where "s0 = on_io (on_mem (mem_fill buf 0 (of_nat 65536))) s"
  define s1 where "s1 = on_buffer (b_spinlock_update (\<lambda>_. (b_spinlock (dmaBuffer s))\<lparr>spin_lock := 1, stack := 1\<rparr>)) s0"
  have f: "at_apic s1 = at_apic s" "ataManager s1 = ataManager s" "b_ataDisk (dmaBuffer s1) = b_ataDisk (dmaBuffer s)"
    by (simp_all add: s1_def s0_def on_buffer_def on_io_def)
  let ?c = "core_id_ret (getCurrentCoreId (ata_lapic env) (at_apic s))"
  have c: "unat ?c < length (apics (at_apic s))" "length (apics (at_apic s)) \<le> 256" using assms(1) by (simp_all add: disk_ready_def)
  have u: "unat (ucast ?c :: u8) = unat ?c" using c by (simp add: unsigned_ucast_eq unsigned_take_bit_eq take_bit_nat_eq_self)
  have "quiet_eoi (length (apics (at_apic s1))) (eoi_current env)"
    unfolding f(1) by (rule eoi_current_quiet) (use assms(1) in \<open>simp add: disk_ready_def\<close>)
  then obtain s2 where s2: "read_and_wait env (wake r) (eoi_current env) 0 i addr buf (of_nat 65536) s1 = Some (Inr s2)"
    "\<forall>j<512 * 65536. mem (at_io s2) (buf + of_nat j) = data (512 * unat addr + j)"
    using read_and_wait_delivers [OF _ assms(2), of env data "wake r" s1 "eoi_current env" i 0 "unat ?c"] assms(1) f c u
    by (auto simp: disk_ready_def)
  have l: "lock_free (b_spinlock (dmaBuffer s0))" "b_spinlock (dmaBuffer s0) = b_spinlock (dmaBuffer s)"
    using assms(1) by (simp_all add: s0_def disk_ready_def on_io_def)
  have "fill_buffer env (wake r) i addr buf s = Some (Inr (on_buffer (b_spinlock_update (spinlock_unlock (self env))) s2))"
    unfolding fill_buffer_def Let_def unit_values(1) s0_def [symmetric] l(2) lock_of_free [OF l(1) [unfolded l(2)]] option.case s1_def [symmetric] s2(1) by simp
  then show ?thesis using s2(2) by (auto simp: on_buffer_def)
qed

definition request_set :: "BlockService \<Rightarrow> u64 \<Rightarrow> u64 \<Rightarrow> nat \<Rightarrow> bool" where
  "request_set b buf sec n \<longleftrightarrow> length (bs_buffer b) = 2 \<and> bs_buffer b ! 0 = buf \<and> start_sector b = sec \<and> blocks_to_read_number b = of_nat n \<and>
     0 < n \<and> n \<le> 32"

definition cache_empty :: "BlockService \<Rightarrow> bool" where
  "cache_empty b \<longleftrightarrow> \<not> primaryBuffer b \<and> current_cache_index b = [-1, -1] \<and> skip_start b = [-1, -1] \<and> skip_end b = [-1, -1]"

lemma target_value:
  assumes "n \<le> 32"
  shows "unat (of_nat n * sector_unit * 512) = n * 0x100000" "(of_nat n * sector_unit * 512 :: u64) = of_nat (n * 0x100000)"
proof -
  show e: "(of_nat n * sector_unit * 512 :: u64) = of_nat (n * 0x100000)" by (simp add: sector_unit_def)
  show "unat (of_nat n * sector_unit * 512) = n * 0x100000" unfolding e by (rule unat_of_nat_small) (use assms in simp)
qed

lemma no_skip:
  assumes "cache_empty b" "unat (start_sector b) < 2 ^ 48" "l < 2"
  shows "skip_once b l 0 = 0" "skip_round b l 0 = 0"
proof -
  have s: "skip_start b ! l = -1" using assms(1,3) by (auto simp: cache_empty_def less_2_cases_iff)
  have "unat (- 1 :: u64) = 2 ^ 64 - 1" by (simp add: unsigned_minus_1_eq_mask mask_eq_exp_minus_1)
  then have "\<not> start_sector b \<ge> -1" using assms(2) by (simp add: word_le_nat_alt)
  then show "skip_once b l 0 = 0" by (simp add: skip_once_def s)
  have "unat (start_sector b * 512) = unat (start_sector b) * 512" using assms(2) by (subst unat_mult_lem [THEN iffD1]) simp_all
  then have "\<not> start_sector b * 512 \<ge> -512" using assms(2) by (simp add: word_le_nat_alt)
  then show "skip_round b l 0 = 0" by (simp add: skip_round_def s)
qed

text \<open>The caller's buffer is 64 MiB away from the buffer of the service, to either side.\<close>

definition far :: "u64 \<Rightarrow> u64 \<Rightarrow> bool" where
  "far user buf \<longleftrightarrow> 0x4000000 \<le> gap user buf"

lemma far_apart:
  assumes "far user buf" "j < 0x2000000" "k < 0x2000000"
  shows "0x2000000 \<le> unat (buf + of_nat j - user)" "0x2000000 \<le> gap user (buf + of_nat k)"
proof -
  define a b where "a = unat (buf - user)" and "b = unat (user - buf)"
  have ab: "0x4000000 \<le> a" "0x4000000 \<le> b" using assms(1) by (simp_all add: far_def gap_def a_def b_def)
  have "user - buf = - (buf - user)" by simp
  then have b: "b = 2 ^ 64 - a" using ab(1) unat_neg [of "buf - user"] by (simp add: a_def b_def)
  have u: "unat (of_nat j :: u64) = j" "unat (of_nat k :: u64) = k" using assms(2,3) by (auto intro: unat_of_nat_small)
  have up: "unat (buf + of_nat x - user) = a + x" if "x < 0x2000000" "unat (of_nat x :: u64) = x" for x
  proof -
    have e: "buf + of_nat x - user = (buf - user) + of_nat x" by simp
    have "unat ((buf - user) + of_nat x) = unat (buf - user) + unat (of_nat x :: u64)"
      by (rule unat_add_no_wrap) (use that ab b in \<open>simp add: a_def\<close>)
    then show ?thesis by (simp only: e a_def that(2))
  qed
  show "0x2000000 \<le> unat (buf + of_nat j - user)" using up [OF assms(2) u(1)] ab by simp
  have e: "user - (buf + of_nat k) = (user - buf) - of_nat k" by simp
  have "of_nat k \<le> user - buf" using u(2) ab assms(3) by (simp add: b_def word_le_nat_alt)
  then have "unat ((user - buf) - of_nat k) = unat (user - buf) - unat (of_nat k :: u64)" by (rule unat_sub_no_wrap)
  then have "unat (user - (buf + of_nat k)) = b - k" by (simp only: e b_def u(2))
  then show "0x2000000 \<le> gap user (buf + of_nat k)" using up [OF assms(3) u(2)] ab assms(3) by (simp add: gap_def)
qed

lemma first_read:
  assumes "disk_ready env wake d data i (disk_state st)" "request_set (blocks st) buf sec n" "cache_empty (blocks st)"
    and "request_ok d sec buf 65536" "far user buf"
  shows "\<exists>s. read_blocks env wake i user st =
      Some (Inr \<lparr>blocks = (blocks st)\<lparr>current_cache_index := [0, -1], primaryBuffer := True\<rparr>, disk_state = s\<rparr>) \<and>
    (\<forall>j<n * 0x100000. mem (at_io s) (user + of_nat j) = data (512 * unat sec + j)) \<and>
    (\<forall>j<0x2000000. mem (at_io s) (buf + of_nat j) = data (512 * unat sec + j))"
proof -
  let ?b = "blocks st" and ?t = "of_nat n * sector_unit * 512 :: u64"
  have b: "bs_buffer ?b ! 0 = buf" "start_sector ?b = sec" "blocks_to_read_number ?b = of_nat n" "0 < n" "n \<le> 32"
    using assms(2) by (simp_all add: request_set_def)
  have e: "\<not> primaryBuffer ?b" "current_cache_index ?b = [-1, -1]" using assms(3) by (simp_all add: cache_empty_def)
  have t: "unat ?t = n * 0x100000" "?t = of_nat (n * 0x100000)" using target_value [OF b(5)] by simp_all
  have sec: "unat (start_sector ?b) < 2 ^ 48" using assms(4) b(2) by (auto simp: request_ok_def split: if_splits)
  note ns = no_skip [OF assms(3) sec]
  obtain s where s: "fill_buffer env (wake 0) i sec buf (disk_state st) = Some (Inr s)"
    "\<forall>j<512 * 65536. mem (at_io s) (buf + of_nat j) = data (512 * unat sec + j)"
    using fill_buffer_reads [OF assms(1,4)] by blast
  let ?s = "on_io (on_mem (fast_memcpy user buf ?t)) s"
  let ?st = "\<lparr>blocks = ?b\<lparr>current_cache_index := [0, -1], primaryBuffer := True\<rparr>, disk_state = ?s\<rparr>"
  have "blocks_loop env wake i user ?t 0 0 st = blocks_loop env wake i user ?t 1 ?t ?st"
  proof -
    have "?t > 0" "\<not> ?t > 32 * sector_unit * 512" using t(1) b(4,5) by (simp_all add: word_less_nat_alt unit_values(2))
    moreover have "fold (skip_round ?b) [0, 1, 0, 1] 0 = 0" using ns(2) by simp
    ultimately show ?thesis
      using e b(1,2) s(1) by (subst blocks_loop.simps) (simp add: Let_def)
  qed
  also have "\<dots> = Some (Inr ?st)" by (subst blocks_loop.simps) simp
  finally have r: "read_blocks env wake i user st = Some (Inr ?st)"
    using e(2) b(3) ns(1) by (simp add: read_blocks_def read_nBlocks_def)
  have g: "unat ?t \<le> gap user buf" using t(1) b(5) assms(5) by (simp add: far_def)
  have m: "mem (at_io ?s) a = (if a - user < ?t then mem (at_io s) (buf + (a - user)) else mem (at_io s) a)" for a
    by (simp add: on_io_def on_mem_def fast_memcpy_apart [OF g])
  have "mem (at_io ?s) (user + of_nat j) = data (512 * unat sec + j)" if "j < n * 0x100000" for j
  proof -
    have "unat (of_nat j :: u64) = j" by (rule unat_of_nat_small) (use that b(5) in simp)
    then have "(of_nat j :: u64) < ?t" using that t(1) by (simp add: word_less_nat_alt)
    then show ?thesis using m s(2) that b(5) by simp
  qed
  moreover have "mem (at_io ?s) (buf + of_nat j) = data (512 * unat sec + j)" if "j < 0x2000000" for j
  proof -
    have "\<not> buf + of_nat j - user < ?t" using far_apart(1) [OF assms(5) that that] t(1) b(5) by (simp add: word_less_nat_alt)
    then show ?thesis using m s(2) that by simp
  qed
  ultimately show ?thesis using r by blast
qed

text \<open>C27: a read of up to 32 blocks with an empty cache returns and leaves exactly the sectors asked for in the caller's buffer; on the way it
  writes 32 MiB of sectors from the address of the cache buffer on, although \<open>init_BlockService\<close> allocates 64 KiB for it. The read is
  right only where that does no harm: the caller's buffer has to be at least 64 MiB away from the cache buffer, and the 32 MiB
  behind it apart from the DMA buffer and its table. The demonstration in \<open>KernelMain.c\<close> does not arrange for this: its buffer
  comes from the same heap right before the cache buffers.\<close>

theorem block_read_delivers:
  assumes "disk_ready env wake d data i (disk_state st)" "request_set (blocks st) buf sec n" "cache_empty (blocks st)"
    and "request_ok d sec buf 65536" "far user buf"
  shows "\<exists>st'. read_blocks env wake i user st = Some (Inr st') \<and>
    (\<forall>j<n * 2048 * 512. mem (at_io (disk_state st')) (user + of_nat j) = data (512 * unat sec + j)) \<and>
    (\<forall>j<32 * 2048 * 512. mem (at_io (disk_state st')) (buf + of_nat j) = data (512 * unat sec + j))"
  using first_read [OF assms] by auto

section \<open>The second read\<close>

lemma cached_read:
  assumes "request_set (blocks st) buf sec n" "current_cache_index (blocks st) = [0, -1]" "skip_start (blocks st) = [-1, -1]"
    and "skip_end (blocks st) = [-1, -1]" "unat sec < 65536" "far user buf"
  shows "\<exists>st'. read_blocks env wake i user st = Some (Inr st') \<and>
    (\<forall>j<n * 0x100000. mem (at_io (disk_state st')) (user + of_nat j) = mem (at_io (disk_state st)) (buf + of_nat (unat sec * 512 + j)))"
proof -
  let ?b = "blocks st" and ?t = "of_nat n * sector_unit * 512 :: u64" and ?e = "of_nat n * sector_unit :: u64"
  have b: "bs_buffer ?b ! 0 = buf" "start_sector ?b = sec" "blocks_to_read_number ?b = of_nat n" "0 < n" "n \<le> 32"
    using assms(1) by (simp_all add: request_set_def)
  have t: "unat ?t = n * 0x100000" using target_value [OF b(5)] by simp
  have e: "unat ?e = n * 2048"
  proof -
    have "unat (of_nat (n * 2048) :: u64) = n * 2048" by (rule unat_of_nat_small) (use b(5) in simp)
    then show ?thesis by (simp add: sector_unit_def)
  qed
  have top: "unat (-1 :: u64) = 2 ^ 64 - 1" by (simp add: unsigned_minus_1_eq_mask mask_eq_exp_minus_1)
  have es: "unat (sec + ?e) = unat sec + n * 2048" using unat_add_no_wrap [of sec ?e] e b(5) assms(5) by simp
  have ese: "unat (sec + (?e + sec)) = unat sec + (unat sec + n * 2048)"
  proof -
    have "unat (?e + sec) = unat sec + n * 2048" using unat_add_no_wrap [of ?e sec] e b(5) assms(5) by simp
    then show ?thesis using unat_add_no_wrap [of sec "?e + sec"] b(5) assms(5) by simp
  qed
  have ts: "unat (?t + sec) = n * 0x100000 + unat sec" using unat_add_no_wrap [of ?t sec] t b(5) assms(5) by simp
  let ?m = "on_io (on_mem (fast_memcpy user (buf + sec * 512) ?t)) (disk_state st)"
  let ?st = "st\<lparr>disk_state := ?m, blocks := ?b\<lparr>skip_start := [sec, -1], skip_end := [sec + ?e, -1]\<rparr>\<rparr>"
  have c0: "take_cached user (?e + sec) 0 st = ?st"
  proof -
    have "sec < 32 * sector_unit" "\<not> ?e > 32 * sector_unit" using assms(5) e b(5) by (simp_all add: word_less_nat_alt sector_unit_def)
    then show ?thesis using b(1,2) assms(2-4) by (simp add: take_cached_def Let_def)
  qed
  have c1: "take_cached user (?e + sec) 1 ?st = ?st"
  proof -
    have "\<not> -1 \<le> sec" "\<not> -1 < sec + (?e + sec)" using top ese b(5) assms(5) by (simp_all add: word_le_nat_alt word_less_nat_alt)
    then show ?thesis using b(2) assms(2) by (simp add: take_cached_def Let_def)
  qed
  have s0: "skip_once (blocks ?st) 0 0 = ?t"
  proof -
    have "0 < sec + ?e" using es b(4) by (simp add: word_less_nat_alt)
    then show ?thesis using b(2) by (simp add: skip_once_def)
  qed
  have s1: "skip_once (blocks ?st) 1 ?t = ?t"
  proof -
    have "\<not> -1 \<le> ?t + sec" using top ts b(5) assms(5) by (simp add: word_le_nat_alt)
    then show ?thesis using b(2) by (simp add: skip_once_def)
  qed
  have "read_nBlocks env wake i user (of_nat n) ?st = Some (Inr ?st)"
    unfolding read_nBlocks_def s0 s1 by (subst blocks_loop.simps) simp
  then have "read_blocks env wake i user st = Some (Inr (on_blocks (\<lambda>b. b\<lparr>skip_start := [-1, -1], skip_end := [-1, -1]\<rparr>) ?st))" (is "_ = Some (Inr ?st')")
    unfolding read_blocks_def Let_def b(2,3) c0 c1 using assms(2) by simp
  moreover have "mem (at_io (disk_state ?st')) (user + of_nat j) = mem (at_io (disk_state st)) (buf + of_nat (unat sec * 512 + j))"
    if "j < n * 0x100000" for j
  proof -
    have w: "sec * 512 = of_nat (unat sec * 512)" by simp
    have g: "unat ?t \<le> gap user (buf + sec * 512)"
      using far_apart(2) [OF assms(6), of 0 "unat sec * 512"] assms(5) t b(5) unfolding w by simp
    have "unat (of_nat j :: u64) = j" by (rule unat_of_nat_small) (use that b(5) in simp)
    then have "(of_nat j :: u64) < ?t" using that t by (simp add: word_less_nat_alt)
    then show ?thesis by (simp add: on_blocks_def on_io_def on_mem_def fast_memcpy_apart [OF g] add.assoc)
  qed
  ultimately show ?thesis by blast
qed

text \<open>C38: the cache forgets where its contents came from: it records the position inside the request, not on the disk. Asking for the
  same blocks a second time, starting at any sector below 65536, gives the sectors from twice the start on.\<close>

theorem repeated_read_wrong_sectors:
  assumes "disk_ready env wake d data i (disk_state st)" "request_set (blocks st) buf sec n" "cache_empty (blocks st)"
    and "request_ok d sec buf 65536" "far user buf" "unat sec < 65536"
  shows "\<exists>st'. then_do (read_blocks env wake i user st) (read_blocks env wake' i user) = Some (Inr st') \<and>
    (\<forall>j<512 * min (n * 2048) (65536 - unat sec). mem (at_io (disk_state st')) (user + of_nat j) = data (512 * (2 * unat sec) + j))"
proof -
  obtain s where s: "read_blocks env wake i user st = Some (Inr \<lparr>blocks = (blocks st)\<lparr>current_cache_index := [0, -1], primaryBuffer := True\<rparr>, disk_state = s\<rparr>)"
    (is "_ = Some (Inr ?st)") "\<forall>j<0x2000000. mem (at_io s) (buf + of_nat j) = data (512 * unat sec + j)"
    using first_read [OF assms(1-5)] by blast
  obtain st' where st': "read_blocks env wake' i user ?st = Some (Inr st')"
    "\<forall>j<n * 0x100000. mem (at_io (disk_state st')) (user + of_nat j) = mem (at_io s) (buf + of_nat (unat sec * 512 + j))"
    using cached_read [of ?st buf sec n user env wake' i] assms by (auto simp: request_set_def cache_empty_def)
  have "mem (at_io (disk_state st')) (user + of_nat j) = data (512 * (2 * unat sec) + j)" if "j < 512 * min (n * 2048) (65536 - unat sec)" for j
  proof -
    have j: "j < n * 0x100000" "unat sec * 512 + j < 0x2000000" using that assms(6) by auto
    have "mem (at_io (disk_state st')) (user + of_nat j) = data (512 * unat sec + (unat sec * 512 + j))"
      using st'(2) s(2) j by metis
    then show ?thesis by (simp add: algebra_simps)
  qed
  then show ?thesis using s(1) st'(1) by auto
qed

section \<open>An example\<close>

definition demo_blocks :: block_state where
  "demo_blocks = \<lparr>blocks = \<lparr>bs_buffer = [0x8000000, 0x8010000], primaryBuffer = False, start_sector = 5, current_cache_index = [-1, -1],
     blocks_to_read_number = 3, skip_start = [-1, -1], skip_end = [-1, -1]\<rparr>, disk_state = demo_ata_state\<rparr>"

definition disk_wakes :: "nat \<Rightarrow> nat \<Rightarrow> ata_state \<Rightarrow> ata_state result option" where
  "disk_wakes r k = ataHandleInterrupt demo_ata IRQ14"

lemma demo_ready:
  "disk_ready demo_ata disk_wakes demo_disk demo_data 0 (disk_state demo_blocks)" "request_set (blocks demo_blocks) 0x8000000 5 3"
  "cache_empty (blocks demo_blocks)" "far 0x20000000 0x8000000"
proof -
  have "woken_by_disk demo_ata (disk_wakes r)" for r by (simp add: woken_by_disk_def disk_wakes_def)
  moreover have "apics_ready 0 demo_apic_state" by (simp add: apics_ready_def demo_apic_state_def in_array_def demo_apic_def)
  ultimately show "disk_ready demo_ata disk_wakes demo_disk demo_data 0 (disk_state demo_blocks)"
    using demo_good demo_clock
    by (auto simp: disk_ready_def demo_blocks_def demo_ata_state_def demo_apic_state_def ipi_delivered_def demo_ata_def core_id_zero lock_free_def)
  show "request_set (blocks demo_blocks) 0x8000000 5 3" "cache_empty (blocks demo_blocks)" "far 0x20000000 0x8000000"
    by (simp_all add: request_set_def cache_empty_def demo_blocks_def far_def gap_def)
qed

lemma demo_block_request: "request_ok demo_disk 5 0x8000000 65536"
proof -
  have "unat (c + of_nat j) = unat c + j" if "j < 33554432" "unat c < 2 ^ 63" for j and c :: u64
  proof -
    have "unat (of_nat j :: u64) = j" by (rule unat_of_nat_small) (use that in simp)
    then show ?thesis using unat_add_no_wrap [of c "of_nat j"] that by simp
  qed
  moreover have "\<forall>j<4096. outside demo_disk (prdt demo_disk + of_nat j)" using demo_table_page by blast
  ultimately show ?thesis unfolding request_ok_def by (simp add: outside_def demo_disk_def)
qed

theorem block_read_delivers_witness:
  "\<exists>st'. read_blocks demo_ata disk_wakes 0 0x20000000 demo_blocks = Some (Inr st') \<and> mem (at_io (disk_state st')) (0x20000000 + 512 * 10) = 15 \<and>
     mem (at_io (disk_state st')) (0x8000000 + 65536) = 133"
proof -
  obtain st' where st': "read_blocks demo_ata disk_wakes 0 0x20000000 demo_blocks = Some (Inr st')"
    "\<forall>j<3 * 2048 * 512. mem (at_io (disk_state st')) (0x20000000 + of_nat j) = demo_data (512 * unat (5 :: u64) + j)"
    "\<forall>j<32 * 2048 * 512. mem (at_io (disk_state st')) (0x8000000 + of_nat j) = demo_data (512 * unat (5 :: u64) + j)"
    using block_read_delivers [OF demo_ready(1-3) demo_block_request demo_ready(4)] by blast
  have "mem (at_io (disk_state st')) (0x20000000 + 512 * 10) = 15" using st'(2) [rule_format, of "512 * 10"] by (simp add: demo_data_def)
  moreover have "mem (at_io (disk_state st')) (0x8000000 + 65536) = 133" using st'(3) [rule_format, of 65536] by (simp add: demo_data_def)
  ultimately show ?thesis using st'(1) by blast
qed

theorem repeated_read_wrong_sectors_witness:
  "\<exists>st'. then_do (read_blocks demo_ata disk_wakes 0 0x20000000 demo_blocks) (read_blocks demo_ata disk_wakes 0 0x20000000) = Some (Inr st') \<and>
    mem (at_io (disk_state st')) (0x20000000 + 512 * 10) = 20"
proof -
  obtain st' where st': "then_do (read_blocks demo_ata disk_wakes 0 0x20000000 demo_blocks) (read_blocks demo_ata disk_wakes 0 0x20000000) = Some (Inr st')"
    "\<forall>j<512 * min (3 * 2048) (65536 - unat (5 :: u64)). mem (at_io (disk_state st')) (0x20000000 + of_nat j) = demo_data (512 * (2 * unat (5 :: u64)) + j)"
    using repeated_read_wrong_sectors [OF demo_ready(1-3) demo_block_request demo_ready(4), of disk_wakes] by auto
  have "mem (at_io (disk_state st')) (0x20000000 + 512 * 10) = 20" using st'(2) [rule_format, of "512 * 10"] by (simp add: demo_data_def)
  then show ?thesis using st'(1) by blast
qed

end
