(* ===== verification/Messages.thy ===== *)
theory Messages
  imports Stdio XmlDocs BlockService Base64 SharedMemory
begin

text \<open>
  Services that talk in XML: the queries of \<open>xml/XMLService.c\<close>, the messages of \<open>devices/service/service.c\<close>, the parameters
  of the shared memory service and the demonstration service \<open>dummyServs/AckermannFunction.c\<close>. Memory, heap and disk are those of
  the disk driver. A fresh block that the code reads before it has written it is a parameter.
\<close>

section \<open>Strings in memory\<close>

definition get_bytes :: "nat \<Rightarrow> u64 \<Rightarrow> memory \<Rightarrow> u8 list" where
  "get_bytes n p m = map (\<lambda>j. m (p + of_nat j)) [0..<n]"

partial_function (option) strlen_at :: "memory \<Rightarrow> u64 \<Rightarrow> nat option" where
  "strlen_at m p = (if m p = 0 then Some 0 else Option.bind (strlen_at m (p + 1)) (\<lambda>n. Some (Suc n)))"

definition string_at :: "memory \<Rightarrow> u64 \<Rightarrow> u8 list option" where
  "string_at m p = map_option (\<lambda>n. get_bytes n p m) (strlen_at m p)"

text \<open>\<open>memcpy\<close> on areas that do not overlap, as its comment asks for.\<close>

definition memcpy_at :: "u64 \<Rightarrow> u64 \<Rightarrow> nat \<Rightarrow> memory \<Rightarrow> memory" where
  "memcpy_at dest src n m = put_bytes dest (get_bytes n src m) m"

section \<open>The XML service\<close>

definition sizeof_xml_heap :: u64 where "sizeof_xml_heap = 6291496"
definition SECTOR_SIZE :: u64 where "SECTOR_SIZE = 512"

record XMLService =
  sectors_start :: u64
  sectors_count_to_read :: u64
  ata_core_id :: int
  tagDirectory :: "u8 list"
  xs_value :: "u8 list"

record xml_kernel =
  sys_xml_confg :: "xml_heap_t option"
  xmlService :: XMLService
  xk_ata :: ata_state

record xml_env =
  xe_ata :: ata_env
  raw_stack :: void_ptr_stack_t
  raw_query :: xquery_t
  raw_heap :: "u64 \<Rightarrow> xml_heap_t"

definition xk_mem :: "xml_kernel \<Rightarrow> memory" where
  "xk_mem k = mem (at_io (xk_ata k))"

definition on_xk_mem :: "(memory \<Rightarrow> memory) \<Rightarrow> xml_kernel \<Rightarrow> xml_kernel" where
  "on_xk_mem f k = k\<lparr>xk_ata := on_io (on_mem f) (xk_ata k)\<rparr>"

datatype xml_method = parseAFile_f | getValueFromTag_f

definition initializeXMLService :: "xml_method Service \<Rightarrow> xml_method Service result" where
  "initializeXMLService p_service = call_add_services p_service [(parseAFile_f, 0), (getValueFromTag_f, 1)]"

definition ParseXMLString :: "xml_env \<Rightarrow> u8 list \<Rightarrow> xml_kernel \<Rightarrow> xml_kernel result option" where
  "ParseXMLString env xmlString k =
     then_do (ata_kvalloc (xe_ata env) sizeof_xml_heap (xk_ata k)) (\<lambda>(a, s).
     if a = 0 then Some (Inl Null_pointer)
     else then_do (parse_xml (raw_stack env) (xml_heap_init xmlString (raw_heap env a))) (\<lambda>(done, h).
       Some (Inr (k\<lparr>xk_ata := s, sys_xml_confg := (if done \<noteq> 0 then Some h else None)\<rparr>))))"

text \<open>The configuration is read from the disk between two tags of its own and parsed.\<close>

definition parseAFile :: "xml_env \<Rightarrow> (nat \<Rightarrow> ata_state \<Rightarrow> ata_state result option) \<Rightarrow> xml_kernel \<Rightarrow> xml_kernel result option" where
  "parseAFile env wake k =
     (let x = xmlService k; size = (sectors_count_to_read x + 1) * SECTOR_SIZE
      in then_do (ata_kvalloc (xe_ata env) size (xk_ata k)) (\<lambda>(config_buffer, s).
         if config_buffer = 0 then Some (Inl Null_pointer)
         else then_do (Some (sprintf config_buffer (bytes_of ''<SystemConfig>'' @ [10]) [] (mem_fill config_buffer 0 size (mem (at_io s))))) (\<lambda>m.
              let s = on_io (on_mem (\<lambda>_. m)) s
              in then_do (returned (strlen_at m config_buffer)) (\<lambda>l.
                 then_do (read_and_wait (xe_ata env) wake (eoi_of (ata_core_id x)) (ata_core_id x) 0 (sectors_start x)
                            (config_buffer + of_nat l) (sectors_count_to_read x) s) (\<lambda>s.
                 then_do (returned (strlen_at (mem (at_io s)) config_buffer)) (\<lambda>l.
                 then_do (Some (sprintf (config_buffer + of_nat l) (bytes_of ''</SystemConfig>'' @ [10]) [] (mem (at_io s)))) (\<lambda>m.
                 then_do (returned (string_at m config_buffer)) (\<lambda>str.
                   ParseXMLString env str (k\<lparr>xk_ata := on_io (on_mem (\<lambda>_. m)) s\<rparr>)))))))))"

definition copy_value :: "u8 list \<Rightarrow> u8 list \<Rightarrow> u8 list result" where
  "copy_value s v = (if length s < length v then Inr (s @ 0 # drop (length s + 1) v) else Inl Out_of_bounds)"

text \<open>The two queries differ in the beginning of the path.\<close>

definition query_value :: "xml_env \<Rightarrow> u8 list \<Rightarrow> xml_kernel \<Rightarrow> xml_kernel result option" where
  "query_value env prefix k =
     (let q = prefix @ tagDirectory (xmlService k)
      in if length q \<ge> 1024 then Some (Inl Out_of_bounds)
         else case sys_xml_confg k of
           None \<Rightarrow> Some (Inl Null_pointer)
         | Some h \<Rightarrow> then_do (exec_xquery (raw_query env) q h) (\<lambda>r.
             case r of
               None \<Rightarrow> Some (Inr k)
             | Some i \<Rightarrow> (case xml_content (xml_nodes h i) of
                  None \<Rightarrow> Some (Inl Null_pointer)
                | Some c \<Rightarrow> then_do (Some (copy_value (cstring (xml_source h) c) (xs_value (xmlService k)))) (\<lambda>v.
                    Some (Inr (k\<lparr>xmlService := (xmlService k)\<lparr>xs_value := v\<rparr>\<rparr>))))))"

definition getValueFromTag :: "xml_env \<Rightarrow> xml_kernel \<Rightarrow> xml_kernel result option" where
  "getValueFromTag env = query_value env (bytes_of ''/SystemConfig/'')"

definition getValueFromTagMessage :: "xml_env \<Rightarrow> xml_kernel \<Rightarrow> xml_kernel result option" where
  "getValueFromTagMessage env = query_value env (bytes_of ''params/'')"

section \<open>Messages\<close>

text \<open>An argument is a description, the address of the value and, for values of variable size, their size.\<close>

type_synonym message_arg = "Parameter \<times> u64 \<times> u64"

definition arg_size :: "message_arg \<Rightarrow> u64" where
  "arg_size a = (case a of (p, v, n) \<Rightarrow> if variableSize p then n else sizeOfParameter p)"

definition maximumTotalSize :: "message_arg list \<Rightarrow> u64" where
  "maximumTotalSize args = sum_list (map (\<lambda>a. of_nat (length (tag (fst a))) * 2 + 9 + arg_size a * 4 div 3) args) * (4 div 3)"

definition xk_alloc :: "xml_kernel \<Rightarrow> MemoryAllocator" where
  "xk_alloc k = ap_alloc (at_apic (xk_ata k))"

definition set_alloc :: "MemoryAllocator \<Rightarrow> xml_kernel \<Rightarrow> xml_kernel" where
  "set_alloc al k = k\<lparr>xk_ata := (xk_ata k)\<lparr>at_apic := (at_apic (xk_ata k))\<lparr>ap_alloc := al\<rparr>\<rparr>\<rparr>"

text \<open>One round of the second loop, from and to the end of what is written. The copy that is decoded again is only printed.\<close>

definition convert_one :: "xml_env \<Rightarrow> message_arg \<Rightarrow> u64 \<Rightarrow> xml_kernel \<Rightarrow> (u64 \<times> xml_kernel) result option" where
  "convert_one env a e k =
     (let t = bytes_of (tag (fst a)); data = get_bytes (unat (arg_size a)) (fst (snd a)) (xk_mem k); core = self (xe_ata env)
      in then_do (returned (base64_encode core (xk_alloc k) data)) (\<lambda>(r, al).
         case r of None \<Rightarrow> Some (Inl Null_pointer)
         | Some (p, enc) \<Rightarrow> then_do (returned (base64_decode core al enc)) (\<lambda>(r', al').
             case r' of None \<Rightarrow> Some (Inl Null_pointer)
             | Some (p', dec) \<Rightarrow>
                 then_do (Some (sprintf e (bytes_of ''<params><%s> '') [Str t] (put_bytes p' dec (put_bytes p enc (xk_mem k))))) (\<lambda>m.
                 let e = e + of_nat (length t) + 11; m = memcpy_at e p (length enc) m; e = e + of_nat (length enc)
                 in then_do (Some (sprintf e (bytes_of '' </%s></params>'' @ [10]) [Str t] m)) (\<lambda>m.
                 Some (Inr (e + of_nat (length t) + 14, on_xk_mem (\<lambda>_. m) (set_alloc al' k))))))))"

fun convert_all :: "xml_env \<Rightarrow> message_arg list \<Rightarrow> u64 \<Rightarrow> xml_kernel \<Rightarrow> (u64 \<times> xml_kernel) result option" where
  "convert_all env [] e k = Some (Inr (e, k))"
| "convert_all env (a # as) e k = then_do (convert_one env a e k) (\<lambda>(e, k). convert_all env as e k)"

definition ConvertTagToXML :: "xml_env \<Rightarrow> message_arg list \<Rightarrow> xml_kernel \<Rightarrow> (u64 \<times> xml_kernel) result option" where
  "ConvertTagToXML env args k =
     then_do (returned (kmalloc (self (xe_ata env)) (xk_alloc k) (maximumTotalSize args))) (\<lambda>(b, al).
     if b = 0 then Some (Inl Null_pointer)
     else then_do (convert_all env args b (on_xk_mem (mem_fill b 0 (maximumTotalSize args)) (set_alloc al k))) (\<lambda>(e, k).
       Some (Inr (b, on_xk_mem (\<lambda>m. m(e := 0)) k))))"

section \<open>Parameters of a request\<close>

text \<open>Every described parameter is looked up in the message; its number goes where its name says. A parameter that is not found leaves
  the value of the one before.\<close>

fun parse_params :: "xml_env \<Rightarrow> (string \<Rightarrow> u64 \<Rightarrow> 'a \<Rightarrow> 'a) \<Rightarrow> Parameter list \<Rightarrow> 'a \<Rightarrow> xml_kernel \<Rightarrow> ('a \<times> xml_kernel) result option" where
  "parse_params env assign [] temp k = Some (Inr (temp, k))"
| "parse_params env assign (p # ps) temp k =
     then_do (getValueFromTagMessage env (k\<lparr>xmlService := (xmlService k)\<lparr>tagDirectory := bytes_of (tag p)\<rparr>\<rparr>)) (\<lambda>k.
       parse_params env assign ps (assign (tag p) (atoi (cstring (xs_value (xmlService k)) 0)) temp) k)"

definition parse_request :: "xml_env \<Rightarrow> u64 \<Rightarrow> (string \<Rightarrow> u64 \<Rightarrow> 'a \<Rightarrow> 'a) \<Rightarrow> 'f Service \<Rightarrow> u8 list \<Rightarrow> int \<Rightarrow> 'a \<Rightarrow> xml_kernel \<Rightarrow>
    ('a \<times> xml_kernel) result option" where
  "parse_request env nbytes assign srv xmlString location raw k =
     then_do (returned (kmalloc (self (xe_ata env)) (xk_alloc k) nbytes)) (\<lambda>(a, al).
     if a = 0 then Some (Inl Null_pointer)
     else then_do (ParseXMLString env xmlString (set_alloc al k)) (\<lambda>k.
          then_do (Some (arr_get (testMethod srv) location)) (\<lambda>t.
          if parametersCount t > int (length (parameters t)) then Some (Inl Out_of_bounds)
          else parse_params env assign (take (nat (parametersCount t)) (parameters t)) raw k)))"

definition assign_shared :: "string \<Rightarrow> u64 \<Rightarrow> params_t \<Rightarrow> params_t" where
  "assign_shared t v p =
     (if t = ''numberOfBytes'' then p\<lparr>numberOfBytes := v\<rparr> else if t = ''virtualAddress'' then p\<lparr>sm_virtualAddress := v\<rparr> else p)"

definition ParseSharedMemoryXML :: "xml_env \<Rightarrow> sm_method Service \<Rightarrow> u8 list \<Rightarrow> int \<Rightarrow> params_t \<Rightarrow> xml_kernel \<Rightarrow> (params_t \<times> xml_kernel) result option" where
  "ParseSharedMemoryXML env = parse_request env 16 assign_shared"

section \<open>The demonstration service\<close>

record AckermannFunctionParams =
  ack_m :: u64
  ack_n :: u64

datatype ack_method = CallAckermannFunction_f | ParseAckermannFunctionXML_f

definition initAckermannFunctionService :: "ack_method Service \<Rightarrow> (u64 \<times> ack_method Service) result" where
  "initAckermannFunctionService p_service =
     (let s0 = p_service\<lparr>service_method_count := 1\<rparr>; u = ''uint64_t''
      in if \<not> add_serviceTest_hook s0 \<or> \<not> serviceTestParameterDescription_hook s0 then Inl Null_pointer
         else
          and_then (add_service_test s0 (Some CallAckermannFunction_f) 0 ''Call Ackermann's Function'') (\<lambda>(_, s1).
          and_then (add_serviceTestParameterDescription s1 0 ''FirstValue'' u 8 False False True False) (\<lambda>s2.
          and_then (add_serviceTestParameterDescription s2 0 ''SecondValue'' u 8 False False True False) (\<lambda>s3.
          and_then (add_serviceTestParameterDescription s3 0 ''Result'' u 8 False False True True) (\<lambda>s4.
            Inr (5, s4\<lparr>parserMethod := Some ParseAckermannFunctionXML_f\<rparr>))))))"

definition assign_ack :: "string \<Rightarrow> u64 \<Rightarrow> AckermannFunctionParams \<Rightarrow> AckermannFunctionParams" where
  "assign_ack t v p = (if t = ''FirstValue'' then p\<lparr>ack_m := v\<rparr> else if t = ''SecondValue'' then p\<lparr>ack_n := v\<rparr> else p)"

definition ParseAckermannFunctionXML :: "xml_env \<Rightarrow> ack_method Service \<Rightarrow> u8 list \<Rightarrow> int \<Rightarrow> AckermannFunctionParams \<Rightarrow> xml_kernel \<Rightarrow>
    (AckermannFunctionParams \<times> xml_kernel) result option" where
  "ParseAckermannFunctionXML env = parse_request env 16 assign_ack"

text \<open>Nothing is returned for a negative argument; the model makes that an error. Sums wrap as \<open>int\<close> does on the target.\<close>

function ack :: "int \<Rightarrow> int \<Rightarrow> int result" where
  "ack m n =
     (if m = 0 then Inr (c_int (n + 1))
      else if m > 0 \<and> n = 0 then ack (m - 1) 1
      else if m > 0 \<and> n > 0 then (case ack m (n - 1) of Inl e \<Rightarrow> Inl e | Inr r \<Rightarrow> ack (m - 1) r)
      else Inl Out_of_bounds)"
  by pat_completeness auto

termination
  by (relation "measures [\<lambda>(m, n). nat m, \<lambda>(m, n). nat n]") auto

declare ack.simps [simp del]

fun ack_rounds :: "nat \<Rightarrow> AckermannFunctionParams \<Rightarrow> u64 \<Rightarrow> u64 result" where
  "ack_rounds 0 p res = Inr res"
| "ack_rounds (Suc i) p res = and_then (ack (c_int (uint (ack_m p))) (c_int (uint (ack_n p)))) (\<lambda>r. ack_rounds i p (word_of_int r))"

definition bytes64 :: "u64 \<Rightarrow> u8 list" where
  "bytes64 v = map (\<lambda>i. ucast (drop_bit (8 * i) v)) [0..<8]"

text \<open>\<open>adr\<close> is the address of the local variable that holds the result.\<close>

definition CallAckermannFunction :: "xml_env \<Rightarrow> ack_method Service \<Rightarrow> u64 \<Rightarrow> u64 \<Rightarrow> AckermannFunctionParams \<Rightarrow> xml_kernel \<Rightarrow> (u64 \<times> xml_kernel) result option" where
  "CallAckermannFunction env srv calls adr p k =
     then_do (Some (ack_rounds (unat calls) p 0)) (\<lambda>res.
     then_do (Some (arr_get (testMethod srv) 0)) (\<lambda>t.
     then_do (Some (arr_get (returns_of t) 0)) (\<lambda>returnTag.
     ConvertTagToXML env [(returnTag, adr, 0)] (on_xk_mem (put_bytes adr (bytes64 res)) k))))"

end
