(* ===== verification/MessageProofs.thy ===== *)
theory MessageProofs
  imports Messages
begin

text \<open>
  The message of a value: what \<open>ConvertTagToXML\<close> leaves in memory, and that the receiver gets the value back from it by
  parsing, querying and decoding.
\<close>

section \<open>Strings in memory\<close>

lemma put_bytes_append: "put_bytes p (xs @ ys) m = put_bytes (p + of_nat (length xs)) ys (put_bytes p xs m)"
  by (induction xs arbitrary: p m) (simp_all add: algebra_simps)

lemma put_bytes_read:
  "length cs \<le> 2 ^ 64 \<Longrightarrow> put_bytes p cs m a = (if unat (a - p) < length cs then cs ! unat (a - p) else m a)"
proof (induction cs arbitrary: p m)
  case (Cons c cs)
  show ?case
  proof (cases "a = p")
    case True
    have "unat (-1 :: u64) = 2 ^ 64 - 1" by (simp add: unsigned_minus_1_eq_mask mask_eq_exp_minus_1)
    then show ?thesis using Cons True by simp
  next
    case False
    have "unat (a - p) = Suc (unat (a - p - 1))"
      using False unat_gt_0 [of "a - p"] unat_sub_no_wrap [of 1 "a - p"] by (simp add: word_le_nat_alt Suc_le_eq)
    moreover have "a - p - 1 = a - (p + 1)" by simp
    ultimately have "unat (a - p) = Suc (unat (a - (p + 1)))" by (simp only:)
    then show ?thesis using Cons False by simp
  qed
qed simp

lemma read_written:
  assumes "length cs < 2 ^ 64"
  shows "get_bytes (length cs) p (put_bytes p cs m) = cs"
proof (rule nth_equalityI)
  fix i assume "i < length (get_bytes (length cs) p (put_bytes p cs m))"
  then have i: "i < length cs" by (simp add: get_bytes_def)
  have "unat (of_nat i :: u64) = i" by (rule unat_of_nat_small) (use i assms in simp)
  then show "get_bytes (length cs) p (put_bytes p cs m) ! i = cs ! i" using i assms by (simp add: get_bytes_def put_bytes_read)
qed (simp add: get_bytes_def)

text \<open>A block that was written elsewhere: the two lie one behind the other.\<close>

lemma read_elsewhere:
  assumes "unat p + n \<le> unat q \<or> unat q + length cs \<le> unat p" "unat p + n < 2 ^ 63" "unat q + length cs < 2 ^ 63"
  shows "get_bytes n p (put_bytes q cs m) = get_bytes n p m"
proof -
  have "put_bytes q cs m (p + of_nat j) = m (p + of_nat j)" if "j < n" for j
  proof -
    have "unat (of_nat j :: u64) = j" by (rule unat_of_nat_small) (use that assms(2) in simp)
    then have a: "unat (p + of_nat j) = unat p + j" using unat_add_no_wrap [of p "of_nat j"] that assms(2) by simp
    have "\<not> unat (p + of_nat j - q) < length cs"
    proof (cases "unat q \<le> unat (p + of_nat j)")
      case True
      then have "unat (p + of_nat j - q) = unat p + j - unat q" using unat_sub_no_wrap [of q "p + of_nat j"] a by (simp add: word_le_nat_alt)
      then show ?thesis using assms(1) that True a by linarith
    next
      case False
      then have "unat (q - (p + of_nat j)) = unat q - (unat p + j)" using unat_sub_no_wrap [of "p + of_nat j" q] a by (simp add: word_le_nat_alt)
      then have "unat (p + of_nat j - q) = 2 ^ 64 - (unat q - (unat p + j))" using unat_neg [of "q - (p + of_nat j)"] False a by simp
      then show ?thesis using assms(3) False a by (simp del: unat_add_lem)
    qed
    then show ?thesis using assms(3) by (simp add: put_bytes_read)
  qed
  then show ?thesis by (simp add: get_bytes_def)
qed

lemma string_at_bytes:
  assumes "0 \<notin> set s" "get_bytes (length s) p m = s" "m (p + of_nat (length s)) = 0"
  shows "string_at m p = Some s"
proof -
  have "strlen_at m p = Some (length s)" using assms
  proof (induction s arbitrary: p)
    case Nil
    then show ?case by (subst strlen_at.simps) simp
  next
    case (Cons c s)
    have "map (\<lambda>j. m (p + of_nat j)) [0..<Suc (length s)] = c # s" using Cons.prems(2) by (simp add: get_bytes_def)
    then have "m p = c" "get_bytes (length s) (p + 1) m = s"
      unfolding map_upt_Suc by (simp_all add: get_bytes_def algebra_simps)
    moreover have "m (p + 1 + of_nat (length s)) = 0" using Cons.prems(3) by (simp add: algebra_simps)
    ultimately show ?case using Cons.IH [of "p + 1"] Cons.prems(1) by (subst strlen_at.simps) auto
  qed
  then show ?thesis using assms(2) by (simp add: string_at_def)
qed

section \<open>The text of a message\<close>

definition params_tag :: "u8 list" where
  "params_tag = bytes_of ''params''"

definition message_doc :: "u8 list \<Rightarrow> u8 list \<Rightarrow> xtree" where
  "message_doc t enc = Branch params_tag [Leaf t (32 # enc @ [32])]"

definition message_text :: "u8 list \<Rightarrow> u8 list \<Rightarrow> u8 list" where
  "message_text t enc = print_tree (message_doc t enc) @ [10]"

lemma message_parts: "message_text t enc = (bytes_of ''<params><'' @ t @ bytes_of ''> '') @ enc @ (bytes_of '' </'' @ t @ bytes_of ''></params>'' @ [10])"
  by (simp add: message_text_def message_doc_def open_tag_def close_tag_def params_tag_def bytes_of_def)

lemma sprintf_open: "sprintf e (bytes_of ''<params><%s> '') [Str t] m = Inr (put_bytes e (bytes_of ''<params><'' @ t @ bytes_of ''> '') m)"
  by (simp add: sprintf_def sprintf_raw_def format_loop.simps emit_def bytes_of_def)

lemma sprintf_close:
  "sprintf e (bytes_of '' </%s></params>'' @ [10]) [Str t] m = Inr (put_bytes e (bytes_of '' </'' @ t @ bytes_of ''></params>'' @ [10]) m)"
  by (simp add: sprintf_def sprintf_raw_def format_loop.simps emit_def bytes_of_def)

section \<open>Writing a message\<close>

abbreviation heap_at :: "MemoryAllocator \<Rightarrow> nat" where
  "heap_at al \<equiv> unat (kernel_memory_current_address al)"

lemma kmalloc_gives:
  assumes "kernel_ok al" "heap_at al + s < unat (kernel_memory_end_address al)"
  defines "al' \<equiv> al\<lparr>kernel_memory_current_address := kernel_memory_current_address al + of_nat s\<rparr>"
  shows "kmalloc apic al (of_nat s) = Some (kernel_memory_current_address al, al')" "kernel_ok al'" "heap_at al' = heap_at al + s"
    "kernel_memory_current_address al \<noteq> 0" "kernel_memory_end_address al' = kernel_memory_end_address al"
proof -
  have e: "unat (kernel_memory_end_address al) < 2 ^ 62" using assms(1) by (simp add: kernel_ok_def word_less_nat_alt)
  have "unat (of_nat s :: u64) = s" by (rule unat_of_nat_small) (use assms(2) e in simp)
  then have u: "unat (kernel_memory_current_address al + of_nat s) = heap_at al + s"
    using unat_add_no_wrap [of "kernel_memory_current_address al" "of_nat s"] assms(2) e by simp
  then have lt: "kernel_memory_current_address al + of_nat s < kernel_memory_end_address al" using assms(2) by (simp add: word_less_nat_alt)
  show "kmalloc apic al (of_nat s) = Some (kernel_memory_current_address al, al')"
    using assms(1) lt by (simp add: kmalloc_free kernel_ok_def al'_def)
  show "heap_at al' = heap_at al + s" "kernel_memory_end_address al' = kernel_memory_end_address al" using u by (simp_all add: al'_def)
  show "kernel_memory_current_address al \<noteq> 0" using assms(1) by (auto simp: kernel_ok_def)
  have "0 < kernel_memory_current_address al + of_nat s" using assms(1) u by (simp add: kernel_ok_def word_less_nat_alt)
  then show "kernel_ok al'" using assms(1) lt by (simp add: kernel_ok_def al'_def)
qed

lemma encode_gives:
  assumes "kernel_ok al" "length data < 2 ^ 32" "heap_at al + (length data * 4 div 3 + 4) < unat (kernel_memory_end_address al)"
  shows "base64_encode apic al data = Some (Some (kernel_memory_current_address al, encode_loop data),
    al\<lparr>kernel_memory_current_address := kernel_memory_current_address al + of_nat (length data * 4 div 3 + 4)\<rparr>)"
proof -
  have l: "length data < 2 ^ 61" using assms(2) by simp
  have u: "unat (of_nat (length data * 4 div 3 + 4) :: u64) = length data * 4 div 3 + 4" by (rule unat_of_nat_small) (use assms(2) in simp)
  have o: "(of_nat (length data) :: u64) * 4 div 3 + 4 = of_nat (length data * 4 div 3 + 4)"
    using encode_size [OF l] u by (simp only: word_unat_eq_iff)
  have "unat (of_nat (length data) :: u64) = length data" by (rule unat_of_nat_small) (use assms(2) in simp)
  then have "\<not> (of_nat (length data * 4 div 3 + 4) :: u64) < of_nat (length data)" unfolding word_less_nat_alt u by linarith
  then show ?thesis
    using kmalloc_gives(1,4) [OF assms(1,3)] unfolding base64_encode_def Let_def o by simp
qed

lemma decode_gives:
  assumes "kernel_ok al" "length data < 2 ^ 32" "data \<noteq> []" "heap_at al + ((length data + 2) div 3 * 3) < unat (kernel_memory_end_address al)"
    and "\<forall>c\<in>set pre \<union> set tail. dec1 c = 0x80"
  shows "base64_decode apic al (pre @ encode_loop data @ tail) = Some (Some (kernel_memory_current_address al, data),
    al\<lparr>kernel_memory_current_address := kernel_memory_current_address al + of_nat ((length data + 2) div 3 * 3)\<rparr>)"
  using decode_of_encode [OF assms(3) _ assms(5), of apic al] assms(2) kmalloc_gives(1,4) [OF assms(1,4)] by simp

lemma fill_as_put: "n < 2 ^ 63 \<Longrightarrow> mem_fill b 0 (of_nat n) m = put_bytes b (replicate n 0) m"
proof
  fix a
  assume "n < 2 ^ 63"
  then have "unat (of_nat n :: u64) = n" by (intro unat_of_nat_small) simp
  then show "mem_fill b 0 (of_nat n) m a = put_bytes b (replicate n 0) m a"
    using \<open>n < 2 ^ 63\<close> by (simp add: mem_fill_def put_bytes_read word_less_nat_alt)
qed

lemma total_size:
  assumes "unat (arg_size a) < 2 ^ 32" "length (tag (fst a)) < 2 ^ 32"
  shows "maximumTotalSize [a] = of_nat (2 * length (tag (fst a)) + 9 + unat (arg_size a) * 4 div 3)"
proof -
  let ?n = "unat (arg_size a)"
  have "unat (arg_size a * 4) = ?n * 4" using assms(1) by (subst unat_mult_lem [THEN iffD1]) simp_all
  then have "unat (arg_size a * 4 div 3) = ?n * 4 div 3" by (simp add: unat_div)
  then have "arg_size a * 4 div 3 = of_nat (?n * 4 div 3)" by (metis of_nat_unat ucast_id)
  moreover have "(4 div 3 :: u64) = 1" by simp
  ultimately show ?thesis by (simp add: maximumTotalSize_def algebra_simps del: of_nat_div)
qed

lemma xk_simps [simp]:
  "xk_mem (on_xk_mem f k) = f (xk_mem k)" "xk_alloc (on_xk_mem f k) = xk_alloc k" "xk_mem (set_alloc al k) = xk_mem k" "xk_alloc (set_alloc al k) = al"
  by (simp_all add: xk_mem_def on_xk_mem_def on_io_def on_mem_def xk_alloc_def set_alloc_def)

lemma string_written: "0 \<notin> set s \<Longrightarrow> length s + 1 < 2 ^ 64 \<Longrightarrow> string_at ((put_bytes p s m)(p + of_nat (length s) := 0)) p = Some s"
proof -
  assume z: "0 \<notin> set s" and l: "length s + 1 < 2 ^ 64"
  have e: "(put_bytes p s m)(p + of_nat (length s) := 0) = put_bytes p (s @ [0]) m" by (simp add: put_bytes_append)
  have "get_bytes (length (s @ [0])) p (put_bytes p (s @ [0]) m) = s @ [0]" by (rule read_written) (use l in simp)
  then have "get_bytes (length s) p (put_bytes p (s @ [0]) m) = s" by (simp add: get_bytes_def)
  then show ?thesis unfolding e by (rule string_at_bytes [OF z]) (simp add: put_bytes_append)
qed

lemma encode_bounds: "length (encode_loop data) \<le> length data * 4 div 3 + 3"
  unfolding encode_loop_length by presburger

text \<open>One parameter, from the end of a string on: \<open>al\<close> is the heap behind the block of the message.\<close>

lemma convert_writes:
  fixes data t
  assumes ok: "kernel_ok (xk_alloc k)" and n: "length data < 2 ^ 32" "data \<noteq> []" and t: "t = bytes_of (tag (fst a))" "length t < 2 ^ 32"
    and data: "get_bytes (unat (arg_size a)) (fst (snd a)) (xk_mem k) = data"
    and room: "heap_at (xk_alloc k) + 3 * length data + 8 < unat (kernel_memory_end_address (xk_alloc k))"
    and below: "unat e + length t + 11 \<le> heap_at (xk_alloc k)"
  shows "\<exists>al m. convert_one env a e k = Some (Inr (e + of_nat (length (message_text t (encode_loop data))),
      on_xk_mem (\<lambda>_. put_bytes e (message_text t (encode_loop data)) m) (set_alloc al k))) \<and>
    kernel_ok al \<and> heap_at al \<le> heap_at (xk_alloc k) + 3 * length data + 6 \<and>
    kernel_memory_end_address al = kernel_memory_end_address (xk_alloc k)"
proof -
  let ?al = "xk_alloc k" and ?enc = "encode_loop data" and ?n = "length data"
  let ?p = "kernel_memory_current_address ?al" and ?o = "?n * 4 div 3 + 4"
  let ?al1 = "?al\<lparr>kernel_memory_current_address := ?p + of_nat ?o\<rparr>"
  let ?p' = "kernel_memory_current_address ?al1"
  define pre where "pre = bytes_of ''<params><'' @ t @ bytes_of ''> ''"
  define post where "post = bytes_of '' </'' @ t @ bytes_of ''></params>'' @ [10]"
  have lens: "length pre = length t + 11" "length post = length t + 14" by (simp_all add: pre_def post_def bytes_of_def)
  have end62: "unat (kernel_memory_end_address ?al) < 2 ^ 62" using ok by (simp add: kernel_ok_def word_less_nat_alt)
  have p63: "(2 :: nat) ^ 62 < 2 ^ 63" "(2 :: nat) ^ 62 < 2 ^ 64" by simp_all
  have r1: "heap_at ?al + ?o < unat (kernel_memory_end_address ?al)" using room by linarith
  note g = kmalloc_gives [OF ok r1]
  have r2: "heap_at ?al1 + ((?n + 2) div 3 * 3) < unat (kernel_memory_end_address ?al1)"
  proof -
    have "?n * 4 div 3 \<le> 2 * ?n" "(?n + 2) div 3 * 3 \<le> ?n + 2" by linarith+
    then show ?thesis unfolding g(3,5) using room by linarith
  qed
  note enc = encode_gives [OF ok n(1) r1]
  define al2 where "al2 = ?al1\<lparr>kernel_memory_current_address := ?p' + of_nat ((?n + 2) div 3 * 3)\<rparr>"
  have dec: "base64_decode core ?al1 ?enc = Some (Some (?p', data), al2)" for core
  proof -
    have "\<forall>c\<in>set [] \<union> set []. dec1 c = 0x80" by simp
    from decode_gives [OF g(2) n r2 this] show ?thesis by (simp only: append_Nil append_Nil2 al2_def)
  qed
  define m where "m = put_bytes ?p' data (put_bytes ?p ?enc (xk_mem k))"
  have got: "get_bytes (length ?enc) ?p (put_bytes e pre m) = ?enc"
  proof -
    note b = encode_bounds [of data]
    have "get_bytes (length ?enc) ?p (put_bytes e pre m) = get_bytes (length ?enc) ?p m"
    proof (rule read_elsewhere [OF disjI2])
      show "unat e + length pre \<le> heap_at ?al" using below lens by simp
      then show "unat e + length pre < 2 ^ 63" using r1 end62 p63 by linarith
      show "heap_at ?al + length ?enc < 2 ^ 63" using r1 end62 b p63 by linarith
    qed
    also have "\<dots> = get_bytes (length ?enc) ?p (put_bytes ?p ?enc (xk_mem k))"
      unfolding m_def
    proof (rule read_elsewhere [OF disjI1])
      show "heap_at ?al + length ?enc \<le> unat ?p'" unfolding g(3) using b by linarith
      show "heap_at ?al + length ?enc < 2 ^ 63" using r1 end62 b p63 by linarith
      show "unat ?p' + length data < 2 ^ 63" unfolding g(3) using room end62 p63 by linarith
    qed
    also have "\<dots> = ?enc" by (rule read_written) (use b r1 end62 p63 in linarith)
    finally show ?thesis .
  qed
  let ?e1 = "e + of_nat (length t) + 11"
  let ?e2 = "?e1 + of_nat (length ?enc)"
  have whole: "put_bytes ?e2 post (memcpy_at ?e1 ?p (length ?enc) (put_bytes e pre m)) = put_bytes e (message_text t ?enc) m"
    unfolding memcpy_at_def got message_parts pre_def [symmetric] post_def [symmetric]
    by (simp add: put_bytes_append lens algebra_simps)
  have fin: "?e2 + of_nat (length t) + 14 = e + of_nat (length (message_text t ?enc))"
    unfolding message_parts pre_def [symmetric] post_def [symmetric] by (simp add: lens algebra_simps)
  have "convert_one env a e k = Some (Inr (?e2 + of_nat (length t) + 14,
      on_xk_mem (\<lambda>_. put_bytes ?e2 post (memcpy_at ?e1 ?p (length ?enc) (put_bytes e pre m))) (set_alloc al2 k)))"
    unfolding convert_one_def Let_def t(1) [symmetric] data enc returned_def option.map then_do_simps prod.case option.case dec
    by (simp only: then_do_simps prod.case option.case sprintf_open sprintf_close pre_def post_def m_def)
  moreover have "kernel_ok al2" "heap_at al2 = heap_at ?al + ?o + (?n + 2) div 3 * 3"
    "kernel_memory_end_address al2 = kernel_memory_end_address ?al"
    using kmalloc_gives(2,3,5) [OF g(2) r2] g(3) by (simp_all add: al2_def)
  moreover have "?o + (?n + 2) div 3 * 3 \<le> 3 * ?n + 6" by linarith
  ultimately show ?thesis unfolding whole fin by (intro exI [of _ al2]) auto
qed

lemma no_code: "dec1 0 = 0x80" "dec1 32 = 0x80" "dec1 60 = 0x80"
  by code_simp+

lemma encode_chars: "0 \<notin> set (encode_loop data)" "60 \<notin> set (encode_loop data)"
proof -
  have "\<forall>c\<in>set (encode_loop data). dec1 c \<noteq> 0x80" using encode_loop_valid [of data] by (simp only: filter_id_conv)
  then show "0 \<notin> set (encode_loop data)" "60 \<notin> set (encode_loop data)" using no_code by metis+
qed

lemma message_no_zero: "0 \<notin> set t \<Longrightarrow> 0 \<notin> set (message_text t (encode_loop data))"
  using encode_chars(1) [of data] by (simp add: message_parts bytes_of_def)

text \<open>A value that can be sent: described by a name of at least five characters, not empty, outside the free heap, which has room for the
  message and its two codes. With shorter names the text of the message would overlap the code it is copied from.\<close>

definition sendable :: "message_arg \<Rightarrow> xml_kernel \<Rightarrow> bool" where
  "sendable a k \<longleftrightarrow>
     (let n = unat (arg_size a); t = length (tag (fst a)); v = unat (fst (snd a)); al = xk_alloc k
      in kernel_ok al \<and> 0 < n \<and> n < 2 ^ 32 \<and> 5 \<le> t \<and> t < 2 ^ 32 \<and> 0 \<notin> set (bytes_of (tag (fst a))) \<and>
         heap_at al + 2 * t + 5 * n + 17 < unat (kernel_memory_end_address al) \<and>
         (v + n \<le> heap_at al \<or> heap_at al + 2 * t + 2 * n + 9 \<le> v) \<and> v + n < 2 ^ 63)"

definition value_of :: "message_arg \<Rightarrow> xml_kernel \<Rightarrow> u8 list" where
  "value_of a k = get_bytes (unat (arg_size a)) (fst (snd a)) (xk_mem k)"

lemma message_in_memory:
  assumes "sendable a k"
  defines "t \<equiv> bytes_of (tag (fst a))" and "al \<equiv> xk_alloc k"
  shows "\<exists>k' al1. ConvertTagToXML env [a] k = Some (Inr (kernel_memory_current_address al, k')) \<and>
    string_at (xk_mem k') (kernel_memory_current_address al) = Some (message_text t (encode_loop (value_of a k))) \<and>
    kmalloc (self (xe_ata env)) al (maximumTotalSize [a]) = Some (kernel_memory_current_address al, al1) \<and>
    heap_at al1 = heap_at al + (2 * length t + 9 + unat (arg_size a) * 4 div 3) \<and>
    kernel_ok (xk_alloc k') \<and> heap_at (xk_alloc k') \<le> heap_at al + 2 * length t + 5 * unat (arg_size a) + 15 \<and>
    kernel_memory_end_address (xk_alloc k') = kernel_memory_end_address al"
proof -
  let ?n = "unat (arg_size a)" and ?T = "length (tag (fst a))" and ?b = "kernel_memory_current_address al" and ?data = "value_of a k"
  let ?M = "2 * ?T + 9 + ?n * 4 div 3"
  have s: "kernel_ok al" "0 < ?n" "?n < 2 ^ 32" "5 \<le> ?T" "?T < 2 ^ 32" "0 \<notin> set t" "heap_at al + 2 * ?T + 5 * ?n + 17 < unat (kernel_memory_end_address al)"
    "unat (fst (snd a)) + ?n \<le> heap_at al \<or> heap_at al + 2 * ?T + 2 * ?n + 9 \<le> unat (fst (snd a))" "unat (fst (snd a)) + ?n < 2 ^ 63"
    using assms(1) by (simp_all add: sendable_def Let_def al_def t_def)
  have T: "length t = ?T" by (simp add: t_def bytes_of_def)
  have d: "length ?data = ?n" by (simp add: value_of_def get_bytes_def)
  have n4: "?n * 4 div 3 \<le> 2 * ?n" by linarith
  have end62: "unat (kernel_memory_end_address al) < 2 ^ 62" using s(1) by (simp add: kernel_ok_def word_less_nat_alt)
  have p: "(2 :: nat) ^ 62 < 2 ^ 63" "(2 :: nat) ^ 62 + 100 < 2 ^ 64" by simp_all
  have r: "heap_at al + ?M < unat (kernel_memory_end_address al)" using s(7) n4 by linarith
  note g = kmalloc_gives [OF s(1) r] and M = total_size [OF s(3,5)]
  define al1 where "al1 = al\<lparr>kernel_memory_current_address := ?b + of_nat ?M\<rparr>"
  note g = g [folded al1_def]
  define k1 where "k1 = on_xk_mem (mem_fill ?b 0 (of_nat ?M)) (set_alloc al1 k)"
  have k1: "xk_alloc k1 = al1" "xk_mem k1 = put_bytes ?b (replicate ?M 0) (xk_mem k)"
    using r end62 p by (simp_all only: k1_def xk_simps fill_as_put [of ?M])
  have data1: "get_bytes ?n (fst (snd a)) (xk_mem k1) = ?data"
    unfolding k1(2) value_of_def
  proof (rule read_elsewhere)
    show "unat (fst (snd a)) + ?n \<le> heap_at al \<or> heap_at al + length (replicate ?M (0 :: u8)) \<le> unat (fst (snd a))"
      unfolding length_replicate using s(8) n4 by linarith
    show "heap_at al + length (replicate ?M (0 :: u8)) < 2 ^ 63" unfolding length_replicate using r end62 p by linarith
  qed (rule s(9))
  have rest: "length ?data < 2 ^ 32" "?data \<noteq> []" "length t < 2 ^ 32" using d s(2,3,5) T by auto
  have room1: "heap_at (xk_alloc k1) + 3 * length ?data + 8 < unat (kernel_memory_end_address (xk_alloc k1))"
    unfolding k1(1) g(3,5) d using s(7) n4 by linarith
  have ok1: "kernel_ok (xk_alloc k1)" using k1(1) g(2) by simp
  have below1: "unat ?b + length t + 11 \<le> heap_at (xk_alloc k1)" unfolding k1(1) g(3) T using s(4) by linarith
  obtain al2 m where c: "convert_one env a ?b k1 = Some (Inr (?b + of_nat (length (message_text t (encode_loop ?data))),
      on_xk_mem (\<lambda>_. put_bytes ?b (message_text t (encode_loop ?data)) m) (set_alloc al2 k1)))"
    "kernel_ok al2" "heap_at al2 \<le> heap_at (xk_alloc k1) + 3 * length ?data + 6"
    "kernel_memory_end_address al2 = kernel_memory_end_address (xk_alloc k1)"
    using convert_writes [OF ok1 rest(1,2) t_def [THEN meta_eq_to_obj_eq] rest(3) data1 room1 below1, where env = env] by blast
  let ?msg = "message_text t (encode_loop ?data)"
  have len: "length ?msg + 1 < 2 ^ 64"
  proof -
    have "length ?msg = 2 * ?T + 25 + length (encode_loop ?data)" unfolding message_parts by (simp add: bytes_of_def T)
    then show ?thesis using encode_bounds [of ?data] s(7) end62 p n4 d by linarith
  qed
  define k2 where "k2 = on_xk_mem (\<lambda>m. m(?b + of_nat (length ?msg) := 0)) (on_xk_mem (\<lambda>_. put_bytes ?b ?msg m) (set_alloc al2 k1))"
  have "ConvertTagToXML env [a] k = Some (Inr (?b, k2))"
    unfolding ConvertTagToXML_def M al_def [symmetric] g(1) returned_def option.map then_do_simps prod.case k1_def [symmetric] convert_all.simps c(1)
    using g(4) by (simp add: k2_def)
  moreover have "string_at (xk_mem k2) ?b = Some ?msg"
    unfolding k2_def xk_simps by (rule string_written [OF message_no_zero [OF s(6)] len])
  moreover have "kmalloc (self (xe_ata env)) al (maximumTotalSize [a]) = Some (?b, al1)" unfolding M by (rule g(1))
  moreover have "heap_at al1 = heap_at al + (2 * length t + 9 + ?n * 4 div 3)" using g(3) T by simp
  moreover have "xk_alloc k2 = al2" by (simp add: k2_def)
  moreover have "heap_at al2 \<le> heap_at al + 2 * length t + 5 * ?n + 15" "kernel_memory_end_address al2 = kernel_memory_end_address al"
    using c(3,4) n4 by (simp_all add: k1(1) g(3,5) d T)
  ultimately show ?thesis using c(2) by (intro exI [of _ k2] exI [of _ al1]) simp
qed

text \<open>\<open>ConvertTagToXML\<close> with one value returns a block that holds exactly the message of the value: its name as a tag around
  the Base64 code of its bytes, inside \<open>params\<close>, ended by a zero byte.\<close>

theorem message_written:
  assumes "sendable a k"
  shows "\<exists>b k'. ConvertTagToXML env [a] k = Some (Inr (b, k')) \<and>
    string_at (xk_mem k') b = Some (message_text (bytes_of (tag (fst a))) (encode_loop (value_of a k)))"
  using message_in_memory [OF assms] by blast

text \<open>C39: the text of the message is longer than the block it is written to: 17 or more bytes, the zero byte included, go behind the end of
  the block that was allocated for it.\<close>

theorem message_overruns_block:
  assumes "sendable a k"
  shows "\<exists>b k' al1 msg. kmalloc (self (xe_ata env)) (xk_alloc k) (maximumTotalSize [a]) = Some (b, al1) \<and>
    ConvertTagToXML env [a] k = Some (Inr (b, k')) \<and> string_at (xk_mem k') b = Some msg \<and>
    unat (kernel_memory_current_address al1) + 17 \<le> unat b + (length msg + 1)"
proof -
  let ?t = "bytes_of (tag (fst a))" and ?b = "kernel_memory_current_address (xk_alloc k)" and ?msg = "message_text (bytes_of (tag (fst a))) (encode_loop (value_of a k))"
  obtain k' al1 where m: "ConvertTagToXML env [a] k = Some (Inr (?b, k'))" "string_at (xk_mem k') ?b = Some ?msg"
    "kmalloc (self (xe_ata env)) (xk_alloc k) (maximumTotalSize [a]) = Some (?b, al1)"
    "heap_at al1 = unat ?b + (2 * length ?t + 9 + unat (arg_size a) * 4 div 3)"
    using message_in_memory [OF assms] by blast
  have "length (value_of a k) = unat (arg_size a)" by (simp add: value_of_def get_bytes_def)
  then have "unat (arg_size a) * 4 div 3 \<le> length (encode_loop (value_of a k))" unfolding encode_loop_length by presburger
  moreover have "length ?msg = 2 * length ?t + 25 + length (encode_loop (value_of a k))" unfolding message_parts by (simp add: bytes_of_def)
  ultimately show ?thesis using m by (intro exI [of _ ?b] exI [of _ k'] exI [of _ al1] exI [of _ ?msg]) simp
qed

section \<open>Reading a message\<close>

lemma split_piece: "47 \<notin> set s \<Longrightarrow> acc @ s \<noteq> [] \<Longrightarrow> split_path acc s = [acc @ s]"
  by (induction s arbitrary: acc) auto

lemma message_path: "47 \<notin> set t \<Longrightarrow> t \<noteq> [] \<Longrightarrow> split_path [] (bytes_of ''params/'' @ t) = [params_tag, t]"
  using split_piece [of t "[]"] by (simp add: bytes_of_def params_tag_def)

lemma message_doc_ok:
  assumes "tag_ok t"
  shows "doc_ok (message_doc t (encode_loop data))" "nodes_of (message_doc t enc) = 2" "depth_of (message_doc t enc) = 2"
  using assms encode_chars [of data] by (auto simp: message_doc_def params_tag_def bytes_of_def tag_ok_def text_ok_def)

lemma copied_value: "copy_value s v = Inr v' \<Longrightarrow> 0 \<notin> set s \<Longrightarrow> cstring v' 0 = s"
  using cstring_here [of s "[]" "drop (length s + 1) v"] by (auto simp: copy_value_def split: if_splits)

text \<open>The receiver: its call stack holds arrays of the declared sizes, and the value fits.\<close>

definition receiving :: "xml_env \<Rightarrow> u8 list \<Rightarrow> nat \<Rightarrow> xml_kernel \<Rightarrow> bool" where
  "receiving env t n k \<longleftrightarrow> vstack_ptr (raw_stack env) < 128 \<and> length (vstack (raw_stack env)) = 128 \<and> length (xquery_items (raw_query env)) = 32 \<and>
     tagDirectory (xmlService k) = t \<and> n + 2 < length (xs_value (xmlService k))"

text \<open>Looking up an element that holds a text.\<close>

lemma query_leaf:
  assumes doc: "rep (xml_source h) (xml_nodes h) d 0" "doc_ok d" "xml_right (xml_nodes h 0) = None" and "root_tag d = params_tag"
    and found: "first_with t (kids d) 1 = Some (Leaf t x, j)" and t: "tag_ok t" "piece_ok t" and x: "0 \<notin> set x" "length x < length (xs_value (xmlService k))"
    and "sys_xml_confg k = Some h" "tagDirectory (xmlService k) = t" "length (xquery_items (raw_query env)) = 32"
  shows "\<exists>v. getValueFromTagMessage env k = Some (Inr (k\<lparr>xmlService := (xmlService k)\<lparr>xs_value := v\<rparr>\<rparr>)) \<and> cstring v 0 = x \<and>
    length v = length (xs_value (xmlService k))"
proof -
  have q: "split_path [] (bytes_of ''params/'' @ t) = [params_tag, t]" by (rule message_path) (use t(1) in \<open>auto simp: tag_ok_def\<close>)
  have l: "length (bytes_of ''params/'' @ t) < 1024" using t(2) by (simp add: piece_ok_def MAX_XQUERY_TAG_NAME_def bytes_of_def)
  have pieces: "list_all piece_ok [params_tag, t]" using t(2) by (simp add: piece_ok_def params_tag_def bytes_of_def MAX_XQUERY_TAG_NAME_def)
  have f: "find_path [t] (first_with params_tag [d] 0) = Some (Leaf t x, j)" using assms(4) found by simp
  have e: "exec_xquery (raw_query env) (bytes_of ''params/'' @ t) h = Some (Inr (Some j))" "rep (xml_source h) (xml_nodes h) (Leaf t x) j"
    using query_document [OF doc q pieces _ l assms(12)] unfolding f by auto
  obtain c where c: "xml_content (xml_nodes h j) = Some c" "cstring (xml_source h) c = x"
    using e(2) by (auto simp: has_str_def str_in_def split: option.splits)
  let ?v = "x @ 0 # drop (length x + 1) (xs_value (xmlService k))"
  have v: "copy_value x (xs_value (xmlService k)) = Inr ?v" using x(2) by (simp add: copy_value_def)
  have "getValueFromTagMessage env k = Some (Inr (k\<lparr>xmlService := (xmlService k)\<lparr>xs_value := ?v\<rparr>\<rparr>))"
    using l assms(10,11) e(1) c v by (simp add: getValueFromTagMessage_def query_value_def)
  then show ?thesis using copied_value [OF v x(1)] x(2) by (intro exI [of _ ?v]) simp
qed

lemma value_queried:
  assumes "receiving env t (length (encode_loop data)) k" "tag_ok t" "piece_ok t"
    and "ata_kvalloc (xe_ata env) sizeof_xml_heap (xk_ata k) = Some (Inr (a, s))" "a \<noteq> 0"
  shows "\<exists>k'. then_do (ParseXMLString env (message_text t (encode_loop data)) k) (getValueFromTagMessage env) = Some (Inr k') \<and> xk_ata k' = s \<and>
    cstring (xs_value (xmlService k')) 0 = 32 # encode_loop data @ [32]"
proof -
  let ?enc = "encode_loop data"
  let ?doc = "message_doc t ?enc"
  have r: "vstack_ptr (raw_stack env) < 128" "length (vstack (raw_stack env)) = 128" "length (xquery_items (raw_query env)) = 32"
    "tagDirectory (xmlService k) = t" "length ?enc + 2 < length (xs_value (xmlService k))" using assms(1) by (simp_all add: receiving_def)
  note ok = message_doc_ok [OF assms(2)]
  have fits: "text_ok [10]" "nodes_of ?doc \<le> MAX_XML_NODES" "depth_of ?doc \<le> 128" using ok(2,3) by (simp_all add: text_ok_def MAX_XML_NODES_def)
  obtain h where h: "parse_xml (raw_stack env) (xml_heap_init (message_text t ?enc) (raw_heap env a)) = Some (Inr (1, h))"
    "rep (xml_source h) (xml_nodes h) ?doc 0" "xml_right (xml_nodes h 0) = None"
    using document_read [OF r(1,2) ok(1) [of data] fits, of "raw_heap env a"] unfolding message_text_def by blast
  define k1 where "k1 = k\<lparr>xk_ata := s, sys_xml_confg := Some h\<rparr>"
  have p: "ParseXMLString env (message_text t ?enc) k = Some (Inr k1)"
    using assms(4,5) h(1) by (simp add: ParseXMLString_def k1_def)
  have "root_tag ?doc = params_tag" "first_with t (kids ?doc) 1 = Some (Leaf t (32 # ?enc @ [32]), 1)" by (simp_all add: message_doc_def)
  then obtain v where "getValueFromTagMessage env k1 = Some (Inr (k1\<lparr>xmlService := (xmlService k1)\<lparr>xs_value := v\<rparr>\<rparr>))" "cstring v 0 = 32 # ?enc @ [32]"
    using query_leaf [OF h(2) ok(1) h(3) _ _ assms(2,3), of "32 # ?enc @ [32]" 1 k1 env] r encode_chars(1) [of data] by (auto simp: k1_def)
  then show ?thesis using p by (auto simp: k1_def)
qed

text \<open>C13: the receiver of a message gets the value back: parsing the text, asking for the tag and decoding the answer gives the bytes that were
  sent, provided the heap has room for the node table and the result.\<close>

theorem message_read_back:
  assumes "receiving env t (length (encode_loop data)) k" "tag_ok t" "piece_ok t" "data \<noteq> []" "length data < 2 ^ 32"
    and "ata_kvalloc (xe_ata env) sizeof_xml_heap (xk_ata k) = Some (Inr (a, s))" "a \<noteq> 0"
    and "kernel_ok (ap_alloc (at_apic s))" "unat (kernel_memory_current_address (ap_alloc (at_apic s))) + (length data + 2) < unat (kernel_memory_end_address (ap_alloc (at_apic s)))"
  shows "\<exists>k' p al. then_do (ParseXMLString env (message_text t (encode_loop data)) k) (getValueFromTagMessage env) = Some (Inr k') \<and>
    base64_decode (self (xe_ata env)) (xk_alloc k') (cstring (xs_value (xmlService k')) 0) = Some (Some (p, data), al)"
proof -
  obtain k' where k': "then_do (ParseXMLString env (message_text t (encode_loop data)) k) (getValueFromTagMessage env) = Some (Inr k')" "xk_ata k' = s"
    "cstring (xs_value (xmlService k')) 0 = [32] @ encode_loop data @ [32]"
    using value_queried [OF assms(1-3,6,7)] by auto
  have "(length data + 2) div 3 * 3 \<le> length data + 2" by simp
  then have room: "heap_at (ap_alloc (at_apic s)) + ((length data + 2) div 3 * 3) < unat (kernel_memory_end_address (ap_alloc (at_apic s)))"
    using assms(9) by linarith
  have "\<forall>c\<in>set [32] \<union> set [32]. dec1 c = 0x80" using no_code by simp
  note d = decode_gives [OF assms(8,5,4) room this]
  have "\<exists>p al. base64_decode (self (xe_ata env)) (xk_alloc k') (cstring (xs_value (xmlService k')) 0) = Some (Some (p, data), al)"
    unfolding xk_alloc_def k'(2,3) d by blast
  then show ?thesis using k'(1) by blast
qed

section \<open>An example\<close>

definition demo_param :: Parameter where
  "demo_param = \<lparr>tag = ''Result'', type_name = ''uint64_t'', encrypted = False, base64Encoded = True, variableSize = False, sizeOfParameter = 8\<rparr>"

definition demo_xml_kernel :: xml_kernel where
  "demo_xml_kernel = \<lparr>sys_xml_confg = None,
     xmlService = \<lparr>sectors_start = 0, sectors_count_to_read = 0, ata_core_id = 0, tagDirectory = bytes_of ''Result'', xs_value = replicate 256 0\<rparr>,
     xk_ata = demo_ata_state\<lparr>at_apic := demo_apic_state\<lparr>ap_alloc := demo_allocator\<lparr>kernel_memory_end_address := 0x10000000\<rparr>\<rparr>\<rparr>\<rparr>"

definition demo_xml_env :: xml_env where
  "demo_xml_env = \<lparr>xe_ata = demo_ata, raw_stack = demo_raw_stack, raw_query = demo_query, raw_heap = \<lambda>_. demo_xml\<rparr>"

lemma demo_sendable: "sendable (demo_param, 0x1000, 0) demo_xml_kernel"
  by (simp add: sendable_def Let_def arg_size_def demo_param_def demo_xml_kernel_def xk_alloc_def demo_allocator_def kernel_ok_def lock_free_def bytes_of_def)

theorem message_written_witness:
  "sendable (demo_param, 0x1000, 0) demo_xml_kernel \<and>
   (\<exists>b k'. ConvertTagToXML demo_xml_env [(demo_param, 0x1000, 0)] demo_xml_kernel = Some (Inr (b, k')) \<and>
     string_at (xk_mem k') b = Some (message_text (bytes_of ''Result'') (encode_loop (value_of (demo_param, 0x1000, 0) demo_xml_kernel))))"
  using message_written [OF demo_sendable, where env = demo_xml_env] demo_sendable by (simp add: demo_param_def)

theorem message_overruns_block_witness:
  "\<exists>b k' al1 msg. kmalloc 0 (xk_alloc demo_xml_kernel) (maximumTotalSize [(demo_param, 0x1000, 0)]) = Some (b, al1) \<and>
    ConvertTagToXML demo_xml_env [(demo_param, 0x1000, 0)] demo_xml_kernel = Some (Inr (b, k')) \<and> string_at (xk_mem k') b = Some msg \<and>
    unat (kernel_memory_current_address al1) + 17 \<le> unat b + (length msg + 1)"
  using message_overruns_block [OF demo_sendable, where env = demo_xml_env] by (simp add: demo_xml_env_def demo_ata_def)

lemma demo_kvalloc:
  "ata_kvalloc demo_ata sizeof_xml_heap (xk_ata demo_xml_kernel) = Some (Inr (0x2E01000, demo_ata_state\<lparr>at_apic := demo_apic_state\<lparr>ap_alloc :=
     demo_allocator\<lparr>kernel_memory_end_address := 0x10000000, kernel_memory_current_address := 0x3401028\<rparr>\<rparr>\<rparr>))"
  by (simp add: ata_kvalloc_def returned_def demo_xml_kernel_def kvalloc_free demo_allocator_def lock_free_def page_align_up_def sizeof_xml_heap_def)

theorem message_read_back_witness:
  "\<exists>k' p al. then_do (ParseXMLString demo_xml_env (message_text (bytes_of ''Result'') (encode_loop [1, 2, 3, 4, 5, 6, 7, 8])) demo_xml_kernel)
      (getValueFromTagMessage demo_xml_env) = Some (Inr k') \<and>
    base64_decode 0 (xk_alloc k') (cstring (xs_value (xmlService k')) 0) = Some (Some (p, [1, 2, 3, 4, 5, 6, 7, 8]), al)"
proof -
  have e: "xe_ata demo_xml_env = demo_ata" "self demo_ata = 0" by (simp_all add: demo_xml_env_def demo_ata_def)
  have "receiving demo_xml_env (bytes_of ''Result'') (length (encode_loop [1, 2, 3, 4, 5, 6, 7, 8])) demo_xml_kernel"
    by (simp add: receiving_def demo_xml_env_def demo_raw_stack_def demo_query_def demo_xml_kernel_def encode_loop_length)
  moreover have "tag_ok (bytes_of ''Result'')" "piece_ok (bytes_of ''Result'')"
    by (simp_all add: tag_ok_def piece_ok_def bytes_of_def MAX_XQUERY_TAG_NAME_def)
  ultimately show ?thesis
    using message_read_back [where env = demo_xml_env and k = demo_xml_kernel and t = "bytes_of ''Result''" and data = "[1, 2, 3, 4, 5, 6, 7, 8]",
        OF _ _ _ _ _ demo_kvalloc [folded e(1)]]
    unfolding e by (simp add: demo_allocator_def kernel_ok_def lock_free_def)
qed

end
