(* ===== verification/ServiceDemo.thy ===== *)
theory ServiceDemo
  imports MessageProofs
begin

text \<open>
  The demonstration service from the text of a request to the text of the answer: the parameters are found in the request and read as
  numbers, the function is computed and its value sent back as a message.
\<close>

section \<open>The function\<close>

fun ackermann :: "nat \<Rightarrow> nat \<Rightarrow> nat" where
  "ackermann 0 n = Suc n"
| "ackermann (Suc m) 0 = ackermann m 1"
| "ackermann (Suc m) (Suc n) = ackermann m (ackermann (Suc m) n)"

lemma ackermann_grows: "n < ackermann m n"
proof (induction m n rule: ackermann.induct)
  case (3 m n)
  then show ?case by simp
qed auto

text \<open>As long as its value fits an \<open>int\<close>, the recursion on machine integers returns and gives the value of Ackermann's function.\<close>

lemma ack_value: "ackermann m n < 2 ^ 31 \<Longrightarrow> ack (int m) (int n) = Inr (int (ackermann m n))"
proof (induction m n rule: ackermann.induct)
  case (1 n)
  then show ?case by (subst ack.simps) simp
next
  case (2 m)
  then show ?case by (subst ack.simps) simp
next
  case (3 m n)
  have "ackermann (Suc m) n < 2 ^ 31" using 3(3) ackermann_grows [of "ackermann (Suc m) n" m] by simp
  from 3(1) [OF this] 3(2) 3(3) show ?case by (subst ack.simps) simp
qed

section \<open>The request\<close>

definition first_tag :: "u8 list" where "first_tag = bytes_of ''FirstValue''"
definition second_tag :: "u8 list" where "second_tag = bytes_of ''SecondValue''"

definition number_text :: "u64 \<Rightarrow> u8 list" where
  "number_text v = 32 # dec_string v @ [32]"

definition request_doc :: "u64 \<Rightarrow> u64 \<Rightarrow> xtree" where
  "request_doc a b = Branch params_tag [Leaf first_tag (number_text a), Leaf second_tag (number_text b)]"

lemma number_ok: "text_ok (number_text v)" "atoi (number_text v) = v" "0 \<notin> set (number_text v)" "length (dec_string v) \<le> 20"
proof -
  have "\<forall>c\<in>set (dec_string v). c \<noteq> 0 \<and> c \<noteq> 60" using dec_string_digits [of _ v] by (force simp: is_digit_char_def)
  then show "text_ok (number_text v)" "0 \<notin> set (number_text v)" by (auto simp: text_ok_def number_text_def)
  have "atoi (32 # dec_string v @ [32]) = atoi (dec_string v @ [32])" by (simp add: atoi_def)
  then show "atoi (number_text v) = v" using atoi_dec_string [of v "[]"] by (simp add: number_text_def)
  have "length (dec_chars D n b) \<le> k" if "unat D < 10 ^ k" for D n b k using that
  proof (induction k arbitrary: D n b)
    case 0
    then have "D = 0" by (simp add: unat_eq_0)
    then show ?case by (simp add: dec_chars_zero)
  next
    case (Suc k)
    have "unat (D div 10) < 10 ^ k" using Suc.prems by (simp add: unat_div less_mult_imp_div_less)
    from Suc.IH [OF this] show ?case by (subst dec_chars.simps) (auto simp: Let_def intro: le_SucI)
  qed
  then show "length (dec_string v) \<le> 20" by (simp add: dec_string_def)
qed

lemma request_ok_doc: "doc_ok (request_doc a b)" "nodes_of (request_doc a b) = 3" "depth_of (request_doc a b) = 2"
  using number_ok(1) [of a] number_ok(1) [of b]
  by (simp_all add: request_doc_def tag_ok_def params_tag_def first_tag_def second_tag_def bytes_of_def)

lemma kvalloc_gives:
  assumes "kernel_ok al" "heap_at al + 4096 + n < unat (kernel_memory_end_address al)"
  shows "\<exists>a al'. kvalloc apic al (of_nat n) = Some (a, al') \<and> a \<noteq> 0 \<and> kernel_ok al' \<and> heap_at al \<le> heap_at al' \<and>
    heap_at al' < heap_at al + 4096 + n \<and> kernel_memory_end_address al' = kernel_memory_end_address al"
proof -
  note b = kernel_ok_bounds [OF assms(1)]
  let ?c = "page_align_up (kernel_memory_current_address al)"
  note c = page_align_up_props [OF b(4,2)]
  have e: "unat (kernel_memory_end_address al) < 2 ^ 62" using b(5) by (simp add: word_less_nat_alt)
  have "unat (of_nat n :: u64) = n" by (rule unat_of_nat_small) (use assms(2) e in simp)
  then have u: "unat (?c + of_nat n) = unat ?c + n" using unat_add_no_wrap [of ?c "of_nat n"] c(2) assms(2) e by simp
  then have lt: "?c + of_nat n < kernel_memory_end_address al" using c(2) assms(2) by (simp add: word_less_nat_alt)
  let ?al = "al\<lparr>kernel_memory_current_address := ?c + of_nat n\<rparr>"
  have "0 < ?c + of_nat n" using u c(1) b(2) by (simp add: word_less_nat_alt)
  then have "kernel_ok ?al" using assms(1) lt by (simp add: kernel_ok_def)
  moreover have "kvalloc apic al (of_nat n) = Some (?c, ?al)" using lt b(1) by (simp add: kvalloc_free)
  ultimately show ?thesis using c u by auto
qed

text \<open>The service after its initialisation, and a kernel with enough of its heap left.\<close>

definition described :: "ack_method Service \<Rightarrow> bool" where
  "described srv \<longleftrightarrow> testMethod srv \<noteq> [] \<and>
     (let t = testMethod srv ! 0
      in parametersCount t = 2 \<and> length (parameters t) = 15 \<and> tag (parameters t ! 0) = ''FirstValue'' \<and> tag (parameters t ! 1) = ''SecondValue'' \<and>
         length (returns_of t) = 15 \<and> tag (returns_of t ! 0) = ''Result'' \<and> \<not> variableSize (returns_of t ! 0) \<and> sizeOfParameter (returns_of t ! 0) = 8)"

definition blank :: "ack_method Service \<Rightarrow> bool" where
  "blank srv \<longleftrightarrow> service_wf srv \<and> add_serviceTest_hook srv \<and> serviceTestParameterDescription_hook srv \<and>
     (\<forall>t\<in>set (testMethod srv). parametersCount t = 0 \<and> returnsCount t = 0 \<and> (\<forall>p\<in>set (parameters t) \<union> set (returns_of t). tag p = [] \<and> type_name p = []))"

lemma init_describes:
  assumes "blank srv"
  shows "\<exists>srv'. initAckermannFunctionService srv = Inr (5, srv') \<and> described srv'"
proof -
  obtain t ts where t: "testMethod srv = t # ts" using assms by (cases "testMethod srv") (auto simp: blank_def service_wf_def)
  then have c: "parametersCount t = 0" "returnsCount t = 0" "length (parameters t) = 15" "length (returns_of t) = 15"
    using assms by (simp_all add: blank_def service_wf_def)
  obtain p1 p2 ps where p: "parameters t = p1 # p2 # ps" "length ps = 13" using c(3) by (auto simp: length_Suc_conv numeral_eq_Suc)
  obtain r rs where r: "returns_of t = r # rs" "length rs = 14" using c(4) by (auto simp: length_Suc_conv numeral_eq_Suc)
  have e: "tag p1 = []" "type_name p1 = []" "tag p2 = []" "type_name p2 = []" "tag r = []" "type_name r = []"
    using assms t p r by (auto simp: blank_def)
  have h: "add_serviceTest_hook srv" "serviceTestParameterDescription_hook srv" using assms by (simp_all add: blank_def)
  show ?thesis
    unfolding initAckermannFunctionService_def add_service_test_def strcpy_into_def add_serviceTestParameterDescription_def describe_def memcpy_string_def
    by (simp add: h t p r c e Let_def arr_get_def arr_set_def in_array_def MAX_FUNCTIONS_def described_def)
qed

definition answering :: "xml_env \<Rightarrow> xml_kernel \<Rightarrow> bool" where
  "answering env k \<longleftrightarrow> vstack_ptr (raw_stack env) < 128 \<and> length (vstack (raw_stack env)) = 128 \<and> length (xquery_items (raw_query env)) = 32 \<and>
     length (xs_value (xmlService k)) = 256 \<and> kernel_ok (xk_alloc k) \<and> heap_at (xk_alloc k) + 6298000 < unat (kernel_memory_end_address (xk_alloc k))"

lemma request_parsed:
  assumes "answering env k"
  shows "\<exists>k' h. then_do (returned (kmalloc (self (xe_ata env)) (xk_alloc k) 16)) (\<lambda>(a, al).
        if a = 0 then Some (Inl Null_pointer) else ParseXMLString env (print_tree (request_doc a1 a2)) (set_alloc al k)) = Some (Inr k') \<and>
    sys_xml_confg k' = Some h \<and> rep (xml_source h) (xml_nodes h) (request_doc a1 a2) 0 \<and> xml_right (xml_nodes h 0) = None \<and>
    xmlService k' = xmlService k \<and> kernel_ok (xk_alloc k') \<and> heap_at (xk_alloc k) \<le> heap_at (xk_alloc k') \<and>
    heap_at (xk_alloc k') + 2000 < unat (kernel_memory_end_address (xk_alloc k'))"
proof -
  let ?core = "self (xe_ata env)" and ?al = "xk_alloc k"
  have a: "vstack_ptr (raw_stack env) < 128" "length (vstack (raw_stack env)) = 128" "kernel_ok ?al" "heap_at ?al + 6298000 < unat (kernel_memory_end_address ?al)"
    using assms by (simp_all add: answering_def)
  have "heap_at ?al + 16 < unat (kernel_memory_end_address ?al)" using a(4) by simp
  note g = kmalloc_gives [OF a(3) this]
  define al1 where "al1 = ?al\<lparr>kernel_memory_current_address := kernel_memory_current_address ?al + of_nat 16\<rparr>"
  note g = g [folded al1_def]
  have "heap_at al1 + 4096 + 6291496 < unat (kernel_memory_end_address al1)" using g(3,5) a(4) by simp
  from kvalloc_gives [OF g(2) this, of ?core] obtain p al2 where v: "kvalloc ?core al1 (of_nat 6291496) = Some (p, al2)" "p \<noteq> 0" "kernel_ok al2"
    "heap_at al1 \<le> heap_at al2" "heap_at al2 < heap_at al1 + 4096 + 6291496" "kernel_memory_end_address al2 = kernel_memory_end_address al1" by blast
  note ok = request_ok_doc [of a1 a2]
  have "text_ok []" "nodes_of (request_doc a1 a2) \<le> MAX_XML_NODES" "depth_of (request_doc a1 a2) \<le> 128"
    using ok(2,3) by (simp_all add: text_ok_def MAX_XML_NODES_def)
  from document_read [OF a(1,2) ok(1) this, of "raw_heap env p"] obtain h where
    h: "parse_xml (raw_stack env) (xml_heap_init (print_tree (request_doc a1 a2)) (raw_heap env p)) = Some (Inr (1, h))"
    "rep (xml_source h) (xml_nodes h) (request_doc a1 a2) 0" "xml_right (xml_nodes h 0) = None" by auto
  define s where "s = (xk_ata (set_alloc al1 k))\<lparr>at_apic := (at_apic (xk_ata (set_alloc al1 k)))\<lparr>ap_alloc := al2\<rparr>\<rparr>"
  have sz: "sizeof_xml_heap = of_nat 6291496" by (simp add: sizeof_xml_heap_def)
  have al: "ap_alloc (at_apic (xk_ata (set_alloc al1 k))) = al1" by (simp add: set_alloc_def)
  have kv: "ata_kvalloc (xe_ata env) sizeof_xml_heap (xk_ata (set_alloc al1 k)) = Some (Inr (p, s))"
    unfolding ata_kvalloc_def returned_def sz al v(1) by (simp add: s_def)
  define k' where "k' = (set_alloc al1 k)\<lparr>xk_ata := s, sys_xml_confg := Some h\<rparr>"
  have "ParseXMLString env (print_tree (request_doc a1 a2)) (set_alloc al1 k) = Some (Inr k')"
    unfolding ParseXMLString_def kv using v(2) h(1) by (simp add: k'_def)
  moreover have "kmalloc ?core ?al 16 = Some (kernel_memory_current_address ?al, al1)" using g(1) by simp
  ultimately have "then_do (returned (kmalloc ?core ?al 16)) (\<lambda>(a, al).
      if a = 0 then Some (Inl Null_pointer) else ParseXMLString env (print_tree (request_doc a1 a2)) (set_alloc al k)) = Some (Inr k')"
    using g(4) by (simp add: returned_def)
  moreover have "xk_alloc k' = al2" by (simp add: k'_def xk_alloc_def s_def)
  moreover have "sys_xml_confg k' = Some h" "xmlService k' = xmlService k" by (simp_all add: k'_def set_alloc_def)
  ultimately show ?thesis using h(2,3) v(3-6) g(3,5) a(4) by (intro exI [of _ k'] exI [of _ h]) simp
qed

lemma parameters_read:
  assumes "described srv" "answering env k"
  shows "\<exists>k'. ParseAckermannFunctionXML env srv (print_tree (request_doc a1 a2)) 0 raw k = Some (Inr (\<lparr>ack_m = a1, ack_n = a2\<rparr>, k')) \<and>
    kernel_ok (xk_alloc k') \<and> heap_at (xk_alloc k) \<le> heap_at (xk_alloc k') \<and> heap_at (xk_alloc k') + 2000 < unat (kernel_memory_end_address (xk_alloc k'))"
proof -
  let ?t = "testMethod srv ! 0"
  obtain k1 h where k1: "then_do (returned (kmalloc (self (xe_ata env)) (xk_alloc k) 16)) (\<lambda>(a, al).
        if a = 0 then Some (Inl Null_pointer) else ParseXMLString env (print_tree (request_doc a1 a2)) (set_alloc al k)) = Some (Inr k1)"
    "sys_xml_confg k1 = Some h" and doc: "rep (xml_source h) (xml_nodes h) (request_doc a1 a2) 0" "xml_right (xml_nodes h 0) = None"
    and k1': "xmlService k1 = xmlService k" "kernel_ok (xk_alloc k1)" "heap_at (xk_alloc k) \<le> heap_at (xk_alloc k1)"
      "heap_at (xk_alloc k1) + 2000 < unat (kernel_memory_end_address (xk_alloc k1))"
    using request_parsed [OF assms(2)] by blast
  have e: "length (xquery_items (raw_query env)) = 32" "length (xs_value (xmlService k)) = 256" using assms(2) by (simp_all add: answering_def)
  have len: "length (number_text a1) < 256" "length (number_text a2) < 256" using number_ok(4) [of a1] number_ok(4) [of a2] by (simp_all add: number_text_def)
  have kd: "root_tag (request_doc a1 a2) = params_tag" "first_with first_tag (kids (request_doc a1 a2)) 1 = Some (Leaf first_tag (number_text a1), 1)"
    "first_with second_tag (kids (request_doc a1 a2)) 1 = Some (Leaf second_tag (number_text a2), 2)"
    by (simp_all add: request_doc_def first_tag_def second_tag_def bytes_of_def)
  have tg: "tag_ok first_tag" "piece_ok first_tag" "tag_ok second_tag" "piece_ok second_tag"
    by (simp_all add: tag_ok_def piece_ok_def first_tag_def second_tag_def bytes_of_def MAX_XQUERY_TAG_NAME_def)
  note q = query_leaf [OF doc(1) request_ok_doc(1) doc(2) kd(1)]
  let ?k2 = "k1\<lparr>xmlService := (xmlService k1)\<lparr>tagDirectory := first_tag\<rparr>\<rparr>"
  from q [OF kd(2) tg(1,2) number_ok(3), of ?k2 env] obtain v1 where v1: "getValueFromTagMessage env ?k2 =
      Some (Inr (?k2\<lparr>xmlService := (xmlService ?k2)\<lparr>xs_value := v1\<rparr>\<rparr>))" "cstring v1 0 = number_text a1" "length v1 = 256"
    using k1(2) k1'(1) e len by auto
  let ?k3 = "?k2\<lparr>xmlService := (xmlService ?k2)\<lparr>xs_value := v1, tagDirectory := second_tag\<rparr>\<rparr>"
  from q [OF kd(3) tg(3,4) number_ok(3), of ?k3 env] obtain v2 where v2: "getValueFromTagMessage env ?k3 =
      Some (Inr (?k3\<lparr>xmlService := (xmlService ?k3)\<lparr>xs_value := v2\<rparr>\<rparr>))" "cstring v2 0 = number_text a2"
    using k1(2) e len v1(3) by auto
  define k' where "k' = ?k3\<lparr>xmlService := (xmlService ?k3)\<lparr>xs_value := v2\<rparr>\<rparr>"
  obtain p1 p2 ps where p: "parameters ?t = p1 # p2 # ps" "tag p1 = ''FirstValue''" "tag p2 = ''SecondValue''"
    using assms(1) by (auto simp: described_def Let_def length_Suc_conv numeral_eq_Suc)
  have "parse_params env assign_ack [p1, p2] raw k1 = Some (Inr (\<lparr>ack_m = a1, ack_n = a2\<rparr>, k'))"
    using v1(1,2) v2 p(2,3) number_ok(2) by (cases raw) (simp add: first_tag_def second_tag_def assign_ack_def k'_def)
  moreover have "arr_get (testMethod srv) 0 = Inr ?t" "parametersCount ?t = 2" "length (parameters ?t) = 15"
    using assms(1) by (simp_all add: described_def Let_def arr_get_def in_array_def)
  moreover obtain a al where m: "kmalloc (self (xe_ata env)) (xk_alloc k) 16 = Some (a, al)" "a \<noteq> 0" "ParseXMLString env (print_tree (request_doc a1 a2)) (set_alloc al k) = Some (Inr k1)"
    using k1(1) by (cases "kmalloc (self (xe_ata env)) (xk_alloc k) 16") (auto simp: returned_def split: if_splits)
  ultimately have "ParseAckermannFunctionXML env srv (print_tree (request_doc a1 a2)) 0 raw k = Some (Inr (\<lparr>ack_m = a1, ack_n = a2\<rparr>, k'))"
    using p(1) by (simp add: ParseAckermannFunctionXML_def parse_request_def returned_def)
  moreover have "xk_alloc k' = xk_alloc k1" by (simp add: k'_def xk_alloc_def)
  ultimately show ?thesis using k1'(2-4) by auto
qed

section \<open>The answer\<close>

lemma ack_called:
  assumes "m < 2 ^ 31" "ackermann m n < 2 ^ 31"
  shows "ack_rounds (Suc i) \<lparr>ack_m = of_nat m, ack_n = of_nat n\<rparr> r = Inr (of_nat (ackermann m n))"
proof -
  have n: "n < 2 ^ 31" using assms(2) ackermann_grows [of n m] by simp
  have u: "c_int (uint (of_nat x :: u64)) = int x" if "x < 2 ^ 31" for x
  proof -
    have "uint (of_nat x :: u64) = int x" using that by (simp add: unsigned_of_nat take_bit_nat_eq_self)
    then show ?thesis using that by simp
  qed
  have "ack (c_int (uint (of_nat m :: u64))) (c_int (uint (of_nat n :: u64))) = Inr (int (ackermann m n))"
    unfolding u [OF assms(1)] u [OF n] by (rule ack_value [OF assms(2)])
  then show ?thesis by (induction i arbitrary: r) simp_all
qed

lemma call_answers:
  assumes "described srv" "m < 2 ^ 31" "ackermann m n < 2 ^ 31" "kernel_ok (xk_alloc k)" "unat adr + 8 \<le> heap_at (xk_alloc k)"
    and "heap_at (xk_alloc k) + 2000 < unat (kernel_memory_end_address (xk_alloc k))"
  shows "\<exists>b k'. CallAckermannFunction env srv 5 adr \<lparr>ack_m = of_nat m, ack_n = of_nat n\<rparr> k = Some (Inr (b, k')) \<and>
    string_at (xk_mem k') b = Some (message_text (bytes_of ''Result'') (encode_loop (bytes64 (of_nat (ackermann m n))))) \<and>
    kernel_ok (xk_alloc k') \<and> heap_at (xk_alloc k') + 1900 < unat (kernel_memory_end_address (xk_alloc k'))"
proof -
  let ?t = "testMethod srv ! 0" and ?v = "of_nat (ackermann m n) :: u64"
  let ?r = "returns_of ?t ! 0" and ?k = "on_xk_mem (put_bytes adr (bytes64 ?v)) k"
  have r: "tag ?r = ''Result''" "\<not> variableSize ?r" "sizeOfParameter ?r = 8" "arr_get (testMethod srv) 0 = Inr ?t" "arr_get (returns_of ?t) 0 = Inr ?r"
    using assms(1) by (simp_all add: described_def Let_def arr_get_def in_array_def)
  have size: "arg_size (?r, adr, 0) = 8" using r by (simp add: arg_size_def)
  have "heap_at (xk_alloc k) < 2 ^ 62" using kernel_ok_bounds(4) [OF assms(4)] by (simp add: word_less_nat_alt)
  then have "sendable (?r, adr, 0) ?k" using assms(4-6) r(1) size by (simp add: sendable_def bytes_of_def)
  from message_in_memory [OF this, of env] obtain b k' where m: "ConvertTagToXML env [(?r, adr, 0)] ?k = Some (Inr (b, k'))"
    "string_at (xk_mem k') b = Some (message_text (bytes_of ''Result'') (encode_loop (value_of (?r, adr, 0) ?k)))" "kernel_ok (xk_alloc k')"
    "heap_at (xk_alloc k') \<le> heap_at (xk_alloc k) + 67" "kernel_memory_end_address (xk_alloc k') = kernel_memory_end_address (xk_alloc k)"
    using r(1) size by (auto simp: bytes_of_def)
  have l: "length (bytes64 ?v) = 8" by (simp add: bytes64_def)
  then have "value_of (?r, adr, 0) ?k = bytes64 ?v" using read_written [of "bytes64 ?v" adr] size by (simp add: value_of_def)
  moreover have "ack_rounds (unat (5 :: u64)) \<lparr>ack_m = of_nat m, ack_n = of_nat n\<rparr> 0 = Inr ?v"
  proof -
    have "unat (5 :: u64) = Suc 4" by simp
    then show ?thesis using ack_called [OF assms(2,3), of 4 0] by (simp only:)
  qed
  then have "CallAckermannFunction env srv 5 adr \<lparr>ack_m = of_nat m, ack_n = of_nat n\<rparr> k = Some (Inr (b, k'))"
    using r(4,5) m(1) by (simp add: CallAckermannFunction_def)
  ultimately show ?thesis using m(2-5) assms(6) by auto
qed

lemma request_answered:
  assumes "described srv" "answering env k" "m < 2 ^ 31" "ackermann m n < 2 ^ 31"
    and "unat adr + 8 \<le> unat (kernel_memory_current_address (xk_alloc k))"
  shows "\<exists>b k'. then_do (ParseAckermannFunctionXML env srv (print_tree (request_doc (of_nat m) (of_nat n))) 0 raw k)
      (\<lambda>(p, k). CallAckermannFunction env srv 5 adr p k) = Some (Inr (b, k')) \<and>
    string_at (xk_mem k') b = Some (message_text (bytes_of ''Result'') (encode_loop (bytes64 (of_nat (ackermann m n))))) \<and>
    kernel_ok (xk_alloc k') \<and> heap_at (xk_alloc k') + 1900 < unat (kernel_memory_end_address (xk_alloc k'))"
proof -
  obtain k1 where k1: "ParseAckermannFunctionXML env srv (print_tree (request_doc (of_nat m) (of_nat n))) 0 raw k =
      Some (Inr (\<lparr>ack_m = of_nat m, ack_n = of_nat n\<rparr>, k1))" "kernel_ok (xk_alloc k1)" "heap_at (xk_alloc k) \<le> heap_at (xk_alloc k1)"
    "heap_at (xk_alloc k1) + 2000 < unat (kernel_memory_end_address (xk_alloc k1))"
    using parameters_read [OF assms(1,2)] by blast
  have "unat adr + 8 \<le> heap_at (xk_alloc k1)" using assms(5) k1(3) by simp
  from call_answers [OF assms(1,3,4) k1(2) this k1(4), of env] show ?thesis using k1(1) by simp
qed

text \<open>The service answers a request: from the text that names the two arguments, printed as decimal numbers, to the message that carries
  the bytes of the value of Ackermann's function, as long as that value fits an \<open>int\<close> and the heap has room.\<close>

theorem service_answers_request:
  assumes "described srv" "answering env k" "m < 2 ^ 31" "ackermann m n < 2 ^ 31"
    and "unat adr + 8 \<le> unat (kernel_memory_current_address (xk_alloc k))"
  shows "\<exists>b k'. then_do (ParseAckermannFunctionXML env srv (print_tree (request_doc (of_nat m) (of_nat n))) 0 raw k)
      (\<lambda>(p, k). CallAckermannFunction env srv 5 adr p k) = Some (Inr (b, k')) \<and>
    string_at (xk_mem k') b = Some (message_text (bytes_of ''Result'') (encode_loop (bytes64 (of_nat (ackermann m n)))))"
  using request_answered [OF assms] by blast

definition demo_method :: "ack_method MethodStructure" where
  "demo_method = (let p = \<lparr>tag = [], type_name = [], encrypted = False, base64Encoded = False, variableSize = False, sizeOfParameter = 0\<rparr>
     in \<lparr>methodPtr = None, parameters = replicate 15 p, parametersCount = 0, returns_of = replicate 15 p, returnsCount = 0\<rparr>)"

definition demo_service :: "ack_method Service" where
  "demo_service = \<lparr>service_data = 0, service_method = replicate 255 None, parserMethod = None, testMethod = replicate 10 demo_method,
     service_name = ackermannFunctionService_t, service_method_count = 1, serviceString = [], add_service_hook = False, add_serviceTest_hook = True,
     serviceTestParameterDescription_hook = True\<rparr>"

lemma demo_blank: "blank demo_service"
  by (simp add: blank_def demo_service_def demo_method_def service_wf_def Let_def)

lemma demo_answering: "answering demo_xml_env demo_xml_kernel"
  by (simp add: answering_def demo_xml_env_def demo_raw_stack_def demo_query_def demo_xml_kernel_def xk_alloc_def demo_allocator_def kernel_ok_def lock_free_def)

theorem service_answers_request_witness:
  "\<exists>srv b k'. initAckermannFunctionService demo_service = Inr (5, srv) \<and>
    then_do (ParseAckermannFunctionXML demo_xml_env srv (print_tree (request_doc 2 3)) 0 \<lparr>ack_m = 7, ack_n = 7\<rparr> demo_xml_kernel)
      (\<lambda>(p, k). CallAckermannFunction demo_xml_env srv 5 0x1000 p k) = Some (Inr (b, k')) \<and>
    string_at (xk_mem k') b = Some (message_text (bytes_of ''Result'') (encode_loop (bytes64 9)))"
proof -
  obtain srv where srv: "initAckermannFunctionService demo_service = Inr (5, srv)" "described srv" using init_describes [OF demo_blank] by blast
  have a: "ackermann 2 3 = 9" by (simp add: numeral_eq_Suc)
  have "unat (0x1000 :: u64) + 8 \<le> unat (kernel_memory_current_address (xk_alloc demo_xml_kernel))"
    by (simp add: demo_xml_kernel_def xk_alloc_def demo_allocator_def)
  from service_answers_request [OF srv(2) demo_answering, of 2 3 "0x1000" "\<lparr>ack_m = 7, ack_n = 7\<rparr>", OF _ _ this] a srv(1)
  show ?thesis by auto
qed

end
