(* ===== verification/Acpi.thy ===== *)
theory Acpi
  imports PhysicalMemory
begin

text \<open>
  Discovery of the processors and of the interrupt controllers,
  \<open>stage2/sources/devices/acpi/ACPI.c\<close>: \<open>init_acpi\<close> searches the firmware's area for the
  root pointer, the root table lists the other tables, and the interrupt controller table (MADT) is a
  sequence of structures of different lengths.

  The tables are only read, so the memory is an argument; the manager of the physical memory, to which
  the pages of the controllers are added, is threaded through. The walk over the MADT advances by a
  length it reads from the table, and a length of zero stops it from advancing: it is a partial
  function, \<^const>\<open>None\<close> being a walk that never ends.
\<close>

section \<open>The tables\<close>

record ACPI =
  rsdpDescriptor :: u64
  acpi_local_apic :: u64
  acpi_local_apicio :: u64
  cores_count :: u16

type_synonym acpi_state = "ACPI \<times> PhysicalMemoryManager"

definition APIC_TYPE_LOCAL_APIC :: u8 where "APIC_TYPE_LOCAL_APIC = 0"
definition APIC_TYPE_IO_APIC :: u8 where "APIC_TYPE_IO_APIC = 1"
definition APIC_TYPE_INTERRUPT_OVERRIDE :: u8 where "APIC_TYPE_INTERRUPT_OVERRIDE = 2"

definition RSD_SIGNATURE :: "u8 list" where "RSD_SIGNATURE = bytes_of ''RSD PTR ''"

definition FADT_SIGNATURE :: u32 where "FADT_SIGNATURE = 0x50434146"
definition MADT_SIGNATURE :: u32 where "MADT_SIGNATURE = 0x43495041"

text \<open>The fields of the header of a table (36 bytes), of the MADT (44 bytes), of a structure of the
  MADT, and of the root pointer.\<close>

definition table_signature :: "memory \<Rightarrow> u64 \<Rightarrow> u32" where
  "table_signature mem t = mem_u32 mem t"

definition table_length :: "memory \<Rightarrow> u64 \<Rightarrow> u32" where
  "table_length mem t = mem_u32 mem (t + 4)"

definition madt_localApicAddr :: "memory \<Rightarrow> u64 \<Rightarrow> u32" where
  "madt_localApicAddr mem t = mem_u32 mem (t + 36)"

definition apic_type :: "memory \<Rightarrow> u64 \<Rightarrow> u8" where "apic_type mem p = mem p"
definition apic_length :: "memory \<Rightarrow> u64 \<Rightarrow> u8" where "apic_length mem p = mem (p + 1)"
definition apicio_address :: "memory \<Rightarrow> u64 \<Rightarrow> u32" where "apicio_address mem p = mem_u32 mem (p + 4)"

definition rsdp_revision :: "memory \<Rightarrow> u64 \<Rightarrow> u8" where "rsdp_revision mem r = mem (r + 15)"
definition rsdp_rsdtAddr :: "memory \<Rightarrow> u64 \<Rightarrow> u32" where "rsdp_rsdtAddr mem r = mem_u32 mem (r + 16)"
definition rsdp_xsdtAddr :: "memory \<Rightarrow> u64 \<Rightarrow> u64" where "rsdp_xsdtAddr mem r = mem_u64 mem (r + 24)"

section \<open>The MADT\<close>

text \<open>A page of registers that no entry of the memory map covers becomes a reserved entry.\<close>

definition register_page :: "u64 \<Rightarrow> PhysicalMemoryManager \<Rightarrow> PhysicalMemoryManager" where
  "register_page a pm =
     (let pm = IsAddress (pm\<lparr>params := (params pm)\<lparr>p_physical_address := a\<rparr>\<rparr>)
      in if \<not> is_address (returns pm)
         then AddPhysicalMemoryEntry (pm\<lparr>params := (params pm)\<lparr>p_physical_address := a,
                p_size := of_int FOUR_KiB_MEMORY_PAGE_SIZE\<rparr>\<rparr>)
         else pm)"

text \<open>The body of the loop; the messages of the last two cases are all they do.\<close>

definition parse_structure :: "memory \<Rightarrow> u64 \<Rightarrow> acpi_state \<Rightarrow> acpi_state" where
  "parse_structure mem p st = (case st of (acpi, pm) \<Rightarrow>
     if apic_type mem p = APIC_TYPE_LOCAL_APIC
     then if p \<noteq> 0 then (acpi\<lparr>cores_count := cores_count acpi + 1\<rparr>, pm) else (acpi, pm)
     else if apic_type mem p = APIC_TYPE_IO_APIC
     then let acpi = acpi\<lparr>acpi_local_apicio := ucast (apicio_address mem p)\<rparr>
          in (acpi, register_page (acpi_local_apicio acpi) pm)
     else if apic_type mem p = APIC_TYPE_INTERRUPT_OVERRIDE then (acpi, pm)
     else (acpi, pm))"

partial_function (option) madt_loop :: "memory \<Rightarrow> u64 \<Rightarrow> u64 \<Rightarrow> acpi_state \<Rightarrow> acpi_state option" where
  "madt_loop mem end_ptr p st =
     (if p < end_ptr
      then madt_loop mem end_ptr (p + ucast (apic_length mem p)) (parse_structure mem p st)
      else Some st)"

definition parseAPIC :: "memory \<Rightarrow> u64 \<Rightarrow> acpi_state \<Rightarrow> (bool \<times> acpi_state) option" where
  "parseAPIC mem madt st = (case st of (acpi, pm) \<Rightarrow>
     let p = madt + 44;
         end_ptr = madt + ucast (table_length mem madt);
         acpi = acpi\<lparr>acpi_local_apic := ucast (madt_localApicAddr mem madt)\<rparr>;
         pm = register_page (acpi_local_apic acpi) pm;
         acpi = acpi\<lparr>cores_count := 0\<rparr>
     in map_option (Pair True) (madt_loop mem end_ptr p (acpi, pm)))"

section \<open>The root tables\<close>

definition virtual_address :: "u64 \<Rightarrow> acpi_state \<Rightarrow> u64 \<times> acpi_state" where
  "virtual_address a st = (case st of (acpi, pm) \<Rightarrow>
     let pm = GetVirtualAddress (pm\<lparr>params := (params pm)\<lparr>p_physical_address := a\<rparr>\<rparr>)
     in (virtualAddress (returns pm), (acpi, pm)))"

text \<open>The body of both loops: the table at the physical address of the entry.\<close>

definition parse_table :: "memory \<Rightarrow> u64 \<Rightarrow> acpi_state \<Rightarrow> acpi_state option" where
  "parse_table mem a st =
     (let (t, st) = virtual_address a st
      in if table_signature mem t = FADT_SIGNATURE then Some st
         else if table_signature mem t = MADT_SIGNATURE then map_option snd (parseAPIC mem t st)
         else Some st)"

partial_function (option) rsdt_loop :: "memory \<Rightarrow> u64 \<Rightarrow> u64 \<Rightarrow> acpi_state \<Rightarrow> acpi_state option" where
  "rsdt_loop mem end_ptr p st =
     (if p < end_ptr
      then Option.bind (parse_table mem (ucast (mem_u32 mem p)) st) (rsdt_loop mem end_ptr (p + 4))
      else Some st)"

partial_function (option) xsdt_loop :: "memory \<Rightarrow> u64 \<Rightarrow> u64 \<Rightarrow> acpi_state \<Rightarrow> acpi_state option" where
  "xsdt_loop mem end_ptr p st =
     (if p < end_ptr
      then Option.bind (parse_table mem (mem_u64 mem p) st) (xsdt_loop mem end_ptr (p + 8))
      else Some st)"

definition parseAPICV1 :: "memory \<Rightarrow> acpi_state \<Rightarrow> (bool \<times> acpi_state) option" where
  "parseAPICV1 mem st =
     (let (rsdt, st) = virtual_address (ucast (rsdp_rsdtAddr mem (rsdpDescriptor (fst st)))) st
      in map_option (Pair True) (rsdt_loop mem (rsdt + ucast (table_length mem rsdt)) (rsdt + 36) st))"

definition parseAPICV2 :: "memory \<Rightarrow> acpi_state \<Rightarrow> (bool \<times> acpi_state) option" where
  "parseAPICV2 mem st =
     (let (rsdt, st) = virtual_address (rsdp_xsdtAddr mem (rsdpDescriptor (fst st))) st
      in map_option (Pair True) (xsdt_loop mem (rsdt + ucast (table_length mem rsdt)) (rsdt + 36) st))"

definition parseACPIHeader :: "memory \<Rightarrow> acpi_state \<Rightarrow> (bool \<times> acpi_state) option" where
  "parseACPIHeader mem st =
     (let r = rsdpDescriptor (fst st)
      in if rsdp_revision mem r = 0 \<or> rsdp_xsdtAddr mem r = 0 then parseAPICV1 mem st
         else if rsdp_revision mem r \<ge> 1 then parseAPICV2 mem st
         else Some (False, st))"

section \<open>The root pointer\<close>

text \<open>The sum of the first 20 bytes, modulo 256; the null pointer is 0.\<close>

definition parseRSDT :: "memory \<Rightarrow> u64 \<Rightarrow> u64" where
  "parseRSDT mem r = (if fold (\<lambda>i s. s + mem (r + of_nat i)) [0..<20] 0 \<noteq> 0 then 0 else r)"

definition has_signature :: "memory \<Rightarrow> u64 \<Rightarrow> bool" where
  "has_signature mem ptr \<longleftrightarrow>
     memcmp (map (\<lambda>i. mem (ptr + of_nat i)) [0..<length RSD_SIGNATURE]) RSD_SIGNATURE (length RSD_SIGNATURE) = None"

function init_acpi_loop :: "memory \<Rightarrow> u64 \<Rightarrow> acpi_state \<Rightarrow> (bool \<times> acpi_state) option" where
  "init_acpi_loop mem ptr st =
     (if ptr < 0x000fffff
      then if has_signature mem ptr
           then let acpi = (fst st)\<lparr>rsdpDescriptor := parseRSDT mem ptr\<rparr>
                in if rsdpDescriptor acpi \<noteq> 0 then parseACPIHeader mem (acpi, snd st)
                   else Some (False, (acpi, snd st))
           else init_acpi_loop mem (ptr + 16) st
      else Some (False, st))"
  by pat_completeness auto
termination
proof (relation "measure (\<lambda>(_, ptr, _). 0x100010 - unat ptr)", simp, goal_cases)
  case (1 mem ptr st)
  then have "unat ptr < 0xfffff" by (simp add: word_less_nat_alt)
  then show ?case by (simp add: unat_add_no_wrap)
qed

definition init_acpi :: "memory \<Rightarrow> acpi_state \<Rightarrow> (bool \<times> acpi_state) option" where
  "init_acpi mem st = init_acpi_loop mem 0x000e0000 st"

end
