(* ===== verification/AcpiProofs.thy ===== *)
theory AcpiProofs
  imports Acpi
begin

text \<open>
  What the discovery of \<^theory_text>\<open>Acpi\<close> finds. The structures of the MADT are a datatype with their
  encoding in bytes; on a table that encodes a list of them the walk performs the effect of each in
  order, so that the processors are counted and the pages of the controllers are in the memory map.
  A structure of length zero keeps the walk at its place for ever.
\<close>

section \<open>The structures of the MADT\<close>

datatype madt_structure = Processor "u8 list" | Io_apic u8 u32 u32 | Other_structure u8 "u8 list"

definition u32_bytes :: "u32 \<Rightarrow> u8 list" where
  "u32_bytes w = [ucast w, ucast (drop_bit 8 w), ucast (drop_bit 16 w), ucast (drop_bit 24 w)]"

fun structure_bytes :: "madt_structure \<Rightarrow> u8 list" where
  "structure_bytes (Processor b) = [0, of_nat (length b + 2)] @ b"
| "structure_bytes (Io_apic i a g) = [1, 12, i, 0] @ u32_bytes a @ u32_bytes g"
| "structure_bytes (Other_structure t b) = [t, of_nat (length b + 2)] @ b"

fun structure_ok :: "madt_structure \<Rightarrow> bool" where
  "structure_ok (Processor b) \<longleftrightarrow> length b + 2 < 256"
| "structure_ok (Io_apic i a g) \<longleftrightarrow> True"
| "structure_ok (Other_structure t b) \<longleftrightarrow> t \<noteq> 0 \<and> t \<noteq> 1 \<and> length b + 2 < 256"

definition madt_bytes :: "madt_structure list \<Rightarrow> u8 list" where
  "madt_bytes ss = concat (map structure_bytes ss)"

fun is_processor :: "madt_structure \<Rightarrow> bool" where
  "is_processor (Processor b) = True"
| "is_processor (Io_apic i a g) = False"
| "is_processor (Other_structure t b) = False"

fun io_addresses :: "madt_structure list \<Rightarrow> u64 list" where
  "io_addresses [] = []"
| "io_addresses (Io_apic i a g # ss) = ucast a # io_addresses ss"
| "io_addresses (Processor b # ss) = io_addresses ss"
| "io_addresses (Other_structure t b # ss) = io_addresses ss"

fun structure_effect :: "madt_structure \<Rightarrow> acpi_state \<Rightarrow> acpi_state" where
  "structure_effect (Processor b) (acpi, pm) = (acpi\<lparr>cores_count := cores_count acpi + 1\<rparr>, pm)"
| "structure_effect (Io_apic i a g) (acpi, pm) = (acpi\<lparr>acpi_local_apicio := ucast a\<rparr>, register_page (ucast a) pm)"
| "structure_effect (Other_structure t b) st = st"

primrec bytes_at :: "memory \<Rightarrow> u64 \<Rightarrow> u8 list \<Rightarrow> bool" where
  "bytes_at mem p [] \<longleftrightarrow> True"
| "bytes_at mem p (b # bs) \<longleftrightarrow> mem p = b \<and> bytes_at mem (p + 1) bs"

lemma bytes_at_append:
  "bytes_at mem p (bs @ cs) \<longleftrightarrow> bytes_at mem p bs \<and> bytes_at mem (p + of_nat (length bs)) cs"
  by (induction bs arbitrary: p) (simp_all add: add.assoc)

lemma bytes_at_nth: "bytes_at mem p bs \<longleftrightarrow> (\<forall>i<length bs. mem (p + of_nat i) = bs ! i)"
  by (induction bs arbitrary: p) (simp_all add: All_less_Suc2 add.assoc)

lemma has_signature_iff: "has_signature mem p \<longleftrightarrow> bytes_at mem p RSD_SIGNATURE"
  by (simp add: has_signature_def memcmp_None bytes_at_nth)

lemma mem_u32_bytes:
  assumes "bytes_at mem p (u32_bytes w)"
  shows "mem_u32 mem p = w"
proof (rule bit_word_eqI)
  fix n :: nat
  assume "n < LENGTH(32)"
  then consider "n < 8" | "8 \<le> n" "n < 16" | "16 \<le> n" "n < 24" | "24 \<le> n" "n < 32" by fastforce
  then show "bit (mem_u32 mem p) n \<longleftrightarrow> bit w n"
    using assms by cases (simp_all add: u32_bytes_def mem_u32_def mem_u16_def add.assoc bit_simps
        less_diff_conv2 le_diff_conv2)
qed

lemma unat_u64_less: "unat (x :: u64) < 2 ^ 64"
  using unsigned_less [of x] by simp

lemma ucast_of_nat_byte: "n < 256 \<Longrightarrow> ucast (of_nat n :: u8) = (of_nat n :: u64)"
  by (simp add: unsigned_of_nat take_bit_nat_eq_self)

lemma ucast_of_nat_u32: "n < 2 ^ 32 \<Longrightarrow> ucast (of_nat n :: u32) = (of_nat n :: u64)"
  by (simp add: unsigned_of_nat take_bit_nat_eq_self)

lemma structure_length:
  assumes "structure_ok s" and "bytes_at mem p (structure_bytes s)"
  shows "ucast (apic_length mem p) = (of_nat (length (structure_bytes s)) :: u64)"
proof -
  have "apic_length mem p = of_nat (length (structure_bytes s))"
    using assms by (cases s) (simp_all add: apic_length_def u32_bytes_def)
  moreover have "length (structure_bytes s) < 256" using assms(1) by (cases s) (simp_all add: u32_bytes_def)
  ultimately show ?thesis using ucast_of_nat_byte [of "length (structure_bytes s)"] by presburger
qed

lemma structure_parsed:
  assumes "structure_ok s" and "bytes_at mem p (structure_bytes s)" and "p \<noteq> 0"
  shows "parse_structure mem p st = structure_effect s st"
proof (cases s)
  case (Io_apic i a g)
  have "bytes_at mem (p + 4) (u32_bytes a)"
    using assms(2) by (simp add: Io_apic bytes_at_append add.assoc)
  then show ?thesis using assms
    by (simp add: Io_apic parse_structure_def apic_type_def apicio_address_def
        APIC_TYPE_IO_APIC_def APIC_TYPE_LOCAL_APIC_def mem_u32_bytes Let_def split: prod.split)
qed (use assms in \<open>auto simp: parse_structure_def apic_type_def APIC_TYPE_IO_APIC_def
        APIC_TYPE_LOCAL_APIC_def split: prod.split\<close>)

section \<open>The walk\<close>

lemma structure_nonempty: "0 < length (structure_bytes s)"
  by (cases s) simp_all

lemma madt_loop_structures:
  assumes "list_all structure_ok ss" and "bytes_at mem p (madt_bytes ss)"
    and "unat p + length (madt_bytes ss) \<le> unat end_ptr" and "p \<noteq> 0"
  shows "madt_loop mem end_ptr p st =
    madt_loop mem end_ptr (p + of_nat (length (madt_bytes ss))) (fold structure_effect ss st)"
  using assms
proof (induction ss arbitrary: p st)
  case (Cons s ss)
  let ?n = "length (structure_bytes s)"
  have small: "unat p + ?n < 2 ^ 64" "?n < 2 ^ 64"
    using Cons.prems(3) unat_u64_less [of end_ptr] by (simp_all add: madt_bytes_def)
  have u: "unat (p + of_nat ?n) = unat p + ?n" using small by (simp add: unat_add_no_wrap unat_of_nat_small)
  then have "p + of_nat ?n \<noteq> 0" using structure_nonempty [of s] by (auto simp: unat_eq_zero)
  moreover have "p < end_ptr"
    using Cons.prems(3) structure_nonempty [of s] by (simp add: word_less_nat_alt madt_bytes_def del: length_greater_0_conv)
  ultimately show ?case using Cons.IH [of "p + of_nat ?n" "structure_effect s st"] Cons.prems u
    by (subst madt_loop.simps)
      (simp add: madt_bytes_def bytes_at_append structure_length [of s] structure_parsed [of s] add.assoc)
qed (simp add: madt_bytes_def)

lemma madt_loop_stuck:
  assumes "p < end_ptr" and "apic_length mem p = 0"
  shows "madt_loop mem end_ptr p st = None"
proof -
  have "\<not> (p < end_ptr \<and> apic_length mem p = 0)" if "madt_loop mem end_ptr p st = Some st'" for st'
  proof (rule madt_loop.raw_induct [OF _ that], goal_cases)
    case (1 loop mem end_ptr p st st')
    then have "loop mem end_ptr p (parse_structure mem p st) = Some st'"
      if "p < end_ptr" "apic_length mem p = 0" using that by simp
    then show ?case using 1(1) by blast
  qed
  then show ?thesis using assms by (cases "madt_loop mem end_ptr p st") auto
qed

section \<open>The memory map\<close>

definition covered :: "PhysicalMemoryManager \<Rightarrow> u64 \<Rightarrow> bool" where
  "covered pm a \<longleftrightarrow> is_address (returns (IsAddress (pm\<lparr>params := (params pm)\<lparr>p_physical_address := a\<rparr>\<rparr>)))"

lemma find_None_iff_all: "find P xs = None \<longleftrightarrow> (\<forall>x\<in>set xs. \<not> P x)"
  by (induction xs) auto

lemma covered_iff: "covered pm a \<longleftrightarrow> (\<exists>i<unat (memory_entries pm).
    start (physicalMemoryEntry pm i) \<le> a \<and> a < start (physicalMemoryEntry pm i) + esize (physicalMemoryEntry pm i))"
proof -
  let ?P = "\<lambda>e. start e \<le> a \<and> a < start e + esize e"
  have "covered pm a \<longleftrightarrow> find ?P (map (physicalMemoryEntry pm) [0..<unat (memory_entries pm)]) \<noteq> None"
    by (auto simp: covered_def IsAddress_def first_entry_def set_returns_def Let_def split: option.splits)
  then show ?thesis by (auto simp: find_None_iff_all)
qed

lemmas page_defs = register_page_def AddPhysicalMemoryEntry_def covered_def IsAddress_def first_entry_def
  set_returns_def Let_def FOUR_KiB_MEMORY_PAGE_SIZE_def

lemma register_page_known:
  assumes "covered pm a"
  shows "memory_entries (register_page a pm) = memory_entries pm"
    and "physicalMemoryEntry (register_page a pm) = physicalMemoryEntry pm"
  using assms by (auto simp: page_defs split: option.splits)

lemma register_page_new:
  assumes "\<not> covered pm a"
  shows "memory_entries (register_page a pm) = memory_entries pm + 1"
    and "physicalMemoryEntry (register_page a pm) = (physicalMemoryEntry pm)
      (unat (memory_entries pm) := (physicalMemoryEntry pm (unat (memory_entries pm)))
         \<lparr>start := a, esize := 4096, etype := E820_MEMORY_ENTRY_TYPE_RESEARVED, eend := a + 4096\<rparr>)"
  using assms by (auto simp: page_defs split: option.splits)

text \<open>An entry is appended and the others stay; the count has room for it.\<close>

lemma register_page_appends:
  assumes "unat (memory_entries pm) < 65535"
  shows "\<forall>i<unat (memory_entries pm). physicalMemoryEntry (register_page a pm) i = physicalMemoryEntry pm i"
    and "unat (memory_entries pm) \<le> unat (memory_entries (register_page a pm))"
    and "unat (memory_entries (register_page a pm)) \<le> Suc (unat (memory_entries pm))"
proof -
  have u: "unat (memory_entries pm + 1) = Suc (unat (memory_entries pm))"
    using assms by (simp add: unat_add_no_wrap)
  show "\<forall>i<unat (memory_entries pm). physicalMemoryEntry (register_page a pm) i = physicalMemoryEntry pm i"
    "unat (memory_entries pm) \<le> unat (memory_entries (register_page a pm))"
    "unat (memory_entries (register_page a pm)) \<le> Suc (unat (memory_entries pm))"
    using u by (cases "covered pm a"; simp add: register_page_known register_page_new)+
qed

lemma register_page_keeps:
  assumes "unat (memory_entries pm) < 65535" and "covered pm b"
  shows "covered (register_page a pm) b"
  using register_page_appends [OF assms(1), of a] assms(2) unfolding covered_iff by (metis order_less_le_trans)

lemma register_page_covers:
  assumes "unat (memory_entries pm) < 65535" and "a < 2 ^ 32"
  shows "covered (register_page a pm) a"
proof (cases "covered pm a")
  case False
  have "unat a < 2 ^ 32" using assms(2) by (simp add: word_less_nat_alt)
  then have "a < a + 4096" by (simp add: word_less_nat_alt unat_add_no_wrap)
  moreover have "unat (memory_entries pm + 1) = Suc (unat (memory_entries pm))"
    using assms by (simp add: unat_add_no_wrap)
  ultimately show ?thesis unfolding covered_iff
    by (intro exI [of _ "unat (memory_entries pm)"]) (simp add: register_page_new [OF False])
qed (use assms(1) register_page_keeps in blast)

section \<open>What the walk finds\<close>

lemma fold_structures:
  "fold structure_effect ss (acpi, pm) =
     (acpi\<lparr>cores_count := cores_count acpi + of_nat (length (filter is_processor ss)),
           acpi_local_apicio := last (acpi_local_apicio acpi # io_addresses ss)\<rparr>,
      fold register_page (io_addresses ss) pm)"
  by (induction ss arbitrary: acpi pm rule: io_addresses.induct) (simp_all add: add.assoc)

lemma ucast_small: "ucast (b :: u32) < (2 ^ 32 :: u64)"
proof -
  have "unat b < 2 ^ 32" using unsigned_less [of b] by simp
  then have "take_bit 64 (unat b) < 2 ^ 32" by (rule le_less_trans [OF take_bit_nat_less_eq_self])
  then show ?thesis by (simp add: word_less_nat_alt unsigned_ucast_eq)
qed

lemma io_addresses_small: "a \<in> set (io_addresses ss) \<Longrightarrow> a < 2 ^ 32"
  by (induction ss rule: io_addresses.induct) (use ucast_small in auto)

lemma io_addresses_length: "length (io_addresses ss) \<le> length ss"
  by (induction ss rule: io_addresses.induct) auto

lemma pages_registered:
  assumes "unat (memory_entries pm) + length as \<le> 65535" and "\<forall>a\<in>set as. a < 2 ^ 32"
  shows "(\<forall>a\<in>set as. covered (fold register_page as pm) a) \<and>
    (\<forall>b. covered pm b \<longrightarrow> covered (fold register_page as pm) b)"
  using assms
proof (induction as arbitrary: pm)
  case (Cons a as)
  have room: "unat (memory_entries pm) < 65535" using Cons.prems(1) by simp
  then have "unat (memory_entries (register_page a pm)) + length as \<le> 65535"
    using Cons.prems(1) register_page_appends(3) [of pm a] by simp
  then show ?case using Cons register_page_covers [OF room, of a] register_page_keeps [OF room, of _ a] by simp
qed simp

text \<open>The table at \<open>madt\<close> encodes the structures, within the address space.\<close>

definition madt_at :: "memory \<Rightarrow> u64 \<Rightarrow> madt_structure list \<Rightarrow> bool" where
  "madt_at mem madt ss \<longleftrightarrow>
     list_all structure_ok ss \<and> bytes_at mem (madt + 44) (madt_bytes ss) \<and>
     44 + length (madt_bytes ss) < 2 ^ 32 \<and> unat madt + 44 + length (madt_bytes ss) < 2 ^ 64 \<and>
     table_length mem madt = of_nat (44 + length (madt_bytes ss))"

lemma offset_unat: "unat (a :: u64) + n < 2 ^ 64 \<Longrightarrow> unat (a + of_nat n) = unat a + n"
  by (simp add: unat_add_no_wrap unat_of_nat_small)

lemma madt_start:
  assumes "unat madt + 44 < 2 ^ 64"
  shows "unat (madt + 44) = unat madt + 44" and "madt + 44 \<noteq> (0 :: u64)"
proof -
  show "unat (madt + 44) = unat madt + 44" using offset_unat [of madt 44] assms by simp
  then show "madt + 44 \<noteq> 0" by (metis add_is_0 unat_0 zero_neq_numeral)
qed

lemma parseAPIC_structures:
  assumes "madt_at mem madt ss"
  shows "parseAPIC mem madt (acpi, pm) = Some (True,
    (acpi\<lparr>acpi_local_apic := ucast (madt_localApicAddr mem madt),
          cores_count := of_nat (length (filter is_processor ss)),
          acpi_local_apicio := last (acpi_local_apicio acpi # io_addresses ss)\<rparr>,
     fold register_page (ucast (madt_localApicAddr mem madt) # io_addresses ss) pm))"
proof -
  let ?n = "length (madt_bytes ss)"
  have len: "ucast (table_length mem madt) = (of_nat (44 + ?n) :: u64)"
    using assms ucast_of_nat_u32 [of "44 + ?n"] unfolding madt_at_def by metis
  have p: "unat (madt + 44) = unat madt + 44" "madt + 44 \<noteq> 0"
    using assms by (auto simp: madt_at_def intro!: madt_start)
  have e: "madt + of_nat (44 + ?n) = madt + 44 + of_nat ?n" by (simp add: add.assoc)
  have "unat (madt + 44) + ?n \<le> unat (madt + 44 + of_nat ?n)"
    using assms p offset_unat [of "madt + 44" ?n] by (simp add: madt_at_def)
  then have "madt_loop mem (madt + 44 + of_nat ?n) (madt + 44) st = Some (fold structure_effect ss st)" for st
    using assms p madt_loop_structures [of ss mem "madt + 44" "madt + 44 + of_nat ?n" st]
      madt_loop.simps [of mem "madt + 44 + of_nat ?n" "madt + 44 + of_nat ?n"] by (simp add: madt_at_def)
  then show ?thesis unfolding parseAPIC_def len e by (simp add: Let_def fold_structures)
qed

section \<open>The root tables\<close>

text \<open>The tables one after another, which is what both loops do.\<close>

primrec parse_tables :: "memory \<Rightarrow> u64 list \<Rightarrow> acpi_state \<Rightarrow> acpi_state option" where
  "parse_tables mem [] st = Some st"
| "parse_tables mem (a # as) st = Option.bind (parse_table mem a st) (parse_tables mem as)"

lemma rsdt_loop_tables:
  assumes "unat end_ptr = unat p + 4 * length as"
    and "\<forall>j<length as. ucast (mem_u32 mem (p + of_nat (4 * j))) = as ! j"
  shows "rsdt_loop mem end_ptr p st = parse_tables mem as st"
  using assms
proof (induction as arbitrary: p st)
  case (Cons a as)
  have "unat p + 4 < 2 ^ 64" using unat_u64_less [of end_ptr] Cons.prems(1) by simp
  then have u: "unat (p + 4) = unat p + 4" using offset_unat [of p 4] by simp
  have "ucast (mem_u32 mem (p + 4 + of_nat (4 * j))) = as ! j" if "j < length as" for j
    using Cons.prems(2) [rule_format, of "Suc j"] that by (simp add: add.assoc)
  then have "rsdt_loop mem end_ptr (p + 4) = parse_tables mem as"
    using Cons.IH [of "p + 4"] Cons.prems(1) u by (intro ext) simp
  moreover have "p < end_ptr" using Cons.prems(1) by (simp add: word_less_nat_alt)
  moreover have "ucast (mem_u32 mem p) = a" using Cons.prems(2) by fastforce
  ultimately show ?case by (subst rsdt_loop.simps) simp
qed (simp add: rsdt_loop.simps word_less_nat_alt)

lemma xsdt_loop_tables:
  assumes "unat end_ptr = unat p + 8 * length as"
    and "\<forall>j<length as. mem_u64 mem (p + of_nat (8 * j)) = as ! j"
  shows "xsdt_loop mem end_ptr p st = parse_tables mem as st"
  using assms
proof (induction as arbitrary: p st)
  case (Cons a as)
  have "unat p + 8 < 2 ^ 64" using unat_u64_less [of end_ptr] Cons.prems(1) by simp
  then have u: "unat (p + 8) = unat p + 8" using offset_unat [of p 8] by simp
  have "mem_u64 mem (p + 8 + of_nat (8 * j)) = as ! j" if "j < length as" for j
    using Cons.prems(2) [rule_format, of "Suc j"] that by (simp add: add.assoc)
  then have "xsdt_loop mem end_ptr (p + 8) = parse_tables mem as"
    using Cons.IH [of "p + 8"] Cons.prems(1) u by (intro ext) simp
  moreover have "p < end_ptr" using Cons.prems(1) by (simp add: word_less_nat_alt)
  moreover have "mem_u64 mem p = a" using Cons.prems(2) by fastforce
  ultimately show ?case by (subst xsdt_loop.simps) simp
qed (simp add: xsdt_loop.simps word_less_nat_alt)

text \<open>The virtual address of a physical one, when an entry of the map has it.\<close>

definition mapped :: "PhysicalMemoryManager \<Rightarrow> u64 \<Rightarrow> u64 option" where
  "mapped pm a = map_option (\<lambda>e. vstart e + (a - start e)) (first_entry (\<lambda>e. start e \<le> a \<and> a < eend e) pm)"

definition same_entries :: "PhysicalMemoryManager \<Rightarrow> PhysicalMemoryManager \<Rightarrow> bool" where
  "same_entries pm pm' \<longleftrightarrow> physicalMemoryEntry pm' = physicalMemoryEntry pm \<and> memory_entries pm' = memory_entries pm"

lemma virtual_address_mapped:
  assumes "mapped pm a = Some v"
  shows "\<exists>pm'. virtual_address a (acpi, pm) = (v, (acpi, pm')) \<and> same_entries pm pm'"
  using assms by (auto simp: mapped_def virtual_address_def GetVirtualAddress_def first_entry_def
      set_returns_def same_entries_def Let_def)

lemma mapped_same: "same_entries pm pm' \<Longrightarrow> mapped pm' a = mapped pm a"
  by (simp add: same_entries_def mapped_def first_entry_def)

text \<open>Entries that are added at the end keep what the first ones map.\<close>

lemma register_page_mapped:
  assumes "unat (memory_entries pm) < 65535" and "mapped pm b = Some v"
  shows "mapped (register_page a pm) b = Some v"
proof (cases "covered pm a")
  case True
  then show ?thesis using assms(2) by (simp add: mapped_def first_entry_def register_page_known)
next
  case False
  have u: "unat (memory_entries pm + 1) = Suc (unat (memory_entries pm))"
    using assms(1) by (simp add: unat_add_no_wrap)
  have "map (f(n := x)) [0..<n] = map f [0..<n]" for f :: "nat \<Rightarrow> PhysicalMemoryEntry" and n x by simp
  moreover have "find P (xs @ ys) = Some x" if "find P xs = Some x" for P xs ys and x :: PhysicalMemoryEntry
    using that by (induction xs) auto
  ultimately show ?thesis using assms(2) u by (auto simp: mapped_def first_entry_def register_page_new [OF False])
qed

lemma register_pages_mapped:
  assumes "unat (memory_entries pm) + length as \<le> 65535" and "mapped pm b = Some v"
  shows "mapped (fold register_page as pm) b = Some v"
  using assms
proof (induction as arbitrary: pm)
  case (Cons a as)
  then have room: "unat (memory_entries pm) < 65535" by simp
  show ?case using Cons register_page_mapped [OF room, of b v a] register_page_appends(3) [OF room, of a] by simp
qed simp

definition other_table :: "memory \<Rightarrow> PhysicalMemoryManager \<Rightarrow> u64 \<Rightarrow> bool" where
  "other_table mem pm a \<longleftrightarrow>
     (case mapped pm a of None \<Rightarrow> False | Some v \<Rightarrow> table_signature mem v \<noteq> MADT_SIGNATURE)"

lemma other_tables_skipped:
  assumes "\<forall>a\<in>set as. other_table mem pm a"
  shows "\<exists>pm'. parse_tables mem as (acpi, pm) = Some (acpi, pm') \<and> same_entries pm pm'"
  using assms
proof (induction as arbitrary: pm)
  case (Cons a as)
  then obtain v where v: "mapped pm a = Some v" "table_signature mem v \<noteq> MADT_SIGNATURE"
    by (auto simp: other_table_def split: option.splits)
  obtain pm1 where pm1: "virtual_address a (acpi, pm) = (v, (acpi, pm1))" "same_entries pm pm1"
    using virtual_address_mapped [OF v(1)] by blast
  have "\<forall>a\<in>set as. other_table mem pm1 a"
    using Cons.prems by (simp add: other_table_def mapped_same [OF pm1(2)])
  then obtain pm' where "parse_tables mem as (acpi, pm1) = Some (acpi, pm')" "same_entries pm1 pm'"
    using Cons.IH by blast
  then show ?case using v(2) pm1 by (auto simp: parse_table_def same_entries_def)
qed (simp add: same_entries_def)

lemma parse_tables_append:
  "parse_tables mem (xs @ ys) st = Option.bind (parse_tables mem xs st) (parse_tables mem ys)"
  by (induction xs arbitrary: st) (auto split: bind_splits)

text \<open>The processors and controllers a list of structures describes, as the fields hold them.\<close>

definition discovered :: "memory \<Rightarrow> u64 \<Rightarrow> madt_structure list \<Rightarrow> ACPI \<Rightarrow> ACPI" where
  "discovered mem madt ss acpi = acpi\<lparr>acpi_local_apic := ucast (madt_localApicAddr mem madt),
     cores_count := of_nat (length (filter is_processor ss)),
     acpi_local_apicio := last (acpi_local_apicio acpi # io_addresses ss)\<rparr>"

definition controllers :: "memory \<Rightarrow> u64 \<Rightarrow> madt_structure list \<Rightarrow> u64 list" where
  "controllers mem madt ss = ucast (madt_localApicAddr mem madt) # io_addresses ss"

lemma madt_table_parsed:
  assumes "mapped pm m = Some v" and "table_signature mem v = MADT_SIGNATURE" and "madt_at mem v ss"
  shows "\<exists>pm1. same_entries pm pm1 \<and>
    parse_table mem m (acpi, pm) = Some (discovered mem v ss acpi, fold register_page (controllers mem v ss) pm1)"
proof -
  obtain pm1 where "virtual_address m (acpi, pm) = (v, (acpi, pm1))" "same_entries pm pm1"
    using virtual_address_mapped [OF assms(1)] by blast
  then show ?thesis using assms(2) parseAPIC_structures [OF assms(3), of acpi pm1]
    by (auto simp: parse_table_def MADT_SIGNATURE_def FADT_SIGNATURE_def discovered_def controllers_def)
qed

lemma tables_parsed:
  assumes others: "\<forall>a\<in>set xs \<union> set ys. other_table mem pm a"
    and madt: "mapped pm m = Some v" "table_signature mem v = MADT_SIGNATURE" "madt_at mem v ss"
    and room: "unat (memory_entries pm) + Suc (length ss) \<le> 65535"
  shows "\<exists>pm'. parse_tables mem (xs @ m # ys) (acpi, pm) = Some (discovered mem v ss acpi, pm') \<and>
    (\<forall>a\<in>set (controllers mem v ss). covered pm' a)"
proof -
  obtain pm0 where pm0: "parse_tables mem xs (acpi, pm) = Some (acpi, pm0)" "same_entries pm pm0"
    using other_tables_skipped [of xs mem pm acpi] others by blast
  obtain pm1 where pm1: "same_entries pm0 pm1"
    "parse_table mem m (acpi, pm0) = Some (discovered mem v ss acpi, fold register_page (controllers mem v ss) pm1)"
    using madt_table_parsed [of pm0 m v mem ss acpi] madt by (auto simp: mapped_same [OF pm0(2)])
  let ?pm2 = "fold register_page (controllers mem v ss) pm1"
  have same: "same_entries pm pm1" using pm0(2) pm1(1) by (simp add: same_entries_def)
  have room1: "unat (memory_entries pm1) + length (controllers mem v ss) \<le> 65535"
    using room same io_addresses_length [of ss] by (simp add: same_entries_def controllers_def)
  have "\<forall>a\<in>set (controllers mem v ss). a < 2 ^ 32"
    using io_addresses_small ucast_small by (auto simp: controllers_def)
  then have cov: "\<forall>a\<in>set (controllers mem v ss). covered ?pm2 a" using pages_registered [OF room1] by blast
  have "other_table mem ?pm2 a" if "a \<in> set ys" for a
  proof -
    obtain w where w: "mapped pm a = Some w" "table_signature mem w \<noteq> MADT_SIGNATURE"
      using others \<open>a \<in> set ys\<close> by (force simp: other_table_def split: option.splits)
    then show ?thesis using register_pages_mapped [OF room1, of a w] mapped_same [OF same, of a]
      by (simp add: other_table_def)
  qed
  then obtain pm' where "parse_tables mem ys (discovered mem v ss acpi, ?pm2) = Some (discovered mem v ss acpi, pm')"
    "same_entries ?pm2 pm'" using other_tables_skipped by blast
  then show ?thesis using pm0 pm1(2) cov by (auto simp: parse_tables_append covered_iff same_entries_def)
qed

section \<open>From the firmware's area to the controllers\<close>

text \<open>A root table of \<open>w\<close>-byte entries that lists the given physical addresses.\<close>

definition root_table :: "nat \<Rightarrow> (u64 \<Rightarrow> u64) \<Rightarrow> memory \<Rightarrow> u64 \<Rightarrow> u64 list \<Rightarrow> bool" where
  "root_table w entry mem t as \<longleftrightarrow>
     unat t + 36 + w * length as < 2 ^ 64 \<and> 36 + w * length as < 2 ^ 32 \<and>
     table_length mem t = of_nat (36 + w * length as) \<and>
     (\<forall>j<length as. entry (t + 36 + of_nat (w * j)) = as ! j)"

definition root_lists :: "memory \<Rightarrow> PhysicalMemoryManager \<Rightarrow> u64 \<Rightarrow> u64 list \<Rightarrow> bool" where
  "root_lists mem pm r as \<longleftrightarrow>
     (if rsdp_revision mem r = 0 \<or> rsdp_xsdtAddr mem r = 0
      then case mapped pm (ucast (rsdp_rsdtAddr mem r)) of
             Some t \<Rightarrow> root_table 4 (\<lambda>p. ucast (mem_u32 mem p)) mem t as | None \<Rightarrow> False
      else case mapped pm (rsdp_xsdtAddr mem r) of
             Some t \<Rightarrow> root_table 8 (mem_u64 mem) mem t as | None \<Rightarrow> False)"

lemma root_table_end:
  assumes "root_table w entry mem t as"
  shows "unat (t + ucast (table_length mem t)) = unat (t + 36) + w * length as"
proof -
  have "ucast (table_length mem t) = (of_nat (36 + w * length as) :: u64)"
    using assms ucast_of_nat_u32 [of "36 + w * length as"] unfolding root_table_def by metis
  then have "unat (t + ucast (table_length mem t)) = unat t + (36 + w * length as)"
    using assms offset_unat [of t "36 + w * length as"] unfolding root_table_def by (metis add.assoc)
  moreover have "unat (t + 36) = unat t + 36"
    using assms offset_unat [of t 36] by (simp add: root_table_def)
  ultimately show ?thesis by simp
qed

lemma parseACPIHeader_tables:
  assumes "root_lists mem pm (rsdpDescriptor acpi) as"
  shows "\<exists>pm1. same_entries pm pm1 \<and>
    parseACPIHeader mem (acpi, pm) = map_option (Pair True) (parse_tables mem as (acpi, pm1))"
proof (cases "rsdp_revision mem (rsdpDescriptor acpi) = 0 \<or> rsdp_xsdtAddr mem (rsdpDescriptor acpi) = 0")
  case True
  then obtain t where t: "mapped pm (ucast (rsdp_rsdtAddr mem (rsdpDescriptor acpi))) = Some t"
    "root_table 4 (\<lambda>p. ucast (mem_u32 mem p)) mem t as"
    using assms by (auto simp: root_lists_def split: option.splits)
  obtain pm1 where "virtual_address (ucast (rsdp_rsdtAddr mem (rsdpDescriptor acpi))) (acpi, pm) = (t, (acpi, pm1))"
    "same_entries pm pm1" using virtual_address_mapped [OF t(1)] by blast
  then show ?thesis using True t(2) rsdt_loop_tables [OF root_table_end [OF t(2)]]
    by (auto simp: parseACPIHeader_def parseAPICV1_def root_table_def Let_def)
next
  case False
  then obtain t where t: "mapped pm (rsdp_xsdtAddr mem (rsdpDescriptor acpi)) = Some t"
    "root_table 8 (mem_u64 mem) mem t as"
    using assms by (auto simp: root_lists_def split: option.splits)
  obtain pm1 where "virtual_address (rsdp_xsdtAddr mem (rsdpDescriptor acpi)) (acpi, pm) = (t, (acpi, pm1))"
    "same_entries pm pm1" using virtual_address_mapped [OF t(1)] by blast
  moreover have "1 \<le> rsdp_revision mem (rsdpDescriptor acpi)"
    using False by (simp add: word_le_nat_alt Suc_le_eq unat_gt_0)
  ultimately show ?thesis using False t(2) xsdt_loop_tables [OF root_table_end [OF t(2)]]
    by (auto simp: parseACPIHeader_def parseAPICV2_def root_table_def Let_def)
qed

text \<open>The scan stops at the first paragraph with the signature.\<close>

lemma scan_first:
  assumes "k < 8192" and "has_signature mem (0xe0000 + 16 * of_nat k)"
    and "\<forall>i<k. \<not> has_signature mem (0xe0000 + 16 * of_nat i)" and "j \<le> k"
  shows "init_acpi_loop mem (0xe0000 + 16 * of_nat j) st = init_acpi_loop mem (0xe0000 + 16 * of_nat k) st"
  using assms(4)
proof (induction rule: inc_induct)
  case (step n)
  have "unat (0xe0000 + 16 * of_nat n :: u64) = 0xe0000 + 16 * n"
    using step assms(1) offset_unat [of "0xe0000" "16 * n"] by simp
  then have "0xe0000 + 16 * of_nat n < (0xfffff :: u64)" using step assms(1) by (simp add: word_less_nat_alt)
  then show ?case using step assms(3) by (subst init_acpi_loop.simps) (simp add: algebra_simps)
qed simp

lemma scan_result:
  assumes "k < 8192" and "has_signature mem (0xe0000 + 16 * of_nat k)"
    and "\<forall>i<k. \<not> has_signature mem (0xe0000 + 16 * of_nat i)"
  shows "init_acpi mem (acpi, pm) =
    (let r = 0xe0000 + 16 * of_nat k
     in if parseRSDT mem r = 0 then Some (False, (acpi\<lparr>rsdpDescriptor := 0\<rparr>, pm))
        else parseACPIHeader mem (acpi\<lparr>rsdpDescriptor := r\<rparr>, pm))"
proof -
  have "unat (0xe0000 + 16 * of_nat k :: u64) = 0xe0000 + 16 * k"
    using assms(1) offset_unat [of "0xe0000" "16 * k"] by simp
  then have "0xe0000 + 16 * of_nat k < (0xfffff :: u64)" using assms(1) by (simp add: word_less_nat_alt)
  then have "init_acpi_loop mem (0xe0000 + 16 * of_nat k) (acpi, pm) =
    (let r = 0xe0000 + 16 * of_nat k
     in if parseRSDT mem r = 0 then Some (False, (acpi\<lparr>rsdpDescriptor := 0\<rparr>, pm))
        else parseACPIHeader mem (acpi\<lparr>rsdpDescriptor := r\<rparr>, pm))"
    using assms(2) by (subst init_acpi_loop.simps) (simp add: Let_def parseRSDT_def)
  then show ?thesis using scan_first [OF assms, of 0 "(acpi, pm)"] by (simp add: init_acpi_def)
qed

text \<open>A firmware image: a root pointer of the first version, a root table with two entries, and a MADT
  with two processors, an IO controller and an interrupt override.\<close>

definition place :: "u64 \<Rightarrow> u8 list \<Rightarrow> memory \<Rightarrow> memory" where
  "place base bs m = (\<lambda>a. if a - base < of_nat (length bs) then bs ! unat (a - base) else m a)"

definition demo_structures :: "madt_structure list" where
  "demo_structures = [Processor [0, 0, 1, 0, 0, 0], Processor [1, 1, 1, 0, 0, 0], Io_apic 2 0xFEC00000 0,
     Other_structure 2 [0, 0, 2, 0, 0, 0, 0, 0]]"

definition demo_firmware :: memory where
  "demo_firmware =
     place 0xe0010 [82, 83, 68, 32, 80, 84, 82, 32, 193, 0, 0, 0, 0, 0, 0, 0, 0, 32, 0, 0]
       (place 0x2004 [44, 0, 0, 0] (place 0x2024 [0, 48, 0, 0, 0, 64, 0, 0]
         (place 0x4000 [65, 80, 73, 67, 82, 0, 0, 0] (place 0x4024 [0, 0, 224, 254]
           (place 0x402C (madt_bytes demo_structures) (\<lambda>_. 0))))))"

definition demo_map :: PhysicalMemoryManager where
  "demo_map = \<lparr>physicalMemoryEntry = (\<lambda>_. \<lparr>start = 0, esize = 0x100000, etype = 1, unused = 0, vstart = 0, eend = 0x100000\<rparr>),
     physical_memory_bitmap = 0, memory_entries = 1, usable_memory_size = 0x100000, reserved_memory_size = 0,
     hole_memory_size = 0, maximum_address = 0x100000, reserved_plus_usable_size = 0x100000, available_frame = 0,
     frame_collections = [], number_physical_memory_frame_collection = 0,
     params = \<lparr>p_physical_address = 0, p_size = 0, number_of_frames_to_allocate = 0\<rparr>,
     returns = \<lparr>is_address = False, is_usable_address = False, virtualAddress = 0\<rparr>\<rparr>"

definition no_acpi :: ACPI where
  "no_acpi = \<lparr>rsdpDescriptor = 0, acpi_local_apic = 0, acpi_local_apicio = 0, cores_count = 0\<rparr>"

text \<open>C9: Discovery finds what the firmware describes.
  When the first paragraph of the firmware's area with the signature holds a root pointer with a valid
  checksum, its root table (with 32-bit or 64-bit entries, as the revision tells) lists tables the
  memory map covers, and one of them is a well-formed MADT, then \<open>init_acpi\<close> returns true, the
  number of cores is the number of processor structures, the controllers' addresses are the ones of the
  table (the last IO controller wins), and every controller's page is in the memory map afterwards.\<close>

theorem init_acpi_discovers:
  assumes "k < 8192" and "has_signature mem (0xe0000 + 16 * of_nat k)"
    and "\<forall>i<k. \<not> has_signature mem (0xe0000 + 16 * of_nat i)"
    and "parseRSDT mem (0xe0000 + 16 * of_nat k) \<noteq> 0"
    and "root_lists mem pm (0xe0000 + 16 * of_nat k) (xs @ m # ys)"
    and "\<forall>a\<in>set xs \<union> set ys. other_table mem pm a"
    and "mapped pm m = Some v" and "table_signature mem v = MADT_SIGNATURE" and "madt_at mem v ss"
    and "unat (memory_entries pm) + Suc (length ss) \<le> 65535"
  shows "\<exists>acpi' pm'. init_acpi mem (acpi, pm) = Some (True, (acpi', pm')) \<and>
    cores_count acpi' = of_nat (length (filter is_processor ss)) \<and>
    acpi_local_apic acpi' = ucast (madt_localApicAddr mem v) \<and>
    acpi_local_apicio acpi' = last (acpi_local_apicio acpi # io_addresses ss) \<and>
    (\<forall>a\<in>set (acpi_local_apic acpi' # io_addresses ss). covered pm' a)"
proof -
  let ?acpi = "acpi\<lparr>rsdpDescriptor := 0xe0000 + 16 * of_nat k\<rparr>"
  obtain pm1 where pm1: "same_entries pm pm1"
    "parseACPIHeader mem (?acpi, pm) = map_option (Pair True) (parse_tables mem (xs @ m # ys) (?acpi, pm1))"
    using parseACPIHeader_tables [of mem pm ?acpi "xs @ m # ys"] assms(5) by auto
  have "\<forall>a\<in>set xs \<union> set ys. other_table mem pm1 a" "mapped pm1 m = Some v"
    "unat (memory_entries pm1) + Suc (length ss) \<le> 65535"
    using assms(6,7,10) pm1(1) by (simp_all add: other_table_def mapped_same [OF pm1(1)] same_entries_def)
  then obtain pm' where "parse_tables mem (xs @ m # ys) (?acpi, pm1) = Some (discovered mem v ss ?acpi, pm')"
    "\<forall>a\<in>set (controllers mem v ss). covered pm' a" using tables_parsed assms(8,9) by blast
  then show ?thesis using scan_result [OF assms(1-3), of acpi pm] assms(4) pm1(2)
    by (simp add: Let_def discovered_def controllers_def)
qed

lemma demo_bytes:
  "bytes_at demo_firmware 0x402C (madt_bytes demo_structures)"
  "table_length demo_firmware 0x4000 = 82" "table_signature demo_firmware 0x4000 = MADT_SIGNATURE"
  by (simp_all add: demo_firmware_def place_def demo_structures_def madt_bytes_def u32_bytes_def
      table_length_def table_signature_def mem_u32_def mem_u16_def MADT_SIGNATURE_def)

lemmas demo_reads = demo_firmware_def place_def table_length_def table_signature_def mem_u32_def mem_u16_def

lemma demo_madt: "madt_at demo_firmware 0x4000 demo_structures"
  using demo_bytes by (simp add: madt_at_def demo_structures_def madt_bytes_def u32_bytes_def)

lemma demo_mapped: "a < 0x100000 \<Longrightarrow> mapped demo_map a = Some a"
  by (simp add: mapped_def first_entry_def demo_map_def)

lemma demo_signature:
  "has_signature demo_firmware 0xe0010" "\<not> has_signature demo_firmware 0xe0000"
  by (simp_all add: has_signature_iff RSD_SIGNATURE_def bytes_of_def demo_reads madt_bytes_def
      demo_structures_def u32_bytes_def)

lemma demo_checksum: "parseRSDT demo_firmware 0xe0010 = 0xe0010"
  by (simp add: parseRSDT_def demo_reads upt_rec)

lemma demo_root: "root_lists demo_firmware demo_map 0xe0010 ([0x3000] @ 0x4000 # [])"
  by (simp add: root_lists_def rsdp_revision_def rsdp_rsdtAddr_def root_table_def demo_mapped demo_reads
      All_less_Suc)

theorem init_acpi_discovers_witness:
  "\<exists>acpi' pm'. init_acpi demo_firmware (no_acpi, demo_map) = Some (True, (acpi', pm')) \<and>
     cores_count acpi' = 2 \<and> acpi_local_apicio acpi' = 0xFEC00000 \<and> covered pm' 0xFEC00000"
proof -
  have "other_table demo_firmware demo_map 0x3000"
    by (simp add: other_table_def demo_mapped demo_reads MADT_SIGNATURE_def demo_structures_def madt_bytes_def u32_bytes_def)
  moreover have "unat (memory_entries demo_map) + Suc (length demo_structures) \<le> 65535"
    by (simp add: demo_map_def demo_structures_def)
  ultimately have "\<exists>acpi' pm'. init_acpi demo_firmware (no_acpi, demo_map) = Some (True, (acpi', pm')) \<and>
    cores_count acpi' = of_nat (length (filter is_processor demo_structures)) \<and>
    acpi_local_apic acpi' = ucast (madt_localApicAddr demo_firmware 0x4000) \<and>
    acpi_local_apicio acpi' = last (acpi_local_apicio no_acpi # io_addresses demo_structures) \<and>
    (\<forall>a\<in>set (acpi_local_apic acpi' # io_addresses demo_structures). covered pm' a)"
    using demo_signature demo_checksum demo_root demo_madt demo_mapped [of "0x4000"] demo_bytes(3)
    by (intro init_acpi_discovers [where k = 1 and xs = "[0x3000]" and m = "0x4000" and ys = "[]"]) simp_all
  then show ?thesis by (fastforce simp: demo_structures_def)
qed

text \<open>C37: A structure of length zero stops the boot.
  The walk over the MADT advances by the length each structure states. When the structures before it are
  well-formed and the table's length reaches it, a structure whose length byte is zero keeps the walk at
  its place and \<open>parseAPIC\<close> never returns.\<close>

theorem parseAPIC_zero_length:
  assumes "list_all structure_ok ss" and "bytes_at mem (madt + 44) (madt_bytes ss)"
    and "unat madt + unat (table_length mem madt) < 2 ^ 64"
    and "44 + length (madt_bytes ss) < unat (table_length mem madt)"
    and "apic_length mem (madt + of_nat (44 + length (madt_bytes ss))) = 0"
  shows "parseAPIC mem madt st = None"
proof -
  let ?n = "length (madt_bytes ss)" and ?len = "unat (table_length mem madt)"
  let ?e = "madt + of_nat ?len"
  have e: "unat ?e = unat madt + ?len" using assms(3) by (rule offset_unat)
  have p: "unat (madt + 44) = unat madt + 44" "madt + 44 \<noteq> 0" using assms(3,4) by (auto intro!: madt_start)
  have q: "madt + 44 + of_nat ?n = madt + of_nat (44 + ?n)" by (simp add: add.assoc)
  have "unat (madt + of_nat (44 + ?n)) = unat madt + (44 + ?n)" using assms(3,4) by (intro offset_unat) simp
  then have "madt + of_nat (44 + ?n) < ?e" using assms(4) e by (simp add: word_less_nat_alt del: of_nat_add)
  then have stuck: "madt_loop mem ?e (madt + 44 + of_nat ?n) s = None" for s
    using assms(5) unfolding q by (rule madt_loop_stuck)
  have "madt_loop mem ?e (madt + 44) s = None" for s
    using madt_loop_structures [OF assms(1,2), of ?e s] stuck e p assms(4) by simp
  then show ?thesis by (simp add: parseAPIC_def Let_def split: prod.split)
qed

theorem parseAPIC_zero_length_witness:
  "parseAPIC (place 0x1004 [60, 0, 0, 0] (place 0x102C [0, 8, 0, 0, 1, 0, 0, 0] (\<lambda>_. 0))) 0x1000 (no_acpi, demo_map) = None"
  by (rule parseAPIC_zero_length [where ss = "[Processor [0, 0, 1, 0, 0, 0]]"])
    (simp_all add: madt_bytes_def place_def table_length_def mem_u32_def mem_u16_def apic_length_def)

end
