(* ===== verification/Keyboard.thy ===== *)
theory Keyboard
  imports Stdio InterruptProofs Ports
begin

text \<open>
  The keyboard (\<open>stage2/sources/devices/keyboard/keyboard.c\<close>): the interrupt handler, which reads a scan
  code and switches terminals or sets the flags the cores wait for, and its registration. The table of
  characters \<open>kbdus\<close> is not used by the code.

  The counter of the polling loop is an \<open>int\<close> that counts upwards from 1000, so the loop ends when a
  code is ready or when the counter overflows to a negative number: the model keeps it at its width.
\<close>

section \<open>The handler\<close>

record 'h kbd_state =
  up_arrow :: bool
  down_arrow :: bool
  kb_console :: Console
  kb_ports :: port_trace
  kb_int :: "'h int_state"

function poll_key :: "port_hw \<Rightarrow> u32 \<Rightarrow> port_trace \<Rightarrow> u8 option \<times> port_trace" where
  "poll_key hw i io =
     (if 0 <s i
      then let (status, io) = in8 hw 0x64 io
           in if status AND 1 \<noteq> 0 then let (scancode, io) = in8 hw 0x60 io in (Some scancode, io)
              else poll_key hw (i + 1) io
      else (None, io))"
  by pat_completeness auto
termination
proof (relation "measure (\<lambda>(_, i :: u32, _). if 0 <s i then 2 ^ 31 - unat i else 0)", simp, goal_cases)
  case (1 hw i io x status io')
  then have "0 < sint i" by (simp add: word_sless_alt)
  moreover have "sint i < 2 ^ 31" using sint_lt [of i] by simp
  moreover have u: "uint i < 2 ^ 32" using unsigned_less [of i] by simp
  moreover from u have "take_bit 32 (uint i) = uint i" by (simp add: take_bit_int_eq_self)
  ultimately have "unat i < 2 ^ 31"
    by (cases "bit (uint i) 31") (simp_all add: sint_uint signed_take_bit_eq_take_bit_minus unat_less_uint)
  then have "unat (i + 1) = Suc (unat i)" by (simp add: unat_add_no_wrap)
  then show ?case using 1 \<open>unat i < 2 ^ 31\<close> by auto
qed

declare poll_key.simps [simp del]

definition switch_to :: "int \<Rightarrow> 'h kbd_state \<Rightarrow> 'h kbd_state result" where
  "switch_to i st =
     and_then (console_switchTerminal ((kb_console st)\<lparr>con_params := (con_params (kb_console st))\<lparr>newIndex := i\<rparr>\<rparr>))
       (\<lambda>(_, c). Inr (st\<lparr>kb_console := c\<rparr>))"

definition step_index :: "int \<Rightarrow> Console \<Rightarrow> int result" where
  "step_index d c =
     (if terminals_max_count c = 0 then Inl Division_by_zero
      else Inr ((uint (current_terminal_index c) + d) smod uint (terminals_max_count c)))"

definition key_action :: "u8 \<Rightarrow> 'h kbd_state \<Rightarrow> 'h kbd_state result" where
  "key_action scancode st =
     (let c = kb_console st
      in if scancode AND 0x80 \<noteq> 0 then Inr st
         else if scancode = 72 then Inr (st\<lparr>up_arrow := True\<rparr>)
         else if scancode = 80
         then and_then (printk (bytes_of ''in down arrow!'' @ [10]) [] c) (\<lambda>c.
                Inr (st\<lparr>kb_console := c, down_arrow := True\<rparr>))
         else if scancode = 75
         then if newIndex (con_params c) = 2 then switch_to 0 st
              else and_then (step_index (uint (terminals_max_count c) - 1) c) (\<lambda>i. switch_to i st)
         else if scancode = 77 then and_then (step_index 1 c) (\<lambda>i. switch_to i st)
         else Inr st)"

definition keyboard_handler :: "port_hw \<Rightarrow> 'h kbd_state \<Rightarrow> 'h kbd_state result" where
  "keyboard_handler hw st =
     (let (code, io) = poll_key hw 1000 (kb_ports st);
          st = st\<lparr>kb_ports := io\<rparr>
      in and_then (case code of Some scancode \<Rightarrow> key_action scancode st | None \<Rightarrow> Inr st) (\<lambda>st.
         and_then (arr_get (apics (int_apic (kb_int st))) 0) (\<lambda>a.
           Inr (st\<lparr>kb_int := map_apic (on_bus (sendAPICEOI a)) (kb_int st)\<rparr>))))"

definition keyboard_init :: "device \<Rightarrow> 'h \<Rightarrow> 'h int_state \<Rightarrow> 'h int_state result" where
  "keyboard_init dev handler st =
     (let irq_num = 32 + 1 :: u8
      in and_then (arr_get (apics (int_apic st)) 0) (\<lambda>a.
         let st = map_apic (on_bus (mapAPICIRQ dev a (irq_num - ucast IRQ0) irq_num)) st
         in Inr (snd (RegisterInterrupt irq_num (Some handler) st))))"

section \<open>Keys in sequence\<close>

text \<open>The handler runs once for every interrupt; each run has the keyboard controller of its moment.\<close>

primrec press_keys :: "port_hw list \<Rightarrow> 'h kbd_state \<Rightarrow> 'h kbd_state result" where
  "press_keys [] st = Inr st"
| "press_keys (hw # hws) st = and_then (keyboard_handler hw st) (press_keys hws)"

text \<open>The codes the handler reads, one attempt for every interrupt.\<close>

primrec codes_read :: "port_hw list \<Rightarrow> port_trace \<Rightarrow> u8 option list" where
  "codes_read [] io = []"
| "codes_read (hw # hws) io = (let (code, io) = poll_key hw 1000 io in code # codes_read hws io)"

text \<open>What a key does to the terminal shown and to the index last asked for, in a console of five
  terminals: the arrows go round, and terminal 2 is shown for terminal 1.\<close>

definition show_index :: "int \<Rightarrow> int \<times> int" where
  "show_index i = (if i = 1 then 2 else i, i)"

fun turn :: "u8 option \<Rightarrow> int \<times> int \<Rightarrow> int \<times> int" where
  "turn code (shown, asked) =
     (if code = Some 75 then show_index (if asked = 2 then 0 else (shown + 4) mod 5)
      else if code = Some 77 then show_index ((shown + 1) mod 5)
      else if code = Some 80 then (shown, 0)
      else (shown, asked))"

abbreviation shown_asked :: "Console \<Rightarrow> int \<times> int" where
  "shown_asked c \<equiv> (uint (current_terminal_index c), newIndex (con_params c))"

text \<open>The terminals the console gives its users have the shape of their initialisation; \<open>n\<close> more lines can
  be printed before the cursor is on row 25, behind the last row of the buffer.\<close>

definition line_room :: "nat \<Rightarrow> Terminal \<Rightarrow> bool" where
  "line_room n t \<longleftrightarrow> length (terminal_buffer t) = 2000 \<and> x_max t = 80 \<and> y_max t = 25 \<and> y_rows t = 50 \<and>
     x_position t = 0 \<and> unat (y_position t) + n \<le> 25"

definition kernel_console :: "nat \<Rightarrow> Console \<Rightarrow> bool" where
  "kernel_console n c \<longleftrightarrow> terminals_max_count c = 5 \<and> length (terminals c) = 5 \<and> (\<forall>t\<in>set (terminals c). line_room n t) \<and>
     con_x_max c = 80 \<and> con_y_max c = 25 \<and> 2000 \<le> length (video_buffer c)"

lemma kernel_console_cong [simp]:
  "kernel_console n (c\<lparr>con_params := p\<rparr>) = kernel_console n c"
  "kernel_console n (c\<lparr>current_terminal_index := k\<rparr>) = kernel_console n c"
  by (simp_all add: kernel_console_def)

text \<open>The console of the kernel, as its initialisation leaves it, has 25 lines on every terminal.\<close>

lemma init_terminals_length:
  "init_terminals self sz raw cells is xm ym m = Some (Inr ts, m') \<Longrightarrow> length ts = length is"
proof (induction "is" arbitrary: m m' ts)
  case (Cons i "is")
  from Cons.prems obtain m1 m2 t ts' where
    "init_terminals self sz raw cells is xm ym m1 = Some (Inr ts', m2)" "ts = t # ts'"
    by (auto simp: and_then_eq_Inr simp del: upt_rec_numeral split: Option.bind_splits prod.splits if_splits)
  then show ?case using Cons.IH by simp
qed simp

lemma console_initialised:
  assumes "console_preInialize self sz raw cells c0 srv m = Some (Inr (r, c, srv'), m')"
    and "2000 \<le> length (video_buffer c0)"
  shows "kernel_console 25 c" and "current_terminal_index c = 0" and "con_params c = con_params c0"
proof -
  obtain ts ma mb where ts: "init_terminals self sz raw cells [0..<5] 80 25 ma = Some (Inr ts, mb)"
    and c: "c = c0\<lparr>con_x_max := 80, con_y_max := 25, terminals_max_count := 5, terminals_current_count := 5,
      current_terminal_index := 0, terminals := ts\<rparr>"
    using assms(1)
    by (auto simp: console_preInialize_def DEFAULT_VIDEO_MAX_X_def DEFAULT_VIDEO_MAX_Y_def and_then_eq_Inr Let_def
        split: Option.bind_splits prod.splits if_splits)
  show "kernel_console 25 c"
    using init_terminals_fresh [OF ts] init_terminals_length [OF ts] assms(2)
    by (auto simp: c kernel_console_def fresh_terminal_def line_room_def)
qed (use assms(1) in \<open>auto simp: console_preInialize_def and_then_eq_Inr Let_def split: Option.bind_splits prod.splits if_splits\<close>)

lemma put_on_row:
  assumes "length (terminal_buffer t) = 2000" "x_max t = 80" "unat (y_position t) \<le> 24"
    and "unat (x_position t) + length chs \<le> 80" "10 \<notin> set chs"
  shows "\<exists>b x. terminal_putString bg fg chs t = Inr (t\<lparr>terminal_buffer := b, x_position := x\<rparr>) \<and> length b = 2000"
  using assms
proof (induction chs arbitrary: t)
  case Nil
  then show ?case by (intro exI [of _ "terminal_buffer t"] exI [of _ "x_position t"]) simp
next
  case (Cons ch chs)
  let ?i = "unat (y_position t) * 80 + unat (x_position t)"
  have x: "unat (x_position t) < 80" using Cons.prems(4) by simp
  then have i: "?i < length (terminal_buffer t)" using Cons.prems(1,3) by simp
  have e: "uint (y_position t) * uint (x_max t) + uint (x_position t) = int ?i" using Cons.prems(2) by simp
  let ?t = "t\<lparr>terminal_buffer := (terminal_buffer t)[?i := cell ch bg fg], x_position := x_position t + 1\<rparr>"
  have "terminal_putCharacterAndAdvanceString bg fg ch t = Inr ?t"
    using Cons.prems(2,5) x
    unfolding terminal_putCharacterAndAdvanceString_def terminal_putCharacterAt_def e arr_set_nat [OF i]
    by (simp add: word_less_nat_alt)
  moreover have "unat (x_position t + 1) = unat (x_position t) + 1"
    using x by (simp add: unat_add_no_wrap)
  then obtain b y where "terminal_putString bg fg chs ?t = Inr (?t\<lparr>terminal_buffer := b, x_position := y\<rparr>)" "length b = 2000"
    using Cons.IH [of ?t] Cons.prems by auto
  ultimately show ?case by (intro exI [of _ b] exI [of _ y]) simp
qed

lemma put_line:
  assumes "line_room (Suc n) t" "length chs \<le> 80" "10 \<notin> set chs"
  shows "\<exists>t'. terminal_putString bg fg (chs @ [10]) t = Inr t' \<and> line_room n t'"
proof -
  have y: "unat (y_position t) + Suc n \<le> 25" using assms(1) by (simp add: line_room_def)
  then have y1: "unat (y_position t + 1) = unat (y_position t) + 1" by (simp add: unat_add_no_wrap)
  have "int (unat (y_position t)) < 49" using y by linarith
  then have lt: "uint (y_position t) < 49" by simp
  obtain b x where "terminal_putString bg fg chs t = Inr (t\<lparr>terminal_buffer := b, x_position := x\<rparr>)" "length b = 2000"
    using put_on_row [of t chs bg fg] assms y by (auto simp: line_room_def)
  then show ?thesis using assms(1) lt y1
    by (auto simp: put_string_append terminal_putCharacterAndAdvanceString_def next_line_def line_room_def)
qed

lemma on_terminal_room:
  assumes c: "\<forall>t\<in>set (terminals c). line_room k t" "length (terminals c) = 5" "con_x_max c = 80" "con_y_max c = 25"
      "2000 \<le> length (video_buffer c)" and i: "0 \<le> i" "i < 5"
    and f: "\<And>t. line_room k t \<Longrightarrow> \<exists>t'. f t = Inr t' \<and> line_room n t'" and n: "n \<le> k"
  shows "\<exists>ts v. on_terminal i refresh f c = Inr (True, c\<lparr>terminals := ts, video_buffer := v\<rparr>) \<and> length ts = 5 \<and>
    (\<forall>t\<in>set ts. line_room n t) \<and> length v = length (video_buffer c)"
proof -
  have j: "nat i < length (terminals c)" "\<not> i < 0" using c(2) i by auto
  then have "line_room k (terminals c ! nat i)" using c(1) by simp
  then obtain t' where t': "f (terminals c ! nat i) = Inr t'" "line_room n t'" using f by blast
  let ?ts = "(terminals c)[nat i := t']"
  have "line_room n t" if "line_room k t" for t using that n by (auto simp: line_room_def)
  then have ts: "\<forall>t\<in>set ?ts. line_room n t" using c(1) t'(2) set_update_subset_insert [of "terminals c" "nat i" t'] by blast
  have "terminal_getViewPort t' = 0" using t'(2) by (auto simp: line_room_def terminal_getViewPort_def word_less_nat_alt)
  then obtain v where v: "show_terminal t' (c\<lparr>terminals := ?ts\<rparr>) = Inr (c\<lparr>terminals := ?ts, video_buffer := v\<rparr>)"
    "length v = length (video_buffer c)"
    using c t'(2) by (auto simp: show_terminal_def line_room_def Let_def)
  have "on_terminal i refresh f c = Inr (True, c\<lparr>terminals := ?ts, video_buffer := if refresh then v else video_buffer c\<rparr>)"
    using j t'(1) v(1) by (simp add: on_terminal_def arr_get_def arr_set_def in_array_def)
  then show ?thesis using ts v(2) c(2)
    by (intro exI [of _ ?ts] exI [of _ "if refresh then v else video_buffer c"]) simp
qed

lemma switch_room:
  assumes "kernel_console n (kb_console st)" and "0 \<le> i" and "i < 5"
  shows "\<exists>c'. switch_to i st = Inr (st\<lparr>kb_console := c'\<rparr>) \<and> kernel_console n c' \<and> shown_asked c' = show_index i"
proof -
  let ?k = "if i = 1 then 2 else i"
  let ?c = "(kb_console st)\<lparr>con_params := (con_params (kb_console st))\<lparr>newIndex := i\<rparr>, current_terminal_index := word_of_int ?k\<rparr>"
  have k: "uint (word_of_int ?k :: u8) = ?k" "0 \<le> ?k" "?k < 5" using assms by (auto simp: uint_word_of_int)
  obtain ts v where "on_terminal ?k True Inr ?c = Inr (True, ?c\<lparr>terminals := ts, video_buffer := v\<rparr>)" "length ts = 5"
    "\<forall>t\<in>set ts. line_room n t" "length v = length (video_buffer (kb_console st))"
    using on_terminal_room [of ?c n ?k Inr n True] assms(1) k(2,3) by (auto simp: kernel_console_def)
  then show ?thesis using assms(1) k(1)
    by (intro exI [of _ "?c\<lparr>terminals := ts, video_buffer := v\<rparr>"])
      (simp add: switch_to_def console_switchTerminal_def kernel_console_def show_index_def Let_def)
qed

lemma step_index_five:
  "terminals_max_count c = 5 \<Longrightarrow> 0 \<le> d \<Longrightarrow> step_index d c = Inr ((uint (current_terminal_index c) + d) mod 5)"
  by (cases "uint (current_terminal_index c) + d = 0")
    (simp_all add: step_index_def signed_modulo_int_def sgn_if order_less_le)

lemma printk_line:
  assumes "kernel_console (Suc n) c"
    and "format_loop s [] False = Inr (chs @ [10], z)" and "length chs \<le> 80" "10 \<notin> set chs" "0 \<notin> set chs"
  shows "\<exists>c'. printk s [] c = Inr c' \<and> kernel_console n c' \<and> shown_asked c' = (uint (current_terminal_index c), 0)"
proof -
  let ?c = "c\<lparr>con_params := (con_params c)\<lparr>p_string := chs @ [10], newIndex := 0,
    p_background_color := COLOR_BLACK, p_foreground_color := COLOR_GREEN\<rparr>\<rparr>"
  let ?put = "terminal_putString COLOR_BLACK COLOR_GREEN (chs @ [10])"
  let ?refresh = "uint (current_terminal_index c) = 0"
  have line: "\<exists>t'. ?put t = Inr t' \<and> line_room n t'" if "line_room (Suc n) t" for t
    using put_line [OF that assms(3,4)] .
  obtain ts v where 1: "on_terminal 0 ?refresh ?put ?c = Inr (True, ?c\<lparr>terminals := ts, video_buffer := v\<rparr>)" "length ts = 5"
    "\<forall>t\<in>set ts. line_room n t" "length v = length (video_buffer c)"
    using on_terminal_room [of ?c "Suc n" 0 ?put n ?refresh] assms(1) line by (auto simp: kernel_console_def)
  have tw: "takeWhile (\<lambda>ch. ch \<noteq> 0) (chs @ [10]) = chs @ [10]" using assms(5) by (subst takeWhile_eq_all_conv) auto
  show ?thesis using assms(1,3) 1
    by (intro exI [of _ "?c\<lparr>terminals := ts, video_buffer := v\<rparr>"], cases ?refresh)
      (simp_all add: printk_def print_to_def assms(2) tw console_writeToTerminal_def console_addStringToCurrentTerminal_def
        kernel_console_def Let_def)
qed

lemma down_text: "format_loop (bytes_of ''in down arrow!'' @ [10]) [] False = Inr (bytes_of ''in down arrow!'' @ [10], False)"
  by (simp add: bytes_of_def format_loop.simps emit_def)

lemma turn_shown:
  assumes "turn code (shown, asked) = (shown', asked')" "0 \<le> shown" "shown < 5" "shown \<noteq> 1"
  shows "0 \<le> shown'" "shown' < 5" "shown' \<noteq> 1"
  using assms by (auto simp: show_index_def split: if_splits)

lemma key_action_turns:
  assumes "kernel_console (n + (if code = 80 then 1 else 0)) (kb_console st)"
  shows "\<exists>st'. key_action code st = Inr st' \<and> kernel_console n (kb_console st') \<and>
    shown_asked (kb_console st') = turn (Some code) (shown_asked (kb_console st)) \<and>
    up_arrow st' = (up_arrow st \<or> code = 72) \<and> down_arrow st' = (down_arrow st \<or> code = 80) \<and>
    kb_ports st' = kb_ports st \<and> kb_int st' = kb_int st"
proof -
  let ?c = "kb_console st"
  have five: "terminals_max_count ?c = 5" using assms by (simp add: kernel_console_def)
  have room: "kernel_console n ?c" if "code \<noteq> 80" using assms that by simp
  have switch: "\<exists>st'. switch_to i st = Inr st' \<and> kernel_console n (kb_console st') \<and>
      shown_asked (kb_console st') = show_index i \<and> up_arrow st' = up_arrow st \<and> down_arrow st' = down_arrow st \<and>
      kb_ports st' = kb_ports st \<and> kb_int st' = kb_int st" if "0 \<le> i" "i < 5" "code \<noteq> 80" for i
    using switch_room [OF room that(1,2)] that(3) by auto
  have "\<not> code AND 0x80 \<noteq> 0" if "code = 72 \<or> code = 75 \<or> code = 77 \<or> code = 80" using that by auto
  then consider (up) "code = 72" "code AND 0x80 = 0" | (down) "code = 80" "code AND 0x80 = 0"
    | (left) "code = 75" "code AND 0x80 = 0" | (right) "code = 77" "code AND 0x80 = 0"
    | (other) "code \<noteq> 72" "code \<noteq> 75" "code \<noteq> 77" "code \<noteq> 80" by auto
  then show ?thesis
  proof cases
    case up
    then show ?thesis using room by (simp add: key_action_def)
  next
    case down
    then obtain c' where "printk (bytes_of ''in down arrow!'' @ [10]) [] ?c = Inr c'" "kernel_console n c'"
      "shown_asked c' = (uint (current_terminal_index ?c), 0)"
      using printk_line [OF _ down_text, of n ?c] assms by (auto simp: bytes_of_def)
    then show ?thesis using down by (simp add: key_action_def)
  next
    case left
    then show ?thesis
      using switch [of "if newIndex (con_params ?c) = 2 then 0 else (uint (current_terminal_index ?c) + 4) mod 5"]
      by (cases "newIndex (con_params ?c) = 2") (simp_all add: key_action_def step_index_five [OF five] five)
  next
    case right
    then show ?thesis using switch [of "(uint (current_terminal_index ?c) + 1) mod 5"]
      by (simp add: key_action_def step_index_five [OF five])
  next
    case other
    then show ?thesis using room by (cases "code AND 0x80 = 0") (simp_all add: key_action_def)
  qed
qed

lemma keyboard_handler_turns:
  assumes "poll_key hw 1000 (kb_ports st) = (code, io)"
    and "kernel_console (n + (if code = Some 80 then 1 else 0)) (kb_console st)" and "apics (int_apic (kb_int st)) = a # as"
  shows "\<exists>st'. keyboard_handler hw st = Inr st' \<and> kernel_console n (kb_console st') \<and>
    shown_asked (kb_console st') = turn code (shown_asked (kb_console st)) \<and>
    up_arrow st' = (up_arrow st \<or> code = Some 72) \<and> down_arrow st' = (down_arrow st \<or> code = Some 80) \<and>
    kb_ports st' = io \<and> kb_int st' = map_apic (on_bus (sendAPICEOI a)) (kb_int st)"
proof -
  let ?s = "st\<lparr>kb_ports := io\<rparr>"
  have "\<exists>st'. (case code of Some s \<Rightarrow> key_action s ?s | None \<Rightarrow> Inr ?s) = Inr st' \<and> kernel_console n (kb_console st') \<and>
    shown_asked (kb_console st') = turn code (shown_asked (kb_console st)) \<and>
    up_arrow st' = (up_arrow st \<or> code = Some 72) \<and> down_arrow st' = (down_arrow st \<or> code = Some 80) \<and>
    kb_ports st' = io \<and> kb_int st' = kb_int st"
  proof (cases code)
    case None
    then show ?thesis using assms(2) by simp
  next
    case (Some k)
    then show ?thesis using key_action_turns [of n k ?s] assms(2) by simp
  qed
  then obtain st1 where "(case code of Some s \<Rightarrow> key_action s ?s | None \<Rightarrow> Inr ?s) = Inr st1" "kernel_console n (kb_console st1)"
    "shown_asked (kb_console st1) = turn code (shown_asked (kb_console st))"
    "up_arrow st1 = (up_arrow st \<or> code = Some 72)" "down_arrow st1 = (down_arrow st \<or> code = Some 80)"
    "kb_ports st1 = io" "kb_int st1 = kb_int st" by blast
  then show ?thesis using assms(3)
    by (intro exI [of _ "st1\<lparr>kb_int := map_apic (on_bus (sendAPICEOI a)) (kb_int st1)\<rparr>"])
      (simp add: keyboard_handler_def assms(1) arr_get_def in_array_def)
qed

lemma press_keys_turns:
  assumes "kernel_console n (kb_console st)" and "count_list (codes_read hws (kb_ports st)) (Some 80) \<le> n"
    and "apics (int_apic (kb_int st)) = a # as"
  shows "\<exists>st'. press_keys hws st = Inr st' \<and>
    kernel_console (n - count_list (codes_read hws (kb_ports st)) (Some 80)) (kb_console st') \<and>
    shown_asked (kb_console st') = fold turn (codes_read hws (kb_ports st)) (shown_asked (kb_console st)) \<and>
    up_arrow st' = (up_arrow st \<or> Some 72 \<in> set (codes_read hws (kb_ports st))) \<and>
    down_arrow st' = (down_arrow st \<or> Some 80 \<in> set (codes_read hws (kb_ports st))) \<and>
    bus_writes (ap_bus (int_apic (kb_int st'))) =
      bus_writes (ap_bus (int_apic (kb_int st))) @ replicate (length hws) (lapic_eoi a, 0)"
  using assms
proof (induction hws arbitrary: st n)
  case (Cons hw hws)
  obtain code io where p: "poll_key hw 1000 (kb_ports st) = (code, io)" by fastforce
  define d where "d = (if code = Some 80 then 1 else 0 :: nat)"
  have count: "count_list (codes_read (hw # hws) (kb_ports st)) (Some 80) = d + count_list (codes_read hws io) (Some 80)"
    by (simp add: p d_def)
  then have "n = (n - d) + (if code = Some 80 then 1 else 0)" using Cons.prems(2) by (simp add: d_def)
  then have "kernel_console ((n - d) + (if code = Some 80 then 1 else 0)) (kb_console st)" using Cons.prems(1) by simp
  then obtain st1 where st1: "keyboard_handler hw st = Inr st1" "kernel_console (n - d) (kb_console st1)"
    "shown_asked (kb_console st1) = turn code (shown_asked (kb_console st))"
    "up_arrow st1 = (up_arrow st \<or> code = Some 72)" "down_arrow st1 = (down_arrow st \<or> code = Some 80)"
    "kb_ports st1 = io" "kb_int st1 = map_apic (on_bus (sendAPICEOI a)) (kb_int st)"
    using keyboard_handler_turns [OF p _ Cons.prems(3)] by blast
  then have "apics (int_apic (kb_int st1)) = a # as"
    "bus_writes (ap_bus (int_apic (kb_int st1))) = bus_writes (ap_bus (int_apic (kb_int st))) @ [(lapic_eoi a, 0)]"
    using Cons.prems(3) by (simp_all add: map_apic_def on_bus_def sendAPICEOI_def writeLocalAPIC_def)
  moreover have "count_list (codes_read hws (kb_ports st1)) (Some 80) \<le> n - d"
    using Cons.prems(2) count st1(6) by simp
  ultimately obtain st' where "press_keys hws st1 = Inr st'"
    "kernel_console (n - d - count_list (codes_read hws io) (Some 80)) (kb_console st')"
    "shown_asked (kb_console st') = fold turn (codes_read hws io) (shown_asked (kb_console st1))"
    "up_arrow st' = (up_arrow st1 \<or> Some 72 \<in> set (codes_read hws io))"
    "down_arrow st' = (down_arrow st1 \<or> Some 80 \<in> set (codes_read hws io))"
    "bus_writes (ap_bus (int_apic (kb_int st'))) =
      bus_writes (ap_bus (int_apic (kb_int st))) @ (lapic_eoi a, 0) # replicate (length hws) (lapic_eoi a, 0)"
    using Cons.IH [of "n - d" st1] st1(2,6) by auto
  then show ?case using st1(1,3,4,5) count by (auto simp: p)
qed simp

lemma fold_turn_shown:
  "fold turn codes (shown, asked) = (shown', asked') \<Longrightarrow> 0 \<le> shown \<Longrightarrow> shown < 5 \<Longrightarrow> shown \<noteq> 1 \<Longrightarrow> shown' < 5 \<and> shown' \<noteq> 1"
proof (induction codes arbitrary: shown asked)
  case (Cons code codes)
  obtain s1 a1 where t: "turn code (shown, asked) = (s1, a1)" by fastforce
  then show ?case using Cons.IH [of s1 a1] turn_shown [OF t] Cons.prems by simp
qed simp

section \<open>Properties\<close>

text \<open>C35: Keys switch terminals and are acknowledged, until the terminal is full.
  In the console the kernel creates (five terminals of 2000 cells, told that they have 50 rows of 80), let
  \<open>n\<close> lines be left on every terminal (25 after the initialisation). Any sequence of keyboard interrupts in
  which the codes read are those of at most \<open>n\<close> down arrows, each of which prints a line, is handled
  without an access outside an array or a division by zero. Afterwards the terminal shown and the index last
  asked for are those of the arrows in sequence, the terminal shown exists and is not terminal 1, the flags
  tell whether an up or down arrow was read, every terminal has room for the lines that are left, and every
  interrupt was acknowledged exactly once.\<close>

theorem keys_keep_console:
  assumes "kernel_console n (kb_console st)" and "count_list (codes_read hws (kb_ports st)) (Some 80) \<le> n"
    and "current_terminal_index (kb_console st) < 5" and "current_terminal_index (kb_console st) \<noteq> 1"
    and "apics (int_apic (kb_int st)) = a # as"
  shows "\<exists>st'. press_keys hws st = Inr st' \<and>
    kernel_console (n - count_list (codes_read hws (kb_ports st)) (Some 80)) (kb_console st') \<and>
    shown_asked (kb_console st') = fold turn (codes_read hws (kb_ports st)) (shown_asked (kb_console st)) \<and>
    current_terminal_index (kb_console st') < 5 \<and> current_terminal_index (kb_console st') \<noteq> 1 \<and>
    up_arrow st' = (up_arrow st \<or> Some 72 \<in> set (codes_read hws (kb_ports st))) \<and>
    down_arrow st' = (down_arrow st \<or> Some 80 \<in> set (codes_read hws (kb_ports st))) \<and>
    bus_writes (ap_bus (int_apic (kb_int st'))) =
      bus_writes (ap_bus (int_apic (kb_int st))) @ replicate (length hws) (lapic_eoi a, 0)"
proof -
  have start: "0 \<le> uint (current_terminal_index (kb_console st))" "uint (current_terminal_index (kb_console st)) < 5"
    "uint (current_terminal_index (kb_console st)) \<noteq> 1"
    using assms(3,4) by (auto simp: word_less_def word_uint_eq_iff)
  have shown: "current_terminal_index c < 5 \<and> current_terminal_index c \<noteq> 1"
    if "shown_asked c = fold turn (codes_read hws (kb_ports st)) (shown_asked (kb_console st))" for c
    using fold_turn_shown [OF that [symmetric] start] by (auto simp: word_less_def word_uint_eq_iff)
  show ?thesis using press_keys_turns [OF assms(1,2,5)] shown by blast
qed

text \<open>A controller that has the code of a key ready.\<close>

definition key_ready :: "u8 \<Rightarrow> port_hw" where
  "key_ready code = (\<lambda>t. if last t = In8 0x60 then ucast code else 1)"

lemma byte_back: "ucast (ucast (code :: u8) :: u32) = code"
  by (rule bit_word_eqI) (simp add: bit_simps)

lemma poll_ready: "poll_key (key_ready code) 1000 io = (Some code, io @ [In8 0x64, In8 0x60])"
  by (simp add: poll_key.simps [of _ 1000] key_ready_def in8_def word_sless_alt byte_back)

lemma codes_ready: "codes_read (map key_ready codes) io = map Some codes"
  by (induction codes arbitrary: io) (simp_all add: poll_ready)

definition kbd_with :: "Console \<Rightarrow> nat kbd_state" where
  "kbd_with c = \<lparr>up_arrow = False, down_arrow = False, kb_console = c, kb_ports = [], kb_int = demo_int\<rparr>"

lemma demo_console_started:
  "\<exists>c srv m. console_preInialize 0 32 demo_terminal (\<lambda>_ _. 0) demo_console demo_con_service demo_allocator =
      Some (Inr (True, c, srv), m) \<and> kernel_console 25 c \<and> shown_asked c = (0, 0)"
proof -
  obtain c srv m where c: "console_preInialize 0 32 demo_terminal (\<lambda>_ _. 0) demo_console demo_con_service demo_allocator =
      Some (Inr (True, c, srv), m)" using demo_console_ok by blast
  have "2000 \<le> length (video_buffer demo_console)" by (simp add: demo_console_def)
  note i = console_initialised [OF c this]
  show ?thesis using c i by (intro exI [of _ c] exI) (simp add: demo_console_def)
qed

theorem keys_keep_console_witness:
  "\<exists>c srv m st'. console_preInialize 0 32 demo_terminal (\<lambda>_ _. 0) demo_console demo_con_service demo_allocator =
      Some (Inr (True, c, srv), m) \<and>
    press_keys (map key_ready [77, 80, 77, 75, 75]) (kbd_with c) = Inr st' \<and> kernel_console 24 (kb_console st') \<and>
    shown_asked (kb_console st') = (0, 0) \<and> down_arrow st' \<and> \<not> up_arrow st'"
proof -
  obtain c srv m where c: "console_preInialize 0 32 demo_terminal (\<lambda>_ _. 0) demo_console demo_con_service demo_allocator =
      Some (Inr (True, c, srv), m)" "kernel_console 25 c" "shown_asked c = (0, 0)" using demo_console_started by blast
  then have z: "current_terminal_index c = 0" by (simp add: word_uint_eq_iff)
  let ?codes = "[77, 80, 77, 75, 75] :: u8 list"
  have "kb_console (kbd_with c) = c" "kb_ports (kbd_with c) = []" "apics (int_apic (kb_int (kbd_with c))) = [demo_apic, demo_apic]"
    "\<not> up_arrow (kbd_with c)" using demo_apics(1) by (simp_all add: kbd_with_def)
  moreover have "fold turn (map Some ?codes) (0, 0) = (0, 0)" "count_list (map Some ?codes) (Some 80) = 1"
    "Some 72 \<notin> set (map Some ?codes)" "Some 80 \<in> set (map Some ?codes)" by (simp_all add: show_index_def)
  ultimately have "\<exists>st'. press_keys (map key_ready ?codes) (kbd_with c) = Inr st' \<and> kernel_console 24 (kb_console st') \<and>
    shown_asked (kb_console st') = (0, 0) \<and> down_arrow st' \<and> \<not> up_arrow st'"
    using keys_keep_console [of 25 "kbd_with c" "map key_ready ?codes" demo_apic "[demo_apic]"] c(2,3) z
    unfolding codes_ready by (auto simp del: list.map press_keys.simps)
  with c(1) show ?thesis by blast
qed

text \<open>The line after the last one that fits is written past the end of the buffer.\<close>

lemma down_arrow_overruns:
  assumes "kernel_console 0 (kb_console st)" and "y_position (terminals (kb_console st) ! 0) = 25"
  shows "key_action 80 st = Inl Out_of_bounds"
proof -
  let ?t = "terminals (kb_console st) ! 0"
  have "line_room 0 ?t" using assms(1) by (simp add: kernel_console_def)
  then have "terminal_putString bg fg (bytes_of ''in down arrow!'' @ [10]) ?t = Inl Out_of_bounds" for bg fg
    using assms(2) by (simp add: line_room_def bytes_of_def terminal_putCharacterAndAdvanceString_def
        terminal_putCharacterAt_def arr_set_def in_array_def)
  moreover have "takeWhile (\<lambda>ch. ch \<noteq> 0) (bytes_of ''in down arrow!'' @ [10]) = bytes_of ''in down arrow!'' @ [10]"
    "length (bytes_of ''in down arrow!'' @ [10]) < 2048" by (simp_all add: bytes_of_def)
  ultimately show ?thesis using assms(1)
    by (simp add: key_action_def printk_def print_to_def down_text console_writeToTerminal_def
        console_addStringToCurrentTerminal_def on_terminal_def arr_get_def in_array_def kernel_console_def Let_def)
qed

text \<open>The right arrow on the first terminal asks for terminal 1, and the console shows terminal 2 instead. The
  left arrow then asks for terminal 1 again, so that it stays on terminal 2 however often it is pressed.\<close>

lemma left_stays:
  assumes "kernel_console n (kb_console st)" and "shown_asked (kb_console st) = (0, 0)" and "apics (int_apic (kb_int st)) = a # as"
    and "codes_read hws (kb_ports st) = Some 77 # replicate k (Some 75)"
  shows "\<exists>st'. press_keys hws st = Inr st' \<and> current_terminal_index (kb_console st') = 2"
proof -
  have "fold turn (replicate k (Some 75)) (2, 1) = (2, 1)" by (induction k) (simp_all add: show_index_def)
  then have "fold turn (codes_read hws (kb_ports st)) (0, 0) = (2, 1)" by (simp add: assms(4) show_index_def)
  moreover have "count_list (replicate k (Some (75 :: u8))) (Some 80) = 0" by (induction k) simp_all
  then have "count_list (codes_read hws (kb_ports st)) (Some 80) = 0" by (simp add: assms(4))
  ultimately show ?thesis using press_keys_turns [OF assms(1) _ assms(3), of hws] assms(2) by (auto simp: word_uint_eq_iff)
qed

lemma left_stays_witness:
  "\<exists>c st'. press_keys (map key_ready (77 # replicate 9 75)) (kbd_with c) = Inr st' \<and>
    current_terminal_index (kb_console st') = 2"
proof -
  obtain c where c: "kernel_console 25 c" "shown_asked c = (0, 0)" using demo_console_started by blast
  have "codes_read (map key_ready (77 # replicate 9 75)) (kb_ports (kbd_with c)) = Some 77 # replicate 9 (Some 75)"
    unfolding codes_ready by simp
  moreover have "kernel_console 25 (kb_console (kbd_with c))" "shown_asked (kb_console (kbd_with c)) = (0, 0)"
    "apics (int_apic (kb_int (kbd_with c))) = [demo_apic, demo_apic]"
    using c demo_apics(1) by (simp_all add: kbd_with_def)
  ultimately show ?thesis using left_stays by blast
qed

end
