(* ===== verification/CoreLoops.thy ===== *)
theory CoreLoops
  imports IPIoE Interrupts ServiceDemo
begin

text \<open>
  The loops of the application cores in \<open>stage2/sources/KernelMain.c\<close> (\<open>ap_kernel_main\<close>). Core 2 is
  the worker: it waits for a request in its queue, dispatches it to the service it names and sends the
  answer back to the core it came from. Core 1 is the client: when an arrow key has been pressed it sends
  a request to another machine, waits, and reads the value out of the answer.

  One round of each loop is a function of the kernel's state; what the code prints is left out. The
  argument \<open>rest\<close> is what the memory holds behind the bytes that \<open>workerDequeue\<close> copies: the
  data of a packet is used as a string although the sender does not send its final zero byte.
\<close>

section \<open>Dispatching a request\<close>

definition ackermannFunctionService_no :: int where "ackermannFunctionService_no = 9"
definition AckFunction_no :: int where "AckFunction_no = 0"

record service_table =
  transport :: service_transport_kernel
  store :: "u64 \<rightharpoonup> ack_method Service"
  numberOfTimesToCallFunction :: u64

text \<open>The two functions the service registers. \<open>raw\<close> is what the block of the parameters held, \<open>adr\<close>
  the address of the local variable with the result.\<close>

definition parse_message :: "xml_env \<Rightarrow> AckermannFunctionParams \<Rightarrow> ack_method \<Rightarrow> ack_method Service \<Rightarrow> u8 list \<Rightarrow> int \<Rightarrow> xml_kernel \<Rightarrow>
    (AckermannFunctionParams \<times> xml_kernel) result option" where
  "parse_message env raw f srv msg meth k =
     (case f of ParseAckermannFunctionXML_f \<Rightarrow> ParseAckermannFunctionXML env srv msg meth raw k
      | CallAckermannFunction_f \<Rightarrow> Some (Inl Null_pointer))"

definition call_method :: "xml_env \<Rightarrow> u64 \<Rightarrow> service_table \<Rightarrow> ack_method \<Rightarrow> AckermannFunctionParams \<Rightarrow> xml_kernel \<Rightarrow> (u64 \<times> xml_kernel) result option" where
  "call_method env adr tab f p k =
     (case f of CallAckermannFunction_f \<Rightarrow>
        then_do (Some (lookup_service (transport tab) (store tab) ackermannFunctionService_no)) (\<lambda>srv.
          CallAckermannFunction env srv (numberOfTimesToCallFunction tab) adr p k)
      | ParseAckermannFunctionXML_f \<Rightarrow> Some (Inl Null_pointer))"

definition dispatch_request :: "xml_env \<Rightarrow> AckermannFunctionParams \<Rightarrow> u64 \<Rightarrow> service_table \<Rightarrow> int \<Rightarrow> int \<Rightarrow> u8 list \<Rightarrow> xml_kernel \<Rightarrow>
    (u64 \<times> xml_kernel) result option" where
  "dispatch_request env raw adr tab service meth msg k =
     then_do (Some (DispatchKernelTest (\<lambda>f srv msg meth k. (parse_message env raw f srv msg meth k, k))
         (\<lambda>f _ p k. (then_do p (\<lambda>(p, k). call_method env adr tab f p k), k))
         (transport tab) (store tab) service meth msg k)) (\<lambda>(r, _). r)"

section \<open>The worker\<close>

definition set_apics :: "apic_state \<Rightarrow> xml_kernel \<Rightarrow> xml_kernel" where
  "set_apics st k = k\<lparr>xk_ata := (xk_ata k)\<lparr>at_apic := st\<rparr>\<rparr>"

definition data_string :: "IPIoE_Queue_Entry \<Rightarrow> u8 list \<Rightarrow> u8 list result" where
  "data_string x rest =
     (if 0 \<in> set (ipdata x @ rest) then Inr (takeWhile (\<lambda>c. c \<noteq> 0) (ipdata x @ rest)) else Inl Out_of_bounds)"

definition send_packet :: "u32 \<Rightarrow> NetworkDriver \<Rightarrow> EthernetPacket \<Rightarrow> u8 list \<Rightarrow> u16 \<Rightarrow> u16 \<Rightarrow> u8 \<Rightarrow> u8 \<Rightarrow> u8 list \<Rightarrow> xml_kernel \<Rightarrow>
    ((EthernetPacket \<times> u16) \<times> xml_kernel) result option" where
  "send_packet core drv eth dst dest src service meth data k =
     map_option (\<lambda>(r, al). and_then r (\<lambda>f. Inr (f, set_alloc al k)))
       (sendIPIoE_Packet core (xk_alloc k) drv eth IPIoE_OPCODE_REQUEST dst dest src service meth data)"

definition worker_round :: "device \<Rightarrow> (nat \<Rightarrow> apic_state \<Rightarrow> apic_state) \<Rightarrow> u32 \<Rightarrow> u16 \<Rightarrow> NetworkDriver \<Rightarrow> EthernetPacket \<Rightarrow> u8 list \<Rightarrow>
    (int \<Rightarrow> int \<Rightarrow> u8 list \<Rightarrow> xml_kernel \<Rightarrow> (u64 \<times> xml_kernel) result option) \<Rightarrow> xml_kernel \<Rightarrow>
    ((EthernetPacket \<times> u16) \<times> xml_kernel) result option" where
  "worker_round dev halts core cid drv eth rest dispatch k =
     then_do (Some (arr_get (apics (at_apic (xk_ata k))) (uint cid))) (\<lambda>a.
     then_do (if queue_size (worker a) = 0 then map_option Inr (wait_IPIoE dev halts (at_apic (xk_ata k)))
              else Some (Inr (at_apic (xk_ata k)))) (\<lambda>st.
     then_do (workerDequeue core cid st) (\<lambda>(x, st).
     then_do (Some (data_string x rest)) (\<lambda>msg.
     then_do (dispatch (uint (serviceNumber (ipioe_p x))) (uint (methodNumber (ipioe_p x))) msg (set_apics st k)) (\<lambda>(b, k).
     then_do (map_option Inr (string_at (xk_mem k) b)) (\<lambda>response.
       send_packet core drv eth (smac x) (sourceCore (ipioe_p x)) (destinationCore (ipioe_p x)) 10 1 response k))))))"

section \<open>The client\<close>

text \<open>The text of the request as the code has it; its last tag is not a closing one.\<close>

definition client_request :: "u8 list" where
  "client_request = bytes_of ''<params><FirstValue> 3 </FirstValue><SecondValue> 12 </SecondValue><params>''"

definition send_request :: "u32 \<Rightarrow> NetworkDriver \<Rightarrow> EthernetPacket \<Rightarrow> u8 list \<Rightarrow> xml_kernel \<Rightarrow>
    ((EthernetPacket \<times> u16) \<times> xml_kernel) result option" where
  "send_request core drv eth dst k =
     send_packet core drv eth dst 2 1 (word_of_int ackermannFunctionService_no) (word_of_int AckFunction_no) client_request k"

text \<open>From the packet taken out of the queue to the decoded value.\<close>

definition read_answer :: "xml_env \<Rightarrow> u8 list \<Rightarrow> service_table \<Rightarrow> xml_kernel \<Rightarrow> (u8 list \<times> xml_kernel) result option" where
  "read_answer env msg tab k =
     then_do (ParseXMLString env msg k) (\<lambda>k.
     then_do (Some (lookup_service (transport tab) (store tab) ackermannFunctionService_no)) (\<lambda>srv.
     then_do (Some (arr_get (testMethod srv) AckFunction_no)) (\<lambda>t.
     then_do (Some (arr_get (returns_of t) 0)) (\<lambda>ret.
     then_do (getValueFromTagMessage env (k\<lparr>xmlService := (xmlService k)\<lparr>tagDirectory := bytes_of (tag ret)\<rparr>\<rparr>)) (\<lambda>k.
     map_option (\<lambda>(r, al). case r of None \<Rightarrow> Inl Null_pointer | Some (_, bs) \<Rightarrow> Inr (bs, set_alloc al k))
       (base64_decode (self (xe_ata env)) (xk_alloc k) (cstring (xs_value (xmlService k)) 0)))))))"

definition client_round :: "device \<Rightarrow> (nat \<Rightarrow> apic_state \<Rightarrow> apic_state) \<Rightarrow> xml_env \<Rightarrow> NetworkDriver \<Rightarrow> EthernetPacket \<Rightarrow> u8 list \<Rightarrow>
    u8 list \<Rightarrow> service_table \<Rightarrow> xml_kernel \<Rightarrow> ((EthernetPacket \<times> u16) \<times> u8 list \<times> xml_kernel) result option" where
  "client_round dev halts env drv eth dst rest tab k =
     then_do (send_request (self (xe_ata env)) drv eth dst k) (\<lambda>(f, k).
     then_do (map_option Inr (wait_IPIoE_messageId 1 dev halts (at_apic (xk_ata k)))) (\<lambda>st.
     then_do (workerDequeue (self (xe_ata env)) 1 st) (\<lambda>(x, st).
     then_do (Some (data_string x rest)) (\<lambda>msg.
     then_do (read_answer env msg tab (set_apics st k)) (\<lambda>(v, k). Some (Inr (f, v, k)))))))"

definition down_mac :: "u8 list" where "down_mac = [0x08, 0x00, 0x27, 0x24, 0x41, 0xb3]"
definition up_mac :: "u8 list" where "up_mac = [0x08, 0x00, 0x27, 0x0c, 0x1b, 0x93]"

text \<open>One round of the client's loop. Each key has its machine; its flag is cleared at the end, so that a key pressed
  meanwhile is lost. \<open>one\<close> is a \<^const>\<open>client_round\<close> with the hardware of its moment.\<close>

definition client_loop :: "(u8 list \<Rightarrow> xml_kernel \<Rightarrow> ((EthernetPacket \<times> u16) \<times> u8 list \<times> xml_kernel) result option) \<Rightarrow>
    bool \<times> bool \<times> xml_kernel \<Rightarrow> (bool \<times> bool \<times> xml_kernel) result option" where
  "client_loop one st = (case st of (down, up, k) \<Rightarrow>
     then_do (if down then then_do (one down_mac k) (\<lambda>(_, _, k). Some (Inr (False, k))) else Some (Inr (down, k))) (\<lambda>(down, k).
     then_do (if up then then_do (one up_mac k) (\<lambda>(_, _, k). Some (Inr (False, k))) else Some (Inr (up, k))) (\<lambda>(up, k).
       Some (Inr (down, up, k)))))"

section \<open>The system call\<close>

definition WAKEUP_IPI :: u8 where "WAKEUP_IPI = 99"

text \<open>The only system call: sleep for the time in \<open>rdi\<close>, counted by the timer of the core in \<open>rsi\<close>.\<close>

definition syscall :: "device \<Rightarrow> (nat \<Rightarrow> apic_state \<Rightarrow> apic_state) \<Rightarrow> InterruptContext \<Rightarrow> apic_state \<Rightarrow> apic_state option" where
  "syscall dev env ctx st =
     (let st = getCurrentCoreId dev st
      in if interrupt_number ctx = 0x80 then pit_sleep dev env (ucast (rdi ctx)) (ucast (rsi ctx)) WAKEUP_IPI True st
         else Some st)"

section \<open>The service in the table\<close>

definition serving :: "service_table \<Rightarrow> ack_method Service \<Rightarrow> bool" where
  "serving tab srv \<longleftrightarrow> lookup_service (transport tab) (store tab) ackermannFunctionService_no = Inr srv \<and> described srv \<and>
     parserMethod srv = Some ParseAckermannFunctionXML_f \<and> methodPtr (testMethod srv ! 0) = Some CallAckermannFunction_f \<and>
     numberOfTimesToCallFunction tab = 5"

lemma dispatch_answers:
  assumes "serving tab srv" and "answering env k" and "m < 2 ^ 31" and "ackermann m n < 2 ^ 31"
    and "unat adr + 8 \<le> heap_at (xk_alloc k)"
  shows "\<exists>b k'. dispatch_request env raw adr tab 9 0 (print_tree (request_doc (of_nat m) (of_nat n))) k = Some (Inr (b, k')) \<and>
    string_at (xk_mem k') b = Some (message_text (bytes_of ''Result'') (encode_loop (bytes64 (of_nat (ackermann m n))))) \<and>
    kernel_ok (xk_alloc k') \<and> heap_at (xk_alloc k') + 1900 < unat (kernel_memory_end_address (xk_alloc k'))"
proof -
  have s: "lookup_service (transport tab) (store tab) 9 = Inr srv" "described srv" "parserMethod srv = Some ParseAckermannFunctionXML_f"
    "methodPtr (testMethod srv ! 0) = Some CallAckermannFunction_f" "numberOfTimesToCallFunction tab = 5"
    using assms(1) by (simp_all add: serving_def ackermannFunctionService_no_def)
  have "arr_get (testMethod srv) 0 = Inr (testMethod srv ! 0)" using s(2) by (simp add: described_def arr_get_def in_array_def)
  then have "dispatch_request env raw adr tab 9 0 msg k =
      then_do (ParseAckermannFunctionXML env srv msg 0 raw k) (\<lambda>(p, k). CallAckermannFunction env srv 5 adr p k)" for msg
    by (simp add: dispatch_request_def DispatchKernelTest_def s parse_message_def call_method_def ackermannFunctionService_no_def)
  then show ?thesis using request_answered [OF s(2) assms(2-5)] by simp
qed

lemma request_string:
  assumes "ipdata x = print_tree (request_doc a b)"
  shows "data_string x (0 # rest) = Inr (print_tree (request_doc a b))"
proof -
  have "0 \<notin> set (print_tree (request_doc a b))"
    using number_ok(3) [of a] number_ok(3) [of b]
    by (simp add: request_doc_def params_tag_def first_tag_def second_tag_def bytes_of_def open_tag_def close_tag_def)
  then have "takeWhile (\<lambda>c. c \<noteq> 0) (print_tree (request_doc a b) @ 0 # rest) = print_tree (request_doc a b)"
    by (subst takeWhile_append2) auto
  then show ?thesis by (simp add: data_string_def assms)
qed

lemma packet_sent:
  assumes "kernel_ok (xk_alloc k)" and "heap_at (xk_alloc k) + 1630 < unat (kernel_memory_end_address (xk_alloc k))"
    and "16 + length data \<le> length (h_data eth)"
  shows "\<exists>k'. send_packet core drv eth dst dest src service meth data k = Some (Inr ((eth\<lparr>h_dest := dst, h_source := mac drv,
      h_proto := htons 0x0812, h_data := ipioe_frame_data IPIoE_OPCODE_REQUEST dest src service meth data (h_data eth)\<rparr>,
      30 + of_nat (length data)), k'))"
proof -
  let ?al = "xk_alloc k"
  have r1: "heap_at ?al + 16 < unat (kernel_memory_end_address ?al)" using assms(2) by simp
  note g = kmalloc_gives [OF assms(1) r1]
  define al1 where "al1 = ?al\<lparr>kernel_memory_current_address := kernel_memory_current_address ?al + of_nat 16\<rparr>"
  note g = g [folded al1_def]
  have r2: "heap_at al1 + 1614 < unat (kernel_memory_end_address al1)" using g(3,5) assms(2) by simp
  note h = kmalloc_gives [OF g(2) r2]
  show ?thesis using g(1,4) h(1,4) assms(3) by (simp add: send_packet_def sendIPIoE_Packet_def)
qed

lemma request_taken:
  assumes "kernel_ok (ap_alloc st)" and "heap_at (ap_alloc st) + 1028 < unat (kernel_memory_end_address (ap_alloc st))"
    and "unat cid < length (apics st)" and "worker_ok (worker (apics st ! unat cid))" and "queued (worker (apics st ! unat cid)) = [x]"
  shows "\<exists>st'. workerDequeue core cid st = Some (Inr (x, st')) \<and> kernel_ok (ap_alloc st') \<and>
    heap_at (ap_alloc st') = heap_at (ap_alloc st) + 1028 \<and>
    kernel_memory_end_address (ap_alloc st') = kernel_memory_end_address (ap_alloc st)"
proof -
  obtain w where w: "worker_dequeue (worker (apics st ! unat cid)) = Inr (x, w)" using wq.deq_item [OF assms(4,5)] by blast
  note g = kmalloc_gives [OF assms(1,2)]
  show ?thesis using assms(3) w g by (simp add: workerDequeue_def set_worker_def set_apic_def Let_def)
qed

text \<open>Parsing does not look at the parameters of the service.\<close>

lemma parse_service:
  assumes "ParseXMLString env msg k = Some (Inr k')"
  shows "ParseXMLString env msg (k\<lparr>xmlService := x\<rparr>) = Some (Inr (k'\<lparr>xmlService := x\<rparr>))" and "xmlService k' = xmlService k"
proof -
  obtain a s d h where "ata_kvalloc (xe_ata env) sizeof_xml_heap (xk_ata k) = Some (Inr (a, s))" "a \<noteq> 0"
    "parse_xml (raw_stack env) (xml_heap_init msg (raw_heap env a)) = Some (Inr (d, h))"
    "k' = k\<lparr>xk_ata := s, sys_xml_confg := (if d \<noteq> 0 then Some h else None)\<rparr>"
    using assms by (auto simp: ParseXMLString_def then_do_eq_Inr split: if_splits)
  then show "ParseXMLString env msg (k\<lparr>xmlService := x\<rparr>) = Some (Inr (k'\<lparr>xmlService := x\<rparr>))" "xmlService k' = xmlService k"
    by (cases k; simp add: ParseXMLString_def)+
qed

text \<open>The client gets the value out of the answer.\<close>

lemma client_reads_answer:
  assumes "serving tab srv" and "answering env k"
  shows "\<exists>k'. read_answer env (message_text (bytes_of ''Result'') (encode_loop (bytes64 v))) tab k = Some (Inr (bytes64 v, k'))"
proof -
  let ?t = "bytes_of ''Result''" and ?k = "k\<lparr>xmlService := (xmlService k)\<lparr>tagDirectory := bytes_of ''Result''\<rparr>\<rparr>"
  have v: "length (bytes64 v) = 8" "bytes64 v \<noteq> []" "length (bytes64 v) < 2 ^ 32" by (simp_all add: bytes64_def)
  have t: "tag_ok ?t" "piece_ok ?t" by (simp_all add: tag_ok_def piece_ok_def bytes_of_def MAX_XQUERY_TAG_NAME_def)
  have room: "kernel_ok (xk_alloc k)" "heap_at (xk_alloc k) + 4096 + 6291496 < unat (kernel_memory_end_address (xk_alloc k))"
    using assms(2) by (simp_all add: answering_def)
  obtain a al where a: "kvalloc (self (xe_ata env)) (xk_alloc k) (of_nat 6291496) = Some (a, al)" "a \<noteq> 0" "kernel_ok al"
    "heap_at al < heap_at (xk_alloc k) + 4096 + 6291496" "kernel_memory_end_address al = kernel_memory_end_address (xk_alloc k)"
    using kvalloc_gives [OF room] by blast
  let ?s = "(xk_ata k)\<lparr>at_apic := (at_apic (xk_ata k))\<lparr>ap_alloc := al\<rparr>\<rparr>"
  have kv: "ata_kvalloc (xe_ata env) sizeof_xml_heap (xk_ata ?k) = Some (Inr (a, ?s))"
    using a(1) by (simp add: ata_kvalloc_def returned_def sizeof_xml_heap_def xk_alloc_def)
  have rc: "receiving env ?t (length (encode_loop (bytes64 v))) ?k"
    using assms(2) encode_bounds [of "bytes64 v"] v(1) by (simp add: receiving_def answering_def)
  obtain k1 k2 where k1: "ParseXMLString env (message_text ?t (encode_loop (bytes64 v))) ?k = Some (Inr k1)"
    "getValueFromTagMessage env k1 = Some (Inr k2)" "xk_ata k2 = ?s" "cstring (xs_value (xmlService k2)) 0 = [32] @ encode_loop (bytes64 v) @ [32]"
    using value_queried [OF rc t kv a(2)] by (auto simp: then_do_eq_Inr)
  have "heap_at al + ((length (bytes64 v) + 2) div 3 * 3) < unat (kernel_memory_end_address al)"
    using a(4,5) assms(2) v(1) by (simp add: answering_def)
  from decode_gives [OF a(3) v(3,2) this, of "[32]" "[32]"] no_code
  obtain p al2 where d: "base64_decode (self (xe_ata env)) al ([32] @ encode_loop (bytes64 v) @ [32]) = Some (Some (p, bytes64 v), al2)" by auto
  have "xk_alloc k2 = al" using k1(3) by (simp add: xk_alloc_def)
  moreover have "ParseXMLString env (message_text ?t (encode_loop (bytes64 v))) k = Some (Inr (k1\<lparr>xmlService := xmlService k\<rparr>))"
    using parse_service(1) [OF k1(1), of "xmlService k"] by simp
  moreover have "k1\<lparr>xmlService := (xmlService k)\<lparr>tagDirectory := ?t\<rparr>\<rparr> = k1" using parse_service(2) [OF k1(1)] by simp
  moreover have "lookup_service (transport tab) (store tab) ackermannFunctionService_no = Inr srv"
    "arr_get (testMethod srv) AckFunction_no = Inr (testMethod srv ! 0)" "arr_get (returns_of (testMethod srv ! 0)) 0 = Inr (returns_of (testMethod srv ! 0) ! 0)"
    "tag (returns_of (testMethod srv ! 0) ! 0) = ''Result''"
    using assms(1) by (simp_all add: serving_def described_def Let_def arr_get_def in_array_def AckFunction_no_def)
  ultimately show ?thesis using k1(2,4) d by (simp add: read_answer_def)
qed

section \<open>Properties\<close>

text \<open>C12: The worker core answers a request.
  When the queue of the worker holds a request whose data is the text that names two arguments, one round
  of its loop, from the queue through the parsing of the text, the dispatch to the registered service and
  the computation to the message, sends one frame: to the machine the request came from, for the core that
  sent it, with the message that carries the value of Ackermann's function. The memory behind the request must happen to start
  with a zero byte, because the sender leaves it out.\<close>

theorem worker_answers_request:
  assumes "serving tab srv" and "answering env k" and "heap_at (xk_alloc k) + 6300000 < unat (kernel_memory_end_address (xk_alloc k))"
    and "unat cid < length (apics (at_apic (xk_ata k)))" and "worker_ok (worker (apics (at_apic (xk_ata k)) ! unat cid))"
    and "queued (worker (apics (at_apic (xk_ata k)) ! unat cid)) = [x]"
    and "ipdata x = print_tree (request_doc (of_nat m) (of_nat n))" and "serviceNumber (ipioe_p x) = 9" and "methodNumber (ipioe_p x) = 0"
    and "m < 2 ^ 31" and "ackermann m n < 2 ^ 31" and "unat adr + 8 \<le> heap_at (xk_alloc k)" and "length (h_data eth) = 1600"
  shows "\<exists>eth' sz k' p. worker_round dev halts core cid drv eth (0 # rest) (dispatch_request env raw adr tab) k = Some (Inr ((eth', sz), k')) \<and>
    h_dest eth' = smac x \<and> h_source eth' = mac drv \<and> p = getIPIOEPacketFromSKB (h_data eth') \<and>
    destinationCore p = sourceCore (ipioe_p x) \<and> sourceCore p = destinationCore (ipioe_p x) \<and>
    NetPackets.get_bytes (h_data eth') 16 (unat (dataLength p)) =
      message_text (bytes_of ''Result'') (encode_loop (bytes64 (of_nat (ackermann m n))))"
proof -
  let ?st = "at_apic (xk_ata k)" and ?msg = "message_text (bytes_of ''Result'') (encode_loop (bytes64 (of_nat (ackermann m n))))"
  have al: "ap_alloc ?st = xk_alloc k" by (simp add: xk_alloc_def)
  have "kernel_ok (ap_alloc ?st)" "heap_at (ap_alloc ?st) + 1028 < unat (kernel_memory_end_address (ap_alloc ?st))"
    using assms(2,3) by (simp_all add: al answering_def)
  then obtain st where st: "workerDequeue core cid ?st = Some (Inr (x, st))" "kernel_ok (ap_alloc st)"
    "heap_at (ap_alloc st) = heap_at (xk_alloc k) + 1028" "kernel_memory_end_address (ap_alloc st) = kernel_memory_end_address (xk_alloc k)"
    using request_taken [OF _ _ assms(4-6), of core] al by auto
  let ?k = "set_apics st k"
  have ka: "xk_alloc ?k = ap_alloc st" "xmlService ?k = xmlService k" by (simp_all add: set_apics_def xk_alloc_def)
  have "answering env ?k" using assms(2,3) st by (simp add: answering_def ka)
  then obtain b k1 where k1: "dispatch_request env raw adr tab 9 0 (print_tree (request_doc (of_nat m) (of_nat n))) ?k = Some (Inr (b, k1))"
    "string_at (xk_mem k1) b = Some ?msg" "kernel_ok (xk_alloc k1)"
    "heap_at (xk_alloc k1) + 1900 < unat (kernel_memory_end_address (xk_alloc k1))"
    using dispatch_answers [OF assms(1) _ assms(10,11), of env ?k adr raw] assms(12) st(3) ka(1) by auto
  have len: "length ?msg \<le> 1000"
    using encode_bounds [of "bytes64 (of_nat (ackermann m n))"] by (simp add: message_parts bytes_of_def bytes64_def)
  then have "heap_at (xk_alloc k1) + 1630 < unat (kernel_memory_end_address (xk_alloc k1))" "16 + length ?msg \<le> length (h_data eth)"
    using k1(4) assms(13) by simp_all
  from packet_sent [OF k1(3) this, of core drv "smac x" "sourceCore (ipioe_p x)" "destinationCore (ipioe_p x)" 10 1]
  obtain k2 where k2: "send_packet core drv eth (smac x) (sourceCore (ipioe_p x)) (destinationCore (ipioe_p x)) 10 1 ?msg k1 =
      Some (Inr ((eth\<lparr>h_dest := smac x, h_source := mac drv, h_proto := htons 0x0812,
        h_data := ipioe_frame_data IPIoE_OPCODE_REQUEST (sourceCore (ipioe_p x)) (destinationCore (ipioe_p x)) 10 1 ?msg (h_data eth)\<rparr>,
        30 + of_nat (length ?msg)), k2))" by blast
  have "queue_size (worker (apics ?st ! unat cid)) \<noteq> 0" using assms(6) by (auto simp: queued_def split: if_splits)
  moreover have "arr_get (apics ?st) (uint cid) = Inr (apics ?st ! unat cid)"
    using assms(4) by (simp add: arr_get_def in_array_def unat_less_uint)
  ultimately have "worker_round dev halts core cid drv eth (0 # rest) (dispatch_request env raw adr tab) k =
      send_packet core drv eth (smac x) (sourceCore (ipioe_p x)) (destinationCore (ipioe_p x)) 10 1 ?msg k1"
    using st(1) request_string [OF assms(7)] k1(1,2) assms(8,9) by (simp add: worker_round_def)
  moreover have "unat (of_nat (length ?msg) :: u16) = length ?msg" by (rule unat_of_nat_small) (use len in simp)
  ultimately show ?thesis using k2 ipioe_frame_parsed [OF assms(13) len, of IPIoE_OPCODE_REQUEST "sourceCore (ipioe_p x)" "destinationCore (ipioe_p x)" 10 1]
    by simp
qed

text \<open>A worker with a request of another machine in its queue, and the service as its initialisation leaves it.\<close>

definition demo_request :: IPIoE_Queue_Entry where
  "demo_request = \<lparr>smac = [2, 0, 0, 0, 0, 7], dmac = [2, 0, 0, 0, 0, 9],
     ipioe_p = \<lparr>version = 1, IHL = 0, opcode = 1, dataLength = of_nat (length (print_tree (request_doc 2 3))), messageID = 1, ip_checksum = 0,
       sourceCore = 1, destinationCore = 1, ip_flags = 0, serviceNumber = 9, methodNumber = 0\<rparr>,
     ipdata = print_tree (request_doc 2 3)\<rparr>"

definition demo_worker_kernel :: xml_kernel where
  "demo_worker_kernel = (case worker_enqueue demo_request (worker (apics demo_apic_state ! 1)) of
     Inr w \<Rightarrow> set_apics (set_worker 1 w (at_apic (xk_ata demo_xml_kernel))) demo_xml_kernel | Inl _ \<Rightarrow> demo_xml_kernel)"

definition demo_table :: "ack_method Service \<Rightarrow> service_table" where
  "demo_table srv = \<lparr>transport = \<lparr>max_services = 256, curr_count = 10, kernel_services = replicate 256 1\<rparr>, store = (\<lambda>_. Some srv),
     numberOfTimesToCallFunction = 5\<rparr>"

lemma demo_serving: "\<exists>srv. initAckermannFunctionService demo_service = Inr (5, srv) \<and> serving (demo_table srv) srv"
proof -
  obtain srv where srv: "initAckermannFunctionService demo_service = Inr (5, srv)" "described srv" using init_describes [OF demo_blank] by blast
  moreover have "parserMethod srv = Some ParseAckermannFunctionXML_f" "methodPtr (testMethod srv ! 0) = Some CallAckermannFunction_f"
    using srv(1) unfolding initAckermannFunctionService_def add_service_test_def strcpy_into_def add_serviceTestParameterDescription_def describe_def
      memcpy_string_def demo_service_def demo_method_def
    by (auto simp: Let_def arr_get_def arr_set_def in_array_def MAX_FUNCTIONS_def numeral_eq_Suc and_then_eq_Inr split: if_splits)
  ultimately show ?thesis by (simp add: serving_def demo_table_def lookup_service_def arr_get_def in_array_def ackermannFunctionService_no_def)
qed

lemma demo_request_ok: "IPIoE.entry_ok demo_request"
proof -
  have "length (print_tree (request_doc 2 3)) \<le> 200"
    using number_ok(4) [of 2] number_ok(4) [of 3]
    by (simp add: request_doc_def params_tag_def first_tag_def second_tag_def bytes_of_def open_tag_def close_tag_def number_text_def)
  then show ?thesis by (simp add: IPIoE.entry_ok_def demo_request_def unat_of_nat_small)
qed

lemma demo_queue:
  "unat (1 :: u16) < length (apics (at_apic (xk_ata demo_worker_kernel)))"
  "worker_ok (worker (apics (at_apic (xk_ata demo_worker_kernel)) ! unat (1 :: u16)))"
  "queued (worker (apics (at_apic (xk_ata demo_worker_kernel)) ! unat (1 :: u16))) = [demo_request]"
  "xk_alloc demo_worker_kernel = xk_alloc demo_xml_kernel" "xmlService demo_worker_kernel = xmlService demo_xml_kernel"
proof -
  obtain w where w: "worker_enqueue demo_request (worker (apics demo_apic_state ! 1)) = Inr w" "worker_ok w" "queued w = [demo_request]"
    using wq.enq_room [OF demo_worker(1) demo_request_ok] demo_worker(2) by (auto simp: IPIoE_QUEUE_LENGTH_def)
  have "apics (at_apic (xk_ata demo_xml_kernel)) = apics demo_apic_state" "length (apics demo_apic_state) = 2"
    by (simp_all add: demo_xml_kernel_def demo_apic_state_def)
  then show "unat (1 :: u16) < length (apics (at_apic (xk_ata demo_worker_kernel)))"
    "worker_ok (worker (apics (at_apic (xk_ata demo_worker_kernel)) ! unat (1 :: u16)))"
    "queued (worker (apics (at_apic (xk_ata demo_worker_kernel)) ! unat (1 :: u16))) = [demo_request]"
    "xk_alloc demo_worker_kernel = xk_alloc demo_xml_kernel" "xmlService demo_worker_kernel = xmlService demo_xml_kernel"
    using w by (simp_all add: demo_worker_kernel_def set_apics_def set_worker_def set_apic_def xk_alloc_def)
qed

theorem worker_answers_request_witness:
  "\<exists>srv eth' sz k'. initAckermannFunctionService demo_service = Inr (5, srv) \<and>
    worker_round (\<lambda>_ _ _. 0) (\<lambda>_ st. st) 1 1 demo_driver demo_eth [0]
      (dispatch_request demo_xml_env \<lparr>ack_m = 7, ack_n = 7\<rparr> 0x1000 (demo_table srv)) demo_worker_kernel = Some (Inr ((eth', sz), k')) \<and>
    h_dest eth' = [2, 0, 0, 0, 0, 7] \<and>
    NetPackets.get_bytes (h_data eth') 16 (unat (dataLength (getIPIOEPacketFromSKB (h_data eth')))) =
      message_text (bytes_of ''Result'') (encode_loop (bytes64 9))"
proof -
  obtain srv where srv: "initAckermannFunctionService demo_service = Inr (5, srv)" "serving (demo_table srv) srv" using demo_serving by blast
  have a: "ackermann 2 3 = 9" by (simp add: numeral_eq_Suc)
  have ans: "answering demo_xml_env demo_worker_kernel" using demo_answering by (simp add: answering_def demo_queue(4,5))
  have room: "heap_at (xk_alloc demo_worker_kernel) + 6300000 < unat (kernel_memory_end_address (xk_alloc demo_worker_kernel))"
    "unat (0x1000 :: u64) + 8 \<le> heap_at (xk_alloc demo_worker_kernel)"
    unfolding demo_queue(4) by (simp_all add: demo_xml_kernel_def xk_alloc_def demo_allocator_def)
  have x: "ipdata demo_request = print_tree (request_doc (of_nat 2) (of_nat 3))" "serviceNumber (ipioe_p demo_request) = 9"
    "methodNumber (ipioe_p demo_request) = 0" "smac demo_request = [2, 0, 0, 0, 0, 7]" by (simp_all add: demo_request_def)
  have "length (h_data demo_eth) = 1600" by (simp add: demo_eth_def)
  from worker_answers_request [OF srv(2) ans room(1) demo_queue(1-3) x(1-3) _ _ room(2) this,
      of "\<lambda>_ _ _. 0" "\<lambda>_ st. st" 1 demo_driver "[]" "\<lparr>ack_m = 7, ack_n = 7\<rparr>"]
  show ?thesis using srv(1) a x(4) by auto
qed

end
