(* ===== verification/Spec2Isabelle.thy ===== *)
theory Spec2Isabelle
  imports FrameAllocator PageTableProofs SharedMemory Services MemUtils Base64 MemCopy InterruptProofs Segments Pci ConsoleDevice E1000Proofs AtaWrite ServiceDemo AcpiProofs Keyboard CoreLoops
begin

text \<open>
  NileOS: a verification library for the kernel (\<open>stage2/\<close>).

  \<^bold>\<open>The program.\<close> NileOS is a multi-core x86-64 kernel. The boot core reads the firmware's
  memory map, builds page tables and the frame allocator, starts the other cores and gives each
  its own page tables and stacks. The parts offer their operations as \<^emph>\<open>services\<close>: a service is
  a table of function pointers, the kernel keeps a table of services, and one part calls another by
  service and method number. Cores on different machines call each other by Ethernet frames that
  end in an interrupt on the target core.

  \<^bold>\<open>Theories and sources.\<close>
  \<^item> \<open>Nile_Prelude\<close>: C integers as words, results with errors, array access with bounds, loops,
    the bitmap interface, shared lemmas.
  \<^item> \<open>Spinlock\<close> (\<open>sync/Spinlock.c\<close>): the operations, and \<open>sl_step\<close>, an interleaving of any
    number of cores with one memory access per step.
  \<^item> \<open>KMalloc\<close> (\<open>memory/KMalloc.c\<close>): the kernel and user bump allocators under their lock.
  \<^item> \<open>Services\<close> (\<open>devices/service\<close>, \<open>devices/service_transport_layer\<close>): registration and
    dispatch.
  \<^item> \<open>MemUtils\<close>, \<open>MemCopy\<close>, \<open>Base64\<close> (\<open>misc/\<close>): searching and comparing memory and strings,
    the chunked copy and exchange, the codec.
  \<^item> \<open>PhysicalMemory\<close> and \<open>FrameAllocator\<close> (\<open>memory/PhysicalMemory.c\<close>): the memory map, the
    frame bitmap with its 2 MiB collections; the second theory relates them to a set of free frames.
  \<^item> \<open>PageTables\<close> and \<open>PageTableProofs\<close> (\<open>memory/MemoryPageMap.c\<close>): tables as a store of
    words addressed by cell, the walk, linking, the pool of last-level tables.
  \<^item> \<open>SharedMemory\<close> (\<open>memory/SharedMemory.c\<close>): the page bitmap and the two services.
  \<^item> \<open>Apic\<close> (\<open>devices/apic\<close>, \<open>misc/CoreUtils.c\<close>, \<open>ipi/ipi.c\<close>): controllers as register
    traces, stacks of the cores, inter-processor interrupts, the move of the boot stack.
  \<^item> \<open>NetPackets\<close> and \<open>PacketProofs\<close> (\<open>ARP.c\<close>, \<open>IP.c\<close>, \<open>ICMP.c\<close>, \<open>misc/checksum.c\<close>):
    frames as byte lists with the fields at their offsets.
  \<^item> \<open>IPIoE\<close> (\<open>IPIoE.c\<close>, \<open>Ethernet.c\<close>): requests between cores of different machines, from
    the sender's frame to the queue of the target core.
  \<^item> \<open>E1000\<close> and \<open>E1000Proofs\<close> (\<open>devices/network/E1000.c\<close>): the network card driver; every access is an
    event, and the card may act after each one.
  \<^item> \<open>Interrupts\<close> and \<open>InterruptProofs\<close> (\<open>interrupts/\<close>, \<open>devices/pit\<close>): the descriptor
    table, the registry of handlers, the common entry and the timer.
  \<^item> \<open>Segments\<close> (\<open>memory/GlobalDescriptorTable.c\<close>, \<open>TSSDescriptor.c\<close>): the segment table of a core
    as the words its bit fields make up.
  \<^item> \<open>Pci\<close> (\<open>devices/pci\<close>): configuration space, the scan of the buses, the lookups.
  \<^item> \<open>ConsoleDevice\<close> (\<open>devices/console\<close>): scrolling terminals and the console that shows one.
  \<^item> \<open>Xml\<close> (\<open>xml/XMLParser.c\<close>, \<open>xml/XQuery.c\<close>, \<open>misc/void_ptr_stack.c\<close>, \<open>misc/numbers.c\<close>): the parser
    that works in place, the tree of nodes it builds, path queries. \<open>XmlDocs\<close>: documents as trees, read back by the
    parser and found by queries.
  \<^item> \<open>Stdio\<close> (\<open>misc/stdio.c\<close>, \<open>misc/printk.c\<close>): templates and printing to the terminals.
  \<^item> \<open>Ports\<close> and \<open>Clock\<close> (\<open>misc/Ports.c\<close>, \<open>misc/ClockUtils.c\<close>): port accesses as a trace; the real-time
    clock and its time stamps.
  \<^item> \<open>Ata\<close>, \<open>AtaProofs\<close>, \<open>AtaTransfer\<close> and \<open>AtaWrite\<close> (\<open>devices/ata\<close>): the disk driver; the tables and commands of
    DMA, a read from the call to the last interrupt, the write that goes too far.
  \<^item> \<open>DiskWait\<close> and \<open>BlockService\<close> (\<open>memory/BlockService.c\<close>): waiting for a read, and block reads through the cache.
  \<^item> \<open>Messages\<close>, \<open>MessageProofs\<close> and \<open>ServiceDemo\<close> (\<open>xml/XMLService.c\<close>, \<open>ConvertTagToXML\<close> of \<open>devices/service/service.c\<close>,
    \<open>dummyServs/AckermannFunction.c\<close>): values as XML messages, written, read back, and a service that answers requests.
  \<^item> \<open>Acpi\<close> and \<open>AcpiProofs\<close> (\<open>devices/acpi/ACPI.c\<close>): the firmware's tables, read for the processors and controllers.
  \<^item> \<open>Keyboard\<close> (\<open>devices/keyboard/keyboard.c\<close>): the interrupt handler and the arrow keys.
  \<^item> \<open>CoreLoops\<close> (\<open>KernelMain.c\<close>): the loops of the worker and the client core, the system call.

  \<^bold>\<open>Modelling.\<close> A struct is a record and an operation a function from the old to the new state.
  Integers have the width of the source; where the source computes in \<open>int\<close> the model uses
  \<^const>\<open>c_int\<close>. An access outside an array and a null pointer are errors of the type
  \<open>result\<close>; a loop that may not end is a \<open>while_option\<close> or a partial function, whose value \<open>None\<close> means that the
  code does not return. The loops of the source that are bounded are recursions on their bound and
  need no fuel. Addresses of frames, words of page tables and bytes of buffers are maps or lists,
  so that aliasing is visible where it matters: overlapping copies, cells of different tables.
  Function pointers are values of a type of method names. Locks are taken as the source does; in
  operations of one core a lock that is held by another one makes the result \<open>None\<close>.

  Hardware is a parameter: what a register or port reads is a function of the writes made before
  (and, for controllers, of the number of reads), what happens while a core halts is a sequence of
  state changes. Theorems that need the hardware to behave state it as a named hypothesis, such as
  \<^const>\<open>latched\<close> for the legacy interrupt controllers or \<^const>\<open>delivers\<close> for
  the local ones. Assembly routines are modelled by the specification in their comments.

  \<^bold>\<open>What is shown.\<close> Mutual exclusion and progress of the lock under every interleaving, with its
  words in step with the holder; disjoint blocks from both allocators for sizes that do not wrap; the
  frame allocator as a refinement of a set of free frames, from boot on, so that no frame is handed
  out twice; the walk inverts linking, and from cleared tables the boot of a core maps the kernel to
  itself; a granted request for shared memory has its pages mapped in every core to the same, fresh collections; a
  registered method is the one a dispatch calls; the codec round-trips inside its buffers (all inputs
  but the empty one); copies and exchanges equal their block specification; echo and ARP requests are
  answered correctly; the network card gets filled descriptors only, its frames are processed in ring
  order, their answers are handed over and the descriptors given back; a request sent on
  one machine arrives in the queue of the right core on another; stacks of cores never overlap;
  the discovery counts the processors the firmware lists and maps their controllers;
  an interrupt other than a page fault reaches its handler; a timer tick wakes the cores that are due; segment and task
  state descriptors decode to what they describe; the PCI inventory is complete and its lookups
  agree; printing stays inside a large enough terminal; parsing ends, and when it returns its nodes are a
  fully linked tree; documents read back, and queries find their nodes where siblings have distinct tags;
  time stamps follow the calendar; a DMA read delivers the sectors it commands the disk to read, and so does the block
  read on top of it where 32 MiB behind its cache buffer may be written; values sent
  as messages are read back, and the worker core answers the requests in its queue; the arrow keys
  lead round the kernel's five terminals without an error while their lines last. The error
  properties show where the code departs from this: locks that stay held, gates that are missing,
  bytes that leak.

  The shared interfaces are locales: a bitmap, an allocator that only grows, a chunked block
  operation, a bounded queue. Each is interpreted on the definitions of the component that provides
  it, and the properties use the facts of the interpretation.

  \<^bold>\<open>Not modelled.\<close> Debugging dumps and the texts the services print about themselves, the driver
  of the RTL8139 card,
  and the boot sequence of the first core in \<open>KernelMain.c\<close>, which calls the initialisations of the parts in order. Assembly, generated code, the host tool in
  \<open>preprocessor/\<close> and source files that are empty or commented out are outside the library.
\<close>

end
